(* ===== verification/Prelude.thy ===== *)
theory Prelude
  imports Main "HOL-Library.Word"
begin

text \<open>
  Shared vocabulary of the development: Rust's machine integers as words with the checked,
  saturating and narrowing operations the source calls, \<open>Result\<close> as a datatype whose third
  constructor stands for a panic, little-endian byte strings, and the slice operations
  (\<open>partition_point\<close>, \<open>Vec::insert\<close>, \<open>copy_from_slice\<close>) with the list lemmas every
  component uses.  The collection \<open>word_nat\<close> moves word comparisons to \<open>nat\<close>.
\<close>

unbundle bit_operations_syntax

section \<open>Machine integers\<close>

type_synonym u8 = "8 word"
type_synonym u16 = "16 word"
type_synonym u32 = "32 word"
type_synonym u64 = "64 word"
type_synonym u128 = "128 word"
type_synonym usize = "64 word"

named_theorems word_nat "word order and equality stated on nat"

lemmas word_order_nat [word_nat] = word_less_nat_alt word_le_nat_alt

definition checked_add :: "'a::len word \<Rightarrow> 'a word \<Rightarrow> 'a word option" where
  "checked_add a b = (if unat a + unat b < 2 ^ LENGTH('a) then Some (a + b) else None)"

definition checked_sub :: "'a::len word \<Rightarrow> 'a word \<Rightarrow> 'a word option" where
  "checked_sub a b = (if b \<le> a then Some (a - b) else None)"

definition checked_mul :: "'a::len word \<Rightarrow> 'a word \<Rightarrow> 'a word option" where
  "checked_mul a b = (if unat a * unat b < 2 ^ LENGTH('a) then Some (a * b) else None)"

definition saturating_add :: "'a::len word \<Rightarrow> 'a word \<Rightarrow> 'a word" where
  "saturating_add a b = (case checked_add a b of Some c \<Rightarrow> c | None \<Rightarrow> - 1)"

definition saturating_sub :: "'a::len word \<Rightarrow> 'a word \<Rightarrow> 'a word" where
  "saturating_sub a b = (if b \<le> a then a - b else 0)"

definition saturating_mul :: "'a::len word \<Rightarrow> 'a word \<Rightarrow> 'a word" where
  "saturating_mul a b = (case checked_mul a b of Some c \<Rightarrow> c | None \<Rightarrow> - 1)"

definition is_multiple_of :: "'a::len word \<Rightarrow> 'a word \<Rightarrow> bool" where
  "is_multiple_of a b = (if b = 0 then a = 0 else a mod b = 0)"

definition is_power_of_two :: "'a::len word \<Rightarrow> bool" where
  "is_power_of_two a \<longleftrightarrow> a \<noteq> 0 \<and> a AND (a - 1) = 0"

definition div_ceil :: "'a::len word \<Rightarrow> 'a word \<Rightarrow> 'a word" where
  "div_ceil a b = (if a mod b = 0 then a div b else a div b + 1)"

definition try_from :: "'a::len word \<Rightarrow> 'b::len word option" where
  "try_from w = (if unat w < 2 ^ LENGTH('b) then Some (ucast w) else None)"

lemma unat_add_no_overflow:
  fixes a b :: "'a::len word"
  assumes "unat a + unat b < 2 ^ LENGTH('a)"
  shows "unat (a + b) = unat a + unat b"
  using assms by (simp add: unat_word_ariths)

lemma unat_mul_no_overflow:
  fixes a b :: "'a::len word"
  assumes "unat a * unat b < 2 ^ LENGTH('a)"
  shows "unat (a * b) = unat a * unat b"
  using assms by (simp add: unat_word_ariths)

lemma unat_sub_le [simp]: "b \<le> a \<Longrightarrow> unat (a - b) = unat a - unat b"
  by (rule unat_sub)

lemma unat_lt_exp: "unat (w :: 'a::len word) < 2 ^ LENGTH('a)"
  by (rule unsigned_less)

lemma unat_ucast_mod: "unat (ucast w :: 'b::len word) = unat w mod 2 ^ LENGTH('b)"
  by (simp add: unsigned_ucast_eq take_bit_eq_mod)

lemma unat_minus_one: "unat (- 1 :: 'a::len word) = 2 ^ LENGTH('a) - 1"
  by (simp add: unsigned_minus_1_eq_mask mask_eq_exp_minus_1)

lemma unat_pred: "a \<noteq> 0 \<Longrightarrow> unat (a - 1 :: 'a::len word) = unat a - 1"
  by (subst unat_sub) (auto simp: word_nat Suc_le_eq unat_gt_0)

lemma unat_of_nat_id: "n < 2 ^ LENGTH('a) \<Longrightarrow> unat (of_nat n :: 'a::len word) = n"
  by (simp add: unat_of_nat take_bit_eq_mod)

lemma unat_add_of_nat:
  fixes a :: "'a::len word"
  assumes "unat a + n < 2 ^ LENGTH('a)"
  shows "unat (a + of_nat n) = unat a + n"
proof -
  have "n < 2 ^ LENGTH('a)" using assms by linarith
  then have "unat (of_nat n :: 'a word) = n" by (rule unat_of_nat_id)
  then show ?thesis using assms by (simp add: unat_add_no_overflow)
qed

lemma unat_bound64: "unat (w :: u64) < 18446744073709551616"
  using unat_lt_exp [of w] by simp

lemma unat_bound16: "unat (w :: u16) < 65536"
  using unat_lt_exp [of w] by simp

lemma unat_bound32: "unat (w :: u32) < 4294967296"
  using unat_lt_exp [of w] by simp

lemma checked_add_Some_iff:
  fixes a b c :: "'a::len word"
  shows "checked_add a b = Some c \<longleftrightarrow> unat c = unat a + unat b"
proof
  assume "checked_add a b = Some c"
  then show "unat c = unat a + unat b"
    by (auto simp: checked_add_def unat_add_no_overflow split: if_splits)
next
  assume eq: "unat c = unat a + unat b"
  then have lt: "unat a + unat b < 2 ^ LENGTH('a)"
    by (metis unat_lt_exp)
  with eq have "unat c = unat (a + b)"
    by (simp add: unat_add_no_overflow)
  then show "checked_add a b = Some c"
    using lt by (simp add: checked_add_def word_unat_eq_iff)
qed

lemma checked_add_None_iff:
  fixes a b :: "'a::len word"
  shows "checked_add a b = None \<longleftrightarrow> 2 ^ LENGTH('a) \<le> unat a + unat b"
  by (auto simp: checked_add_def)

lemma checked_mul_Some_iff:
  fixes a b c :: "'a::len word"
  shows "checked_mul a b = Some c \<longleftrightarrow> unat c = unat a * unat b"
proof
  assume "checked_mul a b = Some c"
  then show "unat c = unat a * unat b"
    by (auto simp: checked_mul_def unat_mul_no_overflow split: if_splits)
next
  assume eq: "unat c = unat a * unat b"
  then have lt: "unat a * unat b < 2 ^ LENGTH('a)"
    by (metis unat_lt_exp)
  with eq have "unat c = unat (a * b)"
    by (simp add: unat_mul_no_overflow)
  then show "checked_mul a b = Some c"
    using lt by (simp add: checked_mul_def word_unat_eq_iff)
qed

lemma checked_mul_None_iff:
  fixes a b :: "'a::len word"
  shows "checked_mul a b = None \<longleftrightarrow> 2 ^ LENGTH('a) \<le> unat a * unat b"
  by (auto simp: checked_mul_def)

lemma checked_sub_Some_iff:
  "checked_sub a b = Some c \<longleftrightarrow> b \<le> a \<and> c = a - b"
  by (auto simp: checked_sub_def)

lemma checked_sub_None_iff: "checked_sub a b = None \<longleftrightarrow> a < b"
  by (auto simp: checked_sub_def)

lemma unat_saturating_add:
  fixes a b :: "'a::len word"
  shows "unat (saturating_add a b) = min (unat a + unat b) (2 ^ LENGTH('a) - 1)"
proof (cases "checked_add a b")
  case None
  then have le: "2 ^ LENGTH('a) \<le> unat a + unat b"
    by (simp only: checked_add_None_iff)
  have "unat (saturating_add a b) = 2 ^ LENGTH('a) - 1"
    using None by (simp add: saturating_add_def unat_minus_one)
  then show ?thesis using le by simp
next
  case (Some c)
  then have c: "unat c = unat a + unat b"
    by (simp only: checked_add_Some_iff)
  moreover have "unat c < 2 ^ LENGTH('a)" by (rule unat_lt_exp)
  ultimately show ?thesis
    using Some by (simp add: saturating_add_def)
qed

lemma unat_saturating_sub: "unat (saturating_sub a b) = unat a - unat b"
  by (auto simp: saturating_sub_def word_nat)

lemma unat_saturating_mul:
  fixes a b :: "'a::len word"
  shows "unat (saturating_mul a b) = min (unat a * unat b) (2 ^ LENGTH('a) - 1)"
proof (cases "checked_mul a b")
  case None
  then have le: "2 ^ LENGTH('a) \<le> unat a * unat b"
    by (simp only: checked_mul_None_iff)
  have "unat (saturating_mul a b) = 2 ^ LENGTH('a) - 1"
    using None by (simp add: saturating_mul_def unat_minus_one)
  then show ?thesis using le by simp
next
  case (Some c)
  then have c: "unat c = unat a * unat b"
    by (simp only: checked_mul_Some_iff)
  moreover have "unat c < 2 ^ LENGTH('a)" by (rule unat_lt_exp)
  ultimately show ?thesis
    using Some by (simp add: saturating_mul_def)
qed

lemma is_multiple_of_nat: "is_multiple_of a b \<longleftrightarrow> unat b dvd unat a"
proof (cases "b = 0")
  case True
  then show ?thesis by (simp add: is_multiple_of_def unat_eq_zero)
next
  case False
  have "a mod b = 0 \<longleftrightarrow> unat (a mod b) = 0"
    by (simp add: unat_eq_zero)
  then show ?thesis
    using False by (simp add: is_multiple_of_def unat_mod dvd_eq_mod_eq_0)
qed

lemma try_from_Some_iff:
  fixes w :: "'a::len word" and v :: "'b::len word"
  shows "try_from w = Some v \<longleftrightarrow> unat v = unat w"
proof
  assume "try_from w = Some v"
  then show "unat v = unat w"
    by (auto simp: try_from_def unat_ucast_mod split: if_splits)
next
  assume eq: "unat v = unat w"
  then have lt: "unat w < 2 ^ LENGTH('b)"
    by (metis unat_lt_exp)
  with eq have "v = ucast w"
    by (simp add: word_unat_eq_iff unat_ucast_mod)
  then show "try_from w = Some v"
    using lt by (simp add: try_from_def)
qed

lemma try_from_same [simp]: "try_from (w :: 'a::len word) = (Some w :: 'a word option)"
  by (simp add: try_from_Some_iff)

lemma nat_div_ceil:
  fixes a b :: nat
  assumes "0 < b"
  shows "(a + b - 1) div b = (if a mod b = 0 then a div b else Suc (a div b))"
proof -
  define q r where "q = a div b" and "r = a mod b"
  have a: "a = b * q + r" and r: "r < b"
    using assms by (simp_all add: q_def r_def)
  show ?thesis
  proof (cases "r = 0")
    case True
    have "(a + b - 1) div b = q"
      using a True assms by (intro div_nat_eqI) (auto simp: algebra_simps)
    then show ?thesis using True by (simp add: q_def r_def)
  next
    case False
    have "(a + b - 1) div b = Suc q"
      using a False r by (intro div_nat_eqI) (auto simp: algebra_simps)
    then show ?thesis using False by (simp add: q_def r_def)
  qed
qed

lemma unat_div_ceil:
  fixes a b :: "'a::len word"
  assumes "b \<noteq> 0"
  shows "unat (div_ceil a b) = (unat a + unat b - 1) div unat b"
proof -
  have b: "0 < unat b" using assms by (simp add: unat_gt_0)
  have mod0: "a mod b = 0 \<longleftrightarrow> unat a mod unat b = 0"
    by (simp add: unat_eq_zero flip: unat_mod)
  show ?thesis
  proof (cases "unat a mod unat b = 0")
    case True
    then show ?thesis
      unfolding nat_div_ceil [OF b] using mod0 by (simp add: div_ceil_def unat_div)
  next
    case False
    have "unat a div unat b < unat a"
    proof (rule div_less_dividend)
      show "1 < unat b" using False b by (cases "unat b = 1") auto
      show "0 < unat a" using False by (cases "unat a = 0") auto
    qed
    then have "Suc (unat a div unat b) < 2 ^ LENGTH('a)"
      by (meson Suc_leI le_less_trans unat_lt_exp)
    then have "unat (a div b) + unat (1 :: 'a word) < 2 ^ LENGTH('a)"
      by (simp add: unat_div)
    then have "unat (a div b + 1) = Suc (unat a div unat b)"
      by (simp add: unat_add_no_overflow unat_div)
    then show ?thesis
      unfolding nat_div_ceil [OF b] using False mod0 by (simp add: div_ceil_def)
  qed
qed

subsection \<open>Powers of two and rounding\<close>

lemma lowest_bit_minus_one:
  fixes a :: "'a::len word"
  assumes k: "bit a k" and low: "\<And>j. j < k \<Longrightarrow> \<not> bit a j"
  shows "a - 1 = unset_bit k a OR mask k"
proof -
  have kl: "k < LENGTH('a)" using k by (rule bit_imp_le_length)
  have "a = unset_bit k a OR 2 ^ k"
    using k kl by (intro bit_word_eqI) (auto simp: bit_simps)
  also have "\<dots> = unset_bit k a + 2 ^ k"
    by (rule disjunctive_add [symmetric]) (auto simp: bit_simps)
  finally have "a - 1 = unset_bit k a + (2 ^ k - 1)"
    by (metis add_diff_eq)
  also have "\<dots> = unset_bit k a + mask k"
    by (simp add: mask_eq_exp_minus_1)
  also have "\<dots> = unset_bit k a OR mask k"
    by (rule disjunctive_add) (auto simp: bit_simps low)
  finally show ?thesis .
qed

lemma is_power_of_twoD:
  fixes a :: "'a::len word"
  assumes "is_power_of_two a"
  obtains k where "k < LENGTH('a)" and "a = 2 ^ k"
proof -
  from assms have nz: "a \<noteq> 0" and z: "a AND (a - 1) = 0"
    by (simp_all add: is_power_of_two_def)
  from nz obtain n where "bit a n"
    by (auto simp: bit_eq_iff)
  define k where "k = (LEAST n. bit a n)"
  have k: "bit a k" unfolding k_def using \<open>bit a n\<close> by (rule LeastI)
  have low: "\<not> bit a j" if "j < k" for j
    using that unfolding k_def by (rule not_less_Least)
  have other: "\<not> bit a j" if "j \<noteq> k" for j
  proof
    assume "bit a j"
    with that have "bit (a AND (a - 1)) j"
      using lowest_bit_minus_one [OF k low]
      by (auto simp: bit_simps dest: bit_imp_le_length)
    with z show False by simp
  qed
  have kl: "k < LENGTH('a)" using k by (rule bit_imp_le_length)
  have "a = 2 ^ k"
    using k kl other by (intro bit_word_eqI) (auto simp: bit_simps)
  with kl show thesis by (rule that)
qed

lemma unat_two_power: "k < LENGTH('a) \<Longrightarrow> unat (2 ^ k :: 'a::len word) = 2 ^ k"
  by (rule bit_eqI) (auto simp: bit_simps)

lemma is_power_of_two_nat:
  fixes a :: "'a::len word"
  assumes "is_power_of_two a"
  obtains k where "k < LENGTH('a)" and "a = 2 ^ k" and "unat a = 2 ^ k"
  using assms by (metis is_power_of_twoD unat_two_power)

lemma unat_and_not_mask:
  fixes x :: "'a::len word"
  shows "unat (x AND NOT (mask k)) = unat x div 2 ^ k * 2 ^ k"
proof -
  have "unat (x AND NOT (mask k)) = push_bit k (drop_bit k (unat x))"
    by (rule bit_eqI) (auto simp: bit_simps dest: bit_imp_le_length)
  then show ?thesis by (simp add: push_bit_eq_mult drop_bit_eq_div)
qed

definition trailing_zeros :: "'a::len word \<Rightarrow> nat" where
  "trailing_zeros w = length (takeWhile (\<lambda>i. \<not> bit w i) [0..<LENGTH('a)])"

lemma clear_lowest_bit_less:
  fixes w :: "'a::len word"
  assumes "w \<noteq> 0"
  shows "unat (w AND (w - 1)) < unat w"
proof -
  have "w AND (w - 1) \<le> w - 1" by (rule word_and_le1)
  then have "unat (w AND (w - 1)) \<le> unat w - 1"
    using assms by (simp add: word_nat unat_pred)
  then show ?thesis using assms by (simp add: unat_gt_0 less_eq_Suc_le [symmetric] le_less_trans Suc_le_eq)
qed

lemma trailing_zeros_least:
  fixes w :: "'a::len word"
  assumes "w \<noteq> 0"
  shows "bit w (trailing_zeros w)" and "trailing_zeros w < LENGTH('a)"
    and "j < trailing_zeros w \<Longrightarrow> \<not> bit w j"
proof -
  let ?p = "\<lambda>i. \<not> bit w i" and ?xs = "[0..<LENGTH('a)]"
  obtain n where n: "bit w n" "n < LENGTH('a)"
    using assms by (metis bit_imp_le_length bit_0_eq bit_word_eqI bot_fun_def bot_bool_def)
  show lt: "trailing_zeros w < LENGTH('a)"
  proof (rule ccontr)
    assume "\<not> trailing_zeros w < LENGTH('a)"
    then have "takeWhile ?p ?xs = ?xs"
      using length_takeWhile_le [of ?p ?xs] unfolding trailing_zeros_def
      by (metis diff_zero le_antisym length_upt not_less takeWhile_eq_take take_all_iff)
    then show False using n by (simp add: takeWhile_eq_all_conv)
  qed
  show "bit w (trailing_zeros w)"
    using nth_length_takeWhile [of ?p ?xs] lt by (simp add: trailing_zeros_def)
  show "\<not> bit w j" if "j < trailing_zeros w"
    using takeWhile_nth [of j ?p ?xs] set_takeWhileD [of j ?p ?xs] that lt nth_mem [of j "takeWhile ?p ?xs"]
    by (simp add: trailing_zeros_def)
qed

lemma clear_lowest_bit:
  fixes w :: "'a::len word"
  assumes "w \<noteq> 0"
  shows "w AND (w - 1) = unset_bit (trailing_zeros w) w"
proof -
  note t = trailing_zeros_least [OF assms]
  have "w - 1 = unset_bit (trailing_zeros w) w OR mask (trailing_zeros w)"
    by (rule lowest_bit_minus_one) (use t in auto)
  then show ?thesis
    using t by (intro bit_word_eqI) (auto simp: bit_simps)
qed

lemma filter_bits_step:
  fixes w :: "'a::len word"
  assumes "w \<noteq> 0"
  shows "filter (bit w) [0..<LENGTH('a)] =
         trailing_zeros w # filter (bit (w AND (w - 1))) [0..<LENGTH('a)]"
proof -
  define k where "k = trailing_zeros w"
  note t = trailing_zeros_least [OF assms, folded k_def]
  have u: "[0..<LENGTH('a)] = [0..<k] @ k # [Suc k..<LENGTH('a)]"
    using t(2) by (metis le0 less_imp_le_nat upt_add_eq_append upt_conv_Cons le_add_diff_inverse plus_nat.add_0)
  have b: "bit (w AND (w - 1)) j \<longleftrightarrow> j \<noteq> k \<and> bit w j" for j
    unfolding clear_lowest_bit [OF assms] k_def by (auto simp: bit_simps)
  have "filter (bit w) [0..<k] = []" "filter (bit (w AND (w - 1))) [0..<k] = []"
    using t(3) b by (auto simp: filter_empty_conv)
  moreover have "filter (bit (w AND (w - 1))) [Suc k..<LENGTH('a)] = filter (bit w) [Suc k..<LENGTH('a)]"
    by (rule filter_cong) (auto simp: b)
  ultimately show ?thesis
    using t(1) b unfolding u by (simp add: k_def)
qed

section \<open>Results and panics\<close>

text \<open>
  \<open>Result<T, E>\<close> with one more constructor: \<open>Panic\<close> is the outcome of an operation that
  aborts the thread (an unchecked subtraction below zero with overflow checks on, a slice split
  past its end).  The theorems about such operations show that \<open>Panic\<close> is not reached.
\<close>

datatype ('a, 'e) result = Ok 'a | Err 'e | Panic

fun and_then :: "('a, 'e) result \<Rightarrow> ('a \<Rightarrow> ('b, 'e) result) \<Rightarrow> ('b, 'e) result" where
  "and_then (Ok x) f = f x"
| "and_then (Err e) f = Err e"
| "and_then Panic f = Panic"

fun map_err :: "('e \<Rightarrow> 'f) \<Rightarrow> ('a, 'e) result \<Rightarrow> ('a, 'f) result" where
  "map_err f (Ok x) = Ok x"
| "map_err f (Err e) = Err (f e)"
| "map_err f Panic = Panic"

fun ok_or :: "'a option \<Rightarrow> 'e \<Rightarrow> ('a, 'e) result" where
  "ok_or (Some x) e = Ok x"
| "ok_or None e = Err e"

fun is_ok :: "('a, 'e) result \<Rightarrow> bool" where
  "is_ok (Ok x) = True"
| "is_ok _ = False"

definition sub_or_panic :: "'a::len word \<Rightarrow> 'a word \<Rightarrow> ('a word, 'e) result" where
  "sub_or_panic a b = (if b \<le> a then Ok (a - b) else Panic)"

definition rem_or_panic :: "'a::len word \<Rightarrow> 'a word \<Rightarrow> ('a word, 'e) result" where
  "rem_or_panic a b = (if b = 0 then Panic else Ok (a mod b))"

lemma and_then_Ok_iff: "and_then r f = Ok y \<longleftrightarrow> (\<exists>x. r = Ok x \<and> f x = Ok y)"
  by (cases r) auto

lemma and_then_Err_iff:
  "and_then r f = Err e \<longleftrightarrow> r = Err e \<or> (\<exists>x. r = Ok x \<and> f x = Err e)"
  by (cases r) auto

lemma and_then_Panic_iff: "and_then r f = Panic \<longleftrightarrow> r = Panic \<or> (\<exists>x. r = Ok x \<and> f x = Panic)"
  by (cases r) auto

lemma map_err_Ok_iff [simp]: "map_err f r = Ok x \<longleftrightarrow> r = Ok x"
  by (cases r) auto

lemma map_err_Panic_iff [simp]: "map_err f r = Panic \<longleftrightarrow> r = Panic"
  by (cases r) auto

lemma map_err_Err_iff: "map_err f r = Err e \<longleftrightarrow> (\<exists>e'. r = Err e' \<and> e = f e')"
  by (cases r) auto

lemma ok_or_Ok_iff [simp]: "ok_or x e = Ok y \<longleftrightarrow> x = Some y"
  by (cases x) auto

lemma ok_or_not_Panic [simp]: "ok_or x e \<noteq> Panic"
  by (cases x) auto

lemma ok_or_Err_iff: "ok_or x e = Err e' \<longleftrightarrow> x = None \<and> e' = e"
  by (cases x) auto

lemma is_ok_iff: "is_ok r \<longleftrightarrow> (\<exists>x. r = Ok x)"
  by (cases r) auto

lemmas result_iffs = and_then_Ok_iff and_then_Err_iff and_then_Panic_iff map_err_Err_iff
  ok_or_Err_iff

section \<open>Slices and vectors\<close>

text \<open>
  \<open>slice::partition_point\<close> on a slice partitioned by the predicate: the number of leading
  elements that satisfy it.  Every call of the source is on a vector kept sorted by the key the
  predicate compares.
\<close>

definition partition_point :: "('a \<Rightarrow> bool) \<Rightarrow> 'a list \<Rightarrow> nat" where
  "partition_point p xs = length (takeWhile p xs)"

definition vec_insert :: "nat \<Rightarrow> 'a \<Rightarrow> 'a list \<Rightarrow> 'a list" where
  "vec_insert i x xs = take i xs @ x # drop i xs"

definition vec_remove :: "nat \<Rightarrow> 'a list \<Rightarrow> 'a list" where
  "vec_remove i xs = take i xs @ drop (Suc i) xs"

definition vec_get :: "'a list \<Rightarrow> nat \<Rightarrow> 'a option" where
  "vec_get xs i = (if i < length xs then Some (xs ! i) else None)"

fun position :: "('a \<Rightarrow> bool) \<Rightarrow> 'a list \<Rightarrow> nat option" where
  "position p [] = None"
| "position p (x # xs) = (if p x then Some 0 else map_option Suc (position p xs))"

text \<open>\<open>copy\<close> of a block of bytes over part of a buffer.\<close>

definition overwrite :: "nat \<Rightarrow> 'a list \<Rightarrow> 'a list \<Rightarrow> 'a list" where
  "overwrite off ys xs = take off xs @ ys @ drop (off + length ys) xs"

lemma set_vec_insert [simp]: "set (vec_insert i x xs) = insert x (set xs)"
  by (auto simp: vec_insert_def dest: in_set_takeD in_set_dropD)
     (metis Un_iff append_take_drop_id set_append)

lemma partition_point_le: "partition_point p xs \<le> length xs"
  by (simp add: partition_point_def length_takeWhile_le)

lemma take_partition_point: "take (partition_point p xs) xs = takeWhile p xs"
  unfolding partition_point_def by (rule takeWhile_eq_take [symmetric])

lemma drop_partition_point: "drop (partition_point p xs) xs = dropWhile p xs"
  unfolding partition_point_def by (rule dropWhile_eq_drop [symmetric])

lemma vec_insert_partition_point:
  "vec_insert (partition_point p xs) x xs = takeWhile p xs @ x # dropWhile p xs"
  by (simp add: vec_insert_def take_partition_point drop_partition_point)

lemma set_vec_remove:
  assumes "distinct xs" and "i < length xs"
  shows "set (vec_remove i xs) = set xs - {xs ! i}"
proof -
  have "xs = take i xs @ xs ! i # drop (Suc i) xs" by (rule id_take_nth_drop [OF assms(2)])
  then show ?thesis
    using assms(1) unfolding vec_remove_def
    by (metis (no_types, lifting) Diff_insert_absorb Un_insert_right distinct.simps(2) distinct_append
        disjoint_iff insert_iff list.simps(15) set_append Un_iff)
qed

lemma in_set_vec_removeD: "x \<in> set (vec_remove i xs) \<Longrightarrow> x \<in> set xs"
  by (auto simp: vec_remove_def dest: in_set_takeD in_set_dropD)

lemma map_vec_remove: "map f (vec_remove i xs) = vec_remove i (map f xs)"
  by (simp add: vec_remove_def take_map drop_map)

lemma position_Some_iff:
  "position p xs = Some i \<longleftrightarrow> i < length xs \<and> p (xs ! i) \<and> (\<forall>j<i. \<not> p (xs ! j))"
  by (induction xs arbitrary: i) (auto simp: nth_Cons less_Suc_eq_0_disj split: nat.splits)

lemma position_None_iff: "position p xs = None \<longleftrightarrow> (\<forall>x\<in>set xs. \<not> p x)"
  by (induction xs) auto

lemma length_overwrite [simp]: "off + length ys \<le> length xs \<Longrightarrow> length (overwrite off ys xs) = length xs"
  by (simp add: overwrite_def)

lemma nth_overwrite:
  "off + length ys \<le> length xs \<Longrightarrow> i < length xs \<Longrightarrow>
   overwrite off ys xs ! i = (if off \<le> i \<and> i < off + length ys then ys ! (i - off) else xs ! i)"
  by (auto simp: overwrite_def nth_append min_def)

section \<open>Little-endian bytes\<close>

fun le_bytes :: "nat \<Rightarrow> 'a::len word \<Rightarrow> u8 list" where
  "le_bytes 0 w = []"
| "le_bytes (Suc n) w = ucast w # le_bytes n (drop_bit 8 w)"

definition to_le_bytes :: "'a::len word \<Rightarrow> u8 list" where
  "to_le_bytes w = le_bytes (LENGTH('a) div 8) w"

fun from_le_bytes :: "u8 list \<Rightarrow> 'a::len word" where
  "from_le_bytes [] = 0"
| "from_le_bytes (b # bs) = ucast b OR push_bit 8 (from_le_bytes bs)"

lemma length_le_bytes [simp]: "length (le_bytes n w) = n"
  by (induction n arbitrary: w) auto

lemma length_to_le_bytes [simp]: "length (to_le_bytes (w :: 'a::len word)) = LENGTH('a) div 8"
  by (simp add: to_le_bytes_def)

lemma from_le_bytes_le_bytes: "from_le_bytes (le_bytes n w) = take_bit (8 * n) w"
proof (induction n arbitrary: w)
  case 0
  then show ?case by simp
next
  case (Suc n)
  have "ucast (ucast w :: u8) OR push_bit 8 (take_bit (8 * n) (drop_bit 8 w)) = take_bit (8 + 8 * n) w"
    by (rule bit_word_eqI) (auto simp: bit_simps)
  then show ?case by (simp add: Suc.IH)
qed

lemma from_to_le_bytes:
  fixes w :: "'a::len word"
  assumes "8 dvd LENGTH('a)"
  shows "from_le_bytes (to_le_bytes w) = w"
  using assms by (simp add: to_le_bytes_def from_le_bytes_le_bytes)

lemma from_to_le_bytes_u16 [simp]: "from_le_bytes (to_le_bytes (w :: u16)) = w"
  by (rule from_to_le_bytes) simp

lemma from_to_le_bytes_u32 [simp]: "from_le_bytes (to_le_bytes (w :: u32)) = w"
  by (rule from_to_le_bytes) simp

lemma from_to_le_bytes_u64 [simp]: "from_le_bytes (to_le_bytes (w :: u64)) = w"
  by (rule from_to_le_bytes) simp

end
