(* ===== verification/Address_Range.thy ===== *)
theory Address_Range
  imports Prelude
begin

text \<open>
  Guest-physical address ranges, the RAM layout and the aarch64 memory map, from the first part
  of \<open>crates/runtime/src/memory.rs\<close>.  The newtype \<open>GuestAddress\<close> is its raw \<open>u64\<close>.
  Besides the operations, the theory holds the reference notions the components share: the set
  of addresses of a range, lists of ranges that are ordered and disjoint, and the interface
  \<open>range_table\<close> of a table of disjoint ranges (guest RAM, dirty bitmap, MMIO bus).
\<close>

section \<open>Addresses and ranges\<close>

type_synonym guest_address = u64

record guest_memory_range =
  gmr_start :: guest_address
  gmr_size :: u64
  gmr_end_exclusive :: guest_address

datatype guest_memory_error =
    EmptyLayout
  | EmptyRange guest_address
  | AddressOverflow guest_address u64
  | InvalidAlignment u64
  | UnalignedRange guest_memory_range u64
  | UnorderedRange guest_memory_range guest_memory_range
  | OverlappingRange guest_memory_range guest_memory_range

definition validate_alignment :: "u64 \<Rightarrow> (unit, guest_memory_error) result" where
  "validate_alignment alignment =
     (if alignment = 0 \<or> \<not> is_power_of_two alignment then Err (InvalidAlignment alignment) else Ok ())"

definition is_aligned :: "guest_address \<Rightarrow> u64 \<Rightarrow> (bool, guest_memory_error) result" where
  "is_aligned a alignment =
     and_then (validate_alignment alignment) (\<lambda>_. Ok (is_multiple_of a alignment))"

definition range_new :: "guest_address \<Rightarrow> u64 \<Rightarrow> (guest_memory_range, guest_memory_error) result" where
  "range_new start sz =
     (if sz = 0 then Err (EmptyRange start)
      else case checked_add start sz of
             None \<Rightarrow> Err (AddressOverflow start sz)
           | Some e \<Rightarrow> Ok \<lparr>gmr_start = start, gmr_size = sz, gmr_end_exclusive = e\<rparr>)"

definition overlaps :: "guest_memory_range \<Rightarrow> guest_memory_range \<Rightarrow> bool" where
  "overlaps r s \<longleftrightarrow> gmr_start r < gmr_end_exclusive s \<and> gmr_start s < gmr_end_exclusive r"

definition is_adjacent_to :: "guest_memory_range \<Rightarrow> guest_memory_range \<Rightarrow> bool" where
  "is_adjacent_to r s \<longleftrightarrow> gmr_end_exclusive r = gmr_start s \<or> gmr_end_exclusive s = gmr_start r"

definition contains :: "guest_memory_range \<Rightarrow> guest_address \<Rightarrow> bool" where
  "contains r a \<longleftrightarrow> gmr_start r \<le> a \<and> a < gmr_end_exclusive r"

definition range_validate_alignment ::
    "guest_memory_range \<Rightarrow> u64 \<Rightarrow> (unit, guest_memory_error) result" where
  "range_validate_alignment r alignment =
     and_then (validate_alignment alignment)
       (\<lambda>_. if is_multiple_of (gmr_start r) alignment \<and> is_multiple_of (gmr_size r) alignment
            then Ok () else Err (UnalignedRange r alignment))"

definition guest_memory_range_contains :: "guest_memory_range \<Rightarrow> guest_memory_range \<Rightarrow> bool" where
  "guest_memory_range_contains outer inner \<longleftrightarrow>
     gmr_start outer \<le> gmr_start inner \<and> gmr_end_exclusive inner \<le> gmr_end_exclusive outer"

definition overlapping_ranges_error ::
    "guest_memory_range \<Rightarrow> guest_memory_range \<Rightarrow> guest_memory_error" where
  "overlapping_ranges_error first second =
     (if gmr_start first \<le> gmr_start second then OverlappingRange first second
      else OverlappingRange second first)"

subsection \<open>The set of addresses of a range\<close>

definition range_wf :: "guest_memory_range \<Rightarrow> bool" where
  "range_wf r \<longleftrightarrow> gmr_size r \<noteq> 0 \<and> unat (gmr_end_exclusive r) = unat (gmr_start r) + unat (gmr_size r)"

definition addresses :: "guest_memory_range \<Rightarrow> guest_address set" where
  "addresses r = {a. contains r a}"

lemma range_new_Ok_iff:
  "range_new start sz = Ok r \<longleftrightarrow> range_wf r \<and> gmr_start r = start \<and> gmr_size r = sz"
proof (cases "checked_add start sz")
  case None
  have "\<not> unat (gmr_end_exclusive r) = unat start + unat sz"
    using None by (metis checked_add_Some_iff option.distinct(1))
  with None show ?thesis by (auto simp: range_new_def range_wf_def)
next
  case (Some e)
  then have "unat e = unat start + unat sz" by (simp only: checked_add_Some_iff)
  with Some show ?thesis
    by (auto simp: range_new_def range_wf_def word_unat_eq_iff
        intro: guest_memory_range.equality)
qed

lemma range_new_not_Panic [simp]: "range_new start sz \<noteq> Panic"
  by (simp add: range_new_def split: option.splits)

lemma range_new_is_Ok_iff:
  "is_ok (range_new start sz) \<longleftrightarrow> sz \<noteq> 0 \<and> unat start + unat sz < 2 ^ 64"
  by (auto simp: range_new_def checked_add_def split: option.splits if_splits)

lemma range_wf_nonempty: "range_wf r \<Longrightarrow> gmr_start r < gmr_end_exclusive r"
  by (simp add: range_wf_def word_nat unat_gt_0)

lemma range_wf_start_contained: "range_wf r \<Longrightarrow> contains r (gmr_start r)"
  by (simp add: contains_def range_wf_nonempty)

lemma mem_addresses [simp]: "a \<in> addresses r \<longleftrightarrow> contains r a"
  by (simp add: addresses_def)

lemma overlaps_sym: "overlaps r s \<longleftrightarrow> overlaps s r"
  by (auto simp: overlaps_def)

lemma overlaps_iff_common_address:
  assumes "range_wf r" and "range_wf s"
  shows "overlaps r s \<longleftrightarrow> addresses r \<inter> addresses s \<noteq> {}"
proof
  assume "overlaps r s"
  then have "max (gmr_start r) (gmr_start s) \<in> addresses r \<inter> addresses s"
    using range_wf_nonempty [OF assms(1)] range_wf_nonempty [OF assms(2)]
    by (auto simp: overlaps_def contains_def max_def)
  then show "addresses r \<inter> addresses s \<noteq> {}" by blast
next
  assume "addresses r \<inter> addresses s \<noteq> {}"
  then show "overlaps r s"
    by (auto simp: overlaps_def contains_def)
qed

lemma range_contains_iff_subset:
  assumes "range_wf outer" and "range_wf inner"
  shows "guest_memory_range_contains outer inner \<longleftrightarrow> addresses inner \<subseteq> addresses outer"
proof
  assume "guest_memory_range_contains outer inner"
  then show "addresses inner \<subseteq> addresses outer"
    by (auto simp: guest_memory_range_contains_def contains_def)
next
  assume sub: "addresses inner \<subseteq> addresses outer"
  let ?last = "gmr_end_exclusive inner - 1"
  have lt: "unat (gmr_start inner) < unat (gmr_end_exclusive inner)"
    using range_wf_nonempty [OF assms(2)] by (simp add: word_nat)
  then have last: "unat ?last = unat (gmr_end_exclusive inner) - 1"
    by (subst unat_sub_le) (auto simp: word_nat)
  then have "contains inner ?last"
    using lt by (simp add: contains_def word_nat)
  with sub have "contains outer ?last" and "contains outer (gmr_start inner)"
    using range_wf_start_contained [OF assms(2)] by auto
  then show "guest_memory_range_contains outer inner"
    using lt last by (auto simp: guest_memory_range_contains_def contains_def word_nat)
qed

subsection \<open>Ordered lists of disjoint ranges\<close>

definition range_before :: "guest_memory_range \<Rightarrow> guest_memory_range \<Rightarrow> bool" where
  "range_before r s \<longleftrightarrow> gmr_end_exclusive r \<le> gmr_start s"

definition ordered_disjoint :: "guest_memory_range list \<Rightarrow> bool" where
  "ordered_disjoint rs \<longleftrightarrow> (\<forall>r\<in>set rs. range_wf r) \<and> sorted_wrt range_before rs"

lemma ordered_disjoint_Nil [simp]: "ordered_disjoint []"
  by (simp add: ordered_disjoint_def)

lemma ordered_disjoint_Cons [simp]:
  "ordered_disjoint (r # rs) \<longleftrightarrow>
     range_wf r \<and> (\<forall>s\<in>set rs. range_before r s) \<and> ordered_disjoint rs"
  by (auto simp: ordered_disjoint_def)

lemma ordered_disjoint_append:
  "ordered_disjoint (rs @ ss) \<longleftrightarrow>
     ordered_disjoint rs \<and> ordered_disjoint ss \<and> (\<forall>r\<in>set rs. \<forall>s\<in>set ss. range_before r s)"
  by (auto simp: ordered_disjoint_def sorted_wrt_append)

lemma ordered_disjoint_wf: "ordered_disjoint rs \<Longrightarrow> r \<in> set rs \<Longrightarrow> range_wf r"
  by (simp add: ordered_disjoint_def)

lemma range_before_trans:
  "range_before r s \<Longrightarrow> range_wf s \<Longrightarrow> range_before s t \<Longrightarrow> range_before r t"
  using range_wf_nonempty [of s] by (auto simp: range_before_def)

lemma range_before_not_overlaps: "range_before r s \<Longrightarrow> \<not> overlaps r s"
  by (auto simp: range_before_def overlaps_def)

lemma not_overlaps_before:
  "range_wf s \<Longrightarrow> \<not> overlaps r s \<Longrightarrow> gmr_start r < gmr_start s \<Longrightarrow> range_before r s"
  using range_wf_nonempty [of s] by (auto simp: range_before_def overlaps_def)

lemma not_overlaps_before_le:
  "range_wf r \<Longrightarrow> range_wf s \<Longrightarrow> \<not> overlaps r s \<Longrightarrow> gmr_start r \<le> gmr_start s \<Longrightarrow> range_before r s"
  using range_wf_nonempty [of r] range_wf_nonempty [of s]
  by (auto simp: range_before_def overlaps_def)

lemma range_before_start_less:
  "range_wf r \<Longrightarrow> range_before r s \<Longrightarrow> gmr_start r < gmr_start s"
  using range_wf_nonempty [of r] by (auto simp: range_before_def)

lemma ordered_disjoint_unique:
  assumes "ordered_disjoint rs" and "r \<in> set rs" and "s \<in> set rs"
    and "contains r a" and "contains s a"
  shows "r = s"
  using assms
proof (induction rs)
  case (Cons t rs)
  have "\<not> contains t a" if "u \<in> set rs" and "contains u a" for u
    using Cons.prems(1) that by (auto simp: range_before_def contains_def)
  with Cons show ?case by auto
qed simp

lemma ordered_disjoint_distinct: "ordered_disjoint rs \<Longrightarrow> distinct rs"
  by (induction rs) (auto dest: range_before_start_less)

lemma ordered_disjoint_starts: "ordered_disjoint rs \<Longrightarrow> sorted_wrt (<) (map gmr_start rs)"
  by (induction rs) (auto dest: range_before_start_less)

lemma ordered_disjoint_set_eq:
  assumes "ordered_disjoint xs" and "ordered_disjoint ys" and "set xs = set ys"
  shows "xs = ys"
proof -
  have s: "sorted (map gmr_start zs) \<and> distinct (map gmr_start zs)" if "ordered_disjoint zs" for zs
    using ordered_disjoint_starts [OF that] by (simp only: strict_sorted_iff)
  have "map gmr_start xs = map gmr_start ys"
    using s [OF assms(1)] s [OF assms(2)] assms(3)
    by (intro sorted_distinct_set_unique) auto
  moreover have "inj_on gmr_start (set xs \<union> set ys)"
    using s [OF assms(1)] assms(3) by (simp add: distinct_map)
  ultimately show ?thesis by (simp add: inj_on_map_eq_map)
qed

lemma ordered_disjoint_remove:
  assumes "ordered_disjoint rs"
  shows "ordered_disjoint (vec_remove i rs)"
proof (cases "i < length rs")
  case True
  then have "ordered_disjoint (take i rs @ rs ! i # drop (Suc i) rs)"
    using assms id_take_nth_drop [OF True] by simp
  then show ?thesis
    unfolding vec_remove_def ordered_disjoint_append by simp
qed (use assms in \<open>simp add: vec_remove_def\<close>)

text \<open>
  Inserting between neighbours: with the list split at the insertion index, checking the two
  neighbours is the same as checking every element.
\<close>

lemma ordered_disjoint_insert_mid:
  assumes od: "ordered_disjoint (pre @ post)" and wf: "range_wf r"
    and pre: "\<forall>x\<in>set pre. gmr_start x < gmr_start r"
    and post: "post \<noteq> [] \<Longrightarrow> gmr_start r \<le> gmr_start (hd post)"
    and last: "pre \<noteq> [] \<Longrightarrow> \<not> overlaps (last pre) r"
    and hd: "post \<noteq> [] \<Longrightarrow> \<not> overlaps (hd post) r"
  shows "ordered_disjoint (pre @ r # post)"
proof -
  have before: "range_before x r" if x: "x \<in> set pre" for x
  proof -
    have ne: "pre \<noteq> []" using x by auto
    have "range_before (last pre) r"
      using last [OF ne] pre ne wf by (intro not_overlaps_before) auto
    moreover have "x = last pre \<or> range_before x (last pre)"
    proof -
      have "pre = butlast pre @ [last pre]" using ne by simp
      then have "x \<in> set (butlast pre) \<or> x = last pre"
        using x by (metis Un_iff empty_iff empty_set insert_iff list.simps(15) set_append)
      moreover have "ordered_disjoint (butlast pre @ [last pre])"
        using od ne by (simp add: ordered_disjoint_append)
      ultimately show ?thesis
        by (auto simp: ordered_disjoint_append)
    qed
    moreover have "range_wf (last pre)"
      using od ne by (intro ordered_disjoint_wf [of "pre @ post"]) auto
    ultimately show ?thesis
      using range_before_trans by blast
  qed
  have after: "range_before r y" if y: "y \<in> set post" for y
  proof -
    obtain z zs where post_eq: "post = z # zs" using y by (cases post) auto
    have zwf: "range_wf z"
      using od by (simp add: post_eq ordered_disjoint_append)
    have rz: "range_before r z"
      using wf zwf hd post by (intro not_overlaps_before_le) (auto simp: post_eq overlaps_sym)
    then show ?thesis
      using y od zwf range_before_trans [OF rz zwf]
      by (auto simp: post_eq ordered_disjoint_append)
  qed
  show ?thesis
    using od wf before after by (auto simp: ordered_disjoint_append)
qed

lemma ordered_disjoint_mid_not_overlaps:
  assumes "ordered_disjoint (pre @ r # post)" and "x \<in> set (pre @ post)"
  shows "\<not> overlaps x r"
  using assms by (auto simp: ordered_disjoint_append overlaps_sym [of x r]
      dest: range_before_not_overlaps) (metis overlaps_sym range_before_not_overlaps)

text \<open>The neighbour check of the vectors that insert at \<open>partition_point\<close> by start address.\<close>

definition neighbours_clear :: "('r \<Rightarrow> guest_memory_range) \<Rightarrow> 'r list \<Rightarrow> 'r \<Rightarrow> nat \<Rightarrow> bool" where
  "neighbours_clear f xs x i \<longleftrightarrow>
     (i \<noteq> 0 \<longrightarrow> \<not> overlaps (f (xs ! (i - 1))) (f x)) \<and>
     (i < length xs \<longrightarrow> \<not> overlaps (f (xs ! i)) (f x))"

abbreviation start_index :: "('r \<Rightarrow> guest_memory_range) \<Rightarrow> 'r list \<Rightarrow> 'r \<Rightarrow> nat" where
  "start_index f xs x \<equiv> partition_point (\<lambda>y. gmr_start (f y) < gmr_start (f x)) xs"

lemma ordered_insert_at_start_index:
  assumes od: "ordered_disjoint (map f xs)" and wf: "range_wf (f x)"
    and clear: "neighbours_clear f xs x (start_index f xs x)"
  shows "ordered_disjoint (map f (vec_insert (start_index f xs x) x xs))"
proof -
  let ?p = "\<lambda>y. gmr_start (f y) < gmr_start (f x)"
  let ?pre = "takeWhile ?p xs" and ?post = "dropWhile ?p xs"
  have split: "xs = ?pre @ ?post" by simp
  have idx: "start_index f xs x = length ?pre" by (simp add: partition_point_def)
  have lastpre: "?pre \<noteq> [] \<Longrightarrow> \<not> overlaps (f (last ?pre)) (f x)"
  proof -
    assume ne: "?pre \<noteq> []"
    have "xs ! (length ?pre - 1) = last ?pre"
      using ne takeWhile_nth [of "length ?pre - 1" ?p xs] by (simp add: last_conv_nth)
    then show "\<not> overlaps (f (last ?pre)) (f x)"
      using clear ne unfolding neighbours_clear_def idx by simp
  qed
  have hdpost: "?post \<noteq> [] \<Longrightarrow> \<not> overlaps (f (hd ?post)) (f x)"
  proof -
    assume ne: "?post \<noteq> []"
    have "length ?pre < length xs"
      by (metis ne append_Nil2 length_takeWhile_le nat_less_le split takeWhile_eq_take take_all_iff append_same_eq self_append_conv)
    moreover have "xs ! length ?pre = hd ?post"
      using ne by (metis nth_append_length list.collapse split)
    ultimately show "\<not> overlaps (f (hd ?post)) (f x)"
      using clear unfolding neighbours_clear_def idx by simp
  qed
  have "ordered_disjoint (map f ?pre @ f x # map f ?post)"
  proof (rule ordered_disjoint_insert_mid [OF _ wf])
    show "ordered_disjoint (map f ?pre @ map f ?post)"
      using od by (metis map_append split)
    show "\<forall>y\<in>set (map f ?pre). gmr_start y < gmr_start (f x)"
      by (auto dest: set_takeWhileD)
    show "gmr_start (f x) \<le> gmr_start (hd (map f ?post))" if "map f ?post \<noteq> []"
      using that hd_dropWhile [of ?p xs] by (auto simp: hd_map not_less)
    show "\<not> overlaps (last (map f ?pre)) (f x)" if "map f ?pre \<noteq> []"
      using that lastpre by (simp add: last_map)
    show "\<not> overlaps (hd (map f ?post)) (f x)" if "map f ?post \<noteq> []"
      using that hdpost by (simp add: hd_map)
  qed
  then show ?thesis by (simp add: vec_insert_partition_point)
qed

lemma neighbours_clear_iff:
  assumes od: "ordered_disjoint (map f xs)" and wf: "range_wf (f x)"
  shows "neighbours_clear f xs x (start_index f xs x) \<longleftrightarrow> (\<forall>y\<in>set xs. \<not> overlaps (f y) (f x))"
    (is "?l \<longleftrightarrow> ?r")
proof
  assume ?l
  let ?p = "\<lambda>y. gmr_start (f y) < gmr_start (f x)"
  have od': "ordered_disjoint (map f (takeWhile ?p xs) @ f x # map f (dropWhile ?p xs))"
    using ordered_insert_at_start_index [OF od wf \<open>?l\<close>] by (simp add: vec_insert_partition_point)
  show ?r
  proof
    fix y assume "y \<in> set xs"
    then have "f y \<in> set (map f (takeWhile ?p xs @ dropWhile ?p xs))"
      by (simp only: takeWhile_dropWhile_id set_map imageI)
    then have "f y \<in> set (map f (takeWhile ?p xs) @ map f (dropWhile ?p xs))"
      by (simp only: map_append)
    then show "\<not> overlaps (f y) (f x)"
      by (rule ordered_disjoint_mid_not_overlaps [OF od'])
  qed
next
  assume ?r
  have "start_index f xs x \<le> length xs" by (rule partition_point_le)
  then show ?l
    using \<open>?r\<close> by (auto simp: neighbours_clear_def)
qed

section \<open>The interface of a table of disjoint ranges\<close>

text \<open>
  What the owners of guest-physical ranges promise: the regions of a table that satisfies its
  invariant are ordered and disjoint, and a successful insertion adds exactly one region that
  overlaps none of the others.
\<close>

locale range_table =
  fixes range_of :: "'r \<Rightarrow> guest_memory_range"
    and regions_of :: "'t \<Rightarrow> 'r list"
    and invar :: "'t \<Rightarrow> bool"
    and insert_region :: "'t \<Rightarrow> 'r \<Rightarrow> ('t, 'e) result"
  assumes ordered: "invar t \<Longrightarrow> ordered_disjoint (map range_of (regions_of t))"
    and insert_invar: "invar t \<Longrightarrow> range_wf (range_of r) \<Longrightarrow> insert_region t r = Ok t' \<Longrightarrow> invar t'"
    and insert_regions: "invar t \<Longrightarrow> range_wf (range_of r) \<Longrightarrow> insert_region t r = Ok t' \<Longrightarrow>
          set (regions_of t') = insert r (set (regions_of t))"
    and insert_clear: "invar t \<Longrightarrow> range_wf (range_of r) \<Longrightarrow> insert_region t r = Ok t' \<Longrightarrow>
          x \<in> set (regions_of t) \<Longrightarrow> \<not> overlaps (range_of x) (range_of r)"
begin

lemma unique_owner:
  assumes "invar t" and "r \<in> set (regions_of t)" and "s \<in> set (regions_of t)"
    and "contains (range_of r) a" and "contains (range_of s) a"
  shows "range_of r = range_of s"
  using ordered_disjoint_unique [OF ordered [OF assms(1)], of "range_of r" "range_of s" a] assms
  by simp

lemma inserted_owner:
  assumes "invar t" and "range_wf (range_of r)" and "insert_region t r = Ok t'"
    and "contains (range_of r) a"
  shows "{x \<in> set (regions_of t'). contains (range_of x) a} = {r}"
proof -
  have "\<not> contains (range_of x) a" if "x \<in> set (regions_of t)" for x
    using insert_clear [OF assms(1-3) that] assms(4) by (auto simp: overlaps_def contains_def)
  then show ?thesis
    using assms insert_regions [OF assms(1-3)] by auto
qed

lemma insert_keeps_owner:
  assumes "invar t" and "range_wf (range_of r)" and "insert_region t r = Ok t'"
    and "\<not> contains (range_of r) a"
  shows "{x \<in> set (regions_of t'). contains (range_of x) a} =
         {x \<in> set (regions_of t). contains (range_of x) a}"
  using assms insert_regions [OF assms(1-3)] by auto

end

section \<open>The RAM layout\<close>

record guest_memory_layout =
  layout_ranges :: "guest_memory_range list"

fun layout_check ::
    "guest_memory_range option \<Rightarrow> guest_memory_range list \<Rightarrow> (unit, guest_memory_error) result" where
  "layout_check previous [] = Ok ()"
| "layout_check None (r # rs) = layout_check (Some r) rs"
| "layout_check (Some p) (r # rs) =
     (if gmr_start r < gmr_start p then Err (UnorderedRange p r)
      else if overlaps p r then Err (OverlappingRange p r)
      else layout_check (Some r) rs)"

definition layout_new :: "guest_memory_range list \<Rightarrow> (guest_memory_layout, guest_memory_error) result" where
  "layout_new ranges =
     (if ranges = [] then Err EmptyLayout
      else and_then (layout_check None ranges) (\<lambda>_. Ok \<lparr>layout_ranges = ranges\<rparr>))"

definition layout_total_size :: "guest_memory_layout \<Rightarrow> u64" where
  "layout_total_size l = sum_list (map gmr_size (layout_ranges l))"

lemma layout_check_Some:
  assumes "range_wf p" and "\<forall>r\<in>set rs. range_wf r"
  shows "layout_check (Some p) rs = Ok () \<longleftrightarrow> ordered_disjoint (p # rs)"
  using assms
proof (induction rs arbitrary: p)
  case (Cons r rs)
  have step: "range_before p r \<longleftrightarrow> \<not> gmr_start r < gmr_start p \<and> \<not> overlaps p r"
    using Cons.prems not_overlaps_before_le [of p r] range_before_not_overlaps [of p r]
      range_before_start_less [of p r] by auto
  have "ordered_disjoint (p # r # rs) \<longleftrightarrow> range_before p r \<and> ordered_disjoint (r # rs)"
    using Cons.prems range_before_trans [of p r] by auto
  then show ?case
    using Cons.IH [of r] Cons.prems step by auto
qed simp

lemma layout_check_not_Panic [simp]: "layout_check p rs \<noteq> Panic"
  by (induction p rs rule: layout_check.induct) auto

lemma layout_new_Ok_iff:
  assumes "\<forall>r\<in>set rs. range_wf r"
  shows "layout_new rs = Ok l \<longleftrightarrow> rs \<noteq> [] \<and> ordered_disjoint rs \<and> l = \<lparr>layout_ranges = rs\<rparr>"
proof (cases rs)
  case (Cons r rs')
  then show ?thesis
    using assms layout_check_Some [of r rs'] by (auto simp: layout_new_def result_iffs)
qed (simp add: layout_new_def)

lemma ordered_sizes_bound:
  "ordered_disjoint rs \<Longrightarrow> rs \<noteq> [] \<Longrightarrow>
   unat (gmr_start (hd rs)) + sum_list (map (unat \<circ> gmr_size) rs) \<le> unat (gmr_end_exclusive (last rs))"
proof (induction rs)
  case (Cons r rs)
  show ?case
  proof (cases "rs = []")
    case True
    with Cons.prems show ?thesis by (simp add: range_wf_def)
  next
    case False
    with Cons have "unat (gmr_start (hd rs)) + sum_list (map (unat \<circ> gmr_size) rs)
        \<le> unat (gmr_end_exclusive (last rs))" by (simp add: o_def)
    moreover have "unat (gmr_end_exclusive r) \<le> unat (gmr_start (hd rs))"
      using Cons.prems False by (simp add: range_before_def word_nat)
    ultimately show ?thesis
      using Cons.prems False by (simp add: range_wf_def o_def)
  qed
qed simp

lemma unat_sum_list_words:
  fixes ws :: "'a::len word list"
  assumes "sum_list (map unat ws) < 2 ^ LENGTH('a)"
  shows "unat (sum_list ws) = sum_list (map unat ws)"
  using assms by (induction ws) (auto simp: unat_add_no_overflow)

lemma layout_total_size_exact:
  assumes "ordered_disjoint (layout_ranges l)"
  shows "unat (layout_total_size l) = sum_list (map (unat \<circ> gmr_size) (layout_ranges l))"
proof (cases "layout_ranges l = []")
  case False
  from ordered_sizes_bound [OF assms False]
  have "sum_list (map (unat \<circ> gmr_size) (layout_ranges l)) < 2 ^ 64"
    using unat_bound64 [of "gmr_end_exclusive (last (layout_ranges l))"] by simp
  then show ?thesis
    unfolding layout_total_size_def by (subst unat_sum_list_words) (auto simp: o_def)
qed (simp add: layout_total_size_def)

section \<open>The aarch64 memory map\<close>

definition DRAM_MEM_START :: u64 where "DRAM_MEM_START = 0x80000000"
definition DRAM_MEM_MAX_SIZE :: u64 where "DRAM_MEM_MAX_SIZE = 0x00FF80000000"
definition SYSTEM_MEM_START :: u64 where "SYSTEM_MEM_START = DRAM_MEM_START"
definition SYSTEM_MEM_SIZE :: u64 where "SYSTEM_MEM_SIZE = 0x200000"
definition FDT_MAX_SIZE :: u64 where "FDT_MAX_SIZE = 0x200000"
definition GUEST_PAGE_SIZE :: u64 where "GUEST_PAGE_SIZE = 4096"
definition MMIO64_MEM_START :: u64 where "MMIO64_MEM_START = push_bit 30 256"
definition MMIO64_MEM_SIZE :: u64 where "MMIO64_MEM_SIZE = push_bit 30 256"
definition FIRST_ADDR_PAST_64BITS_MMIO :: u64 where
  "FIRST_ADDR_PAST_64BITS_MMIO = MMIO64_MEM_START + MMIO64_MEM_SIZE"

lemmas aarch64_consts = DRAM_MEM_START_def DRAM_MEM_MAX_SIZE_def SYSTEM_MEM_START_def
  SYSTEM_MEM_SIZE_def FDT_MAX_SIZE_def GUEST_PAGE_SIZE_def MMIO64_MEM_START_def
  MMIO64_MEM_SIZE_def FIRST_ADDR_PAST_64BITS_MMIO_def

definition effective_dram_size :: "u64 \<Rightarrow> u64" where
  "effective_dram_size requested_size =
     (if DRAM_MEM_MAX_SIZE < requested_size then DRAM_MEM_MAX_SIZE else requested_size)"

definition dram_layout :: "u64 \<Rightarrow> (guest_memory_layout, guest_memory_error) result" where
  "dram_layout requested_size =
     (if requested_size = 0 then Err EmptyLayout
      else
        let dram_size = effective_dram_size requested_size;
            size_before_mmio64_gap = MMIO64_MEM_START - DRAM_MEM_START
        in and_then
             (if dram_size \<le> size_before_mmio64_gap
              then and_then (range_new DRAM_MEM_START dram_size) (\<lambda>r. Ok [r])
              else and_then (range_new DRAM_MEM_START size_before_mmio64_gap)
                (\<lambda>low. and_then
                   (range_new FIRST_ADDR_PAST_64BITS_MMIO (dram_size - size_before_mmio64_gap))
                   (\<lambda>high. Ok [low, high])))
             layout_new)"

definition kernel_load_address :: guest_address where
  "kernel_load_address = SYSTEM_MEM_START + SYSTEM_MEM_SIZE"

definition first_range :: "guest_memory_layout \<Rightarrow> (guest_memory_range, guest_memory_error) result" where
  "first_range l = ok_or (vec_get (layout_ranges l) 0) EmptyLayout"

definition align_up :: "u64 \<Rightarrow> u64 \<Rightarrow> u64 option" where
  "align_up value alignment =
     (if alignment = 0 \<or> \<not> is_power_of_two alignment then None
      else let m = alignment - 1 in
        (case checked_add value m of Some rounded \<Rightarrow> Some (rounded AND NOT m) | None \<Rightarrow> None))"

definition fdt_address :: "guest_memory_layout \<Rightarrow> (guest_address, guest_memory_error) result" where
  "fdt_address l =
     and_then (first_range l)
       (\<lambda>r. case checked_sub (gmr_end_exclusive r) FDT_MAX_SIZE of
              None \<Rightarrow> Ok (gmr_start r)
            | Some candidate \<Rightarrow> if contains r candidate then Ok candidate else Ok (gmr_start r))"

definition initrd_load_address ::
    "guest_memory_layout \<Rightarrow> u64 \<Rightarrow> (guest_address option, guest_memory_error) result" where
  "initrd_load_address l initrd_size =
     and_then (fdt_address l)
       (\<lambda>fdt. case align_up initrd_size GUEST_PAGE_SIZE of
                None \<Rightarrow> Ok None
              | Some rounded_size \<Rightarrow>
                  (case checked_sub fdt rounded_size of
                     None \<Rightarrow> Ok None
                   | Some load_address \<Rightarrow>
                       and_then (first_range l)
                         (\<lambda>r. if contains r load_address then Ok (Some load_address) else Ok None)))"

lemma align_up_Some:
  assumes "align_up v al = Some r"
  shows "v \<le> r" and "unat al dvd unat r" and "unat r < unat v + unat al"
proof -
  from assms have p: "is_power_of_two al" and "al \<noteq> 0"
    and c: "checked_add v (al - 1) \<noteq> None" and r: "r = (v + (al - 1)) AND NOT (al - 1)"
    by (auto simp: align_up_def Let_def checked_add_def split: if_splits option.splits)
  obtain k where k: "k < 64" "al = 2 ^ k" "unat al = 2 ^ k"
    using p by (auto elim: is_power_of_two_nat)
  have al1: "unat (al - 1) = 2 ^ k - 1"
    using \<open>al \<noteq> 0\<close> k(3) by (simp add: unat_pred)
  have sum: "unat (v + (al - 1)) = unat v + (2 ^ k - 1)"
    using c al1 by (simp add: checked_add_None_iff unat_add_no_overflow del: One_nat_def)
  have "al - 1 = mask k" using k by (simp add: mask_eq_exp_minus_1)
  then have u: "unat r = (unat v + (2 ^ k - 1)) div 2 ^ k * 2 ^ k"
    using r sum by (simp add: unat_and_not_mask)
  show "unat al dvd unat r" using u k by simp
  have "unat r \<le> unat v + (2 ^ k - 1)" using u by simp
  then show "unat r < unat v + unat al"
    using k by (metis Suc_pred add_Suc_right less_Suc_eq_le zero_less_numeral zero_less_power diff_Suc_1 One_nat_def)
  have "(unat v + (2 ^ k - 1)) mod 2 ^ k < (2 :: nat) ^ k" by simp
  then have "unat v \<le> unat r"
    using div_mult_mod_eq [of "unat v + (2 ^ k - 1)" "2 ^ k"] unfolding u by linarith
  then show "v \<le> r" by (simp add: word_nat)
qed

lemma dram_layout_small:
  assumes "n \<noteq> 0" and "effective_dram_size n \<le> MMIO64_MEM_START - DRAM_MEM_START"
  obtains r where "dram_layout n = Ok \<lparr>layout_ranges = [r]\<rparr>" and "range_wf r"
    and "gmr_start r = DRAM_MEM_START" and "gmr_size r = n"
proof -
  have n: "n \<le> 0x3f80000000"
    using assms by (auto simp: effective_dram_size_def aarch64_consts word_nat split: if_splits)
  then have eff: "effective_dram_size n = n"
    by (simp add: effective_dram_size_def aarch64_consts word_nat)
  have "is_ok (range_new DRAM_MEM_START n)"
    using n assms(1) by (simp add: range_new_is_Ok_iff aarch64_consts word_nat)
  then obtain r where r: "range_new DRAM_MEM_START n = Ok r"
    by (cases "range_new DRAM_MEM_START n") auto
  then have "range_wf r" and f: "gmr_start r = DRAM_MEM_START" "gmr_size r = n"
    by (simp_all add: range_new_Ok_iff)
  moreover have "layout_new [r] = Ok \<lparr>layout_ranges = [r]\<rparr>"
    using \<open>range_wf r\<close> by (simp add: layout_new_Ok_iff)
  then have "dram_layout n = Ok \<lparr>layout_ranges = [r]\<rparr>"
    using assms r eff by (simp add: dram_layout_def)
  ultimately show thesis using that by blast
qed

lemma dram_layout_large:
  assumes "\<not> effective_dram_size n \<le> MMIO64_MEM_START - DRAM_MEM_START"
  obtains low high where "dram_layout n = Ok \<lparr>layout_ranges = [low, high]\<rparr>"
    and "ordered_disjoint [low, high]"
    and "gmr_start low = DRAM_MEM_START" and "gmr_end_exclusive low = MMIO64_MEM_START"
    and "gmr_start high = FIRST_ADDR_PAST_64BITS_MMIO"
    and "unat (gmr_size low) + unat (gmr_size high) = unat (effective_dram_size n)"
proof -
  let ?gap = "MMIO64_MEM_START - DRAM_MEM_START"
  have e: "?gap < effective_dram_size n" "effective_dram_size n \<le> DRAM_MEM_MAX_SIZE"
    using assms by (auto simp: effective_dram_size_def not_le)
  have gap: "unat ?gap = 0x3f80000000" by (simp add: aarch64_consts)
  have diff: "unat (effective_dram_size n - ?gap) = unat (effective_dram_size n) - 0x3f80000000"
    using e(1) gap by (simp add: less_imp_le)
  have pos: "effective_dram_size n - ?gap \<noteq> 0" using e(1) by auto
  have "unat (effective_dram_size n) \<le> 0xFF80000000"
    using e(2) by (simp add: DRAM_MEM_MAX_SIZE_def word_nat)
  then have "is_ok (range_new FIRST_ADDR_PAST_64BITS_MMIO (effective_dram_size n - ?gap))"
    using diff pos by (simp add: range_new_is_Ok_iff) (simp add: aarch64_consts)
  then obtain high where h: "range_new FIRST_ADDR_PAST_64BITS_MMIO (effective_dram_size n - ?gap) = Ok high"
    by (cases "range_new FIRST_ADDR_PAST_64BITS_MMIO (effective_dram_size n - ?gap)") auto
  define low where "low = \<lparr>gmr_start = DRAM_MEM_START, gmr_size = ?gap, gmr_end_exclusive = MMIO64_MEM_START\<rparr>"
  have l: "range_new DRAM_MEM_START ?gap = Ok low"
    by (simp add: range_new_Ok_iff low_def range_wf_def) (simp add: aarch64_consts)
  have hf: "range_wf high" "gmr_start high = FIRST_ADDR_PAST_64BITS_MMIO"
      "gmr_size high = effective_dram_size n - ?gap"
    using h by (simp_all add: range_new_Ok_iff)
  have lf: "range_wf low" using l by (simp add: range_new_Ok_iff)
  have "range_before low high"
    using hf by (simp add: range_before_def low_def aarch64_consts)
  then have od: "ordered_disjoint [low, high]" using lf hf by simp
  then have "layout_new [low, high] = Ok \<lparr>layout_ranges = [low, high]\<rparr>"
    using lf hf by (subst layout_new_Ok_iff) auto
  moreover have "n \<noteq> 0" using e by (auto simp: effective_dram_size_def split: if_splits)
  ultimately have "dram_layout n = Ok \<lparr>layout_ranges = [low, high]\<rparr>"
    using assms l h by (simp add: dram_layout_def Let_def)
  moreover have "unat (gmr_size low) + unat (gmr_size high) = unat (effective_dram_size n)"
    using e(1) gap diff hf by (simp add: low_def word_nat)
  ultimately show thesis
    using od hf by (intro that) (auto simp: low_def)
qed

text \<open>
  C32: for every requested size other than zero, \<open>dram_layout\<close> succeeds; its ranges are ordered and
  disjoint, lie at or above the DRAM base, never meet the 64-bit MMIO window, and their
  sizes (added with the wrapping \<open>u64\<close> sum of the code) give exactly the requested size capped at
  the maximum.
\<close>

theorem dram_layout_correct:
  assumes "n \<noteq> 0"
  shows "\<exists>l. dram_layout n = Ok l \<and> ordered_disjoint (layout_ranges l) \<and>
     unat (layout_total_size l) = min (unat n) (unat DRAM_MEM_MAX_SIZE) \<and>
     (\<forall>r\<in>set (layout_ranges l). \<forall>a\<in>addresses r. DRAM_MEM_START \<le> a \<and>
        \<not> (MMIO64_MEM_START \<le> a \<and> a < FIRST_ADDR_PAST_64BITS_MMIO))"
proof (cases "effective_dram_size n \<le> MMIO64_MEM_START - DRAM_MEM_START")
  case True
  then obtain r where r: "dram_layout n = Ok \<lparr>layout_ranges = [r]\<rparr>" "range_wf r"
      "gmr_start r = DRAM_MEM_START" "gmr_size r = n"
    using assms by (auto elim: dram_layout_small)
  have n: "unat n \<le> 0x3f80000000"
    using True by (auto simp: effective_dram_size_def aarch64_consts word_nat split: if_splits)
  have "unat (gmr_end_exclusive r) \<le> unat MMIO64_MEM_START"
    using r n by (simp add: range_wf_def aarch64_consts)
  then show ?thesis
    using r n by (auto simp: layout_total_size_def contains_def word_nat DRAM_MEM_MAX_SIZE_def)
next
  case False
  then obtain low high where o: "dram_layout n = Ok \<lparr>layout_ranges = [low, high]\<rparr>"
      "ordered_disjoint [low, high]" "gmr_start low = DRAM_MEM_START"
      "gmr_end_exclusive low = MMIO64_MEM_START" "gmr_start high = FIRST_ADDR_PAST_64BITS_MMIO"
      "unat (gmr_size low) + unat (gmr_size high) = unat (effective_dram_size n)"
    by (elim dram_layout_large)
  have "DRAM_MEM_START \<le> FIRST_ADDR_PAST_64BITS_MMIO" by (simp add: aarch64_consts)
  moreover have "unat (effective_dram_size n) = min (unat n) (unat DRAM_MEM_MAX_SIZE)"
    by (auto simp: effective_dram_size_def word_nat)
  ultimately show ?thesis
    using o layout_total_size_exact [of "\<lparr>layout_ranges = [low, high]\<rparr>"]
    by (auto simp: contains_def)
qed

theorem dram_layout_correct_witness:
  "\<exists>l. dram_layout 0x10000000000 = Ok l \<and> unat (layout_total_size l) = 0xFF80000000"
  using dram_layout_correct [of "0x10000000000"] by (auto simp: DRAM_MEM_MAX_SIZE_def)

lemma first_range_Cons [simp]: "first_range \<lparr>layout_ranges = r # rs\<rparr> = Ok r"
  by (simp add: first_range_def vec_get_def)

text \<open>
  in a layout that the constructor accepts, the device tree is placed inside the first RAM range and
  fits below its end whenever that range is at least \<open>FDT_MAX_SIZE\<close> long; an initrd that is given an
  address lies inside the same range, from that address on, entirely below the device tree.
\<close>

lemma boot_placement:
  assumes "layout_new rs = Ok l" and "\<forall>r\<in>set rs. range_wf r" and "first_range l = Ok r"
  shows "\<exists>fdt. fdt_address l = Ok fdt \<and> contains r fdt \<and>
     (FDT_MAX_SIZE \<le> gmr_size r \<longrightarrow> unat fdt + unat FDT_MAX_SIZE = unat (gmr_end_exclusive r)) \<and>
     (\<forall>a. initrd_load_address l sz = Ok (Some a) \<longrightarrow>
        contains r a \<and> unat a + unat sz \<le> unat fdt \<and> unat GUEST_PAGE_SIZE dvd (unat fdt - unat a))"
proof -
  have wf: "range_wf r"
    using assms by (auto simp: layout_new_Ok_iff first_range_def vec_get_def split: if_splits option.splits)
  define fdt where "fdt = (if FDT_MAX_SIZE \<le> gmr_size r then gmr_end_exclusive r - FDT_MAX_SIZE else gmr_start r)"
  have f: "fdt_address l = Ok fdt" "contains r fdt"
      "FDT_MAX_SIZE \<le> gmr_size r \<Longrightarrow> unat fdt + unat FDT_MAX_SIZE = unat (gmr_end_exclusive r)"
    using wf assms(3)
    by (auto simp: fdt_address_def fdt_def contains_def range_wf_def checked_sub_def word_nat FDT_MAX_SIZE_def
        unat_gt_0)
  moreover have "contains r a \<and> unat a + unat sz \<le> unat fdt \<and> unat GUEST_PAGE_SIZE dvd (unat fdt - unat a)"
    if "initrd_load_address l sz = Ok (Some a)" for a
  proof -
    from that f assms(3) obtain z where z: "align_up sz GUEST_PAGE_SIZE = Some z" "z \<le> fdt" "a = fdt - z" "contains r a"
      by (auto simp: initrd_load_address_def checked_sub_def split: option.splits if_splits)
    with align_up_Some [OF z(1)] show ?thesis
      by (auto simp: word_nat)
  qed
  ultimately show ?thesis by blast
qed

lemma boot_placement_witness:
  "\<exists>fdt. fdt_address \<lparr>layout_ranges = [\<lparr>gmr_start = 0x80000000, gmr_size = 0x10000000,
       gmr_end_exclusive = 0x90000000\<rparr>]\<rparr> = Ok fdt \<and> unat fdt + 0x200000 = 0x90000000"
proof -
  let ?r = "\<lparr>gmr_start = 0x80000000, gmr_size = 0x10000000, gmr_end_exclusive = 0x90000000\<rparr>"
  have "layout_new [?r] = Ok \<lparr>layout_ranges = [?r]\<rparr>" "range_wf ?r"
    by (simp_all add: layout_new_Ok_iff range_wf_def)
  then show ?thesis
    using boot_placement [of "[?r]" "\<lparr>layout_ranges = [?r]\<rparr>" ?r 5000]
    by (auto simp: FDT_MAX_SIZE_def)
qed

end
