(* ===== verification/Dirty_Tracker.thy ===== *)
theory Dirty_Tracker
  imports Address_Range
begin

text \<open>
  The dirty-page generations of guest memory, from \<open>crates/runtime/src/memory_dirty.rs\<close>: one
  bitmap per region, one bit per page, kept in 64-bit words.  The atomic words and the topology
  lock are the fields of a state record, so every method is one atomic step; the predicate
  \<open>alloc\<close> tells which fallible reservations succeed.  The abstract view of a tracker is the
  predicate \<open>is_dirty\<close>: the page an address lies on is marked in the current generation.
\<close>

section \<open>State and operations\<close>

datatype dirty_alloc = Reserve_Regions nat | Reserve_Words nat | Reserve_Pages nat

type_synonym dirty_alloc_env = "dirty_alloc \<Rightarrow> bool"

datatype dirty_tracker_error =
    ProtectedLazyMemory
  | InvalidPageSize u64
  | UnalignedRegion guest_memory_range u64
  | EmptyRegions
  | UnorderedOrOverlappingRegion guest_memory_range
  | PageCountOverflow guest_memory_range
  | MetadataAllocationFailed

datatype dirty_access_error =
    UntrackedRange guest_memory_range
  | AccessMetadataAllocationFailed
  | InvalidState string

record dirty_region =
  dr_range :: guest_memory_range
  dr_words :: "u64 list"

record dirty_tracker =
  dt_page_size :: u64
  dt_epoch :: u64
  dt_regions :: "dirty_region list"

record dirty_snapshot =
  ds_page_size :: u64
  ds_epoch :: u64
  ds_pages :: "guest_address list"

definition validate_page_size :: "u64 \<Rightarrow> (unit, dirty_tracker_error) result" where
  "validate_page_size page_size =
     (if page_size = 0 \<or> \<not> is_power_of_two page_size then Err (InvalidPageSize page_size) else Ok ())"

fun validate_insert_position_from ::
    "nat \<Rightarrow> dirty_region list \<Rightarrow> guest_memory_range \<Rightarrow> (nat, dirty_tracker_error) result" where
  "validate_insert_position_from index [] rng = Ok index"
| "validate_insert_position_from index (region # regions) rng =
     (if overlaps (dr_range region) rng then Err (UnorderedOrOverlappingRegion rng)
      else if gmr_start rng < gmr_start (dr_range region) then Ok index
      else validate_insert_position_from (Suc index) regions rng)"

definition validate_insert_position ::
    "dirty_region list \<Rightarrow> guest_memory_range \<Rightarrow> (nat, dirty_tracker_error) result" where
  "validate_insert_position regions rng = validate_insert_position_from 0 regions rng"

fun validate_tracked_from ::
    "dirty_region list \<Rightarrow> guest_memory_range \<Rightarrow> u64 \<Rightarrow> (unit, dirty_access_error) result" where
  "validate_tracked_from [] rng current = Err (UntrackedRange rng)"
| "validate_tracked_from (region # regions) rng current =
     (if gmr_end_exclusive (dr_range region) \<le> current
      then validate_tracked_from regions rng current
      else if current < gmr_start (dr_range region) then Err (UntrackedRange rng)
      else
        let current' = min (gmr_end_exclusive (dr_range region)) (gmr_end_exclusive rng) in
        if current' = gmr_end_exclusive rng then Ok ()
        else validate_tracked_from regions rng current')"

definition validate_tracked_range ::
    "dirty_region list \<Rightarrow> guest_memory_range \<Rightarrow> (unit, dirty_access_error) result" where
  "validate_tracked_range regions rng = validate_tracked_from regions rng (gmr_start rng)"

definition bitmap_location :: "usize \<Rightarrow> usize \<times> u64" where
  "bitmap_location page_index = (page_index div 64, push_bit (unat (page_index mod 64)) 1)"

definition initial_word :: "usize \<Rightarrow> usize \<Rightarrow> u64" where
  "initial_word page_count word_index =
     (let word_start = word_index * 64;
          remaining = saturating_sub page_count word_start
      in if 64 \<le> remaining then - 1
         else if remaining = 0 then 0
         else push_bit (unat remaining) 1 - 1)"

definition dirty_region_new ::
    "dirty_alloc_env \<Rightarrow> guest_memory_range \<Rightarrow> u64 \<Rightarrow> bool \<Rightarrow> (dirty_region, dirty_tracker_error) result" where
  "dirty_region_new alloc rng page_size initially_dirty =
     and_then (map_err (\<lambda>_. UnalignedRegion rng page_size) (range_validate_alignment rng page_size)) (\<lambda>_.
     and_then (ok_or (try_from (gmr_size rng div page_size)) (PageCountOverflow rng)) (\<lambda>page_count :: usize.
     and_then (ok_or (map_option (\<lambda>count. count div 64) (checked_add page_count 63)) (PageCountOverflow rng))
       (\<lambda>word_count.
          if alloc (Reserve_Words (unat word_count))
          then Ok \<lparr>dr_range = rng,
                   dr_words = map (\<lambda>word_index. if initially_dirty
                                   then initial_word page_count (of_nat word_index) else 0)
                                [0..<unat word_count]\<rparr>
          else Err MetadataAllocationFailed)))"

definition mark_page :: "u64 list \<Rightarrow> usize \<Rightarrow> u64 list" where
  "mark_page words page_index =
     (case bitmap_location page_index of
        (word_index, b) \<Rightarrow>
          if unat word_index < length words
          then words[unat word_index := words ! unat word_index OR b] else words)"

definition mark_intersection :: "guest_memory_range \<Rightarrow> u64 \<Rightarrow> dirty_region \<Rightarrow> dirty_region" where
  "mark_intersection requested page_size region =
     (let start = max (gmr_start (dr_range region)) (gmr_start requested);
          end' = min (gmr_end_exclusive (dr_range region)) (gmr_end_exclusive requested);
          region_start = gmr_start (dr_range region)
      in if end' \<le> start then region
         else
           let first_page = (start - region_start) div page_size;
               last_page = (end' - 1 - region_start) div page_size
           in region\<lparr>dr_words := foldl (\<lambda>words i. mark_page words (of_nat i)) (dr_words region)
                                   [unat first_page..<Suc (unat last_page)]\<rparr>)"

definition dirty_page_at ::
    "guest_memory_range \<Rightarrow> u64 \<Rightarrow> usize \<Rightarrow> usize \<Rightarrow> (guest_address, dirty_access_error) result" where
  "dirty_page_at rng page_size word_index bit_index =
     and_then (ok_or (Option.bind (checked_mul word_index 64) (\<lambda>start. checked_add start bit_index))
                (InvalidState ''dirty-page index overflowed'')) (\<lambda>page_index.
     and_then (ok_or (Option.bind (try_from page_index) (\<lambda>page_index. checked_mul page_index page_size))
                (InvalidState ''dirty-page offset overflowed'')) (\<lambda>offset.
     and_then (ok_or (checked_add (gmr_start rng) offset)
                (InvalidState ''dirty-page address overflowed'')) (\<lambda>page.
     if contains rng page then Ok page
     else Err (InvalidState ''dirty-page metadata exceeded its region''))))"

function append_word_pages ::
    "dirty_alloc_env \<Rightarrow> guest_memory_range \<Rightarrow> u64 \<Rightarrow> nat \<Rightarrow> u64 \<Rightarrow> guest_address list
      \<Rightarrow> (guest_address list, dirty_access_error) result" where
  "append_word_pages alloc rng page_size word_index remaining pages =
     (if remaining = 0 then Ok pages
      else and_then (dirty_page_at rng page_size (of_nat word_index) (of_nat (trailing_zeros remaining)))
        (\<lambda>page. if alloc (Reserve_Pages (Suc (length pages)))
                then append_word_pages alloc rng page_size word_index (remaining AND (remaining - 1))
                       (pages @ [page])
                else Err AccessMetadataAllocationFailed))"
  by pat_completeness auto
termination
  by (relation "measure (\<lambda>(_, _, _, _, remaining, _). unat remaining)") (auto simp: clear_lowest_bit_less)

fun append_words_pages ::
    "dirty_alloc_env \<Rightarrow> guest_memory_range \<Rightarrow> u64 \<Rightarrow> nat \<Rightarrow> u64 list \<Rightarrow> guest_address list
      \<Rightarrow> (guest_address list, dirty_access_error) result" where
  "append_words_pages alloc rng page_size word_index [] pages = Ok pages"
| "append_words_pages alloc rng page_size word_index (w # ws) pages =
     and_then (append_word_pages alloc rng page_size word_index w pages)
       (\<lambda>pages'. append_words_pages alloc rng page_size (Suc word_index) ws pages')"

definition append_dirty_pages ::
    "dirty_alloc_env \<Rightarrow> u64 \<Rightarrow> dirty_region \<Rightarrow> guest_address list
      \<Rightarrow> (guest_address list, dirty_access_error) result" where
  "append_dirty_pages alloc page_size region pages =
     append_words_pages alloc (dr_range region) page_size 0 (dr_words region) pages"

definition region_clear :: "dirty_region \<Rightarrow> dirty_region" where
  "region_clear region = region\<lparr>dr_words := map (\<lambda>_. 0) (dr_words region)\<rparr>"

fun tracker_new_regions ::
    "dirty_alloc_env \<Rightarrow> u64 \<Rightarrow> guest_memory_range list \<Rightarrow> dirty_region list
      \<Rightarrow> (dirty_region list, dirty_tracker_error) result" where
  "tracker_new_regions alloc page_size [] regions = Ok regions"
| "tracker_new_regions alloc page_size (rng # ranges) regions =
     and_then (validate_insert_position regions rng) (\<lambda>index.
       if index \<noteq> length regions then Err (UnorderedOrOverlappingRegion rng)
       else if \<not> alloc (Reserve_Regions (Suc (length regions))) then Err MetadataAllocationFailed
       else and_then (dirty_region_new alloc rng page_size False)
              (\<lambda>region. tracker_new_regions alloc page_size ranges (regions @ [region])))"

definition tracker_new ::
    "dirty_alloc_env \<Rightarrow> guest_memory_range list \<Rightarrow> u64 \<Rightarrow> (dirty_tracker, dirty_tracker_error) result" where
  "tracker_new alloc ranges page_size =
     and_then (validate_page_size page_size) (\<lambda>_.
     and_then (tracker_new_regions alloc page_size ranges []) (\<lambda>regions.
       if regions = [] then Err EmptyRegions
       else Ok \<lparr>dt_page_size = page_size, dt_epoch = 0, dt_regions = regions\<rparr>))"

definition contains_range :: "dirty_tracker \<Rightarrow> guest_memory_range \<Rightarrow> bool" where
  "contains_range t rng \<longleftrightarrow> is_ok (validate_tracked_range (dt_regions t) rng)"

definition mark_range ::
    "dirty_tracker \<Rightarrow> guest_memory_range \<Rightarrow> (dirty_tracker, dirty_access_error) result" where
  "mark_range t rng =
     and_then (validate_tracked_range (dt_regions t) rng)
       (\<lambda>_. Ok (t\<lparr>dt_regions := map (mark_intersection rng (dt_page_size t)) (dt_regions t)\<rparr>))"

fun collect_pages ::
    "dirty_alloc_env \<Rightarrow> u64 \<Rightarrow> dirty_region list \<Rightarrow> guest_address list
      \<Rightarrow> (guest_address list, dirty_access_error) result" where
  "collect_pages alloc page_size [] pages = Ok pages"
| "collect_pages alloc page_size (region # regions) pages =
     and_then (append_dirty_pages alloc page_size region pages)
       (\<lambda>pages'. collect_pages alloc page_size regions pages')"

definition dirty_pages ::
    "dirty_alloc_env \<Rightarrow> dirty_tracker \<Rightarrow> (guest_address list, dirty_access_error) result" where
  "dirty_pages alloc t = collect_pages alloc (dt_page_size t) (dt_regions t) []"

text \<open>The second load of the epoch is the parameter \<open>epoch_after\<close>: other threads may change it.\<close>

definition snapshot_quiesced ::
    "dirty_alloc_env \<Rightarrow> u64 \<Rightarrow> dirty_tracker \<Rightarrow> (dirty_snapshot, dirty_access_error) result" where
  "snapshot_quiesced alloc epoch_after t =
     and_then (collect_pages alloc (dt_page_size t) (dt_regions t) []) (\<lambda>pages.
       if epoch_after \<noteq> dt_epoch t
       then Err (InvalidState ''dirty-page epoch changed during a quiesced snapshot'')
       else Ok \<lparr>ds_page_size = dt_page_size t, ds_epoch = dt_epoch t, ds_pages = pages\<rparr>)"

definition tracker_insert_region ::
    "dirty_alloc_env \<Rightarrow> dirty_tracker \<Rightarrow> guest_memory_range \<Rightarrow> bool
      \<Rightarrow> (dirty_tracker, dirty_tracker_error) result" where
  "tracker_insert_region alloc t rng initially_dirty =
     and_then (validate_insert_position (dt_regions t) rng) (\<lambda>index.
       if \<not> alloc (Reserve_Regions (Suc (length (dt_regions t)))) then Err MetadataAllocationFailed
       else and_then (dirty_region_new alloc rng (dt_page_size t) initially_dirty)
              (\<lambda>region. Ok (t\<lparr>dt_regions := vec_insert index region (dt_regions t)\<rparr>)))"

definition tracker_remove_region :: "dirty_tracker \<Rightarrow> guest_memory_range \<Rightarrow> dirty_tracker \<times> bool" where
  "tracker_remove_region t rng =
     (case position (\<lambda>region. dr_range region = rng) (dt_regions t) of
        None \<Rightarrow> (t, False)
      | Some index \<Rightarrow> (t\<lparr>dt_regions := vec_remove index (dt_regions t)\<rparr>, True))"

definition clear_quiesced :: "dirty_tracker \<Rightarrow> dirty_tracker \<times> u64" where
  "clear_quiesced t =
     (let epoch' = saturating_add (dt_epoch t) 1
      in (t\<lparr>dt_regions := map region_clear (dt_regions t), dt_epoch := epoch'\<rparr>, epoch'))"

section \<open>The abstract view: which addresses lie on a dirty page\<close>

definition page_bit :: "u64 list \<Rightarrow> nat \<Rightarrow> bool" where
  "page_bit words i \<longleftrightarrow> i div 64 < length words \<and> bit (words ! (i div 64)) (i mod 64)"

definition page_of :: "u64 \<Rightarrow> guest_address \<Rightarrow> nat" where
  "page_of page_size a = unat a div unat page_size"

definition region_pages :: "u64 \<Rightarrow> dirty_region \<Rightarrow> nat" where
  "region_pages page_size r = unat (gmr_size (dr_range r)) div unat page_size"

definition page_index :: "u64 \<Rightarrow> dirty_region \<Rightarrow> guest_address \<Rightarrow> nat" where
  "page_index page_size r a = (unat a - unat (gmr_start (dr_range r))) div unat page_size"

definition region_wf :: "u64 \<Rightarrow> dirty_region \<Rightarrow> bool" where
  "region_wf page_size r \<longleftrightarrow>
     range_wf (dr_range r) \<and> unat page_size dvd unat (gmr_start (dr_range r)) \<and>
     unat page_size dvd unat (gmr_size (dr_range r)) \<and>
     length (dr_words r) = (region_pages page_size r + 63) div 64 \<and>
     (\<forall>i. page_bit (dr_words r) i \<longrightarrow> i < region_pages page_size r)"

definition tracker_wf :: "dirty_tracker \<Rightarrow> bool" where
  "tracker_wf t \<longleftrightarrow>
     is_power_of_two (dt_page_size t) \<and>
     ordered_disjoint (map dr_range (dt_regions t)) \<and>
     (\<forall>r\<in>set (dt_regions t). region_wf (dt_page_size t) r)"

definition region_dirty :: "u64 \<Rightarrow> dirty_region \<Rightarrow> guest_address \<Rightarrow> bool" where
  "region_dirty page_size r a \<longleftrightarrow>
     contains (dr_range r) a \<and> page_bit (dr_words r) (page_index page_size r a)"

definition is_dirty :: "dirty_tracker \<Rightarrow> guest_address \<Rightarrow> bool" where
  "is_dirty t a \<longleftrightarrow> (\<exists>r\<in>set (dt_regions t). region_dirty (dt_page_size t) r a)"

definition is_tracked :: "dirty_tracker \<Rightarrow> guest_address \<Rightarrow> bool" where
  "is_tracked t a \<longleftrightarrow> (\<exists>r\<in>set (dt_regions t). contains (dr_range r) a)"

section \<open>Bitmaps\<close>

lemma page_bit_mark_page:
  "page_bit (mark_page ws p) j \<longleftrightarrow> page_bit ws j \<or> (j = unat p \<and> j div 64 < length ws)"
proof (cases "j div 64 = unat p div 64")
  case True
  have "j = unat p \<longleftrightarrow> j mod 64 = unat p mod 64"
    using True by (metis mod_div_decomp)
  moreover have "bit (push_bit (unat p mod 64) (1 :: u64)) (j mod 64) \<longleftrightarrow> j mod 64 = unat p mod 64"
    by (auto simp: bit_simps)
  ultimately show ?thesis
    using True by (auto simp: mark_page_def bitmap_location_def page_bit_def unat_div unat_mod bit_or_iff)
next
  case False
  then show ?thesis
    by (auto simp: mark_page_def bitmap_location_def page_bit_def unat_div nth_list_update)
qed

lemma length_mark_page [simp]: "length (mark_page ws p) = length ws"
  by (simp add: mark_page_def bitmap_location_def)

lemma length_mark_pages [simp]:
  "length (foldl (\<lambda>ws i. mark_page ws (of_nat i)) ws is) = length ws"
  by (induction "is" arbitrary: ws) auto

lemma page_bit_mark_pages:
  assumes "b \<le> 2 ^ 64"
  shows "page_bit (foldl (\<lambda>ws i. mark_page ws (of_nat i)) ws [a..<b]) j \<longleftrightarrow>
         page_bit ws j \<or> (a \<le> j \<and> j < b \<and> j div 64 < length ws)"
  using assms
proof (induction b)
  case (Suc b)
  then have "unat (of_nat b :: usize) = b"
    by (simp add: unat_of_nat take_bit_eq_mod)
  with Suc show ?case
    by (auto simp: page_bit_mark_page less_Suc_eq)
qed simp

lemma bit_initial_word:
  assumes "unat wi * 64 < 2 ^ 64" and "j < 64"
  shows "bit (initial_word pc wi) j \<longleftrightarrow> unat wi * 64 + j < unat pc"
proof -
  define rem where "rem = saturating_sub pc (wi * 64)"
  have u: "unat rem = unat pc - unat wi * 64"
    using assms(1) by (simp add: rem_def unat_saturating_sub unat_mul_no_overflow)
  have iw: "initial_word pc wi = (if 64 \<le> rem then - 1 else mask (unat rem))"
    by (simp add: initial_word_def Let_def mask_eq_exp_minus_1 push_bit_eq_mult flip: rem_def)
  show ?thesis
  proof (cases "64 \<le> rem")
    case True
    then show ?thesis using iw u assms by (simp add: word_nat bit_minus_1_iff)
  next
    case False
    then show ?thesis using iw u assms by (simp add: word_nat bit_mask_iff) arith
  qed
qed

section \<open>Marking\<close>

lemma page_interval:
  fixes p s l q :: nat
  assumes "0 < p" and "s \<le> l"
  shows "(\<exists>b. s \<le> b \<and> b \<le> l \<and> b div p = q) \<longleftrightarrow> s div p \<le> q \<and> q \<le> l div p"
proof (intro iffI conjI)
  assume r: "s div p \<le> q \<and> q \<le> l div p"
  have "q * p \<le> l" using r assms(1) by (metis div_times_less_eq_dividend le_trans mult_le_mono1)
  moreover have "max s (q * p) div p = q"
  proof (cases "s \<le> q * p")
    case False
    then have "q \<le> s div p" using assms(1) by (simp add: less_eq_div_iff_mult_less_eq)
    with False r show ?thesis by simp
  qed (use assms(1) in simp)
  ultimately show "\<exists>b. s \<le> b \<and> b \<le> l \<and> b div p = q"
    using assms(2) by (intro exI [of _ "max s (q * p)"]) auto
qed (auto intro: div_le_mono)

lemma word_count_bound: "j < n \<Longrightarrow> j div 64 < (n + 63) div (64 :: nat)"
  using div_le_mono [of "j + 64" "n + 63" 64] by simp

lemma page_of_index:
  assumes "unat ps dvd unat (gmr_start (dr_range r))" and "unat ps \<noteq> 0" and "gmr_start (dr_range r) \<le> a"
  shows "page_of ps a = unat (gmr_start (dr_range r)) div unat ps + page_index ps r a"
proof -
  obtain k where k: "unat (gmr_start (dr_range r)) = unat ps * k" using assms(1) by blast
  define d where "d = unat a - unat (gmr_start (dr_range r))"
  have a: "unat a = unat ps * k + d" using assms(3) k by (simp add: word_nat d_def)
  show ?thesis
    unfolding page_of_def page_index_def d_def [symmetric] unfolding a k using assms(2) by simp
qed

lemma page_index_less:
  assumes "region_wf ps r" and "contains (dr_range r) a"
  shows "page_index ps r a < region_pages ps r"
  using assms
  by (auto simp: region_wf_def contains_def range_wf_def word_nat page_index_def region_pages_def
      intro!: less_mult_imp_div_less)

lemma mark_intersection_frame [simp]:
  "dr_range (mark_intersection req ps r) = dr_range r"
  "length (dr_words (mark_intersection req ps r)) = length (dr_words r)"
  by (simp_all add: mark_intersection_def Let_def)

lemma page_bit_mark_intersection:
  assumes wf: "region_wf ps r" and ps: "unat ps \<noteq> 0"
  shows "page_bit (dr_words (mark_intersection req ps r)) j \<longleftrightarrow> page_bit (dr_words r) j \<or>
     (\<exists>b. contains (dr_range r) b \<and> contains req b \<and> page_index ps r b = j)"
proof -
  let ?rs = "gmr_start (dr_range r)" and ?re = "gmr_end_exclusive (dr_range r)"
  define s e where "s = max ?rs (gmr_start req)" and "e = min ?re (gmr_end_exclusive req)"
  have both: "contains (dr_range r) b \<and> contains req b \<longleftrightarrow> s \<le> b \<and> b < e" for b
    by (auto simp: contains_def s_def e_def)
  show ?thesis
  proof (cases "e \<le> s")
    case True
    then have "\<not> (contains (dr_range r) b \<and> contains req b)" for b
      unfolding both by auto
    then show ?thesis
      using True unfolding mark_intersection_def Let_def s_def [symmetric] e_def [symmetric] by auto
  next
    case False
    then have e0: "e \<noteq> 0" by auto
    have rs: "?rs \<le> s" by (simp add: s_def)
    have us: "unat (s - ?rs) = unat s - unat ?rs" using rs by simp
    have le: "?rs \<le> e - 1"
      using rs False e0 by (simp add: word_nat unat_pred)
    have ue: "unat (e - 1 - ?rs) = unat e - 1 - unat ?rs"
      using le e0 by (simp add: unat_pred)
    have sl: "unat s - unat ?rs \<le> unat e - 1 - unat ?rs"
      using False by (simp add: word_nat)
    have idx: "(\<exists>b. contains (dr_range r) b \<and> contains req b \<and> page_index ps r b = j) \<longleftrightarrow>
        (\<exists>d. unat s - unat ?rs \<le> d \<and> d \<le> unat e - 1 - unat ?rs \<and> d div unat ps = j)" (is "?L \<longleftrightarrow> ?R")
    proof
      assume ?L
      then obtain b where "s \<le> b" "b < e" "page_index ps r b = j" using both by auto
      then show ?R
        by (intro exI [of _ "unat b - unat ?rs"]) (auto simp: page_index_def word_nat)
    next
      assume ?R
      then obtain d where d: "unat s - unat ?rs \<le> d" "d \<le> unat e - 1 - unat ?rs" "d div unat ps = j"
        by blast
      have "0 < unat e" using e0 by (simp add: unat_gt_0)
      then have lt: "unat ?rs + d < unat e" using d(2) le e0 by (simp add: word_nat unat_pred)
      then have "unat (?rs + of_nat d) = unat ?rs + d"
        by (intro unat_add_of_nat) (use unat_bound64 [of e] in simp)
      then have "s \<le> ?rs + of_nat d" "?rs + of_nat d < e" "page_index ps r (?rs + of_nat d) = j"
        using d rs lt by (auto simp: page_index_def word_nat)
      then show ?L using both by blast
    qed
    have small: "Suc (unat ((e - 1 - ?rs) div ps)) \<le> 2 ^ 64"
      using unat_bound64 [of "(e - 1 - ?rs) div ps"] by simp
    have len: "j div 64 < length (dr_words r)" if "contains (dr_range r) b" "page_index ps r b = j" for b
    proof -
      have "j < region_pages ps r" using page_index_less [OF wf that(1)] that(2) by simp
      then show ?thesis using wf word_count_bound unfolding region_wf_def by metis
    qed
    have marked: "page_bit (dr_words (mark_intersection req ps r)) j \<longleftrightarrow> page_bit (dr_words r) j \<or>
        (unat ((s - ?rs) div ps) \<le> j \<and> j < Suc (unat ((e - 1 - ?rs) div ps)) \<and> j div 64 < length (dr_words r))"
      unfolding mark_intersection_def Let_def s_def [symmetric] e_def [symmetric]
      using False by (simp add: page_bit_mark_pages [OF small] del: upt_Suc)
    have "unat ((s - ?rs) div ps) \<le> j \<and> j < Suc (unat ((e - 1 - ?rs) div ps)) \<longleftrightarrow>
        (\<exists>b. contains (dr_range r) b \<and> contains req b \<and> page_index ps r b = j)"
      unfolding idx unat_div us ue less_Suc_eq_le
      by (rule page_interval [OF _ sl, symmetric]) (use ps in simp)
    moreover have "(\<exists>b. contains (dr_range r) b \<and> contains req b \<and> page_index ps r b = j) \<Longrightarrow>
        j div 64 < length (dr_words r)"
      using len by blast
    ultimately show ?thesis using marked by argo
  qed
qed

lemma region_wf_mark:
  assumes "region_wf ps r" and "unat ps \<noteq> 0"
  shows "region_wf ps (mark_intersection req ps r)"
  using assms page_index_less [OF assms(1)]
  by (auto simp: region_wf_def region_pages_def page_bit_mark_intersection)

lemma region_dirty_mark:
  assumes "region_wf ps r" and "unat ps \<noteq> 0"
  shows "region_dirty ps (mark_intersection req ps r) a \<longleftrightarrow> region_dirty ps r a \<or>
     (contains (dr_range r) a \<and>
      (\<exists>b. contains (dr_range r) b \<and> contains req b \<and> page_of ps a = page_of ps b))"
proof -
  have "page_of ps a = page_of ps b \<longleftrightarrow> page_index ps r b = page_index ps r a"
    if "contains (dr_range r) a" "contains (dr_range r) b" for b
    using that assms page_of_index [of ps r a] page_of_index [of ps r b]
    by (auto simp: region_wf_def contains_def)
  then show ?thesis
    using page_bit_mark_intersection [OF assms]
    by (auto simp: region_dirty_def page_index_def)
qed

lemma validate_tracked_from_Ok_iff:
  assumes "ordered_disjoint (map dr_range rs)" and "cur < gmr_end_exclusive rng"
  shows "validate_tracked_from rs rng cur = Ok () \<longleftrightarrow>
     (\<forall>a. cur \<le> a \<and> a < gmr_end_exclusive rng \<longrightarrow> (\<exists>r\<in>set rs. contains (dr_range r) a))"
  using assms
proof (induction rs arbitrary: cur)
  case Nil
  then show ?case by auto
next
  case (Cons r rs)
  let ?e = "gmr_end_exclusive (dr_range r)" and ?s = "gmr_start (dr_range r)"
  have before: "?e \<le> gmr_start (dr_range q)" if "q \<in> set rs" for q
    using Cons.prems(1) that by (simp add: range_before_def)
  have ne: "?s < ?e" using Cons.prems(1) range_wf_nonempty by simp
  consider "?e \<le> cur" | "cur < ?s" | "?s \<le> cur" "cur < ?e" "gmr_end_exclusive rng \<le> ?e"
    | "?s \<le> cur" "cur < ?e" "?e < gmr_end_exclusive rng" by fastforce
  then show ?case
  proof cases
    case 1
    then show ?thesis
      using Cons by (auto simp: contains_def)
  next
    case 2
    then have "\<not> contains (dr_range q) cur" if "q \<in> set (r # rs)" for q
      using that before ne by (fastforce simp: contains_def)
    then show ?thesis using 2 ne Cons.prems(2) by auto
  next
    case 3
    then show ?thesis by (auto simp: contains_def min_absorb2 Let_def)
  next
    case 4
    then have "validate_tracked_from (r # rs) rng cur = validate_tracked_from rs rng ?e"
      by (auto simp: min_absorb1 Let_def)
    moreover have "contains (dr_range r) a \<longleftrightarrow> a < ?e" if "cur \<le> a" for a
      using 4 that by (auto simp: contains_def)
    moreover have "\<not> (\<exists>q\<in>set rs. contains (dr_range q) a)" if "a < ?e" for a
      using that before by (fastforce simp: contains_def)
    ultimately show ?thesis
      using Cons.IH [of ?e] Cons.prems 4
      by simp (metis (no_types, opaque_lifting) not_less less_imp_le order_trans)
  qed
qed

lemma validate_tracked_from_not_Panic [simp]: "validate_tracked_from rs rng cur \<noteq> Panic"
  by (induction rs arbitrary: cur) (auto simp: Let_def)

lemma tracker_page_size: "tracker_wf t \<Longrightarrow> unat (dt_page_size t) \<noteq> 0"
  by (simp add: tracker_wf_def is_power_of_two_def unat_eq_zero)

lemma mark_range_Ok_iff:
  assumes "tracker_wf t" and "range_wf rng"
  shows "is_ok (mark_range t rng) \<longleftrightarrow> (\<forall>a. contains rng a \<longrightarrow> is_tracked t a)"
  using validate_tracked_from_Ok_iff [of "dt_regions t" "gmr_start rng" rng] assms range_wf_nonempty [OF assms(2)]
  by (auto simp: mark_range_def validate_tracked_range_def is_ok_iff tracker_wf_def result_iffs
      is_tracked_def contains_def)

lemma mark_range_wf:
  assumes "tracker_wf t" and "mark_range t rng = Ok t'"
  shows "tracker_wf t'"
  using assms tracker_page_size [OF assms(1)]
  by (auto simp: mark_range_def result_iffs tracker_wf_def o_def region_wf_mark)

lemma contains_same_page:
  assumes wf: "region_wf ps r" and ps: "unat ps \<noteq> 0"
    and a: "contains (dr_range r) a" and eq: "page_of ps a = page_of ps b"
  shows "contains (dr_range r) b"
proof -
  obtain k where k: "unat (gmr_start (dr_range r)) = unat ps * k"
    using wf by (auto simp: region_wf_def)
  obtain l where l: "unat (gmr_end_exclusive (dr_range r)) = unat ps * l"
    using wf by (auto simp: region_wf_def range_wf_def)
      (metis dvd_add dvdE)
  have "k \<le> page_of ps a"
    using a k ps by (auto simp: contains_def word_nat page_of_def less_eq_div_iff_mult_less_eq mult.commute)
  moreover have "page_of ps a < l"
    using a l ps by (auto simp: contains_def word_nat page_of_def less_mult_imp_div_less mult.commute)
  ultimately have "k \<le> unat b div unat ps" "unat b div unat ps < l"
    using eq by (simp_all add: page_of_def)
  then have "k * unat ps \<le> unat b" "unat b < l * unat ps"
    using ps by (simp_all add: less_eq_div_iff_mult_less_eq div_less_iff_less_mult)
  then show ?thesis
    using k l by (simp add: contains_def word_nat mult.commute)
qed

lemma mark_range_is_dirty:
  assumes wf: "tracker_wf t" and mark: "mark_range t rng = Ok t'"
  shows "is_dirty t' a \<longleftrightarrow> is_dirty t a \<or>
     (is_tracked t a \<and> (\<exists>b. contains rng b \<and> page_of (dt_page_size t) a = page_of (dt_page_size t) b))"
proof -
  let ?ps = "dt_page_size t"
  have t': "t' = t\<lparr>dt_regions := map (mark_intersection rng ?ps) (dt_regions t)\<rparr>"
    using mark by (auto simp: mark_range_def result_iffs)
  have "region_dirty ?ps (mark_intersection rng ?ps r) a \<longleftrightarrow> region_dirty ?ps r a \<or>
      (contains (dr_range r) a \<and> (\<exists>b. contains rng b \<and> page_of ?ps a = page_of ?ps b))"
    if "r \<in> set (dt_regions t)" for r
  proof -
    have r: "region_wf ?ps r" using wf that by (simp add: tracker_wf_def)
    show ?thesis
      using region_dirty_mark [OF r tracker_page_size [OF wf]]
        contains_same_page [OF r tracker_page_size [OF wf]] by blast
  qed
  then show ?thesis by (auto simp: is_dirty_def is_tracked_def t')
qed

section \<open>Topology changes\<close>

lemma dirty_region_new_Ok:
  assumes new: "dirty_region_new alloc rng ps dirty = Ok r" and wf: "range_wf rng"
  shows "dr_range r = rng" and "region_wf ps r"
    and "page_bit (dr_words r) i \<longleftrightarrow> dirty \<and> i < region_pages ps r"
proof -
  define pc where "pc = gmr_size rng div ps"
  from new obtain wc where al: "range_validate_alignment rng ps = Ok ()"
    and wc: "checked_add pc 63 = Some wc"
    and r: "r = \<lparr>dr_range = rng, dr_words = map (\<lambda>wi. if dirty then initial_word pc (of_nat wi) else 0)
                    [0..<unat (wc div 64)]\<rparr>"
    by (auto simp: dirty_region_new_def result_iffs pc_def split: if_splits)
  have uwc: "unat wc = unat pc + 63" using wc by (simp add: checked_add_Some_iff)
  have words: "length (dr_words r) = (unat pc + 63) div 64"
    using uwc by (simp add: r unat_div)
  show dr: "dr_range r = rng" by (simp add: r)
  have pages: "region_pages ps r = unat pc" by (simp add: region_pages_def dr pc_def unat_div)
  show bits: "page_bit (dr_words r) i \<longleftrightarrow> dirty \<and> i < region_pages ps r" for i
  proof (cases "i div 64 < length (dr_words r)")
    case True
    then have "i div 64 < unat wc div 64" using words uwc by simp
    then have "i div 64 * 64 < 2 ^ 64" using unat_bound64 [of wc] by simp
    then have "unat (of_nat (i div 64) :: usize) * 64 < 2 ^ 64" "unat (of_nat (i div 64) :: usize) = i div 64"
      by (simp_all add: unat_of_nat_id)
    then have "bit (initial_word pc (of_nat (i div 64))) (i mod 64) \<longleftrightarrow> i < unat pc"
      by (subst bit_initial_word) auto
    then show ?thesis
      using True unfolding pages by (simp add: page_bit_def r)
  next
    case False
    then show ?thesis
      using word_count_bound [of i "unat pc"] words pages by (auto simp: page_bit_def)
  qed
  show "region_wf ps r"
    using al wf words bits pages
    by (auto simp: region_wf_def dr range_validate_alignment_def result_iffs is_multiple_of_nat split: if_splits)
qed

lemma validate_insert_position_from_Ok:
  assumes "ordered_disjoint (map dr_range rs)" and "range_wf rng"
    and "validate_insert_position_from n rs rng = Ok i"
  shows "n \<le> i \<and> i - n \<le> length rs \<and>
     ordered_disjoint (map dr_range (take (i - n) rs) @ rng # map dr_range (drop (i - n) rs))"
  using assms
proof (induction rs arbitrary: n)
  case (Cons r rs)
  show ?case
  proof (cases "gmr_start rng < gmr_start (dr_range r)")
    case True
    then have "i = n" and "range_before rng (dr_range r)"
      using Cons.prems not_overlaps_before [of "dr_range r" rng]
      by (auto simp: overlaps_sym split: if_splits)
    then show ?thesis
      using Cons.prems range_before_trans [of rng "dr_range r"] by auto
  next
    case False
    then have no: "\<not> overlaps (dr_range r) rng" and "validate_insert_position_from (Suc n) rs rng = Ok i"
      using Cons.prems by (auto split: if_splits)
    then have IH: "Suc n \<le> i" "i - Suc n \<le> length rs"
      "ordered_disjoint (map dr_range (take (i - Suc n) rs) @ rng # map dr_range (drop (i - Suc n) rs))"
      using Cons.IH [of "Suc n"] Cons.prems by auto
    have d: "i - n = Suc (i - Suc n)" using IH(1) by simp
    have "range_before (dr_range r) rng"
      using no False Cons.prems by (intro not_overlaps_before_le) auto
    then show ?thesis
      using IH Cons.prems unfolding d
      by (auto simp: ordered_disjoint_append dest: in_set_takeD in_set_dropD)
  qed
qed simp

lemma validate_insert_position_is_ok:
  assumes "ordered_disjoint (map dr_range rs)" and "range_wf rng"
  shows "is_ok (validate_insert_position_from n rs rng) \<longleftrightarrow> (\<forall>r\<in>set rs. \<not> overlaps (dr_range r) rng)"
  using assms
proof (induction rs arbitrary: n)
  case (Cons r rs)
  have "\<not> overlaps (dr_range q) rng"
    if "gmr_start rng < gmr_start (dr_range r)" "\<not> overlaps (dr_range r) rng" "q \<in> set rs" for q
  proof -
    have "range_before rng (dr_range r)"
      using that Cons.prems not_overlaps_before [of "dr_range r" rng] by (auto simp: overlaps_sym)
    then have "range_before rng (dr_range q)"
      using that Cons.prems range_before_trans [of rng "dr_range r" "dr_range q"] by auto
    then show ?thesis by (metis overlaps_sym range_before_not_overlaps)
  qed
  with Cons show ?case by auto
qed simp

lemma tracker_insert_Ok:
  assumes wf: "tracker_wf t" and rng: "range_wf rng"
    and ins: "tracker_insert_region alloc t rng dirty = Ok t'"
  obtains r i where "dr_range r = rng" and "region_wf (dt_page_size t) r"
    and "t' = t\<lparr>dt_regions := vec_insert i r (dt_regions t)\<rparr>"
    and "ordered_disjoint (map dr_range (vec_insert i r (dt_regions t)))"
    and "\<forall>q\<in>set (dt_regions t). \<not> overlaps (dr_range q) rng"
    and "\<And>a. region_dirty (dt_page_size t) r a \<longleftrightarrow> dirty \<and> contains rng a"
proof -
  from ins obtain i r where i: "validate_insert_position_from 0 (dt_regions t) rng = Ok i"
    and r: "dirty_region_new alloc rng (dt_page_size t) dirty = Ok r"
    and t': "t' = t\<lparr>dt_regions := vec_insert i r (dt_regions t)\<rparr>"
    by (auto simp: tracker_insert_region_def validate_insert_position_def result_iffs split: if_splits)
  note new = dirty_region_new_Ok [OF r rng]
  have od: "ordered_disjoint (map dr_range (dt_regions t))" using wf by (simp add: tracker_wf_def)
  have "ordered_disjoint (map dr_range (vec_insert i r (dt_regions t)))"
    using validate_insert_position_from_Ok [OF od rng i] new(1) by (simp add: vec_insert_def)
  moreover have "\<forall>q\<in>set (dt_regions t). \<not> overlaps (dr_range q) rng"
    using validate_insert_position_is_ok [OF od rng, of 0] i by simp
  moreover have "region_dirty (dt_page_size t) r a \<longleftrightarrow> dirty \<and> contains rng a" for a
    using new page_index_less [OF new(2)] by (auto simp: region_dirty_def)
  ultimately show thesis using that new t' by blast
qed

lemma tracker_insert_wf:
  assumes "tracker_wf t" and "range_wf rng" and "tracker_insert_region alloc t rng dirty = Ok t'"
  shows "tracker_wf t'"
  by (rule tracker_insert_Ok [OF assms]) (use assms(1) in \<open>auto simp: tracker_wf_def\<close>)

lemma tracker_insert_is_dirty:
  assumes "tracker_wf t" and "range_wf rng" and "tracker_insert_region alloc t rng dirty = Ok t'"
  shows "is_dirty t' a \<longleftrightarrow> is_dirty t a \<or> (dirty \<and> contains rng a)"
    and "is_tracked t' a \<longleftrightarrow> is_tracked t a \<or> contains rng a"
  by (rule tracker_insert_Ok [OF assms]; auto simp: is_dirty_def is_tracked_def)+

lemma tracker_remove_wf: "tracker_wf t \<Longrightarrow> tracker_wf (fst (tracker_remove_region t rng))"
  by (auto simp: tracker_remove_region_def tracker_wf_def map_vec_remove ordered_disjoint_remove
      split: option.splits dest: in_set_vec_removeD)

lemma tracker_remove_regions:
  assumes "tracker_wf t"
  shows "set (dt_regions (fst (tracker_remove_region t rng))) = {r \<in> set (dt_regions t). dr_range r \<noteq> rng}"
proof (cases "position (\<lambda>r. dr_range r = rng) (dt_regions t)")
  case None
  then have "\<forall>r\<in>set (dt_regions t). dr_range r \<noteq> rng" by (simp add: position_None_iff)
  with None show ?thesis by (auto simp: tracker_remove_region_def)
next
  case (Some i)
  then have i: "i < length (dt_regions t)" "dr_range (dt_regions t ! i) = rng"
    by (auto simp: position_Some_iff)
  have d: "distinct (map dr_range (dt_regions t))"
    using assms by (simp add: tracker_wf_def ordered_disjoint_distinct)
  then have "r = dt_regions t ! i" if "r \<in> set (dt_regions t)" "dr_range r = rng" for r
    using that i by (auto simp: distinct_map dest: inj_onD)
  then show ?thesis
    using Some i d by (auto simp: tracker_remove_region_def set_vec_remove distinct_map)
qed

lemma tracker_remove_is_dirty:
  assumes "tracker_wf t" and "snd (tracker_remove_region t rng)"
  shows "is_dirty (fst (tracker_remove_region t rng)) a \<longleftrightarrow> is_dirty t a \<and> \<not> contains rng a"
proof -
  obtain r where r: "r \<in> set (dt_regions t)" "dr_range r = rng"
    using assms(2) nth_mem by (force simp: tracker_remove_region_def position_Some_iff split: option.splits)
  have ps: "dt_page_size (fst (tracker_remove_region t rng)) = dt_page_size t"
    by (simp add: tracker_remove_region_def split: option.splits)
  have od: "ordered_disjoint (map dr_range (dt_regions t))" using assms by (simp add: tracker_wf_def)
  have "dr_range q = rng" if "q \<in> set (dt_regions t)" "contains (dr_range q) a" "contains rng a" for q
    using ordered_disjoint_unique [OF od, of "dr_range q" rng a] that r by auto
  then show ?thesis
    unfolding is_dirty_def tracker_remove_regions [OF assms(1)] ps by (auto simp: region_dirty_def)
qed

lemma page_bit_clear [simp]: "\<not> page_bit (map (\<lambda>_. 0) ws) i"
  by (simp add: page_bit_def)

lemma clear_quiesced_wf: "tracker_wf t \<Longrightarrow> tracker_wf (fst (clear_quiesced t))"
  by (auto simp: clear_quiesced_def Let_def tracker_wf_def region_clear_def region_wf_def region_pages_def o_def)

lemma clear_quiesced_clean: "\<not> is_dirty (fst (clear_quiesced t)) a"
  by (auto simp: clear_quiesced_def Let_def is_dirty_def region_dirty_def region_clear_def)

lemma tracker_new_regions_Ok:
  assumes "tracker_new_regions alloc ps rngs rs = Ok rs'" and "\<forall>r\<in>set rngs. range_wf r"
    and "ordered_disjoint (map dr_range rs)" and "\<forall>r\<in>set rs. region_wf ps r \<and> (\<forall>i. \<not> page_bit (dr_words r) i)"
  shows "ordered_disjoint (map dr_range rs') \<and> map dr_range rs' = map dr_range rs @ rngs \<and>
     (\<forall>r\<in>set rs'. region_wf ps r \<and> (\<forall>i. \<not> page_bit (dr_words r) i))"
  using assms
proof (induction rngs arbitrary: rs)
  case (Cons g gs)
  from Cons.prems(1) obtain r where v: "validate_insert_position_from 0 rs g = Ok (length rs)"
    and r: "dirty_region_new alloc g ps False = Ok r" and rest: "tracker_new_regions alloc ps gs (rs @ [r]) = Ok rs'"
    by (auto simp: result_iffs validate_insert_position_def split: if_splits)
  have g: "range_wf g" using Cons.prems(2) by simp
  note new = dirty_region_new_Ok [OF r g]
  have "ordered_disjoint (map dr_range (rs @ [r]))"
    using validate_insert_position_from_Ok [OF Cons.prems(3) g v] new(1) by simp
  then show ?case
    using Cons.IH [OF rest] Cons.prems new by auto
qed simp

lemma tracker_new_Ok:
  assumes "tracker_new alloc rngs ps = Ok t" and "\<forall>r\<in>set rngs. range_wf r"
  shows "tracker_wf t" and "map dr_range (dt_regions t) = rngs" and "\<not> is_dirty t a"
proof -
  from assms(1) obtain rs where ps: "is_power_of_two ps" and rs: "tracker_new_regions alloc ps rngs [] = Ok rs"
    and t: "t = \<lparr>dt_page_size = ps, dt_epoch = 0, dt_regions = rs\<rparr>"
    by (auto simp: tracker_new_def validate_page_size_def result_iffs split: if_splits)
  note r = tracker_new_regions_Ok [OF rs assms(2), simplified]
  show "tracker_wf t" "map dr_range (dt_regions t) = rngs" "\<not> is_dirty t a"
    using r ps by (auto simp: t tracker_wf_def is_dirty_def region_dirty_def)
qed

section \<open>Listing the dirty pages\<close>

fun page_indices :: "nat \<Rightarrow> u64 list \<Rightarrow> nat list" where
  "page_indices wi [] = []"
| "page_indices wi (w # ws) = map ((+) (64 * wi)) (filter (bit w) [0..<64]) @ page_indices (Suc wi) ws"

definition page_start :: "guest_memory_range \<Rightarrow> u64 \<Rightarrow> nat \<Rightarrow> guest_address" where
  "page_start rng ps i = gmr_start rng + of_nat (i * unat ps)"

lemma page_bit_Cons: "page_bit (w # ws) i \<longleftrightarrow> (if i < 64 then bit w i else page_bit ws (i - 64))"
proof (cases "i < 64")
  case False
  then have "i div 64 = Suc ((i - 64) div 64)" "i mod 64 = (i - 64) mod 64"
    by (simp_all add: le_div_geq le_mod_geq)
  with False show ?thesis by (simp add: page_bit_def)
qed (simp add: page_bit_def)

lemma set_page_indices: "set (page_indices wi ws) = {i. 64 * wi \<le> i \<and> page_bit ws (i - 64 * wi)}"
proof (induction ws arbitrary: wi)
  case Nil
  then show ?case by (simp add: page_bit_def)
next
  case (Cons w ws)
  have "i \<in> set (page_indices wi (w # ws)) \<longleftrightarrow> 64 * wi \<le> i \<and> page_bit (w # ws) (i - 64 * wi)" for i
  proof (cases "64 * wi \<le> i \<and> i < 64 * wi + 64")
    case True
    then have "i = 64 * wi + (i - 64 * wi)" "i - 64 * wi < 64" by auto
    with True show ?thesis
      by (auto simp: Cons.IH page_bit_Cons image_iff intro: exI [of _ "i - 64 * wi"])
  next
    case False
    then show ?thesis
      by (auto simp: Cons.IH page_bit_Cons image_iff diff_diff_left add.commute)
  qed
  then show ?case by blast
qed

lemma sorted_page_indices: "sorted_wrt (<) (page_indices wi ws)"
proof (induction ws arbitrary: wi)
  case (Cons w ws)
  have "sorted_wrt (<) (map ((+) (64 * wi)) (filter (bit w) [0..<64]))"
    by (simp add: sorted_wrt_map sorted_wrt_filter)
  with Cons show ?case
    by (auto simp: sorted_wrt_append set_page_indices)
qed simp

lemma unat_page_start:
  assumes "range_wf rng" and "unat ps dvd unat (gmr_size rng)" and "i < unat (gmr_size rng) div unat ps"
  shows "unat (page_start rng ps i) = unat (gmr_start rng) + i * unat ps"
    and "contains rng (page_start rng ps i)"
proof -
  have ps: "0 < unat ps" using assms(3) by (cases "unat ps = 0") auto
  have "i * unat ps < unat (gmr_size rng)"
    using assms(3) ps by (metis div_less_iff_less_mult dvd_div_mult_self assms(2) mult_less_cancel2)
  moreover have "unat (gmr_start rng) + unat (gmr_size rng) < 2 ^ 64"
    using assms(1) unat_bound64 [of "gmr_end_exclusive rng"] by (simp add: range_wf_def)
  ultimately show u: "unat (page_start rng ps i) = unat (gmr_start rng) + i * unat ps"
    unfolding page_start_def by (intro unat_add_of_nat) simp
  then show "contains rng (page_start rng ps i)"
    using assms(1) \<open>i * unat ps < unat (gmr_size rng)\<close> by (simp add: contains_def range_wf_def word_nat)
qed

lemma dirty_page_at_Ok:
  assumes wf: "range_wf rng" and dv: "unat ps dvd unat (gmr_size rng)"
    and i: "64 * wi + j < unat (gmr_size rng) div unat ps"
  shows "dirty_page_at rng ps (of_nat wi) (of_nat j) = Ok (page_start rng ps (64 * wi + j))"
proof -
  note st = unat_page_start [OF wf dv i]
  have "64 * wi + j < unat (gmr_size rng)" using i by (meson div_le_dividend less_le_trans)
  then have b: "64 * wi + j < 2 ^ 64" using unat_bound64 [of "gmr_size rng"] by simp
  then have wi: "unat (of_nat wi :: usize) = wi" and j: "unat (of_nat j :: usize) = j"
    by (auto intro!: unat_of_nat_id)
  have m: "checked_mul (of_nat wi) 64 = Some (of_nat (64 * wi) :: usize)"
    using b wi by (simp add: checked_mul_Some_iff unat_mul_no_overflow mult.commute)
  have a: "checked_add (of_nat (64 * wi)) (of_nat j) = Some (of_nat (64 * wi + j) :: usize)"
    using b j by (subst checked_add_Some_iff) (simp add: unat_of_nat_id del: of_nat_add of_nat_mult)
  have bound: "(64 * wi + j) * unat ps < 2 ^ 64"
    using st(1) unat_bound64 [of "page_start rng ps (64 * wi + j)"] by simp
  have o: "checked_mul (of_nat (64 * wi + j)) ps = Some (of_nat ((64 * wi + j) * unat ps))"
    using b bound by (subst checked_mul_Some_iff) (simp add: unat_of_nat_id del: of_nat_add of_nat_mult)
  have c: "checked_add (gmr_start rng) (of_nat ((64 * wi + j) * unat ps)) = Some (page_start rng ps (64 * wi + j))"
    using st(1) bound by (subst checked_add_Some_iff) (simp add: unat_of_nat_id del: of_nat_add of_nat_mult)
  show ?thesis
    unfolding dirty_page_at_def m using a o c st(2) by (simp del: of_nat_add of_nat_mult)
qed

definition listing_outcome ::
    "dirty_alloc_env \<Rightarrow> (guest_address list, dirty_access_error) result \<Rightarrow> guest_address list \<Rightarrow> bool" where
  "listing_outcome alloc res pages \<longleftrightarrow>
     res = Ok pages \<or> (res = Err AccessMetadataAllocationFailed \<and> (\<exists>n. \<not> alloc (Reserve_Pages n)))"

lemma append_word_pages_outcome:
  assumes "range_wf rng" and "unat ps dvd unat (gmr_size rng)"
    and "\<forall>j<64. bit w j \<longrightarrow> 64 * wi + j < unat (gmr_size rng) div unat ps"
  shows "listing_outcome alloc (append_word_pages alloc rng ps wi w pages)
           (pages @ map (\<lambda>j. page_start rng ps (64 * wi + j)) (filter (bit w) [0..<64]))"
  using assms
proof (induction "unat w" arbitrary: w pages rule: less_induct)
  case less
  show ?case
  proof (cases "w = 0")
    case True
    then show ?thesis by (simp add: listing_outcome_def)
  next
    case False
    note t = trailing_zeros_least [OF False]
    have at: "dirty_page_at rng ps (of_nat wi) (of_nat (trailing_zeros w))
        = Ok (page_start rng ps (64 * wi + trailing_zeros w))"
      using t less.prems by (intro dirty_page_at_Ok) auto
    have sub: "\<forall>j<64. bit (w AND (w - 1)) j \<longrightarrow> 64 * wi + j < unat (gmr_size rng) div unat ps"
      using less.prems(3) by (simp add: bit_and_iff)
    have IH: "listing_outcome alloc (append_word_pages alloc rng ps wi (w AND (w - 1))
          (pages @ [page_start rng ps (64 * wi + trailing_zeros w)]))
        ((pages @ [page_start rng ps (64 * wi + trailing_zeros w)]) @
          map (\<lambda>j. page_start rng ps (64 * wi + j)) (filter (bit (w AND (w - 1))) [0..<64]))"
      using less.hyps [OF clear_lowest_bit_less [OF False] less.prems(1,2) sub] .
    have f: "filter (bit w) [0..<64] = trailing_zeros w # filter (bit (w AND (w - 1))) [0..<64]"
      using filter_bits_step [OF False] by simp
    show ?thesis
      using IH False at unfolding f
      by (subst append_word_pages.simps) (auto simp: listing_outcome_def)
  qed
qed

lemma listing_outcome_then:
  assumes "listing_outcome alloc res xs" and "listing_outcome alloc (f xs) ys"
  shows "listing_outcome alloc (and_then res f) ys"
  using assms by (auto simp: listing_outcome_def)

lemma append_words_pages_outcome:
  assumes "range_wf rng" and "unat ps dvd unat (gmr_size rng)"
    and "\<forall>i. page_bit ws i \<longrightarrow> 64 * wi + i < unat (gmr_size rng) div unat ps"
  shows "listing_outcome alloc (append_words_pages alloc rng ps wi ws pages)
           (pages @ map (page_start rng ps) (page_indices wi ws))"
  using assms
proof (induction ws arbitrary: wi pages)
  case Nil
  then show ?case by (simp add: listing_outcome_def)
next
  case (Cons w ws)
  have w: "\<forall>j<64. bit w j \<longrightarrow> 64 * wi + j < unat (gmr_size rng) div unat ps"
    using Cons.prems(3) by (simp add: page_bit_Cons)
  have ws: "\<forall>i. page_bit ws i \<longrightarrow> 64 * Suc wi + i < unat (gmr_size rng) div unat ps"
  proof (intro allI impI)
    fix i assume "page_bit ws i"
    then have "page_bit (w # ws) (i + 64)" by (simp add: page_bit_Cons)
    then have "64 * wi + (i + 64) < unat (gmr_size rng) div unat ps"
      using Cons.prems(3) by blast
    then show "64 * Suc wi + i < unat (gmr_size rng) div unat ps" by (simp add: algebra_simps)
  qed
  have eq: "pages @ map (page_start rng ps) (page_indices wi (w # ws)) =
      (pages @ map (\<lambda>j. page_start rng ps (64 * wi + j)) (filter (bit w) [0..<64])) @
      map (page_start rng ps) (page_indices (Suc wi) ws)"
    by (simp add: o_def)
  show ?case
    unfolding append_words_pages.simps eq
    by (rule listing_outcome_then [OF append_word_pages_outcome [OF Cons.prems(1,2) w]])
       (rule Cons.IH [OF Cons.prems(1,2) ws])
qed

definition listed_pages :: "u64 \<Rightarrow> dirty_region \<Rightarrow> guest_address list" where
  "listed_pages ps r = map (page_start (dr_range r) ps) (page_indices 0 (dr_words r))"

lemma collect_pages_outcome:
  assumes "\<forall>r\<in>set rs. region_wf ps r"
  shows "listing_outcome alloc (collect_pages alloc ps rs pages) (pages @ concat (map (listed_pages ps) rs))"
  using assms
proof (induction rs arbitrary: pages)
  case Nil
  then show ?case by (simp add: listing_outcome_def)
next
  case (Cons r rs)
  have "listing_outcome alloc (append_dirty_pages alloc ps r pages) (pages @ listed_pages ps r)"
    unfolding append_dirty_pages_def listed_pages_def
    using Cons.prems by (intro append_words_pages_outcome) (auto simp: region_wf_def region_pages_def)
  moreover have "listing_outcome alloc (collect_pages alloc ps rs (pages @ listed_pages ps r))
      (pages @ concat (map (listed_pages ps) (r # rs)))"
    using Cons.IH [of "pages @ listed_pages ps r"] Cons.prems by simp
  ultimately show ?case
    unfolding collect_pages.simps by (rule listing_outcome_then)
qed

lemma listed_pages_region:
  assumes wf: "region_wf ps r" and ps: "unat ps \<noteq> 0"
  shows "sorted_wrt (<) (listed_pages ps r)"
    and "p \<in> set (listed_pages ps r) \<longleftrightarrow> region_dirty ps r p \<and> is_multiple_of p ps"
proof -
  let ?st = "page_start (dr_range r) ps"
  have rw: "range_wf (dr_range r)" "unat ps dvd unat (gmr_size (dr_range r))"
      "unat ps dvd unat (gmr_start (dr_range r))"
    using wf by (auto simp: region_wf_def)
  have lt: "i < unat (gmr_size (dr_range r)) div unat ps" if "page_bit (dr_words r) i" for i
    using that wf by (simp add: region_wf_def region_pages_def)
  have st: "unat (?st i) = unat (gmr_start (dr_range r)) + i * unat ps" "contains (dr_range r) (?st i)"
    if "page_bit (dr_words r) i" for i
    using unat_page_start [OF rw(1,2) lt [OF that]] by auto
  have "sorted_wrt (\<lambda>i j. ?st i < ?st j) (page_indices 0 (dr_words r))"
    by (rule sorted_wrt_mono_rel [OF _ sorted_page_indices])
       (use ps in \<open>auto simp: set_page_indices word_nat st\<close>)
  then show "sorted_wrt (<) (listed_pages ps r)"
    by (simp add: listed_pages_def sorted_wrt_map)
  have "page_index ps r (?st i) = i \<and> is_multiple_of (?st i) ps" if "page_bit (dr_words r) i" for i
    using st(1) [OF that] ps rw(3) by (simp add: page_index_def is_multiple_of_nat)
  moreover have "p = ?st (page_index ps r p)" if "contains (dr_range r) p" "is_multiple_of p ps"
      "page_bit (dr_words r) (page_index ps r p)"
  proof -
    have "unat ps dvd unat p - unat (gmr_start (dr_range r))"
      using that(2) rw(3) by (simp add: is_multiple_of_nat)
    then show ?thesis
      using st(1) [OF that(3)] that(1) by (simp add: word_unat_eq_iff page_index_def contains_def word_nat)
  qed
  ultimately show "p \<in> set (listed_pages ps r) \<longleftrightarrow> region_dirty ps r p \<and> is_multiple_of p ps"
    using st(2) by (auto simp: listed_pages_def set_page_indices region_dirty_def)
qed

lemma sorted_concat_listed:
  assumes "ordered_disjoint (map dr_range rs)" and "\<forall>r\<in>set rs. region_wf ps r" and "unat ps \<noteq> 0"
  shows "sorted_wrt (<) (concat (map (listed_pages ps) rs))"
  using assms
proof (induction rs)
  case (Cons r rs)
  have "p < q" if "p \<in> set (listed_pages ps r)" "s \<in> set rs" "q \<in> set (listed_pages ps s)" for p q s
    using that Cons.prems listed_pages_region(2) [of ps r p] listed_pages_region(2) [of ps s q]
    by (auto simp: region_dirty_def contains_def range_before_def)
  with Cons show ?case
    by (auto simp: sorted_wrt_append listed_pages_region(1))
qed simp

lemma dirty_pages_outcome:
  assumes "tracker_wf t"
  shows "\<exists>pages. listing_outcome alloc (collect_pages alloc (dt_page_size t) (dt_regions t) []) pages \<and>
     sorted_wrt (<) pages \<and> set pages = {p. is_dirty t p \<and> is_multiple_of p (dt_page_size t)}"
proof -
  let ?ps = "dt_page_size t" and ?rs = "dt_regions t"
  have wf: "\<forall>r\<in>set ?rs. region_wf ?ps r" "ordered_disjoint (map dr_range ?rs)"
    using assms by (auto simp: tracker_wf_def)
  have "set (concat (map (listed_pages ?ps) ?rs)) = {p. is_dirty t p \<and> is_multiple_of p ?ps}"
    using wf(1) listed_pages_region(2) [OF _ tracker_page_size [OF assms]] by (auto simp: is_dirty_def)
  then show ?thesis
    using collect_pages_outcome [OF wf(1), of alloc "[]"]
      sorted_concat_listed [OF wf(2,1) tracker_page_size [OF assms]] by auto
qed

section \<open>The tracker as a table of disjoint ranges\<close>

interpretation dirty_table: range_table dr_range dt_regions tracker_wf
  "\<lambda>t r. if dirty_region_new (\<lambda>_. True) (dr_range r) (dt_page_size t) False = Ok r
         then tracker_insert_region (\<lambda>_. True) t (dr_range r) False else Err MetadataAllocationFailed"
proof (unfold_locales, goal_cases)
  case (1 t)
  then show ?case by (simp add: tracker_wf_def)
next
  case (2 t r t')
  then show ?case using tracker_insert_wf [of t "dr_range r" "\<lambda>_. True" False t'] by (simp split: if_splits)
next
  case (3 t r t')
  then show ?case by (auto simp: tracker_insert_region_def result_iffs split: if_splits)
next
  case (4 t r t' x)
  then have "tracker_insert_region (\<lambda>_. True) t (dr_range r) False = Ok t'" by (simp split: if_splits)
  then show ?case using 4 tracker_insert_Ok [of t "dr_range r" "\<lambda>_. True" False t'] by metis
qed

section \<open>Traces of operations and their specification\<close>

text \<open>
  The specification keeps two sets of addresses, the tracked and the dirty ones.  A step of the
  tracker is a successful call; a failing call changes nothing.
\<close>

datatype dirty_op = Op_Mark guest_memory_range | Op_Insert guest_memory_range bool
  | Op_Remove guest_memory_range | Op_Clear

fun spec_step :: "u64 \<Rightarrow> guest_address set \<times> guest_address set \<Rightarrow> dirty_op
    \<Rightarrow> guest_address set \<times> guest_address set" where
  "spec_step ps (T, D) (Op_Mark r) =
     (T, D \<union> {a \<in> T. \<exists>b\<in>addresses r. page_of ps a = page_of ps b})"
| "spec_step ps (T, D) (Op_Insert r d) = (T \<union> addresses r, if d then D \<union> addresses r else D)"
| "spec_step ps (T, D) (Op_Remove r) = (T - addresses r, D - addresses r)"
| "spec_step ps (T, D) Op_Clear = (T, {})"

inductive tracker_step :: "dirty_alloc_env \<Rightarrow> dirty_tracker \<Rightarrow> dirty_op \<Rightarrow> dirty_tracker \<Rightarrow> bool"
  for alloc where
  step_mark: "mark_range t r = Ok t' \<Longrightarrow> tracker_step alloc t (Op_Mark r) t'"
| step_insert: "range_wf r \<Longrightarrow> tracker_insert_region alloc t r d = Ok t' \<Longrightarrow>
    tracker_step alloc t (Op_Insert r d) t'"
| step_remove: "tracker_remove_region t r = (t', True) \<Longrightarrow> tracker_step alloc t (Op_Remove r) t'"
| step_clear: "clear_quiesced t = (t', epoch) \<Longrightarrow> tracker_step alloc t Op_Clear t'"

inductive tracker_trace ::
    "dirty_alloc_env \<Rightarrow> dirty_tracker \<Rightarrow> dirty_op list \<Rightarrow> dirty_tracker \<Rightarrow> bool" for alloc where
  trace_Nil: "tracker_trace alloc t [] t"
| trace_snoc: "tracker_trace alloc t ops t' \<Longrightarrow> tracker_step alloc t' op t'' \<Longrightarrow>
    tracker_trace alloc t (ops @ [op]) t''"

definition tracker_view :: "dirty_tracker \<Rightarrow> guest_address set \<times> guest_address set" where
  "tracker_view t = (Collect (is_tracked t), Collect (is_dirty t))"

lemma tracked_mark: "mark_range t r = Ok t' \<Longrightarrow> is_tracked t' a = is_tracked t a"
  by (auto simp: mark_range_def result_iffs is_tracked_def) blast

lemma tracked_clear: "is_tracked (fst (clear_quiesced t)) a = is_tracked t a"
  by (simp add: clear_quiesced_def Let_def is_tracked_def region_clear_def)

lemma tracked_remove:
  assumes "tracker_wf t" and "snd (tracker_remove_region t rng)"
  shows "is_tracked (fst (tracker_remove_region t rng)) a \<longleftrightarrow> is_tracked t a \<and> \<not> contains rng a"
proof -
  obtain r where r: "r \<in> set (dt_regions t)" "dr_range r = rng"
    using assms(2) nth_mem by (force simp: tracker_remove_region_def position_Some_iff split: option.splits)
  have od: "ordered_disjoint (map dr_range (dt_regions t))" using assms by (simp add: tracker_wf_def)
  have "dr_range q = rng" if "q \<in> set (dt_regions t)" "contains (dr_range q) a" "contains rng a" for q
    using ordered_disjoint_unique [OF od, of "dr_range q" rng a] that r by auto
  then show ?thesis
    unfolding is_tracked_def tracker_remove_regions [OF assms(1)] by auto
qed

lemma tracker_step_page_size: "tracker_step alloc t op t' \<Longrightarrow> dt_page_size t' = dt_page_size t"
  by (auto elim!: tracker_step.cases simp: mark_range_def tracker_insert_region_def result_iffs
      tracker_remove_region_def clear_quiesced_def Let_def split: option.splits if_splits)

lemma tracker_step_refines:
  assumes "tracker_step alloc t op t'" and wf: "tracker_wf t"
  shows "tracker_wf t' \<and> tracker_view t' = spec_step (dt_page_size t) (tracker_view t) op"
  using assms(1)
proof cases
  case (step_mark r)
  then show ?thesis
    using mark_range_wf [OF wf] mark_range_is_dirty [OF wf step_mark(2)] tracked_mark
    by (auto simp: tracker_view_def Bex_def)
next
  case (step_insert r d)
  then show ?thesis
    using tracker_insert_wf [OF wf] tracker_insert_is_dirty [OF wf step_insert(2,3)]
    by (auto simp: tracker_view_def)
next
  case (step_remove r)
  then have t': "t' = fst (tracker_remove_region t r)" "snd (tracker_remove_region t r)" by simp_all
  then show ?thesis
    using tracker_remove_wf [OF wf, of r] tracker_remove_is_dirty [OF wf t'(2)] tracked_remove [OF wf t'(2)] step_remove(1)
    by (auto simp: tracker_view_def)
next
  case (step_clear epoch)
  then have t': "t' = fst (clear_quiesced t)" by simp
  show ?thesis
    using clear_quiesced_wf [OF wf] step_clear(1) by (auto simp: tracker_view_def t' tracked_clear clear_quiesced_clean)
qed

lemma tracker_trace_refines:
  "tracker_trace alloc t ops t' \<Longrightarrow> tracker_wf t \<Longrightarrow>
     tracker_wf t' \<and> dt_page_size t' = dt_page_size t \<and>
     tracker_view t' = foldl (spec_step (dt_page_size t)) (tracker_view t) ops"
  by (induction rule: tracker_trace.induct)
     (auto dest: tracker_step_refines tracker_step_page_size)

text \<open>Every dirty address lies on a listed page.\<close>

lemma dirty_listed:
  assumes wf: "tracker_wf t" and snap: "snapshot_quiesced alloc e t = Ok s" and d: "is_dirty t a"
  shows "\<exists>p\<in>set (ds_pages s). p \<le> a \<and> unat a < unat p + unat (dt_page_size t)"
proof -
  let ?ps = "dt_page_size t"
  have ps: "unat ?ps \<noteq> 0" by (rule tracker_page_size [OF wf])
  obtain r where r: "r \<in> set (dt_regions t)" "region_dirty ?ps r a" using d by (auto simp: is_dirty_def)
  have rwf: "region_wf ?ps r" using wf r(1) by (simp add: tracker_wf_def)
  define p :: u64 where "p = of_nat (page_of ?ps a * unat ?ps)"
  have le: "page_of ?ps a * unat ?ps \<le> unat a" by (simp add: page_of_def)
  then have up: "unat p = page_of ?ps a * unat ?ps"
    unfolding p_def using unat_bound64 [of a] by (intro unat_of_nat_id) simp
  have same: "page_of ?ps p = page_of ?ps a" using ps by (simp add: page_of_def up)
  have cp: "contains (dr_range r) p"
    using contains_same_page [OF rwf ps _ same [symmetric]] r(2) by (simp add: region_dirty_def)
  have "page_index ?ps r p = page_index ?ps r a"
    using page_of_index [of ?ps r p] page_of_index [of ?ps r a] same ps rwf cp r(2)
    by (auto simp: region_wf_def region_dirty_def contains_def)
  then have "is_dirty t p"
    using r cp by (auto simp: is_dirty_def region_dirty_def)
  moreover have "is_multiple_of p ?ps" by (simp add: is_multiple_of_nat up)
  moreover obtain pages where pages: "listing_outcome alloc (collect_pages alloc ?ps (dt_regions t) []) pages"
      "set pages = {p. is_dirty t p \<and> is_multiple_of p ?ps}"
    using dirty_pages_outcome [OF wf] by blast
  have "ds_pages s = pages"
    using snap pages(1) by (auto simp: snapshot_quiesced_def listing_outcome_def split: if_splits)
  moreover have "unat a < unat p + unat ?ps"
    using ps div_mult_mod_eq [of "unat a" "unat ?ps"] mod_less_divisor [of "unat ?ps" "unat a"]
    unfolding up page_of_def by linarith
  ultimately show ?thesis using le pages(2) by (intro bexI [of _ p]) (auto simp: word_nat up)
qed

section \<open>Properties\<close>

lemma tracker_new_view:
  assumes "tracker_new alloc rngs ps = Ok t" and "\<forall>r\<in>set rngs. range_wf r"
  shows "tracker_view t = (\<Union>(addresses ` set rngs), {})" and "dt_page_size t = ps"
proof -
  note new = tracker_new_Ok [OF assms]
  have "is_tracked t a \<longleftrightarrow> (\<exists>r\<in>set (map dr_range (dt_regions t)). contains r a)" for a
    by (simp add: is_tracked_def)
  then show "tracker_view t = (\<Union>(addresses ` set rngs), {})"
    using new by (auto simp: tracker_view_def)
  show "dt_page_size t = ps"
    using assms(1) by (auto simp: tracker_new_def result_iffs split: if_splits)
qed

text \<open>
  C6: from a new tracker, after every sequence of successful marks, region insertions and removals
  and generation clears, the well-formedness invariant holds and the tracker shows exactly the tracked and dirty
  addresses of the specification: an address is dirty iff its page was touched by a mark, or its
  region was inserted dirty, since the last clear and since the region was inserted.
\<close>

theorem dirty_tracker_refines:
  assumes "tracker_new alloc rngs ps = Ok t0" and "\<forall>r\<in>set rngs. range_wf r"
    and "tracker_trace alloc t0 ops t"
  shows "tracker_wf t \<and> tracker_view t = foldl (spec_step ps) (\<Union>(addresses ` set rngs), {}) ops"
  using tracker_trace_refines [OF assms(3)] tracker_new_Ok(1) [OF assms(1,2)] tracker_new_view [OF assms(1,2)]
  by simp

text \<open>
  \<open>mark_range\<close> succeeds exactly on ranges every byte of which is tracked (contiguous regions may be
  crossed), and then marks exactly the pages the range meets.
\<close>

lemma mark_range_exact:
  assumes "tracker_wf t" and "range_wf rng"
  shows "(is_ok (mark_range t rng) \<longleftrightarrow> addresses rng \<subseteq> Collect (is_tracked t)) \<and>
     (\<forall>t' a. mark_range t rng = Ok t' \<longrightarrow> (is_dirty t' a \<longleftrightarrow> is_dirty t a \<or>
        (is_tracked t a \<and> (\<exists>b\<in>addresses rng. page_of (dt_page_size t) a = page_of (dt_page_size t) b))))"
  using mark_range_Ok_iff [OF assms] mark_range_is_dirty [OF assms(1)] by (auto simp: Bex_def)

text \<open>
  the page listing of a quiesced snapshot is complete, exact and strictly ascending: unless a page
  reservation fails, it returns precisely the page-aligned dirty addresses of the current generation; none of the
  internal consistency errors can occur.
\<close>

lemma snapshot_quiesced_exact:
  assumes "tracker_wf t"
  shows "(\<exists>n. \<not> alloc (Reserve_Pages n)) \<and> snapshot_quiesced alloc (dt_epoch t) t = Err AccessMetadataAllocationFailed \<or>
     (\<exists>s. snapshot_quiesced alloc (dt_epoch t) t = Ok s \<and> ds_epoch s = dt_epoch t \<and> sorted_wrt (<) (ds_pages s) \<and>
        set (ds_pages s) = {p. is_dirty t p \<and> is_multiple_of p (dt_page_size t)})"
  using dirty_pages_outcome [OF assms, of alloc] by (auto simp: snapshot_quiesced_def listing_outcome_def)

text \<open>A concrete tracker of one 64 KiB region with 16 KiB pages.\<close>

definition sample_range :: "u64 \<Rightarrow> u64 \<Rightarrow> guest_memory_range" where
  "sample_range start sz = \<lparr>gmr_start = start, gmr_size = sz, gmr_end_exclusive = start + sz\<rparr>"

definition sample_tracker :: "u64 \<Rightarrow> dirty_tracker" where
  "sample_tracker w = \<lparr>dt_page_size = 0x4000, dt_epoch = 0,
     dt_regions = [\<lparr>dr_range = sample_range 0x80000000 0x10000, dr_words = [w]\<rparr>]\<rparr>"

lemmas sample_defs = sample_tracker_def sample_range_def is_power_of_two_def range_validate_alignment_def
  validate_alignment_def is_multiple_of_def checked_add_def validate_page_size_def result_iffs

lemma sample_tracker_new:
  "tracker_new (\<lambda>_. True) [sample_range 0x80000000 0x10000] 0x4000 = Ok (sample_tracker 0)"
  by (simp add: sample_defs tracker_new_def validate_insert_position_def dirty_region_new_def)

lemma sample_tracker_mark:
  "mark_range (sample_tracker 0) (sample_range 0x80004100 0x10) = Ok (sample_tracker 2)"
  by (simp add: sample_defs mark_range_def validate_tracked_range_def mark_intersection_def mark_page_def
      bitmap_location_def)

lemma sample_range_wf: "range_wf (sample_range 0x80000000 0x10000)" "range_wf (sample_range 0x80004100 0x10)"
  by (simp_all add: sample_range_def range_wf_def)

lemma sample_tracker_wf: "tracker_wf (sample_tracker 0)"
  using tracker_new_Ok(1) [OF sample_tracker_new] sample_range_wf by simp

theorem dirty_tracker_refines_witness:
  "tracker_view (sample_tracker 2) = foldl (spec_step 0x4000)
     (\<Union>(addresses ` set [sample_range 0x80000000 0x10000]), {}) [Op_Mark (sample_range 0x80004100 0x10)]"
proof -
  have "tracker_trace (\<lambda>_. True) (sample_tracker 0) ([] @ [Op_Mark (sample_range 0x80004100 0x10)]) (sample_tracker 2)"
    by (intro trace_snoc [OF trace_Nil] step_mark sample_tracker_mark)
  then show ?thesis
    using dirty_tracker_refines [OF sample_tracker_new, of _ "sample_tracker 2"] sample_range_wf by simp
qed

lemma mark_range_exact_witness:
  "is_ok (mark_range (sample_tracker 0) (sample_range 0x80004100 0x10)) \<and>
   (is_dirty (sample_tracker 2) 0x80007fff \<longleftrightarrow> is_dirty (sample_tracker 0) 0x80007fff \<or>
     (is_tracked (sample_tracker 0) 0x80007fff \<and>
      (\<exists>b\<in>addresses (sample_range 0x80004100 0x10). page_of 0x4000 0x80007fff = page_of 0x4000 b)))"
proof -
  have "dt_page_size (sample_tracker 0) = 0x4000" by (simp add: sample_tracker_def)
  then show ?thesis
    using mark_range_exact [OF sample_tracker_wf sample_range_wf(2)] sample_tracker_mark by simp
qed

lemma snapshot_quiesced_exact_witness:
  "\<exists>s. snapshot_quiesced (\<lambda>_. True) 0 (sample_tracker 2) = Ok s \<and> ds_pages s = [0x80004000] \<and>
     set (ds_pages s) = {p. is_dirty (sample_tracker 2) p \<and> is_multiple_of p 0x4000}"
proof -
  have wf: "tracker_wf (sample_tracker 2)"
    using mark_range_wf [OF sample_tracker_wf sample_tracker_mark] .
  have eval: "snapshot_quiesced (\<lambda>_. True) 0 (sample_tracker 2)
      = Ok \<lparr>ds_page_size = 0x4000, ds_epoch = 0, ds_pages = [0x80004000]\<rparr>"
    by (simp add: sample_defs snapshot_quiesced_def append_dirty_pages_def append_word_pages.simps
        dirty_page_at_def trailing_zeros_def upt_rec checked_mul_def contains_def)
  show ?thesis
    using snapshot_quiesced_exact [OF wf, of "\<lambda>_. True"] eval by (simp add: sample_tracker_def)
qed

end
