(* ===== verification/Guest_Memory.thy ===== *)
theory Guest_Memory
  imports Dirty_Tracker
begin

text \<open>
  Guest RAM, from \<open>crates/runtime/src/memory.rs\<close>: the owner of the mapped regions, its byte
  access, topology changes, atomic words and discard.  Host memory is an explicit store from
  mapping identities to the bytes of the mapping; a region is a view of one mapping at an offset,
  and several regions may be views of one shared reservation.  A raw-pointer access outside its
  mapping is the outcome \<open>Panic\<close>, which the theorems exclude.  Calls of the operating system are
  parameters: \<open>os_map_ok\<close> tells whether a fresh (zero-filled) mapping is granted, \<open>alloc\<close>
  whether a metadata reservation succeeds, \<open>page_size\<close> is the host page size, \<open>host_base\<close> the
  host address of a mapping, and \<open>reclaim\<close> the outcome of host reclaim advice.
\<close>

section \<open>State\<close>

datatype guest_memory_backing = Anonymous | Shared

datatype guest_memory_access_profile = Eager | ProtectedLazy

type_synonym mapping_identity = u64
type_synonym host_store = "mapping_identity \<Rightarrow> u8 list option"

record guest_memory_region =
  reg_range :: guest_memory_range
  reg_mapping :: mapping_identity
  reg_mapping_offset :: usize
  reg_host_size :: usize

record guest_memory =
  gm_regions :: "guest_memory_region list"
  gm_shared_reservations :: "guest_memory_region list"
  gm_dirty_tracker :: "dirty_tracker option"
  gm_backing :: guest_memory_backing
  gm_access_profile :: guest_memory_access_profile
  gm_store :: host_store
  gm_next_identity :: u64

datatype guest_memory_allocation_error =
    InvalidLayout guest_memory_error
  | ProtectedLazyMutation
  | InvalidHostPageSize
  | SizeTooLarge guest_memory_range
  | RegionMetadataAllocationFailed
  | DirtyTrackingMetadata dirty_tracker_error
  | HostMappingFailed usize
  | MappingIdentityExhausted

datatype guest_memory_removal_error = RemovalProtectedLazyMutation | MissingRange guest_memory_range

datatype guest_memory_access_error =
    AccessSizeTooLarge usize
  | AccessAddressOverflow guest_address u64
  | UnmappedRange guest_memory_range
  | SegmentOffsetTooLarge guest_memory_range u64
  | SegmentSizeTooLarge guest_memory_range u64
  | UnalignedAtomicAccess guest_address u64
  | UnalignedAtomicHostAddress guest_address u64
  | AtomicAccessCrossesRegion guest_memory_range
  | AtomicHostOffsetOverflow guest_address
  | DirtyTrackingState

datatype memory_alloc = Reserve_Memory_Regions nat | Reserve_Reservations nat | Reserve_Dirty dirty_alloc

type_synonym memory_alloc_env = "memory_alloc \<Rightarrow> bool"

abbreviation dirty_env :: "memory_alloc_env \<Rightarrow> dirty_alloc_env" where
  "dirty_env alloc \<equiv> \<lambda>r. alloc (Reserve_Dirty r)"

definition is_protected_lazy :: "guest_memory \<Rightarrow> bool" where
  "is_protected_lazy m \<longleftrightarrow> gm_access_profile m = ProtectedLazy"

section \<open>Host bytes\<close>

definition host_write :: "host_store \<Rightarrow> mapping_identity \<Rightarrow> nat \<Rightarrow> u8 list \<Rightarrow> host_store option" where
  "host_write st i off bs =
     (case st i of
        Some bytes \<Rightarrow> if off + length bs \<le> length bytes then Some (st(i \<mapsto> overwrite off bs bytes)) else None
      | None \<Rightarrow> None)"

definition host_read :: "host_store \<Rightarrow> mapping_identity \<Rightarrow> nat \<Rightarrow> nat \<Rightarrow> u8 list option" where
  "host_read st i off n =
     (case st i of
        Some bytes \<Rightarrow> if off + n \<le> length bytes then Some (take n (drop off bytes)) else None
      | None \<Rightarrow> None)"

section \<open>Byte access\<close>

record guest_memory_segment =
  seg_offset :: usize
  seg_size :: usize

definition access_range ::
    "guest_address \<Rightarrow> usize \<Rightarrow> (guest_memory_range option, guest_memory_access_error) result" where
  "access_range start sz =
     (if sz = 0 then Ok None
      else
        and_then (ok_or (try_from sz) (AccessSizeTooLarge sz)) (\<lambda>sz :: u64.
        and_then (ok_or (checked_add start sz) (AccessAddressOverflow start sz)) (\<lambda>end_exclusive.
          Ok (Some \<lparr>gmr_start = start, gmr_size = sz, gmr_end_exclusive = end_exclusive\<rparr>))))"

definition access_segment ::
    "guest_memory_region \<Rightarrow> guest_address \<Rightarrow> guest_address
      \<Rightarrow> (guest_memory_segment, guest_memory_access_error) result" where
  "access_segment region current end' =
     and_then (sub_or_panic current (gmr_start (reg_range region))) (\<lambda>offset.
     and_then (ok_or (try_from offset) (SegmentOffsetTooLarge (reg_range region) offset)) (\<lambda>offset :: usize.
     and_then (sub_or_panic (gmr_end_exclusive (reg_range region)) current) (\<lambda>to_region_end.
     and_then (sub_or_panic end' current) (\<lambda>to_end.
     let sz = min to_region_end to_end in
     and_then (ok_or (try_from sz) (SegmentSizeTooLarge (reg_range region) sz)) (\<lambda>sz :: usize.
     Ok \<lparr>seg_offset = offset, seg_size = sz\<rparr>)))))"

definition advance_address ::
    "guest_address \<Rightarrow> usize \<Rightarrow> (guest_address, guest_memory_access_error) result" where
  "advance_address address offset =
     and_then (ok_or (try_from offset) (AccessSizeTooLarge offset)) (\<lambda>sz :: u64.
     ok_or (checked_add address sz) (AccessAddressOverflow address sz))"

fun validate_mapped_from ::
    "guest_memory_region list \<Rightarrow> guest_memory_range \<Rightarrow> guest_address
      \<Rightarrow> (unit, guest_memory_access_error) result" where
  "validate_mapped_from [] rng current = Err (UnmappedRange rng)"
| "validate_mapped_from (region # regions) rng current =
     (if gmr_end_exclusive (reg_range region) \<le> current then validate_mapped_from regions rng current
      else if \<not> contains (reg_range region) current then Err (UnmappedRange rng)
      else
        and_then (access_segment region current (gmr_end_exclusive rng)) (\<lambda>segment.
        and_then (advance_address current (seg_size segment)) (\<lambda>current'.
          if current' = gmr_end_exclusive rng then Ok ()
          else validate_mapped_from regions rng current')))"

definition validate_mapped_range ::
    "guest_memory \<Rightarrow> guest_memory_range \<Rightarrow> (unit, guest_memory_access_error) result" where
  "validate_mapped_range m rng = validate_mapped_from (gm_regions m) rng (gmr_start rng)"

fun write_regions ::
    "host_store \<Rightarrow> guest_memory_region list \<Rightarrow> u8 list \<Rightarrow> guest_address \<Rightarrow> guest_address
      \<Rightarrow> host_store \<times> (unit, guest_memory_access_error) result" where
  "write_regions st [] remaining current end' = (st, Ok ())"
| "write_regions st (region # regions) remaining current end' =
     (if remaining = [] then (st, Ok ())
      else if gmr_end_exclusive (reg_range region) \<le> current
      then write_regions st regions remaining current end'
      else
        case access_segment region current end' of
          Err e \<Rightarrow> (st, Err e)
        | Panic \<Rightarrow> (st, Panic)
        | Ok segment \<Rightarrow>
            if length remaining < unat (seg_size segment) then (st, Panic)
            else
              case host_write st (reg_mapping region)
                     (unat (reg_mapping_offset region) + unat (seg_offset segment))
                     (take (unat (seg_size segment)) remaining) of
                None \<Rightarrow> (st, Panic)
              | Some st' \<Rightarrow>
                  (case advance_address current (seg_size segment) of
                     Err e \<Rightarrow> (st', Err e)
                   | Panic \<Rightarrow> (st', Panic)
                   | Ok current' \<Rightarrow>
                       write_regions st' regions (drop (unat (seg_size segment)) remaining) current' end'))"

definition mark_dirty ::
    "guest_memory \<Rightarrow> guest_memory_range \<Rightarrow> (guest_memory, guest_memory_access_error) result" where
  "mark_dirty m rng =
     (case gm_dirty_tracker m of
        None \<Rightarrow> Ok m
      | Some tracker \<Rightarrow>
          and_then (map_err (\<lambda>_. DirtyTrackingState) (mark_range tracker rng))
            (\<lambda>tracker'. Ok (m\<lparr>gm_dirty_tracker := Some tracker'\<rparr>)))"

definition write_slice ::
    "guest_memory \<Rightarrow> u8 list \<Rightarrow> guest_address \<Rightarrow> guest_memory \<times> (unit, guest_memory_access_error) result" where
  "write_slice m source address =
     (case access_range address (of_nat (length source)) of
        Err e \<Rightarrow> (m, Err e)
      | Panic \<Rightarrow> (m, Panic)
      | Ok None \<Rightarrow> (m, Ok ())
      | Ok (Some rng) \<Rightarrow>
          (case and_then (validate_mapped_range m rng) (\<lambda>_. mark_dirty m rng) of
             Err e \<Rightarrow> (m, Err e)
           | Panic \<Rightarrow> (m, Panic)
           | Ok m' \<Rightarrow>
               (case write_regions (gm_store m') (gm_regions m') source (gmr_start rng) (gmr_end_exclusive rng) of
                  (st, r) \<Rightarrow> (m'\<lparr>gm_store := st\<rparr>, r))))"

text \<open>\<open>read_regions\<close> returns the destination buffer: the part already filled, then the rest.\<close>

fun read_regions ::
    "host_store \<Rightarrow> guest_memory_region list \<Rightarrow> u8 list \<Rightarrow> u8 list \<Rightarrow> guest_address \<Rightarrow> guest_address
      \<Rightarrow> u8 list \<times> (unit, guest_memory_access_error) result" where
  "read_regions st [] filled remaining current end' = (filled @ remaining, Ok ())"
| "read_regions st (region # regions) filled remaining current end' =
     (if remaining = [] then (filled, Ok ())
      else if gmr_end_exclusive (reg_range region) \<le> current
      then read_regions st regions filled remaining current end'
      else
        case access_segment region current end' of
          Err e \<Rightarrow> (filled @ remaining, Err e)
        | Panic \<Rightarrow> (filled @ remaining, Panic)
        | Ok segment \<Rightarrow>
            if length remaining < unat (seg_size segment) then (filled @ remaining, Panic)
            else
              case host_read st (reg_mapping region)
                     (unat (reg_mapping_offset region) + unat (seg_offset segment))
                     (unat (seg_size segment)) of
                None \<Rightarrow> (filled @ remaining, Panic)
              | Some bs \<Rightarrow>
                  (let filled' = filled @ bs; remaining' = drop (unat (seg_size segment)) remaining in
                   case advance_address current (seg_size segment) of
                     Err e \<Rightarrow> (filled' @ remaining', Err e)
                   | Panic \<Rightarrow> (filled' @ remaining', Panic)
                   | Ok current' \<Rightarrow> read_regions st regions filled' remaining' current' end'))"

definition read_slice ::
    "guest_memory \<Rightarrow> u8 list \<Rightarrow> guest_address \<Rightarrow> u8 list \<times> (unit, guest_memory_access_error) result" where
  "read_slice m destination address =
     (case access_range address (of_nat (length destination)) of
        Err e \<Rightarrow> (destination, Err e)
      | Panic \<Rightarrow> (destination, Panic)
      | Ok None \<Rightarrow> (destination, Ok ())
      | Ok (Some rng) \<Rightarrow>
          (case validate_mapped_range m rng of
             Err e \<Rightarrow> (destination, Err e)
           | Panic \<Rightarrow> (destination, Panic)
           | Ok _ \<Rightarrow> read_regions (gm_store m) (gm_regions m) [] destination (gmr_start rng) (gmr_end_exclusive rng)))"

section \<open>Topology\<close>

record host_env =
  he_sysconf_page_size :: "u64 option"
  he_alloc :: memory_alloc_env
  he_prepare_ok :: "guest_memory_backing \<Rightarrow> usize \<Rightarrow> bool"
  he_map_ok :: "guest_memory_backing \<Rightarrow> usize \<Rightarrow> bool"

definition system_host_page_size :: "host_env \<Rightarrow> u64 option" where
  "system_host_page_size env =
     (case he_sysconf_page_size env of
        None \<Rightarrow> None
      | Some page_size \<Rightarrow> if page_size \<noteq> 0 \<and> is_power_of_two page_size then Some page_size else None)"

definition validate_host_page_size :: "u64 \<Rightarrow> (unit, guest_memory_allocation_error) result" where
  "validate_host_page_size page_size =
     (if page_size = 0 \<or> \<not> is_power_of_two page_size then Err InvalidHostPageSize else Ok ())"

definition host_page_size :: "host_env \<Rightarrow> (u64, guest_memory_allocation_error) result" where
  "host_page_size env =
     and_then (ok_or (system_host_page_size env) InvalidHostPageSize) (\<lambda>page_size.
     and_then (validate_host_page_size page_size) (\<lambda>_. Ok page_size))"

definition allocation_host_size :: "guest_memory_range \<Rightarrow> (usize, guest_memory_allocation_error) result" where
  "allocation_host_size rng = ok_or (try_from (gmr_size rng)) (SizeTooLarge rng)"

definition validate_allocation_range ::
    "guest_memory_range \<Rightarrow> u64 \<Rightarrow> (usize, guest_memory_allocation_error) result" where
  "validate_allocation_range rng page_size =
     and_then (map_err InvalidLayout (range_validate_alignment rng page_size)) (\<lambda>_. allocation_host_size rng)"

fun validate_allocation_range_list ::
    "guest_memory_range list \<Rightarrow> u64 \<Rightarrow> (unit, guest_memory_allocation_error) result" where
  "validate_allocation_range_list [] page_size = Ok ()"
| "validate_allocation_range_list (rng # rngs) page_size =
     and_then (validate_allocation_range rng page_size) (\<lambda>_. validate_allocation_range_list rngs page_size)"

definition validate_allocation_ranges ::
    "guest_memory_layout \<Rightarrow> u64 \<Rightarrow> (unit, guest_memory_allocation_error) result" where
  "validate_allocation_ranges layout page_size =
     and_then (validate_host_page_size page_size)
       (\<lambda>_. validate_allocation_range_list (layout_ranges layout) page_size)"

text \<open>
  A fresh mapping takes the next identity, which is never reused, and is zero-filled.  The
  identity is consumed even when the host refuses the mapping.
\<close>

definition map_fresh ::
    "host_env \<Rightarrow> guest_memory_backing \<Rightarrow> usize \<Rightarrow> guest_memory
      \<Rightarrow> guest_memory \<times> (mapping_identity, guest_memory_allocation_error) result" where
  "map_fresh env backing sz m =
     (case checked_add (gm_next_identity m) 1 of
        None \<Rightarrow> (m, Err MappingIdentityExhausted)
      | Some next \<Rightarrow>
          (let m' = m\<lparr>gm_next_identity := next\<rparr> in
           if he_map_ok env backing sz
           then (m'\<lparr>gm_store := (gm_store m)(gm_next_identity m \<mapsto> replicate (unat sz) 0)\<rparr>, Ok (gm_next_identity m))
           else (m', Err (HostMappingFailed sz))))"

definition empty_with_backing :: "u64 \<Rightarrow> guest_memory_backing \<Rightarrow> guest_memory" where
  "empty_with_backing next backing =
     \<lparr>gm_regions = [], gm_shared_reservations = [], gm_dirty_tracker = None, gm_backing = backing,
      gm_access_profile = Eager, gm_store = (\<lambda>_. None), gm_next_identity = next\<rparr>"

fun allocate_regions ::
    "host_env \<Rightarrow> guest_memory_range list \<Rightarrow> guest_memory \<Rightarrow> (guest_memory, guest_memory_allocation_error) result" where
  "allocate_regions env [] m = Ok m"
| "allocate_regions env (rng # rngs) m =
     and_then (allocation_host_size rng) (\<lambda>host_size.
       case map_fresh env (gm_backing m) host_size m of
         (m', Ok mapping) \<Rightarrow>
           allocate_regions env rngs (m'\<lparr>gm_regions := gm_regions m' @
             [\<lparr>reg_range = rng, reg_mapping = mapping, reg_mapping_offset = 0, reg_host_size = host_size\<rparr>]\<rparr>)
       | (m', Err e) \<Rightarrow> Err e
       | (m', Panic) \<Rightarrow> Panic)"

definition allocate_with_mapper ::
    "host_env \<Rightarrow> guest_memory_layout \<Rightarrow> u64 \<Rightarrow> guest_memory_backing \<Rightarrow> u64
      \<Rightarrow> (guest_memory, guest_memory_allocation_error) result" where
  "allocate_with_mapper env layout page_size backing next =
     and_then (validate_allocation_ranges layout page_size) (\<lambda>_.
       if \<not> he_alloc env (Reserve_Memory_Regions (length (layout_ranges layout)))
       then Err RegionMetadataAllocationFailed
       else allocate_regions env (layout_ranges layout) (empty_with_backing next backing))"

definition allocate_with_backing ::
    "host_env \<Rightarrow> guest_memory_layout \<Rightarrow> guest_memory_backing \<Rightarrow> u64
      \<Rightarrow> (guest_memory, guest_memory_allocation_error) result" where
  "allocate_with_backing env layout backing next =
     and_then (host_page_size env) (\<lambda>page_size.
     and_then (validate_allocation_ranges layout page_size) (\<lambda>_.
       if backing = Shared \<and> (\<exists>r\<in>set (layout_ranges layout). \<not> he_prepare_ok env Shared (gmr_size r))
       then Err (HostMappingFailed 0)
       else allocate_with_mapper env layout page_size backing next))"

definition enable_dirty_tracking ::
    "host_env \<Rightarrow> guest_memory \<Rightarrow> (guest_memory, dirty_tracker_error) result" where
  "enable_dirty_tracking env m =
     (if is_protected_lazy m then Err ProtectedLazyMemory
      else case gm_dirty_tracker m of
             Some _ \<Rightarrow> Ok m
           | None \<Rightarrow>
               and_then (ok_or (system_host_page_size env) (InvalidPageSize 0)) (\<lambda>page_size.
               and_then (tracker_new (dirty_env (he_alloc env)) (map reg_range (gm_regions m)) page_size)
                 (\<lambda>tracker. Ok (m\<lparr>gm_dirty_tracker := Some tracker\<rparr>))))"

fun check_reservations ::
    "guest_memory_region list \<Rightarrow> guest_memory_range \<Rightarrow> (unit, guest_memory_allocation_error) result" where
  "check_reservations [] rng = Ok ()"
| "check_reservations (r # rs) rng =
     (if overlaps (reg_range r) rng \<and> \<not> guest_memory_range_contains (reg_range r) rng
      then Err (InvalidLayout (overlapping_ranges_error (reg_range r) rng))
      else check_reservations rs rng)"

definition validate_insert_region ::
    "guest_memory \<Rightarrow> guest_memory_range \<Rightarrow> u64 \<Rightarrow> (nat, guest_memory_allocation_error) result" where
  "validate_insert_region m rng page_size =
     and_then (validate_allocation_range rng page_size) (\<lambda>_.
     let insert_index = partition_point (\<lambda>r. gmr_start (reg_range r) < gmr_start rng) (gm_regions m) in
     if insert_index \<noteq> 0 \<and> overlaps (reg_range (gm_regions m ! (insert_index - 1))) rng
     then Err (InvalidLayout (overlapping_ranges_error (reg_range (gm_regions m ! (insert_index - 1))) rng))
     else if insert_index < length (gm_regions m) \<and> overlaps (reg_range (gm_regions m ! insert_index)) rng
     then Err (InvalidLayout (overlapping_ranges_error rng (reg_range (gm_regions m ! insert_index))))
     else and_then (check_reservations (gm_shared_reservations m) rng) (\<lambda>_. Ok insert_index))"

definition shared_reservation_containing ::
    "guest_memory \<Rightarrow> guest_memory_range \<Rightarrow> guest_memory_region option" where
  "shared_reservation_containing m rng =
     find (\<lambda>r. guest_memory_range_contains (reg_range r) rng) (gm_shared_reservations m)"

definition insert_prepared_region ::
    "host_env \<Rightarrow> guest_memory \<Rightarrow> nat \<Rightarrow> guest_memory_region
      \<Rightarrow> guest_memory \<times> (unit, guest_memory_allocation_error) result" where
  "insert_prepared_region env m insert_index region =
     (if \<not> he_alloc env (Reserve_Memory_Regions (Suc (length (gm_regions m))))
      then (m, Err RegionMetadataAllocationFailed)
      else
        case gm_dirty_tracker m of
          None \<Rightarrow> (m\<lparr>gm_regions := vec_insert insert_index region (gm_regions m)\<rparr>, Ok ())
        | Some tracker \<Rightarrow>
            (case tracker_insert_region (dirty_env (he_alloc env)) tracker (reg_range region) True of
               Ok tracker' \<Rightarrow>
                 (m\<lparr>gm_dirty_tracker := Some tracker',
                    gm_regions := vec_insert insert_index region (gm_regions m)\<rparr>, Ok ())
             | Err e \<Rightarrow> (m, Err (DirtyTrackingMetadata e))
             | Panic \<Rightarrow> (m, Panic)))"

definition allocate_region_with_mapper ::
    "host_env \<Rightarrow> guest_memory_range \<Rightarrow> u64 \<Rightarrow> guest_memory
      \<Rightarrow> guest_memory \<times> (guest_memory_region, guest_memory_allocation_error) result" where
  "allocate_region_with_mapper env rng page_size m =
     (case validate_allocation_range rng page_size of
        Err e \<Rightarrow> (m, Err e)
      | Panic \<Rightarrow> (m, Panic)
      | Ok host_size \<Rightarrow>
          (case map_fresh env (gm_backing m) host_size m of
             (m', Ok mapping) \<Rightarrow>
               (m', Ok \<lparr>reg_range = rng, reg_mapping = mapping, reg_mapping_offset = 0, reg_host_size = host_size\<rparr>)
           | (m', Err e) \<Rightarrow> (m', Err e)
           | (m', Panic) \<Rightarrow> (m', Panic)))"

definition insert_region_with_mapper ::
    "host_env \<Rightarrow> guest_memory \<Rightarrow> guest_memory_range \<Rightarrow> u64
      \<Rightarrow> guest_memory \<times> (unit, guest_memory_allocation_error) result" where
  "insert_region_with_mapper env m rng page_size =
     (case validate_insert_region m rng page_size of
        Err e \<Rightarrow> (m, Err e)
      | Panic \<Rightarrow> (m, Panic)
      | Ok insert_index \<Rightarrow>
          (case allocate_region_with_mapper env rng page_size m of
             (m', Ok region) \<Rightarrow> insert_prepared_region env m' insert_index region
           | (m', Err e) \<Rightarrow> (m', Err e)
           | (m', Panic) \<Rightarrow> (m', Panic)))"

definition mapping_size :: "guest_memory \<Rightarrow> mapping_identity \<Rightarrow> nat" where
  "mapping_size m i = (case gm_store m i of Some bs \<Rightarrow> length bs | None \<Rightarrow> 0)"

definition reservation_view ::
    "guest_memory \<Rightarrow> guest_memory_region \<Rightarrow> guest_memory_range
      \<Rightarrow> (guest_memory_region, guest_memory_allocation_error) result" where
  "reservation_view m reservation rng =
     and_then (sub_or_panic (gmr_start rng) (gmr_start (reg_range reservation))) (\<lambda>delta.
     and_then (ok_or (try_from delta) (SizeTooLarge rng)) (\<lambda>mapping_offset :: usize.
     and_then (allocation_host_size rng) (\<lambda>host_size.
     and_then (ok_or (checked_add mapping_offset host_size) (SizeTooLarge rng)) (\<lambda>mapping_end.
       if mapping_size m (reg_mapping reservation) < unat mapping_end then Err (SizeTooLarge rng)
       else Ok \<lparr>reg_range = rng, reg_mapping = reg_mapping reservation,
                reg_mapping_offset = mapping_offset, reg_host_size = host_size\<rparr>))))"

definition insert_region ::
    "host_env \<Rightarrow> guest_memory \<Rightarrow> guest_memory_range
      \<Rightarrow> guest_memory \<times> (unit, guest_memory_allocation_error) result" where
  "insert_region env m rng =
     (if is_protected_lazy m then (m, Err ProtectedLazyMutation)
      else
        case and_then (host_page_size env)
               (\<lambda>page_size. and_then (validate_insert_region m rng page_size) (\<lambda>i. Ok (page_size, i))) of
          Err e \<Rightarrow> (m, Err e)
        | Panic \<Rightarrow> (m, Panic)
        | Ok (page_size, insert_index) \<Rightarrow>
            (case shared_reservation_containing m rng of
               Some reservation \<Rightarrow>
                 (case reservation_view m reservation rng of
                    Err e \<Rightarrow> (m, Err e)
                  | Panic \<Rightarrow> (m, Panic)
                  | Ok region \<Rightarrow> insert_prepared_region env m insert_index region)
             | None \<Rightarrow>
                 if gm_backing m = Shared \<and> \<not> he_prepare_ok env Shared (gmr_size rng)
                 then (m, Err (HostMappingFailed (gmr_size rng)))
                 else insert_region_with_mapper env m rng page_size))"

text \<open>
  The reservation loop checks every reservation for overlap and keeps the index of the first one
  that starts later (\<open>insert_index\<close> is \<open>None\<close> while it still equals the vector's length).
\<close>

fun reservation_position ::
    "nat \<Rightarrow> nat option \<Rightarrow> guest_memory_region list \<Rightarrow> guest_memory_range
      \<Rightarrow> (nat option, guest_memory_allocation_error) result" where
  "reservation_position index found [] rng = Ok found"
| "reservation_position index found (r # rs) rng =
     (if overlaps (reg_range r) rng
      then Err (InvalidLayout (overlapping_ranges_error (reg_range r) rng))
      else reservation_position (Suc index)
             (if found = None \<and> gmr_start rng < gmr_start (reg_range r) then Some index else found) rs rng)"

fun check_regions_clear ::
    "guest_memory_region list \<Rightarrow> guest_memory_range \<Rightarrow> (unit, guest_memory_allocation_error) result" where
  "check_regions_clear [] rng = Ok ()"
| "check_regions_clear (r # rs) rng =
     (if overlaps (reg_range r) rng
      then Err (InvalidLayout (overlapping_ranges_error (reg_range r) rng))
      else check_regions_clear rs rng)"

definition reserve_shared_region ::
    "host_env \<Rightarrow> guest_memory \<Rightarrow> guest_memory_range
      \<Rightarrow> guest_memory \<times> (unit, guest_memory_allocation_error) result" where
  "reserve_shared_region env m rng =
     (if is_protected_lazy m then (m, Err ProtectedLazyMutation)
      else
        case and_then (host_page_size env) (\<lambda>page_size.
             and_then (validate_allocation_range rng page_size) (\<lambda>host_size.
             and_then (check_regions_clear (gm_regions m) rng) (\<lambda>_.
             and_then (reservation_position 0 None (gm_shared_reservations m) rng) (\<lambda>found.
               Ok (host_size, found))))) of
          Err e \<Rightarrow> (m, Err e)
        | Panic \<Rightarrow> (m, Panic)
        | Ok (host_size, found) \<Rightarrow>
            let insert_index = (case found of Some i \<Rightarrow> i | None \<Rightarrow> length (gm_shared_reservations m)) in
            if \<not> he_prepare_ok env Shared host_size then (m, Err (HostMappingFailed host_size))
            else if \<not> he_alloc env (Reserve_Reservations (Suc (length (gm_shared_reservations m))))
            then (m, Err RegionMetadataAllocationFailed)
            else
              case map_fresh env Shared host_size m of
                (m', Err e) \<Rightarrow> (m', Err e)
              | (m', Panic) \<Rightarrow> (m', Panic)
              | (m', Ok mapping) \<Rightarrow>
                  (m'\<lparr>gm_shared_reservations := vec_insert insert_index
                       \<lparr>reg_range = rng, reg_mapping = mapping, reg_mapping_offset = 0, reg_host_size = host_size\<rparr>
                       (gm_shared_reservations m')\<rparr>, Ok ()))"

text \<open>A failed \<open>debug_assert!\<close> is \<open>Panic\<close>.\<close>

definition remove_region ::
    "guest_memory \<Rightarrow> guest_memory_range \<Rightarrow> guest_memory \<times> (unit, guest_memory_removal_error) result" where
  "remove_region m rng =
     (if is_protected_lazy m then (m, Err RemovalProtectedLazyMutation)
      else
        case position (\<lambda>r. reg_range r = rng) (gm_regions m) of
          None \<Rightarrow> (m, Err (MissingRange rng))
        | Some index \<Rightarrow>
            (case gm_dirty_tracker m of
               None \<Rightarrow> (m\<lparr>gm_regions := vec_remove index (gm_regions m)\<rparr>, Ok ())
             | Some tracker \<Rightarrow>
                 (case tracker_remove_region tracker rng of
                    (tracker', removed) \<Rightarrow>
                      if removed
                      then (m\<lparr>gm_dirty_tracker := Some tracker', gm_regions := vec_remove index (gm_regions m)\<rparr>, Ok ())
                      else (m\<lparr>gm_dirty_tracker := Some tracker'\<rparr>, Panic))))"

definition memory_total_size :: "guest_memory \<Rightarrow> u64" where
  "memory_total_size m = sum_list (map (\<lambda>r. gmr_size (reg_range r)) (gm_regions m))"

section \<open>Atomic words\<close>

record atomic_u64_lease =
  au_mapping :: mapping_identity
  au_mapping_offset :: usize
  au_range :: guest_memory_range
  au_tracked :: bool

definition atomic_u64 ::
    "(mapping_identity \<Rightarrow> usize) \<Rightarrow> guest_memory \<Rightarrow> guest_address
      \<Rightarrow> (atomic_u64_lease, guest_memory_access_error) result" where
  "atomic_u64 host_base m address =
     and_then (map_err (\<lambda>_. UnalignedAtomicAccess address 8) (is_aligned address 8)) (\<lambda>aligned.
     if \<not> aligned then Err (UnalignedAtomicAccess address 8)
     else and_then (access_range address 8) (\<lambda>rng_option.
       case rng_option of
         None \<Rightarrow> Err (AccessSizeTooLarge 8)
       | Some rng \<Rightarrow>
           and_then (validate_mapped_range m rng) (\<lambda>_.
           and_then (ok_or (find (\<lambda>r. contains (reg_range r) (gmr_start rng) \<and>
                                  gmr_end_exclusive rng \<le> gmr_end_exclusive (reg_range r)) (gm_regions m))
                      (AtomicAccessCrossesRegion rng)) (\<lambda>region.
           and_then (sub_or_panic (gmr_start rng) (gmr_start (reg_range region))) (\<lambda>offset.
           and_then (ok_or (try_from offset) (SegmentOffsetTooLarge (reg_range region) offset)) (\<lambda>offset :: usize.
           and_then (ok_or (checked_add (reg_mapping_offset region) offset) (AtomicHostOffsetOverflow address))
             (\<lambda>mapping_offset.
                if \<not> is_multiple_of (host_base (reg_mapping region) + mapping_offset) 8
                then Err (UnalignedAtomicHostAddress address 8)
                else Ok \<lparr>au_mapping = reg_mapping region, au_mapping_offset = mapping_offset, au_range = rng,
                         au_tracked = (gm_dirty_tracker m \<noteq> None)\<rparr>)))))))"

text \<open>The lease shares the tracker of the memory it was taken from, when there was one.\<close>

definition store_le ::
    "guest_memory \<Rightarrow> atomic_u64_lease \<Rightarrow> u64 \<Rightarrow> guest_memory \<times> (unit, guest_memory_access_error) result" where
  "store_le m lease value =
     (case (if au_tracked lease then mark_dirty m (au_range lease) else Ok m) of
        Err e \<Rightarrow> (m, Err e)
      | Panic \<Rightarrow> (m, Panic)
      | Ok m' \<Rightarrow>
          (case host_write (gm_store m') (au_mapping lease) (unat (au_mapping_offset lease)) (to_le_bytes value) of
             None \<Rightarrow> (m', Panic)
           | Some st \<Rightarrow> (m'\<lparr>gm_store := st\<rparr>, Ok ())))"

definition load_le :: "guest_memory \<Rightarrow> atomic_u64_lease \<Rightarrow> (u64, guest_memory_access_error) result" where
  "load_le m lease =
     (case host_read (gm_store m) (au_mapping lease) (unat (au_mapping_offset lease)) 8 of
        None \<Rightarrow> Panic
      | Some bs \<Rightarrow> Ok (from_le_bytes bs))"

section \<open>Discard\<close>

datatype discard_failure_kind =
    RangeValidation | UnsupportedTarget | DiscardInvalidHostPageSize | HostAddress
  | ZeroAdvice | FreeAdvice | SharedReclaim | PrivateFileReclaim

type_synonym discard_failures = "discard_failure_kind \<Rightarrow> u64"

record discard_outcome =
  do_requested_bytes :: u64
  do_advised_bytes :: u64
  do_skipped_bytes :: u64
  do_failed_bytes :: u64
  do_failures :: discard_failures

definition with_failure :: "discard_failures \<Rightarrow> discard_failure_kind \<Rightarrow> discard_failures" where
  "with_failure f kind = f(kind := saturating_add (f kind) 1)"

definition discard_outcome_new :: "u64 \<Rightarrow> discard_outcome" where
  "discard_outcome_new requested =
     \<lparr>do_requested_bytes = requested, do_advised_bytes = 0, do_skipped_bytes = 0, do_failed_bytes = 0,
      do_failures = (\<lambda>_. 0)\<rparr>"

definition fail_all :: "discard_outcome \<Rightarrow> discard_failure_kind \<Rightarrow> discard_outcome" where
  "fail_all out kind =
     out\<lparr>do_failed_bytes := do_requested_bytes out, do_failures := with_failure (do_failures out) kind\<rparr>"

definition record_skipped :: "discard_outcome \<Rightarrow> u64 \<Rightarrow> discard_outcome" where
  "record_skipped out bytes = out\<lparr>do_skipped_bytes := saturating_add (do_skipped_bytes out) bytes\<rparr>"

definition record_advised :: "discard_outcome \<Rightarrow> u64 \<Rightarrow> discard_outcome" where
  "record_advised out bytes = out\<lparr>do_advised_bytes := saturating_add (do_advised_bytes out) bytes\<rparr>"

definition record_failed :: "discard_outcome \<Rightarrow> u64 \<Rightarrow> discard_failure_kind \<Rightarrow> discard_outcome" where
  "record_failed out bytes kind =
     out\<lparr>do_failed_bytes := saturating_add (do_failed_bytes out) bytes,
         do_failures := with_failure (do_failures out) kind\<rparr>"

definition discard_segment :: "guest_memory_region \<Rightarrow> guest_memory_range \<Rightarrow> (u64 \<times> u64) option" where
  "discard_segment region requested =
     (let start = max (gmr_start (reg_range region)) (gmr_start requested);
          end' = min (gmr_end_exclusive (reg_range region)) (gmr_end_exclusive requested)
      in if end' \<le> start then None
         else Some (start - gmr_start (reg_range region), end' - start))"

definition align_up_usize :: "usize \<Rightarrow> usize \<Rightarrow> usize option" where
  "align_up_usize value alignment =
     Option.bind (checked_sub alignment 1)
       (\<lambda>m. map_option (\<lambda>rounded. rounded AND NOT m) (checked_add value m))"

definition align_down_usize :: "usize \<Rightarrow> usize \<Rightarrow> usize" where
  "align_down_usize value alignment = value AND NOT (alignment - 1)"

record discard_host =
  dh_page_size :: "discard_failure_kind + u64"
  dh_base :: "mapping_identity \<Rightarrow> usize"
  dh_reclaim :: "mapping_identity \<Rightarrow> usize \<Rightarrow> usize \<Rightarrow> bool \<times> discard_failure_kind option"

text \<open>
  Reclaim of one host-page-aligned block of a mapping: the host reports an outcome, and whether
  the block now reads as zeros (a failed free advice comes after a successful zero advice).
\<close>

definition reclaim_block ::
    "discard_host \<Rightarrow> guest_memory \<Rightarrow> mapping_identity \<Rightarrow> usize \<Rightarrow> usize
      \<Rightarrow> guest_memory \<times> (unit, discard_failure_kind) result" where
  "reclaim_block host m mapping offset sz =
     (case dh_reclaim host mapping offset sz of
        (zeroed, failure) \<Rightarrow>
          (let res = (case failure of None \<Rightarrow> Ok () | Some kind \<Rightarrow> Err kind) in
           if \<not> zeroed then (m, res)
           else (case host_write (gm_store m) mapping (unat offset) (replicate (unat sz) 0) of
                   None \<Rightarrow> (m, Panic)
                 | Some st \<Rightarrow> (m\<lparr>gm_store := st\<rparr>, res))))"

definition discard_advice ::
    "discard_host \<Rightarrow> guest_memory \<Rightarrow> guest_memory_region \<Rightarrow> usize \<Rightarrow> usize \<Rightarrow> usize
      \<Rightarrow> guest_memory \<times> (unit, discard_failure_kind) result" where
  "discard_advice host m region mapping_start advice_start advice_size =
     (if advice_start = 0 then (m, Err HostAddress)
      else
        case (case gm_dirty_tracker m of
                None \<Rightarrow> Ok m
              | Some tracker \<Rightarrow>
                  and_then (ok_or (checked_add (gmr_start (reg_range region)) (advice_start - mapping_start)) HostAddress)
                    (\<lambda>guest_start.
                  and_then (map_err (\<lambda>_. HostAddress) (range_new guest_start advice_size)) (\<lambda>advice_range.
                  and_then (map_err (\<lambda>_. RangeValidation) (mark_range tracker advice_range)) (\<lambda>tracker'.
                    Ok (m\<lparr>gm_dirty_tracker := Some tracker'\<rparr>))))) of
          Err kind \<Rightarrow> (m, Err kind)
        | Panic \<Rightarrow> (m, Panic)
        | Ok m' \<Rightarrow>
            (case checked_add (reg_mapping_offset region) (advice_start - mapping_start) of
               None \<Rightarrow> (m', Err HostAddress)
             | Some mapping_offset \<Rightarrow> reclaim_block host m' (reg_mapping region) mapping_offset advice_size))"

definition discard_region_step ::
    "discard_host \<Rightarrow> usize \<Rightarrow> guest_memory_range \<Rightarrow> guest_memory_region \<Rightarrow> guest_memory \<times> discard_outcome
      \<Rightarrow> guest_memory \<times> discard_outcome" where
  "discard_region_step host page_size rng region mo =
     (case mo of (m, out) \<Rightarrow>
      case discard_segment region rng of
        None \<Rightarrow> (m, out)
      | Some (offset, segment_size) \<Rightarrow>
          if (case checked_add offset segment_size of None \<Rightarrow> True | Some end' \<Rightarrow> reg_host_size region < end')
          then (m, record_failed out segment_size HostAddress)
          else
            let mapping_start = dh_base host (reg_mapping region) + reg_mapping_offset region;
                segment_start = mapping_start + offset
            in
            case checked_add segment_start segment_size of
              None \<Rightarrow> (m, record_failed out segment_size HostAddress)
            | Some segment_end \<Rightarrow>
                (case align_up_usize segment_start page_size of
                   None \<Rightarrow> (m, record_failed out segment_size HostAddress)
                 | Some advice_start \<Rightarrow>
                     let advice_end = align_down_usize segment_end page_size in
                     if advice_end \<le> advice_start then (m, record_skipped out segment_size)
                     else
                       let advice_size = advice_end - advice_start;
                           skipped_size = segment_size - advice_size;
                           out' = record_skipped out skipped_size
                       in case discard_advice host m region mapping_start advice_start advice_size of
                            (m', Ok _) \<Rightarrow> (m', record_advised out' advice_size)
                          | (m', Err kind) \<Rightarrow> (m', record_failed out' advice_size kind)
                          | (m', Panic) \<Rightarrow> (m', out')))"

definition discard_range ::
    "discard_host \<Rightarrow> guest_memory \<Rightarrow> guest_memory_range \<Rightarrow> guest_memory \<times> discard_outcome" where
  "discard_range host m rng =
     (let out = discard_outcome_new (gmr_size rng) in
      if is_protected_lazy m then (m, fail_all out UnsupportedTarget)
      else if \<not> is_ok (validate_mapped_range m rng) then (m, fail_all out RangeValidation)
      else
        case dh_page_size host of
          Inl kind \<Rightarrow> (m, fail_all out kind)
        | Inr page_size \<Rightarrow>
            if page_size = 0 \<or> \<not> is_power_of_two page_size
            then (m, fail_all out DiscardInvalidHostPageSize)
            else fold (discard_region_step host page_size rng) (gm_regions m) (m, out))"

section \<open>Invariant and abstract view\<close>

definition host_byte :: "host_store \<Rightarrow> mapping_identity \<Rightarrow> nat \<Rightarrow> u8 option" where
  "host_byte st i k =
     (case st i of Some bs \<Rightarrow> if k < length bs then Some (bs ! k) else None | None \<Rightarrow> None)"

definition host_index :: "guest_memory_region \<Rightarrow> guest_address \<Rightarrow> nat" where
  "host_index r a = unat (reg_mapping_offset r) + (unat a - unat (gmr_start (reg_range r)))"

definition byte_at :: "guest_memory \<Rightarrow> guest_address \<Rightarrow> u8 option" where
  "byte_at m a =
     (case find (\<lambda>r. contains (reg_range r) a) (gm_regions m) of
        None \<Rightarrow> None
      | Some r \<Rightarrow> host_byte (gm_store m) (reg_mapping r) (host_index r a))"

definition is_mapped :: "guest_memory \<Rightarrow> guest_address \<Rightarrow> bool" where
  "is_mapped m a \<longleftrightarrow> (\<exists>r\<in>set (gm_regions m). contains (reg_range r) a)"

definition view_valid :: "host_store \<Rightarrow> guest_memory_region \<Rightarrow> bool" where
  "view_valid st r \<longleftrightarrow> range_wf (reg_range r) \<and> unat (reg_host_size r) = unat (gmr_size (reg_range r)) \<and>
     (\<exists>bs. st (reg_mapping r) = Some bs \<and> unat (reg_mapping_offset r) + unat (reg_host_size r) \<le> length bs)"

text \<open>
  Views do not alias: every mapping has one guest address at which its first byte would be
  visible, and each view shows the mapping at the matching offset.
\<close>

definition views_aligned :: "(mapping_identity \<Rightarrow> nat) \<Rightarrow> guest_memory_region list \<Rightarrow> bool" where
  "views_aligned origin rs \<longleftrightarrow>
     (\<forall>r\<in>set rs. unat (gmr_start (reg_range r)) = origin (reg_mapping r) + unat (reg_mapping_offset r))"

definition tracker_mirrors :: "guest_memory \<Rightarrow> bool" where
  "tracker_mirrors m \<longleftrightarrow>
     (\<forall>t. gm_dirty_tracker m = Some t \<longrightarrow>
        tracker_wf t \<and> map dr_range (dt_regions t) = map reg_range (gm_regions m))"

definition gm_wf :: "guest_memory \<Rightarrow> bool" where
  "gm_wf m \<longleftrightarrow>
     ordered_disjoint (map reg_range (gm_regions m)) \<and>
     ordered_disjoint (map reg_range (gm_shared_reservations m)) \<and>
     (\<forall>r\<in>set (gm_regions m @ gm_shared_reservations m).
        view_valid (gm_store m) r \<and> reg_mapping r < gm_next_identity m) \<and>
     (\<forall>r\<in>set (gm_shared_reservations m). reg_mapping_offset r = 0) \<and>
     (\<exists>origin. views_aligned origin (gm_regions m @ gm_shared_reservations m)) \<and>
     tracker_mirrors m"

section \<open>Byte access refines a flat byte map\<close>

lemma access_segment_Ok:
  assumes "contains (reg_range r) cur" and "cur \<le> e"
  shows "access_segment r cur e =
     Ok \<lparr>seg_offset = cur - gmr_start (reg_range r),
         seg_size = min (gmr_end_exclusive (reg_range r)) e - cur\<rparr>"
proof -
  have "min (gmr_end_exclusive (reg_range r) - cur) (e - cur) = min (gmr_end_exclusive (reg_range r)) e - cur"
    using assms by (auto simp: min_def contains_def word_nat)
  then show ?thesis
    using assms by (auto simp: access_segment_def sub_or_panic_def contains_def)
qed

lemma advance_address_Ok: "cur \<le> x \<Longrightarrow> advance_address cur (x - cur) = Ok x"
  by (simp add: advance_address_def checked_add_Some_iff word_nat)

definition as_dirty_region :: "guest_memory_region \<Rightarrow> dirty_region" where
  "as_dirty_region r = \<lparr>dr_range = reg_range r, dr_words = []\<rparr>"

lemma validate_mapped_as_tracked:
  assumes "cur < gmr_end_exclusive rng"
  shows "validate_mapped_from rs rng cur =
     (if validate_tracked_from (map as_dirty_region rs) rng cur = Ok () then Ok () else Err (UnmappedRange rng))"
  using assms
proof (induction rs arbitrary: cur)
  case (Cons r rs)
  have step: "validate_mapped_from (r # rs) rng cur =
      (if min (gmr_end_exclusive (reg_range r)) (gmr_end_exclusive rng) = gmr_end_exclusive rng then Ok ()
       else validate_mapped_from rs rng (min (gmr_end_exclusive (reg_range r)) (gmr_end_exclusive rng)))"
    if "contains (reg_range r) cur" "\<not> gmr_end_exclusive (reg_range r) \<le> cur"
    using that Cons.prems by (simp add: access_segment_Ok less_imp_le advance_address_Ok contains_def)
  show ?case
  proof (cases "\<not> gmr_end_exclusive (reg_range r) \<le> cur \<and> contains (reg_range r) cur")
    case True
    then have "min (gmr_end_exclusive (reg_range r)) (gmr_end_exclusive rng) \<noteq> gmr_end_exclusive rng \<Longrightarrow>
        min (gmr_end_exclusive (reg_range r)) (gmr_end_exclusive rng) < gmr_end_exclusive rng"
      using min.cobounded2 order.not_eq_order_implies_strict by blast
    with True Cons.IH show ?thesis
      unfolding step [OF True [THEN conjunct2] True [THEN conjunct1]]
      by (auto simp: as_dirty_region_def Let_def contains_def)
  next
    case False
    then show ?thesis
      using Cons by (auto simp: as_dirty_region_def contains_def)
  qed
qed simp

lemma validate_mapped_range_eq:
  assumes "ordered_disjoint (map reg_range (gm_regions m))" and "range_wf rng"
  shows "validate_mapped_range m rng =
     (if \<forall>a. contains rng a \<longrightarrow> is_mapped m a then Ok () else Err (UnmappedRange rng))"
proof -
  have "map dr_range (map as_dirty_region (gm_regions m)) = map reg_range (gm_regions m)"
    by (simp add: as_dirty_region_def)
  then have "validate_tracked_from (map as_dirty_region (gm_regions m)) rng (gmr_start rng) = Ok () \<longleftrightarrow>
      (\<forall>a. contains rng a \<longrightarrow> is_mapped m a)"
    using validate_tracked_from_Ok_iff [of "map as_dirty_region (gm_regions m)" "gmr_start rng" rng]
      assms range_wf_nonempty [OF assms(2)]
    by (simp add: contains_def is_mapped_def as_dirty_region_def o_def)
  then show ?thesis
    unfolding validate_mapped_range_def
    using validate_mapped_as_tracked [OF range_wf_nonempty [OF assms(2)], of "gm_regions m"] by simp
qed

lemma host_byte_write:
  assumes "host_write st i off bs = Some st'"
  shows "host_byte st' j k =
     (if j = i \<and> off \<le> k \<and> k < off + length bs then Some (bs ! (k - off)) else host_byte st j k)"
  using assms
  by (auto simp: host_write_def host_byte_def nth_overwrite split: option.splits if_splits)

lemma host_write_valid:
  assumes "host_write st i off bs = Some st'"
  shows "view_valid st' r = view_valid st r"
  using assms by (auto simp: host_write_def view_valid_def split: option.splits if_splits)

lemma view_host_write:
  assumes "view_valid st r" and "contains (reg_range r) cur"
    and "unat cur + length bs \<le> unat (gmr_end_exclusive (reg_range r))"
  shows "\<exists>st'. host_write st (reg_mapping r)
     (unat (reg_mapping_offset r) + unat (cur - gmr_start (reg_range r))) bs = Some st'"
  using assms by (auto simp: view_valid_def host_write_def contains_def range_wf_def word_nat)

definition writes_exactly ::
    "host_store \<Rightarrow> host_store \<Rightarrow> guest_memory_region list \<Rightarrow> u8 list \<Rightarrow> guest_address \<Rightarrow> guest_address \<Rightarrow> bool" where
  "writes_exactly st st' rs bs cur e \<longleftrightarrow>
     (\<forall>r. view_valid st' r = view_valid st r) \<and>
     (\<forall>r\<in>set rs. \<forall>a. contains (reg_range r) a \<and> cur \<le> a \<and> a < e \<longrightarrow>
        host_byte st' (reg_mapping r) (host_index r a) = Some (bs ! (unat a - unat cur))) \<and>
     (\<forall>i k. (\<forall>r\<in>set rs. \<forall>a. contains (reg_range r) a \<and> cur \<le> a \<and> a < e \<longrightarrow>
               \<not> (reg_mapping r = i \<and> host_index r a = k)) \<longrightarrow>
        host_byte st' i k = host_byte st i k)"

lemma host_index_inj:
  assumes "views_aligned origin rs" and "r \<in> set rs" and "s \<in> set rs"
    and "contains (reg_range r) a" and "contains (reg_range s) b"
    and "reg_mapping r = reg_mapping s" and "host_index r a = host_index s b"
  shows "a = b"
proof -
  have "origin (reg_mapping r) + host_index r a = unat a" "origin (reg_mapping s) + host_index s b = unat b"
    using assms(1-5) by (auto simp: views_aligned_def host_index_def contains_def word_nat)
  then show ?thesis using assms(6,7) by (simp add: word_unat_eq_iff)
qed

lemma host_index_shift:
  assumes "contains (reg_range r) cur" and "cur \<le> a"
  shows "host_index r a = unat (reg_mapping_offset r) + unat (cur - gmr_start (reg_range r)) + (unat a - unat cur)"
  using assms by (simp add: host_index_def contains_def word_nat)

lemma writes_exactly_step:
  fixes cur e :: guest_address
  defines "x \<equiv> \<lambda>r. min (gmr_end_exclusive (reg_range r)) e"
  assumes hw: "host_write st (reg_mapping r)
        (unat (reg_mapping_offset r) + unat (cur - gmr_start (reg_range r))) (take n bs) = Some st1"
    and cur: "contains (reg_range r) cur" and n: "n = unat (x r) - unat cur" and len: "n \<le> length bs"
    and rest: "writes_exactly st1 st' rs (drop n bs) (x r) e"
    and before: "\<forall>q\<in>set rs. gmr_end_exclusive (reg_range r) \<le> gmr_start (reg_range q)"
    and al: "views_aligned origin (r # rs)" and ce: "cur \<le> e"
  shows "writes_exactly st st' (r # rs) bs cur e"
proof -
  have cx: "cur \<le> x r" using cur ce by (auto simp: x_def contains_def)
  have blen: "length (take n bs) = n" using len by simp
  have hit: "host_byte st' (reg_mapping r) (host_index r a) = Some (bs ! (unat a - unat cur))"
    if a: "contains (reg_range r) a" "cur \<le> a" "a < e" for a
  proof -
    have ax: "a < x r" using a by (simp add: x_def contains_def)
    have "\<not> (reg_mapping q = reg_mapping r \<and> host_index q b = host_index r a)"
      if "q \<in> set rs" "contains (reg_range q) b" "x r \<le> b" for q b
      using host_index_inj [OF al, of q r b a] that a ax by auto
    then have "host_byte st' (reg_mapping r) (host_index r a) = host_byte st1 (reg_mapping r) (host_index r a)"
      using rest unfolding writes_exactly_def by blast
    also have "\<dots> = Some (take n bs ! (unat a - unat cur))"
      unfolding host_byte_write [OF hw] host_index_shift [OF cur a(2)] blen
      using ax n a(2) by (auto simp: word_nat)
    finally show ?thesis using ax n a(2) by (simp add: word_nat)
  qed
  have hit_rest: "host_byte st' (reg_mapping q) (host_index q a) = Some (bs ! (unat a - unat cur))"
    if a: "q \<in> set rs" "contains (reg_range q) a" "a < e" for q a
  proof -
    have xa: "x r \<le> a" using a before by (force simp: x_def contains_def min_le_iff_disj)
    then have "host_byte st' (reg_mapping q) (host_index q a) = Some (drop n bs ! (unat a - unat (x r)))"
      using rest a unfolding writes_exactly_def by blast
    then show ?thesis using xa cx len n by (simp add: word_nat)
  qed
  have frame: "host_byte st' i k = host_byte st i k"
    if no: "\<forall>q\<in>set (r # rs). \<forall>a. contains (reg_range q) a \<and> cur \<le> a \<and> a < e \<longrightarrow>
               \<not> (reg_mapping q = i \<and> host_index q a = k)" for i k
  proof -
    have "host_byte st' i k = host_byte st1 i k"
      using rest no cx unfolding writes_exactly_def by (meson list.set_intros(2) order_trans)
    moreover have "\<not> (i = reg_mapping r \<and> unat (reg_mapping_offset r) + unat (cur - gmr_start (reg_range r)) \<le> k \<and>
        k < unat (reg_mapping_offset r) + unat (cur - gmr_start (reg_range r)) + n)"
    proof
      let ?b = "unat (reg_mapping_offset r) + unat (cur - gmr_start (reg_range r))"
      assume h: "i = reg_mapping r \<and> ?b \<le> k \<and> k < ?b + n"
      define a where "a = cur + of_nat (k - ?b)"
      have lt: "unat cur + (k - ?b) < unat (x r)" using h n by auto
      then have ua: "unat a = unat cur + (k - ?b)"
        unfolding a_def using unat_bound64 [of "x r"] by (intro unat_add_of_nat) simp
      then have "cur \<le> a" "a < x r" using lt by (auto simp: word_nat)
      then have "contains (reg_range r) a" "cur \<le> a" "a < e" "host_index r a = k"
        using cur h ua host_index_shift [OF cur \<open>cur \<le> a\<close>] by (auto simp: x_def contains_def)
      then show False using no h by auto
    qed
    ultimately show ?thesis unfolding host_byte_write [OF hw] blen by auto
  qed
  have "\<forall>q. view_valid st' q = view_valid st q"
    using rest host_write_valid [OF hw] by (simp add: writes_exactly_def)
  then show ?thesis
    unfolding writes_exactly_def using hit hit_rest frame by auto
qed

lemma write_regions_exact:
  assumes "ordered_disjoint (map reg_range rs)" and "\<forall>r\<in>set rs. view_valid st r"
    and "views_aligned origin rs" and "cur \<le> e" and "length bs = unat e - unat cur"
    and "\<forall>a. cur \<le> a \<and> a < e \<longrightarrow> (\<exists>r\<in>set rs. contains (reg_range r) a)"
  shows "\<exists>st'. write_regions st rs bs cur e = (st', Ok ()) \<and> writes_exactly st st' rs bs cur e"
  using assms
proof (induction rs arbitrary: st cur bs)
  case Nil
  then show ?case by (auto simp: writes_exactly_def)
next
  case (Cons r rs)
  let ?re = "gmr_end_exclusive (reg_range r)"
  have before: "?re \<le> gmr_start (reg_range q)" if "q \<in> set rs" for q
    using Cons.prems(1) that by (simp add: range_before_def)
  have al: "views_aligned origin rs" using Cons.prems(3) by (simp add: views_aligned_def)
  have od: "ordered_disjoint (map reg_range rs)" and vv: "\<forall>q\<in>set rs. view_valid st q"
    using Cons.prems(1,2) by auto
  consider "bs = []" | "bs \<noteq> []" "?re \<le> cur" | "bs \<noteq> []" "cur < ?re" by fastforce
  then show ?case
  proof cases
    case 1
    then have "cur = e" using Cons.prems(4,5) by (simp add: word_nat word_unat_eq_iff)
    with 1 show ?thesis by (auto simp: writes_exactly_def)
  next
    case 2
    have out: "\<not> (contains (reg_range r) a \<and> cur \<le> a)" for a using 2 by (auto simp: contains_def)
    have cov: "\<forall>a. cur \<le> a \<and> a < e \<longrightarrow> (\<exists>q\<in>set rs. contains (reg_range q) a)"
      using Cons.prems(6) out by auto
    obtain st' where "write_regions st rs bs cur e = (st', Ok ())" "writes_exactly st st' rs bs cur e"
      using Cons.IH [OF od vv al Cons.prems(4,5) cov] by blast
    then show ?thesis using 2 out by (auto simp: writes_exactly_def)
  next
    case 3
    have rv: "view_valid st r" using Cons.prems(2) by simp
    have ce: "cur < e" using 3(1) Cons.prems(5) by (cases bs) (auto simp: word_nat)
    have cr: "contains (reg_range r) cur"
    proof -
      obtain q where "q \<in> set (r # rs)" "contains (reg_range q) cur" using Cons.prems(6) ce by auto
      then show ?thesis using before 3(2) by (force simp: contains_def)
    qed
    define x where "x = min ?re e"
    define n where "n = unat x - unat cur"
    have cx: "cur \<le> x" "x \<le> e" "x \<le> ?re" using 3(2) ce by (auto simp: x_def)
    have n: "unat (x - cur) = n" "n \<le> length bs" using cx Cons.prems(5) by (auto simp: n_def word_nat)
    obtain st1 where st1: "host_write st (reg_mapping r)
        (unat (reg_mapping_offset r) + unat (cur - gmr_start (reg_range r))) (take n bs) = Some st1"
      using view_host_write [OF rv cr, of "take n bs"] cx n by (auto simp: n_def word_nat)
    have cov: "\<forall>a. x \<le> a \<and> a < e \<longrightarrow> (\<exists>q\<in>set rs. contains (reg_range q) a)"
    proof (intro allI impI)
      fix a assume a: "x \<le> a \<and> a < e"
      then have "\<not> contains (reg_range r) a" by (auto simp: x_def contains_def min_le_iff_disj)
      moreover have "cur \<le> a" using a cx by auto
      ultimately show "\<exists>q\<in>set rs. contains (reg_range q) a" using Cons.prems(6) a by auto
    qed
    have len: "length (drop n bs) = unat e - unat x" using Cons.prems(5) cx by (simp add: n_def word_nat)
    have vv1: "\<forall>q\<in>set rs. view_valid st1 q" using vv host_write_valid [OF st1] by simp
    obtain st' where st': "write_regions st1 rs (drop n bs) x e = (st', Ok ())"
        "writes_exactly st1 st' rs (drop n bs) x e"
      using Cons.IH [OF od vv1 al cx(2) len cov] by blast
    have "write_regions st (r # rs) bs cur e = (st', Ok ())"
      using 3 ce cr n st1 st'(1) cx
      by (auto simp: access_segment_Ok advance_address_Ok less_imp_le simp flip: x_def)
    moreover have "writes_exactly st st' (r # rs) bs cur e"
      by (rule writes_exactly_step [OF st1 cr _ n(2) _ _ Cons.prems(3,4)])
         (use st'(2) before in \<open>auto simp: n_def simp flip: x_def\<close>)
    ultimately show ?thesis by blast
  qed
qed

lemma view_host_read:
  assumes "view_valid st r" and "contains (reg_range r) cur"
    and "unat cur + n \<le> unat (gmr_end_exclusive (reg_range r))"
  shows "\<exists>bs. host_read st (reg_mapping r)
     (unat (reg_mapping_offset r) + unat (cur - gmr_start (reg_range r))) n = Some bs \<and> length bs = n \<and>
     (\<forall>i<n. host_byte st (reg_mapping r) (host_index r (cur + of_nat i)) = Some (bs ! i))"
proof -
  let ?b = "unat (reg_mapping_offset r) + unat (cur - gmr_start (reg_range r))"
  obtain ms where ms: "st (reg_mapping r) = Some ms" "?b + n \<le> length ms"
    using assms by (auto simp: view_valid_def contains_def range_wf_def word_nat)
  have "host_index r (cur + of_nat i) = ?b + i" if "i < n" for i
  proof -
    have "unat (cur + of_nat i) = unat cur + i"
      using that assms(3) unat_bound64 [of "gmr_end_exclusive (reg_range r)"] by (intro unat_add_of_nat) simp
    then show ?thesis
      using host_index_shift [OF assms(2), of "cur + of_nat i"] by (simp add: word_nat)
  qed
  then show ?thesis using ms by (simp add: host_read_def host_byte_def)
qed

lemma read_regions_exact:
  assumes "ordered_disjoint (map reg_range rs)" and "\<forall>r\<in>set rs. view_valid st r"
    and "cur \<le> e" and "length dest = unat e - unat cur"
    and "\<forall>a. cur \<le> a \<and> a < e \<longrightarrow> (\<exists>r\<in>set rs. contains (reg_range r) a)"
  shows "\<exists>bs. read_regions st rs filled dest cur e = (filled @ bs, Ok ()) \<and> length bs = length dest \<and>
     (\<forall>r\<in>set rs. \<forall>i<length bs. contains (reg_range r) (cur + of_nat i) \<longrightarrow>
        host_byte st (reg_mapping r) (host_index r (cur + of_nat i)) = Some (bs ! i))"
  using assms
proof (induction rs arbitrary: filled cur dest)
  case Nil
  then show ?case by auto
next
  case (Cons r rs)
  let ?re = "gmr_end_exclusive (reg_range r)"
  have before: "?re \<le> gmr_start (reg_range q)" if "q \<in> set rs" for q
    using Cons.prems(1) that by (simp add: range_before_def)
  have od: "ordered_disjoint (map reg_range rs)" and vv: "\<forall>q\<in>set rs. view_valid st q"
    using Cons.prems(1,2) by auto
  have ui: "unat (cur + of_nat i) = unat cur + i" if "i < length dest" for i
    using that Cons.prems(4) unat_bound64 [of e] by (intro unat_add_of_nat) simp
  consider "dest = []" | "dest \<noteq> []" "?re \<le> cur" | "dest \<noteq> []" "cur < ?re" by fastforce
  then show ?case
  proof cases
    case 1
    then show ?thesis by auto
  next
    case 2
    have out: "\<not> (contains (reg_range r) a \<and> cur \<le> a)" for a using 2 by (auto simp: contains_def)
    have cov: "\<forall>a. cur \<le> a \<and> a < e \<longrightarrow> (\<exists>q\<in>set rs. contains (reg_range q) a)"
      using Cons.prems(5) out by auto
    have "\<not> contains (reg_range r) (cur + of_nat i)" if "i < length dest" for i
      using out [of "cur + of_nat i"] ui [OF that] by (simp add: word_nat)
    then show ?thesis
      using Cons.IH [OF od vv Cons.prems(3,4) cov, of filled] 2 by auto
  next
    case 3
    have rv: "view_valid st r" using Cons.prems(2) by simp
    have ce: "cur < e" using 3(1) Cons.prems(4) by (cases dest) (auto simp: word_nat)
    have cr: "contains (reg_range r) cur"
    proof -
      obtain q where "q \<in> set (r # rs)" "contains (reg_range q) cur" using Cons.prems(5) ce by auto
      then show ?thesis using before 3(2) by (force simp: contains_def)
    qed
    define x where "x = min ?re e"
    define n where "n = unat x - unat cur"
    have cx: "cur \<le> x" "x \<le> e" "x \<le> ?re" using 3(2) ce by (auto simp: x_def)
    have n: "unat (x - cur) = n" "n \<le> length dest" "unat x = unat cur + n"
      using cx Cons.prems(4) by (auto simp: n_def word_nat)
    obtain bs where bs: "host_read st (reg_mapping r)
        (unat (reg_mapping_offset r) + unat (cur - gmr_start (reg_range r))) n = Some bs" "length bs = n"
        "\<forall>i<n. host_byte st (reg_mapping r) (host_index r (cur + of_nat i)) = Some (bs ! i)"
      using view_host_read [OF rv cr, of n] cx n by (auto simp: word_nat)
    have cov: "\<forall>a. x \<le> a \<and> a < e \<longrightarrow> (\<exists>q\<in>set rs. contains (reg_range q) a)"
    proof (intro allI impI)
      fix a assume a: "x \<le> a \<and> a < e"
      then have "\<not> contains (reg_range r) a" by (auto simp: x_def contains_def min_le_iff_disj)
      moreover have "cur \<le> a" using a cx by auto
      ultimately show "\<exists>q\<in>set rs. contains (reg_range q) a" using Cons.prems(5) a by auto
    qed
    have len: "length (drop n dest) = unat e - unat x" using Cons.prems(4) cx by (simp add: n_def word_nat)
    obtain cs where cs: "read_regions st rs (filled @ bs) (drop n dest) x e = ((filled @ bs) @ cs, Ok ())"
        "length cs = length (drop n dest)"
        "\<forall>q\<in>set rs. \<forall>i<length cs. contains (reg_range q) (x + of_nat i) \<longrightarrow>
           host_byte st (reg_mapping q) (host_index q (x + of_nat i)) = Some (cs ! i)"
      using Cons.IH [OF od vv cx(2) len cov, of "filled @ bs"] by blast
    have run: "read_regions st (r # rs) filled dest cur e = (filled @ (bs @ cs), Ok ())"
      using 3 ce cr n bs(1) cs(1) cx
      by (auto simp: access_segment_Ok advance_address_Ok less_imp_le simp flip: x_def)
    have "host_byte st (reg_mapping q) (host_index q (cur + of_nat i)) = Some ((bs @ cs) ! i)"
      if i: "i < length dest" "q \<in> set (r # rs)" "contains (reg_range q) (cur + of_nat i)" for q i
    proof (cases "i < n")
      case True
      then have "cur + of_nat i < ?re" using ui [OF i(1)] cx n by (simp add: word_nat)
      then have "q = r" using i before by (force simp: contains_def)
      then show ?thesis using True bs by (simp add: nth_append)
    next
      case False
      have "unat (x + of_nat (i - n)) = unat x + (i - n)"
        using n False i(1) Cons.prems(4) unat_bound64 [of e] by (intro unat_add_of_nat) simp
      then have eq: "cur + of_nat i = x + of_nat (i - n)"
        using ui [OF i(1)] n False by (simp only: word_unat_eq_iff)
      have "x \<le> cur + of_nat i" "cur + of_nat i < e"
        using ui [OF i(1)] n False i(1) Cons.prems(4) by (auto simp: word_nat)
      then have "\<not> contains (reg_range r) (cur + of_nat i)" by (auto simp: x_def contains_def min_le_iff_disj)
      then have q: "q \<in> set rs" using i by auto
      have "i - n < length cs" using cs(2) i(1) False by simp
      then have "host_byte st (reg_mapping q) (host_index q (cur + of_nat i)) = Some (cs ! (i - n))"
        using cs(3) q i(3) unfolding eq by blast
      then show ?thesis
        using False bs(2) by (simp add: nth_append)
    qed
    then show ?thesis using run bs(2) cs(2) n by auto
  qed
qed

definition slice_mapped :: "guest_memory \<Rightarrow> guest_address \<Rightarrow> nat \<Rightarrow> bool" where
  "slice_mapped m a n \<longleftrightarrow> unat a + n < 2 ^ 64 \<and> (\<forall>i<n. is_mapped m (a + of_nat i))"

definition in_slice :: "guest_address \<Rightarrow> nat \<Rightarrow> guest_address \<Rightarrow> bool" where
  "in_slice a n x \<longleftrightarrow> unat a \<le> unat x \<and> unat x < unat a + n"

definition slice_range :: "guest_address \<Rightarrow> nat \<Rightarrow> guest_memory_range" where
  "slice_range a n = \<lparr>gmr_start = a, gmr_size = of_nat n, gmr_end_exclusive = a + of_nat n\<rparr>"

lemma slice_range_wf:
  assumes "0 < n" and "unat a + n < 2 ^ 64"
  shows "range_wf (slice_range a n)" and "contains (slice_range a n) x \<longleftrightarrow> in_slice a n x"
proof -
  have "unat (of_nat n :: u64) = n" "unat (a + of_nat n) = unat a + n"
    using assms by (auto intro!: unat_of_nat_id unat_add_of_nat)
  then show "range_wf (slice_range a n)" "contains (slice_range a n) x \<longleftrightarrow> in_slice a n x"
    using assms by (auto simp: slice_range_def range_wf_def contains_def in_slice_def word_nat)
qed

lemma access_range_eq:
  assumes "n < 2 ^ 64"
  shows "access_range a (of_nat n) =
     (if n = 0 then Ok None
      else if unat a + n < 2 ^ 64 then Ok (Some (slice_range a n))
      else Err (AccessAddressOverflow a (of_nat n)))"
proof -
  have "unat (of_nat n :: usize) = n" using assms by (intro unat_of_nat_id) simp
  moreover from this have "(of_nat n :: usize) = 0 \<longleftrightarrow> n = 0"
    by (simp flip: unat_eq_zero)
  ultimately show ?thesis
    by (auto simp: access_range_def checked_add_def slice_range_def)
qed

lemma slice_mapped_iff:
  assumes "unat a + n < 2 ^ 64"
  shows "slice_mapped m a n \<longleftrightarrow> (\<forall>x. in_slice a n x \<longrightarrow> is_mapped m x)"
proof -
  have u: "unat (a + of_nat i) = unat a + i" if "i < n" for i
    using that assms by (intro unat_add_of_nat) simp
  have "x = a + of_nat (unat x - unat a)" if "in_slice a n x" for x
    using that u [of "unat x - unat a"] by (auto simp: in_slice_def word_unat_eq_iff)
  moreover have "unat x - unat a < n" if "in_slice a n x" for x
    using that by (auto simp: in_slice_def)
  moreover have "in_slice a n (a + of_nat i)" if "i < n" for i
    using u [OF that] that by (simp add: in_slice_def)
  ultimately show ?thesis using assms unfolding slice_mapped_def by metis
qed

lemma byte_at_region:
  assumes "ordered_disjoint (map reg_range (gm_regions m))" and "r \<in> set (gm_regions m)"
    and "contains (reg_range r) a"
  shows "byte_at m a = host_byte (gm_store m) (reg_mapping r) (host_index r a)"
proof -
  obtain r' where f: "find (\<lambda>r. contains (reg_range r) a) (gm_regions m) = Some r'"
    using assms(2,3) by (cases "find (\<lambda>r. contains (reg_range r) a) (gm_regions m)") (auto simp: find_None_iff)
  then have r': "r' \<in> set (gm_regions m)" "contains (reg_range r') a"
    by (auto simp: find_Some_iff)
  have "reg_range r' = reg_range r"
    using ordered_disjoint_unique [OF assms(1), of "reg_range r'" "reg_range r" a] r' assms by auto
  moreover have "inj_on reg_range (set (gm_regions m))"
    using ordered_disjoint_distinct [OF assms(1)] by (simp add: distinct_map)
  ultimately have "r' = r" using r' assms(2) by (auto dest: inj_onD)
  then show ?thesis by (simp add: byte_at_def f)
qed

lemma byte_at_unmapped: "\<not> is_mapped m a \<Longrightarrow> byte_at m a = None"
  by (auto simp: byte_at_def is_mapped_def find_None_iff split: option.splits) (metis find_Some_iff nth_mem)

lemma byte_at_cong:
  "gm_regions m' = gm_regions m \<Longrightarrow> gm_store m' = gm_store m \<Longrightarrow> byte_at m' a = byte_at m a"
  by (simp add: byte_at_def split: option.splits)

lemma gm_wf_order: "gm_wf m \<Longrightarrow> ordered_disjoint (map reg_range (gm_regions m))"
  by (simp add: gm_wf_def)

lemma gm_wf_view:
  "gm_wf m \<Longrightarrow> r \<in> set (gm_regions m) \<union> set (gm_shared_reservations m) \<Longrightarrow>
     view_valid (gm_store m) r \<and> reg_mapping r < gm_next_identity m"
  by (auto simp: gm_wf_def)

lemma tracked_iff_mapped:
  assumes "gm_wf m" and "gm_dirty_tracker m = Some t"
  shows "is_tracked t a \<longleftrightarrow> is_mapped m a"
proof -
  have "map dr_range (dt_regions t) = map reg_range (gm_regions m)"
    using assms by (simp add: gm_wf_def tracker_mirrors_def)
  then have "dr_range ` set (dt_regions t) = reg_range ` set (gm_regions m)"
    by (metis list.set_map)
  then show ?thesis
    unfolding is_tracked_def is_mapped_def by (metis (no_types, lifting) image_iff)
qed

lemma mark_range_ranges: "mark_range t rng = Ok t' \<Longrightarrow> map dr_range (dt_regions t') = map dr_range (dt_regions t)"
  by (auto simp: mark_range_def result_iffs)

lemma mark_dirty_Ok:
  assumes wf: "gm_wf m" and rng: "range_wf rng" and "\<forall>a. contains rng a \<longrightarrow> is_mapped m a"
  obtains m' where "mark_dirty m rng = Ok m'" and "gm_wf m'" and "m' = m\<lparr>gm_dirty_tracker := gm_dirty_tracker m'\<rparr>"
    and "case gm_dirty_tracker m of None \<Rightarrow> gm_dirty_tracker m' = None
         | Some t \<Rightarrow> \<exists>t'. gm_dirty_tracker m' = Some t' \<and> mark_range t rng = Ok t'"
proof (cases "gm_dirty_tracker m")
  case None
  then show thesis using wf by (intro that [of m]) (simp_all add: mark_dirty_def)
next
  case (Some t)
  have twf: "tracker_wf t" using wf Some by (simp add: gm_wf_def tracker_mirrors_def)
  have "is_ok (mark_range t rng)"
    using mark_range_Ok_iff [OF twf rng] tracked_iff_mapped [OF wf Some] assms(3) by simp
  then obtain t' where t': "mark_range t rng = Ok t'" by (auto simp: is_ok_iff)
  have "gm_wf (m\<lparr>gm_dirty_tracker := Some t'\<rparr>)"
    using wf Some mark_range_wf [OF twf t'] mark_range_ranges [OF t']
    by (simp add: gm_wf_def tracker_mirrors_def)
  then show thesis
    using Some t' by (intro that [of "m\<lparr>gm_dirty_tracker := Some t'\<rparr>"]) (simp_all add: mark_dirty_def)
qed

lemma gm_wf_store:
  assumes "gm_wf m" and "\<forall>r. view_valid st r = view_valid (gm_store m) r"
  shows "gm_wf (m\<lparr>gm_store := st\<rparr>)"
  using assms by (simp add: gm_wf_def tracker_mirrors_def split: option.splits)

lemma byte_at_writes:
  assumes wf: "gm_wf m" and w: "writes_exactly (gm_store m) st (gm_regions m) bs a (a + of_nat (length bs))"
    and len: "unat a + length bs < 2 ^ 64" and mapped: "\<forall>x. in_slice a (length bs) x \<longrightarrow> is_mapped m x"
  shows "byte_at (m\<lparr>gm_store := st\<rparr>) x =
     (if in_slice a (length bs) x then Some (bs ! (unat x - unat a)) else byte_at m x)"
proof (cases "is_mapped m x")
  case False
  then have "\<not> is_mapped (m\<lparr>gm_store := st\<rparr>) x" by (simp add: is_mapped_def)
  then show ?thesis using False mapped byte_at_unmapped by auto
next
  case True
  then obtain r where r: "r \<in> set (gm_regions m)" "contains (reg_range r) x" by (auto simp: is_mapped_def)
  have e: "unat (a + of_nat (length bs)) = unat a + length bs" using len by (intro unat_add_of_nat) simp
  have b: "byte_at (m\<lparr>gm_store := st\<rparr>) x = host_byte st (reg_mapping r) (host_index r x)"
    "byte_at m x = host_byte (gm_store m) (reg_mapping r) (host_index r x)"
    using r wf by (auto simp: gm_wf_def intro!: byte_at_region [THEN trans])
  obtain origin where al: "views_aligned origin (gm_regions m)"
    using wf by (auto simp: gm_wf_def views_aligned_def)
  show ?thesis
  proof (cases "in_slice a (length bs) x")
    case True
    then show ?thesis using w r b e by (auto simp: writes_exactly_def in_slice_def word_nat)
  next
    case False
    have "\<not> (reg_mapping q = reg_mapping r \<and> host_index q y = host_index r x)"
      if "q \<in> set (gm_regions m)" "contains (reg_range q) y" "a \<le> y" "y < a + of_nat (length bs)" for q y
      using host_index_inj [OF al, of q r y x] that r False e by (auto simp: in_slice_def word_nat)
    then show ?thesis using w b False by (auto simp: writes_exactly_def)
  qed
qed

lemma write_slice_mapped:
  assumes wf: "gm_wf m" and ne: "bs \<noteq> []" and mp: "slice_mapped m a (length bs)"
  obtains m' where "write_slice m bs a = (m', Ok ())" and "gm_wf m'"
    and "gm_regions m' = gm_regions m"
    and "\<forall>x. byte_at m' x = (if in_slice a (length bs) x then Some (bs ! (unat x - unat a)) else byte_at m x)"
    and "case gm_dirty_tracker m of None \<Rightarrow> gm_dirty_tracker m' = None
         | Some t \<Rightarrow> \<exists>t'. gm_dirty_tracker m' = Some t' \<and> mark_range t (slice_range a (length bs)) = Ok t'"
proof -
  let ?n = "length bs" and ?rng = "slice_range a (length bs)"
  have lt: "unat a + ?n < 2 ^ 64" and pos: "0 < ?n" using mp ne by (auto simp: slice_mapped_def)
  note rng = slice_range_wf [OF pos lt]
  have cov: "\<forall>x. in_slice a ?n x \<longrightarrow> is_mapped m x" using mp slice_mapped_iff [OF lt] by blast
  have mapped: "\<forall>x. contains ?rng x \<longrightarrow> is_mapped m x" using rng(2) cov by blast
  obtain m1 where m1: "mark_dirty m ?rng = Ok m1" "gm_wf m1" "m1 = m\<lparr>gm_dirty_tracker := gm_dirty_tracker m1\<rparr>"
      "case gm_dirty_tracker m of None \<Rightarrow> gm_dirty_tracker m1 = None
         | Some t \<Rightarrow> \<exists>t'. gm_dirty_tracker m1 = Some t' \<and> mark_range t ?rng = Ok t'"
    by (rule mark_dirty_Ok [OF wf rng(1) mapped])
  have same: "gm_regions m1 = gm_regions m" "gm_store m1 = gm_store m"
    by (subst m1(3), simp)+
  have ue: "unat (a + of_nat ?n) = unat a + ?n" using lt by (intro unat_add_of_nat) simp
  obtain origin where al: "views_aligned origin (gm_regions m1)"
    using m1(2) by (auto simp: gm_wf_def views_aligned_def)
  obtain st where st: "write_regions (gm_store m1) (gm_regions m1) bs a (a + of_nat ?n) = (st, Ok ())"
      "writes_exactly (gm_store m1) st (gm_regions m1) bs a (a + of_nat ?n)"
  proof (rule exE [OF write_regions_exact [OF gm_wf_order [OF m1(2)] _ al, of "gm_store m1" a "a + of_nat ?n" bs]])
    show "\<forall>r\<in>set (gm_regions m1). view_valid (gm_store m1) r" using m1(2) by (simp add: gm_wf_def)
    show "a \<le> a + of_nat ?n" "?n = unat (a + of_nat ?n) - unat a" using ue by (simp_all add: word_nat)
    show "\<forall>x. a \<le> x \<and> x < a + of_nat ?n \<longrightarrow> (\<exists>r\<in>set (gm_regions m1). contains (reg_range r) x)"
      using cov ue same by (auto simp: in_slice_def word_nat is_mapped_def)
  qed (use that in blast)
  have "validate_mapped_range m ?rng = Ok ()"
    using validate_mapped_range_eq [OF gm_wf_order [OF wf] rng(1)] rng(2) cov by simp
  then have run: "write_slice m bs a = (m1\<lparr>gm_store := st\<rparr>, Ok ())"
    using lt pos ne m1(1) st(1) by (simp add: write_slice_def access_range_eq) (simp add: slice_range_def)
  have cov1: "\<forall>x. in_slice a ?n x \<longrightarrow> is_mapped m1 x" using cov by (simp add: is_mapped_def same)
  have b: "byte_at (m1\<lparr>gm_store := st\<rparr>) x =
      (if in_slice a ?n x then Some (bs ! (unat x - unat a)) else byte_at m x)" for x
  proof -
    have "byte_at m1 x = byte_at m x" using same by (rule byte_at_cong)
    then show ?thesis using byte_at_writes [OF m1(2) st(2) lt cov1, of x] by simp
  qed
  show thesis
  proof (rule that [of "m1\<lparr>gm_store := st\<rparr>"])
    show "gm_wf (m1\<lparr>gm_store := st\<rparr>)"
      using st(2) by (intro gm_wf_store [OF m1(2)]) (simp add: writes_exactly_def)
    show "case gm_dirty_tracker m of None \<Rightarrow> gm_dirty_tracker (m1\<lparr>gm_store := st\<rparr>) = None
      | Some t \<Rightarrow> \<exists>t'. gm_dirty_tracker (m1\<lparr>gm_store := st\<rparr>) = Some t' \<and> mark_range t ?rng = Ok t'"
      using m1(4) by (simp split: option.splits)
  qed (use run b same in simp_all)
qed

lemma write_slice_unmapped:
  assumes wf: "gm_wf m" and ne: "bs \<noteq> []" and len: "length bs < 2 ^ 64" and mp: "\<not> slice_mapped m a (length bs)"
  shows "write_slice m bs a = (m, Err (if unat a + length bs < 2 ^ 64 then UnmappedRange (slice_range a (length bs))
     else AccessAddressOverflow a (of_nat (length bs))))"
proof (cases "unat a + length bs < 2 ^ 64")
  case False
  then show ?thesis using len ne by (simp add: write_slice_def access_range_eq)
next
  case True
  have pos: "0 < length bs" using ne by simp
  note rng = slice_range_wf [OF pos True]
  have "\<not> (\<forall>x. contains (slice_range a (length bs)) x \<longrightarrow> is_mapped m x)"
    using mp slice_mapped_iff [OF True] rng(2) by blast
  then have "validate_mapped_range m (slice_range a (length bs)) = Err (UnmappedRange (slice_range a (length bs)))"
    using validate_mapped_range_eq [OF gm_wf_order [OF wf] rng(1)] by argo
  then show ?thesis using True len ne by (simp add: write_slice_def access_range_eq)
qed

lemma read_slice_mapped:
  assumes wf: "gm_wf m" and mp: "slice_mapped m a (length dest)"
  shows "read_slice m dest a = (map (\<lambda>i. the (byte_at m (a + of_nat i))) [0..<length dest], Ok ()) \<and>
     (\<forall>i<length dest. byte_at m (a + of_nat i) \<noteq> None)"
proof (cases "dest = []")
  case True
  then show ?thesis by (simp add: read_slice_def access_range_def)
next
  case False
  let ?n = "length dest" and ?rng = "slice_range a (length dest)"
  have lt: "unat a + ?n < 2 ^ 64" and pos: "0 < ?n" using mp False by (auto simp: slice_mapped_def)
  note rng = slice_range_wf [OF pos lt]
  have cov: "\<forall>x. in_slice a ?n x \<longrightarrow> is_mapped m x" using mp slice_mapped_iff [OF lt] by blast
  have ue: "unat (a + of_nat ?n) = unat a + ?n" using lt by (intro unat_add_of_nat) simp
  obtain bs where bs: "read_regions (gm_store m) (gm_regions m) [] dest a (a + of_nat ?n) = ([] @ bs, Ok ())"
      "length bs = ?n" "\<forall>r\<in>set (gm_regions m). \<forall>i<length bs. contains (reg_range r) (a + of_nat i) \<longrightarrow>
        host_byte (gm_store m) (reg_mapping r) (host_index r (a + of_nat i)) = Some (bs ! i)"
  proof (rule exE [OF read_regions_exact [OF gm_wf_order [OF wf], of "gm_store m" a "a + of_nat ?n" dest "[]"]])
    show "\<forall>r\<in>set (gm_regions m). view_valid (gm_store m) r" using wf by (simp add: gm_wf_def)
    show "a \<le> a + of_nat ?n" "?n = unat (a + of_nat ?n) - unat a" using ue by (simp_all add: word_nat)
    show "\<forall>x. a \<le> x \<and> x < a + of_nat ?n \<longrightarrow> (\<exists>r\<in>set (gm_regions m). contains (reg_range r) x)"
      using cov ue by (auto simp: in_slice_def word_nat is_mapped_def)
  qed (use that in blast)
  have "byte_at m (a + of_nat i) = Some (bs ! i)" if i: "i < ?n" for i
  proof -
    obtain r where r: "r \<in> set (gm_regions m)" "contains (reg_range r) (a + of_nat i)"
      using mp i by (auto simp: slice_mapped_def is_mapped_def)
    then show ?thesis using byte_at_region [OF gm_wf_order [OF wf] r] bs(2,3) i by simp
  qed
  then have eq: "bs = map (\<lambda>i. the (byte_at m (a + of_nat i))) [0..<?n]" and "\<forall>i<?n. byte_at m (a + of_nat i) \<noteq> None"
    using bs(2) by (auto intro: nth_equalityI)
  moreover have "validate_mapped_range m ?rng = Ok ()"
    using validate_mapped_range_eq [OF gm_wf_order [OF wf] rng(1)] rng(2) cov by simp
  then have "read_slice m dest a = (bs, Ok ())"
    using lt pos False bs(1) by (simp add: read_slice_def access_range_eq) (simp add: slice_range_def)
  ultimately show ?thesis by simp
qed

lemma read_slice_unmapped:
  assumes wf: "gm_wf m" and len: "length dest < 2 ^ 64" and mp: "\<not> slice_mapped m a (length dest)" and ne: "dest \<noteq> []"
  shows "\<exists>e. read_slice m dest a = (dest, Err e)"
proof (cases "unat a + length dest < 2 ^ 64")
  case False
  then show ?thesis using len ne by (simp add: read_slice_def access_range_eq)
next
  case True
  have pos: "0 < length dest" using ne by simp
  note rng = slice_range_wf [OF pos True]
  have "\<not> (\<forall>x. contains (slice_range a (length dest)) x \<longrightarrow> is_mapped m x)"
    using mp slice_mapped_iff [OF True] rng(2) by blast
  then have "validate_mapped_range m (slice_range a (length dest)) = Err (UnmappedRange (slice_range a (length dest)))"
    using validate_mapped_range_eq [OF gm_wf_order [OF wf] rng(1)] by argo
  then show ?thesis using True len ne by (simp add: read_slice_def access_range_eq)
qed

section \<open>Topology changes keep the invariant\<close>

lemma map_fresh_Ok:
  assumes "map_fresh env b sz m = (m', Ok i)"
  obtains n where "i = gm_next_identity m" and "unat n = unat (gm_next_identity m) + 1"
    and "m' = m\<lparr>gm_next_identity := n, gm_store := (gm_store m)(i \<mapsto> replicate (unat sz) 0)\<rparr>"
  using assms by (auto simp: map_fresh_def checked_add_Some_iff Let_def split: option.splits if_splits)

lemma map_fresh_fail:
  assumes "map_fresh env b sz m = (m', r)" and "\<not> is_ok r"
  obtains n where "m' = m\<lparr>gm_next_identity := n\<rparr>" and "gm_next_identity m \<le> n"
proof (cases "checked_add (gm_next_identity m) 1")
  case None
  then have "m' = m\<lparr>gm_next_identity := gm_next_identity m\<rparr>"
    using assms by (auto simp: map_fresh_def)
  then show thesis by (rule that) simp
next
  case (Some n)
  then have "m' = m\<lparr>gm_next_identity := n\<rparr>"
    using assms by (auto simp: map_fresh_def Let_def split: if_splits)
  then show thesis by (rule that) (use Some in \<open>simp add: checked_add_Some_iff word_nat\<close>)
qed

lemma gm_wf_next:
  assumes "gm_wf m" and "gm_next_identity m \<le> n"
  shows "gm_wf (m\<lparr>gm_next_identity := n\<rparr>)"
  using assms by (auto simp: gm_wf_def tracker_mirrors_def dest: less_le_trans)

lemma view_valid_fresh:
  "reg_mapping r \<noteq> i \<Longrightarrow> view_valid (st(i \<mapsto> bs)) r = view_valid st r"
  by (simp add: view_valid_def)

lemma map_fresh_wf:
  assumes wf: "gm_wf m" and "map_fresh env b sz m = (m', r)"
  shows "gm_wf m'" and "byte_at m' a = byte_at m a" and "gm_regions m' = gm_regions m"
    and "gm_shared_reservations m' = gm_shared_reservations m" and "gm_dirty_tracker m' = gm_dirty_tracker m"
proof -
  have "gm_wf m' \<and> byte_at m' a = byte_at m a \<and> gm_regions m' = gm_regions m \<and>
      gm_shared_reservations m' = gm_shared_reservations m \<and> gm_dirty_tracker m' = gm_dirty_tracker m"
  proof (cases "is_ok r")
    case False
    obtain n where m': "m' = m\<lparr>gm_next_identity := n\<rparr>" "gm_next_identity m \<le> n"
      by (rule map_fresh_fail [OF assms(2) False])
    show ?thesis
      using gm_wf_next [OF wf m'(2)] byte_at_cong [of m' m a] by (simp add: m'(1))
  next
    case True
    then obtain i where r: "r = Ok i" by (auto simp: is_ok_iff)
    obtain n where i: "i = gm_next_identity m" and n: "unat n = unat (gm_next_identity m) + 1"
      and m': "m' = m\<lparr>gm_next_identity := n, gm_store := (gm_store m)(i \<mapsto> replicate (unat sz) 0)\<rparr>"
      by (rule map_fresh_Ok [OF assms(2) [unfolded r]])
    have old: "reg_mapping q \<noteq> i" if "q \<in> set (gm_regions m) \<union> set (gm_shared_reservations m)" for q
      using gm_wf_view [OF wf that] i by auto
    have le: "gm_next_identity m \<le> n" using n by (simp add: word_nat)
    have "gm_wf m'"
      using gm_wf_next [OF wf le] old
      by (auto simp: m' gm_wf_def view_valid_fresh tracker_mirrors_def)
    moreover have "byte_at m' a = byte_at m a"
    proof (cases "find (\<lambda>r. contains (reg_range r) a) (gm_regions m)")
      case (Some q)
      then have "q \<in> set (gm_regions m)" by (auto simp: find_Some_iff)
      then show ?thesis using Some old [of q] by (simp add: byte_at_def host_byte_def m')
    qed (simp add: byte_at_def m')
    ultimately show ?thesis by (simp add: m')
  qed
  then show "gm_wf m'" "byte_at m' a = byte_at m a" "gm_regions m' = gm_regions m"
    "gm_shared_reservations m' = gm_shared_reservations m" "gm_dirty_tracker m' = gm_dirty_tracker m" by auto
qed

lemma validate_insert_region_Ok:
  assumes wf: "gm_wf m" and rng: "range_wf (reg_range r)"
    and "validate_insert_region m (reg_range r) ps = Ok i"
  shows "ordered_disjoint (map reg_range (vec_insert i r (gm_regions m)))"
    and "\<forall>q\<in>set (gm_regions m). \<not> overlaps (reg_range q) (reg_range r)"
proof -
  have i: "i = start_index reg_range (gm_regions m) r"
    and clear: "neighbours_clear reg_range (gm_regions m) r i"
    using assms(3)
    by (auto simp: validate_insert_region_def result_iffs Let_def neighbours_clear_def split: if_splits)
  show "ordered_disjoint (map reg_range (vec_insert i r (gm_regions m)))"
    using ordered_insert_at_start_index [OF gm_wf_order [OF wf] rng] clear i by simp
  show "\<forall>q\<in>set (gm_regions m). \<not> overlaps (reg_range q) (reg_range r)"
    using neighbours_clear_iff [OF gm_wf_order [OF wf] rng] clear i by simp
qed

lemma tracker_insert_ranges:
  assumes "tracker_wf t" and "range_wf rng" and "tracker_insert_region alloc t rng d = Ok t'"
    and "ordered_disjoint xs" and "set xs = insert rng (set (map dr_range (dt_regions t)))"
  shows "map dr_range (dt_regions t') = xs"
proof (rule ordered_disjoint_set_eq [OF _ assms(4)])
  show "ordered_disjoint (map dr_range (dt_regions t'))"
    using tracker_insert_wf [OF assms(1-3)] by (simp add: tracker_wf_def)
  show "set (map dr_range (dt_regions t')) = set xs"
    by (rule tracker_insert_Ok [OF assms(1-3)]) (use assms(5) in auto)
qed

lemma insert_prepared_region_Ok:
  assumes wf: "gm_wf m" and rng: "range_wf (reg_range r)"
    and val: "validate_insert_region m (reg_range r) ps = Ok i"
    and view: "view_valid (gm_store m) r" "reg_mapping r < gm_next_identity m"
    and al: "views_aligned origin (r # gm_regions m @ gm_shared_reservations m)"
    and ins: "insert_prepared_region env m i r = (m', Ok ())"
  shows "gm_wf m'" and "gm_store m' = gm_store m" and "set (gm_regions m') = insert r (set (gm_regions m))"
    and "\<forall>t'. gm_dirty_tracker m' = Some t' \<longrightarrow>
         (\<exists>t. gm_dirty_tracker m = Some t \<and> (\<forall>a. is_dirty t' a \<longleftrightarrow> is_dirty t a \<or> contains (reg_range r) a))"
proof -
  note od = validate_insert_region_Ok [OF wf rng val]
  have m': "gm_regions m' = vec_insert i r (gm_regions m)" "gm_store m' = gm_store m"
      "gm_shared_reservations m' = gm_shared_reservations m" "gm_next_identity m' = gm_next_identity m"
    using ins by (auto simp: insert_prepared_region_def split: if_splits option.splits result.splits)
  have tr: "\<exists>t. gm_dirty_tracker m = Some t \<and>
      tracker_insert_region (dirty_env (he_alloc env)) t (reg_range r) True = Ok t'"
    if "gm_dirty_tracker m' = Some t'" for t'
    using ins that by (auto simp: insert_prepared_region_def split: if_splits option.splits result.splits)
  have tm: "tracker_wf t' \<and> map dr_range (dt_regions t') = map reg_range (gm_regions m')"
    if t': "gm_dirty_tracker m' = Some t'" for t'
  proof -
    obtain t where t: "gm_dirty_tracker m = Some t"
        "tracker_insert_region (dirty_env (he_alloc env)) t (reg_range r) True = Ok t'"
      using tr [OF t'] by blast
    have twf: "tracker_wf t" and mirror: "map dr_range (dt_regions t) = map reg_range (gm_regions m)"
      using wf t(1) by (auto simp: gm_wf_def tracker_mirrors_def)
    show ?thesis
      using tracker_insert_wf [OF twf rng t(2)]
        tracker_insert_ranges [OF twf rng t(2) od(1)] unfolding mirror m'(1) by simp
  qed
  show "gm_wf m'"
    unfolding gm_wf_def tracker_mirrors_def m'
    using wf od(1) tm view al
    by (auto simp: gm_wf_def m'(1) views_aligned_def intro!: exI [of _ origin])
  show "gm_store m' = gm_store m" by (rule m')
  show "set (gm_regions m') = insert r (set (gm_regions m))" by (simp add: m')
  show "\<forall>t'. gm_dirty_tracker m' = Some t' \<longrightarrow>
         (\<exists>t. gm_dirty_tracker m = Some t \<and> (\<forall>a. is_dirty t' a \<longleftrightarrow> is_dirty t a \<or> contains (reg_range r) a))"
  proof (intro allI impI)
    fix t' assume "gm_dirty_tracker m' = Some t'"
    then obtain t where t: "gm_dirty_tracker m = Some t"
        "tracker_insert_region (dirty_env (he_alloc env)) t (reg_range r) True = Ok t'"
      using tr by blast
    then have "tracker_wf t" using wf by (simp add: gm_wf_def tracker_mirrors_def)
    then show "\<exists>t. gm_dirty_tracker m = Some t \<and> (\<forall>a. is_dirty t' a \<longleftrightarrow> is_dirty t a \<or> contains (reg_range r) a)"
      using t tracker_insert_is_dirty(1) [OF _ rng t(2)] by auto
  qed
qed

lemma insert_prepared_region_fail:
  "insert_prepared_region env m i r = (m', res) \<Longrightarrow> \<not> is_ok res \<Longrightarrow> m' = m"
  by (auto simp: insert_prepared_region_def split: if_splits option.splits result.splits)

lemma tracker_insert_not_Panic [simp]: "tracker_insert_region alloc t rng d \<noteq> Panic"
proof -
  have "validate_insert_position_from n rs rng \<noteq> Panic" for n rs
    by (induction rs arbitrary: n) auto
  then show ?thesis
    by (auto simp: tracker_insert_region_def validate_insert_position_def result_iffs dirty_region_new_def
        range_validate_alignment_def validate_alignment_def split: if_splits)
qed

lemma insert_prepared_region_not_Panic [simp]: "snd (insert_prepared_region env m i r) \<noteq> Panic"
  by (auto simp: insert_prepared_region_def split: if_splits option.splits result.splits)

lemma byte_at_insert:
  assumes od: "ordered_disjoint (map reg_range (gm_regions m))" "ordered_disjoint (map reg_range (gm_regions m'))"
    and st: "gm_store m' = gm_store m" and rs: "set (gm_regions m') = insert r (set (gm_regions m))"
  shows "byte_at m' a =
     (if contains (reg_range r) a then host_byte (gm_store m) (reg_mapping r) (host_index r a) else byte_at m a)"
proof (cases "contains (reg_range r) a")
  case True
  then show ?thesis using byte_at_region [OF od(2), of r a] rs st by simp
next
  case False
  show ?thesis
  proof (cases "is_mapped m a")
    case True
    then obtain q where q: "q \<in> set (gm_regions m)" "contains (reg_range q) a" by (auto simp: is_mapped_def)
    then show ?thesis
      using byte_at_region [OF od(1) q] byte_at_region [OF od(2), of q a] rs st False by simp
  next
    case unmapped: False
    then have "\<not> is_mapped m' a" using False rs by (auto simp: is_mapped_def)
    then show ?thesis using unmapped False byte_at_unmapped by auto
  qed
qed

lemma view_valid_byte:
  "view_valid st r \<Longrightarrow> contains (reg_range r) a \<Longrightarrow> host_byte st (reg_mapping r) (host_index r a) \<noteq> None"
  by (auto simp: view_valid_def host_byte_def host_index_def contains_def range_wf_def word_nat)

lemma allocation_host_size_eq: "allocation_host_size rng = Ok (gmr_size rng)"
  by (simp add: allocation_host_size_def)

lemma reservation_view_Ok:
  assumes wf: "gm_wf m" and q: "q \<in> set (gm_shared_reservations m)" and rng: "range_wf rng"
    and "reservation_view m q rng = Ok r" and al: "views_aligned origin (gm_regions m @ gm_shared_reservations m)"
  shows "reg_range r = rng" and "view_valid (gm_store m) r" and "reg_mapping r < gm_next_identity m"
    and "views_aligned origin (r # gm_regions m @ gm_shared_reservations m)"
proof -
  have r: "gmr_start (reg_range q) \<le> gmr_start rng"
      "r = \<lparr>reg_range = rng, reg_mapping = reg_mapping q, reg_mapping_offset = gmr_start rng - gmr_start (reg_range q),
            reg_host_size = gmr_size rng\<rparr>"
      "unat (gmr_start rng - gmr_start (reg_range q)) + unat (gmr_size rng) \<le> mapping_size m (reg_mapping q)"
    using assms(4)
    by (auto simp: reservation_view_def result_iffs sub_or_panic_def allocation_host_size_eq checked_add_Some_iff
        not_less split: if_splits)
  have qv: "view_valid (gm_store m) q" "reg_mapping q < gm_next_identity m" "reg_mapping_offset q = 0"
    using wf q by (auto simp: gm_wf_def)
  show "reg_range r = rng" "reg_mapping r < gm_next_identity m" using r qv by auto
  show "view_valid (gm_store m) r"
    using r qv(1) rng by (auto simp: view_valid_def mapping_size_def)
  have "unat (gmr_start (reg_range q)) = origin (reg_mapping q)"
    using al q qv(3) by (auto simp: views_aligned_def)
  then show "views_aligned origin (r # gm_regions m @ gm_shared_reservations m)"
    using al r by (auto simp: views_aligned_def word_nat)
qed

lemma validate_insert_region_cong:
  "gm_regions m' = gm_regions m \<Longrightarrow> gm_shared_reservations m' = gm_shared_reservations m \<Longrightarrow>
   validate_insert_region m' rng ps = validate_insert_region m rng ps"
  unfolding validate_insert_region_def by (simp only:)

lemma fresh_view:
  assumes wf: "gm_wf m" and fr: "map_fresh env b sz m = (m', Ok i)" and rng: "range_wf rng" and sz: "sz = gmr_size rng"
  defines "r \<equiv> \<lparr>reg_range = rng, reg_mapping = i, reg_mapping_offset = 0, reg_host_size = sz\<rparr>"
  shows "view_valid (gm_store m') r \<and> reg_mapping r < gm_next_identity m' \<and>
     (\<exists>origin. views_aligned origin (r # gm_regions m' @ gm_shared_reservations m'))"
proof -
  obtain n where i: "i = gm_next_identity m" and n: "unat n = unat (gm_next_identity m) + 1"
    and m': "m' = m\<lparr>gm_next_identity := n, gm_store := (gm_store m)(i \<mapsto> replicate (unat sz) 0)\<rparr>"
    by (rule map_fresh_Ok [OF fr])
  obtain origin where al: "views_aligned origin (gm_regions m @ gm_shared_reservations m)"
    using wf by (auto simp: gm_wf_def)
  have "reg_mapping q \<noteq> i" if "q \<in> set (gm_regions m) \<union> set (gm_shared_reservations m)" for q
    using gm_wf_view [OF wf that] i by auto
  then have "views_aligned (origin(i := unat (gmr_start rng))) (r # gm_regions m' @ gm_shared_reservations m')"
    using al by (auto simp: views_aligned_def r_def m')
  then show ?thesis using i n rng sz by (auto simp: r_def m' word_nat view_valid_def)
qed

lemma allocate_region_Ok:
  assumes wf: "gm_wf m" and rng: "range_wf rng" and "allocate_region_with_mapper env rng ps m = (m', Ok r)"
  shows "reg_range r = rng" and "view_valid (gm_store m') r" and "reg_mapping r < gm_next_identity m'"
    and "\<exists>origin. views_aligned origin (r # gm_regions m' @ gm_shared_reservations m')"
    and "\<exists>b sz. map_fresh env b sz m = (m', Ok (reg_mapping r))"
proof -
  obtain sz i where val: "validate_allocation_range rng ps = Ok sz" and fr: "map_fresh env (gm_backing m) sz m = (m', Ok i)"
    and r: "r = \<lparr>reg_range = rng, reg_mapping = i, reg_mapping_offset = 0, reg_host_size = sz\<rparr>"
    using assms(3) by (auto simp: allocate_region_with_mapper_def split: result.splits prod.splits)
  have sz: "sz = gmr_size rng"
    using val by (auto simp: validate_allocation_range_def result_iffs allocation_host_size_eq)
  show "reg_range r = rng" "\<exists>b sz. map_fresh env b sz m = (m', Ok (reg_mapping r))" using fr by (auto simp: r)
  show "view_valid (gm_store m') r" "reg_mapping r < gm_next_identity m'"
    "\<exists>origin. views_aligned origin (r # gm_regions m' @ gm_shared_reservations m')"
    using fresh_view [OF wf fr rng sz] by (auto simp: r)
qed

text \<open>What an insertion that returns \<open>Ok\<close> establishes.\<close>

definition inserted :: "guest_memory \<Rightarrow> guest_memory \<Rightarrow> guest_memory_range \<Rightarrow> bool" where
  "inserted m m' rng \<longleftrightarrow> gm_wf m' \<and> (gm_dirty_tracker m' = None \<longleftrightarrow> gm_dirty_tracker m = None) \<and>
     (\<forall>a. is_mapped m' a \<longleftrightarrow> is_mapped m a \<or> contains rng a) \<and>
     (\<forall>a. contains rng a \<longrightarrow> \<not> is_mapped m a \<and> byte_at m' a \<noteq> None) \<and>
     (\<forall>a. \<not> contains rng a \<longrightarrow> byte_at m' a = byte_at m a) \<and>
     (\<forall>t'. gm_dirty_tracker m' = Some t' \<longrightarrow>
        (\<exists>t. gm_dirty_tracker m = Some t \<and> (\<forall>a. is_dirty t' a \<longleftrightarrow> is_dirty t a \<or> contains rng a)))"

lemma insert_prepared_inserted:
  assumes wf: "gm_wf m" and rng: "range_wf (reg_range r)"
    and val: "validate_insert_region m (reg_range r) ps = Ok i"
    and view: "view_valid (gm_store m) r" "reg_mapping r < gm_next_identity m"
    and al: "\<exists>origin. views_aligned origin (r # gm_regions m @ gm_shared_reservations m)"
    and ins: "insert_prepared_region env m i r = (m', Ok ())"
  shows "inserted m m' (reg_range r)"
proof -
  obtain origin where al': "views_aligned origin (r # gm_regions m @ gm_shared_reservations m)"
    using al by blast
  note ok = insert_prepared_region_Ok [OF wf rng val view al' ins]
  have clear: "\<not> is_mapped m a" if "contains (reg_range r) a" for a
    using validate_insert_region_Ok(2) [OF wf rng val] that
    by (auto simp: is_mapped_def overlaps_def contains_def)
  have byte: "byte_at m' a =
      (if contains (reg_range r) a then host_byte (gm_store m) (reg_mapping r) (host_index r a) else byte_at m a)" for a
    by (rule byte_at_insert [OF gm_wf_order [OF wf] gm_wf_order [OF ok(1)] ok(2,3)])
  have "gm_dirty_tracker m' = None \<longleftrightarrow> gm_dirty_tracker m = None"
    using ins by (auto simp: insert_prepared_region_def split: if_splits option.splits result.splits)
  then show ?thesis
    unfolding inserted_def
    using ok clear byte view_valid_byte [OF view(1)] by (auto simp: is_mapped_def)
qed

lemma insert_region_Ok:
  assumes wf: "gm_wf m" and rng: "range_wf rng" and ins: "insert_region env m rng = (m', Ok ())"
  shows "inserted m m' rng"
proof -
  obtain ps i where val: "validate_insert_region m rng ps = Ok i"
    and br: "(\<exists>q r. shared_reservation_containing m rng = Some q \<and> reservation_view m q rng = Ok r \<and>
               insert_prepared_region env m i r = (m', Ok ())) \<or>
             insert_region_with_mapper env m rng ps = (m', Ok ())"
    using ins by (auto simp: insert_region_def result_iffs split: if_splits result.splits option.splits)
  show ?thesis
    using br
  proof (elim disjE exE conjE)
    fix q r assume q: "shared_reservation_containing m rng = Some q" and r: "reservation_view m q rng = Ok r"
      and i: "insert_prepared_region env m i r = (m', Ok ())"
    have "q \<in> set (gm_shared_reservations m)"
      using q by (auto simp: shared_reservation_containing_def find_Some_iff)
    moreover obtain origin where al: "views_aligned origin (gm_regions m @ gm_shared_reservations m)"
      using wf by (auto simp: gm_wf_def)
    ultimately show ?thesis
      using reservation_view_Ok [OF wf _ rng r al] insert_prepared_inserted [OF wf, of r ps i] rng val i by metis
  next
    assume "insert_region_with_mapper env m rng ps = (m', Ok ())"
    then obtain m1 r where m1: "allocate_region_with_mapper env rng ps m = (m1, Ok r)"
      and i: "insert_prepared_region env m1 i r = (m', Ok ())"
      using val by (auto simp: insert_region_with_mapper_def split: result.splits prod.splits)
    note al = allocate_region_Ok [OF wf rng m1]
    obtain b sz where fr: "map_fresh env b sz m = (m1, Ok (reg_mapping r))" using al(5) by blast
    note f = map_fresh_wf [OF wf fr]
    have "inserted m1 m' (reg_range r)"
      using insert_prepared_inserted [OF f(1), of r ps i] rng val al(1-4) i validate_insert_region_cong [OF f(3,4)] by simp
    then show ?thesis using f(2,3,5) al(1) by (simp add: inserted_def is_mapped_def)
  qed
qed

definition same_view :: "guest_memory \<Rightarrow> guest_memory \<Rightarrow> bool" where
  "same_view m m' \<longleftrightarrow> gm_wf m' \<and> gm_regions m' = gm_regions m \<and> gm_dirty_tracker m' = gm_dirty_tracker m \<and>
     (\<forall>a. byte_at m' a = byte_at m a)"

lemma same_view_refl: "gm_wf m \<Longrightarrow> same_view m m"
  by (simp add: same_view_def)

lemma map_fresh_same_view: "gm_wf m \<Longrightarrow> map_fresh env b sz m = (m', r) \<Longrightarrow> same_view m m'"
  using map_fresh_wf by (simp add: same_view_def)

lemma map_fresh_not_Panic [simp]: "map_fresh env b sz m \<noteq> (m', Panic)"
  by (auto simp: map_fresh_def Let_def split: option.splits)

lemma range_validate_alignment_not_Panic [simp]: "range_validate_alignment rng ps \<noteq> Panic"
  by (auto simp: range_validate_alignment_def validate_alignment_def result_iffs)

lemma validate_allocation_range_not_Panic [simp]: "validate_allocation_range rng ps \<noteq> Panic"
  by (auto simp: validate_allocation_range_def allocation_host_size_eq result_iffs)

lemma check_reservations_not_Panic [simp]: "check_reservations rs rng \<noteq> Panic"
  by (induction rs) auto

lemma validate_insert_region_not_Panic [simp]: "validate_insert_region m rng ps \<noteq> Panic"
  by (auto simp: validate_insert_region_def result_iffs Let_def)

lemma host_page_size_not_Panic [simp]: "host_page_size env \<noteq> Panic"
  by (auto simp: host_page_size_def validate_host_page_size_def result_iffs)

lemma reservation_view_not_Panic:
  assumes "shared_reservation_containing m rng = Some q"
  shows "reservation_view m q rng \<noteq> Panic"
proof -
  have "gmr_start (reg_range q) \<le> gmr_start rng"
    using assms by (auto simp: shared_reservation_containing_def find_Some_iff guest_memory_range_contains_def)
  then show ?thesis
    by (auto simp: reservation_view_def result_iffs sub_or_panic_def allocation_host_size_eq)
qed

lemma insert_region_with_mapper_fail:
  assumes wf: "gm_wf m" and "insert_region_with_mapper env m rng ps = (m', res)" and "res \<noteq> Ok ()"
  shows "same_view m m' \<and> res \<noteq> Panic"
proof (cases "validate_insert_region m rng ps")
  case (Ok i)
  obtain m1 r1 where m1: "allocate_region_with_mapper env rng ps m = (m1, r1)" by fastforce
  have sv: "same_view m m1" and np: "r1 \<noteq> Panic"
    using m1 wf map_fresh_same_view [OF wf]
    by (auto simp: allocate_region_with_mapper_def same_view_refl split: result.splits prod.splits)
  show ?thesis
  proof (cases r1)
    case [simp]: (Ok r)
    have ins: "insert_prepared_region env m1 i r = (m', res)"
      using assms(2) m1 \<open>validate_insert_region m rng ps = Ok i\<close> by (simp add: insert_region_with_mapper_def)
    then have "m' = m1" using assms(3) by (intro insert_prepared_region_fail [OF ins]) (auto simp: is_ok_iff)
    then show ?thesis using sv ins insert_prepared_region_not_Panic [of env m1 i r] by auto
  qed (use assms(2) m1 Ok sv np in \<open>auto simp: insert_region_with_mapper_def\<close>)
qed (use assms in \<open>auto simp: insert_region_with_mapper_def same_view_refl\<close>)

lemma insert_region_fail:
  assumes wf: "gm_wf m" and ins: "insert_region env m rng = (m', res)" and nok: "res \<noteq> Ok ()"
  shows "same_view m m' \<and> res \<noteq> Panic"
proof (cases "is_protected_lazy m")
  case True
  then show ?thesis using assms by (auto simp: insert_region_def same_view_refl)
next
  case False
  let ?v = "and_then (host_page_size env)
      (\<lambda>page_size. and_then (validate_insert_region m rng page_size) (\<lambda>i. Ok (page_size, i)))"
  have np: "?v \<noteq> Panic" by (simp add: result_iffs)
  show ?thesis
  proof (cases ?v)
    case (Ok psi)
    then obtain ps i where v: "?v = Ok (ps, i)" by (cases psi) auto
    show ?thesis
    proof (cases "shared_reservation_containing m rng")
      case None
      then show ?thesis
        using ins nok v False insert_region_with_mapper_fail [OF wf _ nok] same_view_refl [OF wf]
        by (auto simp: insert_region_def split: if_splits)
    next
      case (Some q)
      show ?thesis
      proof (cases "reservation_view m q rng")
        case (Ok r)
        have ip: "insert_prepared_region env m i r = (m', res)"
          using ins v False Some Ok by (simp add: insert_region_def)
        then have "m' = m" using nok by (intro insert_prepared_region_fail [OF ip]) (auto simp: is_ok_iff)
        then show ?thesis using ip same_view_refl [OF wf] insert_prepared_region_not_Panic [of env m i r] by auto
      qed (use ins v False Some same_view_refl [OF wf] reservation_view_not_Panic [OF Some]
            in \<open>auto simp: insert_region_def\<close>)
    qed
  qed (use ins False np same_view_refl [OF wf] in \<open>auto simp: insert_region_def\<close>)
qed

text \<open>Reservations only add a mapping that no active region shows.\<close>

lemma reservation_position_Ok:
  assumes "ordered_disjoint (map reg_range rs)" and "range_wf rng"
    and "reservation_position n found rs rng = Ok found'"
  shows "(\<forall>q\<in>set rs. \<not> overlaps (reg_range q) rng) \<and>
     (found = None \<longrightarrow> ordered_disjoint (map reg_range
        (take (case found' of Some i \<Rightarrow> i - n | None \<Rightarrow> length rs) rs) @ rng # map reg_range
        (drop (case found' of Some i \<Rightarrow> i - n | None \<Rightarrow> length rs) rs))) \<and>
     (found \<noteq> None \<longrightarrow> found' = found) \<and> (\<forall>i. found = None \<longrightarrow> found' = Some i \<longrightarrow> n \<le> i)"
  using assms
proof (induction rs arbitrary: n found)
  case Nil
  then show ?case by auto
next
  case (Cons r rs)
  let ?f = "if found = None \<and> gmr_start rng < gmr_start (reg_range r) then Some n else found"
  have no: "\<not> overlaps (reg_range r) rng" and rest: "reservation_position (Suc n) ?f rs rng = Ok found'"
    using Cons.prems(3) by (auto split: if_splits)
  have od: "ordered_disjoint (map reg_range rs)" using Cons.prems(1) by simp
  note IH = Cons.IH [OF od Cons.prems(2) rest]
  show ?case
  proof (cases "found = None")
    case False
    then show ?thesis using IH no by auto
  next
    case none: True
    show ?thesis
    proof (cases "gmr_start rng < gmr_start (reg_range r)")
      case True
      then have f': "found' = Some n" using IH none by simp
      have "range_before rng (reg_range r)"
        using no True Cons.prems not_overlaps_before [of "reg_range r" rng] by (auto simp: overlaps_sym)
      then show ?thesis
        using IH no none f' Cons.prems range_before_trans [of rng "reg_range r"] by auto
    next
      case False
      then have before: "range_before (reg_range r) rng"
        using no Cons.prems by (intro not_overlaps_before_le) auto
      have f: "?f = None" using False none by simp
      define k where "k = (case found' of Some i \<Rightarrow> i - Suc n | None \<Rightarrow> length rs)"
      have k: "(case found' of Some i \<Rightarrow> i - n | None \<Rightarrow> length (r # rs)) = Suc k"
        using IH f by (auto simp: k_def split: option.splits)
      have "ordered_disjoint (map reg_range (take k rs) @ rng # map reg_range (drop k rs))"
        using IH f unfolding k_def by auto
      then have "ordered_disjoint (map reg_range (take (Suc k) (r # rs)) @ rng # map reg_range (drop (Suc k) (r # rs)))"
        using before Cons.prems(1) by (auto dest: in_set_takeD in_set_dropD)
      then show ?thesis using IH no f none unfolding k by auto
    qed
  qed
qed

lemma check_regions_clear_not_Panic [simp]: "check_regions_clear rs rng \<noteq> Panic"
  by (induction rs) auto

lemma reservation_position_not_Panic [simp]: "reservation_position n f rs rng \<noteq> Panic"
  by (induction n f rs rng rule: reservation_position.induct) auto

lemma gm_wf_reserve:
  assumes wf: "gm_wf m" and r: "view_valid (gm_store m) r" "reg_mapping r < gm_next_identity m" "reg_mapping_offset r = 0"
    and od: "ordered_disjoint (map reg_range (vec_insert i r (gm_shared_reservations m)))"
    and al: "views_aligned origin (r # gm_regions m @ gm_shared_reservations m)"
  shows "same_view m (m\<lparr>gm_shared_reservations := vec_insert i r (gm_shared_reservations m)\<rparr>)"
proof -
  have "gm_wf (m\<lparr>gm_shared_reservations := vec_insert i r (gm_shared_reservations m)\<rparr>)"
    using wf r od al by (auto simp: gm_wf_def tracker_mirrors_def views_aligned_def intro!: exI [of _ origin])
  moreover have "byte_at (m\<lparr>gm_shared_reservations := vec_insert i r (gm_shared_reservations m)\<rparr>) a = byte_at m a" for a
    by (rule byte_at_cong) simp_all
  ultimately show ?thesis by (simp add: same_view_def)
qed

lemma same_view_trans: "same_view m m1 \<Longrightarrow> same_view m1 m2 \<Longrightarrow> same_view m m2"
  by (simp add: same_view_def)

lemma reserve_shared_region_same_view:
  assumes wf: "gm_wf m" and rng: "range_wf rng" and res: "reserve_shared_region env m rng = (m', res)"
  shows "same_view m m' \<and> res \<noteq> Panic"
proof (cases "is_protected_lazy m")
  case True
  then show ?thesis using assms by (auto simp: reserve_shared_region_def same_view_refl)
next
  case False
  let ?v = "and_then (host_page_size env) (\<lambda>page_size.
             and_then (validate_allocation_range rng page_size) (\<lambda>host_size.
             and_then (check_regions_clear (gm_regions m) rng) (\<lambda>_.
             and_then (reservation_position 0 None (gm_shared_reservations m) rng) (\<lambda>found.
               Ok (host_size, found)))))"
  have np: "?v \<noteq> Panic" by (simp add: result_iffs)
  show ?thesis
  proof (cases ?v)
    case (Ok hf)
    then obtain sz found where v: "?v = Ok (sz, found)" by (cases hf) auto
    then have sz: "sz = gmr_size rng" and pos: "reservation_position 0 None (gm_shared_reservations m) rng = Ok found"
      by (auto simp: result_iffs validate_allocation_range_def allocation_host_size_eq)
    let ?i = "case found of Some i \<Rightarrow> i | None \<Rightarrow> length (gm_shared_reservations m)"
    obtain m1 r1 where m1: "map_fresh env Shared sz m = (m1, r1)" by fastforce
    note fr = map_fresh_wf [OF wf m1]
    show ?thesis
    proof (cases "r1")
      case r1: (Ok i)
      let ?r = "\<lparr>reg_range = rng, reg_mapping = i, reg_mapping_offset = 0, reg_host_size = sz\<rparr>"
      have od: "ordered_disjoint (map reg_range (gm_shared_reservations m))" using wf by (simp add: gm_wf_def)
      have od': "ordered_disjoint (map reg_range (vec_insert ?i ?r (gm_shared_reservations m1)))"
        using reservation_position_Ok [OF od rng pos] fr(4) by (simp add: vec_insert_def split: option.splits)
      have "same_view m1 (m1\<lparr>gm_shared_reservations := vec_insert ?i ?r (gm_shared_reservations m1)\<rparr>)"
        using fresh_view [OF wf m1 [unfolded r1] rng sz] gm_wf_reserve [OF fr(1) _ _ _ od'] by auto
      then show ?thesis
        using res v False m1 r1 same_view_trans [OF map_fresh_same_view [OF wf m1]] same_view_refl [OF wf]
        by (auto simp: reserve_shared_region_def Let_def split: if_splits)
    qed (use res v False m1 same_view_refl [OF wf] map_fresh_same_view [OF wf m1]
         in \<open>auto simp: reserve_shared_region_def Let_def split: if_splits\<close>)
  qed (use res False np same_view_refl [OF wf] in \<open>auto simp: reserve_shared_region_def\<close>)
qed

lemma position_map: "position (\<lambda>r. f r = y) xs = position (\<lambda>z. z = y) (map f xs)"
  by (induction xs) auto

lemma tracker_remove_ranges:
  assumes "tracker_wf t" and "position (\<lambda>r. r = rng) (map dr_range (dt_regions t)) = Some i"
  shows "map dr_range (dt_regions (fst (tracker_remove_region t rng))) = vec_remove i (map dr_range (dt_regions t))"
    and "snd (tracker_remove_region t rng)"
proof -
  have "position (\<lambda>r. dr_range r = rng) (dt_regions t) = Some i"
    using assms(2) by (subst position_map)
  then show "map dr_range (dt_regions (fst (tracker_remove_region t rng))) = vec_remove i (map dr_range (dt_regions t))"
    "snd (tracker_remove_region t rng)"
    by (simp_all add: tracker_remove_region_def map_vec_remove)
qed

definition removed :: "guest_memory \<Rightarrow> guest_memory \<Rightarrow> guest_memory_range \<Rightarrow> bool" where
  "removed m m' rng \<longleftrightarrow> gm_wf m' \<and> (gm_dirty_tracker m' = None \<longleftrightarrow> gm_dirty_tracker m = None) \<and>
     (\<forall>a. byte_at m' a = (if contains rng a then None else byte_at m a)) \<and>
     (\<forall>t'. gm_dirty_tracker m' = Some t' \<longrightarrow>
        (\<exists>t. gm_dirty_tracker m = Some t \<and> (\<forall>a. is_dirty t' a \<longleftrightarrow> is_dirty t a \<and> \<not> contains rng a)))"

lemma byte_at_vec_remove:
  assumes wf: "gm_wf m" and i: "i < length (gm_regions m)" and m': "gm_regions m' = vec_remove i (gm_regions m)"
    and st: "gm_store m' = gm_store m"
  shows "byte_at m' a = (if contains (reg_range (gm_regions m ! i)) a then None else byte_at m a)"
proof -
  let ?r = "gm_regions m ! i"
  have od: "ordered_disjoint (map reg_range (gm_regions m))" using wf by (rule gm_wf_order)
  have od': "ordered_disjoint (map reg_range (gm_regions m'))"
    using ordered_disjoint_remove [OF od] by (simp add: m' map_vec_remove)
  have d: "distinct (gm_regions m)" using ordered_disjoint_distinct [OF od] by (simp add: distinct_map)
  have set': "set (gm_regions m') = set (gm_regions m) - {?r}" using set_vec_remove [OF d i] by (simp add: m')
  have inj: "inj_on reg_range (set (gm_regions m))"
    using ordered_disjoint_distinct [OF od] by (simp add: distinct_map)
  show ?thesis
  proof (cases "contains (reg_range ?r) a")
    case True
    have "q = ?r" if "q \<in> set (gm_regions m)" "contains (reg_range q) a" for q
      using ordered_disjoint_unique [OF od, of "reg_range q" "reg_range ?r" a] that True i inj
      by (auto dest: inj_onD)
    then have "\<not> is_mapped m' a" by (auto simp: is_mapped_def set')
    then show ?thesis using True byte_at_unmapped by simp
  next
    case False
    show ?thesis
    proof (cases "is_mapped m a")
      case True
      then obtain q where q: "q \<in> set (gm_regions m)" "contains (reg_range q) a" by (auto simp: is_mapped_def)
      then have "q \<in> set (gm_regions m')" using False by (auto simp: set')
      then show ?thesis
        using byte_at_region [OF od q] byte_at_region [OF od' _ q(2)] st False by simp
    next
      case unmapped: False
      then have "\<not> is_mapped m' a" by (auto simp: is_mapped_def set')
      then show ?thesis using unmapped False byte_at_unmapped by auto
    qed
  qed
qed

lemma remove_region_Ok:
  assumes wf: "gm_wf m" and pl: "\<not> is_protected_lazy m"
    and pos: "position (\<lambda>r. reg_range r = rng) (gm_regions m) = Some i"
  shows "\<exists>m'. remove_region m rng = (m', Ok ()) \<and> removed m m' rng"
proof -
  have i: "i < length (gm_regions m)" "reg_range (gm_regions m ! i) = rng" using pos by (auto simp: position_Some_iff)
  have keep: "r \<in> set (gm_regions m)" if "r \<in> set (vec_remove i (gm_regions m))" for r
    using that by (rule in_set_vec_removeD)
  obtain origin where al: "views_aligned origin (gm_regions m @ gm_shared_reservations m)"
    using wf by (auto simp: gm_wf_def)
  define rs where "rs = vec_remove i (gm_regions m)"
  have base: "gm_wf m'" if m': "gm_regions m' = rs" "gm_store m' = gm_store m" "gm_next_identity m' = gm_next_identity m"
      "gm_shared_reservations m' = gm_shared_reservations m" "tracker_mirrors m'" for m'
    using wf m' keep ordered_disjoint_remove [OF gm_wf_order [OF wf]] al
    by (auto simp: gm_wf_def rs_def map_vec_remove views_aligned_def intro!: exI [of _ origin])
  show ?thesis
  proof (cases "gm_dirty_tracker m")
    case None
    let ?m = "m\<lparr>gm_regions := rs\<rparr>"
    have "gm_wf ?m" using None by (intro base) (simp_all add: tracker_mirrors_def)
    then have "removed m ?m rng"
      using byte_at_vec_remove [OF wf i(1), of ?m] i None by (simp add: removed_def rs_def)
    then show ?thesis using None pl pos by (simp add: remove_region_def rs_def)
  next
    case (Some t)
    have twf: "tracker_wf t" and mirror: "map dr_range (dt_regions t) = map reg_range (gm_regions m)"
      using wf Some by (auto simp: gm_wf_def tracker_mirrors_def)
    have "position (\<lambda>r. r = rng) (map dr_range (dt_regions t)) = Some i"
      unfolding mirror using pos by (subst (asm) position_map)
    note rem = tracker_remove_ranges [OF twf this]
    let ?t = "fst (tracker_remove_region t rng)"
    let ?m = "m\<lparr>gm_dirty_tracker := Some ?t, gm_regions := rs\<rparr>"
    have "gm_wf ?m"
      using tracker_remove_wf [OF twf, of rng] rem mirror
      by (intro base) (simp_all add: tracker_mirrors_def rs_def map_vec_remove)
    then have "removed m ?m rng"
      using byte_at_vec_remove [OF wf i(1), of ?m] i Some tracker_remove_is_dirty [OF twf rem(2)]
      by (simp add: removed_def rs_def)
    then show ?thesis
      using Some pl pos rem(2) by (auto simp: remove_region_def rs_def split: prod.splits)
  qed
qed

lemma remove_region_fail:
  "is_protected_lazy m \<or> position (\<lambda>r. reg_range r = rng) (gm_regions m) = None \<Longrightarrow>
   \<exists>e. remove_region m rng = (m, Err e)"
  by (auto simp: remove_region_def)

lemma enable_dirty_tracking_Ok:
  assumes wf: "gm_wf m" and "enable_dirty_tracking env m = Ok m'"
  shows "gm_wf m' \<and> gm_regions m' = gm_regions m \<and> gm_store m' = gm_store m \<and>
     (\<exists>t. gm_dirty_tracker m' = Some t \<and> (gm_dirty_tracker m = None \<longrightarrow> (\<forall>a. \<not> is_dirty t a)))"
proof (cases "gm_dirty_tracker m")
  case (Some t)
  then show ?thesis using assms by (auto simp: enable_dirty_tracking_def split: if_splits)
next
  case None
  then obtain ps t where t: "tracker_new (dirty_env (he_alloc env)) (map reg_range (gm_regions m)) ps = Ok t"
    and m': "m' = m\<lparr>gm_dirty_tracker := Some t\<rparr>"
    using assms(2) by (auto simp: enable_dirty_tracking_def result_iffs split: if_splits)
  have "\<forall>r\<in>set (map reg_range (gm_regions m)). range_wf r"
    using gm_wf_order [OF wf] ordered_disjoint_wf by blast
  note new = tracker_new_Ok [OF t this]
  have "gm_wf m'" using wf new(1,2) by (simp add: gm_wf_def m' tracker_mirrors_def)
  then show ?thesis using new(3) by (simp add: m')
qed

lemma gm_wf_append_fresh:
  assumes wf: "gm_wf m" and fr: "map_fresh env b sz m = (m', Ok i)" and rng: "range_wf rng" "sz = gmr_size rng"
    and od: "ordered_disjoint (map reg_range (gm_regions m) @ [rng])" and nt: "gm_dirty_tracker m = None"
  shows "gm_wf (m'\<lparr>gm_regions := gm_regions m' @
     [\<lparr>reg_range = rng, reg_mapping = i, reg_mapping_offset = 0, reg_host_size = sz\<rparr>]\<rparr>)"
proof -
  note f = map_fresh_wf [OF wf fr] and v = fresh_view [OF wf fr rng]
  obtain origin where al: "views_aligned origin (\<lparr>reg_range = rng, reg_mapping = i, reg_mapping_offset = 0,
      reg_host_size = sz\<rparr> # gm_regions m' @ gm_shared_reservations m')" using v by blast
  show ?thesis
    using f(1,3,5) v od nt al
    by (auto simp: gm_wf_def tracker_mirrors_def views_aligned_def intro!: exI [of _ origin])
qed

lemma allocate_regions_Ok:
  assumes "allocate_regions env rngs m = Ok m'" and "gm_wf m" and "gm_dirty_tracker m = None"
    and "ordered_disjoint (map reg_range (gm_regions m) @ rngs)"
  shows "gm_wf m' \<and> map reg_range (gm_regions m') = map reg_range (gm_regions m) @ rngs \<and> gm_dirty_tracker m' = None"
  using assms
proof (induction rngs arbitrary: m)
  case (Cons rng rngs)
  obtain m1 i where fr: "map_fresh env (gm_backing m) (gmr_size rng) m = (m1, Ok i)"
    and rest: "allocate_regions env rngs (m1\<lparr>gm_regions := gm_regions m1 @
        [\<lparr>reg_range = rng, reg_mapping = i, reg_mapping_offset = 0, reg_host_size = gmr_size rng\<rparr>]\<rparr>) = Ok m'"
    using Cons.prems(1) by (auto simp: allocation_host_size_eq split: prod.splits result.splits)
  have rng: "range_wf rng" and od: "ordered_disjoint (map reg_range (gm_regions m) @ [rng])"
    using Cons.prems(4) by (auto simp: ordered_disjoint_append)
  note f = map_fresh_wf [OF Cons.prems(2) fr]
  show ?case
    using Cons.IH [OF rest gm_wf_append_fresh [OF Cons.prems(2) fr rng refl od Cons.prems(3)]] f(3,5) Cons.prems(3,4) by simp
qed simp

lemma empty_with_backing_wf: "gm_wf (empty_with_backing n b)"
  by (simp add: empty_with_backing_def gm_wf_def tracker_mirrors_def views_aligned_def)

lemma allocate_with_mapper_Ok:
  assumes "allocate_with_mapper env l ps b n = Ok m" and "ordered_disjoint (layout_ranges l)"
  shows "gm_wf m \<and> map reg_range (gm_regions m) = layout_ranges l \<and> gm_dirty_tracker m = None"
proof -
  have "allocate_regions env (layout_ranges l) (empty_with_backing n b) = Ok m"
    using assms(1) by (auto simp: allocate_with_mapper_def result_iffs split: if_splits)
  then show ?thesis
    using allocate_regions_Ok [OF _ empty_with_backing_wf, of env "layout_ranges l" n b m] assms(2)
    by (simp add: empty_with_backing_def)
qed

lemma memory_total_size_exact:
  assumes "gm_wf m"
  shows "unat (memory_total_size m) = sum_list (map (\<lambda>r. unat (gmr_size (reg_range r))) (gm_regions m))"
  using layout_total_size_exact [of "\<lparr>layout_ranges = map reg_range (gm_regions m)\<rparr>"] gm_wf_order [OF assms]
  by (simp add: layout_total_size_def memory_total_size_def o_def)

end
