(* ===== verification/Memory_Frame.thy ===== *)
theory Memory_Frame
  imports Guest_Memory
begin

text \<open>
  What every operation of \<open>crates/runtime/src/memory.rs\<close> keeps for a holder of a retained atomic
  word (\<open>GuestMemoryAtomicU64\<close>): the extension relation between the memory before and after a call,
  that each operation extends the memory, and that a retained word stays fitted to it.
\<close>

section \<open>Extension of a guest memory\<close>

abbreviation views :: "guest_memory \<Rightarrow> guest_memory_region set" where
  "views m \<equiv> set (gm_regions m) \<union> set (gm_shared_reservations m)"

text \<open>Two views of one mapping show its bytes at the same guest addresses.\<close>

definition co_aligned :: "guest_memory_region \<Rightarrow> guest_memory_region \<Rightarrow> bool" where
  "co_aligned r q \<longleftrightarrow> unat (gmr_start (reg_range r)) + unat (reg_mapping_offset q) =
     unat (gmr_start (reg_range q)) + unat (reg_mapping_offset r)"

lemma co_aligned_refl [simp]: "co_aligned r r"
  by (simp add: co_aligned_def)

lemma co_aligned_trans: "co_aligned r q \<Longrightarrow> co_aligned q s \<Longrightarrow> co_aligned r s"
  by (simp add: co_aligned_def)

lemma gm_wf_co_aligned:
  assumes "gm_wf m" and "r \<in> views m" and "q \<in> views m" and "reg_mapping r = reg_mapping q"
  shows "co_aligned r q"
proof -
  obtain origin where "views_aligned origin (gm_regions m @ gm_shared_reservations m)"
    using assms(1) by (auto simp: gm_wf_def)
  then have "unat (gmr_start (reg_range v)) = origin (reg_mapping v) + unat (reg_mapping_offset v)" if "v \<in> views m" for v
    using that by (auto simp: views_aligned_def)
  then show ?thesis using assms(2-4) by (simp add: co_aligned_def)
qed

text \<open>
  A view a call adds shows a mapping made by that call, or a mapping of an earlier view at the same
  addresses; the mappings that were there keep their lengths.
\<close>

definition fitting :: "guest_memory \<Rightarrow> guest_memory_region \<Rightarrow> bool" where
  "fitting m r \<longleftrightarrow> gm_next_identity m \<le> reg_mapping r \<or> (\<exists>q\<in>views m. reg_mapping r = reg_mapping q \<and> co_aligned r q)"

definition same_sizes :: "guest_memory \<Rightarrow> guest_memory \<Rightarrow> bool" where
  "same_sizes m m' \<longleftrightarrow> (\<forall>i<gm_next_identity m. map_option length (gm_store m' i) = map_option length (gm_store m i))"

definition extends :: "guest_memory \<Rightarrow> guest_memory \<Rightarrow> bool" where
  "extends m m' \<longleftrightarrow> gm_next_identity m \<le> gm_next_identity m' \<and> same_sizes m m' \<and> (\<forall>r\<in>views m'. fitting m r)"

lemma fitting_view: "r \<in> views m \<Longrightarrow> fitting m r"
  by (auto simp: fitting_def)

lemma extends_subset:
  assumes "gm_next_identity m \<le> gm_next_identity m'" and "same_sizes m m'" and "\<forall>r\<in>views m'. r \<in> views m \<or> fitting m r"
  shows "extends m m'"
  using assms fitting_view by (auto simp: extends_def)

lemma extends_refl [simp]: "extends m m"
  by (rule extends_subset) (auto simp: same_sizes_def)

text \<open>Calls that only write to mappings or change the dirty log.\<close>

definition same_layout :: "guest_memory \<Rightarrow> guest_memory \<Rightarrow> bool" where
  "same_layout m m' \<longleftrightarrow> gm_regions m' = gm_regions m \<and> gm_shared_reservations m' = gm_shared_reservations m \<and>
     gm_next_identity m' = gm_next_identity m \<and> (\<forall>i. map_option length (gm_store m' i) = map_option length (gm_store m i))"

lemma same_layout_refl [simp]: "same_layout m m"
  by (simp add: same_layout_def)

lemma same_layout_trans: "same_layout m m1 \<Longrightarrow> same_layout m1 m2 \<Longrightarrow> same_layout m m2"
  by (simp add: same_layout_def)

lemma same_layout_extends: "same_layout m m' \<Longrightarrow> extends m m'"
  by (rule extends_subset) (auto simp: same_layout_def same_sizes_def)

lemma same_layout_tracker: "same_layout m (m\<lparr>gm_dirty_tracker := t\<rparr>)"
  by (simp add: same_layout_def)

lemma host_write_sizes:
  "host_write st i off bs = Some st' \<Longrightarrow> map_option length (st' j) = map_option length (st j)"
  by (auto simp: host_write_def overwrite_def split: option.splits if_splits)

lemma same_layout_host_write:
  "host_write (gm_store m) i off bs = Some st \<Longrightarrow> same_layout m (m\<lparr>gm_store := st\<rparr>)"
  by (simp add: same_layout_def host_write_sizes)

section \<open>Every operation extends the memory\<close>

lemma mark_dirty_layout: "mark_dirty m rng = Ok m' \<Longrightarrow> same_layout m m'"
  by (auto simp: mark_dirty_def result_iffs same_layout_tracker split: option.splits)

lemma write_regions_sizes:
  "write_regions st rs bs cur e = (st', r) \<Longrightarrow> map_option length (st' j) = map_option length (st j)"
proof (induction st rs bs cur e rule: write_regions.induct)
  case (2 st region regions remaining current end')
  then show ?case
    by (auto split: if_splits result.splits option.splits dest!: host_write_sizes [where j = j])
qed simp

lemma write_slice_layout:
  assumes "write_slice m bs a = (m', r)"
  shows "same_layout m m'"
proof (cases "\<exists>rng m1. access_range a (of_nat (length bs)) = Ok (Some rng) \<and>
    and_then (validate_mapped_range m rng) (\<lambda>_. mark_dirty m rng) = Ok m1")
  case True
  then obtain rng m1 where ok: "access_range a (of_nat (length bs)) = Ok (Some rng)"
      "and_then (validate_mapped_range m rng) (\<lambda>_. mark_dirty m rng) = Ok m1" by blast
  have m1: "same_layout m m1" using ok(2) mark_dirty_layout by (auto simp: and_then_Ok_iff)
  obtain st r' where wr: "write_regions (gm_store m1) (gm_regions m1) bs (gmr_start rng) (gmr_end_exclusive rng) = (st, r')"
    by fastforce
  have "same_layout m1 (m1\<lparr>gm_store := st\<rparr>)" using write_regions_sizes [OF wr] by (simp add: same_layout_def)
  then show ?thesis using assms ok wr same_layout_trans [OF m1] by (auto simp: write_slice_def)
next
  case False
  then have "m' = m" using assms by (auto simp: write_slice_def split: result.splits option.splits)
  then show ?thesis by simp
qed

lemma store_le_layout:
  assumes "store_le m l v = (m', r)"
  shows "same_layout m m'"
proof (cases "if au_tracked l then mark_dirty m (au_range l) else Ok m")
  case (Ok m1)
  then have m1: "same_layout m m1" using mark_dirty_layout by (auto split: if_splits)
  show ?thesis
    using assms Ok m1 same_layout_trans [OF m1 same_layout_host_write]
    by (auto simp: store_le_def split: option.splits)
qed (use assms in \<open>auto simp: store_le_def\<close>)

lemma enable_layout: "enable_dirty_tracking env m = Ok m' \<Longrightarrow> same_layout m m'"
  by (auto simp: enable_dirty_tracking_def result_iffs same_layout_tracker split: if_splits option.splits)

lemma reclaim_block_layout: "reclaim_block host m i off sz = (m', r) \<Longrightarrow> same_layout m m'"
  by (auto simp: reclaim_block_def Let_def same_layout_host_write split: prod.splits if_splits option.splits)

lemma discard_advice_layout:
  assumes "discard_advice host m r ms start sz = (m', res)"
  shows "same_layout m m'"
  using assms
  by (auto simp: discard_advice_def result_iffs same_layout_tracker split: if_splits result.splits option.splits
      dest!: reclaim_block_layout intro: same_layout_trans [OF same_layout_tracker])

lemma discard_region_step_layout:
  assumes "discard_region_step host ps rng r (m, out) = (m', out')"
  shows "same_layout m m'"
  using assms
  by (auto simp: discard_region_step_def Let_def split: if_splits result.splits option.splits prod.splits
      dest!: discard_advice_layout)

lemma discard_fold_layout:
  "fold (discard_region_step host ps rng) rs (m, out) = (m', out') \<Longrightarrow> same_layout m m'"
proof (induction rs arbitrary: m out)
  case (Cons r rs)
  obtain m1 out1 where s: "discard_region_step host ps rng r (m, out) = (m1, out1)" by fastforce
  then show ?case
    using Cons same_layout_trans [OF discard_region_step_layout [OF s]] by simp
qed simp

lemma discard_range_layout:
  assumes "discard_range host m rng = (m', out)"
  shows "same_layout m m'"
  using assms
  by (auto simp: discard_range_def Let_def split: if_splits sum.splits dest!: discard_fold_layout)

text \<open>A fresh mapping takes the next identity; the views stay.\<close>

lemma map_fresh_layout:
  assumes "map_fresh env b sz m = (m', r)"
  shows "gm_next_identity m \<le> gm_next_identity m'" and "same_sizes m m'" and "views m' = views m"
    and "r = Ok i \<Longrightarrow> i = gm_next_identity m"
proof -
  have "gm_next_identity m \<le> gm_next_identity m' \<and> same_sizes m m' \<and> views m' = views m \<and> (r = Ok i \<longrightarrow> i = gm_next_identity m)"
  proof (cases "is_ok r")
    case True
    then obtain j where r: "r = Ok j" by (auto simp: is_ok_iff)
    show ?thesis
      by (rule map_fresh_Ok [OF assms [unfolded r]]) (auto simp: r same_sizes_def word_nat)
  next
    case False
    then have "r \<noteq> Ok i" by auto
    with False show ?thesis by (elim map_fresh_fail [OF assms]) (auto simp: same_sizes_def)
  qed
  then show "gm_next_identity m \<le> gm_next_identity m'" "same_sizes m m'" "views m' = views m"
    "r = Ok i \<Longrightarrow> i = gm_next_identity m" by blast+
qed

lemma map_fresh_extends: "map_fresh env b sz m = (m', r) \<Longrightarrow> extends m m'"
  using map_fresh_layout by (intro extends_subset) auto

lemma insert_prepared_extends:
  assumes "extends m m1" and "fitting m r" and "insert_prepared_region env m1 i r = (m', res)"
  shows "extends m m'"
proof -
  have "gm_next_identity m' = gm_next_identity m1 \<and> gm_store m' = gm_store m1 \<and> views m' \<subseteq> insert r (views m1)"
    using assms(3) by (auto simp: insert_prepared_region_def split: if_splits option.splits result.splits)
  then show ?thesis using assms(1,2) by (auto simp: extends_def same_sizes_def)
qed

lemma reservation_view_fitting:
  assumes "gm_wf m" and "q \<in> set (gm_shared_reservations m)" and "reservation_view m q rng = Ok r"
  shows "fitting m r"
proof -
  have "gmr_start (reg_range q) \<le> gmr_start rng"
    "r = \<lparr>reg_range = rng, reg_mapping = reg_mapping q, reg_mapping_offset = gmr_start rng - gmr_start (reg_range q),
          reg_host_size = gmr_size rng\<rparr>"
    using assms(3)
    by (auto simp: reservation_view_def result_iffs sub_or_panic_def allocation_host_size_eq split: if_splits)
  moreover have "reg_mapping_offset q = 0" using assms(1,2) by (auto simp: gm_wf_def)
  ultimately have "reg_mapping r = reg_mapping q \<and> co_aligned r q" by (simp add: co_aligned_def word_nat)
  then show ?thesis using assms(2) by (auto simp: fitting_def)
qed

lemma insert_with_mapper_extends:
  assumes "insert_region_with_mapper env m rng ps = (m', res)"
  shows "extends m m'"
proof (cases "\<exists>i sz. validate_insert_region m rng ps = Ok i \<and> validate_allocation_range rng ps = Ok sz")
  case True
  then obtain i sz where ok: "validate_insert_region m rng ps = Ok i" "validate_allocation_range rng ps = Ok sz" by blast
  obtain m1 r1 where m1: "map_fresh env (gm_backing m) sz m = (m1, r1)" by fastforce
  show ?thesis
  proof (cases r1)
    case (Ok j)
    then have "fitting m \<lparr>reg_range = rng, reg_mapping = j, reg_mapping_offset = 0, reg_host_size = sz\<rparr>"
      using map_fresh_layout(4) [OF m1] by (simp add: fitting_def)
    then show ?thesis
      using assms ok m1 Ok insert_prepared_extends [OF map_fresh_extends [OF m1]]
      by (simp add: insert_region_with_mapper_def allocate_region_with_mapper_def)
  qed (use assms ok m1 map_fresh_extends [OF m1] in
      \<open>auto simp: insert_region_with_mapper_def allocate_region_with_mapper_def\<close>)
next
  case False
  then have "m' = m"
    using assms by (auto simp: insert_region_with_mapper_def allocate_region_with_mapper_def split: result.splits)
  then show ?thesis by simp
qed

lemma insert_region_extends:
  assumes "gm_wf m" and "insert_region env m rng = (m', res)"
  shows "extends m m'"
proof (cases "shared_reservation_containing m rng")
  case None
  then show ?thesis
    using assms(2) insert_with_mapper_extends by (auto simp: insert_region_def split: if_splits result.splits)
next
  case (Some q)
  then have q: "q \<in> set (gm_shared_reservations m)" by (auto simp: shared_reservation_containing_def find_Some_iff)
  show ?thesis
    using assms(2) Some insert_prepared_extends [OF extends_refl reservation_view_fitting [OF assms(1) q]]
    by (auto simp: insert_region_def split: if_splits result.splits)
qed

lemma reserve_extends:
  assumes "reserve_shared_region env m rng = (m', res)"
  shows "extends m m'"
proof -
  have "extends m (m1\<lparr>gm_shared_reservations := vec_insert k
      \<lparr>reg_range = rng, reg_mapping = j, reg_mapping_offset = 0, reg_host_size = sz\<rparr> (gm_shared_reservations m1)\<rparr>)"
    if "map_fresh env Shared sz m = (m1, Ok j)" for m1 j sz k
  proof -
    have "fitting m \<lparr>reg_range = rng, reg_mapping = j, reg_mapping_offset = 0, reg_host_size = sz\<rparr>"
      using map_fresh_layout(4) [OF that] by (simp add: fitting_def)
    then show ?thesis using map_fresh_extends [OF that] by (auto simp: extends_def same_sizes_def)
  qed
  then show ?thesis
    using assms map_fresh_extends
    by (auto simp: reserve_shared_region_def Let_def split: if_splits result.splits prod.splits)
qed

lemma remove_extends:
  assumes "remove_region m rng = (m', res)"
  shows "extends m m'"
proof -
  have "gm_next_identity m' = gm_next_identity m \<and> gm_store m' = gm_store m \<and> views m' \<subseteq> views m"
    using assms by (auto simp: remove_region_def split: if_splits option.splits prod.splits dest: in_set_vec_removeD)
  then show ?thesis by (intro extends_subset) (auto simp: same_sizes_def)
qed

section \<open>Retained atomic words\<close>

text \<open>A retained word is a view of eight bytes that need not belong to a region any more.\<close>

definition lease_view :: "atomic_u64_lease \<Rightarrow> guest_memory_region" where
  "lease_view l = \<lparr>reg_range = au_range l, reg_mapping = au_mapping l, reg_mapping_offset = au_mapping_offset l, reg_host_size = 8\<rparr>"

definition lease_fits :: "guest_memory \<Rightarrow> atomic_u64_lease \<Rightarrow> bool" where
  "lease_fits m l \<longleftrightarrow> view_valid (gm_store m) (lease_view l) \<and> au_mapping l < gm_next_identity m \<and>
     (\<forall>r\<in>views m. reg_mapping r = au_mapping l \<longrightarrow> co_aligned r (lease_view l))"

lemma extends_lease:
  assumes "extends m m'" and "lease_fits m l"
  shows "lease_fits m' l"
proof -
  have "map_option length (gm_store m' (au_mapping l)) = map_option length (gm_store m (au_mapping l))"
    using assms by (simp add: extends_def same_sizes_def lease_fits_def)
  then have "view_valid (gm_store m') (lease_view l)"
    using assms(2) by (auto simp: lease_fits_def view_valid_def lease_view_def)
  moreover have "co_aligned r (lease_view l)" if r: "r \<in> views m'" "reg_mapping r = au_mapping l" for r
  proof -
    have "\<not> gm_next_identity m \<le> reg_mapping r" using assms(2) r(2) by (simp add: lease_fits_def not_le)
    moreover have "fitting m r" using assms(1) r(1) unfolding extends_def by blast
    ultimately obtain q where "q \<in> views m" "reg_mapping q = au_mapping l" "co_aligned r q"
      using r(2) unfolding fitting_def by metis
    then show ?thesis using assms(2) co_aligned_trans [of r q] unfolding lease_fits_def by blast
  qed
  moreover have "au_mapping l < gm_next_identity m'"
    using assms by (simp add: lease_fits_def extends_def) (metis order_less_le_trans)
  ultimately show ?thesis by (simp add: lease_fits_def)
qed

end
