(* ===== verification/Memory_Properties.thy ===== *)
theory Memory_Properties
  imports Memory_Frame
begin

text \<open>
  The contract of guest memory towards the devices, as the locale \<open>byte_memory\<close>, its
  interpretation by \<open>Guest_Memory\<close>, atomic words, discard, and the properties of
  \<open>crates/runtime/src/memory.rs\<close> and \<open>memory_dirty.rs\<close> together: the step relation of a running
  machine's memory, soundness of the dirty log and completeness of differential snapshots.
\<close>

section \<open>The byte-memory contract\<close>

definition readable :: "('m \<Rightarrow> guest_address \<Rightarrow> u8 option) \<Rightarrow> 'm \<Rightarrow> guest_address \<Rightarrow> nat \<Rightarrow> bool" where
  "readable byte m a n \<longleftrightarrow> unat a + n < 2 ^ 64 \<and> (\<forall>i<n. byte m (a + of_nat i) \<noteq> None)"

definition bytes_at :: "('m \<Rightarrow> guest_address \<Rightarrow> u8 option) \<Rightarrow> 'm \<Rightarrow> guest_address \<Rightarrow> nat \<Rightarrow> u8 list" where
  "bytes_at byte m a n = map (\<lambda>i. the (byte m (a + of_nat i))) [0..<n]"

locale byte_memory =
  fixes invar :: "'m \<Rightarrow> bool"
    and byte :: "'m \<Rightarrow> guest_address \<Rightarrow> u8 option"
    and load :: "'m \<Rightarrow> u8 list \<Rightarrow> guest_address \<Rightarrow> u8 list \<times> (unit, 'e) result"
    and store :: "'m \<Rightarrow> u8 list \<Rightarrow> guest_address \<Rightarrow> 'm \<times> (unit, 'e) result"
  assumes read_ok: "invar m \<Longrightarrow> readable byte m a (length dest) \<Longrightarrow>
        load m dest a = (bytes_at byte m a (length dest), Ok ())"
    and read_err: "invar m \<Longrightarrow> length dest < 2 ^ 64 \<Longrightarrow> dest \<noteq> [] \<Longrightarrow> \<not> readable byte m a (length dest) \<Longrightarrow>
        \<exists>e. load m dest a = (dest, Err e)"
    and write_ok: "invar m \<Longrightarrow> bs \<noteq> [] \<Longrightarrow> readable byte m a (length bs) \<Longrightarrow>
        \<exists>m'. store m bs a = (m', Ok ()) \<and> invar m' \<and>
          (\<forall>x. byte m' x = (if in_slice a (length bs) x then Some (bs ! (unat x - unat a)) else byte m x))"
    and write_err: "invar m \<Longrightarrow> length bs < 2 ^ 64 \<Longrightarrow> bs \<noteq> [] \<Longrightarrow> \<not> readable byte m a (length bs) \<Longrightarrow>
        \<exists>e. store m bs a = (m, Err e)"
begin

lemma write_Ok:
  assumes "invar m" and "length bs < 2 ^ 64" and "bs \<noteq> []" and "store m bs a = (m', Ok ())"
  shows "readable byte m a (length bs)" and "invar m'"
    and "byte m' x = (if in_slice a (length bs) x then Some (bs ! (unat x - unat a)) else byte m x)"
proof -
  show r: "readable byte m a (length bs)"
    using write_err [OF assms(1-3)] assms(4) by fastforce
  show "invar m'" "byte m' x = (if in_slice a (length bs) x then Some (bs ! (unat x - unat a)) else byte m x)"
    using write_ok [OF assms(1,3) r] assms(4) by auto
qed

lemma write_not_Panic:
  assumes "invar m" and "length bs < 2 ^ 64" and "bs \<noteq> []"
  shows "snd (store m bs a) \<noteq> Panic"
  using write_ok [OF assms(1,3)] write_err [OF assms] by (cases "readable byte m a (length bs)") fastforce+

lemma read_not_Panic:
  assumes "invar m" and "length dest < 2 ^ 64" and "dest \<noteq> []"
  shows "snd (load m dest a) \<noteq> Panic"
  using read_ok [OF assms(1)] read_err [OF assms] by (cases "readable byte m a (length dest)") fastforce+

lemma read_Ok:
  assumes "invar m" and "length dest < 2 ^ 64" and "dest \<noteq> []" and "load m dest a = (bs, Ok ())"
  shows "readable byte m a (length dest)" and "bs = bytes_at byte m a (length dest)"
proof -
  show r: "readable byte m a (length dest)"
    using read_err [OF assms(1-3)] assms(4) by fastforce
  show "bs = bytes_at byte m a (length dest)"
    using read_ok [OF assms(1) r] assms(4) by simp
qed

lemma write_keeps_readable:
  assumes "invar m" and "length bs < 2 ^ 64" and "bs \<noteq> []" and "store m bs a = (m', Ok ())"
  shows "readable byte m' b n \<longleftrightarrow> readable byte m b n"
proof -
  have "byte m' x = None \<longleftrightarrow> byte m x = None" for x
  proof (cases "in_slice a (length bs) x")
    case True
    then have "x = a + of_nat (unat x - unat a)" "unat x - unat a < length bs"
      using write_Ok(1) [OF assms] by (auto simp: in_slice_def)
    then have "byte m x \<noteq> None" using write_Ok(1) [OF assms] unfolding readable_def by metis
    then show ?thesis using True write_Ok(3) [OF assms, of x] by simp
  qed (use write_Ok(3) [OF assms] in simp)
  then show ?thesis by (simp add: readable_def)
qed

lemma bytes_at_write_disjoint:
  assumes "invar m" and "length bs < 2 ^ 64" and "bs \<noteq> []" and "store m bs a = (m', Ok ())"
    and "unat b + n \<le> unat a \<or> unat a + length bs \<le> unat b" and "unat b + n < 2 ^ 64"
  shows "bytes_at byte m' b n = bytes_at byte m b n"
proof -
  have "byte m' (b + of_nat i) = byte m (b + of_nat i)" if "i < n" for i
  proof -
    have "unat (b + of_nat i) = unat b + i" using that assms(6) by (intro unat_add_of_nat) simp
    then show ?thesis using write_Ok(3) [OF assms(1-4)] assms(5) that by (auto simp: in_slice_def)
  qed
  then show ?thesis by (simp add: bytes_at_def)
qed

lemma bytes_at_write_same:
  assumes "invar m" and "length bs < 2 ^ 64" and "bs \<noteq> []" and "store m bs a = (m', Ok ())"
  shows "bytes_at byte m' a (length bs) = bs"
proof -
  have "byte m' (a + of_nat i) = Some (bs ! i)" if "i < length bs" for i
  proof -
    have "unat (a + of_nat i) = unat a + i"
      using that write_Ok(1) [OF assms] by (intro unat_add_of_nat) (simp add: readable_def)
    then show ?thesis using write_Ok(3) [OF assms] that by (simp add: in_slice_def)
  qed
  then show ?thesis by (auto simp: bytes_at_def intro: nth_equalityI)
qed

end

lemma is_mapped_iff_byte:
  assumes "gm_wf m"
  shows "is_mapped m a \<longleftrightarrow> byte_at m a \<noteq> None"
proof (cases "is_mapped m a")
  case True
  then obtain r where r: "r \<in> set (gm_regions m)" "contains (reg_range r) a" by (auto simp: is_mapped_def)
  have "view_valid (gm_store m) r" using gm_wf_view [OF assms, of r] r(1) by simp
  then show ?thesis
    using True byte_at_region [OF gm_wf_order [OF assms] r] view_valid_byte r(2) by simp
qed (use byte_at_unmapped in simp)

lemma slice_mapped_readable: "gm_wf m \<Longrightarrow> slice_mapped m a n \<longleftrightarrow> readable byte_at m a n"
  by (simp add: slice_mapped_def readable_def is_mapped_iff_byte)

interpretation ram: byte_memory gm_wf byte_at read_slice write_slice
proof (unfold_locales, goal_cases)
  case (1 m a dest)
  then show ?case using read_slice_mapped [of m a dest] by (simp add: slice_mapped_readable bytes_at_def)
next
  case (2 m dest a)
  then show ?case using read_slice_unmapped [of m dest a] by (simp add: slice_mapped_readable)
next
  case (3 m bs a)
  then have "slice_mapped m a (length bs)" by (simp add: slice_mapped_readable)
  then show ?case using write_slice_mapped [OF 3(1,2)] by metis
next
  case (4 m bs a)
  then show ?case using write_slice_unmapped [of m bs a] by (simp add: slice_mapped_readable)
qed

section \<open>Writes to one block of a region\<close>

lemma block_writes_exactly:
  assumes wf: "gm_wf m" and r: "r \<in> set (gm_regions m)" and g: "contains (reg_range r) g"
    and n: "unat g + length bs \<le> unat (gmr_end_exclusive (reg_range r))"
    and hw: "host_write (gm_store m) (reg_mapping r) (host_index r g) bs = Some st"
  shows "writes_exactly (gm_store m) st (gm_regions m) bs g (g + of_nat (length bs))"
proof -
  have lt: "unat g + length bs < 2 ^ 64"
    using n unat_bound64 [of "gmr_end_exclusive (reg_range r)"] by simp
  have ue: "unat (g + of_nat (length bs)) = unat g + length bs" using lt by (intro unat_add_of_nat) simp
  have in_r: "contains (reg_range r) a" if "g \<le> a" "a < g + of_nat (length bs)" for a
    using that g n ue by (auto simp: contains_def word_nat)
  have idx: "host_index r a = host_index r g + (unat a - unat g)" if "g \<le> a" for a
    using that g by (simp add: host_index_def contains_def word_nat)
  have uniq: "q = r" if "q \<in> set (gm_regions m)" "contains (reg_range q) a" "contains (reg_range r) a" for q a
  proof -
    have "reg_range q = reg_range r"
      using ordered_disjoint_unique [OF gm_wf_order [OF wf], of "reg_range q" "reg_range r" a] that r by auto
    then show ?thesis
      using ordered_disjoint_distinct [OF gm_wf_order [OF wf]] that(1) r by (auto simp: distinct_map dest: inj_onD)
  qed
  have hit: "host_byte st (reg_mapping q) (host_index q a) = Some (bs ! (unat a - unat g))"
    if "q \<in> set (gm_regions m)" "contains (reg_range q) a" "g \<le> a" "a < g + of_nat (length bs)" for q a
    using uniq [OF that(1,2) in_r [OF that(3,4)]] that ue idx [OF that(3)]
    by (auto simp: host_byte_write [OF hw] word_nat)
  have frame: "host_byte st i k = host_byte (gm_store m) i k"
    if no: "\<forall>q\<in>set (gm_regions m). \<forall>a. contains (reg_range q) a \<and> g \<le> a \<and> a < g + of_nat (length bs) \<longrightarrow>
        \<not> (reg_mapping q = i \<and> host_index q a = k)" for i k
  proof -
    have "\<not> (i = reg_mapping r \<and> host_index r g \<le> k \<and> k < host_index r g + length bs)"
    proof
      assume h: "i = reg_mapping r \<and> host_index r g \<le> k \<and> k < host_index r g + length bs"
      define a where "a = g + of_nat (k - host_index r g)"
      have "unat a = unat g + (k - host_index r g)"
        unfolding a_def using h lt by (intro unat_add_of_nat) auto
      then have "g \<le> a" "a < g + of_nat (length bs)" "host_index r a = k"
        using h ue idx [of a] by (auto simp: word_nat)
      then show False using no r in_r h by blast
    qed
    then show ?thesis by (auto simp: host_byte_write [OF hw])
  qed
  show ?thesis
    unfolding writes_exactly_def using hit frame host_write_valid [OF hw] by blast
qed

lemma block_write:
  assumes wf: "gm_wf m" and r: "r \<in> set (gm_regions m)" and g: "contains (reg_range r) g"
    and n: "unat g + length bs \<le> unat (gmr_end_exclusive (reg_range r))"
  obtains st where "host_write (gm_store m) (reg_mapping r) (host_index r g) bs = Some st"
    and "gm_wf (m\<lparr>gm_store := st\<rparr>)"
    and "\<And>x. byte_at (m\<lparr>gm_store := st\<rparr>) x =
       (if in_slice g (length bs) x then Some (bs ! (unat x - unat g)) else byte_at m x)"
    and "\<And>i. map_option length (st i) = map_option length (gm_store m i)"
proof -
  have v: "view_valid (gm_store m) r" using gm_wf_view [OF wf, of r] r by simp
  obtain st where hw: "host_write (gm_store m) (reg_mapping r) (host_index r g) bs = Some st"
    using view_host_write [OF v g n] g by (auto simp: host_index_def contains_def)
  note we = block_writes_exactly [OF wf r g n hw]
  have lt: "unat g + length bs < 2 ^ 64"
    using n unat_bound64 [of "gmr_end_exclusive (reg_range r)"] by simp
  have "is_mapped m x" if "in_slice g (length bs) x" for x
    using that g n r unfolding is_mapped_def
    by (intro bexI [of _ r]) (auto simp: in_slice_def contains_def word_nat)
  then have "\<And>x. byte_at (m\<lparr>gm_store := st\<rparr>) x =
       (if in_slice g (length bs) x then Some (bs ! (unat x - unat g)) else byte_at m x)"
    using byte_at_writes [OF wf we lt] by blast
  moreover have "gm_wf (m\<lparr>gm_store := st\<rparr>)"
    using we by (intro gm_wf_store [OF wf]) (simp add: writes_exactly_def)
  moreover have "map_option length (st i) = map_option length (gm_store m i)" for i
    using hw by (auto simp: host_write_def split: option.splits if_splits)
  ultimately show thesis using hw that by blast
qed

section \<open>Discard\<close>

text \<open>The operating system places every mapping above address zero and inside the address space.\<close>

definition host_in_space :: "discard_host \<Rightarrow> guest_memory \<Rightarrow> bool" where
  "host_in_space host m \<longleftrightarrow>
     (\<forall>i bs. gm_store m i = Some bs \<longrightarrow> 0 < unat (dh_base host i) \<and> unat (dh_base host i) + length bs < 2 ^ 64)"

definition memory_dirty :: "guest_memory \<Rightarrow> guest_address \<Rightarrow> bool" where
  "memory_dirty m a \<longleftrightarrow> (\<exists>t. gm_dirty_tracker m = Some t \<and> is_dirty t a)"

definition discard_effect :: "guest_memory \<Rightarrow> guest_memory \<Rightarrow> guest_memory_range \<Rightarrow> bool" where
  "discard_effect m m' rng \<longleftrightarrow>
     gm_wf m' \<and> gm_regions m' = gm_regions m \<and>
     (gm_dirty_tracker m' = None \<longleftrightarrow> gm_dirty_tracker m = None) \<and>
     (\<forall>i. map_option length (gm_store m' i) = map_option length (gm_store m i)) \<and>
     (\<forall>a. memory_dirty m a \<longrightarrow> memory_dirty m' a) \<and>
     (\<forall>a. byte_at m' a \<noteq> byte_at m a \<longrightarrow> contains rng a \<and> byte_at m' a = Some 0 \<and>
        (gm_dirty_tracker m \<noteq> None \<longrightarrow> memory_dirty m' a))"

lemma discard_effect_refl: "gm_wf m \<Longrightarrow> discard_effect m m rng"
  by (simp add: discard_effect_def)

lemma discard_effect_trans:
  assumes "discard_effect m m1 rng" and "discard_effect m1 m2 rng"
  shows "discard_effect m m2 rng"
proof -
  have "contains rng a \<and> byte_at m2 a = Some 0 \<and> (gm_dirty_tracker m \<noteq> None \<longrightarrow> memory_dirty m2 a)"
    if "byte_at m2 a \<noteq> byte_at m a" for a
    using assms that unfolding discard_effect_def by metis
  then show ?thesis using assms by (simp add: discard_effect_def)
qed

lemma host_in_space_effect:
  assumes "host_in_space host m" and "discard_effect m m' rng"
  shows "host_in_space host m'"
  unfolding host_in_space_def
proof (intro allI impI)
  fix i bs assume "gm_store m' i = Some bs"
  moreover have "map_option length (gm_store m' i) = map_option length (gm_store m i)"
    using assms(2) by (simp add: discard_effect_def)
  ultimately obtain bs0 where "gm_store m i = Some bs0" "length bs0 = length bs" by (auto simp: map_option_case split: option.splits)
  then show "0 < unat (dh_base host i) \<and> unat (dh_base host i) + length bs < 2 ^ 64"
    using assms(1) by (force simp: host_in_space_def)
qed

lemma mark_dirty_effect:
  assumes wf: "gm_wf m" and mk: "mark_range t rng = Ok t'" and t: "gm_dirty_tracker m = Some t" and rng: "range_wf rng"
  defines "m' \<equiv> m\<lparr>gm_dirty_tracker := Some t'\<rparr>"
  shows "gm_wf m'" and "byte_at m' a = byte_at m a" and "memory_dirty m a \<Longrightarrow> memory_dirty m' a"
    and "contains rng a \<Longrightarrow> memory_dirty m' a"
proof -
  have twf: "tracker_wf t" using wf t by (simp add: gm_wf_def tracker_mirrors_def)
  have tr: "\<forall>x. contains rng x \<longrightarrow> is_tracked t x" using mark_range_Ok_iff [OF twf rng] mk by simp
  show "gm_wf m'"
    using wf t mark_range_wf [OF twf mk] mark_range_ranges [OF mk]
    by (simp add: gm_wf_def tracker_mirrors_def m'_def)
  show "byte_at m' a = byte_at m a" by (rule byte_at_cong) (simp_all add: m'_def)
  show "memory_dirty m a \<Longrightarrow> memory_dirty m' a" "contains rng a \<Longrightarrow> memory_dirty m' a"
    using mark_range_is_dirty [OF twf mk, of a] t tr by (auto simp: memory_dirty_def m'_def)
qed

lemma reclaim_block_effect:
  assumes wf: "gm_wf m" and r: "r \<in> set (gm_regions m)" and g: "contains (reg_range r) g" and sz: "0 < unat sz"
    and n: "unat g + unat sz \<le> unat (gmr_end_exclusive (reg_range r))" and off: "unat off = host_index r g"
    and rc: "reclaim_block host m (reg_mapping r) off sz = (m', res)"
    and dirty: "gm_dirty_tracker m \<noteq> None \<Longrightarrow> \<forall>x. in_slice g (unat sz) x \<longrightarrow> memory_dirty m x"
    and rng: "\<forall>x. in_slice g (unat sz) x \<longrightarrow> contains rng x"
  shows "discard_effect m m' rng \<and> res \<noteq> Panic"
proof -
  obtain z f where zf: "dh_reclaim host (reg_mapping r) off sz = (z, f)" by fastforce
  obtain st where st: "host_write (gm_store m) (reg_mapping r) (host_index r g) (replicate (unat sz) 0) = Some st"
    "gm_wf (m\<lparr>gm_store := st\<rparr>)"
    "\<And>x. byte_at (m\<lparr>gm_store := st\<rparr>) x = (if in_slice g (unat sz) x then Some (replicate (unat sz) 0 ! (unat x - unat g)) else byte_at m x)"
    "\<And>i. map_option length (st i) = map_option length (gm_store m i)"
    using block_write [OF wf r g, of "replicate (unat sz) 0"] n by auto
  show ?thesis
  proof (cases z)
    case False
    then show ?thesis using rc zf discard_effect_refl [OF wf] by (auto simp: reclaim_block_def split: option.splits)
  next
    case True
    then have m': "m' = m\<lparr>gm_store := st\<rparr>" and np: "res \<noteq> Panic"
      using rc zf st(1) off by (auto simp: reclaim_block_def split: option.splits)
    have "memory_dirty m' x = memory_dirty m x" for x by (simp add: memory_dirty_def m')
    then have "discard_effect m m' rng"
      unfolding discard_effect_def using st dirty rng by (auto simp: m' in_slice_def)
    then show ?thesis using np by blast
  qed
qed

lemma mark_range_not_Panic [simp]: "mark_range t rng \<noteq> Panic"
  by (simp add: mark_range_def validate_tracked_range_def result_iffs)

lemma discard_advice_effect:
  assumes wf: "gm_wf m" and r: "r \<in> set (gm_regions m)"
    and ms: "ms \<le> as" "as \<noteq> 0" and sz: "0 < unat sz"
    and bound: "unat (as - ms) + unat sz \<le> unat (gmr_size (reg_range r))"
    and rng: "\<And>x. unat (gmr_start (reg_range r)) + unat (as - ms) \<le> unat x \<Longrightarrow>
        unat x < unat (gmr_start (reg_range r)) + unat (as - ms) + unat sz \<Longrightarrow> contains rng x"
    and res: "discard_advice host m r ms as sz = (m', res)"
  shows "discard_effect m m' rng \<and> res \<noteq> Panic"
proof -
  have v: "view_valid (gm_store m) r" using gm_wf_view [OF wf, of r] r by simp
  let ?d = "as - ms" and ?g = "gmr_start (reg_range r) + (as - ms)"
  have re: "unat (gmr_end_exclusive (reg_range r)) = unat (gmr_start (reg_range r)) + unat (gmr_size (reg_range r))"
    using v by (simp add: view_valid_def range_wf_def)
  have lt: "unat (gmr_start (reg_range r)) + unat ?d + unat sz < 2 ^ 64"
    using bound re unat_bound64 [of "gmr_end_exclusive (reg_range r)"] by simp
  have ug: "unat ?g = unat (gmr_start (reg_range r)) + unat ?d"
    using lt by (intro unat_add_no_overflow) simp
  have g: "contains (reg_range r) ?g"
    using ug bound sz re by (simp add: contains_def word_nat)
  have n: "unat ?g + unat sz \<le> unat (gmr_end_exclusive (reg_range r))" using ug bound re by simp
  have rw: "range_wf (slice_range ?g (unat sz))" "contains (slice_range ?g (unat sz)) x \<longleftrightarrow> in_slice ?g (unat sz) x" for x
    using slice_range_wf [OF sz, of ?g] ug lt by auto
  have gs: "checked_add (gmr_start (reg_range r)) ?d = Some ?g"
    by (simp only: checked_add_Some_iff ug)
  have rn: "range_new ?g sz = Ok (slice_range ?g (unat sz))"
    using rw(1) by (simp add: range_new_Ok_iff) (simp add: slice_range_def)
  have in_rng: "\<forall>x. in_slice ?g (unat sz) x \<longrightarrow> contains rng x"
    using rng ug by (auto simp: in_slice_def)
  have oi: "unat (reg_mapping_offset r) + unat ?d = host_index r ?g"
    using ug by (simp add: host_index_def)
  have fin: "discard_effect m1 m2 rng \<and> rs \<noteq> Panic"
    if m1: "gm_wf m1" "gm_regions m1 = gm_regions m"
      and dirty: "gm_dirty_tracker m1 \<noteq> None \<Longrightarrow> \<forall>x. in_slice ?g (unat sz) x \<longrightarrow> memory_dirty m1 x"
      and run: "(case checked_add (reg_mapping_offset r) ?d of None \<Rightarrow> (m1, Err HostAddress)
         | Some mo \<Rightarrow> reclaim_block host m1 (reg_mapping r) mo sz) = (m2, rs)" for m1 m2 rs
  proof (cases "checked_add (reg_mapping_offset r) ?d")
    case None
    then show ?thesis using run discard_effect_refl [OF m1(1)] by auto
  next
    case (Some mo)
    then have "unat mo = host_index r ?g" using oi by (simp only: checked_add_Some_iff)
    then show ?thesis
      using Some run reclaim_block_effect [OF m1(1) _ g sz n _ _ dirty in_rng] r m1(2) by simp
  qed
  show ?thesis
  proof (cases "gm_dirty_tracker m")
    case None
    then show ?thesis using res ms(2) fin [OF wf refl] by (simp add: discard_advice_def)
  next
    case (Some t)
    show ?thesis
    proof (cases "mark_range t (slice_range ?g (unat sz))")
      case (Ok t')
      let ?m1 = "m\<lparr>gm_dirty_tracker := Some t'\<rparr>"
      note eff = mark_dirty_effect [OF wf Ok Some rw(1)]
      have "discard_effect ?m1 m' rng \<and> res \<noteq> Panic"
        using res Some Ok gs rn ms(2) eff(4) rw(2)
        by (intro fin [OF eff(1)]) (simp_all add: discard_advice_def)
      moreover have "discard_effect m ?m1 rng"
        using eff(1-3) Some by (simp add: discard_effect_def)
      ultimately show ?thesis using discard_effect_trans by blast
    qed (use res Some gs rn ms(2) discard_effect_refl [OF wf] in \<open>auto simp: discard_advice_def\<close>)
  qed
qed

lemma align_up_usize_eq: "is_power_of_two al \<Longrightarrow> align_up_usize v al = align_up v al"
  by (auto simp: align_up_usize_def align_up_def is_power_of_two_def checked_sub_def word_nat Let_def
      unat_eq_zero Suc_le_eq unat_gt_0 split: option.splits)

lemma align_down_le: "align_down_usize v al \<le> v"
  by (simp add: align_down_usize_def word_and_le2)

definition accounted :: "discard_outcome \<Rightarrow> nat" where
  "accounted out = unat (do_advised_bytes out) + unat (do_skipped_bytes out) + unat (do_failed_bytes out)"

lemma accounted_record:
  "accounted out + unat n < 2 ^ 64 \<Longrightarrow> accounted (record_skipped out n) = accounted out + unat n"
  "accounted out + unat n < 2 ^ 64 \<Longrightarrow> accounted (record_advised out n) = accounted out + unat n"
  "accounted out + unat n < 2 ^ 64 \<Longrightarrow> accounted (record_failed out n k) = accounted out + unat n"
  by (auto simp: accounted_def record_skipped_def record_advised_def record_failed_def unat_saturating_add)

lemma record_requested [simp]:
  "do_requested_bytes (record_skipped out n) = do_requested_bytes out"
  "do_requested_bytes (record_advised out n) = do_requested_bytes out"
  "do_requested_bytes (record_failed out n k) = do_requested_bytes out"
  by (simp_all add: record_skipped_def record_advised_def record_failed_def)

definition segment_length :: "guest_memory_range \<Rightarrow> guest_address \<Rightarrow> guest_address \<Rightarrow> nat" where
  "segment_length r lo hi = unat (min (gmr_end_exclusive r) hi) - unat (max (gmr_start r) lo)"

definition step_accounts :: "discard_outcome \<Rightarrow> discard_outcome \<Rightarrow> nat \<Rightarrow> bool" where
  "step_accounts out out' n \<longleftrightarrow> do_requested_bytes out' = do_requested_bytes out \<and>
     (accounted out + n < 2 ^ 64 \<longrightarrow> accounted out' = accounted out + n)"

lemma step_accounts_record:
  "step_accounts out (record_skipped out n) (unat n)" "step_accounts out (record_advised out n) (unat n)"
  "step_accounts out (record_failed out n k) (unat n)"
  by (simp_all add: step_accounts_def accounted_record)

lemma step_accounts_trans:
  "step_accounts out out1 n \<Longrightarrow> step_accounts out1 out2 k \<Longrightarrow> step_accounts out out2 (n + k)"
  by (auto simp: step_accounts_def)

lemma discard_segment_eq:
  assumes "range_wf (reg_range r)"
  shows "discard_segment r rng = None \<and> segment_length (reg_range r) (gmr_start rng) (gmr_end_exclusive rng) = 0 \<or>
    (\<exists>off sz. discard_segment r rng = Some (off, sz) \<and> 0 < unat sz \<and>
       unat sz = segment_length (reg_range r) (gmr_start rng) (gmr_end_exclusive rng) \<and>
       unat off + unat sz \<le> unat (gmr_size (reg_range r)) \<and>
       (\<forall>x. unat (gmr_start (reg_range r)) + unat off \<le> unat x \<and>
            unat x < unat (gmr_start (reg_range r)) + unat off + unat sz \<longrightarrow> contains rng x))"
proof -
  define s e where "s = max (gmr_start (reg_range r)) (gmr_start rng)"
    and "e = min (gmr_end_exclusive (reg_range r)) (gmr_end_exclusive rng)"
  have b: "gmr_start (reg_range r) \<le> s" "gmr_start rng \<le> s" "e \<le> gmr_end_exclusive (reg_range r)"
      "e \<le> gmr_end_exclusive rng" by (simp_all add: s_def e_def)
  show ?thesis
  proof (cases "e \<le> s")
    case True
    then show ?thesis
      by (simp add: discard_segment_def segment_length_def Let_def word_nat flip: s_def e_def)
  next
    case False
    then have "discard_segment r rng = Some (s - gmr_start (reg_range r), e - s)"
      by (simp add: discard_segment_def Let_def flip: s_def e_def)
    moreover have "unat (s - gmr_start (reg_range r)) = unat s - unat (gmr_start (reg_range r))"
        "unat (e - s) = unat e - unat s"
      using b False by auto
    ultimately show ?thesis
      using b False assms
      by (auto simp: segment_length_def contains_def range_wf_def word_nat simp flip: s_def e_def)
  qed
qed

lemma discard_region_step_spec:
  assumes wf: "gm_wf m" and hs: "host_in_space host m" and ps: "is_power_of_two ps"
    and r: "r \<in> set (gm_regions m)" and st: "discard_region_step host ps rng r (m, out) = (m', out')"
  shows "discard_effect m m' rng \<and>
     step_accounts out out' (segment_length (reg_range r) (gmr_start rng) (gmr_end_exclusive rng))"
proof -
  let ?L = "segment_length (reg_range r) (gmr_start rng) (gmr_end_exclusive rng)"
  have v: "view_valid (gm_store m) r" using gm_wf_view [OF wf, of r] r by simp
  then have rw: "range_wf (reg_range r)" by (simp add: view_valid_def)
  consider "discard_segment r rng = None" "?L = 0"
    | off sz where "discard_segment r rng = Some (off, sz)" "0 < unat sz" "unat sz = ?L"
        "unat off + unat sz \<le> unat (gmr_size (reg_range r))"
        "\<forall>x. unat (gmr_start (reg_range r)) + unat off \<le> unat x \<and>
            unat x < unat (gmr_start (reg_range r)) + unat off + unat sz \<longrightarrow> contains rng x"
    using discard_segment_eq [OF rw, of rng] by (elim disjE exE conjE)
  then show ?thesis
  proof cases
    case 1
    then show ?thesis using st discard_effect_refl [OF wf] by (simp add: discard_region_step_def step_accounts_def)
  next
    case (2 off sz)
    define ms where "ms = dh_base host (reg_mapping r) + reg_mapping_offset r"
    define ss where "ss = ms + off"
    obtain bs where bs: "gm_store m (reg_mapping r) = Some bs"
        "unat (reg_mapping_offset r) + unat (gmr_size (reg_range r)) \<le> length bs"
        "unat (reg_host_size r) = unat (gmr_size (reg_range r))"
      using v by (auto simp: view_valid_def)
    have base: "0 < unat (dh_base host (reg_mapping r))" "unat (dh_base host (reg_mapping r)) + length bs < 2 ^ 64"
      using hs bs(1) by (auto simp: host_in_space_def)
    have ums: "unat ms = unat (dh_base host (reg_mapping r)) + unat (reg_mapping_offset r)"
      unfolding ms_def using base bs by (intro unat_add_no_overflow) simp
    have uss: "unat ss = unat ms + unat off"
      unfolding ss_def using base bs ums 2(4) by (intro unat_add_no_overflow) simp
    obtain se where se: "checked_add ss sz = Some se" and use': "unat se = unat ss + unat sz"
      using base bs ums uss 2(4) by (cases "checked_add ss sz") (auto simp: checked_add_None_iff checked_add_Some_iff)
    obtain oe where oe: "checked_add off sz = Some oe" and uoe: "unat oe = unat off + unat sz"
      using 2(4) unat_bound64 [of "gmr_size (reg_range r)"]
      by (cases "checked_add off sz") (auto simp: checked_add_None_iff checked_add_Some_iff)
    have chk: "\<not> (case checked_add off sz of None \<Rightarrow> True | Some e \<Rightarrow> reg_host_size r < e)"
      using 2(4) bs(3) uoe by (simp add: oe word_nat)
    note sd = discard_region_step_def [of host ps rng r "(m, out)", unfolded prod.case 2(1) option.case]
    show ?thesis
    proof (cases "align_up_usize ss ps")
      case None
      then have "m' = m \<and> out' = record_failed out sz HostAddress"
        using st chk se unfolding sd by (simp add: Let_def flip: ms_def) (simp add: ss_def)
      then show ?thesis using discard_effect_refl [OF wf] step_accounts_record(3) 2(3) by metis
    next
      case (Some as)
      have sa: "ss \<le> as" using align_up_Some(1) [of ss ps as] Some align_up_usize_eq [OF ps] by simp
      define ae where "ae = align_down_usize se ps"
      have ae: "ae \<le> se" by (simp add: ae_def align_down_le)
      show ?thesis
      proof (cases "ae \<le> as")
        case True
        then have "m' = m \<and> out' = record_skipped out sz"
          using st chk se Some unfolding sd by (simp add: Let_def ae_def flip: ms_def) (simp add: ss_def)
        then show ?thesis using discard_effect_refl [OF wf] step_accounts_record(1) 2(3) by metis
      next
        case False
        let ?asz = "ae - as" and ?out = "record_skipped out (sz - (ae - as))"
        have uas: "unat ?asz = unat ae - unat as" "0 < unat ?asz" using False by (auto simp: word_nat)
        have le: "?asz \<le> sz" using uas(1) sa ae use' by (simp add: word_nat)
        obtain m1 res where adv: "discard_advice host m r ms as ?asz = (m1, res)" by fastforce
        have eff: "discard_effect m m1 rng \<and> res \<noteq> Panic"
        proof (rule discard_advice_effect [OF wf r _ _ uas(2) _ _ adv])
          have ma: "ms \<le> as" using sa uss by (simp add: word_nat)
          show "ms \<le> as" "as \<noteq> 0" using ma base(1) ums by (auto simp: word_nat)
          have uam: "unat (as - ms) = unat as - unat ms" using ma by simp
          show "unat (as - ms) + unat ?asz \<le> unat (gmr_size (reg_range r))"
            using uam uas(1) 2(4) sa ae use' uss False by (simp add: word_nat)
          show "contains rng x" if "unat (gmr_start (reg_range r)) + unat (as - ms) \<le> unat x"
              "unat x < unat (gmr_start (reg_range r)) + unat (as - ms) + unat ?asz" for x
            using that uam uas(1) sa ae use' uss ma False by (intro 2(5) [rule_format]) (auto simp: word_nat)
        qed
        have out': "m' = m1 \<and> (out' = record_advised ?out ?asz \<or> (\<exists>k. out' = record_failed ?out ?asz k))"
          using st chk se Some False adv eff unfolding sd
          by (simp add: Let_def flip: ms_def ae_def)
             (auto simp: ss_def [symmetric] ae_def [symmetric] Let_def split: result.splits)
        have "step_accounts out out' (unat (sz - ?asz) + unat ?asz)"
          using out' step_accounts_trans [OF step_accounts_record(1)] step_accounts_record(2,3) by metis
        moreover have "unat (sz - ?asz) + unat ?asz = unat sz" using le by (simp add: word_nat)
        ultimately show ?thesis using eff out' 2(3) by simp
      qed
    qed
  qed
qed

lemma segment_length_shift:
  "gmr_end_exclusive r \<le> gmr_start q \<Longrightarrow> lo' = min (gmr_end_exclusive r) hi \<Longrightarrow> lo \<le> lo' \<Longrightarrow>
   segment_length q lo hi = segment_length q lo' hi"
  by (auto simp: segment_length_def word_nat min_def max_def)

lemma segment_lengths_cover:
  assumes "ordered_disjoint rs" and "lo \<le> hi"
    and "\<forall>a. lo \<le> a \<and> a < hi \<longrightarrow> (\<exists>r\<in>set rs. contains r a)"
  shows "sum_list (map (\<lambda>r. segment_length r lo hi) rs) = unat hi - unat lo"
  using assms
proof (induction rs arbitrary: lo)
  case Nil
  then have "lo = hi" by (metis empty_iff empty_set order.not_eq_order_implies_strict order_refl)
  then show ?case by simp
next
  case (Cons r rs)
  have before: "gmr_end_exclusive r \<le> gmr_start q" if "q \<in> set rs" for q
    using Cons.prems(1) that by (simp add: range_before_def)
  have od: "ordered_disjoint rs" and ne: "gmr_start r < gmr_end_exclusive r"
    using Cons.prems(1) range_wf_nonempty by auto
  show ?case
  proof (cases "lo < hi \<and> \<not> gmr_end_exclusive r \<le> lo")
    case True
    have cr: "contains r lo"
    proof -
      obtain q where "q \<in> set (r # rs)" "contains q lo" using Cons.prems(3) True by auto
      then show ?thesis using before True by (force simp: contains_def)
    qed
    define lo' where "lo' = min (gmr_end_exclusive r) hi"
    have lo': "lo \<le> lo'" "lo' \<le> hi" using True by (auto simp: lo'_def)
    have cov: "\<forall>a. lo' \<le> a \<and> a < hi \<longrightarrow> (\<exists>q\<in>set rs. contains q a)"
    proof (intro allI impI)
      fix a assume a: "lo' \<le> a \<and> a < hi"
      then have "\<not> contains r a" by (auto simp: lo'_def contains_def min_le_iff_disj)
      moreover have "lo \<le> a" using a lo' by auto
      ultimately show "\<exists>q\<in>set rs. contains q a" using Cons.prems(3) a by auto
    qed
    have "sum_list (map (\<lambda>q. segment_length q lo hi) rs) = sum_list (map (\<lambda>q. segment_length q lo' hi) rs)"
      using before segment_length_shift [OF _ lo'_def lo'(1)] by (intro arg_cong [of _ _ sum_list] map_cong) auto
    moreover have "segment_length r lo hi = unat lo' - unat lo"
      using cr by (simp add: segment_length_def lo'_def contains_def max_def)
    ultimately show ?thesis
      using Cons.IH [OF od lo'(2) cov] lo' by (simp add: word_nat)
  next
    case False
    then consider "lo = hi" | "gmr_end_exclusive r \<le> lo" "lo < hi" using Cons.prems(2) by fastforce
    then show ?thesis
    proof cases
      case 1
      have "segment_length q lo hi = 0" for q using 1 by (auto simp: segment_length_def word_nat min_def max_def)
      then show ?thesis using 1 by simp
    next
      case 2
      have "segment_length r lo hi = 0" using 2 by (auto simp: segment_length_def word_nat min_def max_def)
      moreover have "\<forall>a. lo \<le> a \<and> a < hi \<longrightarrow> (\<exists>q\<in>set rs. contains q a)"
        using Cons.prems(3) 2 by (auto simp: contains_def)
      ultimately show ?thesis using Cons.IH [OF od Cons.prems(2)] by simp
    qed
  qed
qed

lemma discard_fold_spec:
  assumes "gm_wf m" and "host_in_space host m" and "is_power_of_two ps" and "set rs \<subseteq> set (gm_regions m)"
    and "fold (discard_region_step host ps rng) rs (m, out) = (m', out')"
  shows "discard_effect m m' rng \<and> step_accounts out out'
     (sum_list (map (\<lambda>r. segment_length (reg_range r) (gmr_start rng) (gmr_end_exclusive rng)) rs))"
  using assms
proof (induction rs arbitrary: m out)
  case Nil
  then show ?case by (simp add: discard_effect_refl step_accounts_def)
next
  case (Cons r rs)
  obtain m1 out1 where s1: "discard_region_step host ps rng r (m, out) = (m1, out1)" by fastforce
  have e1: "discard_effect m m1 rng"
      "step_accounts out out1 (segment_length (reg_range r) (gmr_start rng) (gmr_end_exclusive rng))"
    using discard_region_step_spec [OF Cons.prems(1-3) _ s1] Cons.prems(4) by auto
  have "gm_wf m1" "gm_regions m1 = gm_regions m" using e1(1) by (auto simp: discard_effect_def)
  then have "discard_effect m1 m' rng \<and> step_accounts out1 out'
     (sum_list (map (\<lambda>r. segment_length (reg_range r) (gmr_start rng) (gmr_end_exclusive rng)) rs))"
    using Cons.IH [of m1 out1] host_in_space_effect [OF Cons.prems(2) e1(1)] Cons.prems s1 by simp
  then show ?case
    using discard_effect_trans [OF e1(1)] step_accounts_trans [OF e1(2)] by simp
qed

lemma discard_range_spec:
  assumes wf: "gm_wf m" and hs: "host_in_space host m" and rng: "range_wf rng"
    and res: "discard_range host m rng = (m', out)"
  shows "discard_effect m m' rng \<and> do_requested_bytes out = gmr_size rng \<and> accounted out = unat (gmr_size rng)"
proof -
  have fail: "accounted (fail_all (discard_outcome_new n) k) = unat n"
    "do_requested_bytes (fail_all (discard_outcome_new n) k) = n" for n k
    by (simp_all add: accounted_def fail_all_def discard_outcome_new_def)
  show ?thesis
  proof (cases "\<exists>ps. \<not> is_protected_lazy m \<and> is_ok (validate_mapped_range m rng) \<and> dh_page_size host = Inr ps \<and>
      is_power_of_two ps")
    case False
    then have "m' = m \<and> (\<exists>k. out = fail_all (discard_outcome_new (gmr_size rng)) k)"
      using res by (auto simp: discard_range_def Let_def split: sum.splits if_splits)
    then show ?thesis using fail discard_effect_refl [OF wf] by auto
  next
    case True
    then obtain ps where ps: "is_power_of_two ps" "dh_page_size host = Inr ps" "\<not> is_protected_lazy m"
      and ok: "is_ok (validate_mapped_range m rng)" by blast
    have cov: "\<forall>a. gmr_start rng \<le> a \<and> a < gmr_end_exclusive rng \<longrightarrow> (\<exists>r\<in>set (map reg_range (gm_regions m)). contains r a)"
      using ok validate_mapped_range_eq [OF gm_wf_order [OF wf] rng]
      by (auto simp: is_mapped_def contains_def split: if_splits)
    have run: "fold (discard_region_step host ps rng) (gm_regions m) (m, discard_outcome_new (gmr_size rng)) = (m', out)"
      using res ps ok by (simp add: discard_range_def Let_def is_power_of_two_def split: if_splits)
    have "sum_list (map (\<lambda>r. segment_length r (gmr_start rng) (gmr_end_exclusive rng)) (map reg_range (gm_regions m)))
        = unat (gmr_size rng)"
      using segment_lengths_cover [OF gm_wf_order [OF wf] _ cov] range_wf_nonempty [OF rng] rng by (simp add: range_wf_def)
    moreover have "accounted (discard_outcome_new n) = 0" for n by (simp add: accounted_def discard_outcome_new_def)
    ultimately show ?thesis
      using discard_fold_spec [OF wf hs ps(1) _ run] unat_bound64 [of "gmr_size rng"]
      by (simp add: step_accounts_def o_def discard_outcome_new_def)
  qed
qed

section \<open>Atomic words\<close>

lemma atomic_u64_Ok:
  assumes wf: "gm_wf m" and lease: "atomic_u64 base m a = Ok l"
  obtains r where "r \<in> set (gm_regions m)" and "contains (reg_range r) a"
    and "unat a + 8 \<le> unat (gmr_end_exclusive (reg_range r))" and "unat (au_mapping_offset l) = host_index r a"
    and "au_mapping l = reg_mapping r" and "au_range l = slice_range a 8" and "au_tracked l \<longleftrightarrow> gm_dirty_tracker m \<noteq> None"
    and "unat a + 8 < 2 ^ 64"
proof -
  have ar: "access_range a 8 = (if unat a + 8 < 2 ^ 64 then Ok (Some (slice_range a 8)) else Err (AccessAddressOverflow a 8))"
    using access_range_eq [of 8 a] by simp
  from lease obtain r off mo where lt: "unat a + 8 < 2 ^ 64"
    and f: "find (\<lambda>r. contains (reg_range r) (gmr_start (slice_range a 8)) \<and>
          gmr_end_exclusive (slice_range a 8) \<le> gmr_end_exclusive (reg_range r)) (gm_regions m) = Some r"
    and off: "off = a - gmr_start (reg_range r)" "gmr_start (reg_range r) \<le> a"
    and mo: "checked_add (reg_mapping_offset r) off = Some mo"
    and l: "l = \<lparr>au_mapping = reg_mapping r, au_mapping_offset = mo, au_range = slice_range a 8,
                 au_tracked = (gm_dirty_tracker m \<noteq> None)\<rparr>"
    by (auto simp: atomic_u64_def ar result_iffs sub_or_panic_def slice_range_def split: if_splits)
  have ue: "unat (a + 8) = unat a + 8" using lt unat_add_no_overflow [of a 8] by simp
  have r: "r \<in> set (gm_regions m)" "contains (reg_range r) a" "unat a + 8 \<le> unat (gmr_end_exclusive (reg_range r))"
    using f ue by (auto simp: find_Some_iff slice_range_def word_nat)
  moreover have "unat mo = host_index r a"
    using mo off by (simp add: checked_add_Some_iff host_index_def)
  ultimately show thesis using that lt by (simp add: l)
qed

lemma store_le_spec:
  assumes wf: "gm_wf m" and lease: "atomic_u64 base m a = Ok l"
  obtains m' where "store_le m l v = (m', Ok ())" and "gm_wf m'" and "gm_regions m' = gm_regions m"
    and "load_le m' l = Ok v"
    and "\<forall>x. byte_at m' x = (if in_slice a 8 x then Some (to_le_bytes v ! (unat x - unat a)) else byte_at m x)"
    and "gm_dirty_tracker m \<noteq> None \<longrightarrow> (\<forall>x. in_slice a 8 x \<or> memory_dirty m x \<longrightarrow> memory_dirty m' x)"
    and "gm_dirty_tracker m' = None \<longleftrightarrow> gm_dirty_tracker m = None"
proof -
  obtain r where r: "r \<in> set (gm_regions m)" "contains (reg_range r) a"
      "unat a + 8 \<le> unat (gmr_end_exclusive (reg_range r))" "unat (au_mapping_offset l) = host_index r a"
      "au_mapping l = reg_mapping r" "au_range l = slice_range a 8" "au_tracked l \<longleftrightarrow> gm_dirty_tracker m \<noteq> None"
      "unat a + 8 < 2 ^ 64"
    by (rule atomic_u64_Ok [OF assms])
  have rw: "range_wf (slice_range a 8)" "contains (slice_range a 8) x \<longleftrightarrow> in_slice a 8 x" for x
    using slice_range_wf [of 8 a] r(8) by auto
  have mapped: "\<forall>x. contains (slice_range a 8) x \<longrightarrow> is_mapped m x"
    using r rw(2) unfolding is_mapped_def
    by (intro allI impI bexI [of _ r]) (auto simp: in_slice_def contains_def word_nat)
  obtain m1 where m1: "(if au_tracked l then mark_dirty m (au_range l) else Ok m) = Ok m1" "gm_wf m1"
      "gm_regions m1 = gm_regions m" "gm_store m1 = gm_store m" "gm_dirty_tracker m1 = None \<longleftrightarrow> gm_dirty_tracker m = None"
      "gm_dirty_tracker m \<noteq> None \<Longrightarrow> \<forall>x. in_slice a 8 x \<or> memory_dirty m x \<longrightarrow> memory_dirty m1 x"
  proof (cases "gm_dirty_tracker m")
    case None
    then show thesis using that [of m] wf r(7) by simp
  next
    case (Some t)
    obtain m1 where mk: "mark_dirty m (slice_range a 8) = Ok m1"
      using mark_dirty_Ok [OF wf rw(1) mapped] by metis
    then obtain t' where t': "mark_range t (slice_range a 8) = Ok t'" "m1 = m\<lparr>gm_dirty_tracker := Some t'\<rparr>"
      using Some by (auto simp: mark_dirty_def result_iffs)
    note eff = mark_dirty_effect [OF wf t'(1) Some rw(1), folded t'(2)]
    show thesis
      using Some mk r(6,7) eff(1,3,4) rw(2) by (intro that [of m1]) (auto simp: t'(2))
  qed
  have cb: "contains (reg_range r) a" "unat a + length (to_le_bytes v) \<le> unat (gmr_end_exclusive (reg_range r))"
    using r by simp_all
  obtain st where st: "host_write (gm_store m1) (reg_mapping r) (host_index r a) (to_le_bytes v) = Some st"
    "gm_wf (m1\<lparr>gm_store := st\<rparr>)"
    "\<And>x. byte_at (m1\<lparr>gm_store := st\<rparr>) x =
       (if in_slice a (length (to_le_bytes v)) x then Some (to_le_bytes v ! (unat x - unat a)) else byte_at m1 x)"
    using block_write [OF m1(2) _ cb] r(1) m1(3) by metis
  have b1: "byte_at m1 x = byte_at m x" for x using m1(3,4) by (rule byte_at_cong)
  have rd: "host_read st (reg_mapping r) (host_index r a) 8 = Some (to_le_bytes v)"
    using st(1) by (auto simp: host_write_def host_read_def overwrite_def split: option.splits if_splits)
  show thesis
  proof (rule that [of "m1\<lparr>gm_store := st\<rparr>"])
    show "store_le m l v = (m1\<lparr>gm_store := st\<rparr>, Ok ())"
      unfolding store_le_def m1(1) using st(1) r(4,5) by simp
    show "load_le (m1\<lparr>gm_store := st\<rparr>) l = Ok v" using rd r(4,5) by (simp add: load_le_def)
    show "gm_dirty_tracker m \<noteq> None \<longrightarrow> (\<forall>x. in_slice a 8 x \<or> memory_dirty m x \<longrightarrow> memory_dirty (m1\<lparr>gm_store := st\<rparr>) x)"
      using m1(6) by (simp add: memory_dirty_def)
  qed (use st b1 m1(3,5) in simp_all)
qed

lemma atomic_u64_fits:
  assumes wf: "gm_wf m" and lease: "atomic_u64 base m a = Ok l"
  shows "lease_fits m l"
proof -
  obtain r where r: "r \<in> set (gm_regions m)" "contains (reg_range r) a" "unat a + 8 \<le> unat (gmr_end_exclusive (reg_range r))"
      "unat (au_mapping_offset l) = host_index r a" "au_mapping l = reg_mapping r" "au_range l = slice_range a 8" "unat a + 8 < 2 ^ 64"
    by (rule atomic_u64_Ok [OF assms])
  have v: "view_valid (gm_store m) r" "reg_mapping r < gm_next_identity m" using gm_wf_view [OF wf] r(1) by auto
  have "view_valid (gm_store m) (lease_view l)"
    using v(1) r slice_range_wf(1) [of 8 a]
    by (auto simp: view_valid_def lease_view_def host_index_def slice_range_def contains_def range_wf_def word_nat)
  moreover have "co_aligned r (lease_view l)"
    using r(2,4,6) by (simp add: co_aligned_def lease_view_def host_index_def slice_range_def contains_def word_nat)
  then have "co_aligned q (lease_view l)" if "q \<in> views m" "reg_mapping q = au_mapping l" for q
    using gm_wf_co_aligned [OF wf that(1), of r] that(2) r(1,5) co_aligned_trans by simp
  ultimately show ?thesis using v(2) r(5) by (simp add: lease_fits_def)
qed

text \<open>
  A store through a retained word, at any later time: it changes bytes of the word only, and a word
  that shares the tracker marks them first.
\<close>

lemma word_write_inside:
  fixes v :: u64
  assumes fit: "lease_fits m l" and hw: "host_write (gm_store m) (au_mapping l) (unat (au_mapping_offset l)) (to_le_bytes v) = Some st"
    and ch: "byte_at (m\<lparr>gm_store := st\<rparr>) x \<noteq> byte_at m x"
  shows "contains (au_range l) x"
proof -
  obtain r where r: "r \<in> set (gm_regions m)" "contains (reg_range r) x"
    and ch': "host_byte st (reg_mapping r) (host_index r x) \<noteq> host_byte (gm_store m) (reg_mapping r) (host_index r x)"
  proof (cases "find (\<lambda>r. contains (reg_range r) x) (gm_regions m)")
    case (Some r)
    moreover have "r \<in> set (gm_regions m)" "contains (reg_range r) x" using Some by (auto simp: find_Some_iff)
    ultimately show thesis using ch that [of r] by (simp add: byte_at_def)
  qed (use ch in \<open>simp add: byte_at_def\<close>)
  have k: "reg_mapping r = au_mapping l" "unat (au_mapping_offset l) \<le> host_index r x" "host_index r x < unat (au_mapping_offset l) + 8"
    using ch' by (auto simp: host_byte_write [OF hw] split: if_splits)
  have "co_aligned r (lease_view l)" "range_wf (au_range l)" "unat (gmr_size (au_range l)) = 8"
    using fit k(1) r(1) by (auto simp: lease_fits_def view_valid_def lease_view_def)
  then show ?thesis
    using k(2,3) r(2) by (auto simp: co_aligned_def lease_view_def host_index_def contains_def range_wf_def word_nat)
qed

lemma store_retained:
  assumes wf: "gm_wf m" and fit: "lease_fits m l" and st: "store_le m l v = (m', r)"
  shows "gm_wf m' \<and> (gm_dirty_tracker m' = None \<longleftrightarrow> gm_dirty_tracker m = None) \<and>
    (\<forall>x. memory_dirty m x \<longrightarrow> memory_dirty m' x) \<and>
    (\<forall>x. byte_at m' x \<noteq> byte_at m x \<longrightarrow> contains (au_range l) x \<and>
       (au_tracked l \<and> gm_dirty_tracker m \<noteq> None \<longrightarrow> memory_dirty m' x))"
proof (cases "if au_tracked l then mark_dirty m (au_range l) else Ok m")
  case (Ok m1)
  have rng: "range_wf (au_range l)" using fit by (simp add: lease_fits_def view_valid_def lease_view_def)
  have m1: "gm_wf m1 \<and> (gm_dirty_tracker m1 = None \<longleftrightarrow> gm_dirty_tracker m = None) \<and>
      (\<forall>x. memory_dirty m x \<longrightarrow> memory_dirty m1 x) \<and>
      (au_tracked l \<and> gm_dirty_tracker m \<noteq> None \<longrightarrow> (\<forall>x. contains (au_range l) x \<longrightarrow> memory_dirty m1 x))"
  proof (cases "au_tracked l \<and> gm_dirty_tracker m \<noteq> None")
    case True
    then obtain t t' where t: "gm_dirty_tracker m = Some t" "mark_range t (au_range l) = Ok t'"
        "m1 = m\<lparr>gm_dirty_tracker := Some t'\<rparr>"
      using Ok by (auto simp: mark_dirty_def result_iffs)
    then show ?thesis using mark_dirty_effect [OF wf t(2,1) rng, folded t(3)] by auto
  next
    case False
    then have "m1 = m" using Ok by (auto simp: mark_dirty_def split: if_splits)
    then show ?thesis using wf False by auto
  qed
  have lay: "same_layout m m1" using Ok mark_dirty_layout by (auto split: if_splits)
  have fit1: "lease_fits m1 l" using extends_lease [OF same_layout_extends [OF lay] fit] .
  have "gm_store m1 = gm_store m" using Ok by (auto simp: mark_dirty_def result_iffs split: if_splits option.splits)
  then have b1: "byte_at m1 x = byte_at m x" for x using lay by (intro byte_at_cong) (simp_all add: same_layout_def)
  show ?thesis
  proof (cases "host_write (gm_store m1) (au_mapping l) (unat (au_mapping_offset l)) (to_le_bytes v)")
    case None
    then show ?thesis using st Ok m1 b1 by (auto simp: store_le_def)
  next
    case (Some s)
    have m': "m' = m1\<lparr>gm_store := s\<rparr>" using st Ok Some by (simp add: store_le_def)
    have "gm_wf m'" using m1 host_write_valid [OF Some] by (simp add: m' gm_wf_def tracker_mirrors_def)
    moreover have "memory_dirty m' x = memory_dirty m1 x" for x by (simp add: m' memory_dirty_def)
    ultimately show ?thesis using m1 b1 word_write_inside [OF fit1 Some] by (auto simp: m')
  qed
qed (use st wf in \<open>auto simp: store_le_def\<close>)

text \<open>A word retained before tracking was enabled publishes its value without marking anything.\<close>

lemma early_word_unmarked:
  assumes "lease_fits m l" and "\<not> au_tracked l"
  obtains m' where "store_le m l v = (m', Ok ())" and "gm_dirty_tracker m' = gm_dirty_tracker m" and "load_le m' l = Ok v"
proof -
  obtain bs where "gm_store m (au_mapping l) = Some bs" "unat (au_mapping_offset l) + 8 \<le> length bs"
    using assms(1) by (auto simp: lease_fits_def view_valid_def lease_view_def)
  then obtain st where hw: "host_write (gm_store m) (au_mapping l) (unat (au_mapping_offset l)) (to_le_bytes v) = Some st"
    by (simp add: host_write_def)
  have "host_read st (au_mapping l) (unat (au_mapping_offset l)) 8 = Some (to_le_bytes v)"
    using hw by (auto simp: host_write_def host_read_def overwrite_def split: option.splits if_splits)
  then show thesis using that [of "m\<lparr>gm_store := st\<rparr>"] assms(2) hw by (simp add: store_le_def load_le_def)
qed

section \<open>The memory of a running machine\<close>

locale dirty_log =
  fixes invar :: "'m \<Rightarrow> bool"
    and byte :: "'m \<Rightarrow> guest_address \<Rightarrow> u8 option"
    and dirty :: "'m \<Rightarrow> guest_address \<Rightarrow> bool"
    and step :: "'m \<Rightarrow> 'm \<Rightarrow> bool"
  assumes step_invar: "invar m \<Longrightarrow> step m m' \<Longrightarrow> invar m'"
    and step_logged: "invar m \<Longrightarrow> step m m' \<Longrightarrow> byte m' a \<noteq> None \<Longrightarrow>
          byte m' a \<noteq> byte m a \<or> dirty m a \<Longrightarrow> dirty m' a"
begin

lemma steps_logged:
  assumes "step\<^sup>*\<^sup>* m m'" and "invar m" and "byte m' a \<noteq> None" and "byte m' a \<noteq> byte m a"
  shows "invar m' \<and> dirty m' a"
proof -
  have "invar m' \<and> (byte m' a \<noteq> None \<longrightarrow> byte m' a \<noteq> byte m a \<longrightarrow> dirty m' a)"
    using assms(1)
  proof (induction rule: rtranclp_induct)
    case base
    then show ?case using assms(2) by simp
  next
    case (step m1 m2)
    then show ?case using step_invar step_logged [of m1 m2 a] by metis
  qed
  then show ?thesis using assms by blast
qed

end

text \<open>
  The memory of a running machine and the atomic words its users hold.  A word is retained: it can be
  cloned, dropped, and stored through at any time after it was acquired, also when its region is gone.
  The host answers each call anew.  Slices are shorter than the address space and mappings lie inside it.
\<close>

record memory_system =
  ms_memory :: guest_memory
  ms_leases :: "atomic_u64_lease list"

inductive memory_step :: "memory_system \<Rightarrow> memory_system \<Rightarrow> bool" where
  step_write: "write_slice (ms_memory s) bs a = (m', r) \<Longrightarrow> length bs < 2 ^ 64 \<Longrightarrow> memory_step s (s\<lparr>ms_memory := m'\<rparr>)"
| step_acquire: "atomic_u64 base (ms_memory s) a = Ok l \<Longrightarrow> memory_step s (s\<lparr>ms_leases := l # ms_leases s\<rparr>)"
| step_clone_drop: "set ls \<subseteq> set (ms_leases s) \<Longrightarrow> memory_step s (s\<lparr>ms_leases := ls\<rparr>)"
| step_store: "l \<in> set (ms_leases s) \<Longrightarrow> store_le (ms_memory s) l v = (m', r) \<Longrightarrow> memory_step s (s\<lparr>ms_memory := m'\<rparr>)"
| step_enable: "enable_dirty_tracking env (ms_memory s) = Ok m' \<Longrightarrow> memory_step s (s\<lparr>ms_memory := m'\<rparr>)"
| step_mark: "mark_dirty (ms_memory s) rng = Ok m' \<Longrightarrow> range_wf rng \<Longrightarrow> memory_step s (s\<lparr>ms_memory := m'\<rparr>)"
| step_insert_region: "insert_region env (ms_memory s) rng = (m', r) \<Longrightarrow> range_wf rng \<Longrightarrow> memory_step s (s\<lparr>ms_memory := m'\<rparr>)"
| step_reserve: "reserve_shared_region env (ms_memory s) rng = (m', r) \<Longrightarrow> range_wf rng \<Longrightarrow> memory_step s (s\<lparr>ms_memory := m'\<rparr>)"
| step_remove_region: "remove_region (ms_memory s) rng = (m', r) \<Longrightarrow> memory_step s (s\<lparr>ms_memory := m'\<rparr>)"
| step_discard: "discard_range host (ms_memory s) rng = (m', out) \<Longrightarrow> host_in_space host (ms_memory s) \<Longrightarrow> range_wf rng \<Longrightarrow>
    memory_step s (s\<lparr>ms_memory := m'\<rparr>)"

definition system_wf :: "memory_system \<Rightarrow> bool" where
  "system_wf s \<longleftrightarrow> gm_wf (ms_memory s) \<and> (\<forall>l\<in>set (ms_leases s). lease_fits (ms_memory s) l)"

text \<open>The addresses of held words that were acquired while there was no tracker.\<close>

definition unlogged_words :: "memory_system \<Rightarrow> guest_address set" where
  "unlogged_words s = {a. \<exists>l\<in>set (ms_leases s). \<not> au_tracked l \<and> contains (au_range l) a}"

definition logged :: "guest_memory \<Rightarrow> guest_memory \<Rightarrow> bool" where
  "logged m m' \<longleftrightarrow> gm_wf m' \<and> (gm_dirty_tracker m \<noteq> None \<longrightarrow> gm_dirty_tracker m' \<noteq> None \<and>
     (\<forall>a. byte_at m' a \<noteq> None \<longrightarrow> byte_at m' a \<noteq> byte_at m a \<or> memory_dirty m a \<longrightarrow> memory_dirty m' a))"

lemma same_view_logged: "same_view m m' \<Longrightarrow> logged m m'"
  by (simp add: same_view_def logged_def memory_dirty_def)

lemma write_marks:
  assumes wf: "gm_wf m" and ne: "bs \<noteq> []" and wr: "write_slice m bs a = (m', Ok ())" and mp: "slice_mapped m a (length bs)"
    and tr: "gm_dirty_tracker m \<noteq> None"
  shows "gm_dirty_tracker m' \<noteq> None \<and> (\<forall>x. in_slice a (length bs) x \<or> memory_dirty m x \<longrightarrow> memory_dirty m' x)"
proof -
  obtain m1 where m1: "write_slice m bs a = (m1, Ok ())"
      "case gm_dirty_tracker m of None \<Rightarrow> gm_dirty_tracker m1 = None
         | Some t \<Rightarrow> \<exists>t'. gm_dirty_tracker m1 = Some t' \<and> mark_range t (slice_range a (length bs)) = Ok t'"
    by (rule write_slice_mapped [OF wf ne mp])
  have rw: "range_wf (slice_range a (length bs))" "contains (slice_range a (length bs)) x \<longleftrightarrow> in_slice a (length bs) x" for x
    using slice_range_wf [of "length bs" a] ne mp by (auto simp: slice_mapped_def)
  obtain t where t: "gm_dirty_tracker m = Some t" using tr by blast
  then obtain t' where t': "gm_dirty_tracker m1 = Some t'" "mark_range t (slice_range a (length bs)) = Ok t'"
    using m1(2) by auto
  note eff = mark_dirty_effect(3,4) [OF wf t'(2) t rw(1)]
  have "m' = m1" using wr m1(1) by simp
  then show ?thesis using eff rw(2) t'(1) by (auto simp: memory_dirty_def)
qed

lemma write_logged:
  assumes wf: "gm_wf m" and wr: "write_slice m bs a = (m', r)" and len: "length bs < 2 ^ 64"
  shows "logged m m'"
proof (cases "bs \<noteq> [] \<and> slice_mapped m a (length bs)")
  case True
  then have ne: "bs \<noteq> []" and mp: "slice_mapped m a (length bs)" by auto
  obtain m1 where m1: "write_slice m bs a = (m1, Ok ())" "gm_wf m1"
      "\<forall>x. byte_at m1 x = (if in_slice a (length bs) x then Some (bs ! (unat x - unat a)) else byte_at m x)"
    by (rule write_slice_mapped [OF wf ne mp])
  note mk = write_marks [OF wf ne m1(1) mp]
  then show ?thesis using m1 wr mk by (auto simp: logged_def split: if_splits)
next
  case False
  have "m' = m"
  proof (cases "bs = []")
    case True
    then show ?thesis using wr by (simp add: write_slice_def access_range_def)
  next
    case ne: False
    then show ?thesis using False write_slice_unmapped [OF wf ne len] wr by auto
  qed
  then show ?thesis using wf by (simp add: logged_def)
qed

lemma insert_logged:
  assumes "gm_wf m" and "insert_region env m rng = (m', r)" and "range_wf rng"
  shows "logged m m'"
proof (cases "r = Ok ()")
  case False
  then show ?thesis using insert_region_fail [OF assms(1,2)] same_view_logged by blast
next
  case True
  then have i: "inserted m m' rng" using insert_region_Ok [OF assms(1,3)] assms(2) by simp
  have "memory_dirty m' a" if tr: "gm_dirty_tracker m \<noteq> None" and ch: "byte_at m' a \<noteq> byte_at m a \<or> memory_dirty m a" for a
  proof -
    obtain t' where t': "gm_dirty_tracker m' = Some t'" using i tr by (auto simp: inserted_def)
    then obtain t where "gm_dirty_tracker m = Some t" "\<forall>a. is_dirty t' a \<longleftrightarrow> is_dirty t a \<or> contains rng a"
      using i by (auto simp: inserted_def)
    then show ?thesis using t' ch i by (auto simp: memory_dirty_def inserted_def)
  qed
  then show ?thesis using i by (auto simp: logged_def inserted_def)
qed

lemma remove_logged:
  assumes wf: "gm_wf m" and rm: "remove_region m rng = (m', r)"
  shows "logged m m'"
proof (cases "is_protected_lazy m \<or> position (\<lambda>r. reg_range r = rng) (gm_regions m) = None")
  case True
  then show ?thesis using remove_region_fail [OF True] rm wf by (auto simp: logged_def)
next
  case False
  then obtain i where pl: "\<not> is_protected_lazy m" and i: "position (\<lambda>r. reg_range r = rng) (gm_regions m) = Some i"
    by auto
  have re: "removed m m' rng" using remove_region_Ok [OF wf pl i] rm by auto
  have "memory_dirty m' a" if tr: "gm_dirty_tracker m \<noteq> None" and ch: "byte_at m' a \<noteq> None"
      "byte_at m' a \<noteq> byte_at m a \<or> memory_dirty m a" for a
  proof -
    obtain t' where t': "gm_dirty_tracker m' = Some t'" using re tr by (auto simp: removed_def)
    then obtain t where "gm_dirty_tracker m = Some t" "\<forall>a. is_dirty t' a \<longleftrightarrow> is_dirty t a \<and> \<not> contains rng a"
      using re by (auto simp: removed_def)
    then show ?thesis using t' ch re by (auto simp: memory_dirty_def removed_def split: if_splits)
  qed
  then show ?thesis using re by (auto simp: logged_def removed_def)
qed

lemma discard_logged:
  assumes "gm_wf m" and "discard_range host m rng = (m', out)" and "host_in_space host m" and "range_wf rng"
  shows "logged m m'"
  using discard_range_spec [OF assms(1,3,4,2)] unfolding logged_def discard_effect_def by metis

lemma mark_logged:
  assumes "gm_wf m" and "mark_dirty m rng = Ok m'" and "range_wf rng"
  shows "logged m m'"
proof (cases "gm_dirty_tracker m")
  case None
  then show ?thesis using assms(1,2) by (simp add: mark_dirty_def logged_def)
next
  case (Some t)
  then obtain t' where t': "mark_range t rng = Ok t'" "m' = m\<lparr>gm_dirty_tracker := Some t'\<rparr>"
    using assms(2) by (auto simp: mark_dirty_def result_iffs)
  note eff = mark_dirty_effect [OF assms(1) t'(1) Some assms(3), folded t'(2)]
  then show ?thesis by (auto simp: logged_def t'(2))
qed

lemma enable_logged:
  assumes "gm_wf m" and "enable_dirty_tracking env m = Ok m'"
  shows "logged m m'"
proof -
  have "m' = m" if "gm_dirty_tracker m \<noteq> None"
    using that assms(2) by (auto simp: enable_dirty_tracking_def split: if_splits)
  then show ?thesis using enable_dirty_tracking_Ok [OF assms] assms(1) by (auto simp: logged_def)
qed

text \<open>One call keeps the held words fitted and logs what it changes outside the addresses \<open>U\<close>.\<close>

definition logged_call :: "guest_address set \<Rightarrow> memory_system \<Rightarrow> memory_system \<Rightarrow> bool" where
  "logged_call U s s' \<longleftrightarrow> system_wf s' \<and> (gm_dirty_tracker (ms_memory s) \<noteq> None \<longrightarrow>
     gm_dirty_tracker (ms_memory s') \<noteq> None \<and> unlogged_words s' \<subseteq> unlogged_words s \<and>
     (\<forall>a. byte_at (ms_memory s') a \<noteq> None \<longrightarrow>
        byte_at (ms_memory s') a \<noteq> byte_at (ms_memory s) a \<and> a \<notin> U \<or> memory_dirty (ms_memory s) a \<longrightarrow> memory_dirty (ms_memory s') a))"

lemma logged_callI:
  assumes "system_wf s" and "logged (ms_memory s) m'" and "extends (ms_memory s) m'"
  shows "logged_call U s (s\<lparr>ms_memory := m'\<rparr>)"
  using assms extends_lease by (auto simp: logged_call_def logged_def system_wf_def unlogged_words_def)

lemma store_call:
  assumes "system_wf s" and "l \<in> set (ms_leases s)" and "store_le (ms_memory s) l v = (m', r)"
  shows "logged_call (unlogged_words s) s (s\<lparr>ms_memory := m'\<rparr>)"
proof -
  have wf: "gm_wf (ms_memory s)" "lease_fits (ms_memory s) l" using assms(1,2) by (auto simp: system_wf_def)
  note st = store_retained [OF wf assms(3)]
  have "lease_fits m' q" if "q \<in> set (ms_leases s)" for q
    using that assms(1) extends_lease [OF same_layout_extends [OF store_le_layout [OF assms(3)]]] by (simp add: system_wf_def)
  moreover have "memory_dirty m' x"
    if "byte_at m' x \<noteq> byte_at (ms_memory s) x" "x \<notin> unlogged_words s" "gm_dirty_tracker (ms_memory s) \<noteq> None" for x
    using st that assms(2) by (auto simp: unlogged_words_def)
  ultimately show ?thesis
    using st by (auto simp: logged_call_def system_wf_def unlogged_words_def)
qed

lemma acquire_call:
  assumes "system_wf s" and "atomic_u64 base (ms_memory s) a = Ok l"
  shows "logged_call U s (s\<lparr>ms_leases := l # ms_leases s\<rparr>)"
proof -
  have wf: "gm_wf (ms_memory s)" using assms(1) by (simp add: system_wf_def)
  have "au_tracked l \<longleftrightarrow> gm_dirty_tracker (ms_memory s) \<noteq> None" by (rule atomic_u64_Ok [OF wf assms(2)])
  then show ?thesis
    using assms(1) atomic_u64_fits [OF wf assms(2)] by (auto simp: logged_call_def system_wf_def unlogged_words_def)
qed

lemma memory_step_logged:
  assumes "memory_step s s'" and "system_wf s"
  shows "logged_call (unlogged_words s) s s'"
  using assms
proof cases
  case (step_write bs a m' r)
  then show ?thesis
    using assms(2) write_logged [of "ms_memory s"] same_layout_extends [OF write_slice_layout]
    by (auto simp: system_wf_def intro!: logged_callI)
next
  case step_acquire
  then show ?thesis using acquire_call [OF assms(2)] by simp
next
  case step_clone_drop
  then show ?thesis using assms(2) by (auto simp: logged_call_def system_wf_def unlogged_words_def)
next
  case step_store
  then show ?thesis using store_call [OF assms(2)] by simp
next
  case (step_enable env m')
  then show ?thesis
    using assms(2) enable_logged [of "ms_memory s"] same_layout_extends [OF enable_layout]
    by (auto simp: system_wf_def intro!: logged_callI)
next
  case (step_mark rng m')
  then show ?thesis
    using assms(2) mark_logged [of "ms_memory s"] same_layout_extends [OF mark_dirty_layout]
    by (auto simp: system_wf_def intro!: logged_callI)
next
  case (step_insert_region env rng m' r)
  then show ?thesis
    using assms(2) insert_logged [of "ms_memory s"] insert_region_extends [of "ms_memory s"]
    by (auto simp: system_wf_def intro!: logged_callI)
next
  case (step_reserve env rng m' r)
  then show ?thesis
    using assms(2) reserve_shared_region_same_view [of "ms_memory s"] same_view_logged reserve_extends
    by (auto simp: system_wf_def intro!: logged_callI)
next
  case (step_remove_region rng m' r)
  then show ?thesis
    using assms(2) remove_logged [of "ms_memory s"] remove_extends
    by (auto simp: system_wf_def intro!: logged_callI)
next
  case (step_discard host rng m' out)
  then show ?thesis
    using assms(2) discard_logged [of "ms_memory s"] same_layout_extends [OF discard_range_layout]
    by (auto simp: system_wf_def intro!: logged_callI)
qed

interpretation memory_log: dirty_log
  "\<lambda>s. system_wf s \<and> gm_dirty_tracker (ms_memory s) \<noteq> None \<and> unlogged_words s \<subseteq> U"
  "\<lambda>s. byte_at (ms_memory s)" "\<lambda>s a. memory_dirty (ms_memory s) a \<or> a \<in> U" memory_step
  for U
proof (unfold_locales, goal_cases)
  case (1 s s')
  then show ?case using memory_step_logged [of s s'] by (auto simp: logged_call_def)
next
  case (2 s s' a)
  then show ?case using memory_step_logged [of s s'] by (auto simp: logged_call_def)
qed

section \<open>Guest RAM as a table of disjoint ranges\<close>

definition insert_view ::
    "host_env \<Rightarrow> u64 \<Rightarrow> guest_memory \<Rightarrow> guest_memory_region \<Rightarrow> (guest_memory, guest_memory_allocation_error) result" where
  "insert_view env ps m r =
     (if view_valid (gm_store m) r \<and> reg_mapping r < gm_next_identity m \<and>
         (\<exists>origin. views_aligned origin (r # gm_regions m @ gm_shared_reservations m))
      then and_then (validate_insert_region m (reg_range r) ps) (\<lambda>i.
             case insert_prepared_region env m i r of
               (m', Ok _) \<Rightarrow> Ok m' | (m', Err e) \<Rightarrow> Err e | (m', Panic) \<Rightarrow> Panic)
      else Err (SizeTooLarge (reg_range r)))"

lemma insert_view_Ok:
  assumes "insert_view env ps m r = Ok m'"
  obtains i origin where "validate_insert_region m (reg_range r) ps = Ok i"
    and "view_valid (gm_store m) r" and "reg_mapping r < gm_next_identity m"
    and "views_aligned origin (r # gm_regions m @ gm_shared_reservations m)"
    and "insert_prepared_region env m i r = (m', Ok ())"
proof -
  obtain i where i: "validate_insert_region m (reg_range r) ps = Ok i"
    using assms by (auto simp: insert_view_def result_iffs split: if_splits)
  obtain m1 res where ip: "insert_prepared_region env m i r = (m1, res)" by fastforce
  then have "res = Ok ()" "m1 = m'"
    using assms i by (auto simp: insert_view_def split: if_splits result.splits)
  then show thesis
    using assms i ip that by (auto simp: insert_view_def split: if_splits)
qed

interpretation ram_table: range_table reg_range gm_regions gm_wf "insert_view env ps" for env ps
proof (unfold_locales, goal_cases)
  case (1 m)
  then show ?case by (rule gm_wf_order)
next
  case (2 m r m')
  show ?case by (rule insert_view_Ok [OF 2(3)]) (rule insert_prepared_region_Ok(1) [OF 2(1,2)])
next
  case (3 m r m')
  show ?case by (rule insert_view_Ok [OF 3(3)]) (rule insert_prepared_region_Ok(3) [OF 3(1,2)])
next
  case (4 m r m' x)
  show ?case
    by (rule insert_view_Ok [OF 4(3)]) (use validate_insert_region_Ok(2) [OF 4(1,2)] 4(4) in blast)
qed

section \<open>Properties\<close>

text \<open>A concrete machine: one 16-byte region at 0x1000 and an 8-byte host page.\<close>

definition sample_env :: host_env where
  "sample_env = \<lparr>he_sysconf_page_size = Some 8, he_alloc = (\<lambda>_. True), he_prepare_ok = (\<lambda>_ _. True), he_map_ok = (\<lambda>_ _. True)\<rparr>"

definition sample_layout :: guest_memory_layout where
  "sample_layout = \<lparr>layout_ranges = [sample_range 0x1000 16]\<rparr>"

definition sample_memory :: "dirty_tracker option \<Rightarrow> guest_memory" where
  "sample_memory t = \<lparr>gm_regions = [\<lparr>reg_range = sample_range 0x1000 16, reg_mapping = 1, reg_mapping_offset = 0,
       reg_host_size = 16\<rparr>], gm_shared_reservations = [], gm_dirty_tracker = t, gm_backing = Anonymous,
     gm_access_profile = Eager, gm_store = (\<lambda>_. None)(1 \<mapsto> replicate 16 0), gm_next_identity = 2\<rparr>"

definition sample_dirty :: dirty_tracker where
  "sample_dirty = \<lparr>dt_page_size = 8, dt_epoch = 0, dt_regions = [\<lparr>dr_range = sample_range 0x1000 16, dr_words = [0]\<rparr>]\<rparr>"

definition sample_host :: discard_host where
  "sample_host = \<lparr>dh_page_size = Inr 8, dh_base = (\<lambda>_. 0x10000), dh_reclaim = (\<lambda>_ _ _. (True, None))\<rparr>"

lemmas sample_memory_defs = sample_env_def sample_layout_def sample_memory_def sample_dirty_def sample_range_def

lemma sample_allocate:
  "allocate_with_backing sample_env sample_layout Anonymous 1 = Ok (sample_memory None)"
  by (simp add: sample_memory_defs allocate_with_backing_def host_page_size_def system_host_page_size_def
      validate_host_page_size_def is_power_of_two_def validate_allocation_ranges_def validate_allocation_range_def
      range_validate_alignment_def validate_alignment_def is_multiple_of_def allocation_host_size_def
      allocate_with_mapper_def empty_with_backing_def map_fresh_def checked_add_def)

lemma sample_layout_ordered: "ordered_disjoint (layout_ranges sample_layout)"
  by (simp add: sample_layout_def sample_range_def range_wf_def)

lemma sample_enable: "enable_dirty_tracking sample_env (sample_memory None) = Ok (sample_memory (Some sample_dirty))"
  by (simp add: sample_memory_defs enable_dirty_tracking_def is_protected_lazy_def system_host_page_size_def
      is_power_of_two_def tracker_new_def validate_page_size_def validate_insert_position_def dirty_region_new_def
      range_validate_alignment_def validate_alignment_def is_multiple_of_def checked_add_def)

lemma sample_memory_wf: "gm_wf (sample_memory None)" "gm_wf (sample_memory (Some sample_dirty))"
proof -
  show wf: "gm_wf (sample_memory None)"
    using sample_allocate sample_layout_ordered allocate_with_mapper_Ok
    by (auto simp: allocate_with_backing_def result_iffs split: if_splits)
  show "gm_wf (sample_memory (Some sample_dirty))"
    using enable_dirty_tracking_Ok [OF wf sample_enable] by simp
qed

lemma sample_mapped: "is_mapped (sample_memory t) a \<longleftrightarrow> 0x1000 \<le> a \<and> a < 0x1010"
  by (simp add: is_mapped_def sample_memory_defs contains_def)

lemma sample_slice: "slice_mapped (sample_memory t) 0x1004 2"
  by (auto simp: slice_mapped_def sample_mapped dest: less_2_cases)

text \<open>
  C1: incremental snapshots lose nothing.  Take a well-formed memory whose dirty generation is clean, together with
  the atomic words that are held at that time.  After any sequence of writes, acquisitions, clones and drops of
  atomic words, stores through any held word, marks, region insertions and removals, reservations, discards and
  repeated enabling of the tracking (each successful or not, with any host answers), every mapped byte that the
  generation's page listing does not cover still has its original value.  The one exception are the words that were
  already held at the start and had been acquired before tracking was enabled: stores through them are not logged.
\<close>

theorem diff_snapshot_complete:
  assumes "system_wf s0" and "gm_dirty_tracker (ms_memory s0) = Some t0" and "\<forall>a. \<not> is_dirty t0 a"
    and "memory_step\<^sup>*\<^sup>* s0 s1" and "gm_dirty_tracker (ms_memory s1) = Some t"
    and "snapshot_quiesced alloc (dt_epoch t) t = Ok s" and "byte_at (ms_memory s1) a \<noteq> None"
    and "\<forall>p\<in>set (ds_pages s). \<not> (p \<le> a \<and> unat a < unat p + unat (dt_page_size t))"
    and "a \<notin> unlogged_words s0"
  shows "byte_at (ms_memory s1) a = byte_at (ms_memory s0) a"
proof (rule ccontr)
  assume ne: "byte_at (ms_memory s1) a \<noteq> byte_at (ms_memory s0) a"
  have "system_wf s1" "memory_dirty (ms_memory s1) a"
    using memory_log.steps_logged [OF assms(4) _ assms(7) ne, of "unlogged_words s0"] assms(1,2,9) by auto
  then have wf: "gm_wf (ms_memory s1)" and d: "is_dirty t a" using assms(5) by (auto simp: memory_dirty_def system_wf_def)
  have twf: "tracker_wf t" using wf assms(5) by (simp add: gm_wf_def tracker_mirrors_def)
  have "\<exists>p\<in>set (ds_pages s). p \<le> a \<and> unat a < unat p + unat (dt_page_size t)"
    by (rule dirty_listed [OF twf assms(6) d])
  then show False using assms(8) by blast
qed

definition sample_dirty_after :: dirty_tracker where
  "sample_dirty_after = \<lparr>dt_page_size = 8, dt_epoch = 0, dt_regions = [\<lparr>dr_range = sample_range 0x1000 16, dr_words = [1]\<rparr>]\<rparr>"

definition sample_word :: "bool \<Rightarrow> atomic_u64_lease" where
  "sample_word tracked = \<lparr>au_mapping = 1, au_mapping_offset = 0, au_range = slice_range 0x1000 8, au_tracked = tracked\<rparr>"

definition sample_system :: "dirty_tracker option \<Rightarrow> atomic_u64_lease list \<Rightarrow> memory_system" where
  "sample_system t ls = \<lparr>ms_memory = sample_memory t, ms_leases = ls\<rparr>"

lemma sample_acquire: "atomic_u64 (dh_base sample_host) (sample_memory t) 0x1000 = Ok (sample_word (t \<noteq> None))"
proof -
  have al: "is_aligned 0x1000 8 = Ok True"
    by (simp add: is_aligned_def validate_alignment_def is_power_of_two_def is_multiple_of_def)
  have ar: "access_range 0x1000 8 = Ok (Some (slice_range 0x1000 8))" using access_range_eq [of 8 "0x1000"] by simp
  have vm: "validate_mapped_range (sample_memory t) (slice_range 0x1000 8) = Ok ()"
    by (simp add: validate_mapped_range_def sample_memory_def sample_range_def slice_range_def contains_def access_segment_def
        advance_address_def checked_add_def sub_or_panic_def)
  show ?thesis
    unfolding atomic_u64_def
    by (simp add: al ar vm)
      (simp add: is_multiple_of_def sub_or_panic_def checked_add_def sample_word_def
        sample_memory_def sample_range_def sample_host_def slice_range_def contains_def)
qed

lemma sample_dirty_mark: "mark_range sample_dirty (slice_range 0x1000 8) = Ok sample_dirty_after"
  by (simp add: sample_dirty_after_def sample_memory_defs slice_range_def mark_range_def validate_tracked_range_def
      mark_intersection_def mark_page_def bitmap_location_def)

lemma sample_dirty_snapshot:
  "snapshot_quiesced (\<lambda>_. True) (dt_epoch sample_dirty_after) sample_dirty_after =
     Ok \<lparr>ds_page_size = 8, ds_epoch = 0, ds_pages = [0x1000]\<rparr>"
  by (simp add: sample_dirty_after_def sample_memory_defs snapshot_quiesced_def append_dirty_pages_def
      append_word_pages.simps dirty_page_at_def trailing_zeros_def upt_rec checked_mul_def checked_add_def contains_def)

lemma sample_dirty_clean: "\<not> is_dirty sample_dirty a"
  by (simp add: is_dirty_def sample_dirty_def region_dirty_def page_bit_def nth_Cons split: nat.splits)

text \<open>
  \<open>diff_snapshot_complete\<close> on a machine where one word was acquired before tracking and is still held: a second
  lease on the word is acquired and stored through.  The listing has the word's page; the other page is unchanged.
\<close>

lemma sample_system_wf: "system_wf (sample_system (Some sample_dirty) [sample_word False])"
proof -
  have "lease_fits (sample_memory None) (sample_word False)"
    using atomic_u64_fits [OF sample_memory_wf(1) sample_acquire] by simp
  then show ?thesis
    using extends_lease [OF same_layout_extends [OF enable_layout [OF sample_enable]]] sample_memory_wf(2)
    by (simp add: system_wf_def sample_system_def)
qed

lemma sample_stores:
  obtains s where "memory_step\<^sup>*\<^sup>* (sample_system (Some sample_dirty) [sample_word False]) s"
    and "gm_dirty_tracker (ms_memory s) = Some sample_dirty_after" and "byte_at (ms_memory s) 0x1000 = Some 5"
    and "is_mapped (ms_memory s) 0x100c" and "gm_wf (ms_memory s)"
proof -
  let ?m = "sample_memory (Some sample_dirty)" and ?s = "sample_system (Some sample_dirty)"
  have "atomic_u64 (dh_base sample_host) ?m 0x1000 = Ok (sample_word True)" using sample_acquire [of "Some sample_dirty"] by simp
  note acq = this store_le_spec [OF sample_memory_wf(2) this, of 5]
  obtain m where m: "store_le ?m (sample_word True) 5 = (m, Ok ())" "gm_wf m" "gm_regions m = gm_regions ?m"
      "\<forall>x. byte_at m x = (if in_slice 0x1000 8 x then Some (to_le_bytes (5 :: u64) ! (unat x - unat (0x1000 :: u64))) else byte_at ?m x)"
    by (rule acq(2))
  have t: "gm_dirty_tracker m = Some sample_dirty_after"
    using m(1) sample_dirty_mark
    by (auto simp: store_le_def mark_dirty_def sample_word_def sample_memory_def split: option.splits)
  have "memory_step (?s [sample_word False]) (?s [sample_word True, sample_word False])"
    using step_acquire [of "dh_base sample_host" "?s [sample_word False]" "0x1000" "sample_word True"] acq(1)
    by (simp add: sample_system_def)
  moreover have "memory_step (?s [sample_word True, sample_word False]) (\<lparr>ms_memory = m, ms_leases = [sample_word True, sample_word False]\<rparr>)"
    using step_store [of "sample_word True" "?s [sample_word True, sample_word False]" 5 m "Ok ()"] m(1)
    by (simp add: sample_system_def)
  ultimately have run: "memory_step\<^sup>*\<^sup>* (?s [sample_word False]) \<lparr>ms_memory = m, ms_leases = [sample_word True, sample_word False]\<rparr>"
    by (meson converse_rtranclp_into_rtranclp r_into_rtranclp)
  have "to_le_bytes (5 :: u64) ! 0 = 5" using le_bytes.simps(2) [of 7 "5 :: u64"] by (simp add: to_le_bytes_def)
  then have "byte_at m 0x1000 = Some 5" using m(4) by (simp add: in_slice_def)
  moreover have "is_mapped m 0x100c" using m(3) sample_mapped [of "Some sample_dirty" "0x100c"] by (simp add: is_mapped_def)
  ultimately show thesis using that [OF run] t m(2) by simp
qed

theorem diff_snapshot_complete_witness:
  "\<exists>s. memory_step\<^sup>*\<^sup>* (sample_system (Some sample_dirty) [sample_word False]) s \<and> byte_at (ms_memory s) 0x1000 = Some 5 \<and>
     byte_at (ms_memory s) 0x100c = byte_at (sample_memory (Some sample_dirty)) 0x100c"
proof -
  let ?s0 = "sample_system (Some sample_dirty) [sample_word False]"
  obtain s where s: "memory_step\<^sup>*\<^sup>* ?s0 s" "gm_dirty_tracker (ms_memory s) = Some sample_dirty_after"
      "byte_at (ms_memory s) 0x1000 = Some 5" "is_mapped (ms_memory s) 0x100c" "gm_wf (ms_memory s)"
    by (rule sample_stores)
  have "byte_at (ms_memory s) 0x100c \<noteq> None" using s(4) is_mapped_iff_byte [OF s(5)] by simp
  moreover have "gm_dirty_tracker (ms_memory ?s0) = Some sample_dirty" by (simp add: sample_system_def sample_memory_def)
  moreover have "0x100c \<notin> unlogged_words ?s0"
    by (simp add: unlogged_words_def sample_system_def sample_word_def slice_range_def contains_def)
  ultimately have "byte_at (ms_memory s) 0x100c = byte_at (ms_memory ?s0) 0x100c"
    using diff_snapshot_complete [OF sample_system_wf _ _ s(1,2) sample_dirty_snapshot] sample_dirty_clean
    by (simp add: sample_dirty_after_def)
  then show ?thesis using s(1,3) by (auto simp: sample_system_def)
qed

text \<open>
  C4: \<open>write_slice\<close> is an all-or-nothing write to a flat byte map.  If every byte of the slice is mapped
  (across any number of adjacent regions), it succeeds, exactly these bytes change, \<open>read_slice\<close> returns what was
  written, and with a tracker every written byte is dirty; otherwise it fails and nothing changes.
  No pointer leaves its mapping and no address arithmetic overflows.
\<close>

theorem write_slice_flat:
  assumes "gm_wf m" and "length bs < 2 ^ 64" and "bs \<noteq> []"
  shows "if slice_mapped m a (length bs)
     then \<exists>m'. write_slice m bs a = (m', Ok ()) \<and> gm_wf m' \<and>
            (\<forall>x. byte_at m' x = (if in_slice a (length bs) x then Some (bs ! (unat x - unat a)) else byte_at m x)) \<and>
            (\<forall>dest. length dest = length bs \<longrightarrow> read_slice m' dest a = (bs, Ok ())) \<and>
            (gm_dirty_tracker m \<noteq> None \<longrightarrow> (\<forall>x. in_slice a (length bs) x \<longrightarrow> memory_dirty m' x))
     else \<exists>e. write_slice m bs a = (m, Err e)"
proof (cases "slice_mapped m a (length bs)")
  case False
  then show ?thesis using write_slice_unmapped [OF assms(1,3,2)] by simp
next
  case True
  obtain m' where m': "write_slice m bs a = (m', Ok ())" "gm_wf m'"
      "\<forall>x. byte_at m' x = (if in_slice a (length bs) x then Some (bs ! (unat x - unat a)) else byte_at m x)"
    using write_slice_mapped [OF assms(1,3) True] by blast
  note mk = write_marks [OF assms(1,3) m'(1) True]
  have "read_slice m' dest a = (bs, Ok ())" if "length dest = length bs" for dest
  proof -
    have "readable byte_at m' a (length dest)"
      using ram.write_keeps_readable [OF assms m'(1)] ram.write_Ok(1) [OF assms m'(1)] that by simp
    then show ?thesis
      using ram.read_ok [OF m'(2), of a dest] ram.bytes_at_write_same [OF assms m'(1)] that by simp
  qed
  then show ?thesis
    using True m' mk by simp
qed

theorem write_slice_flat_witness:
  "\<exists>m'. write_slice (sample_memory None) [1, 2] 0x1004 = (m', Ok ()) \<and> read_slice m' [0, 0] 0x1004 = ([1, 2], Ok ()) \<and>
     byte_at m' 0x1005 = Some 2"
proof -
  have sl: "slice_mapped (sample_memory None) 0x1004 (length [1, 2 :: u8])" using sample_slice by (simp add: numeral_2_eq_2)
  have "length [1, 2 :: u8] < 2 ^ 64" "[1, 2 :: u8] \<noteq> []" by simp_all
  note fl = write_slice_flat [OF sample_memory_wf(1) this, of "0x1004", unfolded if_P [OF sl]]
  then obtain m' where m': "write_slice (sample_memory None) [1, 2] 0x1004 = (m', Ok ())"
      "\<forall>x. byte_at m' x = (if in_slice 0x1004 (length [1, 2 :: u8]) x then Some ([1, 2] ! (unat x - unat (0x1004 :: u64)))
         else byte_at (sample_memory None) x)"
      "\<forall>dest. length dest = length [1, 2 :: u8] \<longrightarrow> read_slice m' dest 0x1004 = ([1, 2], Ok ())"
    by blast
  have "byte_at m' 0x1005 = Some 2" using m'(2) by (simp add: in_slice_def)
  then show ?thesis using m'(1,3) by (intro exI [of _ m']) simp
qed

text \<open>
  C33: \<open>read_slice\<close> returns the bytes of the flat map when the whole slice is mapped, and otherwise fails
  leaving the destination untouched.
\<close>

theorem read_slice_flat:
  assumes "gm_wf m" and "length dest < 2 ^ 64" and "dest \<noteq> []"
  shows "if slice_mapped m a (length dest)
     then read_slice m dest a = (map (\<lambda>i. the (byte_at m (a + of_nat i))) [0..<length dest], Ok ()) \<and>
          (\<forall>i<length dest. byte_at m (a + of_nat i) \<noteq> None)
     else \<exists>e. read_slice m dest a = (dest, Err e)"
  using read_slice_mapped [OF assms(1), of a dest] read_slice_unmapped [OF assms(1,2) _ assms(3), of a] by simp

theorem read_slice_flat_witness:
  "\<exists>e. read_slice (sample_memory None) [3, 4, 5] 0x100e = ([3, 4, 5], Err e)"
proof -
  have "\<not> slice_mapped (sample_memory None) 0x100e (length [3, 4, 5 :: u8])"
    by (auto simp: slice_mapped_def sample_mapped intro!: exI [of _ 2])
  then show ?thesis
    using read_slice_flat [OF sample_memory_wf(1), of "[3, 4, 5]" "0x100e"] by simp
qed

text \<open>
  C28: a discard accounts for every requested byte exactly once (advised, skipped at a page edge, or failed, with
  no saturation), changes bytes only inside the requested range and only to zero, and marks every changed byte dirty
  when a tracker is present.  The hypothesis places every host mapping inside the address space.
\<close>

theorem discard_range_exact:
  assumes "gm_wf m" and "host_in_space host m" and "range_wf rng" and "discard_range host m rng = (m', out)"
  shows "unat (do_advised_bytes out) + unat (do_skipped_bytes out) + unat (do_failed_bytes out) = unat (gmr_size rng) \<and>
     gm_wf m' \<and>
     (\<forall>a. byte_at m' a \<noteq> byte_at m a \<longrightarrow> contains rng a \<and> byte_at m' a = Some 0 \<and>
        (gm_dirty_tracker m \<noteq> None \<longrightarrow> memory_dirty m' a))"
  using discard_range_spec [OF assms] by (simp add: discard_effect_def accounted_def)

theorem discard_range_exact_witness:
  "\<exists>m' out. discard_range sample_host (sample_memory None) (sample_range 0x1003 13) = (m', out) \<and>
     do_advised_bytes out = 8 \<and>
     unat (do_advised_bytes out) + unat (do_skipped_bytes out) + unat (do_failed_bytes out) = 13"
proof -
  obtain m' out where d: "discard_range sample_host (sample_memory None) (sample_range 0x1003 13) = (m', out)" by fastforce
  have "do_advised_bytes out = 8"
    using d by (auto simp: discard_range_def Let_def sample_memory_defs sample_host_def is_protected_lazy_def
        validate_mapped_range_def contains_def access_segment_def sub_or_panic_def advance_address_def checked_add_def
        is_power_of_two_def discard_region_step_def discard_segment_def align_up_usize_def align_down_usize_def
        checked_sub_def discard_advice_def reclaim_block_def host_write_def record_skipped_def record_advised_def
        discard_outcome_new_def saturating_add_def)
  moreover have "host_in_space sample_host (sample_memory None)"
    by (simp add: host_in_space_def sample_host_def sample_memory_def)
  moreover have "range_wf (sample_range 0x1003 13)" by (simp add: sample_range_def range_wf_def)
  ultimately show ?thesis
    using discard_range_exact [OF sample_memory_wf(1) _ _ d] d by (simp add: sample_range_def)
qed

text \<open>
  C29: inserting a region either makes exactly the requested, previously unmapped addresses accessible and dirty and keeps
  every other byte, or fails and leaves the visible memory and the dirty log as they were; no code path panics.
\<close>

theorem insert_region_exact:
  assumes "gm_wf m" and "range_wf rng" and "insert_region env m rng = (m', r)"
  shows "gm_wf m' \<and> r \<noteq> Panic \<and>
     (if r = Ok ()
      then \<forall>a. (is_mapped m' a \<longleftrightarrow> is_mapped m a \<or> contains rng a) \<and>
             (contains rng a \<longrightarrow> \<not> is_mapped m a \<and> (gm_dirty_tracker m \<noteq> None \<longrightarrow> memory_dirty m' a)) \<and>
             (\<not> contains rng a \<longrightarrow> byte_at m' a = byte_at m a)
      else gm_regions m' = gm_regions m \<and> gm_dirty_tracker m' = gm_dirty_tracker m \<and> (\<forall>a. byte_at m' a = byte_at m a))"
proof (cases "r = Ok ()")
  case False
  then show ?thesis using insert_region_fail [OF assms(1,3)] by (simp add: same_view_def)
next
  case True
  then have i: "inserted m m' rng" using insert_region_Ok [OF assms(1,2)] assms(3) by simp
  have "memory_dirty m' a" if "contains rng a" "gm_dirty_tracker m \<noteq> None" for a
    using i that by (auto simp: inserted_def memory_dirty_def)
  then show ?thesis using i True by (simp add: inserted_def)
qed

theorem insert_region_exact_witness:
  "\<exists>m' r. insert_region sample_env (sample_memory None) (sample_range 0x1010 8) = (m', r) \<and> r = Ok () \<and> is_mapped m' 0x1010"
proof -
  obtain m' r where i: "insert_region sample_env (sample_memory None) (sample_range 0x1010 8) = (m', r)" by fastforce
  have rw: "range_wf (sample_range 0x1010 8)" by (simp add: sample_range_def range_wf_def)
  have "r = Ok ()"
    using i by (auto simp: insert_region_def sample_memory_defs is_protected_lazy_def host_page_size_def
        system_host_page_size_def validate_host_page_size_def is_power_of_two_def validate_insert_region_def
        validate_allocation_range_def range_validate_alignment_def validate_alignment_def is_multiple_of_def
        allocation_host_size_def partition_point_def overlaps_def shared_reservation_containing_def
        insert_region_with_mapper_def allocate_region_with_mapper_def map_fresh_def checked_add_def
        insert_prepared_region_def)
  then show ?thesis
    using insert_region_exact [OF sample_memory_wf(1) rw i] i by (auto simp: sample_range_def contains_def)
qed

end
