(* ===== verification/Virtqueue.thy ===== *)
theory Virtqueue
  imports Memory_Properties
begin

text \<open>
  Split virtqueues, from \<open>crates/runtime/src/virtio_queue.rs\<close>: descriptor chains (direct and
  indirect), the driver's available ring and the device's used ring with event-index notification
  suppression.  Every access goes through \<open>read_slice\<close>, \<open>write_slice\<close> and
  \<open>validate_mapped_range\<close> of \<open>Guest_Memory\<close>; the proofs use the facts \<open>ram.*\<close> of the
  byte-memory contract only.  One call of an operation is one step: the guest does not write while
  it runs.  \<open>try_reserve_exact\<close> is the parameter \<open>alloc\<close>, and the log line of a rejected
  publication is left out.
\<close>

section \<open>Descriptors and errors\<close>

definition VIRTQUEUE_DESC_F_NEXT :: u16 where "VIRTQUEUE_DESC_F_NEXT = 1"
definition VIRTQUEUE_DESC_F_WRITE :: u16 where "VIRTQUEUE_DESC_F_WRITE = 2"
definition VIRTQUEUE_DESC_F_INDIRECT :: u16 where "VIRTQUEUE_DESC_F_INDIRECT = 4"

type_synonym virtqueue_descriptor_flags = u16

definition flags_has_next :: "virtqueue_descriptor_flags \<Rightarrow> bool" where
  "flags_has_next flags \<longleftrightarrow> flags AND VIRTQUEUE_DESC_F_NEXT \<noteq> 0"

definition flags_is_write_only :: "virtqueue_descriptor_flags \<Rightarrow> bool" where
  "flags_is_write_only flags \<longleftrightarrow> flags AND VIRTQUEUE_DESC_F_WRITE \<noteq> 0"

definition flags_is_indirect :: "virtqueue_descriptor_flags \<Rightarrow> bool" where
  "flags_is_indirect flags \<longleftrightarrow> flags AND VIRTQUEUE_DESC_F_INDIRECT \<noteq> 0"

record virtqueue_descriptor =
  vd_index :: u16
  vd_address :: guest_address
  vd_len :: u32
  vd_flags :: virtqueue_descriptor_flags
  vd_next_index :: "u16 option"

record virtqueue_descriptor_chain =
  vc_head_index :: u16
  vc_descriptors :: "virtqueue_descriptor list"

record raw_virtqueue_descriptor =
  raw_address :: u64
  raw_len :: u32
  raw_flags :: u16
  raw_next :: u16

datatype virtqueue_descriptor_chain_error =
    Chain_InvalidQueueSize u16
  | Chain_UnalignedDescriptorTable guest_address
  | Chain_InvalidHeadIndex u16 u16
  | Chain_DescriptorTableRangeOverflow guest_address u16
  | Chain_DescriptorTableAccess guest_address u16 guest_memory_access_error
  | Chain_DescriptorRead u16 guest_memory_access_error
  | Chain_InvalidNextIndex u16 u16 u16
  | Chain_UnsupportedIndirectDescriptor u16
  | Chain_InvalidIndirectDescriptorWithNext u16
  | Chain_InvalidIndirectDescriptorLength u16 u32
  | Chain_IndirectDescriptorTableRangeOverflow u16 guest_address u32
  | Chain_IndirectDescriptorTableAccess u16 guest_address u32 guest_memory_access_error
  | Chain_NestedIndirectDescriptor u16
  | Chain_DescriptorChainTooLong u16 u16
  | Chain_DescriptorChainAllocationFailed u16

datatype virtqueue_available_ring_error =
    Avail_InvalidQueueSize u16
  | Avail_UnalignedDescriptorTable guest_address
  | Avail_UnalignedAvailableRing guest_address
  | Avail_AvailableRingRangeOverflow guest_address u16
  | Avail_AvailableRingAccess guest_address u16 guest_memory_access_error
  | Avail_AvailableRingLengthTooLarge u16 u16
  | Avail_DescriptorTable virtqueue_descriptor_chain_error
  | Avail_DescriptorChain u16 virtqueue_descriptor_chain_error
  | Avail_NoDescriptorChainToUndo

datatype virtqueue_used_ring_error =
    Used_InvalidQueueSize u16
  | Used_UnalignedUsedRing guest_address
  | Used_InvalidDescriptorHead u16 u16
  | Used_InvalidElementCount nat u16
  | Used_UsedRingRangeOverflow guest_address u16
  | Used_UsedRingAccess guest_address u16 guest_memory_access_error

definition is_valid_queue_size :: "u16 \<Rightarrow> bool" where
  "is_valid_queue_size queue_size \<longleftrightarrow> queue_size \<noteq> 0 \<and> is_power_of_two queue_size"

definition validate_queue_size :: "u16 \<Rightarrow> (unit, virtqueue_descriptor_chain_error) result" where
  "validate_queue_size queue_size =
     (if is_valid_queue_size queue_size then Ok () else Err (Chain_InvalidQueueSize queue_size))"

definition validate_descriptor_table_alignment ::
    "guest_address \<Rightarrow> (unit, virtqueue_descriptor_chain_error) result" where
  "validate_descriptor_table_alignment table =
     (if is_multiple_of table 16 then Ok () else Err (Chain_UnalignedDescriptorTable table))"

definition descriptor_table_range ::
    "guest_address \<Rightarrow> u16 \<Rightarrow> (guest_memory_range, virtqueue_descriptor_chain_error) result" where
  "descriptor_table_range table queue_size =
     map_err (\<lambda>_. Chain_DescriptorTableRangeOverflow table queue_size) (range_new table (ucast queue_size * 16))"

definition validate_descriptor_table_range ::
    "guest_memory \<Rightarrow> guest_address \<Rightarrow> u16 \<Rightarrow> (unit, virtqueue_descriptor_chain_error) result" where
  "validate_descriptor_table_range m table queue_size =
     and_then (descriptor_table_range table queue_size) (\<lambda>rng.
       map_err (Chain_DescriptorTableAccess table queue_size) (validate_mapped_range m rng))"

definition validate_descriptor_index :: "u16 \<Rightarrow> u16 \<Rightarrow> (unit, virtqueue_descriptor_chain_error) result" where
  "validate_descriptor_index index queue_size =
     (if index < queue_size then Ok () else Err (Chain_InvalidNextIndex index index queue_size))"

section \<open>Reading descriptors\<close>

definition parse_raw_descriptor :: "u8 list \<Rightarrow> raw_virtqueue_descriptor" where
  "parse_raw_descriptor bytes =
     (let address_bytes = take 8 bytes; tail = drop 8 bytes;
          len_bytes = take 4 tail; tail = drop 4 tail;
          flags_bytes = take 2 tail; next_bytes = drop 2 tail in
      \<lparr>raw_address = from_le_bytes address_bytes, raw_len = from_le_bytes len_bytes,
       raw_flags = from_le_bytes flags_bytes, raw_next = from_le_bytes next_bytes\<rparr>)"

definition read_raw_descriptor ::
    "guest_memory \<Rightarrow> guest_address \<Rightarrow> u16 \<Rightarrow> (raw_virtqueue_descriptor, virtqueue_descriptor_chain_error) result" where
  "read_raw_descriptor m address index =
     (case read_slice m (replicate 16 0) address of
        (bytes, r) \<Rightarrow> and_then (map_err (Chain_DescriptorRead index) r) (\<lambda>_. Ok (parse_raw_descriptor bytes)))"

definition descriptor_address ::
    "guest_address \<Rightarrow> u16 \<Rightarrow> u16 \<Rightarrow> (guest_address, virtqueue_descriptor_chain_error) result" where
  "descriptor_address table queue_size index =
     ok_or (checked_add table (ucast index * 16)) (Chain_DescriptorTableRangeOverflow table queue_size)"

definition descriptor_of_raw :: "u16 \<Rightarrow> raw_virtqueue_descriptor \<Rightarrow> virtqueue_descriptor" where
  "descriptor_of_raw index raw =
     \<lparr>vd_index = index, vd_address = raw_address raw, vd_len = raw_len raw, vd_flags = raw_flags raw,
      vd_next_index = (if flags_has_next (raw_flags raw) then Some (raw_next raw) else None)\<rparr>"

definition read_descriptor ::
    "guest_memory \<Rightarrow> guest_address \<Rightarrow> u16 \<Rightarrow> u16 \<Rightarrow> (virtqueue_descriptor, virtqueue_descriptor_chain_error) result" where
  "read_descriptor m table queue_size index =
     and_then (descriptor_address table queue_size index) (\<lambda>address.
     and_then (read_raw_descriptor m address index) (\<lambda>raw.
     Ok (descriptor_of_raw index raw)))"

definition vd_is_indirect :: "virtqueue_descriptor \<Rightarrow> bool" where
  "vd_is_indirect d = flags_is_indirect (vd_flags d)"

definition vd_has_next :: "virtqueue_descriptor \<Rightarrow> bool" where
  "vd_has_next d \<longleftrightarrow> vd_next_index d \<noteq> None"

definition validate_indirect_descriptor_table ::
    "guest_memory \<Rightarrow> u16 \<Rightarrow> virtqueue_descriptor \<Rightarrow> u16 \<Rightarrow> (u16, virtqueue_descriptor_chain_error) result" where
  "validate_indirect_descriptor_table m head_index d queue_size =
     (let table_len = vd_len d in
      if table_len = 0 \<or> \<not> is_multiple_of table_len 16
      then Err (Chain_InvalidIndirectDescriptorLength (vd_index d) table_len)
      else
        let table_descriptor_count = table_len div 16 in
        if ucast queue_size < table_descriptor_count then Err (Chain_DescriptorChainTooLong head_index queue_size)
        else
          and_then (ok_or (try_from table_descriptor_count) (Chain_DescriptorChainTooLong head_index queue_size))
            (\<lambda>table_queue_size.
          and_then (validate_descriptor_table_alignment (vd_address d)) (\<lambda>_.
          and_then (map_err (\<lambda>_. Chain_IndirectDescriptorTableRangeOverflow (vd_index d) (vd_address d) table_len)
                     (range_new (vd_address d) (ucast table_len))) (\<lambda>table_range.
          and_then (map_err (Chain_IndirectDescriptorTableAccess (vd_index d) (vd_address d) table_len)
                     (validate_mapped_range m table_range)) (\<lambda>_.
          Ok table_queue_size)))))"

text \<open>
  The two loops run once per iteration left: \<open>n\<close> counts the rest of \<open>0..queue_size\<close>, so the
  recursion is structural and a chain that does not end within the bound is an error.
\<close>

fun read_indirect_loop ::
    "guest_memory \<Rightarrow> guest_address \<Rightarrow> u16 \<Rightarrow> u16 \<Rightarrow> u16 \<Rightarrow> nat \<Rightarrow> u16 \<Rightarrow> virtqueue_descriptor list
      \<Rightarrow> (virtqueue_descriptor_chain, virtqueue_descriptor_chain_error) result" where
  "read_indirect_loop m table indirect_queue_size head_index queue_size 0 current_index descriptors =
     Err (Chain_DescriptorChainTooLong head_index queue_size)"
| "read_indirect_loop m table indirect_queue_size head_index queue_size (Suc n) current_index descriptors =
     and_then (read_descriptor m table indirect_queue_size current_index) (\<lambda>d.
       if vd_is_indirect d then Err (Chain_NestedIndirectDescriptor (vd_index d))
       else
         case vd_next_index d of
           Some index \<Rightarrow>
             and_then (map_err (\<lambda>_. Chain_InvalidNextIndex current_index index indirect_queue_size)
                        (validate_descriptor_index index indirect_queue_size)) (\<lambda>_.
             read_indirect_loop m table indirect_queue_size head_index queue_size n index (descriptors @ [d]))
         | None \<Rightarrow> Ok \<lparr>vc_head_index = head_index, vc_descriptors = descriptors @ [d]\<rparr>)"

definition read_indirect_descriptor_chain ::
    "guest_memory \<Rightarrow> u16 \<Rightarrow> u16 \<Rightarrow> virtqueue_descriptor \<Rightarrow> bool \<Rightarrow> virtqueue_descriptor list
      \<Rightarrow> (virtqueue_descriptor_chain, virtqueue_descriptor_chain_error) result" where
  "read_indirect_descriptor_chain m head_index queue_size d indirect_descriptors descriptors =
     (if \<not> indirect_descriptors then Err (Chain_UnsupportedIndirectDescriptor (vd_index d))
      else if vd_has_next d then Err (Chain_InvalidIndirectDescriptorWithNext (vd_index d))
      else
        and_then (validate_indirect_descriptor_table m head_index d queue_size) (\<lambda>indirect_queue_size.
        and_then (ok_or (checked_add (of_nat (length descriptors) :: usize) (ucast indirect_queue_size))
                   (Chain_DescriptorChainTooLong head_index queue_size)) (\<lambda>resolved_count.
        if ucast queue_size < resolved_count then Err (Chain_DescriptorChainTooLong head_index queue_size)
        else read_indirect_loop m (vd_address d) indirect_queue_size head_index queue_size
               (unat indirect_queue_size) 0 descriptors)))"

fun read_chain_loop ::
    "guest_memory \<Rightarrow> guest_address \<Rightarrow> u16 \<Rightarrow> u16 \<Rightarrow> bool \<Rightarrow> nat \<Rightarrow> u16 \<Rightarrow> virtqueue_descriptor list
      \<Rightarrow> (virtqueue_descriptor_chain, virtqueue_descriptor_chain_error) result" where
  "read_chain_loop m table queue_size head_index indirect_descriptors 0 current_index descriptors =
     Err (Chain_DescriptorChainTooLong head_index queue_size)"
| "read_chain_loop m table queue_size head_index indirect_descriptors (Suc n) current_index descriptors =
     and_then (read_descriptor m table queue_size current_index) (\<lambda>d.
       if vd_is_indirect d
       then read_indirect_descriptor_chain m head_index queue_size d indirect_descriptors descriptors
       else
         case vd_next_index d of
           Some index \<Rightarrow>
             and_then (map_err (\<lambda>_. Chain_InvalidNextIndex current_index index queue_size)
                        (validate_descriptor_index index queue_size)) (\<lambda>_.
             read_chain_loop m table queue_size head_index indirect_descriptors n index (descriptors @ [d]))
         | None \<Rightarrow> Ok \<lparr>vc_head_index = head_index, vc_descriptors = descriptors @ [d]\<rparr>)"

definition read_descriptor_chain_with_options ::
    "(nat \<Rightarrow> bool) \<Rightarrow> guest_memory \<Rightarrow> guest_address \<Rightarrow> u16 \<Rightarrow> u16 \<Rightarrow> bool
      \<Rightarrow> (virtqueue_descriptor_chain, virtqueue_descriptor_chain_error) result" where
  "read_descriptor_chain_with_options alloc m table queue_size head_index indirect_descriptors =
     and_then (validate_queue_size queue_size) (\<lambda>_.
     and_then (validate_descriptor_table_alignment table) (\<lambda>_.
     and_then (validate_descriptor_table_range m table queue_size) (\<lambda>_.
     and_then (map_err (\<lambda>_. Chain_InvalidHeadIndex head_index queue_size)
                (validate_descriptor_index head_index queue_size)) (\<lambda>_.
     if \<not> alloc (unat queue_size) then Err (Chain_DescriptorChainAllocationFailed queue_size)
     else read_chain_loop m table queue_size head_index indirect_descriptors (unat queue_size) head_index []))))"

definition read_descriptor_chain ::
    "(nat \<Rightarrow> bool) \<Rightarrow> guest_memory \<Rightarrow> guest_address \<Rightarrow> u16 \<Rightarrow> u16
      \<Rightarrow> (virtqueue_descriptor_chain, virtqueue_descriptor_chain_error) result" where
  "read_descriptor_chain alloc m table queue_size head_index =
     read_descriptor_chain_with_options alloc m table queue_size head_index False"

section \<open>The available ring\<close>

record virtqueue_available_ring =
  va_descriptor_table :: guest_address
  va_available_ring :: guest_address
  va_queue_size :: u16
  va_next_avail :: u16
  va_can_undo_pop :: bool
  va_indirect_descriptors :: bool

definition available_ring_size :: "guest_address \<Rightarrow> u16 \<Rightarrow> (u64, virtqueue_available_ring_error) result" where
  "available_ring_size ring queue_size =
     (let overflow = Avail_AvailableRingRangeOverflow ring queue_size in
      and_then (ok_or (checked_mul (ucast queue_size) 2) overflow) (\<lambda>entry_bytes.
      and_then (ok_or (Option.bind (checked_add 4 entry_bytes) (\<lambda>sz. checked_add sz 2)) overflow) (\<lambda>ring_size.
      and_then (ok_or (checked_add ring ring_size) overflow) (\<lambda>_. Ok ring_size))))"

definition available_ring_range :: "guest_address \<Rightarrow> u16 \<Rightarrow> (guest_memory_range, virtqueue_available_ring_error) result" where
  "available_ring_range ring queue_size =
     and_then (available_ring_size ring queue_size) (\<lambda>ring_size.
       map_err (\<lambda>_. Avail_AvailableRingRangeOverflow ring queue_size) (range_new ring ring_size))"

definition validate_available_ring_range ::
    "guest_memory \<Rightarrow> guest_address \<Rightarrow> u16 \<Rightarrow> (unit, virtqueue_available_ring_error) result" where
  "validate_available_ring_range m ring queue_size =
     and_then (available_ring_range ring queue_size) (\<lambda>rng.
       map_err (Avail_AvailableRingAccess ring queue_size) (validate_mapped_range m rng))"

definition available_ring_offset_address ::
    "guest_address \<Rightarrow> u16 \<Rightarrow> u64 \<Rightarrow> (guest_address, virtqueue_available_ring_error) result" where
  "available_ring_offset_address ring queue_size offset =
     ok_or (checked_add ring offset) (Avail_AvailableRingRangeOverflow ring queue_size)"

definition available_ring_entry_address ::
    "guest_address \<Rightarrow> u16 \<Rightarrow> u16 \<Rightarrow> (guest_address, virtqueue_available_ring_error) result" where
  "available_ring_entry_address ring queue_size ring_index =
     and_then (ok_or (Option.bind (checked_mul (ucast ring_index) 2) (\<lambda>offset. checked_add offset 4))
                (Avail_AvailableRingRangeOverflow ring queue_size)) (\<lambda>entry_offset.
       available_ring_offset_address ring queue_size entry_offset)"

definition available_ring_used_event_address ::
    "guest_address \<Rightarrow> u16 \<Rightarrow> (guest_address, virtqueue_available_ring_error) result" where
  "available_ring_used_event_address ring queue_size =
     and_then (ok_or (Option.bind (checked_mul (ucast queue_size) 2) (\<lambda>offset. checked_add offset 4))
                (Avail_AvailableRingRangeOverflow ring queue_size)) (\<lambda>used_event_offset.
       available_ring_offset_address ring queue_size used_event_offset)"

definition read_u16 :: "guest_memory \<Rightarrow> guest_address \<Rightarrow> (u16, guest_memory_access_error) result" where
  "read_u16 m address =
     (case read_slice m [0, 0] address of (bytes, r) \<Rightarrow> and_then r (\<lambda>_. Ok (from_le_bytes bytes)))"

definition read_available_ring_u16 ::
    "guest_memory \<Rightarrow> guest_address \<Rightarrow> u16 \<Rightarrow> guest_address \<Rightarrow> (u16, virtqueue_available_ring_error) result" where
  "read_available_ring_u16 m ring queue_size address =
     map_err (Avail_AvailableRingAccess ring queue_size) (read_u16 m address)"

definition available_ring_with_next_avail ::
    "guest_address \<Rightarrow> guest_address \<Rightarrow> u16 \<Rightarrow> u16 \<Rightarrow> (virtqueue_available_ring, virtqueue_available_ring_error) result" where
  "available_ring_with_next_avail table ring queue_size next_avail =
     (if \<not> is_valid_queue_size queue_size then Err (Avail_InvalidQueueSize queue_size)
      else if \<not> is_multiple_of table 16 then Err (Avail_UnalignedDescriptorTable table)
      else if \<not> is_multiple_of ring 2 then Err (Avail_UnalignedAvailableRing ring)
      else
        and_then (available_ring_size ring queue_size) (\<lambda>_.
        Ok \<lparr>va_descriptor_table = table, va_available_ring = ring, va_queue_size = queue_size,
            va_next_avail = next_avail, va_can_undo_pop = False, va_indirect_descriptors = False\<rparr>))"

definition with_descriptor_chain_options :: "virtqueue_available_ring \<Rightarrow> bool \<Rightarrow> virtqueue_available_ring" where
  "with_descriptor_chain_options q enabled = q\<lparr>va_indirect_descriptors := enabled\<rparr>"

definition available_ring_checkpoint :: "virtqueue_available_ring \<Rightarrow> u16" where
  "available_ring_checkpoint q = va_next_avail q"

definition restore_checkpoint :: "virtqueue_available_ring \<Rightarrow> u16 \<Rightarrow> virtqueue_available_ring" where
  "restore_checkpoint q checkpoint = q\<lparr>va_next_avail := checkpoint, va_can_undo_pop := False\<rparr>"

definition available_validate_mapped ::
    "virtqueue_available_ring \<Rightarrow> guest_memory \<Rightarrow> (unit, virtqueue_available_ring_error) result" where
  "available_validate_mapped q m =
     and_then (map_err Avail_DescriptorTable
                (validate_descriptor_table_range m (va_descriptor_table q) (va_queue_size q))) (\<lambda>_.
     validate_available_ring_range m (va_available_ring q) (va_queue_size q))"

definition available_index ::
    "virtqueue_available_ring \<Rightarrow> guest_memory \<Rightarrow> (u16, virtqueue_available_ring_error) result" where
  "available_index q m =
     and_then (validate_available_ring_range m (va_available_ring q) (va_queue_size q)) (\<lambda>_.
     and_then (available_ring_offset_address (va_available_ring q) (va_queue_size q) 2) (\<lambda>address.
     read_available_ring_u16 m (va_available_ring q) (va_queue_size q) address))"

definition descriptor_head_at_available_index ::
    "virtqueue_available_ring \<Rightarrow> guest_memory \<Rightarrow> u16 \<Rightarrow> (u16, virtqueue_available_ring_error) result" where
  "descriptor_head_at_available_index q m avail_index =
     and_then (validate_available_ring_range m (va_available_ring q) (va_queue_size q)) (\<lambda>_.
     and_then (rem_or_panic avail_index (va_queue_size q)) (\<lambda>ring_index.
     and_then (available_ring_entry_address (va_available_ring q) (va_queue_size q) ring_index) (\<lambda>head_address.
     read_available_ring_u16 m (va_available_ring q) (va_queue_size q) head_address)))"

definition used_event ::
    "virtqueue_available_ring \<Rightarrow> guest_memory \<Rightarrow> (u16, virtqueue_available_ring_error) result" where
  "used_event q m =
     and_then (validate_available_ring_range m (va_available_ring q) (va_queue_size q)) (\<lambda>_.
     and_then (available_ring_used_event_address (va_available_ring q) (va_queue_size q)) (\<lambda>address.
     read_available_ring_u16 m (va_available_ring q) (va_queue_size q) address))"

definition available_descriptor_count ::
    "virtqueue_available_ring \<Rightarrow> guest_memory \<Rightarrow> (u16, virtqueue_available_ring_error) result" where
  "available_descriptor_count q m =
     and_then (available_index q m) (\<lambda>avail_index.
       let available_len = avail_index - va_next_avail q in
       if va_queue_size q < available_len
       then Err (Avail_AvailableRingLengthTooLarge (va_queue_size q) available_len)
       else Ok available_len)"

text \<open>Everything \<open>pop_descriptor_chain\<close> does before it advances \<open>next_avail\<close>.\<close>

definition peek_descriptor_chain ::
    "(nat \<Rightarrow> bool) \<Rightarrow> virtqueue_available_ring \<Rightarrow> guest_memory
      \<Rightarrow> (virtqueue_descriptor_chain option, virtqueue_available_ring_error) result" where
  "peek_descriptor_chain alloc q m =
     (let table = va_descriptor_table q; ring = va_available_ring q; queue_size = va_queue_size q in
      and_then (map_err Avail_DescriptorTable (validate_descriptor_table_range m table queue_size)) (\<lambda>_.
      and_then (validate_available_ring_range m ring queue_size) (\<lambda>_.
      and_then (available_ring_offset_address ring queue_size 2) (\<lambda>index_address.
      and_then (read_available_ring_u16 m ring queue_size index_address) (\<lambda>avail_index.
      let available_len = avail_index - va_next_avail q in
      if queue_size < available_len then Err (Avail_AvailableRingLengthTooLarge queue_size available_len)
      else if available_len = 0 then Ok None
      else
        and_then (rem_or_panic (va_next_avail q) queue_size) (\<lambda>ring_index.
        and_then (available_ring_entry_address ring queue_size ring_index) (\<lambda>head_address.
        and_then (read_available_ring_u16 m ring queue_size head_address) (\<lambda>head_index.
        and_then (map_err (Avail_DescriptorChain head_index)
                   (read_descriptor_chain_with_options alloc m table queue_size head_index
                     (va_indirect_descriptors q))) (\<lambda>chain.
        Ok (Some chain))))))))))"

definition pop_descriptor_chain ::
    "(nat \<Rightarrow> bool) \<Rightarrow> virtqueue_available_ring \<Rightarrow> guest_memory
      \<Rightarrow> virtqueue_available_ring \<times> (virtqueue_descriptor_chain option, virtqueue_available_ring_error) result" where
  "pop_descriptor_chain alloc q m =
     (case peek_descriptor_chain alloc q m of
        Ok (Some chain) \<Rightarrow>
          (q\<lparr>va_next_avail := va_next_avail q + 1, va_can_undo_pop := True\<rparr>, Ok (Some chain))
      | Ok None \<Rightarrow> (q, Ok None)
      | Err e \<Rightarrow> (q, Err e)
      | Panic \<Rightarrow> (q, Panic))"

definition undo_pop_descriptor_chain ::
    "virtqueue_available_ring \<Rightarrow> virtqueue_available_ring \<times> (unit, virtqueue_available_ring_error) result" where
  "undo_pop_descriptor_chain q =
     (if \<not> va_can_undo_pop q then (q, Err Avail_NoDescriptorChainToUndo)
      else (q\<lparr>va_next_avail := va_next_avail q - 1, va_can_undo_pop := False\<rparr>, Ok ()))"

section \<open>The used ring\<close>

record virtqueue_used_ring =
  vu_used_ring :: guest_address
  vu_queue_size :: u16
  vu_next_used :: u16

datatype virtqueue_notification_suppression = Disabled | EventIdx u16 u16

definition used_ring_size :: "guest_address \<Rightarrow> u16 \<Rightarrow> (u64, virtqueue_used_ring_error) result" where
  "used_ring_size ring queue_size =
     (let overflow = Used_UsedRingRangeOverflow ring queue_size in
      and_then (ok_or (checked_mul (ucast queue_size) 8) overflow) (\<lambda>entry_bytes.
      and_then (ok_or (Option.bind (checked_add 4 entry_bytes) (\<lambda>sz. checked_add sz 2)) overflow) (\<lambda>ring_size.
      and_then (ok_or (checked_add ring ring_size) overflow) (\<lambda>_. Ok ring_size))))"

definition used_ring_range :: "guest_address \<Rightarrow> u16 \<Rightarrow> (guest_memory_range, virtqueue_used_ring_error) result" where
  "used_ring_range ring queue_size =
     and_then (used_ring_size ring queue_size) (\<lambda>ring_size.
       map_err (\<lambda>_. Used_UsedRingRangeOverflow ring queue_size) (range_new ring ring_size))"

definition validate_used_ring_range ::
    "guest_memory \<Rightarrow> guest_address \<Rightarrow> u16 \<Rightarrow> (unit, virtqueue_used_ring_error) result" where
  "validate_used_ring_range m ring queue_size =
     and_then (used_ring_range ring queue_size) (\<lambda>rng.
       map_err (Used_UsedRingAccess ring queue_size) (validate_mapped_range m rng))"

definition validate_used_ring_descriptor_head :: "u16 \<Rightarrow> u16 \<Rightarrow> (unit, virtqueue_used_ring_error) result" where
  "validate_used_ring_descriptor_head head queue_size =
     (if head < queue_size then Ok () else Err (Used_InvalidDescriptorHead head queue_size))"

fun validate_used_ring_heads :: "(u16 \<times> u32) list \<Rightarrow> u16 \<Rightarrow> (unit, virtqueue_used_ring_error) result" where
  "validate_used_ring_heads [] queue_size = Ok ()"
| "validate_used_ring_heads ((head, _) # elements) queue_size =
     and_then (validate_used_ring_descriptor_head head queue_size) (\<lambda>_. validate_used_ring_heads elements queue_size)"

definition used_ring_offset_address ::
    "guest_address \<Rightarrow> u16 \<Rightarrow> u64 \<Rightarrow> (guest_address, virtqueue_used_ring_error) result" where
  "used_ring_offset_address ring queue_size offset =
     ok_or (checked_add ring offset) (Used_UsedRingRangeOverflow ring queue_size)"

definition used_ring_entry_address ::
    "guest_address \<Rightarrow> u16 \<Rightarrow> u16 \<Rightarrow> (guest_address, virtqueue_used_ring_error) result" where
  "used_ring_entry_address ring queue_size ring_index =
     and_then (ok_or (Option.bind (checked_mul (ucast ring_index) 8) (\<lambda>offset. checked_add offset 4))
                (Used_UsedRingRangeOverflow ring queue_size)) (\<lambda>entry_offset.
       used_ring_offset_address ring queue_size entry_offset)"

definition used_ring_avail_event_address ::
    "guest_address \<Rightarrow> u16 \<Rightarrow> (guest_address, virtqueue_used_ring_error) result" where
  "used_ring_avail_event_address ring queue_size =
     and_then (ok_or (Option.bind (checked_mul (ucast queue_size) 8) (\<lambda>offset. checked_add offset 4))
                (Used_UsedRingRangeOverflow ring queue_size)) (\<lambda>avail_event_offset.
       used_ring_offset_address ring queue_size avail_event_offset)"

definition used_element_bytes :: "u16 \<Rightarrow> u32 \<Rightarrow> u8 list" where
  "used_element_bytes head len = to_le_bytes (ucast head :: u32) @ to_le_bytes len"

definition write_used_ring_element ::
    "guest_memory \<Rightarrow> guest_address \<Rightarrow> u16 \<Rightarrow> guest_address \<Rightarrow> u16 \<Rightarrow> u32
      \<Rightarrow> guest_memory \<times> (unit, virtqueue_used_ring_error) result" where
  "write_used_ring_element m ring queue_size address head len =
     apsnd (map_err (Used_UsedRingAccess ring queue_size)) (write_slice m (used_element_bytes head len) address)"

definition write_used_ring_u16 ::
    "guest_memory \<Rightarrow> guest_address \<Rightarrow> u16 \<Rightarrow> guest_address \<Rightarrow> u16
      \<Rightarrow> guest_memory \<times> (unit, virtqueue_used_ring_error) result" where
  "write_used_ring_u16 m ring queue_size address v =
     apsnd (map_err (Used_UsedRingAccess ring queue_size)) (write_slice m (to_le_bytes v) address)"

definition used_ring_with_next_used ::
    "guest_address \<Rightarrow> u16 \<Rightarrow> u16 \<Rightarrow> (virtqueue_used_ring, virtqueue_used_ring_error) result" where
  "used_ring_with_next_used ring queue_size next_used =
     (if \<not> is_valid_queue_size queue_size then Err (Used_InvalidQueueSize queue_size)
      else if \<not> is_multiple_of ring 4 then Err (Used_UnalignedUsedRing ring)
      else
        and_then (used_ring_size ring queue_size) (\<lambda>_.
        Ok \<lparr>vu_used_ring = ring, vu_queue_size = queue_size, vu_next_used = next_used\<rparr>))"

definition used_index :: "virtqueue_used_ring \<Rightarrow> guest_memory \<Rightarrow> (u16, virtqueue_used_ring_error) result" where
  "used_index u m =
     and_then (validate_used_ring_range m (vu_used_ring u) (vu_queue_size u)) (\<lambda>_.
     and_then (used_ring_offset_address (vu_used_ring u) (vu_queue_size u) 2) (\<lambda>address.
     map_err (Used_UsedRingAccess (vu_used_ring u) (vu_queue_size u)) (read_u16 m address)))"

definition virtqueue_event_idx_needs_notification :: "u16 \<Rightarrow> u16 \<Rightarrow> u16 \<Rightarrow> bool" where
  "virtqueue_event_idx_needs_notification old_used new_used event \<longleftrightarrow> new_used - event - 1 < new_used - old_used"

text \<open>The element loop of a publication; \<open>k\<close> is the index of the first remaining element.\<close>

fun write_used_elements ::
    "virtqueue_used_ring \<Rightarrow> nat \<Rightarrow> guest_memory \<Rightarrow> usize \<Rightarrow> (u16 \<times> u32) list
      \<Rightarrow> guest_memory \<times> (unit, virtqueue_used_ring_error) result" where
  "write_used_elements u element_count m k [] = (m, Ok ())"
| "write_used_elements u element_count m k ((head, len) # elements) =
     (case and_then (ok_or (try_from k) (Used_InvalidElementCount element_count (vu_queue_size u))) (\<lambda>element_index.
           and_then (rem_or_panic (vu_next_used u + element_index) (vu_queue_size u)) (\<lambda>ring_index.
           used_ring_entry_address (vu_used_ring u) (vu_queue_size u) ring_index)) of
        Err e \<Rightarrow> (m, Err e)
      | Panic \<Rightarrow> (m, Panic)
      | Ok entry_address \<Rightarrow>
          (case write_used_ring_element m (vu_used_ring u) (vu_queue_size u) entry_address head len of
             (m', Ok _) \<Rightarrow> write_used_elements u element_count m' (k + 1) elements
           | (m', Err e) \<Rightarrow> (m', Err e)
           | (m', Panic) \<Rightarrow> (m', Panic)))"

definition write_used_event ::
    "virtqueue_used_ring \<Rightarrow> guest_memory \<Rightarrow> u16 \<Rightarrow> virtqueue_notification_suppression
      \<Rightarrow> guest_memory \<times> (bool, virtqueue_used_ring_error) result" where
  "write_used_event u m next_used suppression =
     (case suppression of
        Disabled \<Rightarrow> (m, Ok True)
      | EventIdx event avail_event \<Rightarrow>
          (case used_ring_avail_event_address (vu_used_ring u) (vu_queue_size u) of
             Err e \<Rightarrow> (m, Err e)
           | Panic \<Rightarrow> (m, Panic)
           | Ok address \<Rightarrow>
               apsnd (\<lambda>r. and_then r (\<lambda>_. Ok (virtqueue_event_idx_needs_notification (vu_next_used u) next_used event)))
                 (write_used_ring_u16 m (vu_used_ring u) (vu_queue_size u) address avail_event)))"

definition publish_used_elements ::
    "virtqueue_used_ring \<Rightarrow> guest_memory \<Rightarrow> (u16 \<times> u32) list \<Rightarrow> virtqueue_notification_suppression
      \<Rightarrow> virtqueue_used_ring \<times> guest_memory \<times> (bool, virtqueue_used_ring_error) result" where
  "publish_used_elements u m elements suppression =
     (let ring = vu_used_ring u; queue_size = vu_queue_size u; n = length elements in
      if elements = [] \<or> unat queue_size < n then (u, m, Err (Used_InvalidElementCount n queue_size))
      else
        case and_then (validate_used_ring_heads elements queue_size) (\<lambda>_.
             validate_used_ring_range m ring queue_size) of
          Err e \<Rightarrow> (u, m, Err e)
        | Panic \<Rightarrow> (u, m, Panic)
        | Ok _ \<Rightarrow>
            (case write_used_elements u n m 0 elements of
               (m1, Err e) \<Rightarrow> (u, m1, Err e)
             | (m1, Panic) \<Rightarrow> (u, m1, Panic)
             | (m1, Ok _) \<Rightarrow>
                 (case try_from (of_nat n :: usize) of
                    None \<Rightarrow> (u, m1, Err (Used_InvalidElementCount n queue_size))
                  | Some element_count \<Rightarrow>
                      (let next_used = vu_next_used u + element_count in
                       case write_used_event u m1 next_used suppression of
                         (m2, Err e) \<Rightarrow> (u, m2, Err e)
                       | (m2, Panic) \<Rightarrow> (u, m2, Panic)
                       | (m2, Ok needs_queue_interrupt) \<Rightarrow>
                           (case used_ring_offset_address ring queue_size 2 of
                              Err e \<Rightarrow> (u, m2, Err e)
                            | Panic \<Rightarrow> (u, m2, Panic)
                            | Ok index_address \<Rightarrow>
                                (case write_used_ring_u16 m2 ring queue_size index_address next_used of
                                   (m3, Ok _) \<Rightarrow> (u\<lparr>vu_next_used := next_used\<rparr>, m3, Ok needs_queue_interrupt)
                                 | (m3, Err e) \<Rightarrow> (u, m3, Err e)
                                 | (m3, Panic) \<Rightarrow> (u, m3, Panic)))))))"

definition publish_used_element_with_notification ::
    "virtqueue_used_ring \<Rightarrow> guest_memory \<Rightarrow> u16 \<Rightarrow> u32 \<Rightarrow> virtqueue_notification_suppression
      \<Rightarrow> virtqueue_used_ring \<times> guest_memory \<times> (bool, virtqueue_used_ring_error) result" where
  "publish_used_element_with_notification u m head len suppression = publish_used_elements u m [(head, len)] suppression"

end
