(* ===== verification/Virtqueue_Properties.thy ===== *)
theory Virtqueue_Properties
  imports Virtqueue
begin

text \<open>
  Correctness of the virtqueue model.  The first section turns every bounds check of the code into one
  statement about byte offsets from the base of a table or ring.  Descriptor chains are then shown to be the
  paths of an inductive relation over the descriptors in memory, the available ring a queue of
  descriptor heads, and a used-ring publication an all-or-nothing append with an exact notification rule.
\<close>

section \<open>Offsets from a mapped base\<close>

lemma ucast_of_nat16: "(ucast (w :: u16) :: u64) = of_nat (unat w)"
  by (simp add: word_unat_eq_iff unat_ucast_mod unat_of_nat)

lemma u16_mult_small: "n \<le> 16 \<Longrightarrow> unat (w :: u16) * n < 2 ^ 64"
  using mult_mono [of "unat w" 65536 n 16] unat_bound16 [of w] by simp

lemma ucast_mult16: "(ucast (w :: u16) :: u64) * k = of_nat (unat w * unat k)"
  by (simp only: of_nat_mult ucast_of_nat16) simp

lemma unat_offset:
  assumes "unat (a :: guest_address) + n < 2 ^ 64" and "k \<le> n"
  shows "unat (a + of_nat k) = unat a + k"
  using assms by (intro unat_add_of_nat) simp

lemma checked_add_offset:
  assumes "unat (a :: guest_address) + n < 2 ^ 64" and "k \<le> n"
  shows "checked_add a (of_nat k) = Some (a + of_nat k)"
proof -
  have "unat (of_nat k :: u64) = k" using assms by (intro unat_of_nat_id) simp
  then show ?thesis using assms by (simp add: checked_add_Some_iff unat_offset)
qed

lemma range_new_slice:
  assumes "0 < n" and "n < 2 ^ 64"
  shows "range_new a (of_nat n) = (if unat a + n < 2 ^ 64 then Ok (slice_range a n) else Err (AddressOverflow a (of_nat n)))"
proof -
  have n: "unat (of_nat n :: u64) = n" using assms(2) by (intro unat_of_nat_id) simp
  then have "of_nat n \<noteq> (0 :: u64)" using assms(1) by (metis less_irrefl unat_0)
  then show ?thesis using n by (simp add: range_new_def checked_add_def slice_range_def)
qed

lemma validate_mapped_slice:
  assumes "gm_wf m" and "0 < n" and "unat a + n < 2 ^ 64"
  shows "validate_mapped_range m (slice_range a n) =
     (if readable byte_at m a n then Ok () else Err (UnmappedRange (slice_range a n)))"
proof -
  have "(\<forall>x. contains (slice_range a n) x \<longrightarrow> is_mapped m x) \<longleftrightarrow> slice_mapped m a n"
    using slice_range_wf(2) [OF assms(2,3)] slice_mapped_iff [OF assms(3)] by simp
  then show ?thesis
    using validate_mapped_range_eq [OF gm_wf_order [OF assms(1)] slice_range_wf(1) [OF assms(2,3)]]
      slice_mapped_readable [OF assms(1)] by simp
qed

lemma readable_sub:
  assumes "readable byte m a n" and "k + j \<le> n"
  shows "readable byte m (a + of_nat k) j"
proof -
  have u: "unat (a + of_nat k) = unat a + k" using assms by (intro unat_offset [of _ n]) (auto simp: readable_def)
  have "byte m (a + of_nat k + of_nat i) \<noteq> None" if "i < j" for i
  proof -
    have "a + of_nat k + of_nat i = a + of_nat (k + i)" by (simp add: add.assoc)
    moreover have "k + i < n" using assms(2) that by simp
    ultimately show ?thesis using assms(1) unfolding readable_def by metis
  qed
  then show ?thesis using assms u by (auto simp: readable_def)
qed

definition u16_at :: "guest_memory \<Rightarrow> guest_address \<Rightarrow> u16" where
  "u16_at m a = from_le_bytes (bytes_at byte_at m a 2)"

lemma read_u16_eq: "gm_wf m \<Longrightarrow> readable byte_at m a 2 \<Longrightarrow> read_u16 m a = Ok (u16_at m a)"
  using ram.read_ok [of m a "[0, 0]"] by (simp add: read_u16_def u16_at_def numeral_2_eq_2)

subsection \<open>Ring geometry\<close>

text \<open>
  Both rings are a 4-byte header, \<open>queue_size\<close> entries of \<open>c\<close> bytes (2 or 8) and a 2-byte event field.
\<close>

lemma entry_bytes:
  fixes i :: u16 and c :: u64
  assumes "unat c \<le> 16"
  shows "checked_mul (ucast i) c = Some (of_nat (unat i * unat c))"
    and "unat (of_nat (unat i * unat c) :: u64) = unat i * unat c"
    and "checked_add (of_nat (unat i * unat c) :: u64) 4 = Some (of_nat (4 + unat i * unat c))"
proof -
  have lt: "unat i * unat c < 2 ^ 64" "4 + unat i * unat c < 2 ^ 64" "unat i * unat c \<le> 65535 * 16"
    using u16_mult_small [OF assms, of i] mult_mono [of "unat i" 65535 "unat c" 16] assms unat_bound16 [of i] by simp_all
  show u: "unat (of_nat (unat i * unat c) :: u64) = unat i * unat c" using lt(1) by (intro unat_of_nat_id) simp
  have "unat (ucast i :: u64) = unat i" using unat_bound16 [of i] by (simp add: unat_ucast_mod)
  then show "checked_mul (ucast i) c = Some (of_nat (unat i * unat c))"
    using lt(1) u by (simp add: checked_mul_Some_iff)
  have "unat (of_nat (4 + unat i * unat c) :: u64) = 4 + unat i * unat c" using lt(2) by (intro unat_of_nat_id) simp
  then show "checked_add (of_nat (unat i * unat c) :: u64) 4 = Some (of_nat (4 + unat i * unat c))"
    using u by (simp add: checked_add_Some_iff)
qed

text \<open>
  The code computes each ring's size and addresses with checked arithmetic; all of it is exact as soon as
  the ring as a whole fits in the address space.
\<close>

lemma ring_size_steps:
  fixes q :: u16 and c :: u64
  assumes "unat c \<le> 16"
  shows "checked_mul (ucast q) c = Some (of_nat (unat q * unat c))"
    and "Option.bind (checked_add 4 (of_nat (unat q * unat c) :: u64)) (\<lambda>sz. checked_add sz 2) = Some (of_nat (6 + unat q * unat c))"
proof -
  show "checked_mul (ucast q) c = Some (of_nat (unat q * unat c))" by (rule entry_bytes [OF assms])
  let ?n = "unat q * unat c"
  have lt: "?n \<le> 65535 * 16"
    using mult_mono [of "unat q" 65535 "unat c" 16] assms unat_bound16 [of q] by simp
  have "unat (of_nat ?n :: u64) = ?n" "unat (of_nat (4 + ?n) :: u64) = 4 + ?n" "unat (of_nat (6 + ?n) :: u64) = 6 + ?n"
    using lt by (intro unat_of_nat_id; simp)+
  then have "checked_add 4 (of_nat ?n :: u64) = Some (of_nat (4 + ?n))" "checked_add (of_nat (4 + ?n) :: u64) 2 = Some (of_nat (6 + ?n))"
    by (simp_all only: checked_add_Some_iff) simp_all
  then show "Option.bind (checked_add 4 (of_nat ?n :: u64)) (\<lambda>sz. checked_add sz 2) = Some (of_nat (6 + ?n))" by simp
qed

lemma u16_ring_bound: "n \<le> 16 \<Longrightarrow> 6 + unat (q :: u16) * n < 2 ^ 64"
  using mult_mono [of "unat q" 65535 n 16] unat_bound16 [of q] by simp

lemma used_ring_size_eq:
  "used_ring_size ring q =
     (if unat ring + (6 + unat q * 8) < 2 ^ 64 then Ok (of_nat (6 + unat q * 8)) else Err (Used_UsedRingRangeOverflow ring q))"
proof -
  have "unat (of_nat (6 + unat q * 8) :: u64) = 6 + unat q * 8"
    using u16_ring_bound [of 8 q] by (intro unat_of_nat_id) simp
  then show ?thesis
    using ring_size_steps [of 8 q] by (simp add: used_ring_size_def Let_def checked_add_def)
qed

lemma used_ring_range_eq:
  "used_ring_range ring q =
     (if unat ring + (6 + unat q * 8) < 2 ^ 64 then Ok (slice_range ring (6 + unat q * 8)) else Err (Used_UsedRingRangeOverflow ring q))"
  unfolding used_ring_range_def used_ring_size_eq using range_new_slice [OF _ u16_ring_bound [of 8 q], of ring] by simp

lemma available_ring_size_eq:
  "available_ring_size ring q =
     (if unat ring + (6 + unat q * 2) < 2 ^ 64 then Ok (of_nat (6 + unat q * 2)) else Err (Avail_AvailableRingRangeOverflow ring q))"
proof -
  have "unat (of_nat (6 + unat q * 2) :: u64) = 6 + unat q * 2"
    using u16_ring_bound [of 2 q] by (intro unat_of_nat_id) simp
  then show ?thesis
    using ring_size_steps [of 2 q] by (simp add: available_ring_size_def Let_def checked_add_def)
qed

lemma available_ring_range_eq:
  "available_ring_range ring q =
     (if unat ring + (6 + unat q * 2) < 2 ^ 64 then Ok (slice_range ring (6 + unat q * 2)) else Err (Avail_AvailableRingRangeOverflow ring q))"
  unfolding available_ring_range_def available_ring_size_eq using range_new_slice [OF _ u16_ring_bound [of 2 q], of ring] by simp

lemma validate_used_ring_range_eq:
  assumes "gm_wf m"
  shows "validate_used_ring_range m ring q = Ok () \<longleftrightarrow> readable byte_at m ring (6 + unat q * 8)"
    and "validate_used_ring_range m ring q \<noteq> Panic"
  using validate_mapped_slice [OF assms, of "6 + unat q * 8" ring]
  by (auto simp: validate_used_ring_range_def used_ring_range_eq readable_def)

lemma validate_available_ring_range_eq:
  assumes "gm_wf m"
  shows "validate_available_ring_range m ring q = Ok () \<longleftrightarrow> readable byte_at m ring (6 + unat q * 2)"
    and "validate_available_ring_range m ring q \<noteq> Panic"
  using validate_mapped_slice [OF assms, of "6 + unat q * 2" ring]
  by (auto simp: validate_available_ring_range_def available_ring_range_eq readable_def)

lemma used_addresses:
  assumes "readable byte_at m ring (6 + unat q * 8)" and "i \<le> q"
  shows "used_ring_entry_address ring q i = Ok (ring + of_nat (4 + unat i * 8))"
    and "used_ring_avail_event_address ring q = Ok (ring + of_nat (4 + unat q * 8))"
    and "used_ring_offset_address ring q 2 = Ok (ring + of_nat 2)"
proof -
  have lt: "unat ring + (6 + unat q * 8) < 2 ^ 64" using assms(1) by (simp add: readable_def)
  have "unat i * 8 \<le> unat q * 8" using assms(2) by (simp add: word_nat)
  then show "used_ring_entry_address ring q i = Ok (ring + of_nat (4 + unat i * 8))"
    "used_ring_avail_event_address ring q = Ok (ring + of_nat (4 + unat q * 8))"
    "used_ring_offset_address ring q 2 = Ok (ring + of_nat 2)"
    using entry_bytes [of 8 i] entry_bytes [of 8 q] checked_add_offset [OF lt, of "4 + unat i * 8"]
      checked_add_offset [OF lt, of "4 + unat q * 8"] checked_add_offset [OF lt, of 2]
    by (simp_all add: used_ring_entry_address_def used_ring_avail_event_address_def used_ring_offset_address_def)
qed

lemma available_addresses:
  assumes "readable byte_at m ring (6 + unat q * 2)" and "i \<le> q"
  shows "available_ring_entry_address ring q i = Ok (ring + of_nat (4 + unat i * 2))"
    and "available_ring_used_event_address ring q = Ok (ring + of_nat (4 + unat q * 2))"
    and "available_ring_offset_address ring q 2 = Ok (ring + of_nat 2)"
proof -
  have lt: "unat ring + (6 + unat q * 2) < 2 ^ 64" using assms(1) by (simp add: readable_def)
  have "unat i * 2 \<le> unat q * 2" using assms(2) by (simp add: word_nat)
  then show "available_ring_entry_address ring q i = Ok (ring + of_nat (4 + unat i * 2))"
    "available_ring_used_event_address ring q = Ok (ring + of_nat (4 + unat q * 2))"
    "available_ring_offset_address ring q 2 = Ok (ring + of_nat 2)"
    using entry_bytes [of 2 i] entry_bytes [of 2 q] checked_add_offset [OF lt, of "4 + unat i * 2"]
      checked_add_offset [OF lt, of "4 + unat q * 2"] checked_add_offset [OF lt, of 2]
    by (simp_all add: available_ring_entry_address_def available_ring_used_event_address_def
        available_ring_offset_address_def)
qed

section \<open>Descriptor chains\<close>

definition desc_at :: "guest_memory \<Rightarrow> guest_address \<Rightarrow> u16 \<Rightarrow> virtqueue_descriptor" where
  "desc_at m table i = descriptor_of_raw i (parse_raw_descriptor (bytes_at byte_at m (table + of_nat (unat i * 16)) 16))"

lemma vd_index_desc_at [simp]: "vd_index (desc_at m table i) = i"
  by (simp add: desc_at_def descriptor_of_raw_def)

lemma read_descriptor_eq:
  assumes "gm_wf m" and "readable byte_at m table (unat q * 16)" and "i < q"
  shows "read_descriptor m table q i = Ok (desc_at m table i)"
proof -
  have le: "unat i * 16 + 16 \<le> unat q * 16" using assms(3) by (simp add: word_nat)
  have lt: "unat table + unat q * 16 < 2 ^ 64" using assms(2) by (simp add: readable_def)
  have "checked_add table (of_nat (unat i * 16)) = Some (table + of_nat (unat i * 16))"
    using le by (intro checked_add_offset [OF lt]) simp
  moreover have "ucast i * 16 = (of_nat (unat i * 16) :: u64)" using ucast_mult16 [of i 16] by simp
  ultimately have "descriptor_address table q i = Ok (table + of_nat (unat i * 16))"
    by (simp only: descriptor_address_def ok_or.simps)
  then show ?thesis
    using ram.read_ok [OF assms(1), of "table + of_nat (unat i * 16)" "replicate 16 0"]
      readable_sub [OF assms(2) le]
    by (simp add: read_descriptor_def read_raw_descriptor_def desc_at_def)
qed

lemma validate_descriptor_table_range_eq:
  assumes "gm_wf m" and "q \<noteq> 0"
  shows "validate_descriptor_table_range m table q = Ok () \<longleftrightarrow> readable byte_at m table (unat q * 16)"
    and "validate_descriptor_table_range m table q \<noteq> Panic"
proof -
  let ?n = "unat q * 16"
  have n: "0 < ?n" "?n < 2 ^ 64" using assms(2) u16_mult_small [of 16 q] by (simp_all add: unat_gt_0)
  have "ucast q * 16 = (of_nat ?n :: u64)" using ucast_mult16 [of q 16] by simp
  then have "validate_descriptor_table_range m table q =
      and_then (map_err (\<lambda>_. Chain_DescriptorTableRangeOverflow table q)
        (if unat table + ?n < 2 ^ 64 then Ok (slice_range table ?n) else Err (AddressOverflow table (of_nat ?n))))
        (\<lambda>rng. map_err (Chain_DescriptorTableAccess table q) (validate_mapped_range m rng))"
    by (simp only: validate_descriptor_table_range_def descriptor_table_range_def range_new_slice [OF n])
  then show "validate_descriptor_table_range m table q = Ok () \<longleftrightarrow> readable byte_at m table ?n"
    "validate_descriptor_table_range m table q \<noteq> Panic"
    using validate_mapped_slice [OF assms(1) n(1), of table] by (auto simp: readable_def)
qed

text \<open>
  \<open>chain_of m table q indirect k i ds\<close>: following the descriptors of the table of \<open>q\<close> entries from entry \<open>i\<close>
  yields the buffers \<open>ds\<close>, using at most \<open>k\<close> entries; an indirect descriptor ends the direct part and is
  replaced by the chain of its own table, which counts with its full size and holds no further indirection.
\<close>

definition indirect_table :: "guest_memory \<Rightarrow> virtqueue_descriptor \<Rightarrow> u16 \<Rightarrow> bool" where
  "indirect_table m d n \<longleftrightarrow> n \<noteq> 0 \<and> unat (vd_len d) = unat n * 16 \<and> is_multiple_of (vd_address d) 16 \<and>
     readable byte_at m (vd_address d) (unat n * 16)"

inductive chain_of ::
    "guest_memory \<Rightarrow> guest_address \<Rightarrow> u16 \<Rightarrow> bool \<Rightarrow> nat \<Rightarrow> u16 \<Rightarrow> virtqueue_descriptor list \<Rightarrow> bool" where
  chain_last:
    "chain_of m table q indirect (Suc k) i [desc_at m table i]"
    if "\<not> vd_is_indirect (desc_at m table i)" and "vd_next_index (desc_at m table i) = None"
| chain_next:
    "chain_of m table q indirect (Suc k) i (desc_at m table i # ds)"
    if "\<not> vd_is_indirect (desc_at m table i)" and "vd_next_index (desc_at m table i) = Some j" and "j < q"
      and "chain_of m table q indirect k j ds"
| chain_indirect:
    "chain_of m table q True (Suc k) i ds"
    if "vd_is_indirect (desc_at m table i)" and "vd_next_index (desc_at m table i) = None"
      and "indirect_table m (desc_at m table i) n" and "unat n \<le> Suc k"
      and "chain_of m (vd_address (desc_at m table i)) n False (unat n) 0 ds"

inductive_cases chain_of_0E: "chain_of m table q indirect 0 i ds"
inductive_simps chain_of_Suc: "chain_of m table q indirect (Suc k) i ds"
inductive_simps chain_of_direct: "chain_of m table q False (Suc k) i ds"

lemma chain_of_0 [simp]: "\<not> chain_of m table q indirect 0 i ds"
  by (auto elim: chain_of_0E)

lemma chain_of_length: "chain_of m table q indirect k i ds \<Longrightarrow> ds \<noteq> [] \<and> length ds \<le> k"
  by (induction rule: chain_of.induct) auto

lemma chain_of_no_indirect: "chain_of m table q indirect k i ds \<Longrightarrow> d \<in> set ds \<Longrightarrow> \<not> vd_is_indirect d"
  by (induction rule: chain_of.induct) auto

lemma chain_of_last: "chain_of m table q indirect k i ds \<Longrightarrow> vd_next_index (last ds) = None"
  by (induction rule: chain_of.induct) (auto dest: chain_of_length)

lemma chain_of_direct_unique:
  "chain_of m table q False k i ds \<Longrightarrow> chain_of m table q False k' i ds' \<Longrightarrow> ds = ds'"
proof (induction k arbitrary: k' i ds ds')
  case (Suc k)
  from Suc.prems obtain l where "k' = Suc l" by (cases k') auto
  then show ?case using Suc by (fastforce simp: chain_of_direct)
qed simp

lemma chain_of_direct_suffix:
  "chain_of m table q False k i ds \<Longrightarrow> d \<in> set (tl ds) \<Longrightarrow>
     \<exists>k' ds'. chain_of m table q False k' (vd_index d) ds' \<and> length ds' < length ds"
proof (induction k arbitrary: i ds)
  case (Suc k)
  from Suc.prems obtain j es where e: "ds = desc_at m table i # es" "chain_of m table q False k j es"
    by (auto simp: chain_of_direct)
  then obtain e' es' where es: "es = e' # es'" using chain_of_length [OF e(2)] by (cases es) auto
  have hd: "vd_index e' = j" using e(2) es by (cases k) (auto simp: chain_of_direct)
  show ?case
  proof (cases "d = e'")
    case True
    then show ?thesis using e hd by auto
  next
    case False
    then have "d \<in> set (tl es)" using Suc.prems(2) e es by auto
    then show ?thesis using Suc.IH [OF e(2)] e(1) by fastforce
  qed
qed simp

lemma chain_of_direct_distinct:
  "chain_of m table q False k i ds \<Longrightarrow> distinct (map vd_index ds)"
proof (induction k arbitrary: i ds)
  case (Suc k)
  from Suc.prems consider "ds = [desc_at m table i]"
    | j es where "ds = desc_at m table i # es" "chain_of m table q False k j es"
    by (auto simp: chain_of_direct)
  then show ?case
  proof cases
    case 2
    have "i \<noteq> vd_index d" if "d \<in> set es" for d
      using chain_of_direct_suffix [OF Suc.prems, of d] chain_of_direct_unique [OF Suc.prems] that 2(1) by fastforce
    then show ?thesis using 2 Suc.IH by auto
  qed simp
qed simp

subsection \<open>The loops compute the chains\<close>

lemma validate_indirect_table_Ok:
  assumes "gm_wf m"
  shows "validate_indirect_descriptor_table m head d q = Ok n \<longleftrightarrow> indirect_table m d n \<and> n \<le> q"
    and "validate_indirect_descriptor_table m head d q \<noteq> Panic"
proof -
  let ?L = "vd_len d"
  have ul: "unat (ucast ?L :: u64) = unat ?L" using unat_bound32 [of ?L] by (simp add: unat_ucast_mod)
  have uq: "unat (ucast q :: u32) = unat q" using unat_bound16 [of q] by (simp add: unat_ucast_mod)
  have uc: "unat (?L div 16) = unat ?L div 16" by (simp add: unat_div)
  have oL: "(ucast ?L :: u64) = of_nat (unat ?L)" using ul by (simp add: word_unat_eq_iff unat_of_nat)
  have rn: "range_new (vd_address d) (ucast ?L) =
      (if unat (vd_address d) + unat ?L < 2 ^ 64 then Ok (slice_range (vd_address d) (unat ?L))
       else Err (AddressOverflow (vd_address d) (of_nat (unat ?L))))" if "?L \<noteq> 0"
    unfolding oL using that unat_bound32 [of ?L] by (intro range_new_slice) (simp_all add: unat_gt_0)
  have mul: "is_multiple_of ?L 16 \<longleftrightarrow> 16 dvd unat ?L" by (simp add: is_multiple_of_nat)
  have vm: "validate_mapped_range m (slice_range (vd_address d) (unat ?L)) =
      (if readable byte_at m (vd_address d) (unat ?L) then Ok () else Err (UnmappedRange (slice_range (vd_address d) (unat ?L))))"
    if "?L \<noteq> 0" "unat (vd_address d) + unat ?L < 2 ^ 64"
    using that by (intro validate_mapped_slice [OF assms]) (simp_all add: unat_gt_0)
  have n: "try_from (?L div 16) = Some n \<longleftrightarrow> unat ?L = unat n * 16" if "16 dvd unat ?L"
    unfolding try_from_Some_iff uc using that by auto
  have sz: "ucast q < ?L div 16 \<longleftrightarrow> unat q < unat ?L div 16" by (simp add: word_nat uq uc)
  have nz: "n \<noteq> 0" if "?L \<noteq> 0" "unat ?L = unat n * 16" using that by (auto simp: unat_eq_zero)
  note df = validate_indirect_descriptor_table_def Let_def validate_descriptor_table_alignment_def mul sz
  show "validate_indirect_descriptor_table m head d q \<noteq> Panic"
    using rn vm by (auto simp: df result_iffs split: if_splits)
  show "validate_indirect_descriptor_table m head d q = Ok n \<longleftrightarrow> indirect_table m d n \<and> n \<le> q"
  proof (cases "?L \<noteq> 0 \<and> 16 dvd unat ?L")
    case True
    then show ?thesis
      using rn vm n nz by (auto simp: df indirect_table_def result_iffs word_nat uq uc readable_def split: if_splits)
  next
    case False
    then have "\<not> indirect_table m d n" by (auto simp: indirect_table_def unat_eq_zero)
    then show ?thesis using False by (auto simp: df)
  qed
qed

lemma read_indirect_loop_Ok:
  assumes "gm_wf m" and "readable byte_at m table (unat n * 16)" and "i < n"
  shows "read_indirect_loop m table n head q k i acc = Ok c \<longleftrightarrow>
      (\<exists>ds. c = \<lparr>vc_head_index = head, vc_descriptors = acc @ ds\<rparr> \<and> chain_of m table n False k i ds)"
    and "read_indirect_loop m table n head q k i acc \<noteq> Panic"
  using assms(3)
proof (induction k arbitrary: i acc)
  case (Suc k)
  note rd = read_descriptor_eq [OF assms(1,2)]
  {
    case 1
    then show ?case
      by (auto simp: rd Suc.IH(1) chain_of_direct validate_descriptor_index_def split: option.splits)
  next
    case 2
    then show ?case
      by (auto simp: rd Suc.IH(2) validate_descriptor_index_def split: option.splits)
  }
qed simp_all

lemma read_indirect_chain_Ok:
  assumes wf: "gm_wf m" and len: "unat q = length acc + Suc k"
  shows "read_indirect_descriptor_chain m head q d indirect acc = Ok c \<longleftrightarrow>
      indirect \<and> vd_next_index d = None \<and> (\<exists>n ds. indirect_table m d n \<and> unat n \<le> Suc k \<and>
        c = \<lparr>vc_head_index = head, vc_descriptors = acc @ ds\<rparr> \<and> chain_of m (vd_address d) n False (unat n) 0 ds)"
    and "read_indirect_descriptor_chain m head q d indirect acc \<noteq> Panic"
proof -
  have la: "unat (of_nat (length acc) :: usize) = length acc"
    using len unat_bound16 [of q] by (intro unat_of_nat_id) simp
  have uc: "unat (ucast (w :: u16) :: usize) = unat w" for w using unat_bound16 [of w] by (simp add: unat_ucast_mod)
  have ca: "checked_add (of_nat (length acc) :: usize) (ucast n) = Some (of_nat (length acc) + ucast n)"
    and ua: "unat (of_nat (length acc) + ucast n :: usize) = length acc + unat n" for n :: u16
    using len unat_bound16 [of q] unat_bound16 [of n] la uc [of n]
    by (simp_all add: checked_add_def unat_add_no_overflow)
  have tab: "readable byte_at m (vd_address d) (unat n * 16) \<and> 0 < n" if "indirect_table m d n" for n
    using that by (auto simp: indirect_table_def word_neq_0_conv)
  note lp = read_indirect_loop_Ok [OF wf, of "vd_address d"]
  show "read_indirect_descriptor_chain m head q d indirect acc \<noteq> Panic"
    using validate_indirect_table_Ok [OF wf, of head d q] lp(2) tab
    by (auto simp: read_indirect_descriptor_chain_def and_then_Panic_iff ca)
  show "read_indirect_descriptor_chain m head q d indirect acc = Ok c \<longleftrightarrow>
      indirect \<and> vd_next_index d = None \<and> (\<exists>n ds. indirect_table m d n \<and> unat n \<le> Suc k \<and>
        c = \<lparr>vc_head_index = head, vc_descriptors = acc @ ds\<rparr> \<and> chain_of m (vd_address d) n False (unat n) 0 ds)"
    using validate_indirect_table_Ok(1) [OF wf, of head d q] lp(1) tab len
    by (auto simp: read_indirect_descriptor_chain_def and_then_Ok_iff ca ua uc vd_has_next_def word_nat not_less)
qed

lemma read_chain_loop_Ok:
  assumes wf: "gm_wf m" and tb: "readable byte_at m table (unat q * 16)" and "i < q" and "unat q = length acc + k"
  shows "read_chain_loop m table q head indirect k i acc = Ok c \<longleftrightarrow>
      (\<exists>ds. c = \<lparr>vc_head_index = head, vc_descriptors = acc @ ds\<rparr> \<and> chain_of m table q indirect k i ds)"
    and "read_chain_loop m table q head indirect k i acc \<noteq> Panic"
  using assms(3,4)
proof (induction k arbitrary: i acc)
  case (Suc k)
  note rd = read_descriptor_eq [OF wf tb]
  {
    case 1
    then show ?case
      by (auto simp: rd Suc.IH(1) chain_of_Suc validate_descriptor_index_def read_indirect_chain_Ok(1) [OF wf 1(2)]
          split: option.splits)
  next
    case 2
    then show ?case
      by (auto simp: rd Suc.IH(2) validate_descriptor_index_def read_indirect_chain_Ok(2) [OF wf 2(2)]
          split: option.splits)
  }
qed simp_all

lemma read_chain_Ok_iff:
  assumes wf: "gm_wf m"
  shows "read_descriptor_chain_with_options alloc m table q head indirect = Ok c \<longleftrightarrow>
      is_valid_queue_size q \<and> is_multiple_of table 16 \<and> readable byte_at m table (unat q * 16) \<and> head < q \<and>
      alloc (unat q) \<and> vc_head_index c = head \<and> chain_of m table q indirect (unat q) head (vc_descriptors c)"
    and "read_descriptor_chain_with_options alloc m table q head indirect \<noteq> Panic"
proof -
  have nz: "q \<noteq> 0" if "is_valid_queue_size q" using that by (simp add: is_valid_queue_size_def)
  note df = read_descriptor_chain_with_options_def validate_queue_size_def validate_descriptor_table_alignment_def
    validate_descriptor_index_def
  note tb = validate_descriptor_table_range_eq [OF wf, of q table]
  note lp = read_chain_loop_Ok [OF wf, of table q head "[]" "unat q"]
  show "read_descriptor_chain_with_options alloc m table q head indirect \<noteq> Panic"
    using tb lp(2) nz by (auto simp: df and_then_Panic_iff)
  have c: "(\<exists>ds. c = \<lparr>vc_head_index = head, vc_descriptors = ds\<rparr> \<and> P ds) \<longleftrightarrow> vc_head_index c = head \<and> P (vc_descriptors c)" for P
    by (cases c) auto
  show "read_descriptor_chain_with_options alloc m table q head indirect = Ok c \<longleftrightarrow>
      is_valid_queue_size q \<and> is_multiple_of table 16 \<and> readable byte_at m table (unat q * 16) \<and> head < q \<and>
      alloc (unat q) \<and> vc_head_index c = head \<and> chain_of m table q indirect (unat q) head (vc_descriptors c)"
    using tb(1) lp(1) [of head indirect c] nz by (auto simp: df and_then_Ok_iff c split: if_splits)
qed

section \<open>The available ring as a queue of heads\<close>

text \<open>
  What the driver has made available and the device has not popped: the heads from \<open>next_avail\<close> up to the
  index field, each at its slot modulo the queue size.
\<close>

definition avail_idx :: "virtqueue_available_ring \<Rightarrow> guest_memory \<Rightarrow> u16" where
  "avail_idx q m = u16_at m (va_available_ring q + of_nat 2)"

definition head_at :: "virtqueue_available_ring \<Rightarrow> guest_memory \<Rightarrow> u16 \<Rightarrow> u16" where
  "head_at q m index = u16_at m (va_available_ring q + of_nat (4 + unat (index mod va_queue_size q) * 2))"

definition pending :: "virtqueue_available_ring \<Rightarrow> guest_memory \<Rightarrow> u16 list" where
  "pending q m = map (\<lambda>k. head_at q m (va_next_avail q + of_nat k)) [0..<unat (avail_idx q m - va_next_avail q)]"

definition ring_ready :: "virtqueue_available_ring \<Rightarrow> guest_memory \<Rightarrow> bool" where
  "ring_ready q m \<longleftrightarrow> is_valid_queue_size (va_queue_size q) \<and> is_multiple_of (va_descriptor_table q) 16 \<and>
     readable byte_at m (va_descriptor_table q) (unat (va_queue_size q) * 16) \<and>
     readable byte_at m (va_available_ring q) (6 + unat (va_queue_size q) * 2)"

lemma pending_Cons:
  assumes "avail_idx q m \<noteq> va_next_avail q"
  shows "pending q m = head_at q m (va_next_avail q) # pending (q\<lparr>va_next_avail := va_next_avail q + 1, va_can_undo_pop := b\<rparr>) m"
proof -
  let ?n = "unat (avail_idx q m - va_next_avail q)"
  have nz: "avail_idx q m - va_next_avail q \<noteq> 0" using assms by simp
  have "unat (avail_idx q m - va_next_avail q - 1) = ?n - 1" by (rule unat_pred [OF nz])
  then have l: "unat (avail_idx q m - (va_next_avail q + 1)) = ?n - 1" by (simp add: diff_diff_eq)
  have "0 < ?n" using nz unat_gt_0 by blast
  then have "[0..<?n] = 0 # map Suc [0..<?n - 1]" by (cases ?n) (simp_all add: upt_conv_Cons map_Suc_upt del: upt_Suc)
  then show ?thesis
    using l by (simp add: pending_def head_at_def avail_idx_def algebra_simps)
qed

lemma pending_Nil_iff: "pending q m = [] \<longleftrightarrow> avail_idx q m = va_next_avail q"
  by (simp add: pending_def unat_eq_zero)

lemma length_pending: "length (pending q m) = unat (avail_idx q m - va_next_avail q)"
  by (simp add: pending_def)

lemma available_reads:
  assumes wf: "gm_wf m" and rd: "readable byte_at m (va_available_ring q) (6 + unat (va_queue_size q) * 2)"
    and nz: "va_queue_size q \<noteq> 0"
  shows "available_index q m = Ok (avail_idx q m)"
    and "descriptor_head_at_available_index q m index = Ok (head_at q m index)"
    and "used_event q m = Ok (u16_at m (va_available_ring q + of_nat (4 + unat (va_queue_size q) * 2)))"
proof -
  let ?r = "va_available_ring q" and ?q = "va_queue_size q"
  have v: "validate_available_ring_range m ?r ?q = Ok ()" using validate_available_ring_range_eq(1) [OF wf] rd by blast
  have md: "index mod ?q < ?q" using nz by (simp add: word_mod_less_divisor word_neq_0_conv)
  then have k: "4 + unat (index mod ?q) * 2 + 2 \<le> 6 + unat ?q * 2" by (simp add: word_nat)
  note ad = available_addresses [OF rd, of "index mod ?q"]
  have r1: "read_u16 m (?r + of_nat 2) = Ok (u16_at m (?r + of_nat 2))"
    by (rule read_u16_eq [OF wf readable_sub [OF rd]]) simp
  have r2: "read_u16 m (?r + of_nat (4 + unat (index mod ?q) * 2)) = Ok (head_at q m index)"
    unfolding head_at_def by (rule read_u16_eq [OF wf readable_sub [OF rd k]])
  have r3: "read_u16 m (?r + of_nat (4 + unat ?q * 2)) = Ok (u16_at m (?r + of_nat (4 + unat ?q * 2)))"
    by (rule read_u16_eq [OF wf readable_sub [OF rd]]) simp
  show "available_index q m = Ok (avail_idx q m)"
    using v ad(3) md r1 by (simp add: available_index_def read_available_ring_u16_def avail_idx_def)
  show "descriptor_head_at_available_index q m index = Ok (head_at q m index)"
    using v ad(1) md r2 nz by (simp add: descriptor_head_at_available_index_def read_available_ring_u16_def rem_or_panic_def)
  show "used_event q m = Ok (u16_at m (?r + of_nat (4 + unat ?q * 2)))"
    using v ad(2) md r3 by (simp add: used_event_def read_available_ring_u16_def)
qed

lemma peek_descriptor_chain_eq:
  assumes wf: "gm_wf m" and rdy: "ring_ready q m"
  shows "peek_descriptor_chain alloc q m =
     (let n = avail_idx q m - va_next_avail q in
      if va_queue_size q < n then Err (Avail_AvailableRingLengthTooLarge (va_queue_size q) n)
      else if pending q m = [] then Ok None
      else and_then (map_err (Avail_DescriptorChain (hd (pending q m)))
             (read_descriptor_chain_with_options alloc m (va_descriptor_table q) (va_queue_size q)
                (hd (pending q m)) (va_indirect_descriptors q))) (\<lambda>chain. Ok (Some chain)))"
proof -
  let ?r = "va_available_ring q" and ?q = "va_queue_size q" and ?i = "va_next_avail q"
  have nz: "?q \<noteq> 0" and ra: "readable byte_at m ?r (6 + unat ?q * 2)" and rt: "readable byte_at m (va_descriptor_table q) (unat ?q * 16)"
    using rdy by (auto simp: ring_ready_def is_valid_queue_size_def)
  have v: "validate_available_ring_range m ?r ?q = Ok ()" "validate_descriptor_table_range m (va_descriptor_table q) ?q = Ok ()"
    using validate_available_ring_range_eq(1) [OF wf] validate_descriptor_table_range_eq(1) [OF wf nz] ra rt by auto
  note rd = available_reads [OF wf ra nz]
  have off: "available_ring_offset_address ?r ?q 2 = Ok (?r + of_nat 2)" using available_addresses(3) [OF ra, of 0] by simp
  have idx: "read_available_ring_u16 m ?r ?q (?r + of_nat 2) = Ok (avail_idx q m)"
    using rd(1) v(1) off by (simp add: available_index_def)
  have hd: "and_then (available_ring_entry_address ?r ?q (?i mod ?q)) (read_available_ring_u16 m ?r ?q) = Ok (head_at q m ?i)"
    using rd(2) [of ?i] v(1) nz by (simp add: descriptor_head_at_available_index_def rem_or_panic_def)
  then obtain a where a: "available_ring_entry_address ?r ?q (?i mod ?q) = Ok a" "read_available_ring_u16 m ?r ?q a = Ok (head_at q m ?i)"
    by (auto simp: and_then_Ok_iff)
  have ph: "hd (pending q m) = head_at q m ?i" if "avail_idx q m \<noteq> ?i"
    by (simp only: pending_Cons [OF that, of True] list.sel)
  have z: "avail_idx q m - ?i = 0 \<longleftrightarrow> avail_idx q m = ?i" by simp
  show ?thesis
    unfolding peek_descriptor_chain_def Let_def v off idx rem_or_panic_def pending_Nil_iff z and_then.simps map_err.simps
    by (cases "avail_idx q m = ?i") (simp_all add: ph a nz)
qed

lemma pop_descriptor_chain_cases:
  assumes wf: "gm_wf m" and rdy: "ring_ready q m"
  obtains (long) n where "va_queue_size q < n" and "n = avail_idx q m - va_next_avail q"
      and "pop_descriptor_chain alloc q m = (q, Err (Avail_AvailableRingLengthTooLarge (va_queue_size q) n))"
  | (empty) "pending q m = []" and "pop_descriptor_chain alloc q m = (q, Ok None)"
  | (chain) h hs c where "pending q m = h # hs" and "length (pending q m) \<le> unat (va_queue_size q)"
      and "read_descriptor_chain_with_options alloc m (va_descriptor_table q) (va_queue_size q) h (va_indirect_descriptors q) = Ok c"
      and "pop_descriptor_chain alloc q m = (q\<lparr>va_next_avail := va_next_avail q + 1, va_can_undo_pop := True\<rparr>, Ok (Some c))"
      and "pending (q\<lparr>va_next_avail := va_next_avail q + 1, va_can_undo_pop := True\<rparr>) m = hs"
  | (bad) h hs e where "pending q m = h # hs" and "length (pending q m) \<le> unat (va_queue_size q)"
      and "read_descriptor_chain_with_options alloc m (va_descriptor_table q) (va_queue_size q) h (va_indirect_descriptors q) = Err e"
      and "pop_descriptor_chain alloc q m = (q, Err (Avail_DescriptorChain h e))"
proof -
  note pk = peek_descriptor_chain_eq [OF assms, of alloc, unfolded Let_def]
  show thesis
  proof (cases "va_queue_size q < avail_idx q m - va_next_avail q")
    case True
    then show thesis using pk by (intro long) (simp_all add: pop_descriptor_chain_def)
  next
    case le: False
    show thesis
    proof (cases "pending q m")
      case Nil
      then show thesis using pk le by (intro empty) (simp_all add: pop_descriptor_chain_def)
    next
      case (Cons h hs)
      then have ne: "avail_idx q m \<noteq> va_next_avail q" by (simp flip: pending_Nil_iff)
      have hs: "pending (q\<lparr>va_next_avail := va_next_avail q + 1, va_can_undo_pop := True\<rparr>) m = hs"
        using pending_Cons [OF ne, of True] Cons by simp
      have ln: "length (pending q m) \<le> unat (va_queue_size q)" using le by (simp only: length_pending word_nat not_less)
      show thesis
        using pk le Cons ln hs read_chain_Ok_iff(2) [OF wf]
        by (cases "read_descriptor_chain_with_options alloc m (va_descriptor_table q) (va_queue_size q) h (va_indirect_descriptors q)")
           (auto simp: pop_descriptor_chain_def intro: chain bad)
    qed
  qed
qed

subsection \<open>Runs of pops\<close>

inductive pop_run :: "('s \<Rightarrow> 's \<times> ('c option, 'e) result) \<Rightarrow> 's \<Rightarrow> 'c list \<Rightarrow> 's \<Rightarrow> bool" for pop where
  pop_run_Nil: "pop_run pop s [] s"
| pop_run_Cons: "pop s = (s', Ok (Some c)) \<Longrightarrow> pop_run pop s' cs s'' \<Longrightarrow> pop_run pop s (c # cs) s''"

text \<open>The contract of a queue that a device drains: a pop delivers the first element or changes nothing.\<close>

locale drained_queue =
  fixes ready :: "'s \<Rightarrow> bool"
    and contents :: "'s \<Rightarrow> 'h list"
    and pop :: "'s \<Rightarrow> 's \<times> ('c option, 'e) result"
    and key :: "'c \<Rightarrow> 'h"
  assumes pop_Some: "ready s \<Longrightarrow> pop s = (s', Ok (Some c)) \<Longrightarrow> ready s' \<and> contents s = key c # contents s'"
    and pop_None: "ready s \<Longrightarrow> pop s = (s', Ok None) \<Longrightarrow> s' = s \<and> contents s = []"
    and pop_Err: "ready s \<Longrightarrow> pop s = (s', Err e) \<Longrightarrow> s' = s"
    and pop_no_Panic: "ready s \<Longrightarrow> snd (pop s) \<noteq> Panic"
begin

lemma run_contents: "pop_run pop s cs s' \<Longrightarrow> ready s \<Longrightarrow> ready s' \<and> contents s = map key cs @ contents s'"
  by (induction rule: pop_run.induct) (auto dest: pop_Some)

lemma run_bounded: "pop_run pop s cs s' \<Longrightarrow> ready s \<Longrightarrow> length cs \<le> length (contents s)"
  using run_contents by fastforce

lemma run_all:
  assumes "ready s"
    and "\<forall>cs t. pop_run pop s cs t \<longrightarrow> contents t \<noteq> [] \<longrightarrow> (\<exists>t' c. pop t = (t', Ok (Some c)))"
  shows "\<exists>cs s'. pop_run pop s cs s' \<and> map key cs = contents s \<and> contents s' = []"
  using assms
proof (induction "length (contents s)" arbitrary: s)
  case 0
  then show ?case using pop_run_Nil by fastforce
next
  case (Suc n)
  then have "contents s \<noteq> []" by auto
  then obtain s1 c where p: "pop s = (s1, Ok (Some c))" using Suc.prems(2) pop_run_Nil [of pop s] by blast
  note c = pop_Some [OF Suc.prems(1) p]
  then have "n = length (contents s1)" using Suc.hyps(2) by simp
  moreover have "\<forall>cs t. pop_run pop s1 cs t \<longrightarrow> contents t \<noteq> [] \<longrightarrow> (\<exists>t' c. pop t = (t', Ok (Some c)))"
    using Suc.prems(2) pop_run_Cons [of pop, OF p] by blast
  ultimately have "\<exists>cs s'. pop_run pop s1 cs s' \<and> map key cs = contents s1 \<and> contents s' = []"
    using c by (intro Suc.hyps(1)) blast+
  then obtain cs s' where "pop_run pop s1 cs s'" "map key cs = contents s1" "contents s' = []" by blast
  then show ?case using pop_run_Cons [of pop, OF p] c by (intro exI [of _ "c # cs"] exI [of _ s']) auto
qed

end

lemma ring_ready_next [simp]: "ring_ready (q\<lparr>va_next_avail := n, va_can_undo_pop := b\<rparr>) m = ring_ready q m"
  by (simp add: ring_ready_def)

interpretation avail: drained_queue "\<lambda>q. gm_wf m \<and> ring_ready q m" "\<lambda>q. pending q m" "\<lambda>q. pop_descriptor_chain alloc q m"
    vc_head_index for alloc m
proof (unfold_locales, goal_cases)
  case (1 q q' c)
  then have w: "gm_wf m" "ring_ready q m" by auto
  show ?case by (cases rule: pop_descriptor_chain_cases [OF w, of alloc]) (use 1(2) w read_chain_Ok_iff(1) [OF w(1)] in auto)
next
  case (2 q q')
  then have w: "gm_wf m" "ring_ready q m" by auto
  show ?case by (cases rule: pop_descriptor_chain_cases [OF w, of alloc]) (use 2(2) in auto)
next
  case (3 q q' e)
  then have w: "gm_wf m" "ring_ready q m" by auto
  show ?case by (cases rule: pop_descriptor_chain_cases [OF w, of alloc]) (use 3(2) in auto)
next
  case (4 q)
  then have w: "gm_wf m" "ring_ready q m" by auto
  show ?case by (cases rule: pop_descriptor_chain_cases [OF w, of alloc]) (auto)
qed

lemma pop_keeps_table:
  "pop_descriptor_chain alloc q m = (q', r) \<Longrightarrow>
     va_descriptor_table q' = va_descriptor_table q \<and> va_available_ring q' = va_available_ring q \<and>
     va_queue_size q' = va_queue_size q \<and> va_indirect_descriptors q' = va_indirect_descriptors q"
  by (auto simp: pop_descriptor_chain_def split: result.splits option.splits)

lemma pop_run_keeps_table:
  "pop_run (\<lambda>q. pop_descriptor_chain alloc q m) q cs q' \<Longrightarrow>
     va_descriptor_table q' = va_descriptor_table q \<and> va_available_ring q' = va_available_ring q \<and>
     va_queue_size q' = va_queue_size q \<and> va_indirect_descriptors q' = va_indirect_descriptors q"
  by (induction rule: pop_run.induct) (auto dest: pop_keeps_table)

lemma pop_run_next_avail:
  "pop_run (\<lambda>q. pop_descriptor_chain alloc q m) q cs q' \<Longrightarrow> va_next_avail q' = va_next_avail q + of_nat (length cs)"
proof (induction rule: pop_run.induct)
  case (pop_run_Cons q q' c cs q'')
  then have "va_next_avail q' = va_next_avail q + 1"
    by (auto simp: pop_descriptor_chain_def split: result.splits option.splits)
  then show ?case using pop_run_Cons by simp
qed simp

lemma pop_run_chains:
  "pop_run (\<lambda>q. pop_descriptor_chain alloc q m) q cs q' \<Longrightarrow> gm_wf m \<Longrightarrow> ring_ready q m \<Longrightarrow> c \<in> set cs \<Longrightarrow>
     read_descriptor_chain_with_options alloc m (va_descriptor_table q) (va_queue_size q) (vc_head_index c)
       (va_indirect_descriptors q) = Ok c"
proof (induction rule: pop_run.induct)
  case (pop_run_Cons q q' d cs q'')
  have q': "ring_ready q' m" using avail.pop_Some [of m q alloc q' d] pop_run_Cons by blast
  have d: "read_descriptor_chain_with_options alloc m (va_descriptor_table q) (va_queue_size q) (vc_head_index d)
       (va_indirect_descriptors q) = Ok d"
    by (cases rule: pop_descriptor_chain_cases [OF pop_run_Cons.prems(1,2), of alloc])
       (use pop_run_Cons.hyps(1) read_chain_Ok_iff(1) [OF pop_run_Cons.prems(1)] in auto)
  then show ?case using pop_run_Cons q' pop_keeps_table [OF pop_run_Cons.hyps(1)] by auto
qed simp

section \<open>Used-ring publication\<close>

lemma event_idx_window:
  "virtqueue_event_idx_needs_notification old new event \<longleftrightarrow> (\<exists>k<unat (new - old). event = old + of_nat k)"
proof -
  define l x where "l = new - old" and "x = event - old"
  have "new - event - 1 < new - old \<longleftrightarrow> l - x - 1 < l" by (simp add: l_def x_def)
  also have "\<dots> \<longleftrightarrow> x < l"
  proof (cases "x < l")
    case True
    then have "l - x \<noteq> 0" "unat (l - x) = unat l - unat x" by auto
    then have "unat (l - x - 1) < unat l" using True unat_pred [of "l - x"] by (simp add: word_nat)
    then show ?thesis using True by (simp add: word_nat)
  next
    case False
    then have "unat l \<le> unat (l - x - 1)"
      using unat_bound16 [of x] by (auto simp: word_nat unat_sub_if_size word_size not_less)
    then show ?thesis using False by (simp add: word_nat)
  qed
  also have "\<dots> \<longleftrightarrow> (\<exists>k<unat l. event = old + of_nat k)"
  proof
    assume "x < l"
    then show "\<exists>k<unat l. event = old + of_nat k" by (intro exI [of _ "unat x"]) (simp add: word_nat x_def)
  next
    assume "\<exists>k<unat l. event = old + of_nat k"
    then obtain k where k: "k < unat l" "x = of_nat k" by (auto simp: x_def)
    have "k < 2 ^ 16" using k(1) unat_bound16 [of l] by simp
    then have "unat (of_nat k :: u16) = k" by (intro unat_of_nat_id) simp
    then show "x < l" using k by (simp add: word_nat)
  qed
  finally show ?thesis by (simp add: virtqueue_event_idx_needs_notification_def l_def)
qed

text \<open>What a successful write to guest memory keeps, as one relation that composes.\<close>

definition written :: "guest_memory \<Rightarrow> guest_memory \<Rightarrow> guest_address \<Rightarrow> u8 list \<Rightarrow> bool" where
  "written m m' a bs \<longleftrightarrow> gm_wf m' \<and> (\<forall>b n. readable byte_at m' b n \<longleftrightarrow> readable byte_at m b n) \<and>
     bytes_at byte_at m' a (length bs) = bs \<and>
     (\<forall>b n. unat b + n < 2 ^ 64 \<longrightarrow> unat b + n \<le> unat a \<or> unat a + length bs \<le> unat b \<longrightarrow>
        bytes_at byte_at m' b n = bytes_at byte_at m b n) \<and>
     (\<forall>x. \<not> in_slice a (length bs) x \<longrightarrow> byte_at m' x = byte_at m x)"

lemma written_disjoint:
  "written m m' a bs \<Longrightarrow> unat b + n < 2 ^ 64 \<Longrightarrow> unat b + n \<le> unat a \<or> unat a + length bs \<le> unat b \<Longrightarrow>
     bytes_at byte_at m' b n = bytes_at byte_at m b n"
  unfolding written_def by blast

lemma write_at_offset:
  assumes wf: "gm_wf m" and rd: "readable byte_at m ring n" and k: "k + length bs \<le> n" and ne: "bs \<noteq> []" and n: "n < 2 ^ 64"
  obtains m' where "write_slice m bs (ring + of_nat k) = (m', Ok ())" and "written m m' (ring + of_nat k) bs"
    and "unat (ring + of_nat k) = unat ring + k"
proof -
  let ?a = "ring + of_nat k"
  have len: "length bs < 2 ^ 64" using k n by linarith
  obtain m' where w: "write_slice m bs ?a = (m', Ok ())" using ram.write_ok [OF wf ne readable_sub [OF rd k]] by blast
  note wr = wf len ne w
  have "written m m' ?a bs"
    unfolding written_def
    using ram.write_Ok(2,3) [OF wr] ram.write_keeps_readable [OF wr] ram.bytes_at_write_same [OF wr]
      ram.bytes_at_write_disjoint [OF wr] by auto
  moreover have "unat ?a = unat ring + k" using rd k by (intro unat_offset [of _ n]) (auto simp: readable_def)
  ultimately show thesis using that w by blast
qed

definition slot :: "virtqueue_used_ring \<Rightarrow> nat \<Rightarrow> nat" where
  "slot u k = (unat (vu_next_used u) + k) mod unat (vu_queue_size u)"

lemma queue_size_dvd:
  assumes "is_valid_queue_size q"
  shows "unat q dvd 65536" and "0 < unat q"
proof -
  obtain j where j: "j < 16" "unat q = 2 ^ j"
    using assms by (auto simp: is_valid_queue_size_def elim!: is_power_of_two_nat)
  have "(2 :: nat) ^ j dvd 2 ^ 16" using j(1) by (intro le_imp_power_dvd) simp
  then show "unat q dvd 65536" "0 < unat q" using j(2) by simp_all
qed

lemma unat_slot:
  assumes "is_valid_queue_size (vu_queue_size u)" and "k < 2 ^ 16"
  shows "unat ((vu_next_used u + of_nat k) mod vu_queue_size u) = slot u k" and "slot u k < unat (vu_queue_size u)"
proof -
  note q = queue_size_dvd [OF assms(1)]
  have "unat (vu_next_used u + of_nat k) = (unat (vu_next_used u) + k) mod 65536"
    using assms(2) by (simp add: unat_word_ariths unat_of_nat take_bit_eq_mod)
  then show "unat ((vu_next_used u + of_nat k) mod vu_queue_size u) = slot u k"
    using q(1) by (simp add: unat_mod slot_def mod_mod_cancel)
  show "slot u k < unat (vu_queue_size u)" using q(2) by (simp add: slot_def)
qed

lemma slot_inj:
  assumes "slot u i = slot u j" and "i < j" and "j - i < unat (vu_queue_size u)"
  shows False
proof -
  have "unat (vu_queue_size u) dvd (unat (vu_next_used u) + j) - (unat (vu_next_used u) + i)"
    using assms(1,2) mod_eq_dvd_iff_nat [of "unat (vu_next_used u) + i" "unat (vu_next_used u) + j" "unat (vu_queue_size u)"]
    by (simp add: slot_def)
  then show False using assms(2,3) by (auto dest: dvd_imp_le)
qed

definition used_entry :: "virtqueue_used_ring \<Rightarrow> guest_memory \<Rightarrow> nat \<Rightarrow> u8 list" where
  "used_entry u m s = bytes_at byte_at m (vu_used_ring u + of_nat (4 + s * 8)) 8"

abbreviation "used_bytes u \<equiv> 6 + unat (vu_queue_size u) * 8"

lemma length_used_element [simp]: "length (used_element_bytes head len) = 8"
  by (simp add: used_element_bytes_def)

lemma used_bytes_small: "used_bytes u < 2 ^ 64"
  by (rule u16_ring_bound) simp

text \<open>The element loop fills the slots from \<open>next_used + k\<close> on and touches nothing else.\<close>

definition elements_written :: "virtqueue_used_ring \<Rightarrow> guest_memory \<Rightarrow> guest_memory \<Rightarrow> nat \<Rightarrow> (u16 \<times> u32) list \<Rightarrow> bool" where
  "elements_written u m m' k es \<longleftrightarrow> gm_wf m' \<and> (\<forall>b n. readable byte_at m' b n \<longleftrightarrow> readable byte_at m b n) \<and>
     (\<forall>i<length es. used_entry u m' (slot u (k + i)) = case_prod used_element_bytes (es ! i)) \<and>
     (\<forall>s<unat (vu_queue_size u). (\<forall>i<length es. slot u (k + i) \<noteq> s) \<longrightarrow> used_entry u m' s = used_entry u m s) \<and>
     (\<forall>x. \<not> in_slice (vu_used_ring u + of_nat 4) (unat (vu_queue_size u) * 8) x \<longrightarrow> byte_at m' x = byte_at m x)"

lemma element_write_step:
  assumes wf: "gm_wf m" and rd: "readable byte_at m (vu_used_ring u) (used_bytes u)" and s: "s < unat (vu_queue_size u)"
  obtains m' where "write_used_ring_element m (vu_used_ring u) (vu_queue_size u) (vu_used_ring u + of_nat (4 + s * 8)) head len = (m', Ok ())"
    and "gm_wf m'" and "\<forall>b n. readable byte_at m' b n \<longleftrightarrow> readable byte_at m b n"
    and "used_entry u m' s = used_element_bytes head len"
    and "\<forall>t<unat (vu_queue_size u). t \<noteq> s \<longrightarrow> used_entry u m' t = used_entry u m t"
    and "\<forall>x. \<not> in_slice (vu_used_ring u + of_nat 4) (unat (vu_queue_size u) * 8) x \<longrightarrow> byte_at m' x = byte_at m x"
proof -
  let ?r = "vu_used_ring u" and ?q = "unat (vu_queue_size u)"
  have fit: "4 + t * 8 + 8 \<le> used_bytes u" if "t < ?q" for t using that by simp
  have lt: "unat ?r + used_bytes u < 2 ^ 64" using rd by (simp add: readable_def)
  have at: "unat (?r + of_nat (4 + t * 8)) = unat ?r + (4 + t * 8)" if "t < ?q" for t
    using fit [OF that] by (intro unat_offset [OF lt]) simp
  have r4: "unat (?r + of_nat 4) = unat ?r + 4" by (intro unat_offset [OF lt]) simp
  obtain m' where m': "write_slice m (used_element_bytes head len) (?r + of_nat (4 + s * 8)) = (m', Ok ())"
      "written m m' (?r + of_nat (4 + s * 8)) (used_element_bytes head len)"
    using write_at_offset [OF wf rd _ _ used_bytes_small, of "4 + s * 8" "used_element_bytes head len"] fit [OF s]
    by (metis length_used_element list.size(3) zero_neq_numeral)
  have "used_entry u m' t = used_entry u m t" if "t < ?q" "t \<noteq> s" for t
  proof -
    have "t * 8 + 8 \<le> s * 8 \<or> s * 8 + 8 \<le> t * 8" using that(2) by (cases t s rule: linorder_cases) auto
    then show ?thesis
      unfolding used_entry_def using at [OF that(1)] at [OF s] lt fit [OF that(1)]
      by (intro written_disjoint [OF m'(2)]; simp only: length_used_element; linarith)
  qed
  moreover have "byte_at m' x = byte_at m x" if "\<not> in_slice (?r + of_nat 4) (?q * 8) x" for x
  proof -
    have "\<not> in_slice (?r + of_nat (4 + s * 8)) 8 x" using that at [OF s] r4 s unfolding in_slice_def by linarith
    then show ?thesis using m'(2) unfolding written_def length_used_element by blast
  qed
  moreover have "used_entry u m' s = used_element_bytes head len"
    using m'(2) unfolding used_entry_def written_def length_used_element by blast
  ultimately show thesis
    using m' by (intro that [of m']) (auto simp: write_used_ring_element_def written_def)
qed

lemma write_used_elements_Ok:
  assumes "gm_wf m" and "readable byte_at m (vu_used_ring u) (used_bytes u)" and v: "is_valid_queue_size (vu_queue_size u)"
    and "k + length es \<le> unat (vu_queue_size u)"
  shows "\<exists>m'. write_used_elements u cnt m (of_nat k) es = (m', Ok ()) \<and> elements_written u m m' k es"
  using assms(1,2,4)
proof (induction es arbitrary: m k)
  case Nil
  then show ?case by (simp add: elements_written_def)
next
  case (Cons e es)
  obtain head len where e: "e = (head, len)" by fastforce
  let ?q = "vu_queue_size u"
  have k: "k < 2 ^ 16" "k < unat ?q" using Cons.prems(3) unat_bound16 [of ?q] by auto
  note sl = unat_slot [OF v k(1)]
  have tf: "try_from (of_nat k :: usize) = Some (of_nat k :: u16)"
    using k(1) by (simp add: try_from_Some_iff unat_of_nat take_bit_eq_mod)
  have nz: "?q \<noteq> 0" using v by (simp add: is_valid_queue_size_def)
  have "(vu_next_used u + of_nat k) mod ?q \<le> ?q" using sl by (simp add: word_nat)
  then have ad: "used_ring_entry_address (vu_used_ring u) ?q ((vu_next_used u + of_nat k) mod ?q) = Ok (vu_used_ring u + of_nat (4 + slot u k * 8))"
    using used_addresses(1) [OF Cons.prems(2)] sl(1) by metis
  obtain m1 where m1: "write_used_ring_element m (vu_used_ring u) ?q (vu_used_ring u + of_nat (4 + slot u k * 8)) head len = (m1, Ok ())"
      "gm_wf m1" "\<forall>b n. readable byte_at m1 b n \<longleftrightarrow> readable byte_at m b n"
      "used_entry u m1 (slot u k) = used_element_bytes head len"
      "\<forall>t<unat ?q. t \<noteq> slot u k \<longrightarrow> used_entry u m1 t = used_entry u m t"
      "\<forall>x. \<not> in_slice (vu_used_ring u + of_nat 4) (unat ?q * 8) x \<longrightarrow> byte_at m1 x = byte_at m x"
    by (rule element_write_step [OF Cons.prems(1,2) sl(2)])
  obtain m' where m': "write_used_elements u cnt m1 (of_nat (Suc k)) es = (m', Ok ())" "elements_written u m1 m' (Suc k) es"
    using Cons.IH [of m1 "Suc k"] m1(2,3) Cons.prems by auto
  have "write_used_elements u cnt m (of_nat k) (e # es) = (m', Ok ())"
    using m'(1) m1(1) ad nz by (simp add: e tf rem_or_panic_def add.commute)
  moreover have "elements_written u m m' k (e # es)"
  proof -
    have fresh: "slot u (Suc k + i) \<noteq> slot u k" if "i < length es" for i
      using slot_inj [of u k "Suc k + i"] Cons.prems(3) that by auto
    have "used_entry u m' (slot u k) = used_element_bytes head len"
      using m'(2) m1(4) sl(2) fresh by (simp add: elements_written_def)
    then have "used_entry u m' (slot u (k + i)) = case_prod used_element_bytes ((e # es) ! i)" if "i < Suc (length es)" for i
      using m'(2) that by (cases i) (auto simp: elements_written_def e)
    moreover have "used_entry u m' s = used_entry u m s" if "s < unat ?q" "\<forall>i<Suc (length es). slot u (k + i) \<noteq> s" for s
    proof -
      have "slot u k \<noteq> s" "\<forall>i<length es. slot u (Suc k + i) \<noteq> s" using that(2) by (metis add_0_right zero_less_Suc, auto)
      then show ?thesis using m'(2) m1(5) that(1) by (simp add: elements_written_def)
    qed
    ultimately show ?thesis using m'(2) m1(3,6) by (simp add: elements_written_def)
  qed
  ultimately show ?case by blast
qed

lemma length_u16_bytes [simp]: "length (to_le_bytes (v :: u16)) = 2"
  by simp

lemma u16_write_step:
  assumes wf: "gm_wf m" and rd: "readable byte_at m (vu_used_ring u) (used_bytes u)" and k: "k + 2 \<le> used_bytes u"
    and out: "k + 2 \<le> 4 \<or> 4 + unat (vu_queue_size u) * 8 \<le> k"
  obtains m' where "write_used_ring_u16 m (vu_used_ring u) (vu_queue_size u) (vu_used_ring u + of_nat k) v = (m', Ok ())"
    and "gm_wf m'" and "\<forall>b n. readable byte_at m' b n \<longleftrightarrow> readable byte_at m b n"
    and "u16_at m' (vu_used_ring u + of_nat k) = v"
    and "\<forall>s<unat (vu_queue_size u). used_entry u m' s = used_entry u m s"
    and "\<forall>x. \<not> in_slice (vu_used_ring u) (used_bytes u) x \<longrightarrow> byte_at m' x = byte_at m x"
    and "\<forall>j. j + 2 \<le> used_bytes u \<and> (j + 2 \<le> k \<or> k + 2 \<le> j) \<longrightarrow> u16_at m' (vu_used_ring u + of_nat j) = u16_at m (vu_used_ring u + of_nat j)"
proof -
  let ?r = "vu_used_ring u" and ?q = "unat (vu_queue_size u)" and ?bs = "to_le_bytes v"
  have lt: "unat ?r + used_bytes u < 2 ^ 64" using rd by (simp add: readable_def)
  have at: "unat (?r + of_nat j) = unat ?r + j" if "j \<le> used_bytes u" for j by (rule unat_offset [OF lt that])
  have uk: "unat (?r + of_nat k) = unat ?r + k" using at k by simp
  obtain m' where m': "write_slice m ?bs (?r + of_nat k) = (m', Ok ())" "written m m' (?r + of_nat k) ?bs"
    using write_at_offset [OF wf rd _ _ used_bytes_small, of k ?bs] k
    by (metis length_u16_bytes list.size(3) zero_neq_numeral)
  have "used_entry u m' s = used_entry u m s" if "s < ?q" for s
  proof -
    have "4 + s * 8 + 8 \<le> used_bytes u" using that by simp
    then show ?thesis
      unfolding used_entry_def using at [of "4 + s * 8"] uk lt out that
      by (intro written_disjoint [OF m'(2)]; simp only: length_u16_bytes; linarith)
  qed
  moreover have "u16_at m' (?r + of_nat j) = u16_at m (?r + of_nat j)" if "j + 2 \<le> used_bytes u" "j + 2 \<le> k \<or> k + 2 \<le> j" for j
  proof -
    have "bytes_at byte_at m' (?r + of_nat j) 2 = bytes_at byte_at m (?r + of_nat j) 2"
      using at [of j] uk lt that by (intro written_disjoint [OF m'(2)]; simp only: length_u16_bytes; linarith)
    then show ?thesis by (simp add: u16_at_def)
  qed
  moreover have "byte_at m' x = byte_at m x" if "\<not> in_slice ?r (used_bytes u) x" for x
  proof -
    have "\<not> in_slice (?r + of_nat k) 2 x" using that uk k unfolding in_slice_def by linarith
    then show ?thesis using m'(2) unfolding written_def length_u16_bytes by blast
  qed
  moreover have "u16_at m' (?r + of_nat k) = v"
  proof -
    have "bytes_at byte_at m' (?r + of_nat k) 2 = ?bs" using m'(2) unfolding written_def length_u16_bytes by blast
    then show ?thesis by (simp add: u16_at_def)
  qed
  ultimately show thesis
    using m' by (intro that [of m']) (auto simp: write_used_ring_u16_def written_def)
qed

definition publishable :: "virtqueue_used_ring \<Rightarrow> guest_memory \<Rightarrow> (u16 \<times> u32) list \<Rightarrow> bool" where
  "publishable u m es \<longleftrightarrow> es \<noteq> [] \<and> length es \<le> unat (vu_queue_size u) \<and> (\<forall>(h, l)\<in>set es. h < vu_queue_size u) \<and>
     readable byte_at m (vu_used_ring u) (used_bytes u)"

definition published :: "virtqueue_used_ring \<Rightarrow> guest_memory \<Rightarrow> guest_memory \<Rightarrow> (u16 \<times> u32) list \<Rightarrow> bool" where
  "published u m m' es \<longleftrightarrow> gm_wf m' \<and> u16_at m' (vu_used_ring u + 2) = vu_next_used u + of_nat (length es) \<and>
     (\<forall>i<length es. used_entry u m' (slot u i) = case_prod used_element_bytes (es ! i)) \<and>
     (\<forall>s<unat (vu_queue_size u). (\<forall>i<length es. slot u i \<noteq> s) \<longrightarrow> used_entry u m' s = used_entry u m s) \<and>
     (\<forall>x. \<not> in_slice (vu_used_ring u) (used_bytes u) x \<longrightarrow> byte_at m' x = byte_at m x)"

lemma validate_used_ring_heads_Ok:
  "validate_used_ring_heads es q = Ok () \<longleftrightarrow> (\<forall>(h, l)\<in>set es. h < q)" "validate_used_ring_heads es q \<noteq> Panic"
  by (induction es q rule: validate_used_ring_heads.induct) (auto simp: validate_used_ring_descriptor_head_def)

lemma write_used_event_Ok:
  assumes "gm_wf m" and rd: "readable byte_at m (vu_used_ring u) (used_bytes u)"
  obtains m' where "write_used_event u m new mode = (m', Ok (case mode of Disabled \<Rightarrow> True
        | EventIdx event _ \<Rightarrow> virtqueue_event_idx_needs_notification (vu_next_used u) new event))"
    and "gm_wf m'" and "\<forall>b n. readable byte_at m' b n \<longleftrightarrow> readable byte_at m b n"
    and "\<forall>s<unat (vu_queue_size u). used_entry u m' s = used_entry u m s"
    and "\<forall>x. \<not> in_slice (vu_used_ring u) (used_bytes u) x \<longrightarrow> byte_at m' x = byte_at m x"
proof (cases mode)
  case Disabled
  then show thesis using assms(1) by (intro that [of m]) (simp_all add: write_used_event_def)
next
  case (EventIdx event ae)
  let ?k = "4 + unat (vu_queue_size u) * 8"
  obtain m' where m': "write_used_ring_u16 m (vu_used_ring u) (vu_queue_size u) (vu_used_ring u + of_nat ?k) ae = (m', Ok ())"
    "gm_wf m'" "\<forall>b n. readable byte_at m' b n \<longleftrightarrow> readable byte_at m b n"
    "\<forall>s<unat (vu_queue_size u). used_entry u m' s = used_entry u m s"
    "\<forall>x. \<not> in_slice (vu_used_ring u) (used_bytes u) x \<longrightarrow> byte_at m' x = byte_at m x"
    by (rule u16_write_step [OF assms, of ?k ae]) auto
  moreover have "used_ring_avail_event_address (vu_used_ring u) (vu_queue_size u) = Ok (vu_used_ring u + of_nat ?k)"
    using used_addresses(2) [OF rd, of 0] by simp
  ultimately show thesis
    using EventIdx by (intro that [of m']) (simp_all add: write_used_event_def del: of_nat_add)
qed

lemma publish_Ok:
  assumes wf: "gm_wf m" and v: "is_valid_queue_size (vu_queue_size u)" and p: "publishable u m es"
  shows "\<exists>m'. publish_used_elements u m es mode =
     (u\<lparr>vu_next_used := vu_next_used u + of_nat (length es)\<rparr>, m',
      Ok (case mode of Disabled \<Rightarrow> True | EventIdx event _ \<Rightarrow> \<exists>k<length es. event = vu_next_used u + of_nat k)) \<and>
     published u m m' es"
proof -
  let ?r = "vu_used_ring u" and ?q = "vu_queue_size u" and ?n = "length es" and ?new = "vu_next_used u + of_nat (length es)"
  have rd: "readable byte_at m ?r (used_bytes u)" and len: "0 < ?n" "?n \<le> unat ?q"
    using p by (auto simp: publishable_def)
  have n16: "?n < 2 ^ 16" using len(2) unat_bound16 [of ?q] by simp
  have un: "unat (of_nat ?n :: u16) = ?n" using n16 by (intro unat_of_nat_id) simp
  have tf: "try_from (of_nat ?n :: usize) = Some (of_nat ?n :: u16)"
    using n16 by (simp add: try_from_Some_iff unat_of_nat take_bit_eq_mod)
  obtain m1 where m1: "write_used_elements u ?n m 0 es = (m1, Ok ())" "elements_written u m m1 0 es"
    using write_used_elements_Ok [OF wf rd v, of 0 es ?n] len(2) by auto
  have w1: "gm_wf m1" "readable byte_at m1 ?r (used_bytes u)" using m1(2) rd by (simp_all add: elements_written_def)
  obtain m2 where m2: "write_used_event u m1 ?new mode = (m2, Ok (case mode of Disabled \<Rightarrow> True
        | EventIdx event _ \<Rightarrow> virtqueue_event_idx_needs_notification (vu_next_used u) ?new event))"
      "gm_wf m2" "\<forall>b n. readable byte_at m2 b n \<longleftrightarrow> readable byte_at m1 b n"
      "\<forall>s<unat ?q. used_entry u m2 s = used_entry u m1 s"
      "\<forall>x. \<not> in_slice ?r (used_bytes u) x \<longrightarrow> byte_at m2 x = byte_at m1 x"
    by (rule write_used_event_Ok [OF w1])
  have w2: "readable byte_at m2 ?r (used_bytes u)" using m2(3) w1(2) by blast
  obtain m3 where m3: "write_used_ring_u16 m2 ?r ?q (?r + of_nat 2) ?new = (m3, Ok ())" "gm_wf m3"
      "u16_at m3 (?r + of_nat 2) = ?new" "\<forall>s<unat ?q. used_entry u m3 s = used_entry u m2 s"
      "\<forall>x. \<not> in_slice ?r (used_bytes u) x \<longrightarrow> byte_at m3 x = byte_at m2 x"
    by (rule u16_write_step [OF m2(2) w2, of 2 ?new]) auto

  have sub: "in_slice ?r (used_bytes u) x" if "in_slice (?r + of_nat 4) (unat ?q * 8) x" for x
    using that unat_offset [of ?r "used_bytes u" 4] rd unfolding in_slice_def readable_def by simp
  have ent: "used_entry u m3 s = used_entry u m1 s" if "s < unat ?q" for s using m2(4) m3(4) that by simp
  have sl: "slot u i < unat ?q" for i using queue_size_dvd(2) [OF v] by (simp add: slot_def)
  have "byte_at m3 x = byte_at m x" if "\<not> in_slice ?r (used_bytes u) x" for x
  proof -
    have "byte_at m1 x = byte_at m x" using m1(2) sub that unfolding elements_written_def by blast
    then show ?thesis using m2(5) m3(5) that by simp
  qed
  then have "published u m m3 es"
    using m1(2) m3(2,3) ent sl unfolding published_def elements_written_def by simp
  moreover have "virtqueue_event_idx_needs_notification (vu_next_used u) ?new event \<longleftrightarrow> (\<exists>k<?n. event = vu_next_used u + of_nat k)" for event
    using event_idx_window [of "vu_next_used u" ?new event] un by simp
  moreover have "used_ring_offset_address ?r ?q 2 = Ok (?r + of_nat 2)" using used_addresses(3) [OF rd, of 0] by simp
  moreover have "and_then (validate_used_ring_heads es ?q) (\<lambda>_. validate_used_ring_range m ?r ?q) = Ok ()"
    using p validate_used_ring_heads_Ok(1) [of es ?q] validate_used_ring_range_eq(1) [OF wf] by (simp add: publishable_def)
  ultimately show ?thesis
    using m1(1) m2(1) m3(1) tf len by (intro exI [of _ m3]) (auto simp: publish_used_elements_def Let_def split: virtqueue_notification_suppression.splits)
qed

lemma publish_Err:
  assumes wf: "gm_wf m" and np: "\<not> publishable u m es"
  shows "\<exists>e. publish_used_elements u m es mode = (u, m, Err e)"
proof (cases "es = [] \<or> unat (vu_queue_size u) < length es")
  case True
  then show ?thesis by (auto simp: publish_used_elements_def Let_def)
next
  case False
  let ?v = "and_then (validate_used_ring_heads es (vu_queue_size u)) (\<lambda>_. validate_used_ring_range m (vu_used_ring u) (vu_queue_size u))"
  have "?v \<noteq> Ok ()" "?v \<noteq> Panic"
    using np False validate_used_ring_heads_Ok [of es "vu_queue_size u"]
      validate_used_ring_range_eq [OF wf, of "vu_used_ring u" "vu_queue_size u"]
    by (auto simp: publishable_def result_iffs)
  then obtain e where "?v = Err e" by (cases ?v) auto
  then show ?thesis using False by (auto simp: publish_used_elements_def Let_def)
qed

section \<open>Properties\<close>

text \<open>
  The concrete queue of the witnesses: one entry, its table at 0x1000, the available ring at 0x1010 and the used
  ring at 0x1018 of a 64-byte zeroed region, with \<open>next_avail\<close> one before the wrap-around.
\<close>

definition zero_memory :: guest_memory where
  "zero_memory = \<lparr>gm_regions = [\<lparr>reg_range = sample_range 0x1000 64, reg_mapping = 1, reg_mapping_offset = 0,
       reg_host_size = 64\<rparr>], gm_shared_reservations = [], gm_dirty_tracker = None, gm_backing = Anonymous,
     gm_access_profile = Eager, gm_store = (\<lambda>_. None)(1 \<mapsto> replicate 64 0), gm_next_identity = 2\<rparr>"

definition sample_queue :: virtqueue_available_ring where
  "sample_queue = \<lparr>va_descriptor_table = 0x1000, va_available_ring = 0x1010, va_queue_size = 1, va_next_avail = 0xFFFF,
     va_can_undo_pop = False, va_indirect_descriptors = False\<rparr>"

definition sample_used :: virtqueue_used_ring where
  "sample_used = \<lparr>vu_used_ring = 0x1018, vu_queue_size = 1, vu_next_used = 0xFFFF\<rparr>"

lemma zero_allocate:
  "allocate_with_backing sample_env \<lparr>layout_ranges = [sample_range 0x1000 64]\<rparr> Anonymous 1 = Ok zero_memory"
  by (simp add: sample_memory_defs zero_memory_def allocate_with_backing_def host_page_size_def system_host_page_size_def
      validate_host_page_size_def is_power_of_two_def validate_allocation_ranges_def validate_allocation_range_def
      range_validate_alignment_def validate_alignment_def is_multiple_of_def allocation_host_size_def
      allocate_with_mapper_def empty_with_backing_def map_fresh_def checked_add_def)

lemma zero_memory_wf: "gm_wf zero_memory"
proof -
  have "ordered_disjoint (layout_ranges \<lparr>layout_ranges = [sample_range 0x1000 64]\<rparr>)" by (simp add: sample_range_def range_wf_def)
  then show ?thesis
    using zero_allocate allocate_with_mapper_Ok by (auto simp: allocate_with_backing_def result_iffs split: if_splits)
qed

lemma zero_byte: "byte_at zero_memory a = (if 0x1000 \<le> unat a \<and> unat a < 0x1040 then Some 0 else None)"
  by (auto simp: byte_at_def zero_memory_def sample_range_def contains_def host_byte_def host_index_def word_nat)

lemma zero_readable: "0x1000 \<le> unat a \<Longrightarrow> unat a + n \<le> 0x1040 \<Longrightarrow> readable byte_at zero_memory a n"
  using unat_offset [of a n] by (simp add: readable_def zero_byte)

lemma zero_bytes: "0x1000 \<le> unat a \<Longrightarrow> unat a + n \<le> 0x1040 \<Longrightarrow> bytes_at byte_at zero_memory a n = replicate n 0"
  using unat_offset [of a n] by (auto simp: bytes_at_def zero_byte intro!: nth_equalityI)

lemma from_zero_bytes [simp]: "from_le_bytes (replicate n 0) = 0"
  by (induction n) simp_all

lemma sample_queue_ready: "ring_ready sample_queue zero_memory"
  by (simp add: ring_ready_def sample_queue_def is_valid_queue_size_def is_power_of_two_def is_multiple_of_def zero_readable)

lemma sample_descriptor: "desc_at zero_memory 0x1000 0 = \<lparr>vd_index = 0, vd_address = 0, vd_len = 0, vd_flags = 0, vd_next_index = None\<rparr>"
  by (simp add: desc_at_def zero_bytes parse_raw_descriptor_def descriptor_of_raw_def flags_has_next_def)

definition sample_chain :: virtqueue_descriptor_chain where
  "sample_chain = \<lparr>vc_head_index = 0, vc_descriptors = [desc_at zero_memory 0x1000 0]\<rparr>"

lemma sample_chain_read: "read_descriptor_chain_with_options (\<lambda>_. True) zero_memory 0x1000 1 0 False = Ok sample_chain"
proof -
  have "chain_of zero_memory 0x1000 1 False (Suc 0) 0 [desc_at zero_memory 0x1000 0]"
    by (rule chain_last) (simp_all add: sample_descriptor vd_is_indirect_def flags_is_indirect_def)
  then show ?thesis
    using read_chain_Ok_iff(1) [OF zero_memory_wf, of "\<lambda>_. True" "0x1000" 1 0 False sample_chain]
    by (simp add: sample_chain_def is_valid_queue_size_def is_power_of_two_def is_multiple_of_def zero_readable)
qed

lemma sample_pending: "pending sample_queue zero_memory = [0]"
  by (simp add: pending_def avail_idx_def head_at_def sample_queue_def u16_at_def zero_bytes)

lemma sample_pop:
  "pop_descriptor_chain (\<lambda>_. True) sample_queue zero_memory =
     (sample_queue\<lparr>va_next_avail := 0, va_can_undo_pop := True\<rparr>, Ok (Some sample_chain))"
proof (cases rule: pop_descriptor_chain_cases [OF zero_memory_wf sample_queue_ready, of "\<lambda>_. True"])
  case (1 n)
  then have "unat (va_queue_size sample_queue) < length (pending sample_queue zero_memory)"
    by (simp only: length_pending word_nat)
  then show ?thesis by (simp add: sample_pending) (simp add: sample_queue_def)
qed (use sample_pending sample_chain_read in \<open>auto simp: sample_queue_def\<close>)

text \<open>
  C5: reading a descriptor chain is exact.  It never panics, and it succeeds exactly when the table is a valid, aligned,
  fully mapped queue, the head is in range, the reservation succeeds and the descriptors in memory form a chain of
  at most \<open>queue_size\<close> entries; it then returns the buffers of that chain.
\<close>

theorem descriptor_chain_exact:
  assumes "gm_wf m"
  shows "read_descriptor_chain_with_options alloc m table q head indirect \<noteq> Panic \<and>
     (read_descriptor_chain_with_options alloc m table q head indirect = Ok c \<longleftrightarrow>
       is_valid_queue_size q \<and> is_multiple_of table 16 \<and> readable byte_at m table (unat q * 16) \<and> head < q \<and>
       alloc (unat q) \<and> vc_head_index c = head \<and> chain_of m table q indirect (unat q) head (vc_descriptors c))"
  using read_chain_Ok_iff [OF assms] by blast

theorem descriptor_chain_exact_witness:
  "gm_wf zero_memory \<and> chain_of zero_memory 0x1000 1 False (unat (1 :: u16)) 0 (vc_descriptors sample_chain)"
  using descriptor_chain_exact [OF zero_memory_wf, of "\<lambda>_. True" "0x1000" 1 0 False sample_chain] sample_chain_read
    zero_memory_wf by blast

text \<open>
  C31: a hostile driver cannot make the device loop or overrun.  A chain the device accepts has between one and
  \<open>queue_size\<close> buffers, none of them an indirect descriptor, and the last has no successor; without indirection every
  buffer is a distinct entry of the table, so a cyclic table is rejected.
\<close>

theorem descriptor_chain_bounded:
  assumes "gm_wf m" and "read_descriptor_chain_with_options alloc m table q head indirect = Ok c"
  shows "vc_descriptors c \<noteq> [] \<and> length (vc_descriptors c) \<le> unat q \<and>
     (\<forall>d\<in>set (vc_descriptors c). \<not> vd_is_indirect d) \<and> vd_next_index (last (vc_descriptors c)) = None \<and>
     (\<not> indirect \<longrightarrow> distinct (map vd_index (vc_descriptors c)))"
proof -
  have c: "chain_of m table q indirect (unat q) head (vc_descriptors c)"
    using read_chain_Ok_iff(1) [OF assms(1)] assms(2) by blast
  then show ?thesis
    using chain_of_length [OF c] chain_of_no_indirect [OF c] chain_of_last [OF c] chain_of_direct_distinct
    by (cases indirect) auto
qed

theorem descriptor_chain_bounded_witness:
  "read_descriptor_chain_with_options (\<lambda>_. True) zero_memory 0x1000 1 0 False = Ok sample_chain \<and>
     vc_descriptors sample_chain \<noteq> [] \<and> distinct (map vd_index (vc_descriptors sample_chain))"
  using descriptor_chain_bounded [OF zero_memory_wf sample_chain_read] sample_chain_read by blast

text \<open>
  C3: the available ring is a first-in first-out queue.  Over any run of pops, the chains delivered are those of the
  pending heads in order, each is the chain that the table holds for its head, \<open>next_avail\<close> advances by one per pop with
  16-bit wrap-around, and no more chains are delivered than the driver made available.
\<close>

theorem available_ring_fifo:
  assumes "gm_wf m" and "ring_ready q m" and "pop_run (\<lambda>q. pop_descriptor_chain alloc q m) q cs q'"
  shows "pending q m = map vc_head_index cs @ pending q' m \<and> va_next_avail q' = va_next_avail q + of_nat (length cs) \<and>
     length cs \<le> unat (avail_idx q m - va_next_avail q) \<and>
     (\<forall>c\<in>set cs. read_descriptor_chain_with_options alloc m (va_descriptor_table q) (va_queue_size q) (vc_head_index c)
        (va_indirect_descriptors q) = Ok c)"
  using avail.run_contents [OF assms(3)] avail.run_bounded [OF assms(3)] pop_run_next_avail [OF assms(3)]
    pop_run_chains [OF assms(3)] assms(1,2) by (simp flip: length_pending)

theorem available_ring_fifo_witness:
  "\<exists>q'. pop_run (\<lambda>q. pop_descriptor_chain (\<lambda>_. True) q zero_memory) sample_queue [sample_chain] q' \<and>
     va_next_avail q' = 0 \<and> pending q' zero_memory = []"
proof -
  let ?q' = "sample_queue\<lparr>va_next_avail := 0, va_can_undo_pop := True\<rparr>"
  have r: "pop_run (\<lambda>q. pop_descriptor_chain (\<lambda>_. True) q zero_memory) sample_queue [sample_chain] ?q'"
    by (rule pop_run_Cons, rule sample_pop, rule pop_run_Nil)
  show ?thesis
    using available_ring_fifo [OF zero_memory_wf sample_queue_ready r] r sample_pending
    by (intro exI [of _ ?q']) (simp add: sample_queue_def)
qed

text \<open>
  C30: the device drains the queue.  If no more heads are pending than the ring holds and each has a readable chain, then
  finitely many pops deliver all of them, in order, and the next pop reports an empty queue.
\<close>

theorem available_ring_drains:
  assumes "gm_wf m" and "ring_ready q m" and "length (pending q m) \<le> unat (va_queue_size q)"
    and "\<forall>h\<in>set (pending q m). \<exists>c. read_descriptor_chain_with_options alloc m (va_descriptor_table q) (va_queue_size q) h
        (va_indirect_descriptors q) = Ok c"
  shows "\<exists>cs q'. pop_run (\<lambda>q. pop_descriptor_chain alloc q m) q cs q' \<and> map vc_head_index cs = pending q m \<and>
     pop_descriptor_chain alloc q' m = (q', Ok None)"
proof -
  have "\<exists>t' c. pop_descriptor_chain alloc t m = (t', Ok (Some c))"
    if run: "pop_run (\<lambda>q. pop_descriptor_chain alloc q m) q cs t" and ne: "pending t m \<noteq> []" for cs t
  proof -
    have t: "ring_ready t m" "pending q m = map vc_head_index cs @ pending t m"
      using avail.run_contents [OF run] assms(1,2) by auto
    show ?thesis
      by (cases rule: pop_descriptor_chain_cases [OF assms(1) t(1), of alloc])
        (use assms(3,4) t(2) ne pop_run_keeps_table [OF run] in \<open>auto simp: word_nat simp flip: length_pending\<close>)
  qed
  then obtain cs q' where r: "pop_run (\<lambda>q. pop_descriptor_chain alloc q m) q cs q'" "map vc_head_index cs = pending q m" "pending q' m = []"
    using avail.run_all [of m q alloc] assms(1,2) by blast
  have "ring_ready q' m" using avail.run_contents [OF r(1)] assms(1,2) by auto
  then have "pop_descriptor_chain alloc q' m = (q', Ok None)"
    by (cases rule: pop_descriptor_chain_cases [OF assms(1), of q' alloc]) (use r(3) in \<open>auto simp: word_nat simp flip: length_pending\<close>)
  then show ?thesis using r by blast
qed

theorem available_ring_drains_witness:
  "\<exists>cs q'. pop_run (\<lambda>q. pop_descriptor_chain (\<lambda>_. True) q zero_memory) sample_queue cs q' \<and> map vc_head_index cs = [0] \<and>
     pop_descriptor_chain (\<lambda>_. True) q' zero_memory = (q', Ok None)"
  using available_ring_drains [OF zero_memory_wf sample_queue_ready, of "\<lambda>_. True"] sample_pending sample_chain_read
  by (auto simp: sample_queue_def)

text \<open>
  pops can be taken back.  Undoing a successful pop restores the ring and can be done once; restoring a checkpoint after any
  number of pops restores the ring; a failed pop leaves the ring as it was, so a malformed chain is reported
  again and never skipped.
\<close>

lemma available_ring_undo:
  assumes "pop_descriptor_chain alloc q m = (q', r)"
  shows "(\<forall>c. r = Ok (Some c) \<longrightarrow> undo_pop_descriptor_chain q' = (q\<lparr>va_can_undo_pop := False\<rparr>, Ok ()) \<and>
       undo_pop_descriptor_chain (fst (undo_pop_descriptor_chain q')) =
         (q\<lparr>va_can_undo_pop := False\<rparr>, Err Avail_NoDescriptorChainToUndo)) \<and>
     restore_checkpoint q' (available_ring_checkpoint q) = q\<lparr>va_can_undo_pop := False\<rparr> \<and>
     ((\<forall>c. r \<noteq> Ok (Some c)) \<longrightarrow> q' = q)"
proof -
  have "q' = q\<lparr>va_next_avail := va_next_avail q + 1, va_can_undo_pop := True\<rparr> \<and> r = Ok (Some c)"
    if "peek_descriptor_chain alloc q m = Ok (Some c)" for c
    using assms that by (auto simp: pop_descriptor_chain_def)
  moreover have "q' = q \<and> r = peek_descriptor_chain alloc q m" if "\<forall>c. peek_descriptor_chain alloc q m \<noteq> Ok (Some c)"
    using assms that by (auto simp: pop_descriptor_chain_def split: result.splits option.splits)
  ultimately consider c where "r = Ok (Some c)" "q' = q\<lparr>va_next_avail := va_next_avail q + 1, va_can_undo_pop := True\<rparr>"
    | "\<forall>c. r \<noteq> Ok (Some c)" "q' = q"
    by metis
  then show ?thesis
    by cases (simp_all add: undo_pop_descriptor_chain_def restore_checkpoint_def available_ring_checkpoint_def)
qed

lemma available_ring_undo_witness:
  "\<exists>q'. pop_descriptor_chain (\<lambda>_. True) sample_queue zero_memory = (q', Ok (Some sample_chain)) \<and>
     undo_pop_descriptor_chain q' = (sample_queue, Ok ())"
  using available_ring_undo [OF sample_pop] sample_pop by (simp add: sample_queue_def)

text \<open>
  C2: a used-ring publication is all or nothing.  With between one and \<open>queue_size\<close> elements, heads in range and the ring
  mapped, it writes each element to its own slot modulo the queue size, advances the index field and
  \<open>next_used\<close> by the element count with 16-bit wrap-around, changes no byte outside the ring and no other slot, and
  asks for an interrupt exactly when notifications are unsuppressed or the driver's event index is one of
  the published positions.  In every other case it fails with ring and memory unchanged.
\<close>

theorem used_ring_publish_exact:
  assumes "gm_wf m" and "is_valid_queue_size (vu_queue_size u)"
  shows "if publishable u m es
     then \<exists>m'. publish_used_elements u m es mode =
        (u\<lparr>vu_next_used := vu_next_used u + of_nat (length es)\<rparr>, m',
         Ok (case mode of Disabled \<Rightarrow> True | EventIdx event _ \<Rightarrow> \<exists>k<length es. event = vu_next_used u + of_nat k)) \<and>
        published u m m' es
     else \<exists>e. publish_used_elements u m es mode = (u, m, Err e)"
  using publish_Ok [OF assms] publish_Err [OF assms(1)] by simp

theorem used_ring_publish_exact_witness:
  "\<exists>m'. publish_used_elements sample_used zero_memory [(0, 5)] (EventIdx 0xFFFF 0) =
      (sample_used\<lparr>vu_next_used := 0\<rparr>, m', Ok True) \<and> published sample_used zero_memory m' [(0, 5)]"
proof -
  have wrap: "(65536 :: u16) = 0" by (simp add: word_unat_eq_iff)
  have "publishable sample_used zero_memory [(0, 5)]" "is_valid_queue_size (vu_queue_size sample_used)"
    by (simp_all add: publishable_def sample_used_def zero_readable is_valid_queue_size_def is_power_of_two_def)
  then show ?thesis
    using used_ring_publish_exact [OF zero_memory_wf, of sample_used "[(0, 5)]" "EventIdx 0xFFFF 0"] wrap
    by (simp add: sample_used_def)
qed

end
