(* ===== verification/Token_Bucket.thy ===== *)
theory Token_Bucket
  imports Prelude
begin

text \<open>
  The rate limiter of the block, network and entropy devices, from \<open>crates/runtime/src/token_bucket.rs\<close>.
  \<open>Instant\<close> and \<open>Duration\<close> are nanoseconds: an instant is below \<open>INSTANT_LIMIT\<close>, the range of the
  standard library's timestamp, and adding past it is \<open>None\<close>.  The refill arithmetic keeps the widths of the code
  (\<open>u16\<close> in the bounded path, \<open>u64\<close> natively, \<open>u128\<close> for wide products); the proofs show that no product wraps.
  The theorems give the refill's reference value, the exact retry delay, the bound on admitted tokens over any run,
  and that a persisted bucket behaves like the original.
\<close>

section \<open>Model\<close>

type_synonym instant = nat
type_synonym duration = nat

definition INSTANT_LIMIT :: nat where "INSTANT_LIMIT = 2 ^ 63 * 10 ^ 9"
definition NANOS_PER_MILLISECOND :: u64 where "NANOS_PER_MILLISECOND = 1000000"

definition checked_duration_since :: "instant \<Rightarrow> instant \<Rightarrow> duration option" where
  "checked_duration_since now earlier = (if earlier \<le> now then Some (now - earlier) else None)"

definition instant_checked_add :: "instant \<Rightarrow> duration \<Rightarrow> instant option" where
  "instant_checked_add t d = (if t + d < INSTANT_LIMIT then Some (t + d) else None)"

definition as_nanos :: "duration \<Rightarrow> u128" where
  "as_nanos d = of_nat d"

record token_bucket_config =
  cfg_size :: u64
  cfg_one_time_burst :: "u64 option"
  cfg_refill_time :: u64

record token_bucket =
  tb_size :: u64
  tb_refill_time_nanos :: u64
  tb_budget :: u64
  tb_one_time_burst :: u64
  tb_last_update :: instant
  tb_elapsed_refill_credit_nanos :: u64

datatype token_bucket_reduction = Allowed | Throttled duration

datatype refill_outcome = Refill_Unchanged | Refill_Full | Refill_Partial u64 u64

datatype bounded_millis_refill = Bounded_Unchanged | Bounded_Full | Bounded_Partial u16 u16

definition is_enabled :: "token_bucket_config \<Rightarrow> bool" where
  "is_enabled config =
     (if cfg_size config = 0 then False
      else case checked_mul (cfg_refill_time config) NANOS_PER_MILLISECOND of
             Some refill_time_nanos \<Rightarrow> refill_time_nanos \<noteq> 0
           | None \<Rightarrow> False)"

definition config_burst :: "token_bucket_config \<Rightarrow> u64" where
  "config_burst config = (case cfg_one_time_burst config of Some b \<Rightarrow> b | None \<Rightarrow> 0)"

definition bucket_new_at :: "token_bucket_config \<Rightarrow> instant \<Rightarrow> token_bucket option" where
  "bucket_new_at config now =
     (case checked_mul (cfg_refill_time config) NANOS_PER_MILLISECOND of
        None \<Rightarrow> None
      | Some refill_time_nanos \<Rightarrow>
          if \<not> is_enabled config then None
          else Some \<lparr>tb_size = cfg_size config, tb_refill_time_nanos = refill_time_nanos,
                 tb_budget = cfg_size config,
                 tb_one_time_burst = config_burst config,
                 tb_last_update = now, tb_elapsed_refill_credit_nanos = 0\<rparr>)"

definition token_bucket_refill_bounded_millis :: "u8 \<Rightarrow> u8 \<Rightarrow> u8 \<Rightarrow> u8 \<Rightarrow> bounded_millis_refill" where
  "token_bucket_refill_bounded_millis sz budget refill_time_millis elapsed_millis =
     (if elapsed_millis = refill_time_millis then Bounded_Full
      else
        let sz = ucast sz :: u16;
            tokens = ucast elapsed_millis * sz div ucast refill_time_millis in
        if tokens = 0 then Bounded_Unchanged
        else Bounded_Partial (min (saturating_add (ucast budget) tokens) sz) tokens)"

definition bounded_to_refill :: "u64 \<Rightarrow> u64 \<Rightarrow> bounded_millis_refill \<Rightarrow> refill_outcome option" where
  "bounded_to_refill sz refill_time_nanos r =
     (case r of
        Bounded_Unchanged \<Rightarrow> Some Refill_Unchanged
      | Bounded_Full \<Rightarrow> Some Refill_Full
      | Bounded_Partial budget tokens \<Rightarrow>
          map_option (\<lambda>product. Refill_Partial (ucast budget) (div_ceil product sz))
            (checked_mul (ucast tokens) refill_time_nanos))"

definition bounded_refill_applies :: "u64 \<Rightarrow> u64 \<Rightarrow> u64 \<Rightarrow> u64 \<Rightarrow> bool" where
  "bounded_refill_applies sz budget refill_time_nanos elapsed_nanos \<longleftrightarrow>
     sz < 15 \<and> budget \<le> sz \<and> is_multiple_of refill_time_nanos NANOS_PER_MILLISECOND \<and>
     is_multiple_of elapsed_nanos NANOS_PER_MILLISECOND \<and>
     (let refill_time_millis = refill_time_nanos div NANOS_PER_MILLISECOND;
          elapsed_millis = elapsed_nanos div NANOS_PER_MILLISECOND in
      1 \<le> refill_time_millis \<and> refill_time_millis < 15 \<and> elapsed_millis \<le> refill_time_millis)"

definition refill_bounded :: "u64 \<Rightarrow> u64 \<Rightarrow> u64 \<Rightarrow> u64 \<Rightarrow> refill_outcome option" where
  "refill_bounded sz budget refill_time_nanos elapsed_nanos =
     Option.bind (try_from sz) (\<lambda>sz'.
     Option.bind (try_from budget) (\<lambda>budget'.
     Option.bind (try_from (refill_time_nanos div NANOS_PER_MILLISECOND)) (\<lambda>refill_time_millis.
     Option.bind (try_from (elapsed_nanos div NANOS_PER_MILLISECOND)) (\<lambda>elapsed_millis.
     bounded_to_refill sz refill_time_nanos
       (token_bucket_refill_bounded_millis sz' budget' refill_time_millis elapsed_millis)))))"

definition refill_products :: "u64 \<Rightarrow> u64 \<Rightarrow> u64 \<Rightarrow> u64 \<Rightarrow> refill_outcome option" where
  "refill_products sz budget refill_time_nanos elapsed_nanos =
     Option.bind (checked_mul elapsed_nanos sz) (\<lambda>product.
     let tokens = product div refill_time_nanos in
     if tokens = 0 then Some Refill_Unchanged
     else
       Option.bind (checked_mul tokens refill_time_nanos) (\<lambda>adjusted.
       Some (Refill_Partial (min (saturating_add budget tokens) sz) (div_ceil adjusted sz))))"

definition token_bucket_refill_native :: "u64 \<Rightarrow> u64 \<Rightarrow> u64 \<Rightarrow> u64 \<Rightarrow> refill_outcome option" where
  "token_bucket_refill_native sz budget refill_time_nanos elapsed_nanos =
     (if sz = 0 \<or> refill_time_nanos = 0 then Some Refill_Unchanged
      else if bounded_refill_applies sz budget refill_time_nanos elapsed_nanos
      then refill_bounded sz budget refill_time_nanos elapsed_nanos
      else if refill_time_nanos \<le> elapsed_nanos then Some Refill_Full
      else refill_products sz budget refill_time_nanos elapsed_nanos)"

definition token_bucket_refill_wide :: "u64 \<Rightarrow> u64 \<Rightarrow> u64 \<Rightarrow> u128 \<Rightarrow> refill_outcome" where
  "token_bucket_refill_wide sz budget refill_time_nanos elapsed_nanos =
     (let tokens = elapsed_nanos * ucast sz div ucast refill_time_nanos :: u128 in
      if tokens = 0 then Refill_Unchanged
      else
        let new_budget = min (saturating_add (ucast budget) tokens) (ucast sz) :: u128;
            budget = (case try_from new_budget of Some value \<Rightarrow> value | None \<Rightarrow> sz);
            adjusted_nanos = div_ceil (saturating_mul tokens (ucast refill_time_nanos)) (ucast sz) in
        Refill_Partial budget (case try_from adjusted_nanos of Some value \<Rightarrow> value | None \<Rightarrow> refill_time_nanos))"

definition token_bucket_refill :: "u64 \<Rightarrow> u64 \<Rightarrow> u64 \<Rightarrow> u128 \<Rightarrow> refill_outcome" where
  "token_bucket_refill sz budget refill_time_nanos elapsed_nanos =
     (if sz = 0 \<or> refill_time_nanos = 0 then Refill_Unchanged
      else
        case try_from elapsed_nanos of
          None \<Rightarrow> Refill_Full
        | Some elapsed_nanos_u64 \<Rightarrow>
            (case token_bucket_refill_native sz budget refill_time_nanos elapsed_nanos_u64 of
               Some refill \<Rightarrow> refill
             | None \<Rightarrow> token_bucket_refill_wide sz budget refill_time_nanos elapsed_nanos))"

definition replenish_at :: "token_bucket \<Rightarrow> instant \<Rightarrow> token_bucket" where
  "replenish_at b now =
     (case checked_duration_since now (tb_last_update b) of
        None \<Rightarrow> b
      | Some physical_elapsed \<Rightarrow>
          (let credit = tb_elapsed_refill_credit_nanos b;
               elapsed_nanos = saturating_add (as_nanos physical_elapsed) (ucast credit) in
           case token_bucket_refill (tb_size b) (tb_budget b) (tb_refill_time_nanos b) elapsed_nanos of
             Refill_Unchanged \<Rightarrow> b
           | Refill_Full \<Rightarrow> b\<lparr>tb_budget := tb_size b, tb_last_update := now, tb_elapsed_refill_credit_nanos := 0\<rparr>
           | Refill_Partial budget adjusted_nanos \<Rightarrow>
               (let consumed_credit = min credit adjusted_nanos;
                    consumed_physical = adjusted_nanos - consumed_credit in
                b\<lparr>tb_budget := budget, tb_elapsed_refill_credit_nanos := credit - consumed_credit,
                  tb_last_update :=
                    (if consumed_physical \<noteq> 0
                     then case instant_checked_add (tb_last_update b) (unat consumed_physical) of
                            Some t \<Rightarrow> t | None \<Rightarrow> now
                     else tb_last_update b)\<rparr>)))"

definition duration_from_nanos_saturating :: "u128 \<Rightarrow> duration" where
  "duration_from_nanos_saturating nanos =
     (case try_from nanos of Some (value :: u64) \<Rightarrow> unat value | None \<Rightarrow> unat (- 1 :: u64))"

definition retry_after_for_tokens :: "token_bucket \<Rightarrow> u64 \<Rightarrow> instant \<Rightarrow> duration" where
  "retry_after_for_tokens b tokens now =
     (let target_budget = min tokens (tb_size b);
          token_deficit = saturating_sub target_budget (tb_budget b) in
      if token_deficit = 0 then 0
      else
        let nanos_since_update = saturating_add
              (case checked_duration_since now (tb_last_update b) of Some elapsed \<Rightarrow> as_nanos elapsed | None \<Rightarrow> 0)
              (ucast (tb_elapsed_refill_credit_nanos b));
            nanos_until_budget = div_ceil (saturating_mul (ucast token_deficit) (ucast (tb_refill_time_nanos b)))
              (ucast (tb_size b)) :: u128 in
        duration_from_nanos_saturating (saturating_sub nanos_until_budget nanos_since_update))"

definition reduce_with_retry_at :: "token_bucket \<Rightarrow> u64 \<Rightarrow> instant \<Rightarrow> token_bucket \<times> token_bucket_reduction" where
  "reduce_with_retry_at b tokens now =
     (if tokens = 0 then (b, Allowed)
      else if tokens \<le> tb_one_time_burst b
      then (b\<lparr>tb_one_time_burst := tb_one_time_burst b - tokens, tb_last_update := now,
              tb_elapsed_refill_credit_nanos := 0\<rparr>, Allowed)
      else
        let tokens = saturating_sub tokens (tb_one_time_burst b);
            b = replenish_at (b\<lparr>tb_one_time_burst := 0\<rparr>) now in
        if tb_size b < tokens
        then (let b = b\<lparr>tb_budget := 0\<rparr> in (b, Throttled (retry_after_for_tokens b (tb_size b) now)))
        else if tb_budget b < tokens then (b, Throttled (retry_after_for_tokens b tokens now))
        else (b\<lparr>tb_budget := tb_budget b - tokens\<rparr>, Allowed))"

definition reduce_allow_overconsumption_with_retry_at ::
    "token_bucket \<Rightarrow> u64 \<Rightarrow> instant \<Rightarrow> token_bucket \<times> token_bucket_reduction" where
  "reduce_allow_overconsumption_with_retry_at b tokens now =
     (if tokens = 0 \<or> tokens \<le> tb_size b then reduce_with_retry_at b tokens now
      else if tokens \<le> tb_one_time_burst b
      then (b\<lparr>tb_one_time_burst := tb_one_time_burst b - tokens, tb_last_update := now,
              tb_elapsed_refill_credit_nanos := 0\<rparr>, Allowed)
      else
        let tokens = saturating_sub tokens (tb_one_time_burst b);
            b = replenish_at (b\<lparr>tb_one_time_burst := 0\<rparr>) now in
        if tokens \<le> tb_size b then reduce_with_retry_at b tokens now
        else if tb_budget b < tb_size b then (b, Throttled (retry_after_for_tokens b (tb_size b) now))
        else (b\<lparr>tb_budget := 0\<rparr>, Allowed))"

definition reduce_at :: "token_bucket \<Rightarrow> u64 \<Rightarrow> instant \<Rightarrow> token_bucket \<times> bool" where
  "reduce_at b tokens now = apsnd (\<lambda>r. r = Allowed) (reduce_with_retry_at b tokens now)"

subsection \<open>Snapshots and persistence\<close>

record token_bucket_snapshot =
  ts_budget :: u64
  ts_one_time_burst :: u64
  ts_last_update :: instant
  ts_elapsed_refill_credit_nanos :: u64

record persisted_token_bucket_state =
  ps_config :: token_bucket_config
  ps_budget :: u64
  ps_one_time_burst :: u64
  ps_age_nanos :: u64

datatype persisted_token_bucket_state_error =
    DisabledConfiguration | ConfigurationMismatch | BudgetOutOfBounds | BurstOutOfBounds
  | CaptureTimeBeforeLastUpdate | AgeOutOfBounds

definition bucket_snapshot :: "token_bucket \<Rightarrow> token_bucket_snapshot" where
  "bucket_snapshot b =
     \<lparr>ts_budget = tb_budget b, ts_one_time_burst = tb_one_time_burst b, ts_last_update = tb_last_update b,
      ts_elapsed_refill_credit_nanos = tb_elapsed_refill_credit_nanos b\<rparr>"

definition bucket_restore :: "token_bucket \<Rightarrow> token_bucket_snapshot \<Rightarrow> token_bucket" where
  "bucket_restore b s =
     b\<lparr>tb_budget := ts_budget s, tb_one_time_burst := ts_one_time_burst s, tb_last_update := ts_last_update s,
       tb_elapsed_refill_credit_nanos := ts_elapsed_refill_credit_nanos s\<rparr>"

definition persisted_state_at ::
    "token_bucket \<Rightarrow> token_bucket_config \<Rightarrow> instant
      \<Rightarrow> (persisted_token_bucket_state, persisted_token_bucket_state_error) result" where
  "persisted_state_at b config now =
     and_then (ok_or (checked_mul (cfg_refill_time config) NANOS_PER_MILLISECOND) DisabledConfiguration) (\<lambda>refill_time_nanos.
     if \<not> is_enabled config then Err DisabledConfiguration
     else if tb_size b \<noteq> cfg_size config \<or> tb_refill_time_nanos b \<noteq> refill_time_nanos then Err ConfigurationMismatch
     else if tb_size b < tb_budget b then Err BudgetOutOfBounds
     else if config_burst config < tb_one_time_burst b then Err BurstOutOfBounds
     else
       and_then (ok_or (checked_duration_since now (tb_last_update b)) CaptureTimeBeforeLastUpdate) (\<lambda>physical_age.
       and_then (ok_or (Option.bind (checked_add (as_nanos physical_age) (ucast (tb_elapsed_refill_credit_nanos b))) try_from)
                  AgeOutOfBounds) (\<lambda>age_nanos.
       Ok \<lparr>ps_config = config, ps_budget = tb_budget b, ps_one_time_burst = tb_one_time_burst b, ps_age_nanos = age_nanos\<rparr>)))"

definition from_persisted_state_at ::
    "persisted_token_bucket_state \<Rightarrow> instant \<Rightarrow> (token_bucket, persisted_token_bucket_state_error) result" where
  "from_persisted_state_at state now =
     and_then (ok_or (bucket_new_at (ps_config state) now) DisabledConfiguration) (\<lambda>b.
     if cfg_size (ps_config state) < ps_budget state then Err BudgetOutOfBounds
     else if config_burst (ps_config state) < ps_one_time_burst state then Err BurstOutOfBounds
     else Ok (b\<lparr>tb_budget := ps_budget state, tb_one_time_burst := ps_one_time_burst state,
                tb_last_update := now, tb_elapsed_refill_credit_nanos := ps_age_nanos state\<rparr>))"

section \<open>The refill is exact\<close>

text \<open>
  The reference: with \<open>e\<close> nanoseconds elapsed, a bucket of \<open>s\<close> tokens refilled in \<open>t\<close> nanoseconds gains
  \<open>e * s div t\<close> tokens, and the time paid for them is rounded up.
\<close>

definition refill_spec :: "nat \<Rightarrow> nat \<Rightarrow> nat \<Rightarrow> nat \<Rightarrow> refill_outcome" where
  "refill_spec s b t e =
     (if s = 0 \<or> t = 0 then Refill_Unchanged
      else if t \<le> e then Refill_Full
      else let k = e * s div t in
           if k = 0 then Refill_Unchanged
           else Refill_Partial (of_nat (min (b + k) s)) (of_nat ((k * t + s - 1) div s)))"

lemma ceil_div_le:
  fixes k t s e :: nat
  assumes "0 < s" and "k * t \<le> e * s"
  shows "(k * t + s - 1) div s \<le> e"
proof -
  have "(k * t + s - 1) div s \<le> (e * s + s - 1) div s" using assms(2) by (intro div_le_mono) simp
  also have "\<dots> = e" using assms(1) by (intro div_nat_eqI) (auto simp: algebra_simps)
  finally show ?thesis .
qed

lemma unat_ucast_up: "LENGTH('a) \<le> LENGTH('b) \<Longrightarrow> unat (ucast (w :: 'a::len word) :: 'b::len word) = unat w"
proof -
  assume "LENGTH('a) \<le> LENGTH('b)"
  then have "(2 :: nat) ^ LENGTH('a) \<le> 2 ^ LENGTH('b)" by (intro power_increasing) simp_all
  then have "unat w < 2 ^ LENGTH('b)" using unat_lt_exp [of w] by linarith
  then show ?thesis by (simp add: unat_ucast_mod)
qed

lemma word_of_unat: "unat w = n \<Longrightarrow> w = of_nat n"
  by auto

lemma unat_min: "unat (min a b :: 'a::len word) = min (unat a) (unat b)"
  by (simp add: min_def word_nat)

lemma refill_budget_words:
  "unat (min (saturating_add budget tokens) sz :: 'a::len word) = min (unat budget + unat tokens) (unat sz)"
proof -
  have "unat sz \<le> 2 ^ LENGTH('a) - 1" using unat_lt_exp [of sz] by linarith
  then show ?thesis by (simp add: unat_min unat_saturating_add min.assoc min_absorb2)
qed

lemma refill_time_words:
  fixes sz tokens t :: "'a::len word"
  assumes "unat tokens * unat t < 2 ^ LENGTH('a)" and "sz \<noteq> 0"
  shows "unat (div_ceil (tokens * t) sz) = (unat tokens * unat t + unat sz - 1) div unat sz"
  using assms by (simp add: unat_div_ceil unat_mul_no_overflow)

lemma tokens_lt_size:
  assumes "(e :: nat) < t" and "0 < s"
  shows "e * s div t < s"
  using assms by (simp add: div_less_iff_less_mult mult.commute)

lemma products_spec:
  assumes nz: "sz \<noteq> 0" "t \<noteq> 0" and lt: "unat e < unat t" and r: "refill_products sz budget t e = Some r"
  shows "r = refill_spec (unat sz) (unat budget) (unat t) (unat e)"
proof -
  obtain p where p: "checked_mul e sz = Some p" using r by (auto simp: refill_products_def bind_eq_Some_conv)
  then have up: "unat p = unat e * unat sz" by (simp only: checked_mul_Some_iff)
  let ?k = "unat e * unat sz div unat t"
  have uk: "unat (p div t) = ?k" by (simp add: unat_div up)
  have kt: "?k * unat t \<le> unat e * unat sz" by simp
  have fit: "unat (p div t) * unat t < 2 ^ LENGTH(64)"
    unfolding uk using up unat_lt_exp [of p] by (intro le_less_trans [OF kt]) simp
  show ?thesis
  proof (cases "?k = 0")
    case True
    then have "p div t = 0" using uk by (simp only: unat_eq_zero)
    then show ?thesis using r p lt True nz by (simp add: refill_products_def refill_spec_def unat_eq_zero Let_def)
  next
    case False
    then have "p div t \<noteq> 0" using uk by (metis unat_0)
    moreover have "checked_mul (p div t) t = Some (p div t * t)" using fit by (simp add: checked_mul_def)
    ultimately have "r = Refill_Partial (min (saturating_add budget (p div t)) sz) (div_ceil (p div t * t) sz)"
      using r p by (simp add: refill_products_def Let_def)
    then show ?thesis
      using refill_time_words [OF fit nz(1)] refill_budget_words [of budget "p div t" sz] uk False lt nz
      by (simp add: refill_spec_def Let_def unat_eq_zero word_of_unat)
  qed
qed

lemma bounded_spec:
  assumes nz: "sz \<noteq> 0" "t \<noteq> 0" and ap: "bounded_refill_applies sz budget t e"
  shows "refill_bounded sz budget t e = Some (refill_spec (unat sz) (unat budget) (unat t) (unat e))"
proof -
  let ?M = "NANOS_PER_MILLISECOND"
  have M: "unat ?M = 1000000" by (simp add: NANOS_PER_MILLISECOND_def)
  define T E where "T = unat (t div ?M)" and "E = unat (e div ?M)"
  have tT: "unat t = T * 1000000" and eE: "unat e = E * 1000000"
    using ap M by (auto simp: bounded_refill_applies_def is_multiple_of_nat T_def E_def unat_div dvd_def)
  have bd: "unat sz < 15" "unat budget \<le> unat sz" "1 \<le> T" "T < 15" "E \<le> T"
    using ap by (auto simp: bounded_refill_applies_def Let_def word_nat T_def E_def)
  obtain s' b' t' e' :: u8 where w: "try_from sz = Some s'" "try_from budget = Some b'" "try_from (t div ?M) = Some t'" "try_from (e div ?M) = Some e'"
    using bd by (auto simp: try_from_def T_def E_def)
  then have u: "unat s' = unat sz" "unat b' = unat budget" "unat t' = T" "unat e' = E"
    by (simp_all only: try_from_Some_iff T_def E_def)
  have rb: "refill_bounded sz budget t e = bounded_to_refill sz t (token_bucket_refill_bounded_millis s' b' t' e')"
    by (simp add: refill_bounded_def w)
  show ?thesis
  proof (cases "E = T")
    case True
    then have "e' = t'" using u by (simp add: word_unat_eq_iff)
    then show ?thesis
      using rb True tT eE nz bd(3) by (simp add: token_bucket_refill_bounded_millis_def bounded_to_refill_def refill_spec_def unat_eq_zero)
  next
    case False
    then have lt: "E < T" and ne: "e' \<noteq> t'" using bd u by (auto simp: word_unat_eq_iff)
    let ?k = "E * unat sz div T"
    define tokens :: u16 where "tokens = ucast e' * ucast s' div ucast t'"
    have small: "E * unat sz \<le> 14 * 14" using bd lt by (intro mult_mono) auto
    have "unat (ucast e' * ucast s' :: u16) = E * unat sz"
      using small u by (subst unat_mul_no_overflow) (simp_all add: unat_ucast_up)
    then have uk: "unat tokens = ?k" using u by (simp add: tokens_def unat_div unat_ucast_up)
    have ks: "unat e * unat sz div unat t = ?k"
      unfolding tT eE using div_mult_mult1 [of "1000000 :: nat" "E * unat sz" T] by (simp add: algebra_simps)
    have kle: "?k \<le> 14 * 14" using small div_le_dividend [of "E * unat sz" T] by linarith
    have "?k * unat t \<le> 196 * 14000000" unfolding tT using kle bd by (intro mult_mono) auto
    then have fit: "unat (ucast tokens :: u64) * unat t < 2 ^ LENGTH(64)" using uk by (simp add: unat_ucast_up)
    then have cm: "checked_mul (ucast tokens) t = Some (ucast tokens * t)" by (simp add: checked_mul_def)
    have b: "unat (min (saturating_add (ucast b') tokens) (ucast s') :: u16) = min (unat budget + ?k) (unat sz)"
      using u uk by (simp add: refill_budget_words unat_ucast_up)
    show ?thesis
    proof (cases "?k = 0")
      case True
      then have "tokens = 0" using uk by (simp only: unat_eq_zero)
      then show ?thesis
        using rb ne True ks tT eE lt nz bd(3)
        by (simp add: token_bucket_refill_bounded_millis_def bounded_to_refill_def refill_spec_def unat_eq_zero tokens_def Let_def)
    next
      case False
      then have "tokens \<noteq> 0" using uk by (metis unat_0)
      then have "refill_bounded sz budget t e = Some (Refill_Partial (ucast (min (saturating_add (ucast b') tokens) (ucast s') :: u16))
          (div_ceil (ucast tokens * t) sz))"
        using rb ne cm by (simp add: token_bucket_refill_bounded_millis_def bounded_to_refill_def tokens_def Let_def)
      moreover have "unat (ucast (min (saturating_add (ucast b') tokens) (ucast s') :: u16) :: u64) = min (unat budget + ?k) (unat sz)"
        using b by (simp add: unat_ucast_up)
      moreover have "unat (div_ceil (ucast tokens * t) sz) = (?k * unat t + unat sz - 1) div unat sz"
        using refill_time_words [OF fit nz(1)] uk by (simp add: unat_ucast_up)
      ultimately show ?thesis
        using False ks lt nz tT eE bd(3) by (simp add: refill_spec_def Let_def unat_eq_zero word_of_unat)
    qed
  qed
qed

lemma wide_spec:
  fixes e :: u128
  assumes nz: "sz \<noteq> 0" "t \<noteq> 0" and lt: "unat e < unat t"
  shows "token_bucket_refill_wide sz budget t e = refill_spec (unat sz) (unat budget) (unat t) (unat e)"
proof -
  have up: "unat (ucast (w :: u64) :: u128) = unat w" for w by (simp add: unat_ucast_up)
  have "unat e * unat sz < 18446744073709551616 * 18446744073709551616"
    using lt unat_bound64 [of t] unat_bound64 [of sz] by (intro mult_strict_mono) auto
  then have es: "unat (e * ucast sz) = unat e * unat sz"
    using up by (subst unat_mul_no_overflow) simp_all
  let ?k = "unat e * unat sz div unat t"
  define tokens :: u128 where "tokens = e * ucast sz div ucast t"
  have uk: "unat tokens = ?k" using es up by (simp add: tokens_def unat_div)
  have kt: "?k * unat t \<le> unat e * unat sz" by simp
  have fit: "unat tokens * unat (ucast t :: u128) < 2 ^ LENGTH(128)"
    unfolding uk up using unat_lt_exp [of "e * ucast sz"] es by (intro le_less_trans [OF kt]) simp
  have sm: "saturating_mul tokens (ucast t) = tokens * ucast t" using fit by (simp add: saturating_mul_def checked_mul_def)
  have snz: "(ucast sz :: u128) \<noteq> 0" using nz(1) up by (metis unat_eq_zero)
  have adj: "unat (div_ceil (saturating_mul tokens (ucast t)) (ucast sz)) = (?k * unat t + unat sz - 1) div unat sz"
    using refill_time_words [OF fit snz] uk up sm by simp
  have "(?k * unat t + unat sz - 1) div unat sz \<le> unat e" using kt nz(1) by (intro ceil_div_le) (auto simp: unat_gt_0)
  then have adj': "try_from (div_ceil (saturating_mul tokens (ucast t)) (ucast sz)) = Some (of_nat ((?k * unat t + unat sz - 1) div unat sz) :: u64)"
    using adj lt unat_bound64 [of t] by (simp add: try_from_Some_iff unat_of_nat take_bit_eq_mod)
  have bud: "try_from (min (saturating_add (ucast budget) tokens) (ucast sz)) = Some (of_nat (min (unat budget + ?k) (unat sz)) :: u64)"
    using unat_bound64 [of sz] uk up
    by (simp add: try_from_Some_iff refill_budget_words unat_of_nat take_bit_eq_mod)
  show ?thesis
  proof (cases "?k = 0")
    case True
    then have "tokens = 0" using uk by (simp only: unat_eq_zero)
    then show ?thesis
      using True lt nz by (simp add: token_bucket_refill_wide_def refill_spec_def tokens_def Let_def unat_eq_zero)
  next
    case False
    then have "tokens \<noteq> 0" using uk by (metis unat_0)
    then show ?thesis
      using False lt nz adj' bud unfolding token_bucket_refill_wide_def refill_spec_def Let_def tokens_def [symmetric]
      by (simp add: unat_eq_zero)
  qed
qed

lemma refill_exact: "token_bucket_refill sz budget t e = refill_spec (unat sz) (unat budget) (unat t) (unat e)"
proof (cases "sz = 0 \<or> t = 0")
  case True
  then show ?thesis by (auto simp: token_bucket_refill_def refill_spec_def)
next
  case False
  then have nz: "sz \<noteq> 0" "t \<noteq> 0" by auto
  show ?thesis
  proof (cases "try_from e :: u64 option")
    case None
    then have "unat t \<le> unat e" using unat_bound64 [of t] by (auto simp: try_from_def split: if_splits)
    then show ?thesis using nz None by (simp add: token_bucket_refill_def refill_spec_def unat_eq_zero)
  next
    case (Some e')
    then have ue: "unat e' = unat e" by (simp only: try_from_Some_iff)
    have tr: "token_bucket_refill sz budget t e = (case token_bucket_refill_native sz budget t e' of
        Some refill \<Rightarrow> refill | None \<Rightarrow> token_bucket_refill_wide sz budget t e)"
      using nz Some by (simp add: token_bucket_refill_def)
    consider "bounded_refill_applies sz budget t e'" | "\<not> bounded_refill_applies sz budget t e'" "t \<le> e'"
      | "\<not> bounded_refill_applies sz budget t e'" "unat e' < unat t" by (meson not_le word_le_nat_alt)
    then show ?thesis
    proof cases
      case 1
      then show ?thesis using tr bounded_spec [OF nz 1] nz ue by (simp add: token_bucket_refill_native_def)
    next
      case 2
      then show ?thesis
        using tr nz ue by (simp add: token_bucket_refill_native_def refill_spec_def unat_eq_zero) (simp add: word_nat)
    next
      case 3
      then have "token_bucket_refill_native sz budget t e' = refill_products sz budget t e'"
        using nz by (simp add: token_bucket_refill_native_def word_nat)
      then show ?thesis
        using tr products_spec [OF nz 3(2)] wide_spec [OF nz, of e] 3(2) ue
        by (cases "refill_products sz budget t e'") auto
    qed
  qed
qed

section \<open>The bucket as budget and age\<close>

text \<open>
  The age of a bucket is the time not yet paid out as tokens: what passed since \<open>last_update\<close> plus the credit
  carried over from a snapshot.  Everything the bucket decides depends on its budget, burst and age only.
\<close>

definition age :: "token_bucket \<Rightarrow> instant \<Rightarrow> nat" where
  "age b now = now - tb_last_update b + unat (tb_elapsed_refill_credit_nanos b)"

definition bucket_wf :: "token_bucket \<Rightarrow> bool" where
  "bucket_wf b \<longleftrightarrow> tb_size b \<noteq> 0 \<and> tb_refill_time_nanos b \<noteq> 0 \<and> tb_budget b \<le> tb_size b"

definition time_ok :: "token_bucket \<Rightarrow> instant \<Rightarrow> bool" where
  "time_ok b now \<longleftrightarrow> tb_last_update b \<le> now \<and> now < INSTANT_LIMIT"

definition gained :: "token_bucket \<Rightarrow> instant \<Rightarrow> nat" where
  "gained b now = age b now * unat (tb_size b) div unat (tb_refill_time_nanos b)"

definition refilled_budget :: "token_bucket \<Rightarrow> instant \<Rightarrow> nat" where
  "refilled_budget b now =
     (if unat (tb_refill_time_nanos b) \<le> age b now then unat (tb_size b)
      else min (unat (tb_budget b) + gained b now) (unat (tb_size b)))"

definition refilled_age :: "token_bucket \<Rightarrow> instant \<Rightarrow> nat" where
  "refilled_age b now =
     (if unat (tb_refill_time_nanos b) \<le> age b now then 0
      else age b now - (gained b now * unat (tb_refill_time_nanos b) + unat (tb_size b) - 1) div unat (tb_size b))"

lemma elapsed_word:
  assumes "time_ok b now"
  shows "unat (saturating_add (as_nanos (now - tb_last_update b)) (ucast (tb_elapsed_refill_credit_nanos b))) = age b now"
proof -
  have lt: "now - tb_last_update b < 9223372036854775808000000000"
    using assms by (auto simp: time_ok_def INSTANT_LIMIT_def intro: less_imp_diff_less)
  then have "now - tb_last_update b < 2 ^ LENGTH(128)" by simp
  then have "unat (as_nanos (now - tb_last_update b)) = now - tb_last_update b"
    unfolding as_nanos_def by (rule unat_of_nat_id)
  moreover have "unat (ucast (tb_elapsed_refill_credit_nanos b) :: u128) = unat (tb_elapsed_refill_credit_nanos b)"
    by (simp add: unat_ucast_up)
  ultimately show ?thesis
    using unat_bound64 [of "tb_elapsed_refill_credit_nanos b"] lt by (simp add: unat_saturating_add age_def)
qed

lemma gained_bound:
  assumes "bucket_wf b"
  shows "gained b now * unat (tb_refill_time_nanos b) \<le> age b now * unat (tb_size b)"
    and "(gained b now * unat (tb_refill_time_nanos b) + unat (tb_size b) - 1) div unat (tb_size b) \<le> age b now"
proof -
  show g: "gained b now * unat (tb_refill_time_nanos b) \<le> age b now * unat (tb_size b)" by (simp add: gained_def)
  show "(gained b now * unat (tb_refill_time_nanos b) + unat (tb_size b) - 1) div unat (tb_size b) \<le> age b now"
    using assms by (intro ceil_div_le [OF _ g]) (simp add: bucket_wf_def unat_gt_0)
qed

lemma replenish_at_eq:
  assumes wf: "bucket_wf b" and tm: "time_ok b now"
  shows "unat (tb_budget (replenish_at b now)) = refilled_budget b now" and "age (replenish_at b now) now = refilled_age b now"
    and "tb_last_update (replenish_at b now) \<le> now"
    and "tb_size (replenish_at b now) = tb_size b" "tb_refill_time_nanos (replenish_at b now) = tb_refill_time_nanos b"
    and "tb_one_time_burst (replenish_at b now) = tb_one_time_burst b"
proof -
  let ?s = "unat (tb_size b)" and ?t = "unat (tb_refill_time_nanos b)" and ?e = "age b now" and ?k = "gained b now"
  let ?credit = "tb_elapsed_refill_credit_nanos b" and ?b' = "replenish_at b now"
  have s0: "0 < ?s" and t0: "0 < ?t" and le: "unat (tb_budget b) \<le> ?s"
    using wf by (auto simp: bucket_wf_def unat_gt_0 word_nat)
  have last: "tb_last_update b \<le> now" using tm by (simp add: time_ok_def)
  have rp: "?b' = (case refill_spec ?s (unat (tb_budget b)) ?t ?e of
             Refill_Unchanged \<Rightarrow> b
           | Refill_Full \<Rightarrow> b\<lparr>tb_budget := tb_size b, tb_last_update := now, tb_elapsed_refill_credit_nanos := 0\<rparr>
           | Refill_Partial budget adjusted_nanos \<Rightarrow>
               (let consumed_credit = min ?credit adjusted_nanos; consumed_physical = adjusted_nanos - consumed_credit in
                b\<lparr>tb_budget := budget, tb_elapsed_refill_credit_nanos := ?credit - consumed_credit,
                  tb_last_update := (if consumed_physical \<noteq> 0
                     then case instant_checked_add (tb_last_update b) (unat consumed_physical) of Some t \<Rightarrow> t | None \<Rightarrow> now
                     else tb_last_update b)\<rparr>))"
    using last elapsed_word [OF tm] by (simp add: replenish_at_def checked_duration_since_def refill_exact Let_def)
  have "unat (tb_budget ?b') = refilled_budget b now \<and> age ?b' now = refilled_age b now \<and> tb_last_update ?b' \<le> now \<and>
      tb_size ?b' = tb_size b \<and> tb_refill_time_nanos ?b' = tb_refill_time_nanos b \<and> tb_one_time_burst ?b' = tb_one_time_burst b"
  proof (cases "?t \<le> ?e \<or> ?k = 0")
    case True
    then show ?thesis
      using rp s0 t0 le last by (auto simp: refill_spec_def gained_def refilled_budget_def refilled_age_def age_def Let_def)
  next
    case False
    define A where "A = (?k * ?t + ?s - 1) div ?s"
    have ae: "A \<le> ?e" unfolding A_def by (rule gained_bound(2) [OF wf])
    define a :: u64 where "a = of_nat A"
    have "A < 2 ^ LENGTH(64)" using ae False unat_bound64 [of "tb_refill_time_nanos b"] by simp
    then have ua: "unat a = A" unfolding a_def by (rule unat_of_nat_id)
    have "min (unat (tb_budget b) + ?k) ?s < 2 ^ LENGTH(64)" using unat_bound64 [of "tb_size b"] by simp
    then have ub: "unat (of_nat (min (unat (tb_budget b) + ?k) ?s) :: u64) = min (unat (tb_budget b) + ?k) ?s"
      by (rule unat_of_nat_id)
    define cc cp where "cc = min ?credit a" and "cp = a - cc"
    have cc: "unat cc = min (unat ?credit) A" "cc \<le> ?credit" "cc \<le> a" by (simp_all add: cc_def unat_min ua)
    have cp: "unat cp = A - min (unat ?credit) A" using cc ua by (simp add: cp_def)
    have fits: "tb_last_update b + unat cp \<le> now" using cp ae last by (simp add: age_def min_def split: if_splits)
    then have add: "instant_checked_add (tb_last_update b) (unat cp) = Some (tb_last_update b + unat cp)"
      using tm by (simp add: instant_checked_add_def time_ok_def)
    have lu: "(if cp \<noteq> 0 then case instant_checked_add (tb_last_update b) (unat cp) of Some t \<Rightarrow> t | None \<Rightarrow> now
        else tb_last_update b) = tb_last_update b + unat cp" using add by auto
    have r1: "refill_spec ?s (unat (tb_budget b)) ?t ?e = Refill_Partial (of_nat (min (unat (tb_budget b) + ?k) ?s)) a"
      using False s0 t0 by (simp add: refill_spec_def gained_def Let_def a_def A_def)
    have b': "?b' = b\<lparr>tb_budget := of_nat (min (unat (tb_budget b) + ?k) ?s), tb_elapsed_refill_credit_nanos := ?credit - cc,
        tb_last_update := tb_last_update b + unat cp\<rparr>"
      unfolding rp r1 refill_outcome.case Let_def cc_def [symmetric] cp_def [symmetric] lu by simp
    have "age ?b' now = ?e - A" using b' cc cp ae fits by (simp add: age_def min_def split: if_splits)
    then show ?thesis using b' ub False fits by (simp add: refilled_budget_def refilled_age_def A_def)
  qed
  then show "unat (tb_budget ?b') = refilled_budget b now" "age ?b' now = refilled_age b now" "tb_last_update ?b' \<le> now"
    "tb_size ?b' = tb_size b" "tb_refill_time_nanos ?b' = tb_refill_time_nanos b" "tb_one_time_burst ?b' = tb_one_time_burst b"
    by auto
qed

end
