(* ===== verification/Token_Bucket_Properties.thy ===== *)
theory Token_Bucket_Properties
  imports Token_Bucket
begin

text \<open>
  The token bucket refines a machine on three numbers: budget, remaining burst and age.  From the refinement follow the
  bound on what any run of requests is granted, the exactness of the retry delay and the equivalence of a
  persisted and restored bucket with the original.
\<close>

section \<open>The abstract bucket\<close>

type_synonym bucket_view = "nat \<times> nat \<times> nat"

definition view :: "token_bucket \<Rightarrow> instant \<Rightarrow> bucket_view" where
  "view b now = (unat (tb_budget b), unat (tb_one_time_burst b), age b now)"

definition spec_replenish :: "nat \<Rightarrow> nat \<Rightarrow> nat \<Rightarrow> nat \<Rightarrow> nat \<times> nat" where
  "spec_replenish s t budget a =
     (if t \<le> a then (s, 0)
      else (min (budget + a * s div t) s, a - (a * s div t * t + s - 1) div s))"

definition spec_retry :: "nat \<Rightarrow> nat \<Rightarrow> nat \<Rightarrow> nat \<Rightarrow> nat \<Rightarrow> nat" where
  "spec_retry s t budget a n =
     (let d = min n s - budget in if d = 0 then 0 else (d * t + s - 1) div s - a)"

definition spec_reduce :: "nat \<Rightarrow> nat \<Rightarrow> bucket_view \<Rightarrow> nat \<Rightarrow> bucket_view \<times> token_bucket_reduction" where
  "spec_reduce s t v n =
     (case v of (budget, burst, a) \<Rightarrow>
        if n = 0 then (v, Allowed)
        else if n \<le> burst then ((budget, burst - n, 0), Allowed)
        else
          let n = n - burst; (budget, a) = spec_replenish s t budget a in
          if s < n then ((0, 0, a), Throttled (spec_retry s t 0 a s))
          else if budget < n then ((budget, 0, a), Throttled (spec_retry s t budget a n))
          else ((budget - n, 0, a), Allowed))"

lemma ceil_div_bound: "0 < s \<Longrightarrow> d \<le> s \<Longrightarrow> (d * t + s - 1) div s \<le> (t :: nat)"
  by (intro ceil_div_le) (simp_all add: mult.commute)

lemma retry_after_eq:
  assumes wf: "tb_size b \<noteq> 0" and tm: "time_ok b now"
  shows "retry_after_for_tokens b tokens now =
    spec_retry (unat (tb_size b)) (unat (tb_refill_time_nanos b)) (unat (tb_budget b)) (age b now) (unat tokens)"
proof -
  let ?s = "tb_size b" and ?t = "tb_refill_time_nanos b"
  define d where "d = saturating_sub (min tokens ?s) (tb_budget b)"
  define D where "D = min (unat tokens) (unat ?s) - unat (tb_budget b)"
  have ud: "unat d = D" by (simp add: d_def D_def unat_saturating_sub unat_min)
  have up: "unat (ucast (w :: u64) :: u128) = unat w" for w by (simp add: unat_ucast_up)
  have "D * unat ?t < 18446744073709551616 * 18446744073709551616"
    using ud unat_bound64 [of d] unat_bound64 [of ?t] by (intro mult_strict_mono) auto
  then have fit: "unat (ucast d :: u128) * unat (ucast ?t :: u128) < 2 ^ LENGTH(128)" using ud up by simp
  have snz: "(ucast ?s :: u128) \<noteq> 0" using wf up by (metis unat_eq_zero)
  have "saturating_mul (ucast d :: u128) (ucast ?t) = ucast d * ucast ?t" using fit by (simp add: saturating_mul_def checked_mul_def)
  then have until: "unat (div_ceil (saturating_mul (ucast d) (ucast ?t)) (ucast ?s :: u128)) = (D * unat ?t + unat ?s - 1) div unat ?s"
    using refill_time_words [OF fit snz] ud up by simp
  have since: "unat (saturating_add (case checked_duration_since now (tb_last_update b) of Some elapsed \<Rightarrow> as_nanos elapsed | None \<Rightarrow> 0)
      (ucast (tb_elapsed_refill_credit_nanos b))) = age b now"
    using tm elapsed_word [OF tm] by (simp add: checked_duration_since_def time_ok_def)
  have "(D * unat ?t + unat ?s - 1) div unat ?s \<le> unat ?t"
    using wf by (intro ceil_div_bound) (auto simp: D_def unat_gt_0)
  then have le: "(D * unat ?t + unat ?s - 1) div unat ?s - age b now < 2 ^ 64" using unat_bound64 [of ?t] by simp
  have dur: "duration_from_nanos_saturating x = unat x" if "unat x < 2 ^ 64" for x
    using that by (simp add: duration_from_nanos_saturating_def try_from_def unat_ucast_mod)
  have "d = 0 \<longleftrightarrow> D = 0" using ud by (metis unat_eq_zero)
  then show ?thesis
    using dur le until since
    unfolding retry_after_for_tokens_def spec_retry_def Let_def d_def [symmetric] D_def [symmetric]
    by (simp add: unat_saturating_sub)
qed

lemma replenish_view:
  assumes wf: "bucket_wf b" and tm: "time_ok b now"
  shows "spec_replenish (unat (tb_size b)) (unat (tb_refill_time_nanos b)) (unat (tb_budget b)) (age b now) =
      (unat (tb_budget (replenish_at b now)), age (replenish_at b now) now)"
    and "bucket_wf (replenish_at b now)" and "time_ok (replenish_at b now) now"
proof -
  note rp = replenish_at_eq [OF assms]
  show "spec_replenish (unat (tb_size b)) (unat (tb_refill_time_nanos b)) (unat (tb_budget b)) (age b now) =
      (unat (tb_budget (replenish_at b now)), age (replenish_at b now) now)"
    using rp by (simp add: spec_replenish_def refilled_budget_def refilled_age_def gained_def)
  show "bucket_wf (replenish_at b now)" using rp wf by (simp add: bucket_wf_def word_nat refilled_budget_def)
  show "time_ok (replenish_at b now) now" using rp tm by (simp add: time_ok_def)
qed

definition same_rate :: "token_bucket \<Rightarrow> token_bucket \<Rightarrow> bool" where
  "same_rate b b' \<longleftrightarrow> tb_size b' = tb_size b \<and> tb_refill_time_nanos b' = tb_refill_time_nanos b"

lemma age_simps [simp]:
  "age (b\<lparr>tb_budget := x\<rparr>) now = age b now" "age (b\<lparr>tb_one_time_burst := x\<rparr>) now = age b now"
  "age (b\<lparr>tb_one_time_burst := x, tb_last_update := now, tb_elapsed_refill_credit_nanos := 0\<rparr>) now = 0"
  by (simp_all add: age_def)

lemma bucket_simps [simp]:
  "bucket_wf (b\<lparr>tb_one_time_burst := x\<rparr>) = bucket_wf b" "time_ok (b\<lparr>tb_one_time_burst := x\<rparr>) now = time_ok b now"
  "time_ok (b\<lparr>tb_budget := x\<rparr>) now = time_ok b now"
  by (simp_all add: bucket_wf_def time_ok_def)

lemma bucket_wf_less: "bucket_wf b \<Longrightarrow> x \<le> tb_budget b \<Longrightarrow> bucket_wf (b\<lparr>tb_budget := x\<rparr>)"
  by (auto simp: bucket_wf_def)

lemma word_diff_le: "(n :: u64) \<le> x \<Longrightarrow> x - n \<le> x"
  by (simp add: word_nat)

lemma reduce_view:
  assumes wf: "bucket_wf b" and tm: "time_ok b now" and r: "reduce_with_retry_at b tokens now = (b', r)"
  shows "spec_reduce (unat (tb_size b)) (unat (tb_refill_time_nanos b)) (view b now) (unat tokens) = (view b' now, r) \<and>
    bucket_wf b' \<and> time_ok b' now \<and> same_rate b b'"
proof (cases "tokens \<le> tb_one_time_burst b")
  case True
  then show ?thesis
    using r wf tm by (auto simp: reduce_with_retry_at_def spec_reduce_def view_def same_rate_def bucket_wf_def time_ok_def
        unat_eq_zero word_nat split: if_splits)
next
  case False
  let ?b = "b\<lparr>tb_one_time_burst := 0\<rparr>" and ?n = "saturating_sub tokens (tb_one_time_burst b)"
  let ?c = "replenish_at ?b now"
  have b: "bucket_wf ?b" "time_ok ?b now" using wf tm by simp_all
  note rp = replenish_view [OF b] replenish_at_eq(4,5,6) [OF b]
  have nz: "tokens \<noteq> 0" using False by (auto simp: word_le_nat_alt)
  have un: "unat ?n = unat tokens - unat (tb_one_time_burst b)" by (rule unat_saturating_sub)
  have c0: "bucket_wf (?c\<lparr>tb_budget := 0\<rparr>)" using rp(2) by (rule bucket_wf_less) simp
  have sz: "tb_size ?c \<noteq> 0" using rp(2) by (simp add: bucket_wf_def)
  have "reduce_with_retry_at b tokens now = (if tb_size ?c < ?n then (?c\<lparr>tb_budget := 0\<rparr>, Throttled (retry_after_for_tokens (?c\<lparr>tb_budget := 0\<rparr>) (tb_size ?c) now))
        else if tb_budget ?c < ?n then (?c, Throttled (retry_after_for_tokens ?c ?n now))
        else (?c\<lparr>tb_budget := tb_budget ?c - ?n\<rparr>, Allowed))"
    using False nz by (simp add: reduce_with_retry_at_def Let_def)
  note r' = this [unfolded r]
  have ra: "retry_after_for_tokens (?c\<lparr>tb_budget := 0\<rparr>) (tb_size ?c) now =
        spec_retry (unat (tb_size b)) (unat (tb_refill_time_nanos b)) 0 (age ?c now) (unat (tb_size b))"
    "retry_after_for_tokens ?c ?n now =
        spec_retry (unat (tb_size b)) (unat (tb_refill_time_nanos b)) (unat (tb_budget ?c)) (age ?c now) (unat ?n)"
    using retry_after_eq [of "?c\<lparr>tb_budget := 0\<rparr>" now "tb_size ?c"] retry_after_eq [of ?c now ?n] sz rp by simp_all
  have sp: "spec_reduce (unat (tb_size b)) (unat (tb_refill_time_nanos b)) (view b now) (unat tokens) =
      (if unat (tb_size b) < unat ?n then ((0, 0, age ?c now), Throttled (spec_retry (unat (tb_size b)) (unat (tb_refill_time_nanos b)) 0 (age ?c now) (unat (tb_size b))))
       else if unat (tb_budget ?c) < unat ?n then ((unat (tb_budget ?c), 0, age ?c now),
           Throttled (spec_retry (unat (tb_size b)) (unat (tb_refill_time_nanos b)) (unat (tb_budget ?c)) (age ?c now) (unat ?n)))
       else ((unat (tb_budget ?c) - unat ?n, 0, age ?c now), Allowed))"
    using False nz rp(1) un by (simp add: spec_reduce_def view_def word_nat unat_eq_zero)
  consider "tb_size b < ?n" | "\<not> tb_size b < ?n" "tb_budget ?c < ?n" | "\<not> tb_size b < ?n" "\<not> tb_budget ?c < ?n" by blast
  then show ?thesis
  proof cases
    case 1
    then show ?thesis using r' sp ra c0 rp by (simp add: view_def same_rate_def) (simp add: word_nat)
  next
    case 2
    then show ?thesis using r' sp ra rp by (simp add: view_def same_rate_def) (simp add: word_nat)
  next
    case 3
    then have le: "?n \<le> tb_budget ?c" by simp
    have "bucket_wf (?c\<lparr>tb_budget := tb_budget ?c - ?n\<rparr>)" using rp(2) word_diff_le [OF le] by (rule bucket_wf_less)
    moreover have "unat (tb_budget ?c - ?n) = unat (tb_budget ?c) - unat ?n" using le by (rule unat_sub)
    ultimately show ?thesis using 3 r' sp rp by (simp add: view_def same_rate_def) (simp add: word_nat)
  qed
qed

section \<open>What a run is granted\<close>

text \<open>
  The contract of a rate limiter, with a potential that pays for every grant and grows at the refill rate only.
\<close>

fun serve_all :: "('s \<Rightarrow> 'q \<Rightarrow> instant \<Rightarrow> 's \<times> nat) \<Rightarrow> 's \<Rightarrow> ('q \<times> instant) list \<Rightarrow> 's \<times> nat" where
  "serve_all serve s [] = (s, 0)"
| "serve_all serve s ((q, now) # qs) =
     (case serve s q now of (s', c) \<Rightarrow> case serve_all serve s' qs of (s'', c') \<Rightarrow> (s'', c + c'))"

locale rate_limiter =
  fixes ok :: "'s \<Rightarrow> instant \<Rightarrow> bool"
    and potential :: "'s \<Rightarrow> instant \<Rightarrow> nat"
    and price :: "'s \<Rightarrow> nat"
    and rate :: "'s \<Rightarrow> nat"
    and serve :: "'s \<Rightarrow> 'q \<Rightarrow> instant \<Rightarrow> 's \<times> nat"
  assumes pays: "ok s now \<Longrightarrow> serve s q now = (s', c) \<Longrightarrow>
        potential s' now + c * price s \<le> potential s now \<and> ok s' now \<and> price s' = price s \<and> rate s' = rate s"
    and grows: "ok s now \<Longrightarrow> now \<le> later \<Longrightarrow> later < INSTANT_LIMIT \<Longrightarrow>
        ok s later \<and> potential s later = potential s now + (later - now) * rate s"
begin

lemma granted_bound:
  assumes "serve_all serve s qs = (s', c)" and "ok s start" and "sorted (start # map snd qs @ [finish])" and "finish < INSTANT_LIMIT"
  shows "potential s' finish + c * price s \<le> potential s finish"
  using assms
proof (induction qs arbitrary: s start c)
  case (Cons r qs)
  obtain q now where r: "r = (q, now)" by fastforce
  obtain s1 c1 where s1: "serve s q now = (s1, c1)" by fastforce
  obtain c2 where c2: "serve_all serve s1 qs = (s', c2)" "c = c1 + c2"
    using Cons.prems(1) r s1 by (auto split: prod.splits)
  have le: "start \<le> now" "now \<le> finish" using Cons.prems(3) r by auto
  have ok: "ok s now" using grows [OF Cons.prems(2) le(1)] le(2) Cons.prems(4) by simp
  note p = pays [OF ok s1]
  have "potential s' finish + c2 * price s1 \<le> potential s1 finish"
    using Cons.prems(3,4) r p by (intro Cons.IH [OF c2(1), of now]) auto
  moreover have "potential s1 finish = potential s1 now + (finish - now) * rate s" "potential s finish = potential s now + (finish - now) * rate s"
    using grows [OF _ le(2) Cons.prems(4)] p ok by auto
  ultimately show ?case using p c2(2) by (simp add: algebra_simps)
qed simp

end

definition psi :: "nat \<Rightarrow> nat \<Rightarrow> bucket_view \<Rightarrow> nat" where
  "psi s t v = (case v of (budget, burst, a) \<Rightarrow> (budget + burst) * t + a * s)"

lemma ceil_mult_ge: "0 < s \<Longrightarrow> n \<le> (n + s - 1) div s * (s :: nat)"
proof -
  assume s: "0 < s"
  have "(n + s - 1) div s * s + (n + s - 1) mod s = n + s - 1" by (rule div_mult_mod_eq)
  moreover have "(n + s - 1) mod s < s" using s by simp
  ultimately show ?thesis by linarith
qed

lemma spec_replenish_psi:
  assumes s: "0 < s" and r: "spec_replenish s t budget a = (budget', a')"
  shows "budget' * t + a' * s \<le> budget * t + a * s"
proof (cases "t \<le> a")
  case True
  then have "s * t \<le> a * s" by (simp add: mult.commute)
  moreover have "budget' = s" "a' = 0" using r True by (simp_all add: spec_replenish_def)
  ultimately show ?thesis by (simp only: mult_0 add_0_right)
next
  case False
  define k where "k = a * s div t"
  define c where "c = (k * t + s - 1) div s"
  have "k * t \<le> a * s" by (simp add: k_def)
  then have "c \<le> a" unfolding c_def by (rule ceil_div_le [OF s])
  then have as: "(a - c) * s = a * s - c * s" "c * s \<le> a * s" by (simp_all add: diff_mult_distrib)
  have "k * t \<le> c * s" unfolding c_def by (rule ceil_mult_ge [OF s])
  moreover have "budget' = min (budget + k) s" "a' = a - c" using r False by (simp_all add: spec_replenish_def k_def c_def)
  moreover have "min (budget + k) s * t \<le> (budget + k) * t" by (rule mult_le_mono1) simp
  ultimately show ?thesis using as by (simp add: add_mult_distrib)
qed

lemma spec_reduce_psi:
  assumes s: "0 < s" and r: "spec_reduce s t v n = (v', r)"
  shows "psi s t v' + (if r = Allowed then n else 0) * t \<le> psi s t v"
proof -
  obtain budget burst a where v: "v = (budget, burst, a)" by (metis prod_cases3)
  consider "n = 0" | "n \<noteq> 0" "n \<le> burst" | "burst < n" by linarith
  then show ?thesis
  proof cases
    case 2
    then have "(budget + (burst - n)) * t + n * t = (budget + burst) * t"
      by (simp flip: add_mult_distrib)
    then show ?thesis using r 2 v by (auto simp: spec_reduce_def psi_def)
  next
    case 3
    obtain b1 a1 where ba: "spec_replenish s t budget a = (b1, a1)" by fastforce
    note p = spec_replenish_psi [OF s ba]
    define k where "k = n - burst"
    have n: "n = k + burst" "0 < k" using 3 by (simp_all add: k_def)
    have r': "(v', r) = (if s < k then ((0, 0, a1), Throttled (spec_retry s t 0 a1 s))
        else if b1 < k then ((b1, 0, a1), Throttled (spec_retry s t b1 a1 k)) else ((b1 - k, 0, a1), Allowed))"
      using r n ba by (simp add: spec_reduce_def v)
    have "(b1 - k) * t + k * t = b1 * t" if "k \<le> b1" using that by (simp flip: add_mult_distrib)
    then show ?thesis
      using r' p v n(1) by (auto simp: psi_def add_mult_distrib split: if_splits)
  qed (use r v in \<open>auto simp: spec_reduce_def\<close>)
qed

definition bucket_potential :: "token_bucket \<Rightarrow> instant \<Rightarrow> nat" where
  "bucket_potential b now = psi (unat (tb_size b)) (unat (tb_refill_time_nanos b)) (view b now)"

definition granted :: "token_bucket \<Rightarrow> u64 \<Rightarrow> instant \<Rightarrow> token_bucket \<times> nat" where
  "granted b tokens now = apsnd (\<lambda>r. if r = Allowed then unat tokens else 0) (reduce_with_retry_at b tokens now)"

definition granted_over :: "token_bucket \<Rightarrow> u64 \<Rightarrow> instant \<Rightarrow> token_bucket \<times> nat" where
  "granted_over b tokens now =
     apsnd (\<lambda>r. if r = Allowed then min (unat tokens) (unat (tb_size b)) else 0)
       (reduce_allow_overconsumption_with_retry_at b tokens now)"

lemma reduce_pays:
  assumes wf: "bucket_wf b" and tm: "time_ok b now" and r: "reduce_with_retry_at b tokens now = (b', r)"
  shows "bucket_potential b' now + (if r = Allowed then unat tokens else 0) * unat (tb_refill_time_nanos b) \<le> bucket_potential b now"
    and "bucket_wf b'" and "time_ok b' now" and "same_rate b b'"
proof -
  note v = reduce_view [OF assms]
  then show "bucket_wf b'" "time_ok b' now" "same_rate b b'" by auto
  have "0 < unat (tb_size b)" using wf by (simp add: bucket_wf_def unat_gt_0)
  then show "bucket_potential b' now + (if r = Allowed then unat tokens else 0) * unat (tb_refill_time_nanos b) \<le> bucket_potential b now"
    using spec_reduce_psi [of "unat (tb_size b)"] v unfolding bucket_potential_def same_rate_def by metis
qed

lemma replenish_potential:
  assumes wf: "bucket_wf b" and tm: "time_ok b now"
  defines "c \<equiv> replenish_at (b\<lparr>tb_one_time_burst := 0\<rparr>) now"
  shows "bucket_potential c now + unat (tb_one_time_burst b) * unat (tb_refill_time_nanos b) \<le> bucket_potential b now"
    and "bucket_wf c" and "time_ok c now" and "same_rate b c" and "tb_one_time_burst c = 0"
proof -
  let ?b = "b\<lparr>tb_one_time_burst := 0\<rparr>"
  have b: "bucket_wf ?b" "time_ok ?b now" using wf tm by simp_all
  note rp = replenish_view [OF b, folded c_def] replenish_at_eq(4,5,6) [OF b, folded c_def]
  then show "bucket_wf c" "time_ok c now" "same_rate b c" "tb_one_time_burst c = 0" by (simp_all add: same_rate_def)
  have "0 < unat (tb_size b)" using wf by (simp add: bucket_wf_def unat_gt_0)
  then show "bucket_potential c now + unat (tb_one_time_burst b) * unat (tb_refill_time_nanos b) \<le> bucket_potential b now"
    using spec_replenish_psi [of "unat (tb_size b)" "unat (tb_refill_time_nanos b)" "unat (tb_budget b)" "age b now"] rp
    by (simp add: bucket_potential_def psi_def view_def add_mult_distrib)
qed

lemma over_pays:
  assumes wf: "bucket_wf b" and tm: "time_ok b now" and r: "reduce_allow_overconsumption_with_retry_at b tokens now = (b', r)"
  shows "bucket_potential b' now + (if r = Allowed then min (unat tokens) (unat (tb_size b)) else 0) * unat (tb_refill_time_nanos b)
      \<le> bucket_potential b now \<and> bucket_wf b' \<and> time_ok b' now \<and> same_rate b b'"
proof -
  let ?t = "unat (tb_refill_time_nanos b)" and ?s = "unat (tb_size b)" and ?u = "tb_one_time_burst b"
  let ?c = "replenish_at (b\<lparr>tb_one_time_burst := 0\<rparr>) now" and ?n = "saturating_sub tokens (tb_one_time_burst b)"
  note rp = replenish_potential [OF wf tm]
  define M where "M = min (unat tokens) ?s * ?t"
  have mono: "M \<le> unat tokens * ?t" "M \<le> ?s * ?t" unfolding M_def by (rule mult_le_mono1; simp)+
  have goal: ?thesis if "bucket_potential b' now + (if r = Allowed then M else 0) \<le> bucket_potential b now"
    "bucket_wf b'" "time_ok b' now" "same_rate b b'"
    using that by (auto simp: M_def split: if_splits)
  consider "tokens = 0 \<or> tokens \<le> tb_size b" | "tokens \<noteq> 0" "\<not> tokens \<le> tb_size b" "tokens \<le> ?u"
    | "tokens \<noteq> 0" "\<not> tokens \<le> tb_size b" "\<not> tokens \<le> ?u" by blast
  then show ?thesis
  proof cases
    case 1
    then have "reduce_with_retry_at b tokens now = (b', r)" using r by (simp add: reduce_allow_overconsumption_with_retry_at_def)
    from reduce_pays [OF wf tm this] mono(1) show ?thesis by (intro goal) (auto split: if_splits)
  next
    case 2
    then have b': "b' = b\<lparr>tb_one_time_burst := ?u - tokens, tb_last_update := now, tb_elapsed_refill_credit_nanos := 0\<rparr>" "r = Allowed"
      using r by (auto simp: reduce_allow_overconsumption_with_retry_at_def)
    have "(unat ?u - unat tokens) * ?t + unat tokens * ?t = unat ?u * ?t"
      using 2(3) by (simp add: word_nat flip: add_mult_distrib)
    then show ?thesis
      using b' 2(3) wf tm mono(1)
      by (intro goal) (simp_all add: bucket_potential_def psi_def view_def add_mult_distrib bucket_wf_def time_ok_def same_rate_def)
  next
    case 3
    have n: "unat tokens = unat ?n + unat ?u" using 3(3) by (simp add: unat_saturating_sub word_nat)
    have sc: "tb_size ?c = tb_size b" "tb_refill_time_nanos ?c = tb_refill_time_nanos b" using rp(4) by (simp_all add: same_rate_def)
    have "reduce_allow_overconsumption_with_retry_at b tokens now =
        (if ?n \<le> tb_size ?c then reduce_with_retry_at ?c ?n now
         else if tb_budget ?c < tb_size ?c then (?c, Throttled (retry_after_for_tokens ?c (tb_size ?c) now))
         else (?c\<lparr>tb_budget := 0\<rparr>, Allowed))"
      using 3 by (simp add: reduce_allow_overconsumption_with_retry_at_def Let_def)
    note r' = this [unfolded r]
    consider "?n \<le> tb_size ?c" | "\<not> ?n \<le> tb_size ?c" "tb_budget ?c < tb_size ?c" | "\<not> ?n \<le> tb_size ?c" "\<not> tb_budget ?c < tb_size ?c"
      by blast
    then show ?thesis
    proof cases
      case 1
      then have "reduce_with_retry_at ?c ?n now = (b', r)" using r' by simp
      note q = reduce_pays [OF rp(2,3) this]
      then show ?thesis using rp(1,4) sc mono(1) n by (intro goal) (auto simp: add_mult_distrib same_rate_def split: if_splits)
    next
      case 2
      then show ?thesis using r' rp by (intro goal) simp_all
    next
      case 3
      then have eq: "tb_budget ?c = tb_size b" using rp(2) sc by (auto simp: bucket_wf_def)
      have "bucket_wf (?c\<lparr>tb_budget := 0\<rparr>)" using rp(2) by (rule bucket_wf_less) simp
      moreover have "bucket_potential (?c\<lparr>tb_budget := 0\<rparr>) now + ?s * ?t = bucket_potential ?c now"
        using eq sc by (simp add: bucket_potential_def psi_def view_def add_mult_distrib)
      ultimately show ?thesis using r' 3 rp mono(2) by (intro goal) (simp_all add: same_rate_def)
    qed
  qed
qed

lemma age_later: "tb_last_update b \<le> now \<Longrightarrow> now \<le> later \<Longrightarrow> age b later = age b now + (later - now)"
  by (simp add: age_def)

lemma potential_grows:
  assumes "bucket_wf b \<and> time_ok b now" and "now \<le> later" and "later < INSTANT_LIMIT"
  shows "(bucket_wf b \<and> time_ok b later) \<and>
    bucket_potential b later = bucket_potential b now + (later - now) * unat (tb_size b)"
proof -
  obtain d where d: "later = now + d" using assms(2) by (metis le_iff_add)
  have "age b (now + d) = age b now + d" using assms(1) age_later [of b now "now + d"] by (simp add: time_ok_def)
  then show ?thesis
    using assms by (simp add: d time_ok_def bucket_potential_def psi_def view_def add_mult_distrib)
qed

interpretation strict: rate_limiter "\<lambda>b now. bucket_wf b \<and> time_ok b now" bucket_potential "\<lambda>b. unat (tb_refill_time_nanos b)"
    "\<lambda>b. unat (tb_size b)" granted
proof (unfold_locales, goal_cases)
  case (1 b now tokens b' c)
  then obtain r where "reduce_with_retry_at b tokens now = (b', r)" "c = (if r = Allowed then unat tokens else 0)"
    by (cases "reduce_with_retry_at b tokens now") (auto simp: granted_def)
  then show ?case using reduce_pays [of b now tokens b' r] 1(1) by (simp add: same_rate_def)
next
  case (2 b now later)
  then show ?case by (rule potential_grows)
qed

interpretation lenient: rate_limiter "\<lambda>b now. bucket_wf b \<and> time_ok b now" bucket_potential "\<lambda>b. unat (tb_refill_time_nanos b)"
    "\<lambda>b. unat (tb_size b)" granted_over
proof (unfold_locales, goal_cases)
  case (1 b now tokens b' c)
  then obtain r where "reduce_allow_overconsumption_with_retry_at b tokens now = (b', r)"
      "c = (if r = Allowed then min (unat tokens) (unat (tb_size b)) else 0)"
    by (cases "reduce_allow_overconsumption_with_retry_at b tokens now") (auto simp: granted_over_def)
  then show ?case using over_pays [of b now tokens b' r] 1(1) by (simp add: same_rate_def)
next
  case (2 b now later)
  then show ?case by (rule potential_grows)
qed

section \<open>The retry delay\<close>

lemma spec_replenish_residue:
  assumes "0 < s" and "0 < t" and r: "spec_replenish s t budget a = (budget', a')"
  shows "a' * s < t"
proof (cases "t \<le> a")
  case True
  then show ?thesis using r assms(2) by (simp add: spec_replenish_def)
next
  case False
  define k where "k = a * s div t"
  define c where "c = (k * t + s - 1) div s"
  have "k * t \<le> c * s" unfolding c_def by (rule ceil_mult_ge [OF assms(1)])
  moreover have "a * s = k * t + a * s mod t" unfolding k_def by simp
  moreover have "a * s mod t < t" using assms(2) by simp
  moreover have "a' = a - c" using r False by (simp add: spec_replenish_def k_def c_def)
  then have "a' * s = a * s - c * s" by (simp add: diff_mult_distrib)
  ultimately show ?thesis by linarith
qed

lemma replenish_enough:
  assumes "0 < s" and "0 < t" and "budget < n" and "n \<le> s" and "spec_replenish s t budget a = (budget', a')"
  shows "n \<le> budget' \<longleftrightarrow> ((n - budget) * t + s - 1) div s \<le> a"
proof -
  define d where "d = n - budget"
  have d: "0 < d" "d \<le> s" "n = budget + d" using assms by (simp_all add: d_def)
  have reach: "(d * t + s - 1) div s \<le> x \<longleftrightarrow> d * t \<le> x * s" for x
  proof
    assume "(d * t + s - 1) div s \<le> x"
    then have "(d * t + s - 1) div s * s \<le> x * s" by (rule mult_le_mono1)
    then show "d * t \<le> x * s" using ceil_mult_ge [OF assms(1), of "d * t"] by linarith
  qed (rule ceil_div_le [OF assms(1)])
  show ?thesis
  proof (cases "t \<le> a")
    case True
    then have "d * t \<le> a * s" using d(2) by (metis mult.commute mult_le_mono)
    then show ?thesis using assms(4,5) True reach [of a] by (simp add: spec_replenish_def d_def)
  next
    case False
    have "d \<le> a * s div t \<longleftrightarrow> d * t \<le> a * s" using assms(2) by (simp add: less_eq_div_iff_mult_less_eq)
    then show ?thesis using assms(4,5) False reach [of a] d(3) by (auto simp: spec_replenish_def)
  qed
qed

lemma spec_reduce_no_burst:
  assumes "0 < n" and "n \<le> s" and "spec_replenish s t budget a = (budget', a')"
  shows "spec_reduce s t (budget, 0, a) n =
     (if budget' < n then ((budget', 0, a'), Throttled (spec_retry s t budget' a' n)) else ((budget' - n, 0, a'), Allowed))"
  using assms by (simp add: spec_reduce_def)

lemma view_later: "time_ok b now \<Longrightarrow> view b (now + d) = (unat (tb_budget b), unat (tb_one_time_burst b), age b now + d)"
  using age_later [of b now "now + d"] by (simp add: view_def time_ok_def)

section \<open>Persistence\<close>

text \<open>Outcomes of a run whose requests carry the time since a common starting instant.\<close>

fun outcomes :: "token_bucket \<Rightarrow> instant \<Rightarrow> (u64 \<times> duration) list \<Rightarrow> token_bucket_reduction list" where
  "outcomes b start [] = []"
| "outcomes b start ((tokens, d) # qs) =
     (case reduce_with_retry_at b tokens (start + d) of (b', r) \<Rightarrow> r # outcomes b' start qs)"

lemma outcomes_cong:
  assumes "bucket_wf b" "bucket_wf c" "same_rate b c"
    and "time_ok b (start + d)" "time_ok c (start' + d)" "view b (start + d) = view c (start' + d)"
    and "sorted (d # map snd qs)" "\<forall>x\<in>set qs. start + snd x < INSTANT_LIMIT \<and> start' + snd x < INSTANT_LIMIT"
  shows "outcomes b start qs = outcomes c start' qs"
  using assms
proof (induction qs arbitrary: b c d)
  case (Cons q qs)
  obtain tokens e where q: "q = (tokens, e)" by fastforce
  have le: "d \<le> e" "sorted (e # map snd qs)" using Cons.prems(7) q by auto
  have lim: "start + e < INSTANT_LIMIT" "start' + e < INSTANT_LIMIT" using Cons.prems(8) q by auto
  have tm: "time_ok b (start + e)" "time_ok c (start' + e)"
    using Cons.prems(4,5) le(1) lim by (auto simp: time_ok_def)
  have vw: "view b (start + e) = view c (start' + e)"
    using Cons.prems(6) view_later [OF Cons.prems(4), of "e - d"] view_later [OF Cons.prems(5), of "e - d"] le(1)
    by (simp add: view_def)
  obtain b' r where b': "reduce_with_retry_at b tokens (start + e) = (b', r)" by fastforce
  obtain c' r' where c': "reduce_with_retry_at c tokens (start' + e) = (c', r')" by fastforce
  note vb = reduce_view [OF Cons.prems(1) tm(1) b'] and vc = reduce_view [OF Cons.prems(2) tm(2) c']
  have eq: "view b' (start + e) = view c' (start' + e)" "r = r'"
    using vb vc vw Cons.prems(3) by (auto simp: same_rate_def)
  have "outcomes b' start qs = outcomes c' start' qs"
    using vb vc eq(1) Cons.prems(3,8) le(2) by (intro Cons.IH [where d = e]) (auto simp: same_rate_def)
  then show ?case using q b' c' eq(2) by simp
qed simp

lemma persist_restore:
  assumes p: "persisted_state_at b config now = Ok st" and lim: "now < INSTANT_LIMIT" "now' < INSTANT_LIMIT"
  obtains c where "from_persisted_state_at st now' = Ok c" and "bucket_wf b" and "bucket_wf c" and "same_rate b c"
    and "time_ok b now" and "time_ok c now'" and "view b now = view c now'"
proof -
  obtain T physical total a where T: "checked_mul (cfg_refill_time config) NANOS_PER_MILLISECOND = Some T" "is_enabled config"
      "tb_size b = cfg_size config" "tb_refill_time_nanos b = T" "tb_budget b \<le> tb_size b"
      "tb_one_time_burst b \<le> config_burst config"
      "checked_duration_since now (tb_last_update b) = Some physical"
      "checked_add (as_nanos physical) (ucast (tb_elapsed_refill_credit_nanos b)) = Some total" "try_from total = Some a"
      "st = \<lparr>ps_config = config, ps_budget = tb_budget b, ps_one_time_burst = tb_one_time_burst b, ps_age_nanos = a\<rparr>"
    using p by (auto simp: persisted_state_at_def result_iffs bind_eq_Some_conv not_less split: if_splits)
  have wf: "bucket_wf b" using T by (auto simp: bucket_wf_def is_enabled_def split: if_splits)
  have tm: "time_ok b now" "physical = now - tb_last_update b"
    using T(7) lim(1) by (auto simp: time_ok_def checked_duration_since_def split: if_splits)
  have "unat total = age b now"
    using elapsed_word [OF tm(1)] T(8) tm(2) by (simp add: saturating_add_def)
  moreover have "unat a = unat total" using T(9) by (simp only: try_from_Some_iff)
  ultimately have a: "unat a = age b now" by simp
  define c where "c = \<lparr>tb_size = cfg_size config, tb_refill_time_nanos = T, tb_budget = tb_budget b, tb_one_time_burst = tb_one_time_burst b,
      tb_last_update = now', tb_elapsed_refill_credit_nanos = a\<rparr>"
  have "from_persisted_state_at st now' = Ok c"
    using T by (simp add: from_persisted_state_at_def bucket_new_at_def c_def not_less)
  moreover have "bucket_wf c" "same_rate b c" using wf T(3,4) by (simp_all add: bucket_wf_def same_rate_def c_def)
  moreover have "time_ok c now'" "view b now = view c now'" using lim(2) a by (simp_all add: time_ok_def c_def view_def age_def)
  ultimately show thesis using that wf tm(1) by blast
qed

section \<open>Properties\<close>

definition sample_config :: token_bucket_config where
  "sample_config = \<lparr>cfg_size = 10, cfg_one_time_burst = Some 3, cfg_refill_time = 1\<rparr>"

definition sample_bucket :: "u64 \<Rightarrow> u64 \<Rightarrow> token_bucket" where
  "sample_bucket budget burst = \<lparr>tb_size = 10, tb_refill_time_nanos = 1000000, tb_budget = budget, tb_one_time_burst = burst,
     tb_last_update = 0, tb_elapsed_refill_credit_nanos = 0\<rparr>"

lemma sample_bucket_ok: "budget \<le> 10 \<Longrightarrow> bucket_wf (sample_bucket budget burst)" "now < INSTANT_LIMIT \<Longrightarrow> time_ok (sample_bucket budget burst) now"
  by (simp_all add: bucket_wf_def time_ok_def sample_bucket_def)

text \<open>
  the refill routine's three arithmetic paths (16-bit milliseconds, 64-bit products, 128-bit products) all compute
  the same reference function over the natural numbers, for every input; no intermediate product wraps.
\<close>

lemma refill_paths_agree:
  "token_bucket_refill sz budget refill_time_nanos elapsed_nanos =
     refill_spec (unat sz) (unat budget) (unat refill_time_nanos) (unat elapsed_nanos)"
  by (rule refill_exact)

text \<open>
  C34: the rate limit holds.  Over any run of requests at non-decreasing times, the tokens granted cost at most the initial
  budget and burst plus what the refill rate adds by the end of the run; where over-consumption is allowed,
  the same bound holds with each grant counted up to the bucket size.
\<close>

theorem bucket_rate_bound:
  assumes "bucket_wf b" and "time_ok b start" and "sorted (start # map snd qs @ [finish])" and "finish < INSTANT_LIMIT"
  shows "snd (serve_all granted b qs) * unat (tb_refill_time_nanos b) \<le>
       (unat (tb_budget b) + unat (tb_one_time_burst b)) * unat (tb_refill_time_nanos b) + age b finish * unat (tb_size b) \<and>
     snd (serve_all granted_over b qs) * unat (tb_refill_time_nanos b) \<le>
       (unat (tb_budget b) + unat (tb_one_time_burst b)) * unat (tb_refill_time_nanos b) + age b finish * unat (tb_size b)"
proof -
  have "bucket_potential b finish = (unat (tb_budget b) + unat (tb_one_time_burst b)) * unat (tb_refill_time_nanos b) + age b finish * unat (tb_size b)"
    by (simp add: bucket_potential_def psi_def view_def)
  then show ?thesis
    using strict.granted_bound [of b qs _ _ start finish] lenient.granted_bound [of b qs _ _ start finish] assms
    by (metis add_leD2 prod.collapse)
qed

theorem bucket_rate_bound_witness:
  "snd (serve_all granted (sample_bucket 10 3) [(5, 0), (8, 0)]) = 13 \<and>
   snd (serve_all granted (sample_bucket 10 3) [(5, 0), (8, 0)]) * 1000000 \<le> 13 * 1000000"
proof -
  have "snd (serve_all granted (sample_bucket 10 3) [(5, 0), (8, 0)]) * unat (tb_refill_time_nanos (sample_bucket 10 3)) \<le>
      (unat (tb_budget (sample_bucket 10 3)) + unat (tb_one_time_burst (sample_bucket 10 3))) * unat (tb_refill_time_nanos (sample_bucket 10 3)) +
      age (sample_bucket 10 3) 0 * unat (tb_size (sample_bucket 10 3))"
    using bucket_rate_bound [OF sample_bucket_ok(1) sample_bucket_ok(2), of 10 0 "[(5, 0), (8, 0)]" 0] by (simp add: INSTANT_LIMIT_def)
  then have "snd (serve_all granted (sample_bucket 10 3) [(5, 0), (8, 0)]) * 1000000 \<le> 13 * 1000000"
    by (simp add: sample_bucket_def age_def)
  moreover have "snd (serve_all granted (sample_bucket 10 3) [(5, 0), (8, 0)]) = 13"
    by (simp add: granted_def reduce_with_retry_at_def sample_bucket_def Let_def replenish_at_def checked_duration_since_def
        refill_exact refill_spec_def as_nanos_def saturating_add_def checked_add_def saturating_sub_def)
  ultimately show ?thesis by simp
qed

text \<open>
  C35: the retry delay of a throttled request is exact.  For a request no larger than a well-formed bucket, made with no
  one-time burst left and a clock that is not behind the bucket and stays in its range, the delay is positive, the same request
  is granted once it has passed, and at no earlier time.
\<close>

theorem retry_after_exact:
  assumes "bucket_wf b" and "time_ok b now" and "tb_one_time_burst b = 0" and "tokens \<le> tb_size b"
    and "reduce_with_retry_at b tokens now = (b', Throttled d)" and "now + d < INSTANT_LIMIT"
  shows "0 < d \<and> snd (reduce_with_retry_at b' tokens (now + d)) = Allowed \<and>
     (\<forall>e<d. snd (reduce_with_retry_at b' tokens (now + e)) \<noteq> Allowed)"
proof -
  let ?s = "unat (tb_size b)" and ?t = "unat (tb_refill_time_nanos b)" and ?n = "unat tokens"
  note v = reduce_view [OF assms(1,2,5)]
  have s0: "0 < ?s" "0 < ?t" "?n \<le> ?s" using assms(1,4) by (auto simp: bucket_wf_def unat_gt_0 word_nat)
  have "tokens \<noteq> 0" using assms(5) by (auto simp: reduce_with_retry_at_def)
  then have n0: "0 < ?n" by (simp add: unat_gt_0)
  obtain B A where r: "spec_replenish ?s ?t (unat (tb_budget b)) (age b now) = (B, A)" by fastforce
  have sp: "view b' now = (B, 0, A)" "B < ?n" "d = spec_retry ?s ?t B A ?n"
    using v spec_reduce_no_burst [OF n0 s0(3) r] assms(3) by (auto simp: view_def split: if_splits)
  define c where "c = ((?n - B) * ?t + ?s - 1) div ?s"
  have d: "d = c - A" using sp(2,3) s0(3) by (simp add: spec_retry_def c_def Let_def)
  have "(?n - B) * ?t \<le> c * ?s" unfolding c_def by (rule ceil_mult_ge [OF s0(1)])
  moreover have "1 * ?t \<le> (?n - B) * ?t" using sp(2) by (intro mult_le_mono1) simp
  ultimately have "A * ?s < c * ?s" using spec_replenish_residue [OF s0(1,2) r] by linarith
  then have pos: "A < c" by simp
  have ok: "snd (reduce_with_retry_at b' tokens (now + e)) = Allowed \<longleftrightarrow> c \<le> A + e" if e: "e \<le> d" for e
  proof -
    obtain b'' r' where b'': "reduce_with_retry_at b' tokens (now + e) = (b'', r')" by fastforce
    obtain B2 A2 where r2: "spec_replenish ?s ?t B (A + e) = (B2, A2)" by fastforce
    have tm: "time_ok b' (now + e)" using v assms(6) e by (auto simp: time_ok_def)
    have "view b' (now + e) = (B, 0, A + e)" using view_later [of b' now e] v sp(1) by (simp add: view_def)
    then have "spec_reduce ?s ?t (B, 0, A + e) ?n = (view b'' (now + e), r')"
      using reduce_view [OF _ tm b''] v by (simp add: same_rate_def)
    then have "r' = Allowed \<longleftrightarrow> ?n \<le> B2" using spec_reduce_no_burst [OF n0 s0(3) r2] by (auto split: if_splits)
    then show ?thesis using b'' replenish_enough [OF s0(1,2) sp(2) s0(3) r2] by (simp add: c_def)
  qed
  have "A + d = c" "0 < d" using pos d by auto
  moreover have "snd (reduce_with_retry_at b' tokens (now + e)) \<noteq> Allowed" if "e < d" for e
    using ok [of e] that calculation(1) by simp
  ultimately show ?thesis using ok [of d] by simp
qed

theorem retry_after_exact_witness:
  "\<exists>b'. reduce_with_retry_at (sample_bucket 0 0) 3 0 = (b', Throttled 300000) \<and>
     snd (reduce_with_retry_at b' 3 300000) = Allowed \<and> snd (reduce_with_retry_at b' 3 299999) \<noteq> Allowed"
proof -
  have r: "reduce_with_retry_at (sample_bucket 0 0) 3 0 = (sample_bucket 0 0, Throttled 300000)"
    by (simp add: reduce_with_retry_at_def sample_bucket_def Let_def replenish_at_def checked_duration_since_def
        refill_exact refill_spec_def as_nanos_def saturating_add_def checked_add_def saturating_sub_def retry_after_for_tokens_def
        saturating_mul_def checked_mul_def div_ceil_def duration_from_nanos_saturating_def try_from_def)
  then show ?thesis
    using retry_after_exact [OF sample_bucket_ok(1) sample_bucket_ok(2) _ _ r]
    by (auto simp: INSTANT_LIMIT_def sample_bucket_def)
qed

text \<open>
  a persisted bucket resumes where it stopped.  Whenever a bucket's state can be captured, restoring it at any later start
  succeeds, and every sequence of requests gets the same grants and the same retry delays from the
  restored bucket as it would have got from the original at the corresponding times.
\<close>

lemma persisted_bucket_equivalent:
  assumes "persisted_state_at b config now = Ok st" and "now < INSTANT_LIMIT" and "now' < INSTANT_LIMIT"
    and "sorted (map snd qs)" and "\<forall>x\<in>set qs. now + snd x < INSTANT_LIMIT \<and> now' + snd x < INSTANT_LIMIT"
  shows "\<exists>c. from_persisted_state_at st now' = Ok c \<and> bucket_wf c \<and> outcomes c now' qs = outcomes b now qs"
proof -
  obtain c where c: "from_persisted_state_at st now' = Ok c" "bucket_wf b" "bucket_wf c" "same_rate b c"
      "time_ok b now" "time_ok c now'" "view b now = view c now'"
    by (rule persist_restore [OF assms(1-3)])
  have "outcomes b now qs = outcomes c now' qs"
    using assms(4,5) c by (intro outcomes_cong [where d = 0]) simp_all
  then show ?thesis using c by auto
qed

lemma persisted_bucket_equivalent_witness:
  "\<exists>st c. persisted_state_at (sample_bucket 4 0) sample_config 500 = Ok st \<and> from_persisted_state_at st 7000 = Ok c \<and>
     outcomes c 7000 [(6, 1000)] = outcomes (sample_bucket 4 0) 500 [(6, 1000)]"
proof -
  define st where "st = \<lparr>ps_config = sample_config, ps_budget = 4, ps_one_time_burst = 0, ps_age_nanos = 500\<rparr>"
  have "persisted_state_at (sample_bucket 4 0) sample_config 500 = Ok st"
    by (simp add: persisted_state_at_def sample_bucket_def sample_config_def checked_mul_def NANOS_PER_MILLISECOND_def
        is_enabled_def config_burst_def checked_duration_since_def as_nanos_def checked_add_def try_from_def st_def)
  moreover from this have "\<exists>c. from_persisted_state_at st 7000 = Ok c \<and> bucket_wf c \<and>
      outcomes c 7000 [(6, 1000)] = outcomes (sample_bucket 4 0) 500 [(6, 1000)]"
    by (rule persisted_bucket_equivalent) (simp_all add: INSTANT_LIMIT_def)
  ultimately show ?thesis by blast
qed

end
