(* ===== verification/Interrupt.thy ===== *)
theory Interrupt
  imports Prelude
begin

text \<open>
  Guest interrupt lines, the pending-status word of a device and its trigger,
  \<open>crates/runtime/src/interrupt.rs\<close>.  The newtypes \<open>GuestInterruptLine\<close> and
  \<open>DeviceInterruptStatus\<close> are their raw \<open>u32\<close>.  The interrupt sink is a trait object of
  the host: the trigger takes it as a parameter that maps the state of the sink and a line to a new
  state and a result.
\<close>

type_synonym guest_interrupt_line = u32
type_synonym device_interrupt_status = u32

definition QUEUE_INTERRUPT_STATUS_BIT :: u32 where "QUEUE_INTERRUPT_STATUS_BIT = 1"
definition CONFIG_INTERRUPT_STATUS_BIT :: u32 where "CONFIG_INTERRUPT_STATUS_BIT = 2"
definition KNOWN_INTERRUPT_STATUS_BITS :: u32 where
  "KNOWN_INTERRUPT_STATUS_BITS = QUEUE_INTERRUPT_STATUS_BIT OR CONFIG_INTERRUPT_STATUS_BIT"

lemmas interrupt_bits = QUEUE_INTERRUPT_STATUS_BIT_def CONFIG_INTERRUPT_STATUS_BIT_def
  KNOWN_INTERRUPT_STATUS_BITS_def

datatype guest_interrupt_line_error = LineZero
datatype device_interrupt_kind = QueueInterrupt | ConfigInterrupt
datatype device_interrupt_status_error = UnknownBits u32
datatype interrupt_signal_error = InterruptSignalError string
datatype device_interrupt_trigger_error =
  Signal guest_interrupt_line device_interrupt_kind interrupt_signal_error

definition line_new :: "u32 \<Rightarrow> (guest_interrupt_line, guest_interrupt_line_error) result" where
  "line_new v = (if v = 0 then Err LineZero else Ok v)"

fun kind_status :: "device_interrupt_kind \<Rightarrow> device_interrupt_status" where
  "kind_status QueueInterrupt = QUEUE_INTERRUPT_STATUS_BIT"
| "kind_status ConfigInterrupt = CONFIG_INTERRUPT_STATUS_BIT"

definition status_from_bits :: "u32 \<Rightarrow> (device_interrupt_status, device_interrupt_status_error) result" where
  "status_from_bits bits =
     (let unknown_bits = bits AND NOT KNOWN_INTERRUPT_STATUS_BITS
      in if unknown_bits = 0 then Ok bits else Err (UnknownBits unknown_bits))"

definition status_from_valid_bits :: "u32 \<Rightarrow> device_interrupt_status" where
  "status_from_valid_bits bits = bits AND KNOWN_INTERRUPT_STATUS_BITS"

definition status_contains :: "device_interrupt_status \<Rightarrow> device_interrupt_kind \<Rightarrow> bool" where
  "status_contains s k \<longleftrightarrow> s AND kind_status k \<noteq> 0"

definition status_insert :: "device_interrupt_status \<Rightarrow> device_interrupt_kind \<Rightarrow> device_interrupt_status" where
  "status_insert s k = s OR kind_status k"

definition status_clear :: "device_interrupt_status \<Rightarrow> device_interrupt_status \<Rightarrow> device_interrupt_status" where
  "status_clear s t = s AND NOT t"

record device_interrupt_trigger =
  tr_line :: guest_interrupt_line
  tr_pending_status :: u32

definition trigger_with_shared_sink :: "guest_interrupt_line \<Rightarrow> device_interrupt_trigger" where
  "trigger_with_shared_sink line = \<lparr>tr_line = line, tr_pending_status = 0\<rparr>"

definition trigger_pending_status :: "device_interrupt_trigger \<Rightarrow> device_interrupt_status" where
  "trigger_pending_status t = status_from_valid_bits (tr_pending_status t)"

definition trigger ::
    "('s \<Rightarrow> guest_interrupt_line \<Rightarrow> 's \<times> (unit, interrupt_signal_error) result) \<Rightarrow> 's \<Rightarrow>
     device_interrupt_trigger \<Rightarrow> device_interrupt_kind \<Rightarrow>
     's \<times> device_interrupt_trigger \<times> (unit, device_interrupt_trigger_error) result" where
  "trigger sink s t k =
     (let t' = t\<lparr>tr_pending_status := tr_pending_status t OR kind_status k\<rparr>
      in case sink s (tr_line t) of
           (s', res) \<Rightarrow> (s', t', map_err (Signal (tr_line t) k) res))"

definition acknowledge :: "device_interrupt_trigger \<Rightarrow> device_interrupt_status \<Rightarrow> device_interrupt_trigger" where
  "acknowledge t s = t\<lparr>tr_pending_status := tr_pending_status t AND NOT s\<rparr>"

section \<open>Sets of pending kinds\<close>

text \<open>A valid status word is the set of kinds it contains.\<close>

abbreviation status_valid :: "device_interrupt_status \<Rightarrow> bool" where
  "status_valid s \<equiv> s AND NOT KNOWN_INTERRUPT_STATUS_BITS = 0"

lemma status_contains_bit:
  "status_contains s QueueInterrupt \<longleftrightarrow> bit s 0" "status_contains s ConfigInterrupt \<longleftrightarrow> bit s 1"
proof -
  have one: "s AND 2 ^ n \<noteq> 0 \<longleftrightarrow> bit s n" for n
    by (simp add: and_exp_eq_0_iff_not_bit)
  show "status_contains s QueueInterrupt \<longleftrightarrow> bit s 0" "status_contains s ConfigInterrupt \<longleftrightarrow> bit s 1"
    using one [of 0] one [of 1] by (simp_all add: status_contains_def interrupt_bits)
qed

lemma known_bits: "bit KNOWN_INTERRUPT_STATUS_BITS n \<longleftrightarrow> n = 0 \<or> n = 1"
proof -
  have eq: "KNOWN_INTERRUPT_STATUS_BITS = mask 2" by (simp add: interrupt_bits mask_eq_exp_minus_1)
  show ?thesis unfolding eq bit_mask_iff by auto
qed

lemma status_valid_bits: "status_valid s \<longleftrightarrow> (\<forall>n>1. \<not> bit s n)"
proof -
  have lt: "bit s n \<Longrightarrow> n < 32" for n
    using bit_imp_le_length [of s n] by simp
  have "status_valid s \<longleftrightarrow> (\<forall>n. bit s n \<longrightarrow> bit KNOWN_INTERRUPT_STATUS_BITS n)"
    unfolding bit_eq_iff [of "s AND NOT KNOWN_INTERRUPT_STATUS_BITS" 0]
    using lt by (auto simp: bit_simps)
  also have "\<dots> \<longleftrightarrow> (\<forall>n>1. \<not> bit s n)"
    unfolding known_bits by (metis less_one linorder_neqE_nat not_less_iff_gr_or_eq)
  finally show ?thesis .
qed

lemma status_eqI:
  assumes "status_valid s" and "status_valid t" and "\<And>k. status_contains s k \<longleftrightarrow> status_contains t k"
  shows "s = t"
proof (rule bit_word_eqI)
  fix n
  have "bit s 0 \<longleftrightarrow> bit t 0" "bit s 1 \<longleftrightarrow> bit t 1"
    using assms(3) [of QueueInterrupt] assms(3) [of ConfigInterrupt] unfolding status_contains_bit by auto
  then show "bit s n \<longleftrightarrow> bit t n"
    using assms(1,2) unfolding status_valid_bits by (cases "n > 1") (auto simp: not_less le_Suc_eq)
qed

lemma kind_status_contains: "bit (kind_status k) n \<longleftrightarrow> n = (case k of QueueInterrupt \<Rightarrow> 0 | ConfigInterrupt \<Rightarrow> 1)"
proof -
  have eq: "kind_status k = 2 ^ (case k of QueueInterrupt \<Rightarrow> 0 | ConfigInterrupt \<Rightarrow> 1)"
    by (cases k) (simp_all add: interrupt_bits)
  show ?thesis unfolding eq bit_exp_iff by (cases k) (auto simp: fold_possible_bit)
qed

lemma status_insert_contains: "status_contains (status_insert s k) j \<longleftrightarrow> j = k \<or> status_contains s j"
  by (cases j; cases k) (auto simp: status_contains_bit status_insert_def bit_or_iff kind_status_contains
      simp del: kind_status.simps)

lemma status_insert_valid: "status_valid s \<Longrightarrow> status_valid (status_insert s k)"
  by (cases k) (auto simp: status_valid_bits status_insert_def bit_or_iff kind_status_contains
      simp del: kind_status.simps)

lemma status_clear_contains:
  "status_contains (status_clear s t) j \<longleftrightarrow> status_contains s j \<and> \<not> status_contains t j"
  by (cases j) (auto simp: status_contains_bit status_clear_def bit_simps)

lemma status_clear_valid: "status_valid s \<Longrightarrow> status_valid (status_clear s t)"
  by (auto simp: status_valid_bits status_clear_def bit_simps)

lemma status_from_bits_Ok: "status_from_bits v = Ok s \<longleftrightarrow> s = v \<and> status_valid v"
  by (auto simp: status_from_bits_def Let_def)

end
