(* ===== verification/Mmio.thy ===== *)
theory Mmio
  imports Address_Range "HOL-Library.AList"
begin

text \<open>
  The MMIO bus and dispatcher, \<open>crates/runtime/src/mmio.rs\<close>.  A bus is the vector of its
  regions, kept sorted by start address.  Handlers are trait objects: the dispatcher is
  polymorphic in the handler's state, and \<open>read\<close> and \<open>write\<close> of the trait are the
  parameters \<open>hread\<close> and \<open>hwrite\<close> of the dispatch.  An \<open>Arc\<close> that is only compared by
  pointer (the provenance of a dispatcher or of an owner) is a natural number.  The handler map is
  only searched by key; the registrations are an association list because the code also walks its
  values.  Log records are left out.
\<close>

section \<open>Regions, accesses and operations\<close>

type_synonym mmio_region_id = u64

record mmio_region =
  mr_id :: mmio_region_id
  mr_range :: guest_memory_range

record mmio_region_request =
  rq_start :: guest_address
  rq_size :: u64

record mmio_access =
  ma_region :: mmio_region
  ma_range :: guest_memory_range
  ma_offset :: u64

datatype mmio_operation_kind = KindRead | KindWrite

record mmio_access_bytes =
  mab_bytes :: "u8 list"
  mab_len :: nat

datatype mmio_access_bytes_error =
    BytesEmpty
  | BytesUnsupportedLength nat
  | BytesTooLarge nat nat

datatype mmio_operation =
    OpRead mmio_access mmio_access_bytes
  | OpWrite mmio_access mmio_access_bytes

datatype mmio_operation_error =
    UnsupportedAccessSize mmio_access u64
  | DataLengthMismatch mmio_access nat nat

definition MAX_MMIO_ACCESS_BYTES :: nat where
  "MAX_MMIO_ACCESS_BYTES = 8"

definition mmio_region_new ::
    "mmio_region_id \<Rightarrow> guest_address \<Rightarrow> u64 \<Rightarrow> (mmio_region, guest_memory_error) result" where
  "mmio_region_new i start sz =
     and_then (range_new start sz) (\<lambda>r. Ok \<lparr>mr_id = i, mr_range = r\<rparr>)"

definition access_region_id :: "mmio_access \<Rightarrow> mmio_region_id" where
  "access_region_id a = mr_id (ma_region a)"

definition validate_mmio_access_byte_len :: "nat \<Rightarrow> (unit, mmio_access_bytes_error) result" where
  "validate_mmio_access_byte_len len =
     (if len = 0 then Err BytesEmpty
      else if len = 1 \<or> len = 2 \<or> len = 4 \<or> len = MAX_MMIO_ACCESS_BYTES then Ok ()
      else if MAX_MMIO_ACCESS_BYTES < len then Err (BytesTooLarge len MAX_MMIO_ACCESS_BYTES)
      else Err (BytesUnsupportedLength len))"

definition access_bytes_new :: "u8 list \<Rightarrow> (mmio_access_bytes, mmio_access_bytes_error) result" where
  "access_bytes_new bs =
     and_then (validate_mmio_access_byte_len (length bs))
       (\<lambda>_. Ok \<lparr>mab_bytes = overwrite 0 bs (replicate MAX_MMIO_ACCESS_BYTES 0), mab_len = length bs\<rparr>)"

definition access_bytes_zeroed :: "nat \<Rightarrow> (mmio_access_bytes, mmio_access_bytes_error) result" where
  "access_bytes_zeroed len =
     and_then (validate_mmio_access_byte_len len)
       (\<lambda>_. Ok \<lparr>mab_bytes = replicate MAX_MMIO_ACCESS_BYTES 0, mab_len = len\<rparr>)"

definition access_bytes_as_slice :: "mmio_access_bytes \<Rightarrow> u8 list" where
  "access_bytes_as_slice d = take (mab_len d) (mab_bytes d)"

definition mmio_operation_len :: "mmio_access \<Rightarrow> (nat, mmio_operation_error) result" where
  "mmio_operation_len a =
     (let sz = gmr_size (ma_range a)
      in if sz = 1 then Ok 1 else if sz = 2 then Ok 2 else if sz = 4 then Ok 4
         else if sz = 8 then Ok MAX_MMIO_ACCESS_BYTES
         else Err (UnsupportedAccessSize a sz))"

definition mmio_operation_read :: "mmio_access \<Rightarrow> (mmio_operation, mmio_operation_error) result" where
  "mmio_operation_read a =
     and_then (mmio_operation_len a)
       (\<lambda>len. Ok (OpRead a \<lparr>mab_bytes = replicate MAX_MMIO_ACCESS_BYTES 0, mab_len = len\<rparr>))"

definition mmio_operation_write ::
    "mmio_access \<Rightarrow> mmio_access_bytes \<Rightarrow> (mmio_operation, mmio_operation_error) result" where
  "mmio_operation_write a d =
     and_then (mmio_operation_len a)
       (\<lambda>expected. if mab_len d \<noteq> expected then Err (DataLengthMismatch a expected (mab_len d))
                   else Ok (OpWrite a d))"

fun operation_kind :: "mmio_operation \<Rightarrow> mmio_operation_kind" where
  "operation_kind (OpRead a d) = KindRead"
| "operation_kind (OpWrite a d) = KindWrite"

fun operation_access :: "mmio_operation \<Rightarrow> mmio_access" where
  "operation_access (OpRead a d) = a"
| "operation_access (OpWrite a d) = a"

section \<open>The bus\<close>

datatype mmio_bus_error =
    LeasedRegionId mmio_region_id
  | InvalidRegionRange guest_address u64 guest_memory_error
  | InvalidAccessRange guest_address u64 guest_memory_error
  | OverlappingRegion mmio_region mmio_region
  | UnownedAccess guest_memory_range

record mmio_bus =
  bus_regions :: "mmio_region list"

definition bus_new :: mmio_bus where
  "bus_new = \<lparr>bus_regions = []\<rparr>"

definition reject_overlap :: "mmio_region \<Rightarrow> mmio_region \<Rightarrow> (unit, mmio_bus_error) result" where
  "reject_overlap existing new =
     (if overlaps (mr_range existing) (mr_range new) then Err (OverlappingRegion existing new) else Ok ())"

definition range_contains_range :: "guest_memory_range \<Rightarrow> guest_memory_range \<Rightarrow> bool" where
  "range_contains_range container candidate \<longleftrightarrow>
     gmr_start container \<le> gmr_start candidate \<and> gmr_end_exclusive candidate \<le> gmr_end_exclusive container"

definition bus_insert ::
    "mmio_bus \<Rightarrow> mmio_region_id \<Rightarrow> guest_address \<Rightarrow> u64 \<Rightarrow> (mmio_bus \<times> mmio_region, mmio_bus_error) result" where
  "bus_insert b i start sz =
     and_then (map_err (InvalidRegionRange start sz) (mmio_region_new i start sz)) (\<lambda>region.
       let rs = bus_regions b;
           index = partition_point (\<lambda>e. gmr_start (mr_range e) < gmr_start (mr_range region)) rs
       in and_then (if index \<noteq> 0 then reject_overlap (rs ! (index - 1)) region else Ok ()) (\<lambda>_.
          and_then (if index < length rs then reject_overlap (rs ! index) region else Ok ()) (\<lambda>_.
          Ok (b\<lparr>bus_regions := vec_insert index region rs\<rparr>, region))))"

definition bus_lookup ::
    "mmio_bus \<Rightarrow> guest_address \<Rightarrow> u64 \<Rightarrow> (mmio_access, mmio_bus_error) result" where
  "bus_lookup b start sz =
     and_then (map_err (InvalidAccessRange start sz) (range_new start sz)) (\<lambda>access_range.
       let rs = bus_regions b;
           index = partition_point (\<lambda>r. gmr_start (mr_range r) \<le> gmr_start access_range) rs
       in if index = 0 then Err (UnownedAccess access_range)
          else let region = rs ! (index - 1)
               in if \<not> range_contains_range (mr_range region) access_range
                  then Err (UnownedAccess access_range)
                  else and_then (sub_or_panic (gmr_start access_range) (gmr_start (mr_range region))) (\<lambda>off.
                       Ok \<lparr>ma_region = region, ma_range = access_range, ma_offset = off\<rparr>))"

definition contains_exact_regions :: "mmio_bus \<Rightarrow> mmio_region_id \<Rightarrow> mmio_region list \<Rightarrow> bool" where
  "contains_exact_regions b i regions \<longleftrightarrow>
     length (filter (\<lambda>r. mr_id r = i) (bus_regions b)) = length regions \<and>
     list_all (\<lambda>c. list_ex (\<lambda>r. r = c) (bus_regions b)) regions"

definition remove_exact_regions :: "mmio_bus \<Rightarrow> mmio_region list \<Rightarrow> mmio_bus" where
  "remove_exact_regions b regions =
     b\<lparr>bus_regions := filter (\<lambda>r. \<not> list_ex (\<lambda>c. c = r) regions) (bus_regions b)\<rparr>"

definition has_region_id :: "mmio_bus \<Rightarrow> mmio_region_id \<Rightarrow> bool" where
  "has_region_id b i \<longleftrightarrow> list_ex (\<lambda>r. mr_id r = i) (bus_regions b)"

section \<open>The dispatcher\<close>

datatype mmio_handler_error = MmioHandlerError string

type_synonym 'h handler_read = "'h \<Rightarrow> mmio_access \<Rightarrow> 'h \<times> (mmio_access_bytes, mmio_handler_error) result"
type_synonym 'h handler_write =
  "'h \<Rightarrow> mmio_access \<Rightarrow> mmio_access_bytes \<Rightarrow> 'h \<times> (unit, mmio_handler_error) result"

datatype mmio_dispatch_error =
    LeasedHandler mmio_region_id
  | DuplicateHandler mmio_region_id
  | MissingHandler mmio_region_id
  | UnregisteredAccess guest_memory_range mmio_region_id mmio_bus_error
  | AccessMismatch guest_memory_range mmio_region_id mmio_region_id
  | HandlerFailed mmio_region_id mmio_operation_kind mmio_handler_error
  | ReadDataLengthMismatch mmio_access nat nat

datatype mmio_registration_error =
    EmptyRegionBatch
  | ExistingHandler mmio_region_id
  | ExistingRegionId mmio_region_id
  | GenerationExhausted
  | RegionMetadataAllocation
  | RegionError nat mmio_bus_error

datatype mmio_registration_release_error =
    WrongDispatcher
  | WrongOwner
  | StaleLease mmio_region_id
  | RegistrationMismatch mmio_region_id

datatype mmio_dispatch_outcome = ReadOutcome mmio_access_bytes | WriteOutcome

type_synonym provenance = nat

record mmio_registration_lease =
  ls_dispatcher :: provenance
  ls_owner :: provenance
  ls_generation :: u64
  ls_region_id :: mmio_region_id
  ls_regions :: "mmio_region list"

record 'h mmio_registration_record =
  rr_owner :: provenance
  rr_region_id :: mmio_region_id
  rr_regions :: "mmio_region list"
  rr_suspended_handler :: "'h option"

record 'h mmio_dispatcher =
  md_bus :: mmio_bus
  md_handlers :: "mmio_region_id \<rightharpoonup> 'h"
  md_provenance :: provenance
  md_next_generation :: u64
  md_registrations :: "(u64 \<times> 'h mmio_registration_record) list"

record mmio_registration_plan =
  pl_bus :: mmio_bus
  pl_generation :: u64
  pl_next_generation :: u64
  pl_regions :: "mmio_region list"

definition dispatcher_new :: "provenance \<Rightarrow> 'h mmio_dispatcher" where
  "dispatcher_new p =
     \<lparr>md_bus = bus_new, md_handlers = Map.empty, md_provenance = p, md_next_generation = 0,
      md_registrations = []\<rparr>"

definition has_leased_region_id :: "'h mmio_dispatcher \<Rightarrow> mmio_region_id \<Rightarrow> bool" where
  "has_leased_region_id d i \<longleftrightarrow> list_ex (\<lambda>(g, r). rr_region_id r = i) (md_registrations d)"

definition contains_region_or_handler :: "'h mmio_dispatcher \<Rightarrow> mmio_region_id \<Rightarrow> bool" where
  "contains_region_or_handler d i \<longleftrightarrow>
     md_handlers d i \<noteq> None \<or> has_leased_region_id d i \<or> has_region_id (md_bus d) i"

definition dispatcher_insert_region ::
    "'h mmio_dispatcher \<Rightarrow> mmio_region_id \<Rightarrow> guest_address \<Rightarrow> u64 \<Rightarrow>
     'h mmio_dispatcher \<times> (mmio_region, mmio_bus_error) result" where
  "dispatcher_insert_region d i start sz =
     (if has_leased_region_id d i then (d, Err (LeasedRegionId i))
      else case bus_insert (md_bus d) i start sz of
             Ok (b, region) \<Rightarrow> (d\<lparr>md_bus := b\<rparr>, Ok region)
           | Err e \<Rightarrow> (d, Err e)
           | Panic \<Rightarrow> (d, Panic))"

definition dispatcher_lookup ::
    "'h mmio_dispatcher \<Rightarrow> guest_address \<Rightarrow> u64 \<Rightarrow> (mmio_access, mmio_bus_error) result" where
  "dispatcher_lookup d start sz = bus_lookup (md_bus d) start sz"

definition register_handler ::
    "'h mmio_dispatcher \<Rightarrow> mmio_region_id \<Rightarrow> 'h \<Rightarrow> 'h mmio_dispatcher \<times> (unit, mmio_dispatch_error) result" where
  "register_handler d i h =
     (if has_leased_region_id d i then (d, Err (LeasedHandler i))
      else case md_handlers d i of
             None \<Rightarrow> (d\<lparr>md_handlers := (md_handlers d)(i \<mapsto> h)\<rparr>, Ok ())
           | Some _ \<Rightarrow> (d, Err (DuplicateHandler i)))"

text \<open>
  The loop of \<open>plan_owned_handler\<close> over the requested regions, on the candidate bus; the sort
  of the registered regions by start address follows it.  \<open>alloc\<close> answers the first and the
  second \<open>try_reserve_exact\<close> for a number of regions.
\<close>

fun plan_regions ::
    "mmio_bus \<Rightarrow> mmio_region_id \<Rightarrow> nat \<Rightarrow> mmio_region_request list \<Rightarrow>
     (mmio_bus \<times> mmio_region list, mmio_registration_error) result" where
  "plan_regions b i index [] = Ok (b, [])"
| "plan_regions b i index (q # qs) =
     and_then (map_err (RegionError index) (bus_insert b i (rq_start q) (rq_size q))) (\<lambda>(b', region).
     and_then (plan_regions b' i (Suc index) qs) (\<lambda>(b'', regions).
     Ok (b'', region # regions)))"

definition plan_owned_handler ::
    "(nat \<Rightarrow> nat \<Rightarrow> bool) \<Rightarrow> 'h mmio_dispatcher \<Rightarrow> mmio_region_id \<Rightarrow> mmio_region_request list \<Rightarrow>
     (mmio_registration_plan, mmio_registration_error) result" where
  "plan_owned_handler alloc d i requests =
     (if requests = [] then Err EmptyRegionBatch
      else if md_handlers d i \<noteq> None then Err (ExistingHandler i)
      else if has_region_id (md_bus d) i then Err (ExistingRegionId i)
      else and_then (ok_or (checked_add (md_next_generation d) 1) GenerationExhausted) (\<lambda>next.
           if \<not> alloc 0 (length requests) then Err RegionMetadataAllocation
           else and_then (plan_regions (md_bus d) i 0 requests) (\<lambda>(b, regions).
           if \<not> alloc 1 (length regions) then Err RegionMetadataAllocation
           else Ok \<lparr>pl_bus = b, pl_generation = md_next_generation d, pl_next_generation = next,
                    pl_regions = sort_key (\<lambda>r. gmr_start (mr_range r)) regions\<rparr>)))"

definition validate_owned_handler ::
    "(nat \<Rightarrow> nat \<Rightarrow> bool) \<Rightarrow> 'h mmio_dispatcher \<Rightarrow> mmio_region_id \<Rightarrow> mmio_region_request list \<Rightarrow>
     (unit, mmio_registration_error) result" where
  "validate_owned_handler alloc d i requests =
     and_then (plan_owned_handler alloc d i requests) (\<lambda>_. Ok ())"

definition register_owned_handler ::
    "(nat \<Rightarrow> nat \<Rightarrow> bool) \<Rightarrow> 'h mmio_dispatcher \<Rightarrow> provenance \<Rightarrow> mmio_region_id \<Rightarrow> mmio_region_request list \<Rightarrow> 'h \<Rightarrow>
     'h mmio_dispatcher \<times> (mmio_registration_lease, mmio_registration_error) result" where
  "register_owned_handler alloc d own i requests h =
     (case plan_owned_handler alloc d i requests of
        Ok plan \<Rightarrow>
          (d\<lparr>md_bus := pl_bus plan,
             md_handlers := (md_handlers d)(i \<mapsto> h),
             md_registrations := AList.update (pl_generation plan)
               \<lparr>rr_owner = own, rr_region_id = i, rr_regions = pl_regions plan,
                rr_suspended_handler = None\<rparr> (md_registrations d),
             md_next_generation := pl_next_generation plan\<rparr>,
           Ok \<lparr>ls_dispatcher = md_provenance d, ls_owner = own, ls_generation = pl_generation plan,
               ls_region_id = i, ls_regions = pl_regions plan\<rparr>)
      | Err e \<Rightarrow> (d, Err e)
      | Panic \<Rightarrow> (d, Panic))"

text \<open>The checks that open every operation on a lease: provenance, then the record.\<close>

definition lease_record ::
    "'h mmio_dispatcher \<Rightarrow> provenance \<Rightarrow> mmio_registration_lease \<Rightarrow>
     ('h mmio_registration_record, mmio_registration_release_error) result" where
  "lease_record d own l =
     (if md_provenance d \<noteq> ls_dispatcher l then Err WrongDispatcher
      else if own \<noteq> ls_owner l then Err WrongOwner
      else and_then (ok_or (map_of (md_registrations d) (ls_generation l)) (StaleLease (ls_region_id l)))
        (\<lambda>r. if rr_owner r \<noteq> own then Err WrongOwner else Ok r))"

definition unpublish_owned_handler ::
    "'h mmio_dispatcher \<Rightarrow> provenance \<Rightarrow> mmio_registration_lease \<Rightarrow>
     'h mmio_dispatcher \<times> (unit, mmio_registration_release_error) result" where
  "unpublish_owned_handler d own l =
     (case lease_record d own l of
        Ok r \<Rightarrow>
          if rr_region_id r \<noteq> ls_region_id l \<or> rr_regions r \<noteq> ls_regions l
          then (d, Err (RegistrationMismatch (ls_region_id l)))
          else if rr_suspended_handler r \<noteq> None \<or> md_handlers d (rr_region_id r) = None \<or>
                  \<not> contains_exact_regions (md_bus d) (rr_region_id r) (rr_regions r)
          then (d, Err (RegistrationMismatch (ls_region_id l)))
          else let b = remove_exact_regions (md_bus d) (rr_regions r)
               in (case md_handlers d (rr_region_id r) of
                     None \<Rightarrow> (d\<lparr>md_bus := b\<rparr>, Err (RegistrationMismatch (ls_region_id l)))
                   | Some h \<Rightarrow>
                       (d\<lparr>md_bus := b,
                          md_handlers := (md_handlers d)(rr_region_id r := None),
                          md_registrations := AList.update (ls_generation l)
                            (r\<lparr>rr_suspended_handler := Some h\<rparr>) (md_registrations d)\<rparr>, Ok ()))
      | Err e \<Rightarrow> (d, Err e)
      | Panic \<Rightarrow> (d, Panic))"

definition suspended_record_matches ::
    "'h mmio_dispatcher \<Rightarrow> 'h mmio_registration_record \<Rightarrow> mmio_registration_lease \<Rightarrow> bool" where
  "suspended_record_matches d r l \<longleftrightarrow>
     \<not> (rr_region_id r \<noteq> ls_region_id l \<or> rr_regions r \<noteq> ls_regions l \<or>
        rr_suspended_handler r = None \<or> md_handlers d (rr_region_id r) \<noteq> None \<or>
        has_region_id (md_bus d) (rr_region_id r))"

fun republish_regions :: "mmio_bus \<Rightarrow> mmio_region list \<Rightarrow> (mmio_bus, mmio_bus_error) result" where
  "republish_regions b [] = Ok b"
| "republish_regions b (r # rs) =
     and_then (bus_insert b (mr_id r) (gmr_start (mr_range r)) (gmr_size (mr_range r)))
       (\<lambda>(b', _). republish_regions b' rs)"

definition republish_owned_handler ::
    "'h mmio_dispatcher \<Rightarrow> provenance \<Rightarrow> mmio_registration_lease \<Rightarrow>
     'h mmio_dispatcher \<times> (unit, mmio_registration_release_error) result" where
  "republish_owned_handler d own l =
     (case lease_record d own l of
        Ok r \<Rightarrow>
          if \<not> suspended_record_matches d r l then (d, Err (RegistrationMismatch (ls_region_id l)))
          else (case republish_regions (md_bus d) (ls_regions l) of
                  Ok b \<Rightarrow>
                    (case rr_suspended_handler r of
                       None \<Rightarrow> (d, Err (RegistrationMismatch (ls_region_id l)))
                     | Some h \<Rightarrow>
                         (d\<lparr>md_bus := b,
                            md_handlers := (md_handlers d)(ls_region_id l \<mapsto> h),
                            md_registrations := AList.update (ls_generation l)
                              (r\<lparr>rr_suspended_handler := None\<rparr>) (md_registrations d)\<rparr>, Ok ()))
                | Err _ \<Rightarrow> (d, Err (RegistrationMismatch (ls_region_id l)))
                | Panic \<Rightarrow> (d, Panic))
      | Err e \<Rightarrow> (d, Err e)
      | Panic \<Rightarrow> (d, Panic))"

definition release_unpublished_handler ::
    "'h mmio_dispatcher \<Rightarrow> provenance \<Rightarrow> mmio_registration_lease \<Rightarrow>
     'h mmio_dispatcher \<times> (unit, mmio_registration_release_error) result" where
  "release_unpublished_handler d own l =
     (case lease_record d own l of
        Ok r \<Rightarrow>
          if \<not> suspended_record_matches d r l then (d, Err (RegistrationMismatch (ls_region_id l)))
          else (d\<lparr>md_registrations := AList.delete (ls_generation l) (md_registrations d)\<rparr>, Ok ())
      | Err e \<Rightarrow> (d, Err e)
      | Panic \<Rightarrow> (d, Panic))"

definition release_owned_handler ::
    "'h mmio_dispatcher \<Rightarrow> provenance \<Rightarrow> mmio_registration_lease \<Rightarrow>
     'h mmio_dispatcher \<times> (unit, mmio_registration_release_error) result" where
  "release_owned_handler d own l =
     (case unpublish_owned_handler d own l of
        (d1, Ok _) \<Rightarrow>
          (case release_unpublished_handler d1 own l of
             (d2, Err e) \<Rightarrow> (fst (republish_owned_handler d2 own l), Err e)
           | (d2, res) \<Rightarrow> (d2, res))
      | (d1, res) \<Rightarrow> (d1, res))"

definition validate_operation_access ::
    "'h mmio_dispatcher \<Rightarrow> mmio_access \<Rightarrow> (unit, mmio_dispatch_error) result" where
  "validate_operation_access d a =
     and_then (map_err (UnregisteredAccess (ma_range a) (access_region_id a))
                (bus_lookup (md_bus d) (gmr_start (ma_range a)) (gmr_size (ma_range a))))
       (\<lambda>resolved. if resolved \<noteq> a
                   then Err (AccessMismatch (ma_range a) (access_region_id resolved) (access_region_id a))
                   else Ok ())"

definition run_handler ::
    "'h handler_read \<Rightarrow> 'h handler_write \<Rightarrow> 'h \<Rightarrow> mmio_operation \<Rightarrow>
     'h \<times> (mmio_dispatch_outcome, mmio_dispatch_error) result" where
  "run_handler hread hwrite h op =
     (let i = access_region_id (operation_access op)
      in case op of
           OpRead a d \<Rightarrow>
             (case hread h a of (h', res) \<Rightarrow>
                (h', and_then (map_err (HandlerFailed i KindRead) res)
                       (\<lambda>data. if mab_len data \<noteq> mab_len d
                               then Err (ReadDataLengthMismatch a (mab_len d) (mab_len data))
                               else Ok (ReadOutcome data))))
         | OpWrite a d \<Rightarrow>
             (case hwrite h a d of (h', res) \<Rightarrow>
                (h', and_then (map_err (HandlerFailed i KindWrite) res) (\<lambda>_. Ok WriteOutcome))))"

definition dispatch ::
    "'h handler_read \<Rightarrow> 'h handler_write \<Rightarrow> 'h mmio_dispatcher \<Rightarrow> mmio_operation \<Rightarrow>
     'h mmio_dispatcher \<times> (mmio_dispatch_outcome, mmio_dispatch_error) result" where
  "dispatch hread hwrite d op =
     (let a = operation_access op; i = access_region_id a
      in case validate_operation_access d a of
           Ok _ \<Rightarrow>
             (case md_handlers d i of
                None \<Rightarrow> (d, Err (MissingHandler i))
              | Some h \<Rightarrow>
                  (case run_handler hread hwrite h op of
                     (h', res) \<Rightarrow> (d\<lparr>md_handlers := (md_handlers d)(i \<mapsto> h')\<rparr>, res)))
         | Err e \<Rightarrow> (d, Err e)
         | Panic \<Rightarrow> (d, Panic))"

section \<open>The bus as a table of disjoint regions\<close>

definition bus_wf :: "mmio_bus \<Rightarrow> bool" where
  "bus_wf b \<longleftrightarrow> ordered_disjoint (map mr_range (bus_regions b))"

abbreviation region_wf :: "mmio_region \<Rightarrow> bool" where
  "region_wf r \<equiv> range_wf (mr_range r)"

lemma bus_new_wf [simp]: "bus_wf bus_new"
  by (simp add: bus_wf_def bus_new_def)

lemma mmio_region_new_Ok_iff:
  "mmio_region_new i s z = Ok r \<longleftrightarrow>
     mr_id r = i \<and> region_wf r \<and> gmr_start (mr_range r) = s \<and> gmr_size (mr_range r) = z"
proof -
  have "mmio_region_new i s z = Ok r \<longleftrightarrow> range_new s z = Ok (mr_range r) \<and> mr_id r = i"
    by (cases "range_new s z") (auto simp: mmio_region_new_def intro: mmio_region.equality)
  then show ?thesis by (auto simp: range_new_Ok_iff)
qed

lemma mmio_region_new_self [simp]:
  "region_wf r \<Longrightarrow> mmio_region_new (mr_id r) (gmr_start (mr_range r)) (gmr_size (mr_range r)) = Ok r"
  by (simp add: mmio_region_new_Ok_iff)

lemma mmio_region_new_not_Panic [simp]: "mmio_region_new i s z \<noteq> Panic"
  by (simp add: mmio_region_new_def result_iffs)

lemma reject_overlap_Ok [simp]:
  "reject_overlap x r = Ok () \<longleftrightarrow> \<not> overlaps (mr_range x) (mr_range r)"
  by (simp add: reject_overlap_def)

lemma reject_overlap_not_Panic [simp]: "reject_overlap x r \<noteq> Panic"
  by (simp add: reject_overlap_def)

lemma bus_insert_Ok_iff:
  assumes "bus_wf b"
  shows "bus_insert b i s z = Ok (b', r) \<longleftrightarrow>
     mmio_region_new i s z = Ok r \<and> (\<forall>x\<in>set (bus_regions b). \<not> overlaps (mr_range x) (mr_range r)) \<and>
     b' = b\<lparr>bus_regions := vec_insert (start_index mr_range (bus_regions b) r) r (bus_regions b)\<rparr>"
proof (cases "mmio_region_new i s z")
  case (Ok q)
  then have wf: "region_wf q" by (simp add: mmio_region_new_Ok_iff)
  note clear = neighbours_clear_iff [OF assms [unfolded bus_wf_def] wf]
  let ?i = "start_index mr_range (bus_regions b) q"
  have "bus_insert b i s z = Ok (b', r) \<longleftrightarrow>
     neighbours_clear mr_range (bus_regions b) q ?i \<and> r = q \<and>
     b' = b\<lparr>bus_regions := vec_insert ?i q (bus_regions b)\<rparr>"
    unfolding bus_insert_def Ok Let_def neighbours_clear_def
    by (auto simp: and_then_Ok_iff)
  then show ?thesis using clear Ok by auto
qed (auto simp: bus_insert_def)

lemma bus_insert_not_Panic [simp]: "bus_insert b i s z \<noteq> Panic"
  by (auto simp: bus_insert_def and_then_Panic_iff Let_def split: if_splits)

lemma bus_insert_Ok:
  assumes "bus_wf b" and "bus_insert b i s z = Ok (b', r)"
  shows "bus_wf b'" and "set (bus_regions b') = insert r (set (bus_regions b))"
    and "mmio_region_new i s z = Ok r"
    and "\<And>x. x \<in> set (bus_regions b) \<Longrightarrow> \<not> overlaps (mr_range x) (mr_range r)"
proof -
  note ok = assms(2) [unfolded bus_insert_Ok_iff [OF assms(1)]]
  then have wf: "region_wf r" by (simp add: mmio_region_new_Ok_iff)
  have "neighbours_clear mr_range (bus_regions b) r (start_index mr_range (bus_regions b) r)"
    using ok neighbours_clear_iff [OF assms(1) [unfolded bus_wf_def] wf] by simp
  then show "bus_wf b'"
    using ok ordered_insert_at_start_index [OF assms(1) [unfolded bus_wf_def] wf]
    by (simp add: bus_wf_def)
qed (use assms(2) [unfolded bus_insert_Ok_iff [OF assms(1)]] in auto)

abbreviation bus_insert_region :: "mmio_bus \<Rightarrow> mmio_region \<Rightarrow> (mmio_bus, mmio_bus_error) result" where
  "bus_insert_region b r \<equiv>
     and_then (bus_insert b (mr_id r) (gmr_start (mr_range r)) (gmr_size (mr_range r))) (\<lambda>(b', _). Ok b')"

lemma bus_insert_region_Ok:
  assumes "bus_wf b" and "region_wf r" and "bus_insert_region b r = Ok b'"
  shows "bus_wf b'" and "set (bus_regions b') = insert r (set (bus_regions b))"
    and "\<And>x. x \<in> set (bus_regions b) \<Longrightarrow> \<not> overlaps (mr_range x) (mr_range r)"
proof -
  obtain q where "bus_insert b (mr_id r) (gmr_start (mr_range r)) (gmr_size (mr_range r)) = Ok (b', q)"
    using assms(3) by (auto simp: and_then_Ok_iff)
  note ok = bus_insert_Ok [OF assms(1) this]
  with assms(2) have "q = r" by simp
  with ok show "bus_wf b'" "set (bus_regions b') = insert r (set (bus_regions b))"
    "\<And>x. x \<in> set (bus_regions b) \<Longrightarrow> \<not> overlaps (mr_range x) (mr_range r)" by auto
qed

interpretation bus_table: range_table mr_range bus_regions bus_wf bus_insert_region
proof (unfold_locales, goal_cases)
  case (1 t)
  then show ?case by (simp only: bus_wf_def)
qed (erule bus_insert_region_Ok; assumption)+

lemma bus_insert_region_clear:
  assumes "bus_wf b" and "region_wf r"
    and "\<forall>x\<in>set (bus_regions b). \<not> overlaps (mr_range x) (mr_range r)"
  obtains b' where "bus_insert b (mr_id r) (gmr_start (mr_range r)) (gmr_size (mr_range r)) = Ok (b', r)"
  using bus_insert_Ok_iff [OF assms(1), of "mr_id r" "gmr_start (mr_range r)" "gmr_size (mr_range r)" _ r]
    assms(2,3) by simp

lemma ordered_regions_eq:
  assumes "ordered_disjoint (map mr_range xs)" and "ordered_disjoint (map mr_range ys)"
    and "set xs = set ys"
  shows "xs = ys"
proof (rule map_inj_on)
  show "map mr_range xs = map mr_range ys"
    by (rule ordered_disjoint_set_eq) (use assms in auto)
  show "inj_on mr_range (set xs \<union> set ys)"
    using ordered_disjoint_distinct [OF assms(1)] assms(3) by (simp add: distinct_map)
qed

lemma bus_eqI:
  assumes "bus_wf b" and "bus_wf c" and "set (bus_regions b) = set (bus_regions c)"
  shows "(b :: mmio_bus) = c"
  using ordered_regions_eq [of "bus_regions b" "bus_regions c"] assms
  by (auto simp: bus_wf_def intro: mmio_bus.equality)

lemma sorted_disjoint_ordered:
  assumes "sorted (map (\<lambda>x. gmr_start (f x)) xs)" and "distinct xs" and "\<forall>x\<in>set xs. range_wf (f x)"
    and "\<forall>x\<in>set xs. \<forall>y\<in>set xs. x \<noteq> y \<longrightarrow> \<not> overlaps (f x) (f y)"
  shows "ordered_disjoint (map f xs)"
  using assms
proof (induction xs)
  case (Cons x xs)
  have "range_before (f x) (f y)" if "y \<in> set xs" for y
    using Cons.prems that not_overlaps_before_le [of "f x" "f y"] by auto
  then show ?case using Cons by auto
qed simp

subsection \<open>Lookup\<close>

text \<open>The region that contains a range is the last one that starts at or before it.\<close>

lemma bus_candidate:
  assumes wf: "bus_wf b" and mem: "r \<in> set (bus_regions b)"
    and sub: "guest_memory_range_contains (mr_range r) rng" and rw: "range_wf rng"
  shows "partition_point (\<lambda>x. gmr_start (mr_range x) \<le> gmr_start rng) (bus_regions b) \<noteq> 0 \<and>
    r = bus_regions b ! (partition_point (\<lambda>x. gmr_start (mr_range x) \<le> gmr_start rng) (bus_regions b) - 1)"
proof -
  let ?p = "\<lambda>x. gmr_start (mr_range x) \<le> gmr_start rng"
  obtain pre post where split: "bus_regions b = pre @ r # post"
    using mem by (meson split_list)
  have od: "ordered_disjoint (map mr_range pre @ mr_range r # map mr_range post)"
    using wf split by (simp add: bus_wf_def)
  have r: "?p r" "gmr_start rng < gmr_end_exclusive (mr_range r)"
    using sub range_wf_nonempty [OF rw] by (auto simp: guest_memory_range_contains_def)
  have "?p x" if "x \<in> set pre" for x
    using od that r range_before_start_less [of "mr_range x" "mr_range r"]
    by (fastforce simp: ordered_disjoint_append dest: ordered_disjoint_wf)
  moreover have "\<not> ?p x" if "x \<in> set post" for x
    using od that r by (fastforce simp: ordered_disjoint_append range_before_def)
  ultimately have "takeWhile ?p (bus_regions b) = pre @ [r]"
    using r(1) unfolding split by (cases post) (auto simp: takeWhile_append2)
  then show ?thesis by (simp add: partition_point_def split)
qed

lemma bus_lookup_Ok_iff:
  assumes wf: "bus_wf b"
  shows "bus_lookup b s z = Ok a \<longleftrightarrow>
    range_new s z = Ok (ma_range a) \<and> ma_region a \<in> set (bus_regions b) \<and>
    guest_memory_range_contains (mr_range (ma_region a)) (ma_range a) \<and>
    ma_offset a = s - gmr_start (mr_range (ma_region a))"
proof (cases "range_new s z")
  case (Ok rng)
  let ?p = "\<lambda>r. gmr_start (mr_range r) \<le> gmr_start rng" and ?rs = "bus_regions b"
  let ?n = "partition_point ?p ?rs"
  have rs: "gmr_start rng = s" and rw: "range_wf rng" using Ok by (simp_all add: range_new_Ok_iff)
  have owner: "r = ?rs ! (?n - 1) \<and> ?n \<noteq> 0"
    if "r \<in> set ?rs" and "guest_memory_range_contains (mr_range r) rng" for r
    using bus_candidate [OF wf that rw] by simp
  show ?thesis
  proof (cases "?n = 0")
    case True
    then show ?thesis using owner Ok by (fastforce simp: bus_lookup_def)
  next
    case False
    then have mem: "?rs ! (?n - 1) \<in> set ?rs"
      using partition_point_le [of ?p ?rs] by (intro nth_mem) linarith
    define r where "r = ?rs ! (?n - 1)"
    have lookup: "bus_lookup b s z =
        (if guest_memory_range_contains (mr_range r) rng
         then Ok \<lparr>ma_region = r, ma_range = rng, ma_offset = s - gmr_start (mr_range r)\<rparr>
         else Err (UnownedAccess rng))"
      using False Ok rs unfolding r_def
      by (simp add: bus_lookup_def Let_def range_contains_range_def guest_memory_range_contains_def
          sub_or_panic_def)
    have "r \<in> set ?rs" unfolding r_def by (rule mem)
    moreover have "x = r" if "x \<in> set ?rs" and "guest_memory_range_contains (mr_range x) rng" for x
      unfolding r_def using owner [OF that] by simp
    ultimately have own: "x \<in> set ?rs \<and> guest_memory_range_contains (mr_range x) rng \<longleftrightarrow>
        x = r \<and> guest_memory_range_contains (mr_range r) rng" for x
      by metis
    show ?thesis
    proof (cases "ma_range a = rng")
      case True
      then show ?thesis
        unfolding lookup Ok using own [of "ma_region a"] True by (cases a) auto
    qed (auto simp: lookup Ok)
  qed
qed (auto simp: bus_lookup_def)

end
