(* ===== verification/Virtio_Mmio.thy ===== *)
theory Virtio_Mmio
  imports Interrupt Mmio
begin

text \<open>
  The virtio-mmio transport, \<open>crates/runtime/src/virtio_mmio.rs\<close>, and the common device state it
  shares with other transports, \<open>VirtioDeviceCore\<close> of \<open>crates/runtime/src/virtio.rs\<close>: access
  decoding, device, queue, notification and interrupt registers, the register handler with its
  reset and activation, and the transport state of a snapshot.  The device-specific configuration
  and activation handlers are trait objects: their operations are the record \<open>device_ops\<close>, a
  parameter of the handler.  Log records and the display text of an error are left out; the text
  is the parameter \<open>display\<close> of the MMIO handler.
\<close>

section \<open>Registers and access decoding\<close>

definition VIRTIO_MMIO_DEVICE_WINDOW_SIZE :: u64 where "VIRTIO_MMIO_DEVICE_WINDOW_SIZE = 0x1000"
definition VIRTIO_MMIO_DEVICE_CONFIG_OFFSET :: u64 where "VIRTIO_MMIO_DEVICE_CONFIG_OFFSET = 0x100"
definition VIRTIO_MMIO_MAGIC_VALUE :: u32 where "VIRTIO_MMIO_MAGIC_VALUE = 0x74726976"
definition VIRTIO_MMIO_VERSION :: u32 where "VIRTIO_MMIO_VERSION = 2"
definition VIRTIO_MMIO_REGISTER_ACCESS_SIZE :: nat where "VIRTIO_MMIO_REGISTER_ACCESS_SIZE = 4"
definition VIRTIO_MMIO_VERSION_1_FEATURE :: u64 where "VIRTIO_MMIO_VERSION_1_FEATURE = push_bit 32 1"
definition VIRTIO_DEVICE_STATUS_INIT :: u32 where "VIRTIO_DEVICE_STATUS_INIT = 0"
definition VIRTIO_DEVICE_STATUS_ACKNOWLEDGE :: u32 where "VIRTIO_DEVICE_STATUS_ACKNOWLEDGE = 1"
definition VIRTIO_DEVICE_STATUS_DRIVER :: u32 where "VIRTIO_DEVICE_STATUS_DRIVER = 2"
definition VIRTIO_DEVICE_STATUS_DRIVER_OK :: u32 where "VIRTIO_DEVICE_STATUS_DRIVER_OK = 4"
definition VIRTIO_DEVICE_STATUS_FEATURES_OK :: u32 where "VIRTIO_DEVICE_STATUS_FEATURES_OK = 8"
definition VIRTIO_DEVICE_STATUS_DEVICE_NEEDS_RESET :: u32 where "VIRTIO_DEVICE_STATUS_DEVICE_NEEDS_RESET = 0x40"
definition VIRTIO_DEVICE_STATUS_FAILED :: u32 where "VIRTIO_DEVICE_STATUS_FAILED = 0x80"
definition VIRTIO_MMIO_FEATURE_SELECTOR_MAX :: u32 where "VIRTIO_MMIO_FEATURE_SELECTOR_MAX = 1"
definition VIRTIO_DEVICE_DRIVER_OK_STATUS :: u32 where
  "VIRTIO_DEVICE_DRIVER_OK_STATUS = VIRTIO_DEVICE_STATUS_ACKNOWLEDGE OR VIRTIO_DEVICE_STATUS_DRIVER OR
     VIRTIO_DEVICE_STATUS_FEATURES_OK OR VIRTIO_DEVICE_STATUS_DRIVER_OK"

lemmas status_consts = VIRTIO_DEVICE_STATUS_INIT_def VIRTIO_DEVICE_STATUS_ACKNOWLEDGE_def
  VIRTIO_DEVICE_STATUS_DRIVER_def VIRTIO_DEVICE_STATUS_DRIVER_OK_def VIRTIO_DEVICE_STATUS_FEATURES_OK_def
  VIRTIO_DEVICE_STATUS_DEVICE_NEEDS_RESET_def VIRTIO_DEVICE_STATUS_FAILED_def VIRTIO_DEVICE_DRIVER_OK_STATUS_def

datatype virtio_mmio_register =
    MagicValue | Version | DeviceId | VendorId | DeviceFeatures | DeviceFeaturesSel | DriverFeatures
  | DriverFeaturesSel | QueueSel | QueueNumMax | QueueNum | QueueReady | QueueNotify | InterruptStatus
  | InterruptAck | Status | QueueDescLow | QueueDescHigh | QueueDriverLow | QueueDriverHigh
  | QueueDeviceLow | QueueDeviceHigh | ConfigGeneration

fun register_offset :: "virtio_mmio_register \<Rightarrow> u64" where
  "register_offset MagicValue = 0x00"
| "register_offset Version = 0x04"
| "register_offset DeviceId = 0x08"
| "register_offset VendorId = 0x0c"
| "register_offset DeviceFeatures = 0x10"
| "register_offset DeviceFeaturesSel = 0x14"
| "register_offset DriverFeatures = 0x20"
| "register_offset DriverFeaturesSel = 0x24"
| "register_offset QueueSel = 0x30"
| "register_offset QueueNumMax = 0x34"
| "register_offset QueueNum = 0x38"
| "register_offset QueueReady = 0x44"
| "register_offset QueueNotify = 0x50"
| "register_offset InterruptStatus = 0x60"
| "register_offset InterruptAck = 0x64"
| "register_offset Status = 0x70"
| "register_offset QueueDescLow = 0x80"
| "register_offset QueueDescHigh = 0x84"
| "register_offset QueueDriverLow = 0x90"
| "register_offset QueueDriverHigh = 0x94"
| "register_offset QueueDeviceLow = 0xa0"
| "register_offset QueueDeviceHigh = 0xa4"
| "register_offset ConfigGeneration = 0xfc"

definition is_readable :: "virtio_mmio_register \<Rightarrow> bool" where
  "is_readable r \<longleftrightarrow> r \<in> {MagicValue, Version, DeviceId, VendorId, DeviceFeatures, QueueNumMax, QueueReady,
     InterruptStatus, Status, ConfigGeneration}"

definition is_writable :: "virtio_mmio_register \<Rightarrow> bool" where
  "is_writable r \<longleftrightarrow> r \<in> {DeviceFeaturesSel, DriverFeatures, DriverFeaturesSel, QueueSel, QueueNum, QueueReady,
     QueueNotify, InterruptAck, Status, QueueDescLow, QueueDescHigh, QueueDriverLow, QueueDriverHigh,
     QueueDeviceLow, QueueDeviceHigh}"

definition read_at_offset :: "u64 \<Rightarrow> virtio_mmio_register option" where
  "read_at_offset offset =
     (if offset = 0x00 then Some MagicValue else if offset = 0x04 then Some Version
      else if offset = 0x08 then Some DeviceId else if offset = 0x0c then Some VendorId
      else if offset = 0x10 then Some DeviceFeatures else if offset = 0x34 then Some QueueNumMax
      else if offset = 0x44 then Some QueueReady else if offset = 0x60 then Some InterruptStatus
      else if offset = 0x70 then Some Status else if offset = 0xfc then Some ConfigGeneration
      else None)"

definition write_at_offset :: "u64 \<Rightarrow> virtio_mmio_register option" where
  "write_at_offset offset =
     (if offset = 0x14 then Some DeviceFeaturesSel else if offset = 0x20 then Some DriverFeatures
      else if offset = 0x24 then Some DriverFeaturesSel else if offset = 0x30 then Some QueueSel
      else if offset = 0x38 then Some QueueNum else if offset = 0x44 then Some QueueReady
      else if offset = 0x50 then Some QueueNotify else if offset = 0x64 then Some InterruptAck
      else if offset = 0x70 then Some Status else if offset = 0x80 then Some QueueDescLow
      else if offset = 0x84 then Some QueueDescHigh else if offset = 0x90 then Some QueueDriverLow
      else if offset = 0x94 then Some QueueDriverHigh else if offset = 0xa0 then Some QueueDeviceLow
      else if offset = 0xa4 then Some QueueDeviceHigh else None)"

record virtio_mmio_device_config_access =
  ca_kind :: mmio_operation_kind
  ca_offset :: u64
  ca_len :: nat

datatype virtio_mmio_access =
    RegisterAccess mmio_operation_kind virtio_mmio_register
  | DeviceConfigAccess virtio_mmio_device_config_access

datatype virtio_mmio_access_error =
    AccessLengthTooLarge nat
  | AccessRangeOverflow mmio_operation_kind u64 nat
  | AccessOutsideDeviceWindow mmio_operation_kind u64 nat u64
  | RegisterAccessCrossesBoundary mmio_operation_kind u64 nat u64 nat
  | UnsupportedRegisterAccessSize mmio_operation_kind u64 nat nat
  | UnsupportedRegisterOffset mmio_operation_kind u64

fun operation_data :: "mmio_operation \<Rightarrow> mmio_access_bytes" where
  "operation_data (OpRead a d) = d"
| "operation_data (OpWrite a d) = d"

definition register_for_kind :: "mmio_operation_kind \<Rightarrow> u64 \<Rightarrow> virtio_mmio_register option" where
  "register_for_kind kind offset =
     (case kind of KindRead \<Rightarrow> read_at_offset offset | KindWrite \<Rightarrow> write_at_offset offset)"

definition register_slot_offset :: "u64 \<Rightarrow> u64" where
  "register_slot_offset offset = offset div 4 * 4"

definition decode_virtio_mmio_register_access ::
    "mmio_operation_kind \<Rightarrow> u64 \<Rightarrow> nat \<Rightarrow> u64 \<Rightarrow> (virtio_mmio_access, virtio_mmio_access_error) result" where
  "decode_virtio_mmio_register_access kind offset len end' =
     (let slot = register_slot_offset offset; register_end = slot + 4
      in if register_end < end'
         then Err (RegisterAccessCrossesBoundary kind offset len slot VIRTIO_MMIO_REGISTER_ACCESS_SIZE)
         else if len \<noteq> VIRTIO_MMIO_REGISTER_ACCESS_SIZE
         then Err (UnsupportedRegisterAccessSize kind offset len VIRTIO_MMIO_REGISTER_ACCESS_SIZE)
         else and_then (ok_or (register_for_kind kind offset) (UnsupportedRegisterOffset kind offset))
           (\<lambda>r. Ok (RegisterAccess kind r)))"

definition decode_virtio_mmio_access ::
    "mmio_operation \<Rightarrow> (virtio_mmio_access, virtio_mmio_access_error) result" where
  "decode_virtio_mmio_access op =
     (let kind = operation_kind op; offset = ma_offset (operation_access op); len = mab_len (operation_data op)
      in if 2 ^ 64 \<le> len then Err (AccessLengthTooLarge len)
         else and_then (ok_or (checked_add offset (of_nat len)) (AccessRangeOverflow kind offset len)) (\<lambda>end'.
           if VIRTIO_MMIO_DEVICE_WINDOW_SIZE < end'
           then Err (AccessOutsideDeviceWindow kind offset len VIRTIO_MMIO_DEVICE_WINDOW_SIZE)
           else if VIRTIO_MMIO_DEVICE_CONFIG_OFFSET \<le> offset
           then Ok (DeviceConfigAccess \<lparr>ca_kind = kind, ca_offset = offset - VIRTIO_MMIO_DEVICE_CONFIG_OFFSET,
                                        ca_len = len\<rparr>)
           else decode_virtio_mmio_register_access kind offset len end'))"

section \<open>Device registers\<close>

record virtio_mmio_device_registers =
  dr_device_id :: u32
  dr_vendor_id :: u32
  dr_device_features :: u64
  dr_config_generation :: u32
  dr_device_features_select :: u32
  dr_driver_features_select :: u32
  dr_driver_features :: u64
  dr_status :: u32

datatype virtio_mmio_register_state_error =
    State_UnsupportedRegisterRead virtio_mmio_register
  | State_UnsupportedRegisterWrite virtio_mmio_register
  | UnsupportedFeaturePage u32
  | DriverFeaturesNotWritable u32
  | UnsupportedDriverFeatures u32 u32 u32 u32
  | InvalidStatusTransition u32 u32

definition device_registers_new :: "u32 \<Rightarrow> u32 \<Rightarrow> u64 \<Rightarrow> u32 \<Rightarrow> virtio_mmio_device_registers" where
  "device_registers_new device_id vendor_id device_features config_generation =
     \<lparr>dr_device_id = device_id, dr_vendor_id = vendor_id,
      dr_device_features = device_features OR VIRTIO_MMIO_VERSION_1_FEATURE,
      dr_config_generation = config_generation, dr_device_features_select = 0, dr_driver_features_select = 0,
      dr_driver_features = 0, dr_status = VIRTIO_DEVICE_STATUS_INIT\<rparr>"

definition increment_config_generation :: "virtio_mmio_device_registers \<Rightarrow> virtio_mmio_device_registers" where
  "increment_config_generation d = d\<lparr>dr_config_generation := dr_config_generation d + 1\<rparr>"

definition feature_word :: "u64 \<Rightarrow> u32 \<Rightarrow> (u32, virtio_mmio_register_state_error) result" where
  "feature_word features selector =
     (if selector = 0 then Ok (ucast (features AND mask 32))
      else if selector = 1 then Ok (ucast (drop_bit 32 features))
      else Err (UnsupportedFeaturePage selector))"

definition selected_feature_bits :: "u32 \<Rightarrow> u32 \<Rightarrow> (u64, virtio_mmio_register_state_error) result" where
  "selected_feature_bits selector v =
     (if selector = 0 then Ok (ucast v)
      else if selector = 1 then Ok (push_bit 32 (ucast v))
      else Err (UnsupportedFeaturePage selector))"

definition validate_feature_selector :: "u32 \<Rightarrow> (unit, virtio_mmio_register_state_error) result" where
  "validate_feature_selector selector =
     (if selector \<le> VIRTIO_MMIO_FEATURE_SELECTOR_MAX then Ok () else Err (UnsupportedFeaturePage selector))"

definition is_valid_status_transition :: "u32 \<Rightarrow> u32 \<Rightarrow> bool" where
  "is_valid_status_transition current requested \<longleftrightarrow>
     (let acknowledge = VIRTIO_DEVICE_STATUS_ACKNOWLEDGE;
          driver = acknowledge OR VIRTIO_DEVICE_STATUS_DRIVER;
          features_ok = driver OR VIRTIO_DEVICE_STATUS_FEATURES_OK
      in if current = VIRTIO_DEVICE_STATUS_INIT then requested = acknowledge
         else if current = acknowledge then requested = driver
         else if current = driver then requested = features_ok
         else if current = features_ok then requested = features_ok OR VIRTIO_DEVICE_STATUS_DRIVER_OK
         else False)"

definition device_read_register ::
    "virtio_mmio_device_registers \<Rightarrow> virtio_mmio_register \<Rightarrow> (u32, virtio_mmio_register_state_error) result" where
  "device_read_register d r =
     (case r of
        MagicValue \<Rightarrow> Ok VIRTIO_MMIO_MAGIC_VALUE
      | Version \<Rightarrow> Ok VIRTIO_MMIO_VERSION
      | DeviceId \<Rightarrow> Ok (dr_device_id d)
      | VendorId \<Rightarrow> Ok (dr_vendor_id d)
      | DeviceFeatures \<Rightarrow> feature_word (dr_device_features d) (dr_device_features_select d)
      | Status \<Rightarrow> Ok (dr_status d)
      | ConfigGeneration \<Rightarrow> Ok (dr_config_generation d)
      | _ \<Rightarrow> Err (State_UnsupportedRegisterRead r))"

definition can_write_driver_features :: "virtio_mmio_device_registers \<Rightarrow> bool" where
  "can_write_driver_features d \<longleftrightarrow>
     dr_status d AND (VIRTIO_DEVICE_STATUS_DRIVER OR VIRTIO_DEVICE_STATUS_FEATURES_OK OR
       VIRTIO_DEVICE_STATUS_FAILED OR VIRTIO_DEVICE_STATUS_DEVICE_NEEDS_RESET) = VIRTIO_DEVICE_STATUS_DRIVER"

definition write_driver_features ::
    "virtio_mmio_device_registers \<Rightarrow> u32 \<Rightarrow> (virtio_mmio_device_registers, virtio_mmio_register_state_error) result" where
  "write_driver_features d v =
     (if \<not> can_write_driver_features d then Err (DriverFeaturesNotWritable (dr_status d))
      else and_then (feature_word (dr_device_features d) (dr_driver_features_select d)) (\<lambda>supported.
        let unsupported = v AND NOT supported
        in if unsupported \<noteq> 0
           then Err (UnsupportedDriverFeatures (dr_driver_features_select d) v supported unsupported)
           else and_then (selected_feature_bits (dr_driver_features_select d) v) (\<lambda>bits.
             Ok (d\<lparr>dr_driver_features := dr_driver_features d OR bits\<rparr>))))"

definition device_reset :: "virtio_mmio_device_registers \<Rightarrow> virtio_mmio_device_registers" where
  "device_reset d = d\<lparr>dr_device_features_select := 0, dr_driver_features_select := 0, dr_driver_features := 0,
     dr_status := VIRTIO_DEVICE_STATUS_INIT\<rparr>"

definition mark_device_needs_reset :: "virtio_mmio_device_registers \<Rightarrow> virtio_mmio_device_registers" where
  "mark_device_needs_reset d = d\<lparr>dr_status := dr_status d OR VIRTIO_DEVICE_STATUS_DEVICE_NEEDS_RESET\<rparr>"

definition set_status ::
    "virtio_mmio_device_registers \<Rightarrow> u32 \<Rightarrow> (virtio_mmio_device_registers, virtio_mmio_register_state_error) result" where
  "set_status d status =
     (if status AND VIRTIO_DEVICE_STATUS_FAILED \<noteq> 0
      then Ok (d\<lparr>dr_status := dr_status d OR VIRTIO_DEVICE_STATUS_FAILED\<rparr>)
      else if status = VIRTIO_DEVICE_STATUS_INIT then Ok (device_reset d)
      else if is_valid_status_transition (dr_status d) status then Ok (d\<lparr>dr_status := status\<rparr>)
      else Err (InvalidStatusTransition (dr_status d) status))"

definition device_write_register ::
    "virtio_mmio_device_registers \<Rightarrow> virtio_mmio_register \<Rightarrow> u32 \<Rightarrow>
     (virtio_mmio_device_registers, virtio_mmio_register_state_error) result" where
  "device_write_register d r v =
     (case r of
        DeviceFeaturesSel \<Rightarrow> and_then (validate_feature_selector v) (\<lambda>_. Ok (d\<lparr>dr_device_features_select := v\<rparr>))
      | DriverFeaturesSel \<Rightarrow> and_then (validate_feature_selector v) (\<lambda>_. Ok (d\<lparr>dr_driver_features_select := v\<rparr>))
      | DriverFeatures \<Rightarrow> write_driver_features d v
      | Status \<Rightarrow> set_status d v
      | _ \<Rightarrow> Err (State_UnsupportedRegisterWrite r))"

section \<open>Interrupt registers\<close>

record virtio_mmio_interrupt_registers =
  ir_pending_status :: device_interrupt_status

datatype virtio_mmio_interrupt_register_error =
    Interrupt_UnsupportedRegisterRead virtio_mmio_register
  | Interrupt_UnsupportedRegisterWrite virtio_mmio_register
  | InterruptAckNotWritable u32
  | InvalidInterruptAck u32 device_interrupt_status_error

definition interrupt_registers_new :: virtio_mmio_interrupt_registers where
  "interrupt_registers_new = \<lparr>ir_pending_status = 0\<rparr>"

definition mark_pending ::
    "virtio_mmio_interrupt_registers \<Rightarrow> device_interrupt_kind \<Rightarrow> virtio_mmio_interrupt_registers" where
  "mark_pending i k = i\<lparr>ir_pending_status := status_insert (ir_pending_status i) k\<rparr>"

definition interrupt_read_register ::
    "virtio_mmio_interrupt_registers \<Rightarrow> virtio_mmio_register \<Rightarrow> (u32, virtio_mmio_interrupt_register_error) result" where
  "interrupt_read_register i r =
     (case r of InterruptStatus \<Rightarrow> Ok (ir_pending_status i) | _ \<Rightarrow> Err (Interrupt_UnsupportedRegisterRead r))"

definition validate_interrupt_ack_status :: "u32 \<Rightarrow> (unit, virtio_mmio_interrupt_register_error) result" where
  "validate_interrupt_ack_status status =
     (if status AND VIRTIO_DEVICE_STATUS_DRIVER_OK = VIRTIO_DEVICE_STATUS_DRIVER_OK then Ok ()
      else Err (InterruptAckNotWritable status))"

definition write_interrupt_ack ::
    "virtio_mmio_interrupt_registers \<Rightarrow> u32 \<Rightarrow> u32 \<Rightarrow>
     (virtio_mmio_interrupt_registers, virtio_mmio_interrupt_register_error) result" where
  "write_interrupt_ack i v status =
     and_then (validate_interrupt_ack_status status) (\<lambda>_.
     and_then (map_err (InvalidInterruptAck v) (status_from_bits v)) (\<lambda>ack.
     Ok (i\<lparr>ir_pending_status := status_clear (ir_pending_status i) ack\<rparr>)))"

definition interrupt_write_register ::
    "virtio_mmio_interrupt_registers \<Rightarrow> virtio_mmio_register \<Rightarrow> u32 \<Rightarrow> u32 \<Rightarrow>
     (virtio_mmio_interrupt_registers, virtio_mmio_interrupt_register_error) result" where
  "interrupt_write_register i r v status =
     (case r of InterruptAck \<Rightarrow> write_interrupt_ack i v status | _ \<Rightarrow> Err (Interrupt_UnsupportedRegisterWrite r))"

definition interrupt_reset :: "virtio_mmio_interrupt_registers \<Rightarrow> virtio_mmio_interrupt_registers" where
  "interrupt_reset i = i\<lparr>ir_pending_status := 0\<rparr>"

section \<open>Queue registers\<close>

record virtio_mmio_queue_state =
  qs_max_size :: u16
  qs_size :: u16
  qs_ready :: bool
  qs_descriptor_table :: guest_address
  qs_driver_ring :: guest_address
  qs_device_ring :: guest_address

datatype queue_address_kind = DescriptorTable | DriverRing | DeviceRing

datatype virtio_mmio_queue_register_error =
    Queue_EmptyQueueTable
  | InvalidQueueMaxSize nat u16
  | Queue_InvalidQueueIndex u32 nat
  | Queue_UnsupportedRegisterRead virtio_mmio_register
  | Queue_UnsupportedRegisterWrite virtio_mmio_register
  | QueueConfigNotWritable u32
  | InvalidQueueSize u32 u32 u16
  | InvalidQueueReadyValue u32 u32
  | UnalignedQueueAddress u32 virtio_mmio_register guest_address u64

record virtio_mmio_queue_registers =
  qr_queue_select :: u32
  qr_queues :: "virtio_mmio_queue_state list"

definition queue_state_new :: "u16 \<Rightarrow> virtio_mmio_queue_state" where
  "queue_state_new max_size =
     \<lparr>qs_max_size = max_size, qs_size = 0, qs_ready = False, qs_descriptor_table = 0, qs_driver_ring = 0,
      qs_device_ring = 0\<rparr>"

fun queue_address :: "virtio_mmio_queue_state \<Rightarrow> queue_address_kind \<Rightarrow> guest_address" where
  "queue_address q DescriptorTable = qs_descriptor_table q"
| "queue_address q DriverRing = qs_driver_ring q"
| "queue_address q DeviceRing = qs_device_ring q"

fun set_address :: "virtio_mmio_queue_state \<Rightarrow> queue_address_kind \<Rightarrow> guest_address \<Rightarrow> virtio_mmio_queue_state" where
  "set_address q DescriptorTable a = q\<lparr>qs_descriptor_table := a\<rparr>"
| "set_address q DriverRing a = q\<lparr>qs_driver_ring := a\<rparr>"
| "set_address q DeviceRing a = q\<lparr>qs_device_ring := a\<rparr>"

definition queue_state_reset :: "virtio_mmio_queue_state \<Rightarrow> virtio_mmio_queue_state" where
  "queue_state_reset q = q\<lparr>qs_size := 0, qs_ready := False, qs_descriptor_table := 0, qs_driver_ring := 0,
     qs_device_ring := 0\<rparr>"

fun address_register :: "queue_address_kind \<Rightarrow> virtio_mmio_register" where
  "address_register DescriptorTable = QueueDescLow"
| "address_register DriverRing = QueueDriverLow"
| "address_register DeviceRing = QueueDeviceLow"

fun address_alignment :: "queue_address_kind \<Rightarrow> u64" where
  "address_alignment DescriptorTable = 16"
| "address_alignment DriverRing = 2"
| "address_alignment DeviceRing = 4"

definition validate_queue_max_size :: "nat \<Rightarrow> u16 \<Rightarrow> (unit, virtio_mmio_queue_register_error) result" where
  "validate_queue_max_size queue_index max_size =
     (if max_size \<noteq> 0 \<and> is_power_of_two max_size then Ok () else Err (InvalidQueueMaxSize queue_index max_size))"

definition validate_queue_config_status :: "u32 \<Rightarrow> (unit, virtio_mmio_queue_register_error) result" where
  "validate_queue_config_status status =
     (if status = VIRTIO_DEVICE_STATUS_ACKNOWLEDGE OR VIRTIO_DEVICE_STATUS_DRIVER OR VIRTIO_DEVICE_STATUS_FEATURES_OK
      then Ok () else Err (QueueConfigNotWritable status))"

definition validate_register_queue_size :: "u32 \<Rightarrow> u32 \<Rightarrow> u16 \<Rightarrow> (u16, virtio_mmio_queue_register_error) result" where
  "validate_register_queue_size queue_index v max_size =
     and_then (ok_or (try_from v) (InvalidQueueSize queue_index v max_size)) (\<lambda>queue_size.
       if queue_size \<noteq> 0 \<and> is_power_of_two queue_size \<and> queue_size \<le> max_size then Ok queue_size
       else Err (InvalidQueueSize queue_index v max_size))"

definition validate_queue_ready_value :: "u32 \<Rightarrow> u32 \<Rightarrow> (bool, virtio_mmio_queue_register_error) result" where
  "validate_queue_ready_value queue_index v =
     (if v = 0 then Ok False else if v = 1 then Ok True else Err (InvalidQueueReadyValue queue_index v))"

definition queue_ready_value :: "bool \<Rightarrow> u32" where
  "queue_ready_value ready = (if ready then 1 else 0)"

definition replace_address_low :: "guest_address \<Rightarrow> u32 \<Rightarrow> guest_address" where
  "replace_address_low current v = (current AND NOT (mask 32)) OR ucast v"

definition replace_address_high :: "guest_address \<Rightarrow> u32 \<Rightarrow> guest_address" where
  "replace_address_high current v = (current AND mask 32) OR push_bit 32 (ucast v)"

definition validate_queue_address ::
    "u32 \<Rightarrow> queue_address_kind \<Rightarrow> guest_address \<Rightarrow> (unit, virtio_mmio_queue_register_error) result" where
  "validate_queue_address queue_index kind a =
     (let alignment = address_alignment kind;
          aligned = (case is_aligned a alignment of Ok b \<Rightarrow> b | _ \<Rightarrow> False)
      in if aligned then Ok () else Err (UnalignedQueueAddress queue_index (address_register kind) a alignment))"

fun queue_states_new :: "nat \<Rightarrow> u16 list \<Rightarrow> (virtio_mmio_queue_state list, virtio_mmio_queue_register_error) result" where
  "queue_states_new i [] = Ok []"
| "queue_states_new i (max_size # sizes) =
     and_then (validate_queue_max_size i max_size) (\<lambda>_.
     and_then (queue_states_new (Suc i) sizes) (\<lambda>qs. Ok (queue_state_new max_size # qs)))"

definition queue_registers_new :: "u16 list \<Rightarrow> (virtio_mmio_queue_registers, virtio_mmio_queue_register_error) result" where
  "queue_registers_new sizes =
     (if sizes = [] then Err Queue_EmptyQueueTable
      else and_then (queue_states_new 0 sizes) (\<lambda>qs. Ok \<lparr>qr_queue_select = 0, qr_queues = qs\<rparr>))"

definition queue_register_index ::
    "virtio_mmio_queue_registers \<Rightarrow> u32 \<Rightarrow> (nat, virtio_mmio_queue_register_error) result" where
  "queue_register_index q i =
     (if unat i < length (qr_queues q) then Ok (unat i) else Err (Queue_InvalidQueueIndex i (length (qr_queues q))))"

definition selected_queue ::
    "virtio_mmio_queue_registers \<Rightarrow> (virtio_mmio_queue_state, virtio_mmio_queue_register_error) result" where
  "selected_queue q = and_then (queue_register_index q (qr_queue_select q)) (\<lambda>i. Ok (qr_queues q ! i))"

definition update_selected_queue ::
    "virtio_mmio_queue_registers \<Rightarrow> (virtio_mmio_queue_state \<Rightarrow> virtio_mmio_queue_state) \<Rightarrow>
     (virtio_mmio_queue_registers, virtio_mmio_queue_register_error) result" where
  "update_selected_queue q f =
     and_then (queue_register_index q (qr_queue_select q))
       (\<lambda>i. Ok (q\<lparr>qr_queues := (qr_queues q)[i := f (qr_queues q ! i)]\<rparr>))"

definition queue_read_register ::
    "virtio_mmio_queue_registers \<Rightarrow> virtio_mmio_register \<Rightarrow> (u32, virtio_mmio_queue_register_error) result" where
  "queue_read_register q r =
     (case r of
        QueueNumMax \<Rightarrow> and_then (selected_queue q) (\<lambda>s. Ok (ucast (qs_max_size s)))
      | QueueReady \<Rightarrow> and_then (selected_queue q) (\<lambda>s. Ok (queue_ready_value (qs_ready s)))
      | _ \<Rightarrow> Err (Queue_UnsupportedRegisterRead r))"

definition select_queue ::
    "virtio_mmio_queue_registers \<Rightarrow> u32 \<Rightarrow> (virtio_mmio_queue_registers, virtio_mmio_queue_register_error) result" where
  "select_queue q i = and_then (queue_register_index q i) (\<lambda>_. Ok (q\<lparr>qr_queue_select := i\<rparr>))"

definition write_queue_size ::
    "virtio_mmio_queue_registers \<Rightarrow> u32 \<Rightarrow> u32 \<Rightarrow> (virtio_mmio_queue_registers, virtio_mmio_queue_register_error) result" where
  "write_queue_size q v status =
     and_then (validate_queue_config_status status) (\<lambda>_.
     and_then (selected_queue q) (\<lambda>s.
     and_then (validate_register_queue_size (qr_queue_select q) v (qs_max_size s)) (\<lambda>queue_size.
     update_selected_queue q (\<lambda>s. s\<lparr>qs_size := queue_size\<rparr>))))"

definition write_queue_ready ::
    "virtio_mmio_queue_registers \<Rightarrow> u32 \<Rightarrow> u32 \<Rightarrow> (virtio_mmio_queue_registers, virtio_mmio_queue_register_error) result" where
  "write_queue_ready q v status =
     (if status = VIRTIO_DEVICE_STATUS_INIT \<and> v = 0
      then update_selected_queue q (\<lambda>s. s\<lparr>qs_ready := False\<rparr>)
      else and_then (validate_queue_config_status status) (\<lambda>_.
           and_then (validate_queue_ready_value (qr_queue_select q) v) (\<lambda>ready.
           update_selected_queue q (\<lambda>s. s\<lparr>qs_ready := ready\<rparr>))))"

definition write_queue_address ::
    "(guest_address \<Rightarrow> u32 \<Rightarrow> guest_address) \<Rightarrow> virtio_mmio_queue_registers \<Rightarrow> queue_address_kind \<Rightarrow> u32 \<Rightarrow> u32 \<Rightarrow>
     (virtio_mmio_queue_registers, virtio_mmio_queue_register_error) result" where
  "write_queue_address replace q kind v status =
     and_then (validate_queue_config_status status) (\<lambda>_.
     and_then (selected_queue q) (\<lambda>s.
     let candidate = replace (queue_address s kind) v
     in and_then (validate_queue_address (qr_queue_select q) kind candidate) (\<lambda>_.
        update_selected_queue q (\<lambda>s. set_address s kind candidate))))"

definition write_queue_address_low ::
    "virtio_mmio_queue_registers \<Rightarrow> queue_address_kind \<Rightarrow> u32 \<Rightarrow> u32 \<Rightarrow>
     (virtio_mmio_queue_registers, virtio_mmio_queue_register_error) result" where
  "write_queue_address_low = write_queue_address replace_address_low"

definition write_queue_address_high ::
    "virtio_mmio_queue_registers \<Rightarrow> queue_address_kind \<Rightarrow> u32 \<Rightarrow> u32 \<Rightarrow>
     (virtio_mmio_queue_registers, virtio_mmio_queue_register_error) result" where
  "write_queue_address_high = write_queue_address replace_address_high"

definition queue_write_register ::
    "virtio_mmio_queue_registers \<Rightarrow> virtio_mmio_register \<Rightarrow> u32 \<Rightarrow> u32 \<Rightarrow>
     (virtio_mmio_queue_registers, virtio_mmio_queue_register_error) result" where
  "queue_write_register q r v status =
     (case r of
        QueueSel \<Rightarrow> select_queue q v
      | QueueNum \<Rightarrow> write_queue_size q v status
      | QueueReady \<Rightarrow> write_queue_ready q v status
      | QueueDescLow \<Rightarrow> write_queue_address_low q DescriptorTable v status
      | QueueDescHigh \<Rightarrow> write_queue_address_high q DescriptorTable v status
      | QueueDriverLow \<Rightarrow> write_queue_address_low q DriverRing v status
      | QueueDriverHigh \<Rightarrow> write_queue_address_high q DriverRing v status
      | QueueDeviceLow \<Rightarrow> write_queue_address_low q DeviceRing v status
      | QueueDeviceHigh \<Rightarrow> write_queue_address_high q DeviceRing v status
      | _ \<Rightarrow> Err (Queue_UnsupportedRegisterWrite r))"

definition queue_registers_reset :: "virtio_mmio_queue_registers \<Rightarrow> virtio_mmio_queue_registers" where
  "queue_registers_reset q = q\<lparr>qr_queue_select := 0, qr_queues := map queue_state_reset (qr_queues q)\<rparr>"

section \<open>Queue notifications\<close>

record virtio_mmio_queue_notification_registers =
  nr_pending_notifications :: "bool list"

datatype virtio_mmio_queue_notification_error =
    Notify_EmptyQueueTable
  | Notify_InvalidQueueIndex u32 nat
  | Notify_UnsupportedRegisterRead virtio_mmio_register
  | Notify_UnsupportedRegisterWrite virtio_mmio_register
  | QueueNotifyNotWritable u32

definition notification_registers_new ::
    "nat \<Rightarrow> (virtio_mmio_queue_notification_registers, virtio_mmio_queue_notification_error) result" where
  "notification_registers_new queue_count =
     (if queue_count = 0 then Err Notify_EmptyQueueTable
      else Ok \<lparr>nr_pending_notifications = replicate queue_count False\<rparr>)"

definition pending_queue_notifications :: "virtio_mmio_queue_notification_registers \<Rightarrow> nat list" where
  "pending_queue_notifications n =
     map fst (filter snd (enumerate 0 (nr_pending_notifications n)))"

definition has_pending_queue_notifications :: "virtio_mmio_queue_notification_registers \<Rightarrow> bool" where
  "has_pending_queue_notifications n \<longleftrightarrow> list_ex (\<lambda>b. b) (nr_pending_notifications n)"

definition notification_reset ::
    "virtio_mmio_queue_notification_registers \<Rightarrow> virtio_mmio_queue_notification_registers" where
  "notification_reset n =
     n\<lparr>nr_pending_notifications := replicate (length (nr_pending_notifications n)) False\<rparr>"

definition take_pending_queue_notifications ::
    "virtio_mmio_queue_notification_registers \<Rightarrow> virtio_mmio_queue_notification_registers \<times> nat list" where
  "take_pending_queue_notifications n = (notification_reset n, pending_queue_notifications n)"

definition validate_queue_notification_status :: "u32 \<Rightarrow> (unit, virtio_mmio_queue_notification_error) result" where
  "validate_queue_notification_status status =
     (if status = VIRTIO_DEVICE_STATUS_ACKNOWLEDGE OR VIRTIO_DEVICE_STATUS_DRIVER OR VIRTIO_DEVICE_STATUS_FEATURES_OK \<or>
         status AND VIRTIO_DEVICE_STATUS_DRIVER_OK = VIRTIO_DEVICE_STATUS_DRIVER_OK
      then Ok () else Err (QueueNotifyNotWritable status))"

definition write_queue_notify ::
    "virtio_mmio_queue_notification_registers \<Rightarrow> u32 \<Rightarrow> u32 \<Rightarrow>
     (virtio_mmio_queue_notification_registers, virtio_mmio_queue_notification_error) result" where
  "write_queue_notify n queue_index status =
     and_then (validate_queue_notification_status status) (\<lambda>_.
       if unat queue_index < length (nr_pending_notifications n)
       then Ok (n\<lparr>nr_pending_notifications := (nr_pending_notifications n)[unat queue_index := True]\<rparr>)
       else Err (Notify_InvalidQueueIndex queue_index (length (nr_pending_notifications n))))"

definition notification_write_register ::
    "virtio_mmio_queue_notification_registers \<Rightarrow> virtio_mmio_register \<Rightarrow> u32 \<Rightarrow> u32 \<Rightarrow>
     (virtio_mmio_queue_notification_registers, virtio_mmio_queue_notification_error) result" where
  "notification_write_register n r v status =
     (case r of QueueNotify \<Rightarrow> write_queue_notify n v status | _ \<Rightarrow> Err (Notify_UnsupportedRegisterWrite r))"

section \<open>The register handler\<close>

datatype virtio_mmio_device_config_error =
    UnsupportedRead u64 nat
  | UnsupportedWrite u64 nat
  | ConfigHandler mmio_handler_error

datatype virtio_mmio_device_activation_error = ActivationHandler mmio_handler_error

datatype virtio_interrupt_intent = IntentQueue u16 | IntentConfiguration

datatype virtio_mmio_register_handler_error =
    QueueRegisterInitialization virtio_mmio_queue_register_error
  | QueueNotificationInitialization virtio_mmio_queue_notification_error
  | InvalidOperation mmio_operation_error
  | DecodeAccess virtio_mmio_access_error
  | RegisterReadData mmio_access_bytes_error
  | RegisterWriteDataLength nat
  | UnsupportedDeviceConfigRead u64 nat
  | UnsupportedDeviceConfigWrite u64 nat
  | DeviceConfigRead u64 nat virtio_mmio_device_config_error
  | DeviceConfigWrite u64 nat virtio_mmio_device_config_error
  | DeviceConfigReadDataLength u64 nat nat
  | DeviceConfigWriteNotWritable u32
  | DeviceActivation u32 virtio_mmio_device_activation_error
  | UnsupportedRegisterRead virtio_mmio_register
  | UnsupportedRegisterWrite virtio_mmio_register
  | DeviceRegisterRead virtio_mmio_register virtio_mmio_register_state_error
  | DeviceRegisterWrite virtio_mmio_register virtio_mmio_register_state_error
  | QueueRegisterRead virtio_mmio_register virtio_mmio_queue_register_error
  | QueueRegisterWrite virtio_mmio_register virtio_mmio_queue_register_error
  | QueueNotificationWrite virtio_mmio_register virtio_mmio_queue_notification_error
  | InterruptRegisterRead virtio_mmio_register virtio_mmio_interrupt_register_error
  | InterruptRegisterWrite virtio_mmio_register virtio_mmio_interrupt_register_error

text \<open>
  The operations of the device back end: reading and writing its configuration space, its
  activation with the negotiated registers, and its reset.
\<close>

record ('c, 'a) device_ops =
  op_read_device_config :: "'c \<Rightarrow> virtio_mmio_device_config_access \<Rightarrow>
    (mmio_access_bytes, virtio_mmio_device_config_error) result"
  op_write_device_config :: "'c \<Rightarrow> virtio_mmio_device_config_access \<Rightarrow> mmio_access_bytes \<Rightarrow>
    'c \<times> (unit, virtio_mmio_device_config_error) result"
  op_activate :: "'a \<Rightarrow> virtio_mmio_device_registers \<Rightarrow> virtio_mmio_queue_registers \<Rightarrow>
    'a \<times> (unit, virtio_mmio_device_activation_error) result"
  op_reset :: "'a \<Rightarrow> 'a"

record ('c, 'a) virtio_device_core =
  dc_device :: virtio_mmio_device_registers
  dc_queues :: virtio_mmio_queue_registers
  dc_queue_notifications :: virtio_mmio_queue_notification_registers
  dc_device_config :: 'c
  dc_activation :: 'a
  dc_device_activated :: bool
  dc_requires_device_config_write_status :: bool
  dc_interrupt_intents :: "virtio_interrupt_intent list"

record ('c, 'a) virtio_mmio_register_handler =
  rh_core :: "('c, 'a) virtio_device_core"
  rh_interrupts :: virtio_mmio_interrupt_registers

definition core_from_parts ::
    "virtio_mmio_device_registers \<Rightarrow> virtio_mmio_queue_registers \<Rightarrow> virtio_mmio_queue_notification_registers \<Rightarrow>
     'c \<Rightarrow> 'a \<Rightarrow> bool \<Rightarrow> ('c, 'a) virtio_device_core" where
  "core_from_parts device queues notifications config activation requires =
     \<lparr>dc_device = device, dc_queues = queues, dc_queue_notifications = notifications, dc_device_config = config,
      dc_activation = activation, dc_device_activated = False, dc_requires_device_config_write_status = requires,
      dc_interrupt_intents = []\<rparr>"

definition record_interrupt_intent ::
    "('c, 'a) virtio_device_core \<Rightarrow> virtio_interrupt_intent \<Rightarrow> ('c, 'a) virtio_device_core" where
  "record_interrupt_intent c intent =
     (if intent \<in> set (dc_interrupt_intents c) then c
      else c\<lparr>dc_interrupt_intents := dc_interrupt_intents c @ [intent]\<rparr>)"

definition take_interrupt_intents ::
    "('c, 'a) virtio_device_core \<Rightarrow> ('c, 'a) virtio_device_core \<times> virtio_interrupt_intent list" where
  "take_interrupt_intents c = (c\<lparr>dc_interrupt_intents := []\<rparr>, dc_interrupt_intents c)"

definition replace_common_state ::
    "('c, 'a) virtio_device_core \<Rightarrow> virtio_mmio_device_registers \<Rightarrow> virtio_mmio_queue_registers \<Rightarrow>
     virtio_mmio_queue_notification_registers \<Rightarrow> bool \<Rightarrow> ('c, 'a) virtio_device_core" where
  "replace_common_state c device queues notifications activated =
     c\<lparr>dc_device := device, dc_queues := queues, dc_queue_notifications := notifications,
       dc_device_activated := activated, dc_interrupt_intents := []\<rparr>"

definition reset_common_state ::
    "('c, 'a) device_ops \<Rightarrow> ('c, 'a) virtio_device_core \<Rightarrow> ('c, 'a) virtio_device_core" where
  "reset_common_state ops c =
     c\<lparr>dc_queues := queue_registers_reset (dc_queues c),
       dc_queue_notifications := notification_reset (dc_queue_notifications c),
       dc_device_activated := False, dc_interrupt_intents := [],
       dc_activation := op_reset ops (dc_activation c)\<rparr>"

definition register_handler_new ::
    "u32 \<Rightarrow> u32 \<Rightarrow> u64 \<Rightarrow> u32 \<Rightarrow> u16 list \<Rightarrow> 'c \<Rightarrow> 'a \<Rightarrow> bool \<Rightarrow>
     (('c, 'a) virtio_mmio_register_handler, virtio_mmio_register_handler_error) result" where
  "register_handler_new device_id vendor_id device_features config_generation sizes config activation requires =
     and_then (map_err QueueRegisterInitialization (queue_registers_new sizes)) (\<lambda>queues.
     and_then (map_err QueueNotificationInitialization (notification_registers_new (length (qr_queues queues))))
       (\<lambda>notifications.
     Ok \<lparr>rh_core = core_from_parts (device_registers_new device_id vendor_id device_features config_generation)
                      queues notifications config activation requires,
         rh_interrupts = interrupt_registers_new\<rparr>))"

definition update_core ::
    "(('c, 'a) virtio_device_core \<Rightarrow> ('c, 'a) virtio_device_core) \<Rightarrow>
     ('c, 'a) virtio_mmio_register_handler \<Rightarrow> ('c, 'a) virtio_mmio_register_handler" where
  "update_core f h = h\<lparr>rh_core := f (rh_core h)\<rparr>"

definition mark_interrupt_pending ::
    "('c, 'a) virtio_mmio_register_handler \<Rightarrow> device_interrupt_kind \<Rightarrow> ('c, 'a) virtio_mmio_register_handler" where
  "mark_interrupt_pending h kind = h\<lparr>rh_interrupts := mark_pending (rh_interrupts h) kind\<rparr>"

definition mark_queue_interrupt_pending ::
    "('c, 'a) virtio_mmio_register_handler \<Rightarrow> u16 \<Rightarrow> ('c, 'a) virtio_mmio_register_handler" where
  "mark_queue_interrupt_pending h queue_index =
     h\<lparr>rh_core := record_interrupt_intent (rh_core h) (IntentQueue queue_index),
       rh_interrupts := mark_pending (rh_interrupts h) QueueInterrupt\<rparr>"

definition mark_config_interrupt_pending ::
    "('c, 'a) virtio_mmio_register_handler \<Rightarrow> ('c, 'a) virtio_mmio_register_handler" where
  "mark_config_interrupt_pending h =
     h\<lparr>rh_core := record_interrupt_intent (rh_core h) IntentConfiguration,
       rh_interrupts := mark_pending (rh_interrupts h) ConfigInterrupt\<rparr>"

definition reset_active_state ::
    "('c, 'a) device_ops \<Rightarrow> ('c, 'a) virtio_mmio_register_handler \<Rightarrow> ('c, 'a) virtio_mmio_register_handler" where
  "reset_active_state ops h =
     h\<lparr>rh_interrupts := interrupt_reset (rh_interrupts h), rh_core := reset_common_state ops (rh_core h)\<rparr>"

definition handler_reset ::
    "('c, 'a) device_ops \<Rightarrow> ('c, 'a) virtio_mmio_register_handler \<Rightarrow> ('c, 'a) virtio_mmio_register_handler" where
  "handler_reset ops h = reset_active_state ops (update_core (\<lambda>c. c\<lparr>dc_device := device_reset (dc_device c)\<rparr>) h)"

definition handler_read_register ::
    "('c, 'a) virtio_mmio_register_handler \<Rightarrow> virtio_mmio_register \<Rightarrow>
     (u32, virtio_mmio_register_handler_error) result" where
  "handler_read_register h r =
     (if r \<in> {MagicValue, Version, DeviceId, VendorId, DeviceFeatures, Status, ConfigGeneration}
      then map_err (DeviceRegisterRead r) (device_read_register (dc_device (rh_core h)) r)
      else if r \<in> {QueueNumMax, QueueReady}
      then map_err (QueueRegisterRead r) (queue_read_register (dc_queues (rh_core h)) r)
      else if r = InterruptStatus
      then map_err (InterruptRegisterRead r) (interrupt_read_register (rh_interrupts h) r)
      else Err (UnsupportedRegisterRead r))"

definition activate_device ::
    "('c, 'a) device_ops \<Rightarrow> ('c, 'a) virtio_mmio_register_handler \<Rightarrow>
     ('c, 'a) virtio_mmio_register_handler \<times> (unit, virtio_mmio_register_handler_error) result" where
  "activate_device ops h =
     (let core = rh_core h
      in case op_activate ops (dc_activation core) (dc_device core) (dc_queues core) of
           (a, Ok _) \<Rightarrow> (h\<lparr>rh_core := core\<lparr>dc_activation := a, dc_device_activated := True\<rparr>\<rparr>, Ok ())
         | (a, Err e) \<Rightarrow>
             (let device = mark_device_needs_reset (dc_device core)
              in (h\<lparr>rh_core := core\<lparr>dc_activation := a, dc_device := device\<rparr>\<rparr>,
                  Err (DeviceActivation (dr_status device) e)))
         | (a, Panic) \<Rightarrow> (h\<lparr>rh_core := core\<lparr>dc_activation := a\<rparr>\<rparr>, Panic))"

definition write_device_register ::
    "('c, 'a) device_ops \<Rightarrow> ('c, 'a) virtio_mmio_register_handler \<Rightarrow> virtio_mmio_register \<Rightarrow> u32 \<Rightarrow>
     ('c, 'a) virtio_mmio_register_handler \<times> (unit, virtio_mmio_register_handler_error) result" where
  "write_device_register ops h r v =
     (case device_write_register (dc_device (rh_core h)) r v of
        Err e \<Rightarrow> (h, Err (DeviceRegisterWrite r e))
      | Panic \<Rightarrow> (h, Panic)
      | Ok device \<Rightarrow>
          (let h1 = update_core (\<lambda>c. c\<lparr>dc_device := device\<rparr>) h;
               h2 = (if r = Status \<and> v = VIRTIO_DEVICE_STATUS_INIT then reset_active_state ops h1 else h1)
           in if r = Status \<and> dr_status (dc_device (rh_core h2)) = VIRTIO_DEVICE_DRIVER_OK_STATUS \<and>
                 \<not> dc_device_activated (rh_core h2)
              then activate_device ops h2 else (h2, Ok ())))"

definition write_handler_interrupt_ack ::
    "('c, 'a) virtio_mmio_register_handler \<Rightarrow> virtio_mmio_register \<Rightarrow> u32 \<Rightarrow>
     ('c, 'a) virtio_mmio_register_handler \<times> (unit, virtio_mmio_register_handler_error) result" where
  "write_handler_interrupt_ack h r v =
     (case interrupt_write_register (rh_interrupts h) r v (dr_status (dc_device (rh_core h))) of
        Err e \<Rightarrow> (h, Err (InterruptRegisterWrite r e))
      | Panic \<Rightarrow> (h, Panic)
      | Ok i \<Rightarrow>
          (let h1 = h\<lparr>rh_interrupts := i\<rparr>
           in case status_from_bits v of
                Ok acknowledged \<Rightarrow>
                  (update_core (\<lambda>c. c\<lparr>dc_interrupt_intents := filter (\<lambda>intent. case intent of
                       IntentQueue _ \<Rightarrow> \<not> status_contains acknowledged QueueInterrupt
                     | IntentConfiguration \<Rightarrow> \<not> status_contains acknowledged ConfigInterrupt)
                     (dc_interrupt_intents c)\<rparr>) h1, Ok ())
              | _ \<Rightarrow> (h1, Ok ())))"

definition handler_write_register ::
    "('c, 'a) device_ops \<Rightarrow> ('c, 'a) virtio_mmio_register_handler \<Rightarrow> virtio_mmio_register \<Rightarrow> u32 \<Rightarrow>
     ('c, 'a) virtio_mmio_register_handler \<times> (unit, virtio_mmio_register_handler_error) result" where
  "handler_write_register ops h r v =
     (let status = dr_status (dc_device (rh_core h))
      in if r \<in> {DeviceFeaturesSel, DriverFeatures, DriverFeaturesSel, Status}
         then write_device_register ops h r v
         else if r \<in> {QueueSel, QueueNum, QueueReady, QueueDescLow, QueueDescHigh, QueueDriverLow, QueueDriverHigh,
                      QueueDeviceLow, QueueDeviceHigh}
         then (case queue_write_register (dc_queues (rh_core h)) r v status of
                 Ok q \<Rightarrow> (update_core (\<lambda>c. c\<lparr>dc_queues := q\<rparr>) h, Ok ())
               | Err e \<Rightarrow> (h, Err (QueueRegisterWrite r e))
               | Panic \<Rightarrow> (h, Panic))
         else if r = QueueNotify
         then (case notification_write_register (dc_queue_notifications (rh_core h)) r v status of
                 Ok n \<Rightarrow> (update_core (\<lambda>c. c\<lparr>dc_queue_notifications := n\<rparr>) h, Ok ())
               | Err e \<Rightarrow> (h, Err (QueueNotificationWrite r e))
               | Panic \<Rightarrow> (h, Panic))
         else if r = InterruptAck then write_handler_interrupt_ack h r v
         else (h, Err (UnsupportedRegisterWrite r)))"

definition map_device_config_read_error ::
    "virtio_mmio_device_config_access \<Rightarrow> virtio_mmio_device_config_error \<Rightarrow> virtio_mmio_register_handler_error" where
  "map_device_config_read_error a e =
     (case e of UnsupportedRead _ _ \<Rightarrow> UnsupportedDeviceConfigRead (ca_offset a) (ca_len a)
      | _ \<Rightarrow> DeviceConfigRead (ca_offset a) (ca_len a) e)"

definition map_device_config_write_error ::
    "virtio_mmio_device_config_access \<Rightarrow> virtio_mmio_device_config_error \<Rightarrow> virtio_mmio_register_handler_error" where
  "map_device_config_write_error a e =
     (case e of UnsupportedWrite _ _ \<Rightarrow> UnsupportedDeviceConfigWrite (ca_offset a) (ca_len a)
      | _ \<Rightarrow> DeviceConfigWrite (ca_offset a) (ca_len a) e)"

definition read_device_config ::
    "('c, 'a) device_ops \<Rightarrow> ('c, 'a) virtio_mmio_register_handler \<Rightarrow> virtio_mmio_device_config_access \<Rightarrow>
     (mmio_access_bytes, virtio_mmio_register_handler_error) result" where
  "read_device_config ops h a =
     and_then (map_err (map_device_config_read_error a)
                (op_read_device_config ops (dc_device_config (rh_core h)) a)) (\<lambda>data.
       if mab_len data = ca_len a then Ok data
       else Err (DeviceConfigReadDataLength (ca_offset a) (ca_len a) (mab_len data)))"

definition validate_device_config_write_status :: "u32 \<Rightarrow> (unit, virtio_mmio_register_handler_error) result" where
  "validate_device_config_write_status status =
     (if status AND VIRTIO_DEVICE_STATUS_DRIVER = VIRTIO_DEVICE_STATUS_DRIVER \<and>
         status AND (VIRTIO_DEVICE_STATUS_FAILED OR VIRTIO_DEVICE_STATUS_DEVICE_NEEDS_RESET) = 0
      then Ok () else Err (DeviceConfigWriteNotWritable status))"

definition write_device_config ::
    "('c, 'a) device_ops \<Rightarrow> ('c, 'a) virtio_mmio_register_handler \<Rightarrow> virtio_mmio_device_config_access \<Rightarrow>
     mmio_access_bytes \<Rightarrow> ('c, 'a) virtio_mmio_register_handler \<times> (unit, virtio_mmio_register_handler_error) result" where
  "write_device_config ops h a data =
     (case (if dc_requires_device_config_write_status (rh_core h)
            then validate_device_config_write_status (dr_status (dc_device (rh_core h))) else Ok ()) of
        Ok _ \<Rightarrow>
          (case op_write_device_config ops (dc_device_config (rh_core h)) a data of
             (c, res) \<Rightarrow> (update_core (\<lambda>core. core\<lparr>dc_device_config := c\<rparr>) h,
                           map_err (map_device_config_write_error a) res))
      | Err e \<Rightarrow> (h, Err e)
      | Panic \<Rightarrow> (h, Panic))"

definition register_read_data :: "u32 \<Rightarrow> (mmio_access_bytes, virtio_mmio_register_handler_error) result" where
  "register_read_data v = map_err RegisterReadData (access_bytes_new (to_le_bytes v))"

definition register_write_value :: "mmio_access_bytes \<Rightarrow> (u32, virtio_mmio_register_handler_error) result" where
  "register_write_value data =
     (let bytes = access_bytes_as_slice data
      in if length bytes = VIRTIO_MMIO_REGISTER_ACCESS_SIZE then Ok (from_le_bytes bytes)
         else Err (RegisterWriteDataLength (mab_len data)))"

definition read_access ::
    "('c, 'a) device_ops \<Rightarrow> ('c, 'a) virtio_mmio_register_handler \<Rightarrow> mmio_access \<Rightarrow>
     (mmio_access_bytes, virtio_mmio_register_handler_error) result" where
  "read_access ops h a =
     and_then (map_err InvalidOperation (mmio_operation_read a)) (\<lambda>op.
     and_then (map_err DecodeAccess (decode_virtio_mmio_access op)) (\<lambda>decoded.
       case decoded of
         RegisterAccess kind r \<Rightarrow> and_then (handler_read_register h r) register_read_data
       | DeviceConfigAccess ca \<Rightarrow> read_device_config ops h ca))"

definition write_access ::
    "('c, 'a) device_ops \<Rightarrow> ('c, 'a) virtio_mmio_register_handler \<Rightarrow> mmio_access \<Rightarrow> mmio_access_bytes \<Rightarrow>
     ('c, 'a) virtio_mmio_register_handler \<times> (unit, virtio_mmio_register_handler_error) result" where
  "write_access ops h a data =
     (case and_then (map_err InvalidOperation (mmio_operation_write a data))
             (\<lambda>op. map_err DecodeAccess (decode_virtio_mmio_access op)) of
        Ok (RegisterAccess kind r) \<Rightarrow>
          (case register_write_value data of
             Ok v \<Rightarrow> handler_write_register ops h r v
           | Err e \<Rightarrow> (h, Err e)
           | Panic \<Rightarrow> (h, Panic))
      | Ok (DeviceConfigAccess ca) \<Rightarrow> write_device_config ops h ca data
      | Err e \<Rightarrow> (h, Err e)
      | Panic \<Rightarrow> (h, Panic))"

text \<open>The handler behind the MMIO dispatcher.\<close>

definition virtio_handler_read ::
    "('c, 'a) device_ops \<Rightarrow> (virtio_mmio_register_handler_error \<Rightarrow> string) \<Rightarrow>
     ('c, 'a) virtio_mmio_register_handler handler_read" where
  "virtio_handler_read ops display h a = (h, map_err (\<lambda>e. MmioHandlerError (display e)) (read_access ops h a))"

definition virtio_handler_write ::
    "('c, 'a) device_ops \<Rightarrow> (virtio_mmio_register_handler_error \<Rightarrow> string) \<Rightarrow>
     ('c, 'a) virtio_mmio_register_handler handler_write" where
  "virtio_handler_write ops display h a data =
     (case write_access ops h a data of (h', res) \<Rightarrow> (h', map_err (\<lambda>e. MmioHandlerError (display e)) res))"

section \<open>Transport state of a snapshot\<close>

record virtio_mmio_transport_state =
  ts_device :: virtio_mmio_device_registers
  ts_queue_select :: u32
  ts_queues :: "virtio_mmio_queue_state list"
  ts_pending_notifications :: "bool list"
  ts_interrupt_status :: device_interrupt_status
  ts_device_activated :: bool
  ts_requires_device_config_write_status :: bool

datatype virtio_mmio_transport_state_error =
    DeviceIdentityMismatch
  | AvailableFeaturesMismatch
  | UnsupportedFeatureSelector
  | UnsupportedTransportDriverFeatures
  | MissingVersionOneDriverFeature
  | UnhealthyDeviceStatus
  | ActivationMismatch
  | DeviceConfigWritePolicyMismatch
  | QueueCountMismatch
  | QueueSelectorOutOfBounds
  | QueueMaxSizeMismatch
  | InvalidTransportQueueSize
  | ReadyQueueWithoutSize
  | QueueStateBeforeFeaturesOk
  | UnalignedTransportQueueAddress
  | NotificationCountMismatch
  | NotificationBeforeActivation

definition transport_state :: "('c, 'a) virtio_mmio_register_handler \<Rightarrow> virtio_mmio_transport_state" where
  "transport_state h =
     \<lparr>ts_device = dc_device (rh_core h), ts_queue_select = qr_queue_select (dc_queues (rh_core h)),
      ts_queues = qr_queues (dc_queues (rh_core h)),
      ts_pending_notifications = nr_pending_notifications (dc_queue_notifications (rh_core h)),
      ts_interrupt_status = ir_pending_status (rh_interrupts h),
      ts_device_activated = dc_device_activated (rh_core h),
      ts_requires_device_config_write_status = dc_requires_device_config_write_status (rh_core h)\<rparr>"

definition is_reachable_healthy_status :: "u32 \<Rightarrow> bool" where
  "is_reachable_healthy_status status \<longleftrightarrow>
     status = VIRTIO_DEVICE_STATUS_INIT \<or> status = VIRTIO_DEVICE_STATUS_ACKNOWLEDGE \<or>
     status = VIRTIO_DEVICE_STATUS_ACKNOWLEDGE OR VIRTIO_DEVICE_STATUS_DRIVER \<or>
     status = VIRTIO_DEVICE_STATUS_ACKNOWLEDGE OR VIRTIO_DEVICE_STATUS_DRIVER OR VIRTIO_DEVICE_STATUS_FEATURES_OK \<or>
     status = VIRTIO_DEVICE_DRIVER_OK_STATUS"

definition status_has_driver :: "u32 \<Rightarrow> bool" where
  "status_has_driver status \<longleftrightarrow> status AND VIRTIO_DEVICE_STATUS_DRIVER \<noteq> 0"

definition status_has_features_ok :: "u32 \<Rightarrow> bool" where
  "status_has_features_ok status \<longleftrightarrow> status AND VIRTIO_DEVICE_STATUS_FEATURES_OK \<noteq> 0"

fun validate_transport_addresses ::
    "u32 \<Rightarrow> virtio_mmio_queue_state \<Rightarrow> queue_address_kind list \<Rightarrow> (unit, virtio_mmio_transport_state_error) result" where
  "validate_transport_addresses i q [] = Ok ()"
| "validate_transport_addresses i q (kind # kinds) =
     and_then (map_err (\<lambda>_. UnalignedTransportQueueAddress) (validate_queue_address i kind (queue_address q kind)))
       (\<lambda>_. validate_transport_addresses i q kinds)"

definition validate_transport_queue ::
    "u32 \<Rightarrow> nat \<Rightarrow> virtio_mmio_queue_state \<Rightarrow> virtio_mmio_queue_state \<Rightarrow> (unit, virtio_mmio_transport_state_error) result" where
  "validate_transport_queue status i q expected =
     (if qs_max_size q \<noteq> qs_max_size expected then Err QueueMaxSizeMismatch
      else and_then (map_err (\<lambda>_. QueueMaxSizeMismatch) (validate_queue_max_size i (qs_max_size q))) (\<lambda>_.
      and_then (if qs_size q \<noteq> 0
                then if 2 ^ 32 \<le> i then Err QueueCountMismatch
                     else map_err (\<lambda>_. InvalidTransportQueueSize)
                            (and_then (validate_register_queue_size (of_nat i) (ucast (qs_size q)) (qs_max_size q)) (\<lambda>_. Ok ()))
                else Ok ()) (\<lambda>_.
      if qs_ready q \<and> qs_size q = 0 then Err ReadyQueueWithoutSize
      else and_then (if 2 ^ 32 \<le> i then Err QueueCountMismatch
                     else validate_transport_addresses (of_nat i) q [DescriptorTable, DriverRing, DeviceRing]) (\<lambda>_.
      if \<not> status_has_features_ok status \<and>
         (qs_size q \<noteq> 0 \<or> qs_ready q \<or> qs_descriptor_table q \<noteq> 0 \<or> qs_driver_ring q \<noteq> 0 \<or> qs_device_ring q \<noteq> 0)
      then Err QueueStateBeforeFeaturesOk else Ok ()))))"

fun validate_transport_queues ::
    "u32 \<Rightarrow> nat \<Rightarrow> (virtio_mmio_queue_state \<times> virtio_mmio_queue_state) list \<Rightarrow>
     (unit, virtio_mmio_transport_state_error) result" where
  "validate_transport_queues status i [] = Ok ()"
| "validate_transport_queues status i ((q, expected) # qs) =
     and_then (validate_transport_queue status i q expected) (\<lambda>_. validate_transport_queues status (Suc i) qs)"

text \<open>The checks on the device registers, then those on the queues and notifications.\<close>

definition validate_transport_device ::
    "('c, 'a) virtio_mmio_register_handler \<Rightarrow> virtio_mmio_transport_state \<Rightarrow> bool \<Rightarrow>
     (unit, virtio_mmio_transport_state_error) result" where
  "validate_transport_device h s active =
     (let d = ts_device s; hd = dc_device (rh_core h)
      in if dr_device_id d \<noteq> dr_device_id hd \<or> dr_vendor_id d \<noteq> dr_vendor_id hd then Err DeviceIdentityMismatch
         else if dr_device_features d \<noteq> dr_device_features hd then Err AvailableFeaturesMismatch
         else if VIRTIO_MMIO_FEATURE_SELECTOR_MAX < dr_device_features_select d \<or>
                 VIRTIO_MMIO_FEATURE_SELECTOR_MAX < dr_driver_features_select d
         then Err UnsupportedFeatureSelector
         else if dr_driver_features d AND NOT (dr_device_features d) \<noteq> 0 then Err UnsupportedTransportDriverFeatures
         else if \<not> is_reachable_healthy_status (dr_status d) then Err UnhealthyDeviceStatus
         else if status_has_features_ok (dr_status d) \<and> dr_driver_features d AND VIRTIO_MMIO_VERSION_1_FEATURE = 0
         then Err MissingVersionOneDriverFeature
         else if \<not> status_has_driver (dr_status d) \<and> dr_driver_features d \<noteq> 0
         then Err UnsupportedTransportDriverFeatures
         else if ts_device_activated s \<noteq> (dr_status d = VIRTIO_DEVICE_DRIVER_OK_STATUS) \<or>
                 ts_device_activated s \<noteq> active
         then Err ActivationMismatch
         else if ts_requires_device_config_write_status s \<noteq> dc_requires_device_config_write_status (rh_core h)
         then Err DeviceConfigWritePolicyMismatch
         else Ok ())"

definition validate_transport_state ::
    "('c, 'a) virtio_mmio_register_handler \<Rightarrow> virtio_mmio_transport_state \<Rightarrow> bool \<Rightarrow>
     (unit, virtio_mmio_transport_state_error) result" where
  "validate_transport_state h s active =
     (let expected = qr_queues (dc_queues (rh_core h))
      in and_then (validate_transport_device h s active) (\<lambda>_.
         if length (ts_queues s) \<noteq> length expected then Err QueueCountMismatch
         else if length (ts_queues s) \<le> unat (ts_queue_select s) then Err QueueSelectorOutOfBounds
         else and_then (validate_transport_queues (dr_status (ts_device s)) 0 (zip (ts_queues s) expected)) (\<lambda>_.
         if length (ts_pending_notifications s) \<noteq> length (ts_queues s) then Err NotificationCountMismatch
         else if \<not> ts_device_activated s \<and> list_ex (\<lambda>b. b) (ts_pending_notifications s)
         then Err NotificationBeforeActivation
         else Ok ())))"

definition restore_transport_state ::
    "('c, 'a) virtio_mmio_register_handler \<Rightarrow> virtio_mmio_transport_state \<Rightarrow> bool \<Rightarrow>
     ('c, 'a) virtio_mmio_register_handler \<times> (unit, virtio_mmio_transport_state_error) result" where
  "restore_transport_state h s active =
     (case validate_transport_state h s active of
        Ok _ \<Rightarrow>
          (h\<lparr>rh_core := replace_common_state (rh_core h) (ts_device s)
               \<lparr>qr_queue_select = ts_queue_select s, qr_queues = ts_queues s\<rparr>
               \<lparr>nr_pending_notifications = ts_pending_notifications s\<rparr> (ts_device_activated s),
             rh_interrupts := \<lparr>ir_pending_status = ts_interrupt_status s\<rparr>\<rparr>, Ok ())
      | Err e \<Rightarrow> (h, Err e)
      | Panic \<Rightarrow> (h, Panic))"

end
