(* ===== verification/Virtio_Mmio_Invariant.thy ===== *)
theory Virtio_Mmio_Invariant
  imports Virtio_Mmio
begin

text \<open>
  The invariant of the virtio-mmio transport: well-formed device, queue and notification registers,
  what each register write does to them, the runs of the transport (guest accesses and device
  events) and what every run keeps.
\<close>

section \<open>Statuses\<close>

definition status_reachable :: "u32 \<Rightarrow> bool" where
  "status_reachable s \<longleftrightarrow> s \<in> {0, 1, 3, 11, 15, 0x80, 0x81, 0x83, 0x8b, 0x8f, 0x4f, 0xcf}"

lemma status_values:
  "VIRTIO_DEVICE_STATUS_ACKNOWLEDGE OR VIRTIO_DEVICE_STATUS_DRIVER = 3"
  "VIRTIO_DEVICE_STATUS_ACKNOWLEDGE OR VIRTIO_DEVICE_STATUS_DRIVER OR VIRTIO_DEVICE_STATUS_FEATURES_OK = 11"
  "VIRTIO_DEVICE_DRIVER_OK_STATUS = 15"
  by (simp_all add: status_consts)

lemma valid_transition_iff:
  "is_valid_status_transition s t \<longleftrightarrow> (s, t) \<in> {(0, 1), (1, 3), (3, 11), (11, 15)}"
  by (auto simp: is_valid_status_transition_def status_consts Let_def)

lemma set_status_cases:
  assumes "set_status d v = Ok d'"
  obtains (failed) "v \<noteq> 0" and "d' = d\<lparr>dr_status := dr_status d OR 0x80\<rparr>"
  | (reset) "v = 0" and "d' = device_reset d"
  | (advance) "v \<noteq> 0" and "d' = d\<lparr>dr_status := v\<rparr>" and "(dr_status d, v) \<in> {(0, 1), (1, 3), (3, 11), (11, 15)}"
proof (cases "v = 0")
  case True
  then show thesis
    using assms reset by (simp add: set_status_def VIRTIO_DEVICE_STATUS_INIT_def)
next
  case False
  then show thesis
    using assms failed advance by (auto simp: set_status_def valid_transition_iff VIRTIO_DEVICE_STATUS_INIT_def
        VIRTIO_DEVICE_STATUS_FAILED_def split: if_splits)
qed

lemma status_has:
  "status_has_driver s \<longleftrightarrow> s AND 2 \<noteq> 0" "status_has_features_ok s \<longleftrightarrow> s AND 8 \<noteq> 0"
  by (simp_all add: status_has_driver_def status_has_features_ok_def status_consts)

lemma reachable_failed: "status_reachable s \<Longrightarrow> status_reachable (s OR 0x80)"
  by (auto simp: status_reachable_def)

lemma has_failed:
  "status_has_driver (s OR 0x80) \<longleftrightarrow> status_has_driver s"
  "status_has_features_ok (s OR 0x80) \<longleftrightarrow> status_has_features_ok s"
  by (simp_all add: status_has bit.conj_disj_distrib2)

section \<open>Device registers\<close>

definition device_wf :: "virtio_mmio_device_registers \<Rightarrow> bool" where
  "device_wf d \<longleftrightarrow> status_reachable (dr_status d) \<and>
     dr_device_features_select d \<le> 1 \<and> dr_driver_features_select d \<le> 1 \<and>
     dr_driver_features d AND NOT (dr_device_features d) = 0 \<and>
     dr_device_features d AND VIRTIO_MMIO_VERSION_1_FEATURE \<noteq> 0 \<and>
     (status_has_driver (dr_status d) \<or> dr_driver_features d = 0)"

lemma device_registers_new_wf: "device_wf (device_registers_new i v f g)"
proof -
  have "(f OR push_bit 32 1) AND push_bit 32 1 \<noteq> (0 :: u64)"
  proof
    assume "(f OR push_bit 32 1) AND push_bit 32 1 = (0 :: u64)"
    then have "bit ((f OR push_bit 32 1) AND push_bit 32 1) 32 = bit (0 :: u64) 32" by simp
    then show False by (simp add: bit_simps)
  qed
  then show ?thesis
    by (simp add: device_wf_def device_registers_new_def status_reachable_def
        VIRTIO_DEVICE_STATUS_INIT_def VIRTIO_MMIO_VERSION_1_FEATURE_def)
qed

lemma device_reset_wf: "device_wf d \<Longrightarrow> device_wf (device_reset d)"
  by (simp add: device_wf_def device_reset_def status_reachable_def VIRTIO_DEVICE_STATUS_INIT_def)

lemma set_status_wf: "device_wf d \<Longrightarrow> set_status d v = Ok d' \<Longrightarrow> device_wf d'"
proof (erule set_status_cases)
  assume wf: "device_wf d" and "d' = d\<lparr>dr_status := dr_status d OR 0x80\<rparr>"
  then show "device_wf d'" by (simp add: device_wf_def reachable_failed has_failed)
next
  assume wf: "device_wf d" and "d' = d\<lparr>dr_status := v\<rparr>"
    and "(dr_status d, v) \<in> {(0, 1), (1, 3), (3, 11), (11, 15)}"
  then show "device_wf d'" by (auto simp: device_wf_def status_reachable_def status_has)
qed (simp add: device_reset_wf)

text \<open>A page of accepted features stays within the device's features.\<close>

lemma selected_features_subset:
  assumes "feature_word f s = Ok supported" and "v AND NOT supported = 0" and "selected_feature_bits s v = Ok b"
  shows "b AND NOT f = 0"
proof -
  have sub: "bit v n \<Longrightarrow> bit supported n" for n
  proof (rule ccontr)
    assume v: "bit v n" and n: "\<not> bit supported n"
    then have "bit (v AND NOT supported) n" by (auto simp: bit_simps dest: bit_imp_le_length)
    then show False using assms(2) by simp
  qed
  have lt: "n < 32" if "bit v n" for n using bit_imp_le_length [OF that] by simp
  show ?thesis
  proof (cases "s = 0")
    case True
    then show ?thesis
      using assms(1,3) sub lt unfolding feature_word_def selected_feature_bits_def
      by (intro bit_word_eqI) (auto simp: bit_simps)
  next
    case False
    then have "supported = ucast (drop_bit 32 f)" "b = push_bit 32 (ucast v)"
      using assms(1,3) by (auto simp: feature_word_def selected_feature_bits_def split: if_splits)
    moreover have "bit f n" if "32 \<le> n" and "bit v (n - 32)" for n
      using sub [OF that(2)] that(1) calculation(1) by (simp add: bit_simps)
    ultimately show ?thesis
      by (intro bit_word_eqI) (auto simp: bit_simps)
  qed
qed

lemma write_driver_features_wf:
  assumes "device_wf d" and "write_driver_features d v = Ok d'"
  shows "device_wf d'"
proof -
  obtain supported bits where fw: "feature_word (dr_device_features d) (dr_driver_features_select d) = Ok supported"
    and sub: "v AND NOT supported = 0"
    and sel: "selected_feature_bits (dr_driver_features_select d) v = Ok bits"
    and d': "d' = d\<lparr>dr_driver_features := dr_driver_features d OR bits\<rparr>" and can: "can_write_driver_features d"
    using assms(2) by (auto simp: write_driver_features_def and_then_Ok_iff Let_def split: if_splits)
  have "status_has_driver (dr_status d)"
    using can assms(1) unfolding device_wf_def
    by (auto simp: can_write_driver_features_def status_consts status_reachable_def status_has)
  then show ?thesis
    using assms(1) selected_features_subset [OF fw sub sel]
    by (simp add: device_wf_def d' bit.conj_disj_distrib2)
qed

lemma device_write_register_wf:
  assumes wf: "device_wf d" and w: "device_write_register d r v = Ok d'"
  shows "device_wf d'"
proof -
  consider "r = DriverFeatures" | "r = Status"
    | "v \<le> 1" "d' = d\<lparr>dr_device_features_select := v\<rparr> \<or> d' = d\<lparr>dr_driver_features_select := v\<rparr>"
    using w by (cases r) (simp_all add: device_write_register_def and_then_Ok_iff validate_feature_selector_def
        VIRTIO_MMIO_FEATURE_SELECTOR_MAX_def split: if_splits)
  then show ?thesis
  proof cases
    case 1
    then show ?thesis using w write_driver_features_wf [OF wf] by (simp add: device_write_register_def)
  next
    case 2
    then show ?thesis using w set_status_wf [OF wf] by (simp add: device_write_register_def)
  next
    case 3
    then show ?thesis using wf by (auto simp: device_wf_def)
  qed
qed

lemma device_write_register_identity:
  assumes "device_write_register d r v = Ok d'"
  shows "dr_device_id d' = dr_device_id d" "dr_vendor_id d' = dr_vendor_id d"
    "dr_device_features d' = dr_device_features d" "dr_config_generation d' = dr_config_generation d"
    "r \<noteq> Status \<Longrightarrow> dr_status d' = dr_status d"
  using assms
  by (cases r; auto simp: device_write_register_def and_then_Ok_iff write_driver_features_def set_status_def
      device_reset_def Let_def split: if_splits)+

section \<open>Queue registers\<close>

definition queue_wf :: "virtio_mmio_queue_state \<Rightarrow> bool" where
  "queue_wf q \<longleftrightarrow> is_power_of_two (qs_max_size q) \<and>
     (qs_size q = 0 \<or> is_power_of_two (qs_size q) \<and> qs_size q \<le> qs_max_size q) \<and>
     (\<forall>kind. is_multiple_of (queue_address q kind) (address_alignment kind))"

definition queue_idle :: "virtio_mmio_queue_state \<Rightarrow> bool" where
  "queue_idle q \<longleftrightarrow> q = queue_state_new (qs_max_size q)"

definition queues_wf :: "virtio_mmio_queue_registers \<Rightarrow> bool" where
  "queues_wf q \<longleftrightarrow> unat (qr_queue_select q) < length (qr_queues q) \<and> (\<forall>s\<in>set (qr_queues q). queue_wf s)"

lemma power_of_two_nonzero: "is_power_of_two a \<Longrightarrow> a \<noteq> 0"
  by (simp add: is_power_of_two_def)

lemma zero_not_power_of_two [simp]: "\<not> is_power_of_two 0"
  by (simp add: is_power_of_two_def)

lemma validate_queue_address_Ok:
  "validate_queue_address i kind a = Ok () \<longleftrightarrow> is_multiple_of a (address_alignment kind)"
  by (cases kind) (simp_all add: validate_queue_address_def is_aligned_def validate_alignment_def
      is_power_of_two_def)

lemma validate_queue_address_not_Panic [simp]: "validate_queue_address i kind a \<noteq> Panic"
  by (simp add: validate_queue_address_def Let_def)

lemma queue_address_set:
  "queue_address (set_address q kind a) kind' = (if kind' = kind then a else queue_address q kind')"
  "qs_size (set_address q kind a) = qs_size q" "qs_max_size (set_address q kind a) = qs_max_size q"
  "qs_ready (set_address q kind a) = qs_ready q"
  by (cases kind; cases kind'; simp)+

lemma queue_state_new_wf: "is_power_of_two m \<Longrightarrow> queue_wf (queue_state_new m)"
proof -
  have "queue_address (queue_state_new m) kind = 0" for kind
    by (cases kind) (simp_all add: queue_state_new_def)
  moreover assume "is_power_of_two m"
  ultimately show ?thesis
    by (simp add: queue_wf_def is_multiple_of_nat) (simp add: queue_state_new_def)
qed

lemma queue_idle_new [simp]: "queue_idle (queue_state_new m)"
  by (simp add: queue_idle_def queue_state_new_def)

lemma queue_state_reset_new: "queue_state_reset q = queue_state_new (qs_max_size q)"
  by (simp add: queue_state_reset_def queue_state_new_def)

lemma queue_states_new_Ok:
  "queue_states_new i sizes = Ok qs \<longleftrightarrow> (\<forall>m\<in>set sizes. is_power_of_two m) \<and> qs = map queue_state_new sizes"
  by (induction sizes arbitrary: i qs)
     (auto simp: and_then_Ok_iff validate_queue_max_size_def power_of_two_nonzero)

lemma queue_registers_new_Ok:
  "queue_registers_new sizes = Ok q \<longleftrightarrow> sizes \<noteq> [] \<and> (\<forall>m\<in>set sizes. is_power_of_two m) \<and>
     q = \<lparr>qr_queue_select = 0, qr_queues = map queue_state_new sizes\<rparr>"
  by (auto simp: queue_registers_new_def and_then_Ok_iff queue_states_new_Ok)

lemma queues_reset_wf: "queues_wf q \<Longrightarrow> queues_wf (queue_registers_reset q)"
  by (auto simp: queues_wf_def queue_registers_reset_def queue_state_reset_new queue_wf_def
      intro!: queue_state_new_wf [unfolded queue_wf_def])

lemma queues_reset_idle: "\<forall>s\<in>set (qr_queues (queue_registers_reset q)). queue_idle s"
  by (auto simp: queue_registers_reset_def queue_state_reset_new)

text \<open>The successful writes of the queue registers change the selected queue or the selection.\<close>

lemma selected_queue_wf: "queues_wf q \<Longrightarrow> selected_queue q = Ok (qr_queues q ! unat (qr_queue_select q))"
  by (simp add: selected_queue_def queue_register_index_def queues_wf_def)

lemma update_selected_queue_wf:
  "queues_wf q \<Longrightarrow> update_selected_queue q f =
     Ok (q\<lparr>qr_queues := (qr_queues q)[unat (qr_queue_select q) := f (qr_queues q ! unat (qr_queue_select q))]\<rparr>)"
  by (simp add: update_selected_queue_def queue_register_index_def queues_wf_def)

lemma selected_wf: "queues_wf q \<Longrightarrow> queue_wf (qr_queues q ! unat (qr_queue_select q))"
  by (simp add: queues_wf_def)

lemma updated_queues_wf:
  assumes "queues_wf q" and "queue_wf s"
  shows "queues_wf (q\<lparr>qr_queues := (qr_queues q)[unat (qr_queue_select q) := s]\<rparr>)"
  using assms by (auto simp: queues_wf_def dest!: set_update_subset_insert [THEN subsetD])

lemma validate_register_queue_size_Ok:
  "validate_register_queue_size i v m = Ok s \<longleftrightarrow>
     try_from v = Some s \<and> is_power_of_two s \<and> s \<le> m"
  by (auto simp: validate_register_queue_size_def and_then_Ok_iff power_of_two_nonzero)

lemma write_queue_address_Ok:
  assumes "queues_wf q" and "write_queue_address replace q kind v status = Ok q'"
  shows "status = 11" and "\<exists>a. a = replace (queue_address (qr_queues q ! unat (qr_queue_select q)) kind) v \<and>
    is_multiple_of a (address_alignment kind) \<and>
    q' = q\<lparr>qr_queues := (qr_queues q)[unat (qr_queue_select q) :=
       set_address (qr_queues q ! unat (qr_queue_select q)) kind a]\<rparr>"
  using assms(2)
  by (auto simp: write_queue_address_def and_then_Ok_iff Let_def selected_queue_wf [OF assms(1)]
      update_selected_queue_wf [OF assms(1)] validate_queue_address_Ok validate_queue_config_status_def
      status_values split: if_splits)

lemma write_queue_address_wf:
  assumes "queues_wf q" and "write_queue_address replace q kind v status = Ok q'"
  shows "queues_wf q'"
  using write_queue_address_Ok [OF assms] selected_wf [OF assms(1)] assms(1)
  by (auto intro!: updated_queues_wf simp: queue_wf_def queue_address_set)

lemma write_queue_size_Ok:
  assumes "queues_wf q" and "write_queue_size q v status = Ok q'"
  shows "status = 11" and "\<exists>n. is_power_of_two n \<and> n \<le> qs_max_size (qr_queues q ! unat (qr_queue_select q)) \<and>
    q' = q\<lparr>qr_queues := (qr_queues q)[unat (qr_queue_select q) :=
       (qr_queues q ! unat (qr_queue_select q))\<lparr>qs_size := n\<rparr>]\<rparr>"
  using assms(2)
  by (auto simp: write_queue_size_def and_then_Ok_iff selected_queue_wf [OF assms(1)]
      update_selected_queue_wf [OF assms(1)] validate_register_queue_size_Ok validate_queue_config_status_def
      status_values split: if_splits)

lemma write_queue_ready_Ok:
  assumes "queues_wf q" and "write_queue_ready q v status = Ok q'"
  shows "status = 11 \<or> status = 0 \<and> v = 0" and "q' = q\<lparr>qr_queues := (qr_queues q)[unat (qr_queue_select q) :=
       (qr_queues q ! unat (qr_queue_select q))\<lparr>qs_ready := v = 1\<rparr>]\<rparr>"
  using assms(2)
  by (auto simp: write_queue_ready_def and_then_Ok_iff update_selected_queue_wf [OF assms(1)]
      validate_queue_config_status_def validate_queue_ready_value_def status_values
      VIRTIO_DEVICE_STATUS_INIT_def split: if_splits)

lemma queue_wf_size: "queue_wf s \<Longrightarrow> is_power_of_two n \<Longrightarrow> n \<le> qs_max_size s \<Longrightarrow> queue_wf (s\<lparr>qs_size := n\<rparr>)"
proof -
  have "queue_address (s\<lparr>qs_size := n\<rparr>) kind = queue_address s kind" for kind by (cases kind) simp_all
  then show "queue_wf s \<Longrightarrow> is_power_of_two n \<Longrightarrow> n \<le> qs_max_size s \<Longrightarrow> queue_wf (s\<lparr>qs_size := n\<rparr>)"
    by (simp add: queue_wf_def)
qed

lemma queue_wf_ready: "queue_wf s \<Longrightarrow> queue_wf (s\<lparr>qs_ready := b\<rparr>)"
proof -
  have "queue_address (s\<lparr>qs_ready := b\<rparr>) kind = queue_address s kind" for kind by (cases kind) simp_all
  then show "queue_wf s \<Longrightarrow> queue_wf (s\<lparr>qs_ready := b\<rparr>)" by (simp add: queue_wf_def)
qed

lemma queue_idle_ready: "queue_idle s \<Longrightarrow> s\<lparr>qs_ready := False\<rparr> = s"
  by (cases s) (simp add: queue_idle_def queue_state_new_def)

text \<open>
  A successful queue write at a status other than 11 is a selection, or the clearing of
  \<open>QueueReady\<close> after a reset, which leaves an idle queue as it is.
\<close>

lemma queue_write_register_wf:
  assumes wf: "queues_wf q" and w: "queue_write_register q r v status = Ok q'"
  shows "queues_wf q' \<and> length (qr_queues q') = length (qr_queues q) \<and>
    map qs_max_size (qr_queues q') = map qs_max_size (qr_queues q) \<and>
    ((\<forall>s\<in>set (qr_queues q). queue_idle s) \<longrightarrow> status = 11 \<or> (\<forall>s\<in>set (qr_queues q'). queue_idle s))"
proof -
  let ?s = "qr_queues q ! unat (qr_queue_select q)" and ?i = "unat (qr_queue_select q)"
  have i: "?i < length (qr_queues q)" using wf by (simp add: queues_wf_def)
  have upd: "map qs_max_size ((qr_queues q)[?i := t]) = map qs_max_size (qr_queues q)"
    if "qs_max_size t = qs_max_size ?s" for t
    using that i by (simp add: map_update list_update_same_conv)
  consider (sel) "queue_register_index q v = Ok (unat v)" "q' = q\<lparr>qr_queue_select := v\<rparr>"
    | (size) "write_queue_size q v status = Ok q'"
    | (ready) "write_queue_ready q v status = Ok q'"
    | (address) replace kind where "write_queue_address replace q kind v status = Ok q'"
    using w by (cases r) (auto simp: queue_write_register_def select_queue_def and_then_Ok_iff
        queue_register_index_def write_queue_address_low_def write_queue_address_high_def split: if_splits)
  then show ?thesis
  proof cases
    case sel
    then show ?thesis using wf by (auto simp: queues_wf_def queue_register_index_def split: if_splits)
  next
    case size
    from write_queue_size_Ok [OF wf this] show ?thesis
      using updated_queues_wf [OF wf queue_wf_size [OF selected_wf [OF wf]]] by (auto simp: upd)
  next
    case ready
    note ok = write_queue_ready_Ok [OF wf this]
    have idle: "?s\<lparr>qs_ready := False\<rparr> = ?s" if "queue_idle ?s"
      by (rule queue_idle_ready [OF that])
    show ?thesis
      using ok updated_queues_wf [OF wf queue_wf_ready [OF selected_wf [OF wf]]] i idle by (auto simp: upd)
  next
    case address
    from write_queue_address_Ok [OF wf this] show ?thesis
      using write_queue_address_wf [OF wf address] by (auto simp: upd queue_address_set)
  qed
qed

section \<open>The invariant of the register handler\<close>

definition intents_pending :: "device_interrupt_status \<Rightarrow> virtio_interrupt_intent list \<Rightarrow> bool" where
  "intents_pending p intents \<longleftrightarrow> distinct intents \<and>
     (\<forall>i. IntentQueue i \<in> set intents \<longrightarrow> status_contains p QueueInterrupt) \<and>
     (IntentConfiguration \<in> set intents \<longrightarrow> status_contains p ConfigInterrupt)"

definition core_wf :: "('c, 'a) virtio_device_core \<Rightarrow> bool" where
  "core_wf c \<longleftrightarrow> device_wf (dc_device c) \<and> queues_wf (dc_queues c) \<and>
     length (nr_pending_notifications (dc_queue_notifications c)) = length (qr_queues (dc_queues c)) \<and>
     (status_has_features_ok (dr_status (dc_device c)) \<or>
        (\<forall>q\<in>set (qr_queues (dc_queues c)). queue_idle q) \<and>
        True \<notin> set (nr_pending_notifications (dc_queue_notifications c))) \<and>
     (dc_device_activated c \<longrightarrow> dr_status (dc_device c) \<in> {15, 0x8f}) \<and>
     (dr_status (dc_device c) = 15 \<longrightarrow> dc_device_activated c)"

definition handler_wf :: "('c, 'a) virtio_mmio_register_handler \<Rightarrow> bool" where
  "handler_wf h \<longleftrightarrow> core_wf (rh_core h) \<and> status_valid (ir_pending_status (rh_interrupts h)) \<and>
     intents_pending (ir_pending_status (rh_interrupts h)) (dc_interrupt_intents (rh_core h))"

lemma core_wfD:
  assumes "core_wf c"
  shows "device_wf (dc_device c)" "queues_wf (dc_queues c)"
    "length (nr_pending_notifications (dc_queue_notifications c)) = length (qr_queues (dc_queues c))"
    "\<not> status_has_features_ok (dr_status (dc_device c)) \<Longrightarrow> \<forall>q\<in>set (qr_queues (dc_queues c)). queue_idle q"
    "\<not> status_has_features_ok (dr_status (dc_device c)) \<Longrightarrow>
       True \<notin> set (nr_pending_notifications (dc_queue_notifications c))"
    "dc_device_activated c \<Longrightarrow> dr_status (dc_device c) \<in> {15, 0x8f}"
    "dr_status (dc_device c) = 15 \<Longrightarrow> dc_device_activated c"
  using assms unfolding core_wf_def by blast+

lemma features_ok_values [simp]:
  "status_has_features_ok 11" "status_has_features_ok 15" "status_has_features_ok 0x8f"
  "status_has_features_ok 0x4f" "status_has_features_ok 0xcf" "\<not> status_has_features_ok 0"
  by (simp_all add: status_has)

lemma reset_common_state_wf:
  assumes "core_wf c" and "device_wf d" and "dr_status d = 0"
  shows "core_wf (reset_common_state ops (c\<lparr>dc_device := d\<rparr>))"
  using assms queues_reset_wf [OF core_wfD(2) [OF assms(1)]] queues_reset_idle [of "dc_queues c"]
    core_wfD(3) [OF assms(1)]
  by (simp add: core_wf_def reset_common_state_def notification_reset_def queue_registers_reset_def)

text \<open>The status after a successful write, and what happens to the back end.\<close>

lemma write_status_cases:
  assumes wf: "core_wf (rh_core h)" and w: "device_write_register (dc_device (rh_core h)) Status v = Ok d"
  defines "h1 \<equiv> update_core (\<lambda>c. c\<lparr>dc_device := d\<rparr>) h"
  obtains (failed) "v \<noteq> 0" "dr_status d = dr_status (dc_device (rh_core h)) OR 0x80"
      "write_device_register ops h Status v = (h1, Ok ())"
  | (reset) "v = 0" "d = device_reset (dc_device (rh_core h))"
      "write_device_register ops h Status v = (reset_active_state ops h1, Ok ())"
  | (advance) "(dr_status (dc_device (rh_core h)), v) \<in> {(0, 1), (1, 3), (3, 11)}" "dr_status d = v"
      "write_device_register ops h Status v = (h1, Ok ())"
  | (driver_ok) "dr_status (dc_device (rh_core h)) = 11" "v = 15" "d = (dc_device (rh_core h))\<lparr>dr_status := 15\<rparr>"
      "\<not> dc_device_activated (rh_core h)" "write_device_register ops h Status v = activate_device ops h1"
proof -
  have st: "set_status (dc_device (rh_core h)) v = Ok d" using w by (simp add: device_write_register_def)
  have reach: "status_reachable (dr_status (dc_device (rh_core h)))"
    using core_wfD(1) [OF wf] by (simp add: device_wf_def)
  note def = write_device_register_def [of ops h Status v, unfolded w, simplified, folded h1_def]
  from st show thesis
  proof (cases rule: set_status_cases)
    case failed
    have "dr_status (dc_device (rh_core h)) OR 0x80 \<noteq> 15"
      using reach by (auto simp: status_reachable_def)
    with failed show thesis
      by (intro that(1)) (simp_all add: def h1_def update_core_def status_values VIRTIO_DEVICE_STATUS_INIT_def)
  next
    case reset
    have "write_device_register ops h Status v = (reset_active_state ops h1, Ok ())"
      unfolding def using reset by (simp add: h1_def update_core_def status_values VIRTIO_DEVICE_STATUS_INIT_def
          reset_active_state_def reset_common_state_def device_reset_def)
    with reset show thesis by (intro that(2))
  next
    case advance
    show thesis
    proof (cases "v = 15")
      case True
      then have "\<not> dc_device_activated (rh_core h)" "dr_status (dc_device (rh_core h)) = 11"
        using advance(3) core_wfD(6) [OF wf] by auto
      moreover from this have "write_device_register ops h Status v = activate_device ops h1"
        unfolding def using True advance by (simp add: h1_def update_core_def status_values VIRTIO_DEVICE_STATUS_INIT_def)
      ultimately show thesis using True advance by (intro that(4)) simp_all
    next
      case False
      with advance show thesis
        by (intro that(3)) (auto simp: def h1_def update_core_def status_values VIRTIO_DEVICE_STATUS_INIT_def)
    qed
  qed
qed

lemma core_wf_status:
  assumes wf: "core_wf c" and d: "device_wf d"
    and f: "status_has_features_ok (dr_status (dc_device c)) \<Longrightarrow> status_has_features_ok (dr_status d)"
    and act: "dc_device_activated c \<Longrightarrow> dr_status d \<in> {15, 0x8f}"
    and ok: "dr_status d = 15 \<Longrightarrow> dc_device_activated c"
  shows "core_wf (c\<lparr>dc_device := d\<rparr>)"
proof (cases "status_has_features_ok (dr_status (dc_device c))")
  case True
  then show ?thesis using wf d f act ok unfolding core_wf_def by simp
next
  case False
  then show ?thesis using core_wfD(2-5) [OF wf] d act ok unfolding core_wf_def by simp
qed

lemma activate_device_wf:
  assumes wf: "core_wf (rh_core h)" and act: "\<not> dc_device_activated (rh_core h)"
    and d: "device_wf d" "dr_status d = 15" and h1: "h1 = update_core (\<lambda>c. c\<lparr>dc_device := d\<rparr>) h"
    and res: "activate_device ops h1 = (h', res)" "res \<noteq> Panic"
  shows "core_wf (rh_core h')" and "rh_interrupts h' = rh_interrupts h"
    and "dc_interrupt_intents (rh_core h') = dc_interrupt_intents (rh_core h)"
proof -
  have needs: "device_wf (mark_device_needs_reset d)" "dr_status (mark_device_needs_reset d) = 0x4f"
    using d by (simp_all add: mark_device_needs_reset_def status_consts device_wf_def status_reachable_def status_has)
  obtain a r where op: "op_activate ops (dc_activation (rh_core h)) d (dc_queues (rh_core h)) = (a, r)"
    by fastforce
  have h': "h' = h\<lparr>rh_core := (rh_core h)\<lparr>dc_device := d, dc_activation := a, dc_device_activated := True\<rparr>\<rparr> \<or>
      h' = h\<lparr>rh_core := (rh_core h)\<lparr>dc_activation := a, dc_device := mark_device_needs_reset d\<rparr>\<rparr>"
    using res by (cases r) (auto simp: h1 activate_device_def update_core_def Let_def op)
  show "core_wf (rh_core h')"
    using h' act d needs core_wfD(2,3) [OF wf] by (auto simp: core_wf_def)
  show "rh_interrupts h' = rh_interrupts h" "dc_interrupt_intents (rh_core h') = dc_interrupt_intents (rh_core h)"
    using h' by auto
qed

lemma write_device_register_wf:
  assumes wf: "handler_wf h" and w: "write_device_register ops h r v = (h', res)" and np: "res \<noteq> Panic"
  shows "handler_wf h'"
proof (cases "device_write_register (dc_device (rh_core h)) r v")
  case (Ok d)
  have cwf: "core_wf (rh_core h)" using wf by (simp add: handler_wf_def)
  have dwf: "device_wf d" by (rule device_write_register_wf [OF core_wfD(1) [OF cwf] Ok])
  have same: "handler_wf (update_core (\<lambda>c. c\<lparr>dc_device := d\<rparr>) h)" if "core_wf ((rh_core h)\<lparr>dc_device := d\<rparr>)"
    using wf that by (simp add: handler_wf_def update_core_def)
  show ?thesis
  proof (cases "r = Status")
    case False
    have "core_wf ((rh_core h)\<lparr>dc_device := d\<rparr>)"
      by (rule core_wf_status [OF cwf dwf])
        (use core_wfD(6,7) [OF cwf] device_write_register_identity(5) [OF Ok False] in auto)
    then show ?thesis
      using w False Ok same by (simp add: write_device_register_def Let_def)
  next
    case True
    note Ok' = Ok [unfolded True]
    from cwf Ok' show ?thesis
    proof (cases rule: write_status_cases [where ops = ops])
      case failed
      have "core_wf ((rh_core h)\<lparr>dc_device := d\<rparr>)"
        by (rule core_wf_status [OF cwf dwf])
          (use core_wfD(1,6) [OF cwf] failed(2) has_failed in
            \<open>auto simp: device_wf_def status_reachable_def\<close>)
      then show ?thesis using w True failed(3) same by simp
    next
      case reset
      have "core_wf (reset_common_state ops ((rh_core h)\<lparr>dc_device := d\<rparr>))"
        by (rule reset_common_state_wf [OF cwf dwf])
          (simp add: reset(2) device_reset_def VIRTIO_DEVICE_STATUS_INIT_def)
      then have "handler_wf (reset_active_state ops (update_core (\<lambda>c. c\<lparr>dc_device := d\<rparr>) h))"
        by (simp add: handler_wf_def reset_active_state_def update_core_def interrupt_reset_def intents_pending_def
            reset_common_state_def)
      then show ?thesis using w True reset(3) by simp
    next
      case advance
      have "\<not> dc_device_activated (rh_core h)" using advance(1) core_wfD(6) [OF cwf] by auto
      then have "core_wf ((rh_core h)\<lparr>dc_device := d\<rparr>)"
        by (intro core_wf_status [OF cwf dwf]) (use advance(1,2) in \<open>auto simp: status_has\<close>)
      then show ?thesis using w True advance(3) same by simp
    next
      case driver_ok
      have "activate_device ops (update_core (\<lambda>c. c\<lparr>dc_device := d\<rparr>) h) = (h', res)"
        using w True driver_ok(5) by simp
      from activate_device_wf [OF cwf driver_ok(4) dwf _ refl this np] driver_ok(3) show ?thesis
        using wf by (simp add: handler_wf_def)
    qed
  qed
qed (use wf w np in \<open>auto simp: write_device_register_def\<close>)

lemma write_queue_register_wf:
  assumes wf: "handler_wf h"
    and w: "queue_write_register (dc_queues (rh_core h)) r v (dr_status (dc_device (rh_core h))) = Ok q"
  shows "handler_wf (update_core (\<lambda>c. c\<lparr>dc_queues := q\<rparr>) h)"
proof -
  have cwf: "core_wf (rh_core h)" using wf by (simp add: handler_wf_def)
  note q = queue_write_register_wf [OF core_wfD(2) [OF cwf] w]
  have "core_wf ((rh_core h)\<lparr>dc_queues := q\<rparr>)"
  proof (cases "status_has_features_ok (dr_status (dc_device (rh_core h)))")
    case True
    then show ?thesis using q cwf by (simp add: core_wf_def)
  next
    case False
    then have "dr_status (dc_device (rh_core h)) \<noteq> 11" by auto
    then show ?thesis using q False core_wfD [OF cwf] by (simp add: core_wf_def)
  qed
  then show ?thesis using wf by (simp add: handler_wf_def update_core_def)
qed

lemma notify_status:
  assumes "status_reachable s" and "validate_queue_notification_status s = Ok ()"
  shows "status_has_features_ok s"
  using assms by (auto simp: status_reachable_def validate_queue_notification_status_def status_consts split: if_splits)

lemma write_notify_wf:
  assumes wf: "handler_wf h"
    and w: "notification_write_register (dc_queue_notifications (rh_core h)) QueueNotify v
      (dr_status (dc_device (rh_core h))) = Ok n"
  shows "handler_wf (update_core (\<lambda>c. c\<lparr>dc_queue_notifications := n\<rparr>) h)"
proof -
  have cwf: "core_wf (rh_core h)" using wf by (simp add: handler_wf_def)
  have "validate_queue_notification_status (dr_status (dc_device (rh_core h))) = Ok ()"
    and len: "length (nr_pending_notifications n) = length (nr_pending_notifications (dc_queue_notifications (rh_core h)))"
    using w by (auto simp: notification_write_register_def write_queue_notify_def and_then_Ok_iff split: if_splits)
  then have "status_has_features_ok (dr_status (dc_device (rh_core h)))"
    using notify_status core_wfD(1) [OF cwf] by (simp add: device_wf_def)
  then have "core_wf ((rh_core h)\<lparr>dc_queue_notifications := n\<rparr>)"
    using cwf len by (simp add: core_wf_def)
  then show ?thesis using wf by (simp add: handler_wf_def update_core_def)
qed

lemma write_ack_wf:
  assumes wf: "handler_wf h" and w: "write_handler_interrupt_ack h InterruptAck v = (h', res)"
  shows "handler_wf h'"
proof (cases "h' = h")
  case False
  then have v: "status_valid v"
    and h': "h' = update_core (\<lambda>c. c\<lparr>dc_interrupt_intents := filter (\<lambda>intent. case intent of
        IntentQueue _ \<Rightarrow> \<not> status_contains v QueueInterrupt
      | IntentConfiguration \<Rightarrow> \<not> status_contains v ConfigInterrupt) (dc_interrupt_intents c)\<rparr>)
      (h\<lparr>rh_interrupts := (rh_interrupts h)\<lparr>ir_pending_status := status_clear (ir_pending_status (rh_interrupts h)) v\<rparr>\<rparr>)"
    using w by (auto simp: write_handler_interrupt_ack_def interrupt_write_register_def write_interrupt_ack_def
        and_then_Ok_iff and_then_Err_iff and_then_Panic_iff Let_def status_from_bits_Ok map_err_Err_iff
        status_from_bits_def split: result.splits if_splits)
  have "core_wf (c\<lparr>dc_interrupt_intents := is\<rparr>) \<longleftrightarrow> core_wf c" for c :: "('a, 'b) virtio_device_core" and "is"
    by (simp add: core_wf_def)
  then show ?thesis
    using wf unfolding h' by (auto simp: handler_wf_def update_core_def status_clear_valid intents_pending_def
        status_clear_contains)
qed (use wf in simp)

lemma handler_write_register_cases:
  assumes w: "handler_write_register ops h r v = (h', res)"
  obtains (device) "r \<in> {DeviceFeaturesSel, DriverFeatures, DriverFeaturesSel, Status}"
      "write_device_register ops h r v = (h', res)"
  | (queue) q where "r \<noteq> Status" "res = Ok ()"
      "queue_write_register (dc_queues (rh_core h)) r v (dr_status (dc_device (rh_core h))) = Ok q"
      "h' = update_core (\<lambda>c. c\<lparr>dc_queues := q\<rparr>) h"
  | (notify) n where "r = QueueNotify" "res = Ok ()"
      "notification_write_register (dc_queue_notifications (rh_core h)) QueueNotify v
        (dr_status (dc_device (rh_core h))) = Ok n" "h' = update_core (\<lambda>c. c\<lparr>dc_queue_notifications := n\<rparr>) h"
  | (ack) "r = InterruptAck" "write_handler_interrupt_ack h InterruptAck v = (h', res)"
  | (failed) "r \<noteq> Status" "h' = h"
proof -
  let ?dev = "{DeviceFeaturesSel, DriverFeatures, DriverFeaturesSel, Status}"
  let ?que = "{QueueSel, QueueNum, QueueReady, QueueDescLow, QueueDescHigh, QueueDriverLow, QueueDriverHigh,
    QueueDeviceLow, QueueDeviceHigh}"
  note def = w [unfolded handler_write_register_def Let_def]
  consider "r \<in> ?dev" | "r \<notin> ?dev" "r \<in> ?que" | "r = QueueNotify" | "r = InterruptAck"
    | "r \<notin> ?dev" "r \<notin> ?que" "r \<noteq> QueueNotify" "r \<noteq> InterruptAck" by metis
  then show thesis
  proof cases
    case 1
    show thesis by (rule device [OF 1 def [unfolded if_P [OF 1]]])
  next
    case 2
    note q = def [unfolded if_not_P [OF 2(1)] if_P [OF 2(2)]]
    have ns: "r \<noteq> Status" using 2(1) by simp
    show thesis
    proof (cases "queue_write_register (dc_queues (rh_core h)) r v (dr_status (dc_device (rh_core h)))")
      case (Ok q')
      show thesis by (rule queue [OF ns _ Ok]) (use q [unfolded Ok] in simp_all)
    qed (use q in \<open>auto intro: failed [OF ns]\<close>)
  next
    case 3
    show thesis
    proof (cases "notification_write_register (dc_queue_notifications (rh_core h)) QueueNotify v
          (dr_status (dc_device (rh_core h)))")
      case (Ok n)
      show thesis by (rule notify [OF 3 _ Ok]) (use def 3 Ok in simp_all)
    qed (use def 3 in \<open>auto intro: failed\<close>)
  next
    case 4
    then show thesis using def ack by simp
  next
    case 5
    then show thesis using def failed by simp
  qed
qed

lemma handler_write_register_wf:
  assumes wf: "handler_wf h" and w: "handler_write_register ops h r v = (h', res)" and np: "res \<noteq> Panic"
  shows "handler_wf h'"
  using w
proof (cases rule: handler_write_register_cases)
  case device
  then show ?thesis using write_device_register_wf [OF wf _ np] by blast
qed (use wf write_queue_register_wf write_notify_wf write_ack_wf in auto)

lemma write_access_cases:
  assumes "write_access ops h a data = (h', res)"
  obtains (register) r v where "handler_write_register ops h r v = (h', res)"
  | (config) ca where "write_device_config ops h ca data = (h', res)" | (failed) "h' = h"
  using assms unfolding write_access_def
  by (auto split: result.splits virtio_mmio_access.splits)

lemma write_access_wf:
  assumes wf: "handler_wf h" and w: "write_access ops h a data = (h', res)" and np: "res \<noteq> Panic"
  shows "handler_wf h'"
  using w
proof (cases rule: write_access_cases)
  case (register r v)
  then show ?thesis using handler_write_register_wf [OF wf _ np] by blast
next
  case (config ca)
  then have "h' = h \<or> (\<exists>c. h' = update_core (\<lambda>core. core\<lparr>dc_device_config := c\<rparr>) h)"
    by (auto simp: write_device_config_def split: result.splits prod.splits)
  then show ?thesis using wf by (auto simp: handler_wf_def update_core_def core_wf_def)
qed (use wf in simp)

lemma mark_interrupt_wf:
  assumes "handler_wf h"
  shows "handler_wf (mark_queue_interrupt_pending h i)" "handler_wf (mark_config_interrupt_pending h)"
    "handler_wf (mark_interrupt_pending h kind)"
  using assms
  by (auto simp: handler_wf_def mark_queue_interrupt_pending_def mark_config_interrupt_pending_def
      mark_interrupt_pending_def record_interrupt_intent_def mark_pending_def status_insert_valid intents_pending_def status_insert_contains
      core_wf_def)

section \<open>Runs of the transport\<close>

text \<open>
  One step: a guest write that does not abort the thread, an event of the device (interrupt,
  configuration change, draining of notifications or of interrupt intents, a change of its own
  state), or a reset by the host.  Guest reads change nothing.
\<close>

inductive transport_step ::
    "('c, 'a) device_ops \<Rightarrow> ('c, 'a) virtio_mmio_register_handler \<Rightarrow> ('c, 'a) virtio_mmio_register_handler \<Rightarrow> bool"
  for ops where
  guest_write: "write_access ops h a data = (h', res) \<Longrightarrow> res \<noteq> Panic \<Longrightarrow> transport_step ops h h'"
| queue_interrupt: "transport_step ops h (mark_queue_interrupt_pending h i)"
| config_interrupt: "transport_step ops h (mark_config_interrupt_pending h)"
| interrupt: "transport_step ops h (mark_interrupt_pending h kind)"
| config_change: "transport_step ops h (update_core (\<lambda>c. c\<lparr>dc_device := increment_config_generation (dc_device c)\<rparr>) h)"
| drain_notifications: "transport_step ops h
    (update_core (\<lambda>c. c\<lparr>dc_queue_notifications := fst (take_pending_queue_notifications (dc_queue_notifications c))\<rparr>) h)"
| drain_intents: "transport_step ops h (update_core (\<lambda>c. fst (take_interrupt_intents c)) h)"
| backend_change: "transport_step ops h (update_core (\<lambda>c. c\<lparr>dc_device_config := dev, dc_activation := act\<rparr>) h)"
| host_reset: "transport_step ops h (handler_reset ops h)"

abbreviation transport_run ::
    "('c, 'a) device_ops \<Rightarrow> ('c, 'a) virtio_mmio_register_handler \<Rightarrow> ('c, 'a) virtio_mmio_register_handler \<Rightarrow> bool" where
  "transport_run ops \<equiv> (transport_step ops)\<^sup>*\<^sup>*"

lemma register_handler_new_Ok:
  "register_handler_new i ven f g sizes c a req = Ok h \<longleftrightarrow> sizes \<noteq> [] \<and> (\<forall>m\<in>set sizes. is_power_of_two m) \<and>
     h = \<lparr>rh_core = core_from_parts (device_registers_new i ven f g)
            \<lparr>qr_queue_select = 0, qr_queues = map queue_state_new sizes\<rparr>
            \<lparr>nr_pending_notifications = replicate (length sizes) False\<rparr> c a req,
          rh_interrupts = interrupt_registers_new\<rparr>"
  by (auto simp: register_handler_new_def and_then_Ok_iff queue_registers_new_Ok notification_registers_new_def)

lemma register_handler_new_wf:
  assumes "register_handler_new i ven f g sizes c a req = Ok h"
  shows "handler_wf h"
proof -
  note h = assms [unfolded register_handler_new_Ok]
  have "status_reachable 0" "\<not> status_has_driver 0" by (simp_all add: status_reachable_def status_has)
  then show ?thesis
    using h device_registers_new_wf [of i ven f g]
    by (auto simp: handler_wf_def core_wf_def core_from_parts_def queues_wf_def queue_state_new_wf
        interrupt_registers_new_def intents_pending_def device_registers_new_def VIRTIO_DEVICE_STATUS_INIT_def)
qed

lemma handler_reset_wf:
  assumes wf: "handler_wf h"
  shows "handler_wf (handler_reset ops h)"
proof -
  have cwf: "core_wf (rh_core h)" using wf by (simp add: handler_wf_def)
  have "core_wf (reset_common_state ops ((rh_core h)\<lparr>dc_device := device_reset (dc_device (rh_core h))\<rparr>))"
    by (rule reset_common_state_wf [OF cwf device_reset_wf [OF core_wfD(1) [OF cwf]]])
      (simp add: device_reset_def VIRTIO_DEVICE_STATUS_INIT_def)
  then show ?thesis
    by (simp add: handler_wf_def handler_reset_def reset_active_state_def update_core_def interrupt_reset_def
        intents_pending_def reset_common_state_def)
qed

lemma transport_step_wf: "transport_step ops h h' \<Longrightarrow> handler_wf h \<Longrightarrow> handler_wf h'"
proof (induction rule: transport_step.induct)
  case (guest_write h a data h' res)
  then show ?case using write_access_wf by blast
next
  case (config_change h)
  then show ?case
    by (simp add: handler_wf_def update_core_def core_wf_def increment_config_generation_def device_wf_def)
next
  case (drain_notifications h)
  then show ?case
    by (auto simp: handler_wf_def update_core_def core_wf_def take_pending_queue_notifications_def notification_reset_def)
next
  case (drain_intents h)
  then show ?case
    by (simp add: handler_wf_def update_core_def core_wf_def take_interrupt_intents_def intents_pending_def)
next
  case (backend_change h dev act)
  then show ?case by (simp add: handler_wf_def update_core_def core_wf_def)
qed (simp_all add: mark_interrupt_wf handler_reset_wf)

lemma transport_run_wf: "transport_run ops h h' \<Longrightarrow> handler_wf h \<Longrightarrow> handler_wf h'"
  by (induction rule: rtranclp_induct) (auto dest: transport_step_wf)

text \<open>What a run never changes: the identity the handler was created with.\<close>

definition handler_identity ::
    "('c, 'a) virtio_mmio_register_handler \<Rightarrow> u32 \<times> u32 \<times> u64 \<times> u16 list \<times> bool" where
  "handler_identity h =
     (dr_device_id (dc_device (rh_core h)), dr_vendor_id (dc_device (rh_core h)),
      dr_device_features (dc_device (rh_core h)), map qs_max_size (qr_queues (dc_queues (rh_core h))),
      dc_requires_device_config_write_status (rh_core h))"

lemma activate_device_identity: "handler_identity (fst (activate_device ops h)) = handler_identity h"
proof -
  obtain a r where "op_activate ops (dc_activation (rh_core h)) (dc_device (rh_core h)) (dc_queues (rh_core h)) = (a, r)"
    by fastforce
  then show ?thesis
    by (cases r) (simp_all add: activate_device_def handler_identity_def Let_def mark_device_needs_reset_def)
qed

lemma reset_active_identity: "handler_identity (reset_active_state ops h) = handler_identity h"
  by (simp add: handler_identity_def reset_active_state_def reset_common_state_def queue_registers_reset_def
      comp_def queue_state_reset_def)

lemma write_device_register_identity: "handler_identity (fst (write_device_register ops h r v)) = handler_identity h"
proof (cases "device_write_register (dc_device (rh_core h)) r v")
  case (Ok d)
  have h1: "handler_identity (update_core (\<lambda>c. c\<lparr>dc_device := d\<rparr>) h) = handler_identity h"
    using device_write_register_identity [OF Ok] by (simp add: handler_identity_def update_core_def)
  then show ?thesis
    by (simp add: write_device_register_def Ok Let_def activate_device_identity reset_active_identity)
qed (simp_all add: write_device_register_def)

lemma handler_write_register_identity:
  assumes wf: "handler_wf h" and w: "handler_write_register ops h r v = (h', res)"
  shows "handler_identity h' = handler_identity h"
  using w
proof (cases rule: handler_write_register_cases)
  case device
  then show ?thesis using write_device_register_identity [of ops h r v] by simp
next
  case (queue q)
  then show ?thesis
    using queue_write_register_wf [OF _ queue(3)] wf
    by (simp add: handler_identity_def update_core_def handler_wf_def core_wf_def)
next
  case ack
  have "handler_identity (fst (write_handler_interrupt_ack h InterruptAck v)) = handler_identity h"
    by (simp add: write_handler_interrupt_ack_def handler_identity_def update_core_def Let_def split: result.splits)
  with ack show ?thesis by simp
qed (simp_all add: handler_identity_def update_core_def)

lemma transport_step_identity: "transport_step ops h h' \<Longrightarrow> handler_wf h \<Longrightarrow> handler_identity h' = handler_identity h"
proof (induction rule: transport_step.induct)
  case (guest_write h a data h' res)
  from guest_write(1) show ?case
  proof (cases rule: write_access_cases)
    case (config ca)
    then show ?thesis
      by (auto simp: write_device_config_def handler_identity_def update_core_def split: result.splits prod.splits)
  qed (use handler_write_register_identity [OF guest_write(3)] in auto)
next
  case (host_reset h)
  have "handler_identity (update_core (\<lambda>c. c\<lparr>dc_device := device_reset (dc_device c)\<rparr>) h) = handler_identity h"
    by (simp add: handler_identity_def update_core_def device_reset_def)
  then show ?case by (simp add: handler_reset_def reset_active_identity)
qed (simp_all add: handler_identity_def update_core_def mark_queue_interrupt_pending_def
    mark_config_interrupt_pending_def mark_interrupt_pending_def record_interrupt_intent_def increment_config_generation_def
    take_pending_queue_notifications_def take_interrupt_intents_def)

lemma transport_run_identity:
  assumes "transport_run ops h h'" and "handler_wf h"
  shows "handler_identity h' = handler_identity h"
  using assms(1)
proof (induction rule: rtranclp_induct)
  case (step h1 h2)
  then show ?case
    using transport_step_identity [OF step(2) transport_run_wf [OF step(1) assms(2)]] by simp
qed simp

section \<open>Register accesses of the guest\<close>

text \<open>A four-byte write at the offset of a writable register is a write of that register.\<close>

lemma decode_register_write:
  assumes "ma_offset a = register_offset r" and "is_writable r" and "mab_len data = 4"
  shows "decode_virtio_mmio_access (OpWrite a data) = Ok (RegisterAccess KindWrite r)"
proof -
  have w: "write_at_offset (register_offset r) = Some r"
    using assms(2) by (cases r) (simp_all add: write_at_offset_def is_writable_def)
  have slot: "register_slot_offset (register_offset r) = register_offset r"
    by (cases r) (simp_all add: register_slot_offset_def)
  have "checked_add (register_offset r) (of_nat 4) = Some (register_offset r + 4)"
    "\<not> VIRTIO_MMIO_DEVICE_WINDOW_SIZE < register_offset r + 4" "\<not> VIRTIO_MMIO_DEVICE_CONFIG_OFFSET \<le> register_offset r"
    by (cases r; simp add: checked_add_def VIRTIO_MMIO_DEVICE_WINDOW_SIZE_def VIRTIO_MMIO_DEVICE_CONFIG_OFFSET_def)+
  then show ?thesis
    using assms w slot
    by (simp add: decode_virtio_mmio_access_def decode_virtio_mmio_register_access_def register_for_kind_def
        VIRTIO_MMIO_REGISTER_ACCESS_SIZE_def Let_def)
qed

lemma write_access_register:
  assumes "gmr_size (ma_range a) = 4" and "ma_offset a = register_offset r" and "is_writable r"
    and "mab_len data = 4" and "4 \<le> length (mab_bytes data)"
  shows "write_access ops h a data = handler_write_register ops h r (from_le_bytes (access_bytes_as_slice data))"
  using assms decode_register_write [OF assms(2-4)]
  by (simp add: write_access_def mmio_operation_write_def mmio_operation_len_def register_write_value_def
      access_bytes_as_slice_def VIRTIO_MMIO_REGISTER_ACCESS_SIZE_def)

lemma register_write_step:
  assumes "is_writable r" and "snd (handler_write_register ops h r v) \<noteq> Panic"
  shows "transport_step ops h (fst (handler_write_register ops h r v))"
proof -
  let ?rng = "\<lparr>gmr_start = register_offset r, gmr_size = 4, gmr_end_exclusive = register_offset r + 4\<rparr>"
  let ?a = "\<lparr>ma_region = \<lparr>mr_id = 0, mr_range = ?rng\<rparr>, ma_range = ?rng, ma_offset = register_offset r\<rparr>"
  let ?d = "\<lparr>mab_bytes = to_le_bytes v, mab_len = 4\<rparr>"
  have "write_access ops h ?a ?d = handler_write_register ops h r v"
    using write_access_register [of ?a r ?d ops h] assms(1) by (simp add: access_bytes_as_slice_def)
  then have "write_access ops h ?a ?d = (fst (handler_write_register ops h r v), snd (handler_write_register ops h r v))"
    by simp
  then show ?thesis using assms(2) by (rule transport_step.guest_write)
qed

text \<open>A sequence of register writes that the handler accepts.\<close>

fun register_writes ::
    "('c, 'a) device_ops \<Rightarrow> ('c, 'a) virtio_mmio_register_handler \<Rightarrow> (virtio_mmio_register \<times> u32) list \<Rightarrow>
     ('c, 'a) virtio_mmio_register_handler" where
  "register_writes ops h [] = h"
| "register_writes ops h ((r, v) # ws) = register_writes ops (fst (handler_write_register ops h r v)) ws"

fun writes_accepted ::
    "('c, 'a) device_ops \<Rightarrow> ('c, 'a) virtio_mmio_register_handler \<Rightarrow> (virtio_mmio_register \<times> u32) list \<Rightarrow> bool" where
  "writes_accepted ops h [] \<longleftrightarrow> True"
| "writes_accepted ops h ((r, v) # ws) \<longleftrightarrow> is_writable r \<and> snd (handler_write_register ops h r v) = Ok () \<and>
     writes_accepted ops (fst (handler_write_register ops h r v)) ws"

lemma register_writes_run: "writes_accepted ops h ws \<Longrightarrow> transport_run ops h (register_writes ops h ws)"
proof (induction ws arbitrary: h)
  case (Cons w ws)
  obtain r v where w: "w = (r, v)" by fastforce
  have "transport_step ops h (fst (handler_write_register ops h r v))"
    using Cons.prems by (intro register_write_step) (auto simp: w)
  moreover have "transport_run ops (fst (handler_write_register ops h r v)) (register_writes ops h (w # ws))"
    using Cons by (simp add: w)
  ultimately show ?case by (rule converse_rtranclp_into_rtranclp)
qed simp


end
