(* ===== verification/Mmio_Properties.thy ===== *)
theory Mmio_Properties
  imports Mmio
begin

text \<open>
  Properties of the MMIO bus and dispatcher: lookup is exact on a bus of ordered disjoint regions,
  every operation keeps the dispatcher's invariant, a dispatched access runs the handler of the
  one region that contains it and no other, and the life cycle of an owned registration
  (register, unpublish, republish, release).
\<close>

section \<open>Batches of insertions\<close>

lemma plan_regions_Ok:
  assumes "bus_wf b" and "plan_regions b i n qs = Ok (b', rs)"
  shows "bus_wf b' \<and> set (bus_regions b') = set (bus_regions b) \<union> set rs \<and> length rs = length qs \<and>
    (\<forall>r\<in>set rs. mr_id r = i \<and> region_wf r) \<and> distinct rs \<and>
    (\<forall>r\<in>set rs. \<forall>x\<in>set (bus_regions b). \<not> overlaps (mr_range x) (mr_range r)) \<and>
    (\<forall>x\<in>set rs. \<forall>y\<in>set rs. x \<noteq> y \<longrightarrow> \<not> overlaps (mr_range x) (mr_range y))"
  using assms
proof (induction qs arbitrary: b n b' rs)
  case (Cons q qs)
  obtain b1 r rs' where ins: "bus_insert b i (rq_start q) (rq_size q) = Ok (b1, r)"
    and rest: "plan_regions b1 i (Suc n) qs = Ok (b', rs')" and rs: "rs = r # rs'"
    using Cons.prems(2) by (auto simp: and_then_Ok_iff)
  note one = bus_insert_Ok [OF Cons.prems(1) ins]
  then have r: "mr_id r = i" "region_wf r" by (simp_all add: mmio_region_new_Ok_iff)
  have "overlaps (mr_range r) (mr_range r)"
    using range_wf_nonempty [OF r(2)] by (simp add: overlaps_def)
  then show ?case
    using Cons.IH [OF one(1) rest] one r unfolding rs by (auto simp: overlaps_sym)
qed simp

lemma plan_regions_not_Panic [simp]: "plan_regions b i n qs \<noteq> Panic"
  by (induction qs arbitrary: b n) (auto simp: and_then_Panic_iff)

lemma republish_regions_Ok:
  assumes "bus_wf b" and "ordered_disjoint (map mr_range rs)" and "republish_regions b rs = Ok b'"
  shows "bus_wf b' \<and> set (bus_regions b') = set (bus_regions b) \<union> set rs"
  using assms
proof (induction rs arbitrary: b)
  case (Cons r rs)
  obtain b1 where "bus_insert_region b r = Ok b1" and "republish_regions b1 rs = Ok b'"
    using Cons.prems(3) by (auto simp: and_then_Ok_iff)
  then show ?case
    using Cons.IH [of b1] Cons.prems bus_insert_region_Ok [of b r b1] by auto
qed simp

lemma republish_regions_not_Panic [simp]: "republish_regions b rs \<noteq> Panic"
  by (induction rs arbitrary: b) (auto simp: and_then_Panic_iff)

lemma republish_regions_clear:
  assumes "bus_wf b" and "ordered_disjoint (map mr_range rs)"
    and "\<forall>r\<in>set rs. \<forall>x\<in>set (bus_regions b). \<not> overlaps (mr_range x) (mr_range r)"
  shows "\<exists>b'. republish_regions b rs = Ok b'"
  using assms
proof (induction rs arbitrary: b)
  case (Cons r rs)
  then have wf: "region_wf r" by simp
  obtain b1 where ins: "bus_insert b (mr_id r) (gmr_start (mr_range r)) (gmr_size (mr_range r)) = Ok (b1, r)"
    using bus_insert_region_clear [OF Cons.prems(1) wf] Cons.prems(3) by auto
  note one = bus_insert_Ok [OF Cons.prems(1) ins]
  have "\<not> overlaps (mr_range r) (mr_range x)" if "x \<in> set rs" for x
    using that Cons.prems(2) by (auto simp: overlaps_def range_before_def)
  then have "\<exists>b'. republish_regions b1 rs = Ok b'"
    using Cons.IH [OF one(1)] Cons.prems one(2) by auto
  then show ?case by (simp add: ins)
qed simp

lemma contains_exact_regions_iff:
  assumes "bus_wf b" and "distinct rs" and "\<forall>r\<in>set rs. mr_id r = i"
  shows "contains_exact_regions b i rs \<longleftrightarrow> {r \<in> set (bus_regions b). mr_id r = i} = set rs"
proof -
  have dist: "distinct (bus_regions b)"
    using ordered_disjoint_distinct [OF assms(1) [unfolded bus_wf_def]] by (simp add: distinct_map)
  let ?own = "{r \<in> set (bus_regions b). mr_id r = i}"
  have "length (filter (\<lambda>r. mr_id r = i) (bus_regions b)) = card ?own"
    using distinct_card [OF distinct_filter [OF dist], of "\<lambda>r. mr_id r = i"] by simp
  then have "contains_exact_regions b i rs \<longleftrightarrow> card ?own = card (set rs) \<and> set rs \<subseteq> ?own"
    using assms(2,3) by (auto simp: contains_exact_regions_def distinct_card list_all_iff list_ex_iff)
  also have "\<dots> \<longleftrightarrow> ?own = set rs"
    using card_subset_eq [of ?own "set rs"] by fastforce
  finally show ?thesis .
qed

lemma remove_exact_regions_set:
  "set (bus_regions (remove_exact_regions b rs)) = set (bus_regions b) - set rs"
  by (auto simp: remove_exact_regions_def list_ex_iff)

lemma ordered_disjoint_filter: "ordered_disjoint (map f xs) \<Longrightarrow> ordered_disjoint (map f (filter p xs))"
  by (induction xs) auto

lemma remove_exact_regions_wf: "bus_wf b \<Longrightarrow> bus_wf (remove_exact_regions b rs)"
  by (simp add: bus_wf_def remove_exact_regions_def ordered_disjoint_filter)

lemma has_region_id_iff: "has_region_id b i \<longleftrightarrow> (\<exists>r\<in>set (bus_regions b). mr_id r = i)"
  by (simp add: has_region_id_def list_ex_iff)

section \<open>The invariant of the dispatcher\<close>

definition record_wf :: "'h mmio_registration_record \<Rightarrow> bool" where
  "record_wf r \<longleftrightarrow> rr_regions r \<noteq> [] \<and> ordered_disjoint (map mr_range (rr_regions r)) \<and>
     (\<forall>x\<in>set (rr_regions r). mr_id x = rr_region_id r)"

abbreviation registered :: "'h mmio_dispatcher \<Rightarrow> u64 \<Rightarrow> 'h mmio_registration_record option" where
  "registered d g \<equiv> map_of (md_registrations d) g"

definition published :: "'h mmio_dispatcher \<Rightarrow> 'h mmio_registration_record \<Rightarrow> bool" where
  "published d r \<longleftrightarrow> md_handlers d (rr_region_id r) \<noteq> None \<and>
     {x \<in> set (bus_regions (md_bus d)). mr_id x = rr_region_id r} = set (rr_regions r)"

definition dispatcher_wf :: "'h mmio_dispatcher \<Rightarrow> bool" where
  "dispatcher_wf d \<longleftrightarrow> bus_wf (md_bus d) \<and>
     (\<forall>g r. registered d g = Some r \<longrightarrow> g < md_next_generation d \<and> record_wf r \<and>
        (rr_suspended_handler r = None \<longrightarrow> published d r)) \<and>
     (\<forall>g g' r r'. registered d g = Some r \<longrightarrow> registered d g' = Some r' \<longrightarrow>
        rr_suspended_handler r = None \<longrightarrow> rr_suspended_handler r' = None \<longrightarrow>
        rr_region_id r = rr_region_id r' \<longrightarrow> g = g')"

lemma record_wf_distinct: "record_wf r \<Longrightarrow> distinct (rr_regions r)"
  using ordered_disjoint_distinct [of "map mr_range (rr_regions r)"]
  by (simp add: record_wf_def distinct_map)

lemma dispatcher_wfD:
  assumes "dispatcher_wf d"
  shows "bus_wf (md_bus d)"
    and "registered d g = Some r \<Longrightarrow> g < md_next_generation d"
    and "registered d g = Some r \<Longrightarrow> record_wf r"
    and "registered d g = Some r \<Longrightarrow> rr_suspended_handler r = None \<Longrightarrow> published d r"
  using assms unfolding dispatcher_wf_def by blast+

lemma dispatcher_new_wf: "dispatcher_wf (dispatcher_new p)"
  by (simp add: dispatcher_wf_def dispatcher_new_def)

lemma leased_iff:
  "has_leased_region_id d i \<longleftrightarrow> (\<exists>(g, r)\<in>set (md_registrations d). rr_region_id r = i)"
  by (auto simp: has_leased_region_id_def list_ex_iff)

lemma not_leased_registered:
  "\<not> has_leased_region_id d i \<Longrightarrow> registered d g = Some r \<Longrightarrow> rr_region_id r \<noteq> i"
  by (auto simp: leased_iff dest: map_of_SomeD)

text \<open>Records with another region id keep their publication when one id changes.\<close>

lemma published_other:
  assumes "published d r" and "rr_region_id r \<noteq> i"
    and "\<And>j. j \<noteq> i \<Longrightarrow> md_handlers d' j = md_handlers d j"
    and "\<And>x. mr_id x \<noteq> i \<Longrightarrow> x \<in> set (bus_regions (md_bus d')) \<longleftrightarrow> x \<in> set (bus_regions (md_bus d))"
  shows "published d' r"
proof -
  have "{x \<in> set (bus_regions (md_bus d')). mr_id x = rr_region_id r} =
        {x \<in> set (bus_regions (md_bus d)). mr_id x = rr_region_id r}"
    using assms(2,4) by auto
  then show ?thesis using assms(1-3) by (simp add: published_def)
qed

section \<open>Every operation keeps the invariant\<close>

lemma dispatcher_wf_intro:
  assumes "dispatcher_wf d" and "bus_wf (md_bus d')"
    and "\<And>g r. registered d' g = Some r \<Longrightarrow> registered d g = Some r"
    and "md_next_generation d' = md_next_generation d"
    and "\<And>g r. registered d' g = Some r \<Longrightarrow> published d r \<Longrightarrow> rr_suspended_handler r = None \<Longrightarrow> published d' r"
  shows "dispatcher_wf d'"
  unfolding dispatcher_wf_def
proof (intro conjI allI impI)
  fix g r assume "registered d' g = Some r"
  note reg = assms(3) [OF this] and pub = assms(5) [OF this]
  show "g < md_next_generation d'" "record_wf r"
    using dispatcher_wfD(2,3) [OF assms(1) reg] assms(4) by simp_all
  show "published d' r" if "rr_suspended_handler r = None"
    by (rule pub [OF dispatcher_wfD(4) [OF assms(1) reg that] that])
  show "g = g'" if "registered d' g' = Some r'" "rr_suspended_handler r = None"
    "rr_suspended_handler r' = None" "rr_region_id r = rr_region_id r'" for g' r'
    using assms(1) reg assms(3) [OF that(1)] that(2-4) unfolding dispatcher_wf_def by blast
qed (rule assms(2))

lemma insert_region_wf:
  assumes "dispatcher_wf d"
  shows "dispatcher_wf (fst (dispatcher_insert_region d i s z))"
proof (cases "has_leased_region_id d i \<or> (\<forall>x. bus_insert (md_bus d) i s z \<noteq> Ok x)")
  case True
  then show ?thesis using assms by (auto simp: dispatcher_insert_region_def split: result.splits)
next
  case False
  then obtain b region where ins: "bus_insert (md_bus d) i s z = Ok (b, region)"
    and nl: "\<not> has_leased_region_id d i" by auto
  note ok = bus_insert_Ok [OF dispatcher_wfD(1) [OF assms] ins]
  have "fst (dispatcher_insert_region d i s z) = d\<lparr>md_bus := b\<rparr>"
    using nl by (simp add: dispatcher_insert_region_def ins)
  moreover have "dispatcher_wf (d\<lparr>md_bus := b\<rparr>)"
  proof (rule dispatcher_wf_intro [OF assms])
    fix g r assume reg: "registered (d\<lparr>md_bus := b\<rparr>) g = Some r" and pub: "published d r"
    have "rr_region_id r \<noteq> i" using not_leased_registered [OF nl] reg by simp
    then show "published (d\<lparr>md_bus := b\<rparr>) r"
      by (rule published_other [OF pub]) (use ok in \<open>auto simp: mmio_region_new_Ok_iff\<close>)
  qed (use ok in auto)
  ultimately show ?thesis by simp
qed

lemma register_handler_wf:
  assumes "dispatcher_wf d"
  shows "dispatcher_wf (fst (register_handler d i h))"
proof (cases "has_leased_region_id d i \<or> md_handlers d i \<noteq> None")
  case True
  then show ?thesis using assms by (auto simp: register_handler_def split: option.splits)
next
  case False
  then have "fst (register_handler d i h) = d\<lparr>md_handlers := (md_handlers d)(i \<mapsto> h)\<rparr>"
    by (simp add: register_handler_def)
  moreover have "dispatcher_wf (d\<lparr>md_handlers := (md_handlers d)(i \<mapsto> h)\<rparr>)"
    by (rule dispatcher_wf_intro [OF assms])
      (use dispatcher_wfD(1) [OF assms] in \<open>auto simp: published_def\<close>)
  ultimately show ?thesis by simp
qed

lemma plan_owned_handler_Ok:
  assumes "dispatcher_wf d" and "plan_owned_handler alloc d i qs = Ok p"
  shows "md_handlers d i = None" and "\<not> has_region_id (md_bus d) i"
    and "pl_generation p = md_next_generation d"
    and "unat (pl_next_generation p) = unat (md_next_generation d) + 1"
    and "bus_wf (pl_bus p)" and "set (bus_regions (pl_bus p)) = set (bus_regions (md_bus d)) \<union> set (pl_regions p)"
    and "\<forall>r\<in>set (pl_regions p). mr_id r = i"
    and "ordered_disjoint (map mr_range (pl_regions p))" and "pl_regions p \<noteq> []"
    and "length (pl_regions p) = length qs"
proof -
  obtain rs where guards: "qs \<noteq> []" "md_handlers d i = None" "\<not> has_region_id (md_bus d) i"
    and gen: "checked_add (md_next_generation d) 1 = Some (pl_next_generation p)"
      "pl_generation p = md_next_generation d"
    and plan: "plan_regions (md_bus d) i 0 qs = Ok (pl_bus p, rs)"
    and rs: "pl_regions p = sort_key (\<lambda>r. gmr_start (mr_range r)) rs"
    using assms(2) by (auto simp: plan_owned_handler_def and_then_Ok_iff split: if_splits)
  note ok = plan_regions_Ok [OF dispatcher_wfD(1) [OF assms(1)] plan]
  show "ordered_disjoint (map mr_range (pl_regions p))"
    unfolding rs by (rule sorted_disjoint_ordered) (use ok in auto)
  show "unat (pl_next_generation p) = unat (md_next_generation d) + 1"
    using gen(1) by (simp add: checked_add_Some_iff)
  have "length rs \<noteq> 0" using ok guards(1) by simp
  then show "pl_regions p \<noteq> []" by (metis rs length_0_conv length_sort)
qed (use assms(2) in \<open>auto simp: plan_owned_handler_def and_then_Ok_iff split: if_splits
      dest!: plan_regions_Ok [OF dispatcher_wfD(1) [OF assms(1)]]\<close>)

lemma plan_owned_handler_not_Panic [simp]: "plan_owned_handler alloc d i qs \<noteq> Panic"
  by (auto simp: plan_owned_handler_def and_then_Panic_iff split: if_splits)

lemma register_owned_cases:
  obtains (failed) e where "register_owned_handler alloc d own i qs h = (d, Err e)"
  | (success) p where "plan_owned_handler alloc d i qs = Ok p"
    and "register_owned_handler alloc d own i qs h =
      (d\<lparr>md_bus := pl_bus p, md_handlers := (md_handlers d)(i \<mapsto> h),
         md_registrations := AList.update (pl_generation p)
           \<lparr>rr_owner = own, rr_region_id = i, rr_regions = pl_regions p, rr_suspended_handler = None\<rparr>
           (md_registrations d),
         md_next_generation := pl_next_generation p\<rparr>,
       Ok \<lparr>ls_dispatcher = md_provenance d, ls_owner = own, ls_generation = pl_generation p,
           ls_region_id = i, ls_regions = pl_regions p\<rparr>)"
  by (cases "plan_owned_handler alloc d i qs") (auto simp: register_owned_handler_def)

text \<open>
  The operations on one registration change the record of one generation and, on the bus and in
  the handler map, only what carries one region id; no other published record has that id.
\<close>

lemma dispatcher_wf_change:
  assumes wf: "dispatcher_wf d" and bus: "bus_wf (md_bus d')"
    and gen: "md_next_generation d \<le> md_next_generation d'"
    and reg: "\<And>x. registered d' x = (if x = g then v else registered d x)"
    and new: "\<And>r. v = Some r \<Longrightarrow> g < md_next_generation d' \<and> record_wf r \<and> rr_region_id r = i \<and>
        (rr_suspended_handler r = None \<longrightarrow> published d' r)"
    and other: "\<And>x r. x \<noteq> g \<Longrightarrow> registered d x = Some r \<Longrightarrow> rr_suspended_handler r = None \<Longrightarrow> rr_region_id r \<noteq> i"
    and handlers: "\<And>j. j \<noteq> i \<Longrightarrow> md_handlers d' j = md_handlers d j"
    and regions: "\<And>x. mr_id x \<noteq> i \<Longrightarrow> x \<in> set (bus_regions (md_bus d')) \<longleftrightarrow> x \<in> set (bus_regions (md_bus d))"
  shows "dispatcher_wf d'"
  unfolding dispatcher_wf_def
proof (intro conjI allI impI)
  fix x r assume x: "registered d' x = Some r"
  show "x < md_next_generation d'" "record_wf r"
    using x new reg gen dispatcher_wfD(2,3) [OF wf, of x r] by (auto split: if_splits)
  show "published d' r" if "rr_suspended_handler r = None"
  proof (cases "x = g")
    case False
    then have "registered d x = Some r" using x reg by simp
    with dispatcher_wfD(4) [OF wf] that have "published d r" by blast
    moreover have "rr_region_id r \<noteq> i" using other False \<open>registered d x = Some r\<close> that by blast
    ultimately show ?thesis using handlers regions by (rule published_other)
  qed (use new x reg that in simp)
  show "x = y" if "registered d' y = Some s" "rr_suspended_handler r = None"
    "rr_suspended_handler s = None" "rr_region_id r = rr_region_id s" for y s
  proof (cases "x = g \<or> y = g")
    case True
    then show ?thesis
      using x that reg [of x] reg [of y] new other [of x r] other [of y s] by (auto split: if_splits)
  next
    case False
    then show ?thesis
      using x that reg wf unfolding dispatcher_wf_def by (metis (no_types, lifting))
  qed
qed (rule bus)

lemma published_handler: "published d r \<Longrightarrow> \<exists>h. md_handlers d (rr_region_id r) = Some h"
  by (auto simp: published_def)

lemma register_owned_handler_wf:
  assumes wf: "dispatcher_wf d"
  shows "dispatcher_wf (fst (register_owned_handler alloc d own i qs h))"
proof (cases rule: register_owned_cases [of alloc d own i qs h])
  case (success p)
  note plan = plan_owned_handler_Ok [OF wf success(1)]
  let ?r = "\<lparr>rr_owner = own, rr_region_id = i, rr_regions = pl_regions p, rr_suspended_handler = None\<rparr>"
  let ?d = "fst (register_owned_handler alloc d own i qs h)"
  have lt: "md_next_generation d < md_next_generation ?d"
    using plan(4) by (simp add: success(2) word_nat)
  have new: "published ?d ?r" "record_wf ?r"
    using plan by (auto simp: published_def record_wf_def success(2) has_region_id_iff)
  show ?thesis
  proof (rule dispatcher_wf_change [OF wf, where g = "md_next_generation d" and v = "Some ?r" and i = i])
    show "registered ?d x = (if x = md_next_generation d then Some ?r else registered d x)" for x
      by (simp add: success(2) plan(3) AList.update_conv')
    show "rr_region_id r \<noteq> i" if "registered d x = Some r" "rr_suspended_handler r = None" for x r
      using published_handler [OF dispatcher_wfD(4) [OF wf that]] plan(1) by auto
  qed (use lt new plan(5-7) in \<open>auto simp: success(2)\<close>)
qed (use wf in auto)

lemma lease_record_Ok_iff:
  "lease_record d own l = Ok r \<longleftrightarrow>
     md_provenance d = ls_dispatcher l \<and> own = ls_owner l \<and>
     registered d (ls_generation l) = Some r \<and> rr_owner r = own"
  by (auto simp: lease_record_def and_then_Ok_iff)

lemma lease_record_not_Panic [simp]: "lease_record d own l \<noteq> Panic"
  by (auto simp: lease_record_def and_then_Panic_iff)

text \<open>The record a lease names, with the region id and regions it was issued for.\<close>

definition leased :: "'h mmio_dispatcher \<Rightarrow> provenance \<Rightarrow> mmio_registration_lease \<Rightarrow>
    'h mmio_registration_record \<Rightarrow> bool" where
  "leased d own l r \<longleftrightarrow> lease_record d own l = Ok r \<and>
     rr_region_id r = ls_region_id l \<and> rr_regions r = ls_regions l"

lemma leased_registered: "leased d own l r \<Longrightarrow> registered d (ls_generation l) = Some r"
  by (simp add: leased_def lease_record_Ok_iff)

lemma unpublish_cases:
  obtains (failed) e where "unpublish_owned_handler d own l = (d, Err e)"
  | (success) r h where "leased d own l r" and "rr_suspended_handler r = None"
    and "md_handlers d (ls_region_id l) = Some h"
    and "contains_exact_regions (md_bus d) (ls_region_id l) (ls_regions l)"
    and "unpublish_owned_handler d own l =
      (d\<lparr>md_bus := remove_exact_regions (md_bus d) (ls_regions l),
         md_handlers := (md_handlers d)(ls_region_id l := None),
         md_registrations := AList.update (ls_generation l) (r\<lparr>rr_suspended_handler := Some h\<rparr>)
           (md_registrations d)\<rparr>, Ok ())"
proof (cases "lease_record d own l")
  case (Ok r)
  show thesis
  proof (cases "rr_region_id r = ls_region_id l \<and> rr_regions r = ls_regions l \<and>
      rr_suspended_handler r = None \<and> md_handlers d (ls_region_id l) \<noteq> None \<and>
      contains_exact_regions (md_bus d) (ls_region_id l) (ls_regions l)")
    case True
    then obtain h where "md_handlers d (ls_region_id l) = Some h" by auto
    with True Ok show thesis by (intro success [of r h]) (simp_all add: leased_def unpublish_owned_handler_def)
  next
    case False
    with Ok show thesis by (intro failed) (auto simp: unpublish_owned_handler_def)
  qed
qed (auto simp: unpublish_owned_handler_def intro: failed)

lemma republish_cases:
  obtains (failed) e where "republish_owned_handler d own l = (d, Err e)"
  | (success) r h b where "leased d own l r" and "rr_suspended_handler r = Some h"
    and "md_handlers d (ls_region_id l) = None" and "\<not> has_region_id (md_bus d) (ls_region_id l)"
    and "republish_regions (md_bus d) (ls_regions l) = Ok b"
    and "republish_owned_handler d own l =
      (d\<lparr>md_bus := b, md_handlers := (md_handlers d)(ls_region_id l \<mapsto> h),
         md_registrations := AList.update (ls_generation l) (r\<lparr>rr_suspended_handler := None\<rparr>)
           (md_registrations d)\<rparr>, Ok ())"
proof (cases "lease_record d own l")
  case (Ok r)
  show thesis
  proof (cases "suspended_record_matches d r l")
    case True
    then obtain h where h: "rr_suspended_handler r = Some h"
      by (auto simp: suspended_record_matches_def)
    show thesis
    proof (cases "republish_regions (md_bus d) (ls_regions l)")
      case b: (Ok b)
      show thesis
        using True h b Ok
        by (intro success [of r h b]) (auto simp: suspended_record_matches_def leased_def republish_owned_handler_def)
    qed (use True h Ok in \<open>auto simp: republish_owned_handler_def intro: failed\<close>)
  qed (use Ok in \<open>auto simp: republish_owned_handler_def intro: failed\<close>)
qed (auto simp: republish_owned_handler_def intro: failed)

lemma release_unpublished_cases:
  obtains (failed) e where "release_unpublished_handler d own l = (d, Err e)"
  | (success) r where "leased d own l r" and "suspended_record_matches d r l"
    and "release_unpublished_handler d own l =
      (d\<lparr>md_registrations := AList.delete (ls_generation l) (md_registrations d)\<rparr>, Ok ())"
proof (cases "\<exists>r. lease_record d own l = Ok r \<and> suspended_record_matches d r l")
  case True
  then show thesis
    by (auto intro!: success simp: release_unpublished_handler_def leased_def suspended_record_matches_def)
next
  case False
  then show thesis
    by (cases "lease_record d own l") (auto intro!: failed simp: release_unpublished_handler_def)
qed

lemma leased_wf:
  assumes "dispatcher_wf d" and "leased d own l r"
  shows "ls_generation l < md_next_generation d" and "record_wf r" and "rr_region_id r = ls_region_id l"
    and "rr_regions r = ls_regions l" and "ordered_disjoint (map mr_range (ls_regions l))"
    and "\<forall>x\<in>set (ls_regions l). mr_id x = ls_region_id l"
  using dispatcher_wfD(2,3) [OF assms(1) leased_registered [OF assms(2)]] assms(2)
  by (auto simp: leased_def record_wf_def)

lemma unpublish_wf:
  assumes wf: "dispatcher_wf d"
  shows "dispatcher_wf (fst (unpublish_owned_handler d own l))"
proof (cases rule: unpublish_cases [of d own l])
  case (success r h)
  note l = leased_wf [OF wf success(1)]
  let ?d = "fst (unpublish_owned_handler d own l)" and ?r = "r\<lparr>rr_suspended_handler := Some h\<rparr>"
  show ?thesis
  proof (rule dispatcher_wf_change [OF wf, where g = "ls_generation l" and v = "Some ?r" and i = "ls_region_id l"])
    show "registered ?d x = (if x = ls_generation l then Some ?r else registered d x)" for x
      by (simp add: success(5) AList.update_conv')
    show "rr_region_id s \<noteq> ls_region_id l"
      if "x \<noteq> ls_generation l" "registered d x = Some s" "rr_suspended_handler s = None" for x s
      using wf that leased_registered [OF success(1)] success(2) l(3) unfolding dispatcher_wf_def by metis
  qed (use l remove_exact_regions_wf [OF dispatcher_wfD(1) [OF wf]] in
      \<open>auto simp: success(5) record_wf_def remove_exact_regions_set\<close>)
qed (use wf in auto)

lemma republish_wf:
  assumes wf: "dispatcher_wf d"
  shows "dispatcher_wf (fst (republish_owned_handler d own l))"
proof (cases rule: republish_cases [of d own l])
  case (success r h b)
  note l = leased_wf [OF wf success(1)]
  note b = republish_regions_Ok [OF dispatcher_wfD(1) [OF wf] l(5) success(5)]
  let ?d = "fst (republish_owned_handler d own l)" and ?r = "r\<lparr>rr_suspended_handler := None\<rparr>"
  have "published ?d ?r"
    using b l success(4) by (auto simp: published_def success(6) has_region_id_iff)
  moreover have "rr_region_id s \<noteq> ls_region_id l"
    if "registered d x = Some s" "rr_suspended_handler s = None" for x s
    using published_handler [OF dispatcher_wfD(4) [OF wf that]] success(3) by auto
  ultimately show ?thesis
    using l b by (intro dispatcher_wf_change [OF wf, where g = "ls_generation l" and v = "Some ?r" and
        i = "ls_region_id l"]) (auto simp: success(6) AList.update_conv' record_wf_def)
qed (use wf in auto)

lemma release_unpublished_wf:
  assumes wf: "dispatcher_wf d"
  shows "dispatcher_wf (fst (release_unpublished_handler d own l))"
proof (cases rule: release_unpublished_cases [of d own l])
  case (success r)
  show ?thesis
    using dispatcher_wfD(1) [OF wf]
    by (intro dispatcher_wf_intro [OF wf]) (auto simp: success(3) AList.delete_conv' published_def split: if_splits)
qed (use wf in auto)

lemma release_owned_wf:
  assumes "dispatcher_wf d"
  shows "dispatcher_wf (fst (release_owned_handler d own l))"
  using unpublish_wf [OF assms, of own l]
    release_unpublished_wf [of "fst (unpublish_owned_handler d own l)" own l]
    republish_wf [of "fst (release_unpublished_handler (fst (unpublish_owned_handler d own l)) own l)" own l]
  by (auto simp: release_owned_handler_def split: prod.splits result.splits)

lemma bus_lookup_not_Panic [simp]: "bus_lookup b s z \<noteq> Panic"
  by (auto simp: bus_lookup_def and_then_Panic_iff Let_def range_contains_range_def sub_or_panic_def
      split: if_splits)

lemma dispatch_cases:
  obtains (failed) e where "dispatch hread hwrite d op = (d, Err e)"
  | (success) h h' res where "bus_lookup (md_bus d) (gmr_start (ma_range (operation_access op)))
        (gmr_size (ma_range (operation_access op))) = Ok (operation_access op)"
    and "md_handlers d (access_region_id (operation_access op)) = Some h"
    and "run_handler hread hwrite h op = (h', res)"
    and "dispatch hread hwrite d op =
      (d\<lparr>md_handlers := (md_handlers d)(access_region_id (operation_access op) \<mapsto> h')\<rparr>, res)"
proof (cases "validate_operation_access d (operation_access op)")
  case (Ok u)
  then have a: "bus_lookup (md_bus d) (gmr_start (ma_range (operation_access op)))
      (gmr_size (ma_range (operation_access op))) = Ok (operation_access op)"
    by (auto simp: validate_operation_access_def and_then_Ok_iff split: if_splits)
  show thesis
  proof (cases "md_handlers d (access_region_id (operation_access op))")
    case None
    with Ok show thesis by (auto simp: dispatch_def intro: failed)
  next
    case (Some h)
    obtain h' res where run: "run_handler hread hwrite h op = (h', res)" by fastforce
    show thesis by (rule success [OF a Some run]) (simp add: dispatch_def Ok Some run)
  qed
qed (auto simp: dispatch_def validate_operation_access_def and_then_Panic_iff split: if_splits
    intro: failed)

lemma dispatch_wf:
  assumes wf: "dispatcher_wf d"
  shows "dispatcher_wf (fst (dispatch hread hwrite d op))"
proof (cases rule: dispatch_cases [of hread hwrite d op])
  case (success h h' res)
  show ?thesis
    using dispatcher_wfD(1) [OF wf]
    by (intro dispatcher_wf_intro [OF wf]) (auto simp: success(4) published_def)
qed (use wf in auto)

section \<open>Runs of the dispatcher\<close>

text \<open>
  One call of an operation that changes the dispatcher, by any owner and with any lease,
  successful or not.
\<close>

inductive dispatcher_step ::
    "'h handler_read \<Rightarrow> 'h handler_write \<Rightarrow> 'h mmio_dispatcher \<Rightarrow> 'h mmio_dispatcher \<Rightarrow> bool"
  for hread hwrite where
  step_insert_region: "dispatcher_step hread hwrite d (fst (dispatcher_insert_region d i s z))"
| step_register: "dispatcher_step hread hwrite d (fst (register_handler d i h))"
| step_register_owned: "dispatcher_step hread hwrite d (fst (register_owned_handler alloc d own i qs h))"
| step_unpublish: "dispatcher_step hread hwrite d (fst (unpublish_owned_handler d own l))"
| step_republish: "dispatcher_step hread hwrite d (fst (republish_owned_handler d own l))"
| step_release_unpublished: "dispatcher_step hread hwrite d (fst (release_unpublished_handler d own l))"
| step_release_owned: "dispatcher_step hread hwrite d (fst (release_owned_handler d own l))"
| step_dispatch: "dispatcher_step hread hwrite d (fst (dispatch hread hwrite d op))"

abbreviation dispatcher_run ::
    "'h handler_read \<Rightarrow> 'h handler_write \<Rightarrow> 'h mmio_dispatcher \<Rightarrow> 'h mmio_dispatcher \<Rightarrow> bool" where
  "dispatcher_run hread hwrite \<equiv> (dispatcher_step hread hwrite)\<^sup>*\<^sup>*"

lemmas operation_wf = insert_region_wf register_handler_wf register_owned_handler_wf unpublish_wf
  republish_wf release_unpublished_wf release_owned_wf dispatch_wf

lemma dispatcher_step_wf: "dispatcher_step hread hwrite d d' \<Longrightarrow> dispatcher_wf d \<Longrightarrow> dispatcher_wf d'"
  by (induction rule: dispatcher_step.induct) (rule operation_wf; assumption)+

lemma dispatcher_run_wf: "dispatcher_run hread hwrite d d' \<Longrightarrow> dispatcher_wf d \<Longrightarrow> dispatcher_wf d'"
  by (induction rule: rtranclp_induct) (auto dest: dispatcher_step_wf)

lemmas reachable_wf = dispatcher_run_wf [OF _ dispatcher_new_wf]

text \<open>Once a generation has left the registrations it never comes back.\<close>

definition retired :: "'h mmio_dispatcher \<Rightarrow> provenance \<Rightarrow> u64 \<Rightarrow> bool" where
  "retired d p g \<longleftrightarrow> md_provenance d = p \<and> g < md_next_generation d \<and> registered d g = None"

lemma unpublish_retired: "retired d p g \<Longrightarrow> retired (fst (unpublish_owned_handler d own l)) p g"
  by (cases rule: unpublish_cases [of d own l])
     (auto simp: retired_def AList.update_conv' dest: leased_registered)

lemma republish_retired: "retired d p g \<Longrightarrow> retired (fst (republish_owned_handler d own l)) p g"
  by (cases rule: republish_cases [of d own l])
     (auto simp: retired_def AList.update_conv' dest: leased_registered)

lemma release_unpublished_retired: "retired d p g \<Longrightarrow> retired (fst (release_unpublished_handler d own l)) p g"
  by (cases rule: release_unpublished_cases [of d own l]) (auto simp: retired_def AList.delete_conv')

lemma release_owned_retired:
  "retired d p g \<Longrightarrow> retired (fst (release_owned_handler d own l)) p g"
  using unpublish_retired [of d p g own l]
    release_unpublished_retired [of "fst (unpublish_owned_handler d own l)" p g own l]
    republish_retired [of "fst (release_unpublished_handler (fst (unpublish_owned_handler d own l)) own l)" p g own l]
  by (auto simp: release_owned_handler_def split: prod.splits result.splits)

lemma register_owned_retired:
  assumes "dispatcher_wf d" and "retired d p g"
  shows "retired (fst (register_owned_handler alloc d own i qs h)) p g"
proof (cases rule: register_owned_cases [of alloc d own i qs h])
  case (success q)
  note plan = plan_owned_handler_Ok [OF assms(1) success(1)]
  then have "md_next_generation d < pl_next_generation q" by (simp add: word_nat)
  then show ?thesis
    using assms(2) plan(3) by (auto simp: success(2) retired_def AList.update_conv')
qed (use assms in auto)

lemma insert_region_retired: "retired d p g \<Longrightarrow> retired (fst (dispatcher_insert_region d i s z)) p g"
  by (auto simp: retired_def dispatcher_insert_region_def split: result.splits)

lemma register_handler_retired: "retired d p g \<Longrightarrow> retired (fst (register_handler d i h)) p g"
  by (auto simp: retired_def register_handler_def split: option.splits)

lemma dispatch_retired: "retired d p g \<Longrightarrow> retired (fst (dispatch hread hwrite d op)) p g"
  by (cases rule: dispatch_cases [of hread hwrite d op]) (auto simp: retired_def)

lemmas operation_retired = insert_region_retired register_handler_retired register_owned_retired
  unpublish_retired republish_retired release_unpublished_retired release_owned_retired dispatch_retired

lemma dispatcher_step_retired:
  "dispatcher_step hread hwrite d d' \<Longrightarrow> dispatcher_wf d \<Longrightarrow> retired d p g \<Longrightarrow> retired d' p g"
  by (induction rule: dispatcher_step.induct) (rule operation_retired; assumption)+

lemma dispatcher_run_retired:
  assumes "dispatcher_run hread hwrite d d'" and "dispatcher_wf d" and "retired d p g"
  shows "retired d' p g"
  using assms(1)
proof (induction rule: rtranclp_induct)
  case (step d1 d2)
  then show ?case
    using dispatcher_step_retired [OF step(2) dispatcher_run_wf [OF step(1) assms(2)]] by blast
qed (rule assms(3))

lemma retired_lease_record:
  "retired d (ls_dispatcher l) (ls_generation l) \<Longrightarrow>
   lease_record d (ls_owner l) l = Err (StaleLease (ls_region_id l))"
  by (simp add: retired_def lease_record_def)

lemma bus_lookup_Err:
  assumes "bus_wf b" and "range_new s z = Ok rng"
    and "\<forall>r\<in>set (bus_regions b). \<not> guest_memory_range_contains (mr_range r) rng"
  shows "bus_lookup b s z = Err (UnownedAccess rng)"
proof -
  let ?n = "partition_point (\<lambda>r. gmr_start (mr_range r) \<le> gmr_start rng) (bus_regions b)"
  have "bus_regions b ! (?n - 1) \<in> set (bus_regions b)" if "?n \<noteq> 0"
    using that partition_point_le [of "\<lambda>r. gmr_start (mr_range r) \<le> gmr_start rng" "bus_regions b"]
    by (intro nth_mem) linarith
  then have "?n \<noteq> 0 \<Longrightarrow> \<not> guest_memory_range_contains (mr_range (bus_regions b ! (?n - 1))) rng"
    using assms(3) by blast
  then show ?thesis
    using assms(2)
    by (simp add: bus_lookup_def Let_def range_contains_range_def guest_memory_range_contains_def)
qed

lemma bus_region_wf: "bus_wf b \<Longrightarrow> r \<in> set (bus_regions b) \<Longrightarrow> region_wf r"
  by (simp add: bus_wf_def ordered_disjoint_def)

lemma bus_owner_unique:
  assumes "bus_wf b" and "r \<in> set (bus_regions b)" and "x \<in> set (bus_regions b)"
    and "contains (mr_range r) a" and "contains (mr_range x) a"
  shows "x = r"
  using bus_table.unique_owner [OF assms] assms(2,3)
    ordered_disjoint_distinct [OF assms(1) [unfolded bus_wf_def]]
  by (auto simp: distinct_map dest: inj_onD)

section \<open>Properties\<close>

text \<open>
  on a bus of ordered disjoint regions a lookup succeeds exactly for a non-empty range of the
  address space that lies inside a region.  It returns that region and the distance to its start,
  and no other region shares an address with the range.  A range inside no region is reported as
  \<open>UnownedAccess\<close>.
\<close>

lemma bus_lookup_exact:
  assumes wf: "bus_wf b" and new: "range_new s z = Ok rng"
  shows "(\<forall>a. bus_lookup b s z = Ok a \<longleftrightarrow> ma_range a = rng \<and>
        ma_region a \<in> set (bus_regions b) \<and> addresses rng \<subseteq> addresses (mr_range (ma_region a)) \<and>
        ma_offset a = s - gmr_start (mr_range (ma_region a))) \<and>
      (\<forall>a. bus_lookup b s z = Ok a \<longrightarrow>
        {x \<in> set (bus_regions b). addresses rng \<inter> addresses (mr_range x) \<noteq> {}} = {ma_region a}) \<and>
      ((\<forall>r\<in>set (bus_regions b). \<not> addresses rng \<subseteq> addresses (mr_range r)) \<longrightarrow>
        bus_lookup b s z = Err (UnownedAccess rng))"
proof -
  have rw: "range_wf rng" and st: "contains rng s"
    using new range_wf_start_contained [of rng] by (auto simp: range_new_Ok_iff)
  have sub: "guest_memory_range_contains (mr_range r) rng \<longleftrightarrow> addresses rng \<subseteq> addresses (mr_range r)"
    if "r \<in> set (bus_regions b)" for r
    by (rule range_contains_iff_subset [OF bus_region_wf [OF wf that] rw])
  have ok: "bus_lookup b s z = Ok a \<longleftrightarrow> ma_range a = rng \<and>
      ma_region a \<in> set (bus_regions b) \<and> addresses rng \<subseteq> addresses (mr_range (ma_region a)) \<and>
      ma_offset a = s - gmr_start (mr_range (ma_region a))" for a
    using bus_lookup_Ok_iff [OF wf, of s z a] sub [of "ma_region a"] new by auto
  have uniq: "{x \<in> set (bus_regions b). addresses rng \<inter> addresses (mr_range x) \<noteq> {}} = {r}"
    if "r \<in> set (bus_regions b)" "addresses rng \<subseteq> addresses (mr_range r)" for r
    using that st bus_owner_unique [OF wf that(1)] by (fastforce simp: subset_iff)
  show ?thesis
    using ok uniq bus_lookup_Err [OF wf new] sub by auto
qed

definition sample_bus :: mmio_bus where
  "sample_bus = \<lparr>bus_regions =
     [\<lparr>mr_id = 1, mr_range = \<lparr>gmr_start = 0x1000, gmr_size = 0x1000, gmr_end_exclusive = 0x2000\<rparr>\<rparr>,
      \<lparr>mr_id = 2, mr_range = \<lparr>gmr_start = 0x2000, gmr_size = 0x100, gmr_end_exclusive = 0x2100\<rparr>\<rparr>]\<rparr>"

lemma sample_bus_wf: "bus_wf sample_bus"
  by (simp add: bus_wf_def sample_bus_def range_wf_def range_before_def)

lemma bus_lookup_exact_witness:
  "bus_lookup sample_bus 0x2010 4 =
     Ok \<lparr>ma_region = \<lparr>mr_id = 2, mr_range = \<lparr>gmr_start = 0x2000, gmr_size = 0x100, gmr_end_exclusive = 0x2100\<rparr>\<rparr>,
         ma_range = \<lparr>gmr_start = 0x2010, gmr_size = 4, gmr_end_exclusive = 0x2014\<rparr>, ma_offset = 0x10\<rparr>"
proof -
  have "range_new 0x2010 4 = Ok \<lparr>gmr_start = 0x2010, gmr_size = 4, gmr_end_exclusive = 0x2014\<rparr>"
    (is "_ = Ok ?r") by (simp add: range_new_Ok_iff range_wf_def)
  note exact = bus_lookup_exact [OF sample_bus_wf this, THEN conjunct1, rule_format]
  have "addresses ?r \<subseteq> addresses \<lparr>gmr_start = 0x2000, gmr_size = 0x100, gmr_end_exclusive = 0x2100\<rparr>"
    by (subst range_contains_iff_subset [symmetric])
      (simp_all add: range_wf_def guest_memory_range_contains_def)
  then show ?thesis by (simp add: exact) (simp add: sample_bus_def)
qed

text \<open>
  C8: whatever calls a dispatcher has served since it was created, its bus is ordered and
  disjoint, every lease was issued for a generation below the next one, a published lease has a
  handler and exactly its recorded regions on the bus under its id, and no two published leases
  share an id.
\<close>

theorem dispatcher_invariant:
  assumes "dispatcher_run hread hwrite (dispatcher_new p) d"
  shows "dispatcher_wf d"
  using assms by (rule reachable_wf)

text \<open>A concrete handler, the number of its calls, and a dispatcher with one lease.\<close>

definition counter_read :: "nat handler_read" where
  "counter_read h a = (Suc h, Ok \<lparr>mab_bytes = [1, 2, 3, 4, 0, 0, 0, 0], mab_len = 4\<rparr>)"

definition counter_write :: "nat handler_write" where
  "counter_write h a d = (Suc h, Ok ())"

definition sample_region :: mmio_region where
  "sample_region = \<lparr>mr_id = 7, mr_range = \<lparr>gmr_start = 0x1000, gmr_size = 0x1000, gmr_end_exclusive = 0x2000\<rparr>\<rparr>"

definition sample_lease :: mmio_registration_lease where
  "sample_lease = \<lparr>ls_dispatcher = 0, ls_owner = 5, ls_generation = 0, ls_region_id = 7, ls_regions = [sample_region]\<rparr>"

definition leased_dispatcher :: "nat mmio_dispatcher" where
  "leased_dispatcher =
     \<lparr>md_bus = \<lparr>bus_regions = [sample_region]\<rparr>, md_handlers = [7 \<mapsto> 0], md_provenance = 0, md_next_generation = 1,
      md_registrations = [(0, \<lparr>rr_owner = 5, rr_region_id = 7, rr_regions = [sample_region],
        rr_suspended_handler = None\<rparr>)]\<rparr>"

lemma sample_registration:
  "register_owned_handler (\<lambda>_ _. True) (dispatcher_new 0) 5 7 [\<lparr>rq_start = 0x1000, rq_size = 0x1000\<rparr>] 0 =
     (leased_dispatcher, Ok sample_lease)"
  by (simp add: register_owned_handler_def plan_owned_handler_def dispatcher_new_def bus_new_def
      has_region_id_def checked_add_def bus_insert_def mmio_region_new_def range_new_def vec_insert_def
      partition_point_def leased_dispatcher_def sample_lease_def sample_region_def)

lemma leased_dispatcher_run: "dispatcher_run hread hwrite (dispatcher_new 0) leased_dispatcher"
  using dispatcher_step.step_register_owned [of hread hwrite "dispatcher_new 0" "\<lambda>_ _. True" 5 7
      "[\<lparr>rq_start = 0x1000, rq_size = 0x1000\<rparr>]" 0] by (simp add: sample_registration)

theorem dispatcher_invariant_witness:
  "dispatcher_wf leased_dispatcher \<and> md_registrations leased_dispatcher \<noteq> []"
  using dispatcher_invariant [OF leased_dispatcher_run [of counter_read counter_write]]
  by (simp add: leased_dispatcher_def)

text \<open>
  C7: dispatching an operation on a dispatcher that has served any calls since its creation.  When
  the access is the one its bus resolves (inside a region of the bus, at the right offset), exactly
  the handler registered for that region runs, once, and every other handler, the bus and the
  leases stay as they are; without a handler the error is \<open>MissingHandler\<close>.  Every other access
  is rejected, with no handler run and nothing changed.
\<close>

theorem dispatch_routing:
  assumes run: "dispatcher_run hread hwrite (dispatcher_new p) d"
    and a: "a = operation_access op"
  shows "if ma_region a \<in> set (bus_regions (md_bus d)) \<and> range_wf (ma_range a) \<and>
            addresses (ma_range a) \<subseteq> addresses (mr_range (ma_region a)) \<and>
            ma_offset a = gmr_start (ma_range a) - gmr_start (mr_range (ma_region a))
         then dispatch hread hwrite d op =
           (case md_handlers d (mr_id (ma_region a)) of
              None \<Rightarrow> (d, Err (MissingHandler (mr_id (ma_region a))))
            | Some h \<Rightarrow> (d\<lparr>md_handlers := (md_handlers d)
                            (mr_id (ma_region a) \<mapsto> fst (run_handler hread hwrite h op))\<rparr>,
                         snd (run_handler hread hwrite h op)))
         else \<exists>e. dispatch hread hwrite d op = (d, Err e)" (is "if ?own then _ else _")
proof -
  have wf: "bus_wf (md_bus d)" by (rule dispatcher_wfD(1) [OF reachable_wf [OF run]])
  have own: "bus_lookup (md_bus d) (gmr_start (ma_range a)) (gmr_size (ma_range a)) = Ok a \<longleftrightarrow> ?own"
    using bus_lookup_Ok_iff [OF wf, of _ _ a] bus_region_wf [OF wf, of "ma_region a"]
      range_contains_iff_subset [of "mr_range (ma_region a)" "ma_range a"]
    by (auto simp: range_new_Ok_iff)
  show ?thesis
  proof (cases ?own)
    case True
    then have "validate_operation_access d a = Ok ()"
      using own by (simp add: validate_operation_access_def)
    then show ?thesis
      using True by (simp add: dispatch_def a access_region_id_def split: option.splits prod.splits)
  next
    case False
    then show ?thesis
      using own a by (cases rule: dispatch_cases [of hread hwrite d op]) auto
  qed
qed

theorem dispatch_routing_witness:
  "\<exists>a. operation_access (OpRead a \<lparr>mab_bytes = replicate 8 0, mab_len = 4\<rparr>) = a \<and>
     ma_range a = \<lparr>gmr_start = 0x1010, gmr_size = 4, gmr_end_exclusive = 0x1014\<rparr> \<and>
     dispatch counter_read counter_write leased_dispatcher (OpRead a \<lparr>mab_bytes = replicate 8 0, mab_len = 4\<rparr>) =
       (leased_dispatcher\<lparr>md_handlers := [7 \<mapsto> 1]\<rparr>,
        Ok (ReadOutcome \<lparr>mab_bytes = [1, 2, 3, 4, 0, 0, 0, 0], mab_len = 4\<rparr>))"
proof -
  let ?r = "\<lparr>gmr_start = 0x1010, gmr_size = 4, gmr_end_exclusive = 0x1014\<rparr> :: guest_memory_range"
  let ?a = "\<lparr>ma_region = sample_region, ma_range = ?r, ma_offset = 0x10\<rparr>"
  have "addresses ?r \<subseteq> addresses (mr_range sample_region)" and "range_wf ?r"
    by (subst range_contains_iff_subset [symmetric])
      (simp_all add: range_wf_def guest_memory_range_contains_def sample_region_def)
  then have "dispatch counter_read counter_write leased_dispatcher (OpRead ?a \<lparr>mab_bytes = replicate 8 0, mab_len = 4\<rparr>) =
       (leased_dispatcher\<lparr>md_handlers := [7 \<mapsto> 1]\<rparr>,
        Ok (ReadOutcome \<lparr>mab_bytes = [1, 2, 3, 4, 0, 0, 0, 0], mab_len = 4\<rparr>))"
    using dispatch_routing [OF leased_dispatcher_run [of counter_read counter_write], of ?a
        "OpRead ?a \<lparr>mab_bytes = replicate 8 0, mab_len = 4\<rparr>"]
    by (simp add: leased_dispatcher_def run_handler_def counter_read_def sample_region_def access_region_id_def)
  then show ?thesis by (intro exI [of _ ?a]) simp
qed

subsection \<open>The life cycle of a lease\<close>

lemma unpublish_Ok:
  assumes "dispatcher_wf d" and "unpublish_owned_handler d own l = (d', Ok ())"
  obtains r h where "leased d own l r" and "rr_suspended_handler r = None"
    and "md_handlers d (ls_region_id l) = Some h"
    and "{x \<in> set (bus_regions (md_bus d)). mr_id x = ls_region_id l} = set (ls_regions l)"
    and "d' = d\<lparr>md_bus := remove_exact_regions (md_bus d) (ls_regions l),
         md_handlers := (md_handlers d)(ls_region_id l := None),
         md_registrations := AList.update (ls_generation l) (r\<lparr>rr_suspended_handler := Some h\<rparr>)
           (md_registrations d)\<rparr>"
proof (cases rule: unpublish_cases [of d own l])
  case (success r h)
  note l = leased_wf [OF assms(1) success(1)]
  have "distinct (ls_regions l)" using record_wf_distinct [OF l(2)] l(4) by simp
  then show thesis
    using that [OF success(1-3)] contains_exact_regions_iff [OF dispatcher_wfD(1) [OF assms(1)] _ l(6)]
      success(4,5) assms(2) by simp
qed (use assms(2) in simp)

lemma republish_restores:
  assumes wf: "dispatcher_wf d" and un: "unpublish_owned_handler d own l = (d', Ok ())"
  shows "republish_owned_handler d' own l = (d, Ok ())"
proof -
  obtain r h where r: "leased d own l r" "rr_suspended_handler r = None" "md_handlers d (ls_region_id l) = Some h"
    and own: "{x \<in> set (bus_regions (md_bus d)). mr_id x = ls_region_id l} = set (ls_regions l)"
    and d': "d' = d\<lparr>md_bus := remove_exact_regions (md_bus d) (ls_regions l),
         md_handlers := (md_handlers d)(ls_region_id l := None),
         md_registrations := AList.update (ls_generation l) (r\<lparr>rr_suspended_handler := Some h\<rparr>)
           (md_registrations d)\<rparr>"
    by (rule unpublish_Ok [OF wf un])
  let ?b = "remove_exact_regions (md_bus d) (ls_regions l)" and ?r = "r\<lparr>rr_suspended_handler := Some h\<rparr>"
  note l = leased_wf [OF wf r(1)]
  note bwf = dispatcher_wfD(1) [OF wf]
  note rm = remove_exact_regions_wf [OF bwf, of "ls_regions l"] remove_exact_regions_set [of "md_bus d" "ls_regions l"]
  have mem: "x \<in> set (bus_regions (md_bus d))" if "x \<in> set (ls_regions l)" for x using own that by blast
  have "\<not> overlaps (mr_range x) (mr_range y)" if "y \<in> set (ls_regions l)" "x \<in> set (bus_regions ?b)" for x y
  proof
    assume ov: "overlaps (mr_range x) (mr_range y)"
    have "x \<in> set (bus_regions (md_bus d))" "x \<noteq> y" using that rm(2) by auto
    then show False
      using ov mem [OF that(1)] bus_region_wf [OF bwf] bus_owner_unique [OF bwf]
        overlaps_iff_common_address [of "mr_range x" "mr_range y"] by fastforce
  qed
  then obtain b where b: "republish_regions ?b (ls_regions l) = Ok b"
    using republish_regions_clear [OF rm(1) l(5)] by blast
  have "b = md_bus d"
    using republish_regions_Ok [OF rm(1) l(5) b] rm(2) mem by (intro bus_eqI [OF _ bwf]) auto
  moreover have "lease_record d' own l = Ok ?r"
    using r(1) by (simp add: d' leased_def lease_record_Ok_iff AList.update_conv')
  moreover have "suspended_record_matches d' ?r l"
    using l(3,4) rm(2) own by (auto simp: suspended_record_matches_def d' has_region_id_iff)
  moreover have "r\<lparr>rr_suspended_handler := None\<rparr> = r" using r(2) by simp
  ultimately show ?thesis
    using b r(3) leased_registered [OF r(1)]
    by (simp add: republish_owned_handler_def d' AList.update_last AList.update_triv fun_upd_idem)
qed

lemma release_after_unpublish:
  assumes wf: "dispatcher_wf d" and un: "unpublish_owned_handler d own l = (d', Ok ())"
  shows "release_unpublished_handler d' own l =
     (d'\<lparr>md_registrations := AList.delete (ls_generation l) (md_registrations d')\<rparr>, Ok ())"
proof (cases rule: release_unpublished_cases [of d' own l])
  case (failed e)
  have "republish_owned_handler d' own l = (d, Ok ())" by (rule republish_restores [OF wf un])
  then obtain r where "lease_record d' own l = Ok r" "suspended_record_matches d' r l"
    by (auto simp: republish_owned_handler_def split: result.splits if_splits)
  then show ?thesis using failed by (simp add: release_unpublished_handler_def)
qed simp

text \<open>
  C9: unpublishing a lease of a dispatcher and republishing it gives back the very same dispatcher,
  bus order included.  In between, no access that starts in one of the lease's regions resolves.
\<close>

theorem unpublish_republish_roundtrip:
  assumes run: "dispatcher_run hread hwrite (dispatcher_new p) d"
    and un: "unpublish_owned_handler d own l = (d', Ok ())"
  shows "republish_owned_handler d' own l = (d, Ok ()) \<and>
    (\<forall>r\<in>set (ls_regions l). \<forall>a z. contains (mr_range r) a \<longrightarrow> \<not> is_ok (dispatcher_lookup d' a z))"
proof -
  note wf = reachable_wf [OF run]
  obtain r h where own: "{x \<in> set (bus_regions (md_bus d)). mr_id x = ls_region_id l} = set (ls_regions l)"
    and bus: "md_bus d' = remove_exact_regions (md_bus d) (ls_regions l)"
    by (rule unpublish_Ok [OF wf un]) auto
  have "\<not> is_ok (dispatcher_lookup d' a z)" if r: "r \<in> set (ls_regions l)" and a: "contains (mr_range r) a" for r a z
  proof
    assume "is_ok (dispatcher_lookup d' a z)"
    then obtain acc where "bus_lookup (md_bus d') a z = Ok acc"
      by (auto simp: dispatcher_lookup_def is_ok_iff)
    note ok = this [unfolded bus bus_lookup_Ok_iff [OF remove_exact_regions_wf [OF dispatcher_wfD(1) [OF wf]]]]
    then have "ma_region acc \<in> set (bus_regions (md_bus d)) - set (ls_regions l)"
      by (simp add: remove_exact_regions_set)
    moreover have "contains (mr_range (ma_region acc)) a"
      using ok range_wf_start_contained [of "ma_range acc"]
      by (auto simp: range_new_Ok_iff guest_memory_range_contains_def contains_def)
    moreover have "r \<in> set (bus_regions (md_bus d))" using own r by blast
    ultimately show False
      using bus_owner_unique [OF dispatcher_wfD(1) [OF wf], of r "ma_region acc" a] r a by auto
  qed
  then show ?thesis using republish_restores [OF wf un] by blast
qed

theorem unpublish_republish_roundtrip_witness:
  "\<exists>d'. unpublish_owned_handler leased_dispatcher 5 sample_lease = (d', Ok ()) \<and>
     republish_owned_handler d' 5 sample_lease = (leased_dispatcher, Ok ()) \<and>
     \<not> is_ok (dispatcher_lookup d' 0x1800 4)"
proof -
  have "snd (unpublish_owned_handler leased_dispatcher 5 sample_lease) = Ok ()"
    by (simp add: unpublish_owned_handler_def lease_record_def leased_dispatcher_def sample_lease_def
        contains_exact_regions_def sample_region_def)
  then obtain d' where d': "unpublish_owned_handler leased_dispatcher 5 sample_lease = (d', Ok ())"
    by (metis prod.collapse)
  show ?thesis
    using unpublish_republish_roundtrip [OF leased_dispatcher_run [of counter_read counter_write] d'] d'
    by (auto simp: sample_lease_def sample_region_def contains_def)
qed

lemma delete_updated: "AList.delete k (AList.update k v al) = AList.delete k al"
  by (induction al) auto

lemma fresh_generation:
  assumes "dispatcher_wf d"
  shows "md_next_generation d \<notin> fst ` set (md_registrations d)"
proof -
  have "registered d (md_next_generation d) = None"
    using dispatcher_wfD(2) [OF assms] by (cases "registered d (md_next_generation d)") auto
  then show ?thesis by (simp add: map_of_eq_None_iff)
qed

lemma release_after_register:
  assumes wf: "dispatcher_wf d" and reg: "register_owned_handler alloc d own i qs h = (d1, Ok l)"
  shows "release_owned_handler d1 own l = (d\<lparr>md_next_generation := md_next_generation d + 1\<rparr>, Ok ())"
proof (cases rule: register_owned_cases [of alloc d own i qs h])
  case (success p)
  let ?g = "md_next_generation d" and ?rs = "pl_regions p"
  note plan = plan_owned_handler_Ok [OF wf success(1)]
  have nxt: "pl_next_generation p = ?g + 1"
    using plan(4) unat_lt_exp [of "pl_next_generation p"]
    by (simp add: word_unat_eq_iff unat_add_no_overflow)
  have l: "l = \<lparr>ls_dispatcher = md_provenance d, ls_owner = own, ls_generation = ?g, ls_region_id = i, ls_regions = ?rs\<rparr>"
    and d1: "d1 = fst (register_owned_handler alloc d own i qs h)"
    using reg plan(3) success(2) by auto
  have wf1: "dispatcher_wf d1" unfolding d1 by (rule register_owned_handler_wf [OF wf])
  have rs: "{x \<in> set (bus_regions (pl_bus p)). mr_id x = i} = set ?rs"
    using plan(2,6,7) by (auto simp: has_region_id_iff)
  have "distinct ?rs" using ordered_disjoint_distinct [OF plan(8)] by (simp add: distinct_map)
  then have exact: "contains_exact_regions (pl_bus p) i ?rs"
    using contains_exact_regions_iff [OF plan(5) _ plan(7)] rs by simp
  have bus: "remove_exact_regions (pl_bus p) ?rs = md_bus d"
    using plan(2,6,7) remove_exact_regions_wf [OF plan(5)] dispatcher_wfD(1) [OF wf]
    by (intro bus_eqI) (auto simp: remove_exact_regions_set has_region_id_iff)
  obtain d' where un: "unpublish_owned_handler d1 own l = (d', Ok ())"
    and d': "md_bus d' = md_bus d" "md_handlers d' = md_handlers d" "md_provenance d' = md_provenance d"
      "md_next_generation d' = ?g + 1" "AList.delete ?g (md_registrations d') = md_registrations d"
    using exact bus plan(1,3) nxt fresh_generation [OF wf]
    by (auto simp: unpublish_owned_handler_def lease_record_def d1 success(2) l AList.update_conv'
        fun_upd_idem delete_updated)
  then show ?thesis
    using release_after_unpublish [OF wf1 un] by (simp add: release_owned_handler_def l)
qed (use reg in simp)

text \<open>
  releasing a lease right after its registration undoes the registration: bus, handlers and
  leases are as before, only the next generation has advanced by one.  From then on, whatever calls
  follow, every operation on that lease is refused as stale and changes nothing.
\<close>

lemma released_lease_stale:
  assumes run: "dispatcher_run hread hwrite (dispatcher_new p) d"
    and reg: "register_owned_handler alloc d own i qs h = (d1, Ok l)"
  shows "release_owned_handler d1 own l = (d\<lparr>md_next_generation := md_next_generation d + 1\<rparr>, Ok ()) \<and>
    (\<forall>d3. dispatcher_run hread hwrite (d\<lparr>md_next_generation := md_next_generation d + 1\<rparr>) d3 \<longrightarrow>
       unpublish_owned_handler d3 own l = (d3, Err (StaleLease i)) \<and>
       republish_owned_handler d3 own l = (d3, Err (StaleLease i)) \<and>
       release_unpublished_handler d3 own l = (d3, Err (StaleLease i)) \<and>
       release_owned_handler d3 own l = (d3, Err (StaleLease i)))"
proof -
  note wf = reachable_wf [OF run]
  let ?d2 = "d\<lparr>md_next_generation := md_next_generation d + 1\<rparr>"
  have rel: "release_owned_handler d1 own l = (?d2, Ok ())" by (rule release_after_register [OF wf reg])
  have wf1: "dispatcher_wf d1" using register_owned_handler_wf [OF wf, of alloc own i qs h] by (simp add: reg)
  have wf2: "dispatcher_wf ?d2" using release_owned_wf [OF wf1, of own l] by (simp add: rel)
  have l: "ls_owner l = own" "ls_region_id l = i" "retired ?d2 (ls_dispatcher l) (ls_generation l)"
  proof -
    obtain p where p: "plan_owned_handler alloc d i qs = Ok p"
      and l: "l = \<lparr>ls_dispatcher = md_provenance d, ls_owner = own, ls_generation = pl_generation p,
           ls_region_id = i, ls_regions = pl_regions p\<rparr>"
      using reg by (cases rule: register_owned_cases [of alloc d own i qs h]) auto
    note plan = plan_owned_handler_Ok [OF wf p]
    have "md_next_generation d < md_next_generation d + 1"
      using plan(4) unat_lt_exp [of "pl_next_generation p"] by (simp add: word_nat unat_add_no_overflow)
    then show "ls_owner l = own" "ls_region_id l = i" "retired ?d2 (ls_dispatcher l) (ls_generation l)"
      using fresh_generation [OF wf] by (simp_all add: l retired_def plan(3) map_of_eq_None_iff)
  qed
  have "lease_record d3 own l = Err (StaleLease i)" if "dispatcher_run hread hwrite ?d2 d3" for d3
    using retired_lease_record [OF dispatcher_run_retired [OF that wf2 l(3)]] l(1,2) by simp
  then show ?thesis
    using rel by (auto simp: unpublish_owned_handler_def republish_owned_handler_def
        release_unpublished_handler_def release_owned_handler_def)
qed

lemma released_lease_stale_witness:
  "release_owned_handler leased_dispatcher 5 sample_lease =
     ((dispatcher_new 0 :: nat mmio_dispatcher)\<lparr>md_next_generation := 1\<rparr>, Ok ()) \<and>
   unpublish_owned_handler ((dispatcher_new 0 :: nat mmio_dispatcher)\<lparr>md_next_generation := 1\<rparr>) 5 sample_lease =
     ((dispatcher_new 0)\<lparr>md_next_generation := 1\<rparr>, Err (StaleLease 7))"
  using released_lease_stale [OF rtranclp.rtrancl_refl [of "dispatcher_step counter_read counter_write"]
      sample_registration]
  by (simp add: dispatcher_new_def)

subsection \<open>The identity of a suspended registration\<close>

text \<open>
  Unpublishing keeps the record of the lease, and \<open>insert_region\<close> and \<open>register_handler\<close>
  refuse the id of a kept record.  \<open>plan_owned_handler\<close> only looks at the handlers and at the
  bus: another owner can register the id of a suspended lease.
\<close>

definition lease_requests :: "mmio_registration_lease \<Rightarrow> mmio_region_request list" where
  "lease_requests l = map (\<lambda>r. \<lparr>rq_start = gmr_start (mr_range r), rq_size = gmr_size (mr_range r)\<rparr>) (ls_regions l)"

lemma republish_regions_plan:
  assumes "republish_regions b rs = Ok b'" and "\<forall>r\<in>set rs. mr_id r = i"
  shows "\<exists>rs'. plan_regions b i n (map (\<lambda>r. \<lparr>rq_start = gmr_start (mr_range r), rq_size = gmr_size (mr_range r)\<rparr>) rs) = Ok (b', rs')"
  using assms
proof (induction rs arbitrary: b n)
  case (Cons r rs)
  obtain b1 q where "bus_insert b i (gmr_start (mr_range r)) (gmr_size (mr_range r)) = Ok (b1, q)"
    and "republish_regions b1 rs = Ok b'"
    using Cons.prems by (auto simp: and_then_Ok_iff)
  then show ?case using Cons.IH [of b1 "Suc n"] Cons.prems(2) by auto
qed simp

text \<open>A suspended lease leaves room for a registration of the same id on the same regions.\<close>

lemma suspended_plan:
  assumes wf: "dispatcher_wf d" and un: "unpublish_owned_handler d own l = (d', Ok ())"
    and gen: "unat (md_next_generation d) + 1 < 2 ^ 64"
  shows "\<exists>p. plan_owned_handler (\<lambda>_ _. True) d' (ls_region_id l) (lease_requests l) = Ok p"
proof -
  obtain r h where r: "leased d own l r" and g: "md_next_generation d' = md_next_generation d"
    by (rule unpublish_Ok [OF wf un]) auto
  note l = leased_wf [OF wf r]
  have re: "republish_owned_handler d' own l = (d, Ok ())" by (rule republish_restores [OF wf un])
  obtain b where b: "republish_regions (md_bus d') (ls_regions l) = Ok b"
    and free: "md_handlers d' (ls_region_id l) = None" "\<not> has_region_id (md_bus d') (ls_region_id l)"
    by (cases rule: republish_cases [of d' own l]) (use re in auto)
  obtain rs where "plan_regions (md_bus d') (ls_region_id l) 0 (lease_requests l) = Ok (b, rs)"
    using republish_regions_plan [OF b l(6)] unfolding lease_requests_def by blast
  moreover have "checked_add (md_next_generation d') 1 = Some (md_next_generation d' + 1)"
    using gen g by (simp add: checked_add_Some_iff unat_add_no_overflow)
  moreover have "lease_requests l \<noteq> []" using l(2,4) by (auto simp: lease_requests_def record_wf_def)
  ultimately show ?thesis using free by (simp add: plan_owned_handler_def)
qed

text \<open>Registering the id of a suspended lease keeps the lease's record and occupies its id.\<close>

lemma suspended_after_register:
  assumes wf: "dispatcher_wf d'" and r: "lease_record d' own l = Ok r" "rr_region_id r = ls_region_id l"
    and reg: "register_owned_handler alloc d' own' (ls_region_id l) qs h = (d2, Ok l2)"
  shows "lease_record d2 own l = Ok r \<and> \<not> suspended_record_matches d2 r l"
proof (cases rule: register_owned_cases [of alloc d' own' "ls_region_id l" qs h])
  case (success p)
  have reg_r: "registered d' (ls_generation l) = Some r" using r(1) by (simp add: lease_record_Ok_iff)
  have "ls_generation l \<noteq> pl_generation p"
    using dispatcher_wfD(2) [OF wf reg_r] plan_owned_handler_Ok(3) [OF wf success(1)] by auto
  then show ?thesis
    using r reg success(2)
    by (auto simp: lease_record_Ok_iff AList.update_conv' suspended_record_matches_def)
qed (use reg in simp)

text \<open>
  C36: the id of a suspended lease is not reserved against owned registrations.  Whenever an owner
  unpublishes a lease of a reachable dispatcher, a legacy region or handler with that id is refused;
  yet, while generations are left and allocation succeeds, any owner can register the id on the
  regions of the suspended lease.  Whoever registers the id, on whatever regions: in the resulting
  dispatcher neither the rollback of the first owner nor dropping its suspended handler works.
\<close>

theorem suspended_identity_reused:
  assumes run: "dispatcher_run hread hwrite (dispatcher_new p) d"
    and un: "unpublish_owned_handler d own l = (d', Ok ())"
  shows "(\<forall>s z. dispatcher_insert_region d' (ls_region_id l) s z = (d', Err (LeasedRegionId (ls_region_id l)))) \<and>
    (\<forall>h. register_handler d' (ls_region_id l) h = (d', Err (LeasedHandler (ls_region_id l)))) \<and>
    (unat (md_next_generation d) + 1 < 2 ^ 64 \<longrightarrow>
      (\<forall>own' h. is_ok (snd (register_owned_handler (\<lambda>_ _. True) d' own' (ls_region_id l) (lease_requests l) h)))) \<and>
    (\<forall>alloc own' qs h d2 l2. register_owned_handler alloc d' own' (ls_region_id l) qs h = (d2, Ok l2) \<longrightarrow>
      republish_owned_handler d2 own l = (d2, Err (RegistrationMismatch (ls_region_id l))) \<and>
      release_unpublished_handler d2 own l = (d2, Err (RegistrationMismatch (ls_region_id l))))"
proof -
  note wf = reachable_wf [OF run]
  have wf': "dispatcher_wf d'" using unpublish_wf [OF wf, of own l] by (simp add: un)
  obtain r where r: "lease_record d' own l = Ok r" "rr_region_id r = ls_region_id l"
    by (cases rule: republish_cases [of d' own l]) (use republish_restores [OF wf un] in \<open>auto simp: leased_def\<close>)
  have "(ls_generation l, r) \<in> set (md_registrations d')"
    using r(1) by (auto simp: lease_record_Ok_iff dest: map_of_SomeD)
  then have "has_leased_region_id d' (ls_region_id l)"
    using r(2) by (force simp: has_leased_region_id_def list_ex_iff)
  moreover have "is_ok (snd (register_owned_handler (\<lambda>_ _. True) d' own' (ls_region_id l) (lease_requests l) h))"
    if "unat (md_next_generation d) + 1 < 2 ^ 64" for own' h
    using suspended_plan [OF wf un that] by (auto simp: register_owned_handler_def)
  ultimately show ?thesis
    using suspended_after_register [OF wf' r]
    by (auto simp: dispatcher_insert_region_def register_handler_def republish_owned_handler_def release_unpublished_handler_def)
qed

theorem suspended_identity_reused_witness:
  "\<exists>d' d2 l2. unpublish_owned_handler leased_dispatcher 5 sample_lease = (d', Ok ()) \<and>
     register_owned_handler (\<lambda>_ _. True) d' 6 7 (lease_requests sample_lease) 1 = (d2, Ok l2) \<and>
     republish_owned_handler d2 5 sample_lease = (d2, Err (RegistrationMismatch 7))"
proof -
  have "snd (unpublish_owned_handler leased_dispatcher 5 sample_lease) = Ok ()"
    by (simp add: unpublish_owned_handler_def lease_record_def leased_dispatcher_def sample_lease_def
        contains_exact_regions_def sample_region_def)
  then obtain d' where d': "unpublish_owned_handler leased_dispatcher 5 sample_lease = (d', Ok ())"
    by (metis prod.collapse)
  have i: "ls_region_id sample_lease = 7" and g: "unat (md_next_generation leased_dispatcher) + 1 < 2 ^ 64"
    by (simp_all add: sample_lease_def leased_dispatcher_def)
  note reused = suspended_identity_reused [OF leased_dispatcher_run [of counter_read counter_write] d', unfolded i]
  obtain d2 l2 where reg: "register_owned_handler (\<lambda>_ _. True) d' 6 7 (lease_requests sample_lease) 1 = (d2, Ok l2)"
    using reused g by (metis is_ok_iff prod.collapse)
  then show ?thesis using reused d' by blast
qed

end
