(* ===== verification/Virtio_Mmio_Properties.thy ===== *)
theory Virtio_Mmio_Properties
  imports Virtio_Mmio_Invariant Mmio_Properties Virtqueue
begin

text \<open>
  Properties of the virtio-mmio transport: the register map, the invariant that every sequence of
  guest accesses and device events keeps, when the device back end is activated and reset, the
  acknowledgement of interrupts, and which states a snapshot restores.
\<close>

section \<open>A driver's initialisation\<close>

text \<open>The accepted writes of a driver that brings the device up.\<close>

lemma write_status_advance:
  assumes "(dr_status (dc_device (rh_core h)), v) \<in> {(0, 1), (1, 3), (3, 11)}"
  shows "handler_write_register ops h Status v =
    (update_core (\<lambda>c. c\<lparr>dc_device := (dc_device c)\<lparr>dr_status := v\<rparr>\<rparr>) h, Ok ())"
proof -
  have st: "set_status (dc_device (rh_core h)) v = Ok ((dc_device (rh_core h))\<lparr>dr_status := v\<rparr>)"
    using assms by (auto simp: set_status_def valid_transition_iff status_consts)
  have "v \<noteq> 0" "v \<noteq> 15" using assms by auto
  then show ?thesis
    by (simp add: handler_write_register_def write_device_register_def device_write_register_def st update_core_def
        status_values VIRTIO_DEVICE_STATUS_INIT_def)
qed

lemma write_features_select:
  assumes "v \<le> 1"
  shows "handler_write_register ops h DriverFeaturesSel v =
    (update_core (\<lambda>c. c\<lparr>dc_device := (dc_device c)\<lparr>dr_driver_features_select := v\<rparr>\<rparr>) h, Ok ())"
  using assms
  by (simp add: handler_write_register_def write_device_register_def device_write_register_def update_core_def
      validate_feature_selector_def VIRTIO_MMIO_FEATURE_SELECTOR_MAX_def)

lemma write_version_1:
  assumes "dr_status (dc_device (rh_core h)) = 3" and "dr_driver_features_select (dc_device (rh_core h)) = 1"
    and "bit (dr_device_features (dc_device (rh_core h))) 32"
  shows "handler_write_register ops h DriverFeatures 1 =
    (update_core (\<lambda>c. c\<lparr>dc_device := (dc_device c)\<lparr>dr_driver_features :=
       dr_driver_features (dc_device c) OR VIRTIO_MMIO_VERSION_1_FEATURE\<rparr>\<rparr>) h, Ok ())"
proof -
  have "(1 :: u32) AND NOT (ucast (drop_bit 32 (dr_device_features (dc_device (rh_core h))))) = 0"
    using assms(3) by (intro bit_word_eqI) (auto simp: bit_simps intro: gr0I)
  then show ?thesis
    using assms(1,2)
    by (simp add: handler_write_register_def write_device_register_def device_write_register_def update_core_def
        write_driver_features_def can_write_driver_features_def status_consts feature_word_def selected_feature_bits_def
        VIRTIO_MMIO_VERSION_1_FEATURE_def)
qed

lemma write_queue_num:
  assumes "queues_wf (dc_queues (rh_core h))" and "dr_status (dc_device (rh_core h)) = 11"
    and "try_from v = Some n" and "is_power_of_two n"
    and "n \<le> qs_max_size (qr_queues (dc_queues (rh_core h)) ! unat (qr_queue_select (dc_queues (rh_core h))))"
  shows "handler_write_register ops h QueueNum v =
    (update_core (\<lambda>c. c\<lparr>dc_queues := (dc_queues c)\<lparr>qr_queues := (qr_queues (dc_queues c))
       [unat (qr_queue_select (dc_queues c)) := (qr_queues (dc_queues c) ! unat (qr_queue_select (dc_queues c)))\<lparr>qs_size := n\<rparr>]\<rparr>\<rparr>) h,
     Ok ())"
proof -
  have "validate_register_queue_size i v
      (qs_max_size (qr_queues (dc_queues (rh_core h)) ! unat (qr_queue_select (dc_queues (rh_core h))))) = Ok n" for i
    using assms(3-5) by (simp add: validate_register_queue_size_Ok)
  then show ?thesis
    using assms(2)
    by (simp add: handler_write_register_def queue_write_register_def write_queue_size_def
        validate_queue_config_status_def status_values selected_queue_wf [OF assms(1)]
        update_selected_queue_wf [OF assms(1)] update_core_def)
qed

lemma write_queue_ready_1:
  assumes "queues_wf (dc_queues (rh_core h))" and "dr_status (dc_device (rh_core h)) = 11"
  shows "handler_write_register ops h QueueReady 1 =
    (update_core (\<lambda>c. c\<lparr>dc_queues := (dc_queues c)\<lparr>qr_queues := (qr_queues (dc_queues c))
       [unat (qr_queue_select (dc_queues c)) := (qr_queues (dc_queues c) ! unat (qr_queue_select (dc_queues c)))\<lparr>qs_ready := True\<rparr>]\<rparr>\<rparr>) h,
     Ok ())"
  using assms(2)
  by (simp add: handler_write_register_def queue_write_register_def write_queue_ready_def
      validate_queue_config_status_def validate_queue_ready_value_def status_values
      update_selected_queue_wf [OF assms(1)] update_core_def)

text \<open>A small device with one queue, and its state after the driver has set the queue up.\<close>

definition sample_ops :: "(unit, nat) device_ops" where
  "sample_ops = \<lparr>op_read_device_config = (\<lambda>_ a. Err (UnsupportedRead (ca_offset a) (ca_len a))),
     op_write_device_config = (\<lambda>c a _. (c, Err (UnsupportedWrite (ca_offset a) (ca_len a)))),
     op_activate = (\<lambda>n _ _. (Suc n, Ok ())), op_reset = (\<lambda>n. n + 100)\<rparr>"

definition sample_device :: virtio_mmio_device_registers where
  "sample_device = \<lparr>dr_device_id = 2, dr_vendor_id = 0, dr_device_features = VIRTIO_MMIO_VERSION_1_FEATURE,
     dr_config_generation = 0, dr_device_features_select = 0, dr_driver_features_select = 0, dr_driver_features = 0,
     dr_status = 0\<rparr>"

definition sample_handler :: "(unit, nat) virtio_mmio_register_handler" where
  "sample_handler =
     \<lparr>rh_core = core_from_parts sample_device \<lparr>qr_queue_select = 0, qr_queues = [queue_state_new 256]\<rparr>
        \<lparr>nr_pending_notifications = [False]\<rparr> () 0 False,
      rh_interrupts = interrupt_registers_new\<rparr>"

definition negotiation :: "(virtio_mmio_register \<times> u32) list" where
  "negotiation = [(Status, 1), (Status, 3), (DriverFeaturesSel, 1), (DriverFeatures, 1), (Status, 11),
     (QueueNum, 128), (QueueReady, 1)]"

definition negotiated_handler :: "(unit, nat) virtio_mmio_register_handler" where
  "negotiated_handler =
     \<lparr>rh_core = core_from_parts (sample_device\<lparr>dr_driver_features_select := 1,
          dr_driver_features := VIRTIO_MMIO_VERSION_1_FEATURE, dr_status := 11\<rparr>)
        \<lparr>qr_queue_select = 0, qr_queues = [(queue_state_new 256)\<lparr>qs_size := 128, qs_ready := True\<rparr>]\<rparr>
        \<lparr>nr_pending_notifications = [False]\<rparr> () 0 False,
      rh_interrupts = interrupt_registers_new\<rparr>"

lemma sample_handler_new: "register_handler_new 2 0 0 0 [256] () 0 False = Ok sample_handler"
  by (simp add: register_handler_new_Ok sample_handler_def is_power_of_two_def sample_device_def
      device_registers_new_def VIRTIO_DEVICE_STATUS_INIT_def)

lemma sample_queue_wf:
  "queues_wf \<lparr>qr_queue_select = 0, qr_queues = [queue_state_new 256]\<rparr>"
  "queues_wf \<lparr>qr_queue_select = 0, qr_queues = [(queue_state_new 256)\<lparr>qs_size := 128\<rparr>]\<rparr>"
proof -
  have "queue_wf (queue_state_new 256)" by (rule queue_state_new_wf) (simp add: is_power_of_two_def)
  moreover from this have "queue_wf ((queue_state_new 256)\<lparr>qs_size := 128\<rparr>)"
    by (rule queue_wf_size) (simp_all add: is_power_of_two_def queue_state_new_def)
  ultimately show "queues_wf \<lparr>qr_queue_select = 0, qr_queues = [queue_state_new 256]\<rparr>"
    "queues_wf \<lparr>qr_queue_select = 0, qr_queues = [(queue_state_new 256)\<lparr>qs_size := 128\<rparr>]\<rparr>"
    by (simp_all add: queues_wf_def)
qed

lemma negotiation_run:
  "writes_accepted sample_ops sample_handler negotiation"
  "register_writes sample_ops sample_handler negotiation = negotiated_handler"
proof -
  note defs = negotiation_def sample_handler_def negotiated_handler_def core_from_parts_def
  have "bit VIRTIO_MMIO_VERSION_1_FEATURE 32" by (simp add: VIRTIO_MMIO_VERSION_1_FEATURE_def bit_simps)
  moreover have "try_from (128 :: u32) = Some (128 :: u16)" by (simp add: try_from_def)
  moreover have "is_power_of_two (128 :: u16)" by (simp add: is_power_of_two_def)
  moreover have "qs_max_size (queue_state_new 256) = 256" by (simp add: queue_state_new_def)
  ultimately show "writes_accepted sample_ops sample_handler negotiation"
    "register_writes sample_ops sample_handler negotiation = negotiated_handler"
    using sample_queue_wf
    by (simp_all add: defs write_status_advance write_features_select write_version_1 write_queue_num write_queue_ready_1
        update_core_def sample_device_def is_writable_def)
qed

lemma sample_run: "transport_run sample_ops sample_handler negotiated_handler"
  using register_writes_run [OF negotiation_run(1)] by (simp only: negotiation_run(2))

definition active_handler :: "(unit, nat) virtio_mmio_register_handler" where
  "active_handler = update_core (\<lambda>c. c\<lparr>dc_device := (dc_device c)\<lparr>dr_status := 15\<rparr>, dc_device_activated := True,
     dc_activation := 1\<rparr>) negotiated_handler"

lemma sample_activation: "handler_write_register sample_ops negotiated_handler Status 15 = (active_handler, Ok ())"
proof -
  have "set_status d 15 = Ok (d\<lparr>dr_status := 15\<rparr>)" if "dr_status d = 11" for d
    using that by (simp add: set_status_def valid_transition_iff status_consts)
  then show ?thesis
    by (simp add: handler_write_register_def write_device_register_def device_write_register_def active_handler_def
        negotiated_handler_def core_from_parts_def update_core_def status_values VIRTIO_DEVICE_STATUS_INIT_def
        activate_device_def sample_ops_def sample_device_def)
qed

lemma active_run: "transport_run sample_ops sample_handler active_handler"
  using sample_run register_write_step [of Status sample_ops negotiated_handler 15]
  by (auto simp: sample_activation is_writable_def)

section \<open>Properties\<close>

text \<open>
  the register map is exact.  A read (a write) at an offset reaches a register precisely when
  the register is readable (writable) and the offset is its own.
\<close>

lemma register_map_exact:
  "(read_at_offset offset = Some r \<longleftrightarrow> is_readable r \<and> register_offset r = offset) \<and>
   (write_at_offset offset = Some r \<longleftrightarrow> is_writable r \<and> register_offset r = offset)"
proof -
  have "read_at_offset (register_offset r) = (if is_readable r then Some r else None)"
    "write_at_offset (register_offset r) = (if is_writable r then Some r else None)"
    by (cases r; simp add: read_at_offset_def write_at_offset_def is_readable_def is_writable_def)+
  moreover have "read_at_offset offset = Some r \<Longrightarrow> register_offset r = offset"
    "write_at_offset offset = Some r \<Longrightarrow> register_offset r = offset"
    by (auto simp: read_at_offset_def write_at_offset_def split: if_splits)
  ultimately show ?thesis by (auto split: if_splits)
qed

text \<open>
  C19: whatever the guest writes and the device does, the transport stays consistent: the status is
  one of twelve values, accepted features are offered features and are only accepted once the
  driver is there, queue sizes are powers of two within the maximum and ring addresses are aligned,
  queues and notifications are idle before feature negotiation ends, the device is active
  exactly when the status says so (a failed device may still be active), and every recorded
  interrupt intent has its bit pending.
\<close>

theorem transport_invariant:
  assumes "register_handler_new i ven f g sizes c a req = Ok h0" and "transport_run ops h0 h"
  shows "handler_wf h"
  using transport_run_wf [OF assms(2) register_handler_new_wf [OF assms(1)]] .

theorem transport_invariant_witness: "handler_wf negotiated_handler"
  by (rule transport_invariant [OF sample_handler_new sample_run])

lemma activate_device_result:
  "dc_activation (rh_core (fst (activate_device ops h))) =
     fst (op_activate ops (dc_activation (rh_core h)) (dc_device (rh_core h)) (dc_queues (rh_core h)))"
  "dc_device_activated (rh_core (fst (activate_device ops h))) \<longleftrightarrow>
     snd (op_activate ops (dc_activation (rh_core h)) (dc_device (rh_core h)) (dc_queues (rh_core h))) = Ok () \<or>
     dc_device_activated (rh_core h)"
proof -
  obtain a r where op: "op_activate ops (dc_activation (rh_core h)) (dc_device (rh_core h)) (dc_queues (rh_core h)) = (a, r)"
    by fastforce
  show "dc_activation (rh_core (fst (activate_device ops h))) =
     fst (op_activate ops (dc_activation (rh_core h)) (dc_device (rh_core h)) (dc_queues (rh_core h)))"
    "dc_device_activated (rh_core (fst (activate_device ops h))) \<longleftrightarrow>
     snd (op_activate ops (dc_activation (rh_core h)) (dc_device (rh_core h)) (dc_queues (rh_core h))) = Ok () \<or>
     dc_device_activated (rh_core h)"
    by (cases r; simp add: activate_device_def op Let_def)+
qed

lemma write_device_register_backend:
  assumes "r \<noteq> Status"
  shows "dc_activation (rh_core (fst (write_device_register ops h r v))) = dc_activation (rh_core h)"
    "dc_device_activated (rh_core (fst (write_device_register ops h r v))) = dc_device_activated (rh_core h)"
  using assms by (auto simp: write_device_register_def update_core_def split: result.splits)

text \<open>A rejected status write is neither a reset nor the step to \<open>DRIVER_OK\<close>.\<close>

lemma set_status_rejected:
  assumes "\<And>d'. set_status d v \<noteq> Ok d'"
  shows "v \<noteq> 0" and "\<not> (v = 15 \<and> dr_status d = 11)"
proof -
  show "v \<noteq> 0" using assms [of "device_reset d"] by (auto simp: set_status_def VIRTIO_DEVICE_STATUS_INIT_def)
  have "set_status d 15 = Ok (d\<lparr>dr_status := 15\<rparr>)" if "dr_status d = 11"
    using that by (simp add: set_status_def valid_transition_iff status_consts)
  then show "\<not> (v = 15 \<and> dr_status d = 11)" using assms by auto
qed

definition backend_after ::
    "('c, 'a) device_ops \<Rightarrow> ('c, 'a) virtio_device_core \<Rightarrow> virtio_mmio_register \<Rightarrow> u32 \<Rightarrow> 'a \<times> bool" where
  "backend_after ops core r v =
     (if r = Status \<and> v = 0 then (op_reset ops (dc_activation core), False)
      else if r = Status \<and> v = 15 \<and> dr_status (dc_device core) = 11
      then apsnd (\<lambda>res. res = Ok ())
             (op_activate ops (dc_activation core) ((dc_device core)\<lparr>dr_status := 15\<rparr>) (dc_queues core))
      else (dc_activation core, dc_device_activated core))"

lemma write_status_backend:
  assumes wf: "core_wf (rh_core h)"
  shows "dc_activation (rh_core (fst (write_device_register ops h Status v))) = fst (backend_after ops (rh_core h) Status v)"
    and "dc_device_activated (rh_core (fst (write_device_register ops h Status v))) = snd (backend_after ops (rh_core h) Status v)"
proof -
  have "dc_activation (rh_core (fst (write_device_register ops h Status v))) = fst (backend_after ops (rh_core h) Status v) \<and>
    dc_device_activated (rh_core (fst (write_device_register ops h Status v))) = snd (backend_after ops (rh_core h) Status v)"
  proof (cases "device_write_register (dc_device (rh_core h)) Status v")
    case (Ok d)
    from wf Ok show ?thesis
    proof (cases rule: write_status_cases [where ops = ops])
      case failed
      have "\<not> (v = 15 \<and> dr_status (dc_device (rh_core h)) = 11)"
        using Ok failed(2) by (auto simp: device_write_register_def set_status_def valid_transition_iff status_consts)
      then show ?thesis using failed by (auto simp: backend_after_def update_core_def)
    next
      case reset
      then show ?thesis
        by (simp add: backend_after_def update_core_def reset_active_state_def reset_common_state_def)
    next
      case advance
      then show ?thesis by (auto simp: backend_after_def update_core_def)
    next
      case driver_ok
      then show ?thesis
        by (simp add: backend_after_def activate_device_result) (simp add: update_core_def apsnd_def map_prod_def split_beta)
    qed
  qed (use set_status_rejected [of "dc_device (rh_core h)" v] in
      \<open>auto simp: write_device_register_def device_write_register_def backend_after_def\<close>)
  then show "dc_activation (rh_core (fst (write_device_register ops h Status v))) = fst (backend_after ops (rh_core h) Status v)"
    "dc_device_activated (rh_core (fst (write_device_register ops h Status v))) = snd (backend_after ops (rh_core h) Status v)"
    by blast+
qed

text \<open>
  C20: the device back end is activated exactly when the driver moves the status from 11 to 15, with
  the negotiated registers, and is reset exactly when the status is written with 0.  No other
  register write touches it, and the device counts as active only after a successful activation.
\<close>

theorem activation_exact:
  assumes new: "register_handler_new i ven f g sizes c a req = Ok h0" and run: "transport_run ops h0 h"
    and w: "handler_write_register ops h r v = (h', res)"
  shows "(dc_activation (rh_core h'), dc_device_activated (rh_core h')) =
    (if r = Status \<and> v = 0 then (op_reset ops (dc_activation (rh_core h)), False)
     else if r = Status \<and> v = 15 \<and> dr_status (dc_device (rh_core h)) = 11
     then apsnd (\<lambda>res. res = Ok ()) (op_activate ops (dc_activation (rh_core h))
            ((dc_device (rh_core h))\<lparr>dr_status := 15\<rparr>) (dc_queues (rh_core h)))
     else (dc_activation (rh_core h), dc_device_activated (rh_core h)))"
proof -
  have wf: "core_wf (rh_core h)"
    using transport_run_wf [OF run register_handler_new_wf [OF new]] by (simp add: handler_wf_def)
  have "(dc_activation (rh_core h'), dc_device_activated (rh_core h')) = backend_after ops (rh_core h) r v"
    using w
  proof (cases rule: handler_write_register_cases)
    case device
    show ?thesis
    proof (cases "r = Status")
      case True
      then show ?thesis using write_status_backend [OF wf, of ops v] device(2) by (simp add: prod_eq_iff)
    next
      case False
      then show ?thesis
        using write_device_register_backend [OF False, of ops h v] device(2) by (simp add: backend_after_def)
    qed
  next
    case ack
    have "dc_activation (rh_core (fst (write_handler_interrupt_ack h InterruptAck v))) = dc_activation (rh_core h)"
      "dc_device_activated (rh_core (fst (write_handler_interrupt_ack h InterruptAck v))) = dc_device_activated (rh_core h)"
      by (auto simp: write_handler_interrupt_ack_def update_core_def Let_def split: result.splits)
    then show ?thesis using ack by (simp add: backend_after_def)
  qed (simp_all add: backend_after_def update_core_def)
  then show ?thesis by (simp only: backend_after_def)
qed

theorem activation_exact_witness:
  "dc_activation (rh_core (fst (handler_write_register sample_ops negotiated_handler Status 15))) = 1 \<and>
   dc_device_activated (rh_core (fst (handler_write_register sample_ops negotiated_handler Status 15)))"
  using activation_exact [OF sample_handler_new sample_run surjective_pairing, of Status 15]
  by (simp add: negotiated_handler_def core_from_parts_def sample_ops_def)

lemma new_identity:
  assumes "register_handler_new i ven f g sizes c a req = Ok h"
  shows "handler_identity h = (i, ven, f OR VIRTIO_MMIO_VERSION_1_FEATURE, sizes, req)"
  using assms unfolding register_handler_new_Ok
  by (simp add: handler_identity_def core_from_parts_def device_registers_new_def queue_state_new_def comp_def)

lemma run_identity:
  assumes "register_handler_new i ven f g sizes c a req = Ok h0" and "transport_run ops h0 h"
  shows "handler_identity h = (i, ven, f OR VIRTIO_MMIO_VERSION_1_FEATURE, sizes, req)"
  using transport_run_identity [OF assms(2) register_handler_new_wf [OF assms(1)]] new_identity [OF assms(1)] by simp

text \<open>
  a reset through the status register gives back the handler as it was created, whatever the
  guest and the device did before: only the configuration generation and the device's own
  configuration persist, and the back end is the reset one.
\<close>

lemma status_reset_restores:
  assumes new: "register_handler_new i ven f g sizes c a req = Ok h0" and run: "transport_run ops h0 h"
  shows "handler_write_register ops h Status 0 =
    (h0\<lparr>rh_core := (rh_core h0)\<lparr>
        dc_device := (dc_device (rh_core h0))\<lparr>dr_config_generation := dr_config_generation (dc_device (rh_core h))\<rparr>,
        dc_device_config := dc_device_config (rh_core h),
        dc_activation := op_reset ops (dc_activation (rh_core h))\<rparr>\<rparr>, Ok ())"
proof -
  note h0 = new [unfolded register_handler_new_Ok]
  note wf = transport_run_wf [OF run register_handler_new_wf [OF new]]
  note core = core_wfD(3) [OF wf [unfolded handler_wf_def, THEN conjunct1]]
  have id: "handler_identity h = (i, ven, f OR VIRTIO_MMIO_VERSION_1_FEATURE, sizes, req)"
    by (rule run_identity [OF new run])
  then have sizes: "map qs_max_size (qr_queues (dc_queues (rh_core h))) = sizes" by (simp add: handler_identity_def)
  then have "length (qr_queues (dc_queues (rh_core h))) = length sizes" by auto
  moreover have "map queue_state_reset (qr_queues (dc_queues (rh_core h))) = map queue_state_new sizes"
    unfolding sizes [symmetric] by (simp add: queue_state_reset_new)
  moreover have "set_status d 0 = Ok (device_reset d)" for d
    by (simp add: set_status_def VIRTIO_DEVICE_STATUS_INIT_def)
  ultimately show ?thesis
    using h0 id core
    by (simp add: handler_write_register_def write_device_register_def device_write_register_def status_values
        VIRTIO_DEVICE_STATUS_INIT_def reset_active_state_def update_core_def reset_common_state_def device_reset_def
        queue_registers_reset_def notification_reset_def handler_identity_def core_from_parts_def
        interrupt_registers_new_def interrupt_reset_def device_registers_new_def)
qed

lemma status_reset_restores_witness:
  "handler_write_register sample_ops negotiated_handler Status 0 =
     (sample_handler\<lparr>rh_core := (rh_core sample_handler)\<lparr>dc_activation := 100\<rparr>\<rparr>, Ok ())"
  using status_reset_restores [OF sample_handler_new sample_run]
  by (simp add: negotiated_handler_def sample_handler_def core_from_parts_def sample_ops_def sample_device_def)

fun intent_kind :: "virtio_interrupt_intent \<Rightarrow> device_interrupt_kind" where
  "intent_kind (IntentQueue _) = QueueInterrupt"
| "intent_kind IntentConfiguration = ConfigInterrupt"

lemma driver_ok_bit: "s AND VIRTIO_DEVICE_STATUS_DRIVER_OK = VIRTIO_DEVICE_STATUS_DRIVER_OK \<longleftrightarrow> s AND 4 \<noteq> 0"
proof -
  have "s AND 4 = (if bit s 2 then 4 else 0)" for s :: u32
  proof (rule bit_word_eqI)
    fix n
    have "bit (4 :: u32) n \<longleftrightarrow> n = 2" using bit_exp_iff [of 2 n, where 'a = u32] by auto
    then show "bit (s AND 4) n = bit (if bit s 2 then 4 else 0 :: u32) n" by (auto simp: bit_and_iff)
  qed
  then show ?thesis by (simp add: status_consts)
qed

text \<open>
  an interrupt acknowledgement is accepted exactly when the driver runs and the mask holds
  only the two interrupt bits.  It then clears the acknowledged interrupts together with their
  recorded intents and keeps the others; a rejected acknowledgement changes nothing.
\<close>

lemma interrupt_ack_exact:
  assumes w: "handler_write_register ops h InterruptAck v = (h', res)"
  shows "(res = Ok () \<longleftrightarrow> dr_status (dc_device (rh_core h)) AND 4 \<noteq> 0 \<and> status_valid v) \<and>
    (if res = Ok ()
     then (\<forall>kind. status_contains (ir_pending_status (rh_interrupts h')) kind \<longleftrightarrow>
             status_contains (ir_pending_status (rh_interrupts h)) kind \<and> \<not> status_contains v kind) \<and>
          dc_interrupt_intents (rh_core h') =
            filter (\<lambda>i. \<not> status_contains v (intent_kind i)) (dc_interrupt_intents (rh_core h))
     else h' = h)"
proof (cases "dr_status (dc_device (rh_core h)) AND 4 \<noteq> 0 \<and> status_valid v")
  case True
  then have bits: "status_from_bits v = Ok v" by (simp add: status_from_bits_Ok)
  have keep: "(\<lambda>i. case i of IntentQueue _ \<Rightarrow> \<not> status_contains v QueueInterrupt
      | IntentConfiguration \<Rightarrow> \<not> status_contains v ConfigInterrupt) = (\<lambda>i. \<not> status_contains v (intent_kind i))"
    by (rule ext) (simp split: virtio_interrupt_intent.splits)
  show ?thesis
    using w True bits
    by (auto simp: handler_write_register_def write_handler_interrupt_ack_def interrupt_write_register_def
        write_interrupt_ack_def validate_interrupt_ack_status_def driver_ok_bit update_core_def keep status_clear_contains)
next
  case False
  then have "interrupt_write_register (rh_interrupts h) InterruptAck v (dr_status (dc_device (rh_core h))) \<noteq> Ok i" for i
    by (auto simp: interrupt_write_register_def write_interrupt_ack_def validate_interrupt_ack_status_def driver_ok_bit
        and_then_Ok_iff status_from_bits_Ok)
  then show ?thesis
    using w False by (auto simp: handler_write_register_def write_handler_interrupt_ack_def split: result.splits)
qed

lemma interrupt_ack_exact_witness:
  "status_contains (ir_pending_status (rh_interrupts (fst (handler_write_register sample_ops
     (mark_queue_interrupt_pending (mark_config_interrupt_pending active_handler) 0) InterruptAck 1)))) ConfigInterrupt"
proof -
  let ?h = "mark_queue_interrupt_pending (mark_config_interrupt_pending active_handler) 0"
  have "dr_status (dc_device (rh_core ?h)) AND 4 \<noteq> 0"
    by (simp add: mark_queue_interrupt_pending_def mark_config_interrupt_pending_def record_interrupt_intent_def
        active_handler_def update_core_def)
  moreover have "status_valid 1" "\<not> status_contains 1 ConfigInterrupt"
    by (simp_all add: status_contains_def interrupt_bits KNOWN_INTERRUPT_STATUS_BITS_def)
  moreover have "status_contains (ir_pending_status (rh_interrupts ?h)) ConfigInterrupt"
    by (simp add: mark_queue_interrupt_pending_def mark_config_interrupt_pending_def mark_pending_def
        status_insert_contains)
  ultimately show ?thesis
    using interrupt_ack_exact [OF surjective_pairing, of sample_ops ?h 1] by simp
qed

text \<open>
  C40: a read that succeeds returns as many bytes as the guest asked for.
\<close>

theorem read_width:
  assumes "read_access ops h a = Ok data"
  shows "of_nat (mab_len data) = gmr_size (ma_range a)"
proof -
  let ?op = "\<lambda>len. OpRead a \<lparr>mab_bytes = replicate MAX_MMIO_ACCESS_BYTES 0, mab_len = len\<rparr>"
  obtain len decoded where len: "mmio_operation_len a = Ok len" and dec: "decode_virtio_mmio_access (?op len) = Ok decoded"
    and res: "(case decoded of RegisterAccess kind r \<Rightarrow> and_then (handler_read_register h r) register_read_data
       | DeviceConfigAccess ca \<Rightarrow> read_device_config ops h ca) = Ok data"
    using assms by (auto simp: read_access_def mmio_operation_read_def and_then_Ok_iff map_err_Ok_iff)
  have size: "of_nat len = gmr_size (ma_range a)"
    using len by (auto simp: mmio_operation_len_def MAX_MMIO_ACCESS_BYTES_def Let_def split: if_splits)
  have "mab_len data = len"
  proof (cases decoded)
    case (RegisterAccess kind r)
    then have "len = VIRTIO_MMIO_REGISTER_ACCESS_SIZE"
      using dec by (auto simp: decode_virtio_mmio_access_def decode_virtio_mmio_register_access_def and_then_Ok_iff
          Let_def split: if_splits)
    moreover obtain v where "register_read_data v = Ok data"
      using res RegisterAccess by (auto simp: and_then_Ok_iff)
    ultimately show ?thesis
      by (auto simp: register_read_data_def map_err_Ok_iff access_bytes_new_def and_then_Ok_iff
          VIRTIO_MMIO_REGISTER_ACCESS_SIZE_def)
  next
    case (DeviceConfigAccess ca)
    then have "ca_len ca = len"
      using dec by (auto simp: decode_virtio_mmio_access_def decode_virtio_mmio_register_access_def and_then_Ok_iff
          Let_def split: if_splits)
    then show ?thesis
      using res DeviceConfigAccess by (auto simp: read_device_config_def and_then_Ok_iff split: if_splits)
  qed
  with size show ?thesis by simp
qed

definition sample_access :: "u64 \<Rightarrow> mmio_access" where
  "sample_access offset =
     (let r = \<lparr>gmr_start = 0x10000000 + offset, gmr_size = 4, gmr_end_exclusive = 0x10000004 + offset\<rparr>
      in \<lparr>ma_region = \<lparr>mr_id = 0, mr_range = \<lparr>gmr_start = 0x10000000, gmr_size = 0x1000, gmr_end_exclusive = 0x10001000\<rparr>\<rparr>,
          ma_range = r, ma_offset = offset\<rparr>)"

theorem read_width_witness:
  "\<exists>data. read_access sample_ops sample_handler (sample_access 0) = Ok data \<and> mab_len data = 4 \<and>
     of_nat (mab_len data) = gmr_size (ma_range (sample_access 0))"
proof -
  have "decode_virtio_mmio_access (OpRead (sample_access 0) \<lparr>mab_bytes = replicate MAX_MMIO_ACCESS_BYTES 0, mab_len = 4\<rparr>) =
      Ok (RegisterAccess KindRead MagicValue)"
    by (simp add: decode_virtio_mmio_access_def decode_virtio_mmio_register_access_def sample_access_def checked_add_def
        VIRTIO_MMIO_DEVICE_WINDOW_SIZE_def VIRTIO_MMIO_DEVICE_CONFIG_OFFSET_def register_slot_offset_def
        VIRTIO_MMIO_REGISTER_ACCESS_SIZE_def register_for_kind_def read_at_offset_def Let_def)
  moreover have "mmio_operation_len (sample_access 0) = Ok 4"
    by (simp add: mmio_operation_len_def sample_access_def Let_def)
  moreover obtain data where "register_read_data VIRTIO_MMIO_MAGIC_VALUE = Ok data" "mab_len data = 4"
    by (simp add: register_read_data_def access_bytes_new_def validate_mmio_access_byte_len_def MAX_MMIO_ACCESS_BYTES_def)
  ultimately have "read_access sample_ops sample_handler (sample_access 0) = Ok data \<and> mab_len data = 4"
    by (simp add: read_access_def mmio_operation_read_def handler_read_register_def device_read_register_def)
  then show ?thesis using read_width [of sample_ops sample_handler "sample_access 0" data] by blast
qed

section \<open>Programming a queue\<close>

fun high_register :: "queue_address_kind \<Rightarrow> virtio_mmio_register" where
  "high_register DescriptorTable = QueueDescHigh"
| "high_register DriverRing = QueueDriverHigh"
| "high_register DeviceRing = QueueDeviceHigh"

definition selected_address :: "guest_address \<Rightarrow> queue_address_kind \<Rightarrow> virtio_mmio_queue_registers \<Rightarrow> virtio_mmio_queue_registers" where
  "selected_address a kind q = q\<lparr>qr_queues := (qr_queues q)[unat (qr_queue_select q) :=
     set_address (qr_queues q ! unat (qr_queue_select q)) kind a]\<rparr>"

lemma replace_address:
  "replace_address_high (replace_address_low c lo) hi = push_bit 32 (ucast hi) OR ucast lo"
  "replace_address_low (replace_address_high c hi) lo = push_bit 32 (ucast hi) OR ucast lo"
  by (rule bit_word_eqI; auto simp: replace_address_high_def replace_address_low_def bit_simps dest: bit_imp_le_length)+

lemma multiple_of_bits: "k < 64 \<Longrightarrow> is_multiple_of (a :: u64) (2 ^ k) \<longleftrightarrow> (\<forall>n<k. \<not> bit a n)"
proof -
  assume k: "k < 64"
  have "is_multiple_of a (2 ^ k) \<longleftrightarrow> take_bit k a = 0"
    using k by (simp add: is_multiple_of_def take_bit_eq_mod)
  also have "\<dots> \<longleftrightarrow> (\<forall>n<k. \<not> bit a n)"
    using k by (auto simp: bit_eq_iff [of "take_bit k a" 0] bit_take_bit_iff)
  finally show ?thesis .
qed

lemma alignment_exp: obtains k where "k \<le> 4" and "address_alignment kind = 2 ^ k"
proof (cases kind)
  case DescriptorTable
  then show thesis using that [of 4] by simp
next
  case DriverRing
  then show thesis using that [of 1] by simp
next
  case DeviceRing
  then show thesis using that [of 2] by simp
qed

lemma replace_aligned:
  "is_multiple_of (replace_address_low c lo) (address_alignment kind) \<longleftrightarrow> is_multiple_of (ucast lo) (address_alignment kind)"
  "is_multiple_of (replace_address_high c hi) (address_alignment kind) \<longleftrightarrow> is_multiple_of c (address_alignment kind)"
  by (rule alignment_exp [of kind]; auto simp: multiple_of_bits replace_address_low_def replace_address_high_def bit_simps)+

lemma write_address_register:
  assumes wf: "queues_wf (dc_queues (rh_core h))" and st: "dr_status (dc_device (rh_core h)) = 11"
    and r: "(r, replace) \<in> {(address_register kind, replace_address_low), (high_register kind, replace_address_high)}"
  shows "handler_write_register ops h r v =
    (let q = dc_queues (rh_core h); a = replace (queue_address (qr_queues q ! unat (qr_queue_select q)) kind) v
     in if is_multiple_of a (address_alignment kind)
        then (update_core (\<lambda>c. c\<lparr>dc_queues := selected_address a kind (dc_queues c)\<rparr>) h, Ok ())
        else (h, Err (QueueRegisterWrite r
               (UnalignedQueueAddress (qr_queue_select q) (address_register kind) a (address_alignment kind)))))"
proof -
  let ?q = "dc_queues (rh_core h)"
  let ?a = "replace (queue_address (qr_queues ?q ! unat (qr_queue_select ?q)) kind) v"
  have "queue_write_register ?q r v 11 = write_queue_address replace ?q kind v 11"
    using r by (cases kind) (auto simp: queue_write_register_def write_queue_address_low_def write_queue_address_high_def)
  moreover have "validate_queue_address i kind ?a =
      (if is_multiple_of ?a (address_alignment kind) then Ok ()
       else Err (UnalignedQueueAddress i (address_register kind) ?a (address_alignment kind)))" for i
    using validate_queue_address_Ok [of i kind ?a] by (auto simp: validate_queue_address_def Let_def split: if_splits)
  moreover have "r \<notin> {DeviceFeaturesSel, DriverFeatures, DriverFeaturesSel, Status}"
    "r \<in> {QueueSel, QueueNum, QueueReady, QueueDescLow, QueueDescHigh, QueueDriverLow, QueueDriverHigh,
                      QueueDeviceLow, QueueDeviceHigh}" using r by (cases kind; auto)+
  ultimately show ?thesis
    using st by (simp add: handler_write_register_def write_queue_address_def validate_queue_config_status_def
        status_values selected_queue_wf [OF wf] update_selected_queue_wf [OF wf] selected_address_def update_core_def Let_def)
qed

lemma selected_address_wf:
  "queues_wf q \<Longrightarrow> is_multiple_of a (address_alignment kind) \<Longrightarrow> queues_wf (selected_address a kind q)"
  unfolding selected_address_def using selected_wf [of q]
  by (intro updated_queues_wf) (auto simp: queue_wf_def queue_address_set)

lemma selected_address_again:
  assumes "queues_wf q"
  shows "selected_address b kind (selected_address a kind q) = selected_address b kind q"
    and "queue_address (qr_queues (selected_address a kind q) ! unat (qr_queue_select q)) kind = a"
proof -
  have "set_address (set_address s kind a) kind b = set_address s kind b" for s by (cases kind) simp_all
  then show "selected_address b kind (selected_address a kind q) = selected_address b kind q"
    "queue_address (qr_queues (selected_address a kind q) ! unat (qr_queue_select q)) kind = a"
    using assms by (simp_all add: selected_address_def queues_wf_def queue_address_set)
qed

text \<open>
  after feature negotiation the driver programs the 64-bit address of a ring by its two halves,
  in either order: both halves are accepted when the low one is aligned, and the selected queue gets
  the address they form.  A misaligned low half is rejected and changes nothing.
\<close>

lemma queue_address_programming:
  assumes new: "register_handler_new i ven f g sizes c a req = Ok h0" and run: "transport_run ops h0 h"
    and st: "dr_status (dc_device (rh_core h)) = 11"
  shows "if is_multiple_of (ucast lo) (address_alignment kind)
    then (\<forall>ws\<in>{[(address_register kind, lo), (high_register kind, hi)], [(high_register kind, hi), (address_register kind, lo)]}.
            writes_accepted ops h ws \<and>
            register_writes ops h ws = update_core (\<lambda>c. c\<lparr>dc_queues :=
              selected_address (push_bit 32 (ucast hi) OR ucast lo) kind (dc_queues c)\<rparr>) h)
    else fst (handler_write_register ops h (address_register kind) lo) = h \<and>
      \<not> is_ok (snd (handler_write_register ops h (address_register kind) lo))"
proof -
  let ?q = "dc_queues (rh_core h)" and ?set = "\<lambda>a. update_core (\<lambda>c. c\<lparr>dc_queues := selected_address a kind (dc_queues c)\<rparr>)"
  let ?cur = "queue_address (qr_queues ?q ! unat (qr_queue_select ?q)) kind"
  have wf: "queues_wf ?q"
    using transport_run_wf [OF run register_handler_new_wf [OF new]] by (simp add: handler_wf_def core_wf_def)
  have cur: "is_multiple_of ?cur (address_alignment kind)"
    using selected_wf [OF wf] by (simp add: queue_wf_def)
  note low = write_address_register [where replace = replace_address_low and kind = kind and r = "address_register kind"]
  note high = write_address_register [where replace = replace_address_high and kind = kind and r = "high_register kind"]
  have writable: "is_writable (address_register kind)" "is_writable (high_register kind)"
    by (cases kind; simp add: is_writable_def)+
  have set: "dc_queues (rh_core (?set a h)) = selected_address a kind ?q" "dc_device (rh_core (?set a h)) = dc_device (rh_core h)"
    "?set b (?set a h) = ?set b h" for a b
    by (simp_all add: update_core_def selected_address_again(1) [OF wf])
  have sel: "qr_queue_select (selected_address a kind ?q) = qr_queue_select ?q" for a by (simp add: selected_address_def)
  note again = selected_address_again(2) [OF wf]
  show ?thesis
  proof (cases "is_multiple_of (ucast lo :: u64) (address_alignment kind)")
    case True
    have q: "queues_wf (dc_queues (rh_core (?set (replace_address_low ?cur lo) h)))"
      "queues_wf (dc_queues (rh_core (?set (replace_address_high ?cur hi) h)))"
      using selected_address_wf [OF wf] True cur by (simp_all add: set replace_aligned)
    have "handler_write_register ops h (address_register kind) lo = (?set (replace_address_low ?cur lo) h, Ok ())"
      "handler_write_register ops h (high_register kind) hi = (?set (replace_address_high ?cur hi) h, Ok ())"
      using low [OF wf st, of ops lo] high [OF wf st, of ops hi] True cur by (simp_all add: replace_aligned Let_def)
    moreover have "handler_write_register ops (?set (replace_address_low ?cur lo) h) (high_register kind) hi =
        (?set (push_bit 32 (ucast hi) OR ucast lo) h, Ok ())"
      "handler_write_register ops (?set (replace_address_high ?cur hi) h) (address_register kind) lo =
        (?set (push_bit 32 (ucast hi) OR ucast lo) h, Ok ())"
      using high [OF q(1), of ops hi] low [OF q(2), of ops lo] st True cur
      by (simp_all add: Let_def set sel again replace_address replace_aligned replace_aligned(1) [of _ lo, unfolded replace_address])
    ultimately show ?thesis using True writable by simp
  next
    case False
    then show ?thesis using low [OF wf st, of ops lo] by (simp add: Let_def replace_aligned)
  qed
qed

lemma queue_address_programming_witness:
  "register_writes sample_ops negotiated_handler [(QueueDriverHigh, 1), (QueueDriverLow, 0x2000)] =
     update_core (\<lambda>c. c\<lparr>dc_queues := selected_address 0x100002000 DriverRing (dc_queues c)\<rparr>) negotiated_handler"
proof -
  have "dr_status (dc_device (rh_core negotiated_handler)) = 11"
    by (simp add: negotiated_handler_def core_from_parts_def)
  moreover have "is_multiple_of (ucast (0x2000 :: u32)) (address_alignment DriverRing)"
    by (simp add: is_multiple_of_def)
  ultimately show ?thesis
    using queue_address_programming [OF sample_handler_new sample_run, of "0x2000" DriverRing 1]
    by (simp add: push_bit_eq_mult)
qed

section \<open>Snapshots of the transport\<close>

lemma if_Err_Ok_iff: "(if b then Err e else r) = Ok x \<longleftrightarrow> \<not> b \<and> r = Ok x"
  by simp

lemma validate_transport_queue_Ok:
  assumes wf: "queue_wf q" and max: "qs_max_size q = qs_max_size expected" and i: "i < 2 ^ 32"
  shows "validate_transport_queue status i q expected = Ok () \<longleftrightarrow>
    (qs_ready q \<longrightarrow> qs_size q \<noteq> 0) \<and> (status_has_features_ok status \<or> queue_idle q)"
proof -
  have "validate_queue_address k kind (queue_address q kind) = Ok ()" for k kind
    using wf by (simp add: validate_queue_address_Ok queue_wf_def)
  then have addr: "validate_transport_addresses k q kinds = Ok ()" for k kinds
    by (induction kinds) simp_all
  have size: "and_then (validate_register_queue_size k (ucast (qs_size q)) (qs_max_size q)) (\<lambda>_. Ok ()) = Ok ()"
    if "qs_size q \<noteq> 0" for k
  proof -
    have "unat (qs_size q) < 2 ^ 32" by (rule less_trans [OF unsigned_less]) simp
    then have "try_from (ucast (qs_size q) :: u32) = Some (qs_size q)" by (simp add: try_from_Some_iff unat_ucast_mod)
    then have "validate_register_queue_size k (ucast (qs_size q)) (qs_max_size q) = Ok (qs_size q)"
      using wf that by (auto simp: validate_register_queue_size_Ok queue_wf_def)
    then show ?thesis by simp
  qed
  have idle: "queue_idle q \<longleftrightarrow> qs_size q = 0 \<and> \<not> qs_ready q \<and> qs_descriptor_table q = 0 \<and> qs_driver_ring q = 0 \<and>
      qs_device_ring q = 0"
    by (cases q) (auto simp: queue_idle_def queue_state_new_def)
  have "validate_queue_max_size i (qs_max_size expected) = Ok ()"
    using wf max by (simp add: queue_wf_def validate_queue_max_size_def power_of_two_nonzero)
  then show ?thesis
    using max i addr size
    by (auto simp: validate_transport_queue_def idle simp del: validate_transport_addresses.simps)
qed

lemma validate_transport_queues_Ok:
  assumes "\<forall>q\<in>set qs. queue_wf q" and "map qs_max_size qs = map qs_max_size es" and "i + length qs \<le> 2 ^ 32"
  shows "validate_transport_queues status i (zip qs es) = Ok () \<longleftrightarrow>
    (\<forall>q\<in>set qs. (qs_ready q \<longrightarrow> qs_size q \<noteq> 0) \<and> (status_has_features_ok status \<or> queue_idle q))"
  using assms
proof (induction qs arbitrary: i es)
  case (Cons q qs)
  then obtain e es' where es: "es = e # es'" by (cases es) auto
  have "validate_transport_queue status i q e = Ok () \<longleftrightarrow>
      (qs_ready q \<longrightarrow> qs_size q \<noteq> 0) \<and> (status_has_features_ok status \<or> queue_idle q)"
    using Cons.prems es by (intro validate_transport_queue_Ok) auto
  moreover have "validate_transport_queues status (Suc i) (zip qs es') = Ok () \<longleftrightarrow>
      (\<forall>q\<in>set qs. (qs_ready q \<longrightarrow> qs_size q \<noteq> 0) \<and> (status_has_features_ok status \<or> queue_idle q))"
    using Cons.prems es by (intro Cons.IH) auto
  ultimately show ?case by (auto simp: es and_then_Ok_iff)
qed simp

text \<open>
  What makes the state of a running handler restorable, besides the identity of the device it is
  restored into.
\<close>

definition restorable :: "('c, 'a) virtio_device_core \<Rightarrow> bool" where
  "restorable c \<longleftrightarrow> dr_status (dc_device c) \<in> {0, 1, 3, 11, 15} \<and>
     (dr_status (dc_device c) \<in> {11, 15} \<longrightarrow> dr_driver_features (dc_device c) AND VIRTIO_MMIO_VERSION_1_FEATURE \<noteq> 0) \<and>
     (\<forall>q\<in>set (qr_queues (dc_queues c)). qs_ready q \<longrightarrow> qs_size q \<noteq> 0) \<and>
     (dc_device_activated c \<or> True \<notin> set (nr_pending_notifications (dc_queue_notifications c)))"

lemma validate_transport_device_Ok:
  assumes wf: "handler_wf h" and id: "handler_identity h1 = handler_identity h"
  shows "validate_transport_device h1 (transport_state h) active = Ok () \<longleftrightarrow>
    dr_status (dc_device (rh_core h)) \<in> {0, 1, 3, 11, 15} \<and>
    (dr_status (dc_device (rh_core h)) \<in> {11, 15} \<longrightarrow>
       dr_driver_features (dc_device (rh_core h)) AND VIRTIO_MMIO_VERSION_1_FEATURE \<noteq> 0) \<and>
    active = dc_device_activated (rh_core h)"
proof -
  let ?d = "dc_device (rh_core h)"
  have cwf: "core_wf (rh_core h)" using wf by (simp add: handler_wf_def)
  have healthy: "is_reachable_healthy_status s \<longleftrightarrow> s \<in> {0, 1, 3, 11, 15}" for s
    by (auto simp: is_reachable_healthy_status_def status_consts)
  have act: "dc_device_activated (rh_core h) \<longleftrightarrow> dr_status ?d = 15" if "dr_status ?d \<in> {0, 1, 3, 11, 15}"
    using that core_wfD(6,7) [OF cwf] by auto
  have fok: "status_has_features_ok (dr_status ?d) \<longleftrightarrow> dr_status ?d \<in> {11, 15}" if "dr_status ?d \<in> {0, 1, 3, 11, 15}"
    using that by (auto simp: status_has)
  have "validate_transport_device h1 (transport_state h) active = Ok () \<longleftrightarrow> dr_status ?d \<in> {0, 1, 3, 11, 15} \<and>
      \<not> (status_has_features_ok (dr_status ?d) \<and> dr_driver_features ?d AND VIRTIO_MMIO_VERSION_1_FEATURE = 0) \<and>
      dc_device_activated (rh_core h) = (dr_status ?d = 15) \<and> dc_device_activated (rh_core h) = active"
    using core_wfD(1) [OF cwf] id
    unfolding validate_transport_device_def transport_state_def Let_def handler_identity_def device_wf_def healthy
      VIRTIO_MMIO_FEATURE_SELECTOR_MAX_def status_values if_Err_Ok_iff prod.inject virtio_mmio_transport_state.simps
      not_less [symmetric] de_Morgan_disj not_not
    by simp
  then show ?thesis using act fok by blast
qed

text \<open>
  C23: which snapshots of the transport are restored, and that restoring is faithful.  The state of a
  running device restores into a fresh handler of the same device exactly when the device is not
  failed, negotiated \<open>VIRTIO_F_VERSION_1\<close> before going on, has no ready queue of size zero and no
  notification before its activation, and the restored back end is active just as it was.  The
  restored transport state is then the saved one; otherwise nothing is changed.
\<close>

theorem snapshot_restore_exact:
  assumes new: "register_handler_new i ven f g sizes c a req = Ok h0" and run: "transport_run ops h0 h"
    and fresh: "register_handler_new i ven f g' sizes c' a' req = Ok h1" and count: "length sizes \<le> 2 ^ 32"
    and restore: "restore_transport_state h1 (transport_state h) active = (h2, res)"
  shows "(res = Ok () \<longleftrightarrow> restorable (rh_core h) \<and> active = dc_device_activated (rh_core h)) \<and>
    (if res = Ok () then transport_state h2 = transport_state h else h2 = h1)"
proof -
  let ?c = "rh_core h" and ?qs = "qr_queues (dc_queues (rh_core h))" and ?es = "qr_queues (dc_queues (rh_core h1))"
  note wf = transport_run_wf [OF run register_handler_new_wf [OF new]]
  have cwf: "core_wf ?c" using wf by (simp add: handler_wf_def)
  have id: "handler_identity h1 = handler_identity h"
    using run_identity [OF new run] new_identity [OF fresh] by simp
  have max: "map qs_max_size ?qs = map qs_max_size ?es" and req: "dc_requires_device_config_write_status ?c =
      dc_requires_device_config_write_status (rh_core h1)" using id by (simp_all add: handler_identity_def)
  have len: "length ?qs = length ?es" using arg_cong [OF max, of length] by simp
  have "length ?qs = length sizes"
    using run_identity [OF new run] by (auto simp: handler_identity_def)
  then have "validate_transport_queues (dr_status (dc_device ?c)) 0 (zip ?qs ?es) = Ok () \<longleftrightarrow>
      (\<forall>q\<in>set ?qs. (qs_ready q \<longrightarrow> qs_size q \<noteq> 0) \<and> (status_has_features_ok (dr_status (dc_device ?c)) \<or> queue_idle q))"
    using max count core_wfD(2) [OF cwf] by (intro validate_transport_queues_Ok) (auto simp only: queues_wf_def add_0)
  then have queues: "validate_transport_queues (dr_status (dc_device ?c)) 0 (zip ?qs ?es) = Ok () \<longleftrightarrow>
      (\<forall>q\<in>set ?qs. qs_ready q \<longrightarrow> qs_size q \<noteq> 0)"
    using core_wfD(4) [OF cwf] by blast
  have sel: "unat (qr_queue_select (dc_queues ?c)) < length ?qs" using core_wfD(2) [OF cwf] by (simp add: queues_wf_def)
  have valid: "validate_transport_state h1 (transport_state h) active = Ok () \<longleftrightarrow>
      restorable ?c \<and> active = dc_device_activated ?c"
  proof -
    have "validate_transport_state h1 (transport_state h) active = Ok () \<longleftrightarrow>
        validate_transport_device h1 (transport_state h) active = Ok () \<and>
        validate_transport_queues (dr_status (dc_device ?c)) 0 (zip ?qs ?es) = Ok () \<and>
        \<not> (\<not> dc_device_activated ?c \<and> list_ex (\<lambda>b. b) (nr_pending_notifications (dc_queue_notifications ?c)))"
      using sel len core_wfD(3) [OF cwf]
      by (simp add: validate_transport_state_def Let_def and_then_Ok_iff if_Err_Ok_iff transport_state_def)
    moreover have ex: "list_ex (\<lambda>b. b) xs \<longleftrightarrow> True \<in> set xs" for xs by (induction xs) auto
    ultimately show ?thesis
      unfolding validate_transport_device_Ok [OF wf id] queues restorable_def ex de_Morgan_conj not_not conj_assoc
      by (simp only: conj_ac)
  qed
  show ?thesis
  proof (cases "validate_transport_state h1 (transport_state h) active")
    case (Ok u)
    then have "transport_state h2 = transport_state h" "res = Ok ()"
      using restore req by (auto simp: restore_transport_state_def transport_state_def replace_common_state_def)
    then show ?thesis using valid Ok by simp
  next
    case (Err e)
    then have "h2 = h1" "res \<noteq> Ok ()" using restore by (auto simp: restore_transport_state_def)
    then show ?thesis using valid Err by auto
  next
    case Panic
    then have "h2 = h1" "res \<noteq> Ok ()" using restore by (auto simp: restore_transport_state_def)
    then show ?thesis using valid Panic by auto
  qed
qed

theorem snapshot_restore_exact_witness:
  "snd (restore_transport_state sample_handler (transport_state active_handler) True) = Ok () \<and>
   transport_state (fst (restore_transport_state sample_handler (transport_state active_handler) True)) =
     transport_state active_handler"
proof -
  have "restorable (rh_core active_handler)" "dc_device_activated (rh_core active_handler)"
    by (simp_all add: restorable_def active_handler_def negotiated_handler_def update_core_def core_from_parts_def
        VIRTIO_MMIO_VERSION_1_FEATURE_def)
  then show ?thesis
    using snapshot_restore_exact [OF sample_handler_new active_run sample_handler_new _ surjective_pairing, of True]
    by simp
qed

end
