(* ===== verification/Drain_Gate.thy ===== *)
theory Drain_Gate
  imports Prelude
begin

text \<open>
  Threads around an admission gate.  Two components of the program, the work gate of a virtio device
  (virtio.rs) and the registry of guest-message interrupts (message_interrupt.rs), share one
  protocol: a mutex guards a count of admitted operations; each admitted operation holds a guard
  that lowers the count when it is dropped and notifies a condition variable when the count reaches
  zero; a thread that drains the gate closes admission and waits on the condition variable until
  nothing is in flight.  This theory gives the mutex, the interleaving of such threads as a
  labelled step relation over the operations of a gate, and a locale that proves, from the laws of the operations,
  that a drained gate stays empty and that no wake-up is lost.
\<close>

section \<open>Mutexes\<close>

text \<open>A \<open>Mutex\<close> holds a value and is poisoned when a thread panicked while holding it.\<close>

record 's mutex =
  mx_poisoned :: bool
  mx_value :: 's

definition mutex_new :: "'s \<Rightarrow> 's mutex" where
  "mutex_new s = \<lparr>mx_poisoned = False, mx_value = s\<rparr>"

definition mutex_lock :: "'e \<Rightarrow> 's mutex \<Rightarrow> ('s, 'e) result" where
  "mutex_lock poisoned m = (if mx_poisoned m then Err poisoned else Ok (mx_value m))"

lemma mutex_lock_new [simp]: "mutex_lock e (mutex_new s) = Ok s"
  by (simp add: mutex_lock_def mutex_new_def)

lemma saturating_sub_1_eq_0: "saturating_sub w 1 = (0 :: u64) \<longleftrightarrow> unat w \<le> 1"
proof -
  have "saturating_sub w 1 = (0 :: u64) \<longleftrightarrow> unat (saturating_sub w 1) = 0" by (simp add: unat_eq_0)
  then show ?thesis by (simp add: unat_saturating_sub)
qed

section \<open>Threads around a gate\<close>

text \<open>
  The operations of a gate, each one critical section of its mutex: admission of an operation,
  the drop of its guard (which says whether the condition variable is notified), the entry of a
  draining call up to its wait loop (which may return at once), the test of the loop with the
  actions that follow it, closing without waiting, and reopening.  \<open>'m\<close> is what is admitted and
  \<open>'k\<close> the kind of draining call.
\<close>

datatype 'g drain_entry = Returned 'g | Draining 'g

record ('g, 'm, 'k, 'e) gate_ops =
  go_admit :: "'m \<Rightarrow> 'g \<Rightarrow> ('g, 'e) result"
  go_leave :: "'g \<Rightarrow> 'g \<times> bool"
  go_enter :: "'k \<Rightarrow> 'g \<Rightarrow> ('g drain_entry, 'e) result"
  go_check :: "'k \<Rightarrow> 'g \<Rightarrow> ('g option, 'e) result"
  go_shut :: "'g \<Rightarrow> ('g, 'e) result"
  go_reopen :: "'g \<Rightarrow> ('g, 'e) result"

text \<open>
  The system: the gate, the number of live guards, and the threads in the wait loop of a draining
  call, each with its kind and whether it has been notified since it fell asleep.
\<close>

record ('g, 'k, 't) gate_system =
  sy_gate :: 'g
  sy_guards :: nat
  sy_waiting :: "'t \<Rightarrow> ('k \<times> bool) option"

definition system_new :: "'g \<Rightarrow> ('g, 'k, 't) gate_system" where
  "system_new g = \<lparr>sy_gate = g, sy_guards = 0, sy_waiting = (\<lambda>_. None)\<rparr>"

definition notify_all :: "('t \<Rightarrow> ('k \<times> bool) option) \<Rightarrow> 't \<Rightarrow> ('k \<times> bool) option" where
  "notify_all w = (\<lambda>t. map_option (apsnd (\<lambda>_. True)) (w t))"

datatype ('m, 'k, 't) gate_label = Admit 'm | Leave | Drain 't 'k | Wake 't | Shut | Reopen

text \<open>A thread may also wake up without a notification, as condition variables allow.\<close>

inductive gate_step ::
    "('g, 'm, 'k, 'e) gate_ops \<Rightarrow> ('m, 'k, 't) gate_label \<Rightarrow> ('g, 'k, 't) gate_system \<Rightarrow> ('g, 'k, 't) gate_system \<Rightarrow> bool"
  for ops where
  admit: "go_admit ops m (sy_gate s) = Ok g \<Longrightarrow>
    gate_step ops (Admit m) s (s\<lparr>sy_gate := g, sy_guards := Suc (sy_guards s)\<rparr>)"
| leave: "sy_guards s = Suc n \<Longrightarrow> go_leave ops (sy_gate s) = (g, notify) \<Longrightarrow>
    gate_step ops Leave s (s\<lparr>sy_gate := g, sy_guards := n,
      sy_waiting := (if notify then notify_all (sy_waiting s) else sy_waiting s)\<rparr>)"
| drain_returned: "sy_waiting s t = None \<Longrightarrow> go_enter ops k (sy_gate s) = Ok (Returned g) \<Longrightarrow>
    gate_step ops (Drain t k) s (s\<lparr>sy_gate := g\<rparr>)"
| drain_empty: "sy_waiting s t = None \<Longrightarrow> go_enter ops k (sy_gate s) = Ok (Draining g) \<Longrightarrow> go_check ops k g = Ok (Some g') \<Longrightarrow>
    gate_step ops (Drain t k) s (s\<lparr>sy_gate := g'\<rparr>)"
| drain_wait: "sy_waiting s t = None \<Longrightarrow> go_enter ops k (sy_gate s) = Ok (Draining g) \<Longrightarrow> go_check ops k g = Ok None \<Longrightarrow>
    gate_step ops (Drain t k) s (s\<lparr>sy_gate := g, sy_waiting := (sy_waiting s)(t \<mapsto> (k, False))\<rparr>)"
| wake_returned: "sy_waiting s t = Some (k, n) \<Longrightarrow> go_check ops k (sy_gate s) = Ok (Some g) \<Longrightarrow>
    gate_step ops (Wake t) s (s\<lparr>sy_gate := g, sy_waiting := (sy_waiting s)(t := None)\<rparr>)"
| wake_again: "sy_waiting s t = Some (k, n) \<Longrightarrow> go_check ops k (sy_gate s) = Ok None \<Longrightarrow>
    gate_step ops (Wake t) s (s\<lparr>sy_waiting := (sy_waiting s)(t \<mapsto> (k, False))\<rparr>)"
| wake_failed: "sy_waiting s t = Some (k, n) \<Longrightarrow> go_check ops k (sy_gate s) = Err e \<Longrightarrow>
    gate_step ops (Wake t) s (s\<lparr>sy_waiting := (sy_waiting s)(t := None)\<rparr>)"
| shut: "go_shut ops (sy_gate s) = Ok g \<Longrightarrow> gate_step ops Shut s (s\<lparr>sy_gate := g\<rparr>)"
| reopen: "go_reopen ops (sy_gate s) = Ok g \<Longrightarrow> gate_step ops Reopen s (s\<lparr>sy_gate := g\<rparr>)"

inductive gate_run ::
    "('g, 'm, 'k, 'e) gate_ops \<Rightarrow> ('g, 'k, 't) gate_system \<Rightarrow> ('m, 'k, 't) gate_label list \<Rightarrow> ('g, 'k, 't) gate_system \<Rightarrow> bool"
  for ops where
  run_nil: "gate_run ops s [] s"
| run_step: "gate_run ops s ls s' \<Longrightarrow> gate_step ops l s' s'' \<Longrightarrow> gate_run ops s (ls @ [l]) s''"

lemma notify_all_None [simp]: "notify_all w t = None \<longleftrightarrow> w t = None"
  by (simp add: notify_all_def)

lemma notify_all_awake [simp]: "notify_all w t \<noteq> Some (k, False)"
  by (cases "w t") (auto simp: notify_all_def)

section \<open>The contract of a gate\<close>

definition system_wf :: "('g \<Rightarrow> bool) \<Rightarrow> ('g \<Rightarrow> nat) \<Rightarrow> ('g, 'k, 't) gate_system \<Rightarrow> bool" where
  "system_wf gate_wf count s \<longleftrightarrow> gate_wf (sy_gate s) \<and> count (sy_gate s) = sy_guards s \<and>
     (\<forall>t k. sy_waiting s t = Some (k, False) \<longrightarrow> 0 < sy_guards s)"

locale drain_gate =
  fixes ops :: "('g, 'm, 'k, 'e) gate_ops" and gate_wf closed :: "'g \<Rightarrow> bool" and count :: "'g \<Rightarrow> nat"
  assumes admit_law: "gate_wf g \<Longrightarrow> go_admit ops m g = Ok g' \<Longrightarrow> gate_wf g' \<and> \<not> closed g \<and> count g' = Suc (count g)"
    and leave_law: "gate_wf g \<Longrightarrow> 0 < count g \<Longrightarrow> go_leave ops g = (g', notify) \<Longrightarrow>
      gate_wf g' \<and> count g' = count g - 1 \<and> (closed g' \<longleftrightarrow> closed g) \<and> (notify \<longleftrightarrow> count g' = 0)"
    and enter_law: "gate_wf g \<Longrightarrow> go_enter ops k g = Ok (Draining g') \<Longrightarrow> gate_wf g' \<and> closed g' \<and> count g' = count g"
    and returned_law: "gate_wf g \<Longrightarrow> go_enter ops k g = Ok (Returned g') \<Longrightarrow> g' = g \<and> closed g \<and> count g = 0"
    and check_wait_law: "gate_wf g \<Longrightarrow> go_check ops k g = Ok None \<longleftrightarrow> 0 < count g"
    and check_done_law: "gate_wf g \<Longrightarrow> count g = 0 \<Longrightarrow> \<exists>g'. go_check ops k g = Ok (Some g') \<and> gate_wf g' \<and> count g' = 0 \<and> (closed g \<longrightarrow> closed g')"
    and shut_law: "gate_wf g \<Longrightarrow> go_shut ops g = Ok g' \<Longrightarrow> gate_wf g' \<and> closed g' \<and> count g' = count g"
    and reopen_law: "gate_wf g \<Longrightarrow> go_reopen ops g = Ok g' \<Longrightarrow> gate_wf g' \<and> count g' = count g"
begin

lemma check_law:
  assumes "gate_wf g" and "go_check ops k g = Ok (Some g')"
  shows "gate_wf g' \<and> count g = 0 \<and> count g' = 0 \<and> (closed g \<longrightarrow> closed g')"
  using assms check_wait_law [OF assms(1), of k] check_done_law [OF assms(1), of k] by fastforce

lemma step_wf:
  assumes "gate_step ops l s s'" and "system_wf gate_wf count s"
  shows "system_wf gate_wf count s'"
  using assms
proof (induction rule: gate_step.induct)
  case (leave s n g notify)
  have "gate_wf g \<and> count g = n \<and> (notify \<longleftrightarrow> n = 0)"
    using leave leave_law [of "sy_gate s" g notify] by (auto simp: system_wf_def)
  with leave show ?case by (auto simp: system_wf_def)
next
  case (drain_wait s t k g)
  then show ?case using enter_law [of "sy_gate s" k g] check_wait_law [of g k] by (auto simp: system_wf_def)
next
  case (drain_empty s t k g g')
  then show ?case using enter_law [of "sy_gate s" k g] check_law [of g k g'] by (auto simp: system_wf_def)
next
  case (wake_again s t k n)
  then show ?case using check_wait_law [of "sy_gate s" k] by (auto simp: system_wf_def)
next
  case (wake_returned s t k n g)
  then show ?case using check_law [of "sy_gate s" k g] by (auto simp: system_wf_def)
next
  case (drain_returned s t k g)
  then show ?case using returned_law [of "sy_gate s" k g] by (auto simp: system_wf_def)
qed (auto simp: system_wf_def dest: admit_law shut_law reopen_law)

lemma run_wf: "gate_run ops s ls s' \<Longrightarrow> system_wf gate_wf count s \<Longrightarrow> system_wf gate_wf count s'"
  by (induction rule: gate_run.induct) (auto dest: step_wf)

text \<open>While nobody reopens it, a closed gate stays closed and empties; a thread leaves the wait loop only when it is empty.\<close>

lemma step_closed:
  assumes "gate_step ops l s s'" and "system_wf gate_wf count s" and "l \<noteq> Reopen" and "closed (sy_gate s)"
    and "sy_waiting s t = None \<Longrightarrow> sy_guards s = 0"
  shows "closed (sy_gate s') \<and> (sy_waiting s' t = None \<longrightarrow> sy_guards s' = 0)"
  using assms
proof (induction rule: gate_step.induct)
  case (admit m s g)
  then show ?case using admit_law [of "sy_gate s" m g] by (auto simp: system_wf_def)
next
  case (leave s n g notify)
  then show ?case
    using leave_law [of "sy_gate s" g notify] by (cases "sy_waiting s t") (auto simp: system_wf_def split: if_splits)
next
  case (drain_returned s t' k g)
  then show ?case using returned_law [of "sy_gate s" k g] by (auto simp: system_wf_def)
next
  case (drain_empty s t' k g g')
  then show ?case using enter_law [of "sy_gate s" k g] check_law [of g k g'] by (auto simp: system_wf_def)
next
  case (drain_wait s t' k g)
  then show ?case using enter_law [of "sy_gate s" k g] by (auto simp: system_wf_def)
next
  case (wake_returned s t' k n g)
  then show ?case using check_law [of "sy_gate s" k g] by (auto simp: system_wf_def)
next
  case (wake_failed s t' k n e)
  then show ?case
    using check_wait_law [of "sy_gate s" k] check_done_law [of "sy_gate s" k] by (fastforce simp: system_wf_def)
next
  case (shut s g)
  then show ?case using shut_law [of "sy_gate s" g] by (auto simp: system_wf_def)
qed auto

lemma run_closed:
  assumes "gate_run ops s ls s'" and "system_wf gate_wf count s" and "Reopen \<notin> set ls" and "closed (sy_gate s)"
    and "sy_waiting s t = None \<Longrightarrow> sy_guards s = 0"
  shows "closed (sy_gate s') \<and> (sy_waiting s' t = None \<longrightarrow> sy_guards s' = 0)"
  using assms
proof (induction rule: gate_run.induct)
  case (run_step s ls s1 l s2)
  then have c: "closed (sy_gate s1)" and w: "sy_waiting s1 t = None \<Longrightarrow> sy_guards s1 = 0" by auto
  show ?case
    by (rule step_closed [OF run_step(2) run_wf [OF run_step(1,4)] _ c w]) (use run_step.prems in auto)
qed auto

lemma drain_step:
  assumes "gate_step ops (Drain t k) s s'" and "system_wf gate_wf count s"
  shows "closed (sy_gate s') \<and> (sy_waiting s' t = None \<longrightarrow> sy_guards s' = 0)"
  using assms(1)
proof (cases rule: gate_step.cases)
  case (drain_returned g)
  then show ?thesis using assms(2) returned_law [of "sy_gate s" k g] by (auto simp: system_wf_def)
next
  case (drain_empty g g')
  then show ?thesis
    using assms(2) enter_law [of "sy_gate s" k g] check_law [of g k g'] by (auto simp: system_wf_def)
next
  case (drain_wait g)
  then show ?thesis using assms(2) enter_law [of "sy_gate s" k g] by (auto simp: system_wf_def)
qed

lemma drained:
  assumes "gate_run ops (system_new g) ls s0" and "gate_wf g" and "count g = 0"
    and "gate_step ops (Drain t k) s0 s1" and "gate_run ops s1 ls' s2" and "Reopen \<notin> set ls'"
    and "sy_waiting s2 t = None"
  shows "sy_guards s2 = 0 \<and> closed (sy_gate s2) \<and> gate_wf (sy_gate s2) \<and> count (sy_gate s2) = 0"
proof -
  have "system_wf gate_wf count (system_new g)" using assms(2,3) by (simp add: system_wf_def system_new_def)
  then have wf0: "system_wf gate_wf count s0" by (rule run_wf [OF assms(1)])
  note wf1 = step_wf [OF assms(4) wf0]
  have "closed (sy_gate s2) \<and> (sy_waiting s2 t = None \<longrightarrow> sy_guards s2 = 0)"
    by (rule run_closed [OF assms(5) wf1 assms(6)]) (use drain_step [OF assms(4) wf0] in auto)
  then show ?thesis using run_wf [OF assms(5) wf1] assms(7) by (simp add: system_wf_def)
qed

text \<open>No wake-up is lost: once the gate is empty every waiting thread has been notified and returns when it runs.\<close>

lemma waiters_return:
  assumes "gate_run ops (system_new g) ls s" and "gate_wf g" and "count g = 0" and "sy_guards s = 0"
    and "sy_waiting s t = Some (k, notified)"
  shows "notified \<and> (\<exists>s'. gate_step ops (Wake t) s s') \<and> (\<forall>s'. gate_step ops (Wake t) s s' \<longrightarrow> sy_waiting s' t = None)"
proof -
  have "system_wf gate_wf count (system_new g)" using assms(2,3) by (simp add: system_wf_def system_new_def)
  then have wf: "system_wf gate_wf count s" by (rule run_wf [OF assms(1)])
  then obtain g' where g': "go_check ops k (sy_gate s) = Ok (Some g')"
    using check_done_law [of "sy_gate s" k] assms(4) by (auto simp: system_wf_def)
  have "notified" using wf assms(4,5) by (cases notified) (auto simp: system_wf_def)
  moreover have "sy_waiting s' t = None" if "gate_step ops (Wake t) s s'" for s'
    using that assms(5) g' by (cases rule: gate_step.cases) auto
  ultimately show ?thesis using gate_step.wake_returned [OF assms(5) g'] by blast
qed

end

end
