(* ===== verification/Virtio_Device.thy ===== *)
theory Virtio_Device
  imports Drain_Gate
begin

text \<open>
  The transport-neutral parts of virtio.rs: the validated device type with its PCI identifier, and
  the work gate that admits device work and drains it before a teardown.  Each operation of the
  gate is one critical section of its mutex; \<open>quiesce_and_wait\<close> is its entry and the test of its
  wait loop, interleaved with the other threads by the step relation of the gate system.
\<close>

section \<open>Device types\<close>

definition VIRTIO_PCI_MODERN_DEVICE_ID_BASE :: u16 where "VIRTIO_PCI_MODERN_DEVICE_ID_BASE = 0x1040"

record virtio_device_type =
  dt_value :: u32
  dt_pci_id :: u16

datatype virtio_device_type_error = DeviceTypeZero | PciDeviceIdOverflow u32

definition device_type_new :: "u32 \<Rightarrow> (virtio_device_type, virtio_device_type_error) result" where
  "device_type_new v =
     (if v = 0 then Err DeviceTypeZero
      else and_then (ok_or (checked_add (ucast VIRTIO_PCI_MODERN_DEVICE_ID_BASE) v) (PciDeviceIdOverflow v)) (\<lambda>pci_id :: u32.
           and_then (ok_or (try_from pci_id) (PciDeviceIdOverflow v)) (\<lambda>pci_id :: u16.
           Ok \<lparr>dt_value = v, dt_pci_id = pci_id\<rparr>)))"

text \<open>The accepted device types are those whose PCI identifier is representable, and it determines the type.\<close>

lemma device_type_new_Ok:
  "device_type_new v = Ok t \<longleftrightarrow>
     v \<noteq> 0 \<and> dt_value t = v \<and> unat (dt_pci_id t) = 0x1040 + unat v"
proof -
  have base: "unat (ucast VIRTIO_PCI_MODERN_DEVICE_ID_BASE :: u32) = 0x1040"
    by (simp add: VIRTIO_PCI_MODERN_DEVICE_ID_BASE_def)
  show ?thesis
  proof (cases "checked_add (ucast VIRTIO_PCI_MODERN_DEVICE_ID_BASE) v")
    case None
    then have "2 ^ 32 \<le> 0x1040 + unat v" using base by (auto simp: checked_add_def split: if_splits)
    then have "unat (dt_pci_id t) \<noteq> 0x1040 + unat v" using unat_bound16 [of "dt_pci_id t"] by simp
    with None show ?thesis by (simp add: device_type_new_def)
  next
    case (Some c)
    then have "unat c = 0x1040 + unat v" by (simp add: checked_add_Some_iff base)
    then have "try_from c = Some (dt_pci_id t) \<longleftrightarrow> unat (dt_pci_id t) = 0x1040 + unat v"
      by (simp add: try_from_Some_iff)
    with Some show ?thesis
      by (cases "try_from c :: u16 option"; cases t) (auto simp: device_type_new_def)
  qed
qed

section \<open>The work gate\<close>

record virtio_device_work_state =
  ws_accepting :: bool
  ws_in_flight :: u64

type_synonym virtio_device_work_gate = "virtio_device_work_state mutex"

datatype virtio_device_work_gate_error = WorkQuiescing | WorkInFlightOverflow | InFlightWorkRemains | WorkPoisoned

definition work_gate_new :: virtio_device_work_gate where
  "work_gate_new = mutex_new \<lparr>ws_accepting = True, ws_in_flight = 0\<rparr>"

definition work_admit :: "virtio_device_work_gate \<Rightarrow> (virtio_device_work_gate, virtio_device_work_gate_error) result" where
  "work_admit g =
     and_then (mutex_lock WorkPoisoned g) (\<lambda>s.
       if \<not> ws_accepting s then Err WorkQuiescing
       else and_then (ok_or (checked_add (ws_in_flight s) 1) WorkInFlightOverflow) (\<lambda>n.
            Ok (g\<lparr>mx_value := s\<lparr>ws_in_flight := n\<rparr>\<rparr>)))"

definition work_quiesce_enter :: "virtio_device_work_gate \<Rightarrow> (virtio_device_work_gate, virtio_device_work_gate_error) result" where
  "work_quiesce_enter g =
     and_then (mutex_lock WorkPoisoned g) (\<lambda>s. Ok (g\<lparr>mx_value := s\<lparr>ws_accepting := False\<rparr>\<rparr>))"

definition work_quiesce_check :: "virtio_device_work_gate \<Rightarrow> (virtio_device_work_gate option, virtio_device_work_gate_error) result" where
  "work_quiesce_check g =
     and_then (mutex_lock WorkPoisoned g) (\<lambda>s. if ws_in_flight s \<noteq> 0 then Ok None else Ok (Some g))"

definition work_resume :: "virtio_device_work_gate \<Rightarrow> (virtio_device_work_gate, virtio_device_work_gate_error) result" where
  "work_resume g =
     and_then (mutex_lock WorkPoisoned g) (\<lambda>s.
       if ws_in_flight s \<noteq> 0 then Err InFlightWorkRemains
       else Ok (g\<lparr>mx_value := s\<lparr>ws_accepting := True\<rparr>\<rparr>))"

definition work_is_accepting :: "virtio_device_work_gate \<Rightarrow> (bool, virtio_device_work_gate_error) result" where
  "work_is_accepting g = and_then (mutex_lock WorkPoisoned g) (\<lambda>s. Ok (ws_accepting s))"

definition work_guard_drop :: "virtio_device_work_gate \<Rightarrow> virtio_device_work_gate \<times> bool" where
  "work_guard_drop g =
     (case mutex_lock WorkPoisoned g of
        Ok s \<Rightarrow> (let n = saturating_sub (ws_in_flight s) 1 in (g\<lparr>mx_value := s\<lparr>ws_in_flight := n\<rparr>\<rparr>, n = 0))
      | _ \<Rightarrow> (g, False))"

text \<open>The gate has no call that closes it without waiting.\<close>

definition work_gate_ops :: "(virtio_device_work_gate, unit, unit, virtio_device_work_gate_error) gate_ops" where
  "work_gate_ops =
     \<lparr>go_admit = (\<lambda>_. work_admit), go_leave = work_guard_drop,
      go_enter = (\<lambda>_ g. and_then (work_quiesce_enter g) (\<lambda>g. Ok (Draining g))),
      go_check = (\<lambda>_. work_quiesce_check), go_shut = (\<lambda>_. Err WorkQuiescing), go_reopen = work_resume\<rparr>"

definition work_gate_wf :: "virtio_device_work_gate \<Rightarrow> bool" where
  "work_gate_wf g \<longleftrightarrow> \<not> mx_poisoned g"

definition work_closed :: "virtio_device_work_gate \<Rightarrow> bool" where
  "work_closed g \<longleftrightarrow> \<not> ws_accepting (mx_value g)"

definition work_count :: "virtio_device_work_gate \<Rightarrow> nat" where
  "work_count g = unat (ws_in_flight (mx_value g))"

lemmas work_defs = work_gate_ops_def work_gate_wf_def work_closed_def work_count_def mutex_lock_def

interpretation work: drain_gate work_gate_ops work_gate_wf work_closed work_count
proof unfold_locales
  fix g g' m
  assume "work_gate_wf g" and "go_admit work_gate_ops m g = Ok g'"
  then show "work_gate_wf g' \<and> \<not> work_closed g \<and> work_count g' = Suc (work_count g)"
    by (auto simp: work_defs work_admit_def and_then_Ok_iff checked_add_Some_iff split: if_splits)
next
  fix g g' notify
  assume "work_gate_wf g" and "0 < work_count g" and "go_leave work_gate_ops g = (g', notify)"
  then show "work_gate_wf g' \<and> work_count g' = work_count g - 1 \<and> work_closed g' = work_closed g \<and>
      notify = (work_count g' = 0)"
    by (auto simp: work_defs work_guard_drop_def Let_def unat_saturating_sub saturating_sub_1_eq_0)
next
  fix g k
  assume "work_gate_wf g"
  then show "(go_check work_gate_ops k g = Ok None) = (0 < work_count g)"
    by (simp add: work_defs work_quiesce_check_def unat_gt_0)
qed (auto simp: work_defs work_quiesce_enter_def work_quiesce_check_def work_resume_def and_then_Ok_iff unat_eq_0
    split: if_splits)

text \<open>
  C22: a drained work gate is empty and stays empty.  In every interleaving of admissions, drops,
  draining calls and spurious wake-ups, once a thread has called \<open>quiesce_and_wait\<close> and is no longer
  waiting in it, and nobody has resumed the gate since the call, no admitted work is in flight and
  every further admission is refused.  The condition is on the call and not on its return: a resume
  while the thread is still waking up reopens the gate, and the call returns all the same.
\<close>

theorem work_gate_drained:
  assumes "gate_run work_gate_ops (system_new work_gate_new) ls s0" and "gate_step work_gate_ops (Drain t ()) s0 s1"
    and "gate_run work_gate_ops s1 ls' s2" and "Reopen \<notin> set ls'" and "sy_waiting s2 t = None"
  shows "sy_guards s2 = 0 \<and> work_admit (sy_gate s2) = Err WorkQuiescing"
proof -
  have "work_gate_wf work_gate_new" "work_count work_gate_new = 0"
    by (simp_all add: work_gate_wf_def work_count_def work_gate_new_def mutex_new_def)
  from work.drained [OF assms(1) this assms(2-5)] show ?thesis by (simp add: work_defs work_admit_def)
qed

text \<open>
  A run with one admitted operation: it is still in flight when a thread starts to drain, its
  guard is dropped, and the thread wakes up.
\<close>

definition sample_gate :: "bool \<Rightarrow> u64 \<Rightarrow> virtio_device_work_gate" where
  "sample_gate b n = mutex_new \<lparr>ws_accepting = b, ws_in_flight = n\<rparr>"

definition gate_sample_system :: "bool \<Rightarrow> nat \<Rightarrow> (unit \<times> bool) option \<Rightarrow> (virtio_device_work_gate, unit, bool) gate_system" where
  "gate_sample_system b n w = \<lparr>sy_gate = sample_gate b (of_nat n), sy_guards = n, sy_waiting = (\<lambda>_. None)(True := w)\<rparr>"

lemma gate_sample_steps:
  "system_new work_gate_new = gate_sample_system True 0 None"
  "gate_step work_gate_ops (Admit ()) (gate_sample_system True 0 None) (gate_sample_system True 1 None)"
  "gate_step work_gate_ops (Drain True ()) (gate_sample_system True 1 None) (gate_sample_system False 1 (Some ((), False)))"
  "gate_step work_gate_ops Leave (gate_sample_system False 1 (Some ((), False))) (gate_sample_system False 0 (Some ((), True)))"
  "gate_step work_gate_ops (Wake True) (gate_sample_system False 0 (Some ((), True))) (gate_sample_system False 0 None)"
proof -
  note defs = gate_sample_system_def sample_gate_def work_gate_ops_def mutex_lock_def mutex_new_def
  show "system_new work_gate_new = gate_sample_system True 0 None"
    by (simp add: system_new_def work_gate_new_def defs fun_eq_iff)
  have "go_admit work_gate_ops () (sy_gate (gate_sample_system True 0 None)) = Ok (sample_gate True 1)"
    by (simp add: defs work_admit_def checked_add_def)
  from gate_step.admit [where ops = work_gate_ops, OF this]
  show "gate_step work_gate_ops (Admit ()) (gate_sample_system True 0 None) (gate_sample_system True 1 None)"
    by (simp add: gate_sample_system_def)
  have "go_enter work_gate_ops () (sy_gate (gate_sample_system True 1 None)) = Ok (Draining (sample_gate False 1))"
    "go_check work_gate_ops () (sample_gate False 1) = Ok None"
    by (simp_all add: defs work_quiesce_enter_def work_quiesce_check_def)
  from gate_step.drain_wait [where ops = work_gate_ops and t = True, OF _ this]
  show "gate_step work_gate_ops (Drain True ()) (gate_sample_system True 1 None) (gate_sample_system False 1 (Some ((), False)))"
    by (simp add: gate_sample_system_def)
  have "go_leave work_gate_ops (sy_gate (gate_sample_system False 1 (Some ((), False)))) = (sample_gate False 0, True)"
    by (simp add: defs work_guard_drop_def saturating_sub_def)
  from gate_step.leave [where ops = work_gate_ops, OF _ this, of 0]
  show "gate_step work_gate_ops Leave (gate_sample_system False 1 (Some ((), False))) (gate_sample_system False 0 (Some ((), True)))"
    by (simp add: gate_sample_system_def notify_all_def if_distrib [of "map_option _"] fun_upd_def cong: if_cong)
  have "go_check work_gate_ops () (sy_gate (gate_sample_system False 0 (Some ((), True)))) = Ok (Some (sample_gate False 0))"
    by (simp add: defs work_quiesce_check_def)
  from gate_step.wake_returned [where ops = work_gate_ops and t = True, OF _ this]
  show "gate_step work_gate_ops (Wake True) (gate_sample_system False 0 (Some ((), True))) (gate_sample_system False 0 None)"
    by (simp add: gate_sample_system_def)
qed

lemma gate_sample_run:
  "gate_run work_gate_ops (system_new work_gate_new) [Admit ()] (gate_sample_system True 1 None)"
  "gate_run work_gate_ops (gate_sample_system False 1 (Some ((), False))) [Leave, Wake True] (gate_sample_system False 0 None)"
  using run_step [OF run_nil gate_sample_steps(2)] run_step [OF run_step [OF run_nil gate_sample_steps(4)] gate_sample_steps(5)]
  by (simp_all add: gate_sample_steps(1))

theorem work_gate_drained_witness: "work_admit (sy_gate (gate_sample_system False 0 None)) = Err WorkQuiescing"
  using work_gate_drained [OF gate_sample_run(1) gate_sample_steps(3) gate_sample_run(2)] by (simp add: gate_sample_system_def)

text \<open>
  C39: no wake-up of the work gate is lost.  Whenever no admitted work is left, every thread that
  waits in \<open>quiesce_and_wait\<close> has been notified, and returns as soon as it runs.
\<close>

theorem work_gate_wakeup:
  assumes "gate_run work_gate_ops (system_new work_gate_new) ls s" and "sy_guards s = 0"
    and "sy_waiting s t = Some ((), notified)"
  shows "notified \<and> (\<exists>s'. gate_step work_gate_ops (Wake t) s s') \<and>
    (\<forall>s'. gate_step work_gate_ops (Wake t) s s' \<longrightarrow> sy_waiting s' t = None)"
  by (rule work.waiters_return [OF assms(1) _ _ assms(2,3)])
    (simp_all add: work_gate_wf_def work_count_def work_gate_new_def mutex_new_def)

theorem work_gate_wakeup_witness:
  "\<exists>s'. gate_step work_gate_ops (Wake True) (gate_sample_system False 0 (Some ((), True))) s'"
proof -
  have "gate_run work_gate_ops (system_new work_gate_new) ([Admit ()] @ [Drain True ()] @ [Leave])
      (gate_sample_system False 0 (Some ((), True)))"
    using run_step [OF run_step [OF gate_sample_run(1) gate_sample_steps(3)] gate_sample_steps(4)] by simp
  from work_gate_wakeup [OF this, of True True] show ?thesis by (simp add: gate_sample_system_def)
qed

end
