(* ===== verification/Message_Interrupt.thy ===== *)
theory Message_Interrupt
  imports Drain_Gate
begin

text \<open>
  The registry of guest-message interrupts (message_interrupt.rs): messages programmed by the guest
  resolve only against the live routes of the registry, and admission closes before teardown.  The
  routes are opaque: whether a route matches a message and what it does to signal it are
  parameters.  Every operation is one critical section of the registry's mutex; the waiting calls
  are their entry and the test of their wait loop.
\<close>

record guest_message =
  gm_address :: u64
  gm_data :: u32

record guest_message_interrupt_signal_error =
  se_message :: string
  se_delivery_ambiguous :: bool

datatype registry_phase = PhaseActive | PhaseQuiescing | PhaseReleased

datatype guest_message_interrupt_registry_error =
    RegistryEmpty
  | StatePoisoned
  | SignalInFlightOverflow
  | InFlightSignalsRemain
  | NotActive registry_phase
  | UnknownMessage
  | AmbiguousMessage
  | SignalFailed guest_message_interrupt_signal_error

record registry_state =
  rs_phase :: registry_phase
  rs_in_flight :: u64

record 'r message_registry =
  rg_routes :: "'r list"
  rg_state :: "registry_state mutex"

abbreviation lock_registry :: "'r message_registry \<Rightarrow> (registry_state, guest_message_interrupt_registry_error) result" where
  "lock_registry g \<equiv> mutex_lock StatePoisoned (rg_state g)"

definition put_state :: "'r message_registry \<Rightarrow> registry_state \<Rightarrow> 'r message_registry" where
  "put_state g s = g\<lparr>rg_state := (rg_state g)\<lparr>mx_value := s\<rparr>\<rparr>"

definition registry_new :: "'r list \<Rightarrow> ('r message_registry, guest_message_interrupt_registry_error) result" where
  "registry_new routes =
     (if routes = [] then Err RegistryEmpty
      else Ok \<lparr>rg_routes = routes, rg_state = mutex_new \<lparr>rs_phase = PhaseActive, rs_in_flight = 0\<rparr>\<rparr>)"

definition registry_phase_of :: "'r message_registry \<Rightarrow> (registry_phase, guest_message_interrupt_registry_error) result" where
  "registry_phase_of g = and_then (lock_registry g) (\<lambda>s. Ok (rs_phase s))"

definition resolve_route ::
    "('r \<Rightarrow> guest_message \<Rightarrow> bool) \<Rightarrow> 'r message_registry \<Rightarrow> guest_message \<Rightarrow>
     ('r, guest_message_interrupt_registry_error) result" where
  "resolve_route matches g message =
     (case filter (\<lambda>r. matches r message) (rg_routes g) of
        [] \<Rightarrow> Err UnknownMessage
      | [r] \<Rightarrow> Ok r
      | _ \<Rightarrow> Err AmbiguousMessage)"

definition validate_message ::
    "('r \<Rightarrow> guest_message \<Rightarrow> bool) \<Rightarrow> 'r message_registry \<Rightarrow> guest_message \<Rightarrow>
     (unit, guest_message_interrupt_registry_error) result" where
  "validate_message matches g message =
     and_then (lock_registry g) (\<lambda>s.
       if rs_phase s \<noteq> PhaseActive then Err (NotActive (rs_phase s))
       else and_then (resolve_route matches g message) (\<lambda>_. Ok ()))"

text \<open>The admission of \<open>signal\<close>: the route it resolves, with the count of signals raised.\<close>

definition signal_admit ::
    "('r \<Rightarrow> guest_message \<Rightarrow> bool) \<Rightarrow> 'r message_registry \<Rightarrow> guest_message \<Rightarrow>
     ('r message_registry \<times> 'r, guest_message_interrupt_registry_error) result" where
  "signal_admit matches g message =
     and_then (lock_registry g) (\<lambda>s.
       if rs_phase s \<noteq> PhaseActive then Err (NotActive (rs_phase s))
       else and_then (resolve_route matches g message) (\<lambda>route.
            and_then (ok_or (checked_add (rs_in_flight s) 1) SignalInFlightOverflow) (\<lambda>n.
            Ok (put_state g (s\<lparr>rs_in_flight := n\<rparr>), route))))"

definition in_flight_drop :: "'r message_registry \<Rightarrow> 'r message_registry \<times> bool" where
  "in_flight_drop g =
     (let s = mx_value (rg_state g); n = saturating_sub (rs_in_flight s) 1
      in (put_state g (s\<lparr>rs_in_flight := n\<rparr>), n = 0))"

text \<open>
  A whole call of \<open>signal\<close> that no other thread interrupts; \<open>'w\<close> is the state of the back end.
\<close>

definition registry_signal ::
    "('r \<Rightarrow> guest_message \<Rightarrow> bool) \<Rightarrow>
     ('w \<Rightarrow> 'r \<Rightarrow> guest_message \<Rightarrow> 'w \<times> (unit, guest_message_interrupt_signal_error) result) \<Rightarrow>
     'w \<Rightarrow> 'r message_registry \<Rightarrow> guest_message \<Rightarrow>
     'w \<times> 'r message_registry \<times> (unit, guest_message_interrupt_registry_error) result" where
  "registry_signal matches send w g message =
     (case signal_admit matches g message of
        Ok (g1, route) \<Rightarrow>
          (case send w route message of (w', res) \<Rightarrow> (w', fst (in_flight_drop g1), map_err SignalFailed res))
      | Err e \<Rightarrow> (w, g, Err e)
      | Panic \<Rightarrow> (w, g, Panic))"

definition begin_quiesce :: "'r message_registry \<Rightarrow> ('r message_registry, guest_message_interrupt_registry_error) result" where
  "begin_quiesce g =
     and_then (lock_registry g) (\<lambda>s.
       case rs_phase s of
         PhaseActive \<Rightarrow> Ok (put_state g (s\<lparr>rs_phase := PhaseQuiescing\<rparr>))
       | PhaseQuiescing \<Rightarrow> Ok g
       | PhaseReleased \<Rightarrow> Err (NotActive (rs_phase s)))"

definition registry_quiesce_check :: "'r message_registry \<Rightarrow> ('r message_registry option, guest_message_interrupt_registry_error) result" where
  "registry_quiesce_check g =
     and_then (lock_registry g) (\<lambda>s. if rs_in_flight s \<noteq> 0 then Ok None else Ok (Some g))"

definition registry_resume :: "'r message_registry \<Rightarrow> ('r message_registry, guest_message_interrupt_registry_error) result" where
  "registry_resume g =
     and_then (lock_registry g) (\<lambda>s.
       case rs_phase s of
         PhaseQuiescing \<Rightarrow>
           if rs_in_flight s = 0 then Ok (put_state g (s\<lparr>rs_phase := PhaseActive\<rparr>)) else Err InFlightSignalsRemain
       | PhaseActive \<Rightarrow> Ok g
       | PhaseReleased \<Rightarrow> Err (NotActive (rs_phase s)))"

definition release_enter :: "'r message_registry \<Rightarrow> ('r message_registry drain_entry, guest_message_interrupt_registry_error) result" where
  "release_enter g =
     and_then (lock_registry g) (\<lambda>s.
       if rs_phase s = PhaseReleased then Ok (Returned g)
       else Ok (Draining (put_state g (s\<lparr>rs_phase := PhaseQuiescing\<rparr>))))"

definition release_check :: "'r message_registry \<Rightarrow> ('r message_registry option, guest_message_interrupt_registry_error) result" where
  "release_check g =
     and_then (lock_registry g) (\<lambda>s.
       if rs_in_flight s \<noteq> 0 then Ok None else Ok (Some (put_state g (s\<lparr>rs_phase := PhaseReleased\<rparr>))))"

section \<open>The registry as a gate\<close>

datatype drain_kind = QuiesceAndWait | Release

text \<open>\<open>quiesce_and_wait\<close> enters as \<open>begin_quiesce\<close> does and then waits.\<close>

definition registry_ops ::
    "('r \<Rightarrow> guest_message \<Rightarrow> bool) \<Rightarrow>
     ('r message_registry, guest_message, drain_kind, guest_message_interrupt_registry_error) gate_ops" where
  "registry_ops matches =
     \<lparr>go_admit = (\<lambda>message g. and_then (signal_admit matches g message) (\<lambda>p. Ok (fst p))), go_leave = in_flight_drop,
      go_enter = (\<lambda>k g. case k of
          QuiesceAndWait \<Rightarrow> and_then (begin_quiesce g) (\<lambda>g. Ok (Draining g))
        | Release \<Rightarrow> release_enter g),
      go_check = (\<lambda>k. case k of QuiesceAndWait \<Rightarrow> registry_quiesce_check | Release \<Rightarrow> release_check),
      go_shut = begin_quiesce, go_reopen = registry_resume\<rparr>"

abbreviation registry_state_of :: "'r message_registry \<Rightarrow> registry_state" where
  "registry_state_of g \<equiv> mx_value (rg_state g)"

definition registry_wf :: "'r message_registry \<Rightarrow> bool" where
  "registry_wf g \<longleftrightarrow> \<not> mx_poisoned (rg_state g) \<and>
     (rs_phase (registry_state_of g) = PhaseReleased \<longrightarrow> rs_in_flight (registry_state_of g) = 0)"

definition registry_closed :: "'r message_registry \<Rightarrow> bool" where
  "registry_closed g \<longleftrightarrow> rs_phase (registry_state_of g) \<noteq> PhaseActive"

definition registry_count :: "'r message_registry \<Rightarrow> nat" where
  "registry_count g = unat (rs_in_flight (registry_state_of g))"

lemmas registry_defs = registry_ops_def registry_wf_def registry_closed_def registry_count_def mutex_lock_def put_state_def

interpretation registry: drain_gate "registry_ops matches" registry_wf registry_closed registry_count
  for matches :: "'r \<Rightarrow> guest_message \<Rightarrow> bool"
proof unfold_locales
  fix g g' :: "'r message_registry" and m
  assume "registry_wf g" and "go_admit (registry_ops matches) m g = Ok g'"
  then show "registry_wf g' \<and> \<not> registry_closed g \<and> registry_count g' = Suc (registry_count g)"
    by (auto simp: registry_defs signal_admit_def and_then_Ok_iff checked_add_Some_iff split: if_splits)
next
  fix g g' :: "'r message_registry" and notify
  assume "registry_wf g" and "0 < registry_count g" and "go_leave (registry_ops matches) g = (g', notify)"
  then show "registry_wf g' \<and> registry_count g' = registry_count g - 1 \<and> registry_closed g' = registry_closed g \<and>
      notify = (registry_count g' = 0)"
    by (auto simp: registry_defs in_flight_drop_def Let_def unat_saturating_sub saturating_sub_1_eq_0)
next
  fix g :: "'r message_registry" and k
  assume "registry_wf g"
  then show "(go_check (registry_ops matches) k g = Ok None) = (0 < registry_count g)"
    by (cases k) (simp_all add: registry_defs registry_quiesce_check_def release_check_def unat_gt_0)
next
  fix g :: "'r message_registry" and k
  assume "registry_wf g" and "registry_count g = 0"
  then show "\<exists>g'. go_check (registry_ops matches) k g = Ok (Some g') \<and> registry_wf g' \<and> registry_count g' = 0 \<and>
      (registry_closed g \<longrightarrow> registry_closed g')"
    by (cases k) (auto simp: registry_defs registry_quiesce_check_def release_check_def unat_eq_0)
qed (auto simp: registry_defs begin_quiesce_def release_enter_def registry_resume_def and_then_Ok_iff
    split: if_splits registry_phase.splits drain_kind.splits)

section \<open>Release is final\<close>

abbreviation released :: "'r message_registry \<Rightarrow> bool" where
  "released g \<equiv> rs_phase (registry_state_of g) = PhaseReleased"

lemma leave_phase: "go_leave (registry_ops matches) g = (g', n) \<Longrightarrow> rs_phase (registry_state_of g') = rs_phase (registry_state_of g)"
  by (auto simp: registry_defs in_flight_drop_def Let_def)

lemma released_stuck:
  assumes "registry_wf g" and "released g"
  shows "go_admit (registry_ops matches) m g \<noteq> Ok g'" "go_shut (registry_ops matches) g \<noteq> Ok g'"
    "go_reopen (registry_ops matches) g \<noteq> Ok g'" "go_enter (registry_ops matches) k g \<noteq> Ok (Draining g')"
    "go_check (registry_ops matches) k g = Ok (Some g') \<Longrightarrow> released g'"
  using assms
  by (auto simp: registry_defs signal_admit_def begin_quiesce_def registry_resume_def release_enter_def
      registry_quiesce_check_def release_check_def and_then_Ok_iff split: drain_kind.splits if_splits)

lemma release_check_released: "go_check (registry_ops matches) Release g = Ok (Some g') \<Longrightarrow> released g'"
  by (auto simp: registry_defs release_check_def and_then_Ok_iff split: if_splits)

definition releasing :: "'t \<Rightarrow> ('r message_registry, drain_kind, 't) gate_system \<Rightarrow> bool" where
  "releasing t s \<longleftrightarrow> (\<exists>n. sy_waiting s t = Some (Release, n)) \<or> released (sy_gate s)"

lemma step_releasing:
  assumes "gate_step (registry_ops matches) l s s'" and "system_wf registry_wf registry_count s" and "releasing t s"
  shows "releasing t s'"
  using assms
proof (induction rule: gate_step.induct)
  case (admit m s g)
  then show ?case using released_stuck(1) [of "sy_gate s" matches m g] by (auto simp: releasing_def system_wf_def)
next
  case (leave s n g notify)
  then show ?case using leave_phase [OF leave(2)] by (auto simp: releasing_def notify_all_def)
next
  case (drain_returned s t' k g)
  then show ?case
    using registry.returned_law [of "sy_gate s" matches k g] by (auto simp: releasing_def system_wf_def)
next
  case (drain_empty s t' k g g')
  then show ?case using released_stuck(4) [of "sy_gate s" matches k g] by (auto simp: releasing_def system_wf_def)
next
  case (drain_wait s t' k g)
  then show ?case using released_stuck(4) [of "sy_gate s" matches k g] by (auto simp: releasing_def system_wf_def)
next
  case (wake_returned s t' k n g)
  have "released g" if "t' = t" "\<not> released (sy_gate s)"
    using that wake_returned release_check_released [of matches "sy_gate s" g] by (auto simp: releasing_def)
  then show ?case
    using wake_returned released_stuck(5) [of "sy_gate s" matches k g] by (auto simp: releasing_def system_wf_def)
next
  case (wake_failed s t' k n e)
  then show ?case
    using registry.check_wait_law [of "sy_gate s" matches k] registry.check_done_law [of "sy_gate s" matches k]
    by (fastforce simp: system_wf_def)
next
  case (shut s g)
  then show ?case using released_stuck(2) [of "sy_gate s" matches g] by (auto simp: releasing_def system_wf_def)
next
  case (reopen s g)
  then show ?case using released_stuck(3) [of "sy_gate s" matches g] by (auto simp: releasing_def system_wf_def)
qed (auto simp: releasing_def)

lemma run_releasing:
  assumes "gate_run (registry_ops matches) s ls s'" and "system_wf registry_wf registry_count s" and "releasing t s"
  shows "releasing t s'"
  using assms
proof (induction rule: gate_run.induct)
  case (run_step s ls s1 l s2)
  then show ?case using step_releasing [OF run_step(2) registry.run_wf [OF run_step(1,4)]] by blast
qed

lemma release_step:
  assumes "gate_step (registry_ops matches) (Drain t Release) s s'" and "system_wf registry_wf registry_count s"
  shows "releasing t s'"
  using assms(1)
proof (cases rule: gate_step.cases)
  case (drain_returned g)
  then show ?thesis by (auto simp: releasing_def registry_defs release_enter_def and_then_Ok_iff split: if_splits)
next
  case (drain_empty g g')
  then show ?thesis using release_check_released [of matches g g'] by (simp add: releasing_def)
qed (auto simp: releasing_def)

text \<open>
  C21: the release of a registry is final.  In every interleaving of signals, drops, quiescing,
  resuming and other releases, once a thread has called \<open>release\<close> and is no longer waiting in it,
  no signal is in flight and none is ever admitted again: the registry is released for good, even if
  another thread resumed it while the release was waiting.
\<close>

theorem registry_release_final:
  assumes new: "registry_new routes = Ok g" and run: "gate_run (registry_ops matches) (system_new g) ls s0"
    and rel: "gate_step (registry_ops matches) (Drain t Release) s0 s1" and run': "gate_run (registry_ops matches) s1 ls' s2"
    and ret: "sy_waiting s2 t = None"
  shows "sy_guards s2 = 0 \<and> registry_phase_of (sy_gate s2) = Ok PhaseReleased \<and>
    signal_admit matches (sy_gate s2) message = Err (NotActive PhaseReleased)"
proof -
  have "system_wf registry_wf registry_count (system_new g :: ('a message_registry, drain_kind, 'b) gate_system)"
    using new by (auto simp: registry_new_def system_wf_def system_new_def registry_wf_def registry_count_def mutex_new_def
        split: if_splits)
  from registry.run_wf [OF run this] have wf0: "system_wf registry_wf registry_count s0" .
  note wf1 = registry.step_wf [OF rel wf0]
  note wf2 = registry.run_wf [OF run' wf1]
  have "released (sy_gate s2)"
    using run_releasing [OF run' wf1 release_step [OF rel wf0]] ret by (simp add: releasing_def)
  then show ?thesis
    using wf2 by (auto simp: system_wf_def registry_wf_def registry_count_def registry_phase_of_def signal_admit_def
        mutex_lock_def)
qed

text \<open>
  A run in which a release waits for a signal in flight, and the registry is resumed between the
  drop of that signal and the wake-up of the releasing thread.
\<close>

definition sample_registry :: "registry_phase \<Rightarrow> u64 \<Rightarrow> u32 message_registry" where
  "sample_registry p n = \<lparr>rg_routes = [7, 9], rg_state = mutex_new \<lparr>rs_phase = p, rs_in_flight = n\<rparr>\<rparr>"

definition registry_sample ::
    "registry_phase \<Rightarrow> nat \<Rightarrow> (drain_kind \<times> bool) option \<Rightarrow> (u32 message_registry, drain_kind, bool) gate_system" where
  "registry_sample p n w = \<lparr>sy_gate = sample_registry p (of_nat n), sy_guards = n, sy_waiting = (\<lambda>_. None)(True := w)\<rparr>"

abbreviation route_matches :: "u32 \<Rightarrow> guest_message \<Rightarrow> bool" where
  "route_matches r m \<equiv> r = gm_data m"

lemma registry_sample_steps:
  "registry_new [7, 9] = Ok (sample_registry PhaseActive 0)"
  "system_new (sample_registry PhaseActive 0) = registry_sample PhaseActive 0 None"
  "gate_step (registry_ops route_matches) (Admit \<lparr>gm_address = 0x8090000, gm_data = 9\<rparr>)
     (registry_sample PhaseActive 0 None) (registry_sample PhaseActive 1 None)"
  "gate_step (registry_ops route_matches) (Drain True Release)
     (registry_sample PhaseActive 1 None) (registry_sample PhaseQuiescing 1 (Some (Release, False)))"
  "gate_step (registry_ops route_matches) Leave
     (registry_sample PhaseQuiescing 1 (Some (Release, False))) (registry_sample PhaseQuiescing 0 (Some (Release, True)))"
  "gate_step (registry_ops route_matches) Reopen
     (registry_sample PhaseQuiescing 0 (Some (Release, True))) (registry_sample PhaseActive 0 (Some (Release, True)))"
  "gate_step (registry_ops route_matches) (Wake True)
     (registry_sample PhaseActive 0 (Some (Release, True))) (registry_sample PhaseReleased 0 None)"
proof -
  let ?ops = "registry_ops route_matches"
  note defs = registry_sample_def sample_registry_def registry_ops_def mutex_lock_def mutex_new_def put_state_def
  show "registry_new [7, 9] = Ok (sample_registry PhaseActive 0)" by (simp add: registry_new_def sample_registry_def)
  show "system_new (sample_registry PhaseActive 0) = registry_sample PhaseActive 0 None"
    by (simp add: system_new_def registry_sample_def fun_eq_iff)
  have "go_admit ?ops \<lparr>gm_address = 0x8090000, gm_data = 9\<rparr> (sy_gate (registry_sample PhaseActive 0 None)) =
      Ok (sample_registry PhaseActive 1)"
    by (simp add: defs signal_admit_def resolve_route_def checked_add_def)
  from gate_step.admit [where ops = ?ops, OF this]
  show "gate_step ?ops (Admit \<lparr>gm_address = 0x8090000, gm_data = 9\<rparr>)
      (registry_sample PhaseActive 0 None) (registry_sample PhaseActive 1 None)"
    by (simp add: registry_sample_def)
  have "go_enter ?ops Release (sy_gate (registry_sample PhaseActive 1 None)) = Ok (Draining (sample_registry PhaseQuiescing 1))"
    "go_check ?ops Release (sample_registry PhaseQuiescing 1) = Ok None"
    by (simp_all add: defs release_enter_def release_check_def)
  from gate_step.drain_wait [where ops = ?ops and t = True, OF _ this]
  show "gate_step ?ops (Drain True Release) (registry_sample PhaseActive 1 None)
      (registry_sample PhaseQuiescing 1 (Some (Release, False)))"
    by (simp add: registry_sample_def)
  have "go_leave ?ops (sy_gate (registry_sample PhaseQuiescing 1 (Some (Release, False)))) = (sample_registry PhaseQuiescing 0, True)"
    by (simp add: defs in_flight_drop_def saturating_sub_def)
  from gate_step.leave [where ops = ?ops, OF _ this, of 0]
  show "gate_step ?ops Leave (registry_sample PhaseQuiescing 1 (Some (Release, False)))
      (registry_sample PhaseQuiescing 0 (Some (Release, True)))"
    by (simp add: registry_sample_def notify_all_def if_distrib [of "map_option _"] fun_upd_def cong: if_cong)
  have "go_reopen ?ops (sy_gate (registry_sample PhaseQuiescing 0 (Some (Release, True)))) = Ok (sample_registry PhaseActive 0)"
    by (simp add: defs registry_resume_def)
  from gate_step.reopen [where ops = ?ops, OF this]
  show "gate_step ?ops Reopen (registry_sample PhaseQuiescing 0 (Some (Release, True)))
      (registry_sample PhaseActive 0 (Some (Release, True)))"
    by (simp add: registry_sample_def)
  have "go_check ?ops Release (sy_gate (registry_sample PhaseActive 0 (Some (Release, True)))) =
      Ok (Some (sample_registry PhaseReleased 0))"
    by (simp add: defs release_check_def)
  from gate_step.wake_returned [where ops = ?ops and t = True, OF _ this]
  show "gate_step ?ops (Wake True) (registry_sample PhaseActive 0 (Some (Release, True)))
      (registry_sample PhaseReleased 0 None)"
    by (simp add: registry_sample_def)
qed

theorem registry_release_final_witness:
  "signal_admit route_matches (sample_registry PhaseReleased 0) \<lparr>gm_address = 0x8090000, gm_data = 9\<rparr> =
     Err (NotActive PhaseReleased)"
proof -
  note steps = registry_sample_steps
  have before: "gate_run (registry_ops route_matches) (system_new (sample_registry PhaseActive 0))
      [Admit \<lparr>gm_address = 0x8090000, gm_data = 9\<rparr>] (registry_sample PhaseActive 1 None)"
    using run_step [OF run_nil steps(3)] steps(2) by simp
  have after: "gate_run (registry_ops route_matches) (registry_sample PhaseQuiescing 1 (Some (Release, False)))
      [Leave, Reopen, Wake True] (registry_sample PhaseReleased 0 None)"
    using run_step [OF run_step [OF run_step [OF run_nil steps(5)] steps(6)] steps(7)] by simp
  show ?thesis
    using registry_release_final [OF steps(1) before steps(4) after] by (simp add: registry_sample_def)
qed

end
