(* ===== verification/Big_Endian.thy ===== *)
theory Big_Endian
  imports Prelude
begin

text \<open>
  Big-endian bytes, the order of the wire formats: \<open>to_be_bytes\<close> and \<open>from_be_bytes\<close>, which are
  inverse to each other on words and on byte strings of the right length.
\<close>

definition to_be_bytes :: "'a::len word \<Rightarrow> u8 list" where
  "to_be_bytes w = rev (to_le_bytes w)"

definition from_be_bytes :: "u8 list \<Rightarrow> 'a::len word" where
  "from_be_bytes bs = from_le_bytes (rev bs)"

lemma length_to_be_bytes [simp]: "length (to_be_bytes (w :: 'a::len word)) = LENGTH('a) div 8"
  by (simp add: to_be_bytes_def)

lemma from_to_be_bytes:
  fixes w :: "'a::len word"
  assumes "8 dvd LENGTH('a)"
  shows "from_be_bytes (to_be_bytes w) = w"
  using assms by (simp add: from_be_bytes_def to_be_bytes_def from_to_le_bytes)

lemma bit_from_le_bytes: "bit (from_le_bytes bs :: 'a::len word) k \<Longrightarrow> k < 8 * length bs"
proof (induction bs arbitrary: k)
  case (Cons b bs)
  then have "k < 8 \<or> bit (from_le_bytes bs :: 'a word) (k - 8)" by (auto simp: bit_simps dest: bit_imp_le_length)
  then show ?case using Cons.IH [of "k - 8"] by auto
qed simp

lemma le_bytes_from_le_bytes:
  "8 * length bs \<le> LENGTH('a) \<Longrightarrow> le_bytes (length bs) (from_le_bytes bs :: 'a::len word) = bs"
proof (induction bs)
  case (Cons b bs)
  let ?w = "from_le_bytes bs :: 'a word"
  have "ucast (ucast b OR push_bit 8 ?w) = b"
    using Cons.prems by (intro bit_word_eqI) (auto simp: bit_simps)
  moreover have "drop_bit 8 (ucast b OR push_bit 8 ?w) = ?w"
    using Cons.prems by (intro bit_word_eqI) (auto simp: bit_simps dest: bit_imp_le_length bit_from_le_bytes)
  ultimately show ?case using Cons by simp
qed simp

lemma to_from_be_bytes:
  assumes "length bs = LENGTH('a) div 8"
  shows "to_be_bytes (from_be_bytes bs :: 'a::len word) = bs"
  using assms le_bytes_from_le_bytes [of "rev bs", where 'a = 'a]
  by (simp add: to_be_bytes_def from_be_bytes_def to_le_bytes_def)

end
