(* ===== verification/Pager_Frame.thy ===== *)
theory Pager_Frame
  imports Big_Endian
begin

text \<open>
  The frames of the snapshot pager protocol (pager/src/frame.rs): the validated values that occur
  in a frame, the encoder, the exact decoder and the incremental decoder for split and coalesced
  stream input.  Every frame has a header of 24 bytes (magic, version, kind, body length, two
  reserved words) and a body that starts with the identity of the session.
\<close>

section \<open>Constants and errors\<close>

definition HEADER_BYTES :: nat where "HEADER_BYTES = 24"
definition MIN_PAGE_SIZE :: u32 where "MIN_PAGE_SIZE = 4 * 1024"
definition MAX_PAGE_SIZE :: u32 where "MAX_PAGE_SIZE = 2 * 1024 * 1024"
definition MAX_REGIONS :: u16 where "MAX_REGIONS = 128"
definition MAX_IN_FLIGHT :: u16 where "MAX_IN_FLIGHT = 256"
definition SESSION_BYTES :: nat where "SESSION_BYTES = 32"
definition LIMITS_BODY_BYTES :: nat where "LIMITS_BODY_BYTES = SESSION_BYTES + 24"
definition REGION_BODY_BYTES :: nat where "REGION_BODY_BYTES = SESSION_BYTES + 24"
definition PAGE_METADATA_BYTES :: nat where "PAGE_METADATA_BYTES = SESSION_BYTES + 40"
definition REMOVE_BODY_BYTES :: nat where "REMOVE_BODY_BYTES = SESSION_BYTES + 40"
definition CANCEL_BODY_BYTES :: nat where "CANCEL_BODY_BYTES = SESSION_BYTES + 8"
definition TERMINAL_BODY_BYTES :: nat where "TERMINAL_BODY_BYTES = SESSION_BYTES + 8"
definition MAX_FRAME_BYTES :: nat where "MAX_FRAME_BYTES = HEADER_BYTES + PAGE_METADATA_BYTES + unat MAX_PAGE_SIZE"
definition MAX_BUFFER_BYTES :: nat where "MAX_BUFFER_BYTES = MAX_FRAME_BYTES * 2"
definition MAGIC :: "u8 list" where "MAGIC = [0x42, 0x42, 0x50, 0x41, 0x47, 0x45, 0x52, 0]"
definition PAGER_VERSION :: u16 where "PAGER_VERSION = 1"
definition V1_OPERATIONS :: u32 where
  "V1_OPERATIONS = push_bit 0 1 OR push_bit 1 1 OR push_bit 2 1 OR push_bit 3 1 OR push_bit 4 1"

lemmas pager_sizes = HEADER_BYTES_def SESSION_BYTES_def LIMITS_BODY_BYTES_def REGION_BODY_BYTES_def
  PAGE_METADATA_BYTES_def REMOVE_BODY_BYTES_def CANCEL_BODY_BYTES_def TERMINAL_BODY_BYTES_def

datatype pager_error =
    Randomness | InvalidConfiguration | InvalidFrame | InvalidPeerState | InvalidLifecycle | LimitExceeded
  | UnexpectedEof | Timeout | Disconnected | PagerCancelled | PeerTerminal | PagerIo string | PagerPoisoned

section \<open>Validated values\<close>

type_synonym pager_session_id = "u8 list"
type_synonym pager_region_id = u32
type_synonym pager_request_id = u64
type_synonym pager_generation = u64
type_synonym pager_operations = u32

definition session_from_bytes :: "u8 list \<Rightarrow> (pager_session_id, pager_error) result" where
  "session_from_bytes bytes = (if bytes = replicate SESSION_BYTES 0 then Err InvalidConfiguration else Ok bytes)"

definition session_decode :: "u8 list \<Rightarrow> (pager_session_id, pager_error) result" where
  "session_decode bytes = map_err (\<lambda>_. InvalidFrame) (session_from_bytes bytes)"

definition identifier_new :: "'a::len word \<Rightarrow> ('a word, pager_error) result" where
  "identifier_new v = (if v = 0 then Err InvalidConfiguration else Ok v)"

definition identifier_decode :: "'a::len word \<Rightarrow> ('a word, pager_error) result" where
  "identifier_decode v = map_err (\<lambda>_. InvalidFrame) (identifier_new v)"

definition operations_from_bits :: "u32 \<Rightarrow> (pager_operations, pager_error) result" where
  "operations_from_bits bits = (if bits = V1_OPERATIONS then Ok bits else Err InvalidConfiguration)"

definition operations_decode :: "u32 \<Rightarrow> (pager_operations, pager_error) result" where
  "operations_decode bits = map_err (\<lambda>_. InvalidFrame) (operations_from_bits bits)"

record pager_limits =
  pl_page_size :: u32
  pl_region_count :: u16
  pl_max_in_flight :: u16
  pl_max_frame_bytes :: u32
  pl_operations :: pager_operations

definition limits_new :: "u32 \<Rightarrow> u16 \<Rightarrow> u16 \<Rightarrow> u32 \<Rightarrow> pager_operations \<Rightarrow> (pager_limits, pager_error) result" where
  "limits_new page_size region_count max_in_flight max_frame_bytes operations =
     and_then (ok_or (Option.bind (checked_add (of_nat HEADER_BYTES) (of_nat PAGE_METADATA_BYTES))
                        (\<lambda>metadata. checked_add metadata page_size)) InvalidConfiguration) (\<lambda>required_frame.
       if \<not> is_power_of_two page_size \<or> \<not> (MIN_PAGE_SIZE \<le> page_size \<and> page_size \<le> MAX_PAGE_SIZE) \<or>
          \<not> (1 \<le> region_count \<and> region_count \<le> MAX_REGIONS) \<or> \<not> (1 \<le> max_in_flight \<and> max_in_flight \<le> MAX_IN_FLIGHT) \<or>
          \<not> (required_frame \<le> max_frame_bytes \<and> max_frame_bytes \<le> of_nat MAX_FRAME_BYTES) \<or> operations \<noteq> V1_OPERATIONS
       then Err InvalidConfiguration
       else Ok \<lparr>pl_page_size = page_size, pl_region_count = region_count, pl_max_in_flight = max_in_flight,
                pl_max_frame_bytes = max_frame_bytes, pl_operations = operations\<rparr>)"

definition limits_decode :: "u32 \<Rightarrow> u16 \<Rightarrow> u16 \<Rightarrow> u32 \<Rightarrow> pager_operations \<Rightarrow> (pager_limits, pager_error) result" where
  "limits_decode page_size region_count max_in_flight max_frame_bytes operations =
     map_err (\<lambda>_. InvalidFrame) (limits_new page_size region_count max_in_flight max_frame_bytes operations)"

definition is_selection_for :: "pager_limits \<Rightarrow> pager_limits \<Rightarrow> bool" where
  "is_selection_for l offered \<longleftrightarrow>
     pl_page_size l = pl_page_size offered \<and> pl_region_count l = pl_region_count offered \<and>
     pl_max_in_flight l \<le> pl_max_in_flight offered \<and> pl_max_frame_bytes l \<le> pl_max_frame_bytes offered \<and>
     pl_operations l = pl_operations offered"

record pager_region =
  pr_id :: pager_region_id
  pr_source_offset :: u64
  pr_length :: u64

definition region_is_valid_for :: "pager_region \<Rightarrow> u32 \<Rightarrow> bool" where
  "region_is_valid_for r page_size \<longleftrightarrow>
     (let alignment = ucast page_size
      in alignment \<noteq> 0 \<and> pr_length r \<noteq> 0 \<and> is_multiple_of (pr_source_offset r) alignment \<and>
         is_multiple_of (pr_length r) alignment \<and> checked_add (pr_source_offset r) (pr_length r) \<noteq> None)"

definition region_new :: "pager_region_id \<Rightarrow> u64 \<Rightarrow> u64 \<Rightarrow> u32 \<Rightarrow> (pager_region, pager_error) result" where
  "region_new i source_offset len page_size =
     (let region = \<lparr>pr_id = i, pr_source_offset = source_offset, pr_length = len\<rparr>
      in if region_is_valid_for region page_size then Ok region else Err InvalidConfiguration)"

definition region_decode :: "pager_region_id \<Rightarrow> u64 \<Rightarrow> u64 \<Rightarrow> (pager_region, pager_error) result" where
  "region_decode i source_offset len =
     (if len = 0 \<or> checked_add source_offset len = None then Err InvalidFrame
      else Ok \<lparr>pr_id = i, pr_source_offset = source_offset, pr_length = len\<rparr>)"

datatype page_access = PageRead | PageWrite

fun access_wire :: "page_access \<Rightarrow> u32" where
  "access_wire PageRead = 1"
| "access_wire PageWrite = 2"

definition access_decode :: "u32 \<Rightarrow> (page_access, pager_error) result" where
  "access_decode v = (if v = 1 then Ok PageRead else if v = 2 then Ok PageWrite else Err InvalidFrame)"

datatype cancel_reason = Requested | SourceFailure

fun reason_wire :: "cancel_reason \<Rightarrow> u8" where
  "reason_wire Requested = 1"
| "reason_wire SourceFailure = 2"

definition reason_decode :: "u8 \<Rightarrow> (cancel_reason, pager_error) result" where
  "reason_decode v = (if v = 1 then Ok Requested else if v = 2 then Ok SourceFailure else Err InvalidFrame)"

datatype terminal_code = Terminal_InvalidFrame | Terminal_InvalidState | Terminal_LimitExceeded | Terminal_Internal

fun code_wire :: "terminal_code \<Rightarrow> u16" where
  "code_wire Terminal_InvalidFrame = 1"
| "code_wire Terminal_InvalidState = 2"
| "code_wire Terminal_LimitExceeded = 3"
| "code_wire Terminal_Internal = 4"

definition code_decode :: "u16 \<Rightarrow> (terminal_code, pager_error) result" where
  "code_decode v =
     (if v = 1 then Ok Terminal_InvalidFrame else if v = 2 then Ok Terminal_InvalidState
      else if v = 3 then Ok Terminal_LimitExceeded else if v = 4 then Ok Terminal_Internal else Err InvalidFrame)"

datatype pager_frame_kind =
    Kind_Hello | Kind_HelloAck | Kind_Region | Kind_Start | Kind_Ready | Kind_PageRequest | Kind_PageData | Kind_PageZero
  | Kind_Remove | Kind_Removed | Kind_Cancel | Kind_Cancelled | Kind_Terminal | Kind_Shutdown | Kind_ShutdownAck

fun kind_wire :: "pager_frame_kind \<Rightarrow> u16" where
  "kind_wire Kind_Hello = 1" | "kind_wire Kind_HelloAck = 2" | "kind_wire Kind_Region = 3" | "kind_wire Kind_Start = 4"
| "kind_wire Kind_Ready = 5" | "kind_wire Kind_PageRequest = 6" | "kind_wire Kind_PageData = 7"
| "kind_wire Kind_PageZero = 8" | "kind_wire Kind_Remove = 9" | "kind_wire Kind_Removed = 10"
| "kind_wire Kind_Cancel = 11" | "kind_wire Kind_Cancelled = 12" | "kind_wire Kind_Terminal = 13"
| "kind_wire Kind_Shutdown = 14" | "kind_wire Kind_ShutdownAck = 15"

definition kind_decode :: "u16 \<Rightarrow> (pager_frame_kind, pager_error) result" where
  "kind_decode v =
     (if v = 1 then Ok Kind_Hello else if v = 2 then Ok Kind_HelloAck else if v = 3 then Ok Kind_Region
      else if v = 4 then Ok Kind_Start else if v = 5 then Ok Kind_Ready else if v = 6 then Ok Kind_PageRequest
      else if v = 7 then Ok Kind_PageData else if v = 8 then Ok Kind_PageZero else if v = 9 then Ok Kind_Remove
      else if v = 10 then Ok Kind_Removed else if v = 11 then Ok Kind_Cancel else if v = 12 then Ok Kind_Cancelled
      else if v = 13 then Ok Kind_Terminal else if v = 14 then Ok Kind_Shutdown else if v = 15 then Ok Kind_ShutdownAck
      else Err InvalidFrame)"

record pager_page_request =
  pp_request :: pager_request_id
  pp_region :: pager_region_id
  pp_access :: page_access
  pp_generation :: pager_generation
  pp_offset :: u64
  pp_length :: u32

type_synonym pager_page_response = pager_page_request

record pager_remove_request =
  pd_request :: pager_request_id
  pd_region :: pager_region_id
  pd_generation :: pager_generation
  pd_offset :: u64
  pd_length :: u64

datatype pager_message =
    Msg_Hello pager_limits
  | Msg_HelloAck pager_limits
  | Msg_Region pager_region
  | Msg_Start
  | Msg_Ready
  | Msg_PageRequest pager_page_request
  | Msg_PageData pager_page_response "u8 list"
  | Msg_PageZero pager_page_response
  | Msg_Remove pager_remove_request
  | Msg_Removed pager_remove_request
  | Msg_Cancel cancel_reason
  | Msg_Cancelled
  | Msg_Terminal terminal_code
  | Msg_Shutdown
  | Msg_ShutdownAck

fun message_kind :: "pager_message \<Rightarrow> pager_frame_kind" where
  "message_kind (Msg_Hello _) = Kind_Hello"
| "message_kind (Msg_HelloAck _) = Kind_HelloAck"
| "message_kind (Msg_Region _) = Kind_Region"
| "message_kind Msg_Start = Kind_Start"
| "message_kind Msg_Ready = Kind_Ready"
| "message_kind (Msg_PageRequest _) = Kind_PageRequest"
| "message_kind (Msg_PageData _ _) = Kind_PageData"
| "message_kind (Msg_PageZero _) = Kind_PageZero"
| "message_kind (Msg_Remove _) = Kind_Remove"
| "message_kind (Msg_Removed _) = Kind_Removed"
| "message_kind (Msg_Cancel _) = Kind_Cancel"
| "message_kind Msg_Cancelled = Kind_Cancelled"
| "message_kind (Msg_Terminal _) = Kind_Terminal"
| "message_kind Msg_Shutdown = Kind_Shutdown"
| "message_kind Msg_ShutdownAck = Kind_ShutdownAck"

record pager_frame =
  pf_session :: pager_session_id
  pf_message :: pager_message

definition frame_kind :: "pager_frame \<Rightarrow> pager_frame_kind" where
  "frame_kind f = message_kind (pf_message f)"

section \<open>Encoding\<close>

definition encode_limits :: "pager_limits \<Rightarrow> u8 list" where
  "encode_limits l =
     to_be_bytes (pl_page_size l) @ to_be_bytes (pl_region_count l) @ to_be_bytes (pl_max_in_flight l) @
     to_be_bytes (pl_max_frame_bytes l) @ to_be_bytes (pl_operations l) @ replicate 8 0"

definition encode_page_metadata :: "pager_page_request \<Rightarrow> u8 list" where
  "encode_page_metadata r =
     to_be_bytes (pp_request r) @ to_be_bytes (pp_region r) @ to_be_bytes (access_wire (pp_access r)) @
     to_be_bytes (pp_generation r) @ to_be_bytes (pp_offset r) @ to_be_bytes (pp_length r) @ to_be_bytes (0 :: u32)"

definition encode_remove_metadata :: "pager_remove_request \<Rightarrow> u8 list" where
  "encode_remove_metadata r =
     to_be_bytes (pd_request r) @ to_be_bytes (pd_region r) @ to_be_bytes (0 :: u32) @
     to_be_bytes (pd_generation r) @ to_be_bytes (pd_offset r) @ to_be_bytes (pd_length r)"

fun encode_message :: "pager_message \<Rightarrow> (u8 list, pager_error) result" where
  "encode_message (Msg_Hello l) = Ok (encode_limits l)"
| "encode_message (Msg_HelloAck l) = Ok (encode_limits l)"
| "encode_message (Msg_Region r) =
     Ok (to_be_bytes (pr_id r) @ to_be_bytes (0 :: u32) @ to_be_bytes (pr_source_offset r) @ to_be_bytes (pr_length r))"
| "encode_message Msg_Start = Ok []"
| "encode_message Msg_Ready = Ok []"
| "encode_message Msg_Cancelled = Ok []"
| "encode_message Msg_Shutdown = Ok []"
| "encode_message Msg_ShutdownAck = Ok []"
| "encode_message (Msg_PageRequest r) = Ok (encode_page_metadata r)"
| "encode_message (Msg_PageData r bytes) =
     (if length bytes \<noteq> unat (pp_length r) then Err InvalidFrame else Ok (encode_page_metadata r @ bytes))"
| "encode_message (Msg_PageZero r) = Ok (encode_page_metadata r)"
| "encode_message (Msg_Remove r) = Ok (encode_remove_metadata r)"
| "encode_message (Msg_Removed r) = Ok (encode_remove_metadata r)"
| "encode_message (Msg_Cancel reason) = Ok (to_be_bytes (reason_wire reason) @ replicate 7 0)"
| "encode_message (Msg_Terminal code) = Ok (to_be_bytes (code_wire code) @ replicate 6 0)"

definition encode_frame :: "pager_frame \<Rightarrow> (u8 list, pager_error) result" where
  "encode_frame f =
     and_then (encode_message (pf_message f)) (\<lambda>message.
       let body = pf_session f @ message; total = HEADER_BYTES + length body
       in if 2 ^ 64 \<le> total then Err LimitExceeded
          else if MAX_FRAME_BYTES < total then Err LimitExceeded
          else if 2 ^ 32 \<le> length body then Err LimitExceeded
          else Ok (MAGIC @ to_be_bytes PAGER_VERSION @ to_be_bytes (kind_wire (frame_kind f)) @
                   to_be_bytes (of_nat (length body) :: u32) @ to_be_bytes (0 :: u32) @ to_be_bytes (0 :: u32) @ body))"

section \<open>The reader\<close>

record byte_reader =
  rd_bytes :: "u8 list"
  rd_offset :: nat

type_synonym 'a reads_result = "('a \<times> byte_reader, pager_error) result"

definition reader_new :: "u8 list \<Rightarrow> byte_reader" where
  "reader_new bytes = \<lparr>rd_bytes = bytes, rd_offset = 0\<rparr>"

definition reader_take :: "nat \<Rightarrow> byte_reader \<Rightarrow> u8 list reads_result" where
  "reader_take len r =
     (let e = rd_offset r + len
      in if 2 ^ 64 \<le> e then Err InvalidFrame
         else if length (rd_bytes r) < e then Err UnexpectedEof
         else Ok (take len (drop (rd_offset r) (rd_bytes r)), r\<lparr>rd_offset := e\<rparr>))"

definition reader_u8 :: "byte_reader \<Rightarrow> u8 reads_result" where
  "reader_u8 r = and_then (reader_take 1 r) (\<lambda>(bs, r). Ok (from_be_bytes bs, r))"

definition reader_u16 :: "byte_reader \<Rightarrow> u16 reads_result" where
  "reader_u16 r = and_then (reader_take 2 r) (\<lambda>(bs, r). Ok (from_be_bytes bs, r))"

definition reader_u32 :: "byte_reader \<Rightarrow> u32 reads_result" where
  "reader_u32 r = and_then (reader_take 4 r) (\<lambda>(bs, r). Ok (from_be_bytes bs, r))"

definition reader_u64 :: "byte_reader \<Rightarrow> u64 reads_result" where
  "reader_u64 r = and_then (reader_take 8 r) (\<lambda>(bs, r). Ok (from_be_bytes bs, r))"

definition reader_zeroes :: "nat \<Rightarrow> byte_reader \<Rightarrow> unit reads_result" where
  "reader_zeroes len r =
     and_then (reader_take len r) (\<lambda>(bs, r). if list_all (\<lambda>b. b = 0) bs then Ok ((), r) else Err InvalidFrame)"

definition reader_remaining :: "byte_reader \<Rightarrow> u8 list \<times> byte_reader" where
  "reader_remaining r = (drop (rd_offset r) (rd_bytes r), r\<lparr>rd_offset := length (rd_bytes r)\<rparr>)"

definition reader_is_finished :: "byte_reader \<Rightarrow> bool" where
  "reader_is_finished r \<longleftrightarrow> rd_offset r = length (rd_bytes r)"

section \<open>Decoding\<close>

definition require_body_len :: "u8 list \<Rightarrow> nat \<Rightarrow> (unit, pager_error) result" where
  "require_body_len body expected = (if length body = expected then Ok () else Err InvalidFrame)"

definition decode_page_metadata :: "byte_reader \<Rightarrow> pager_page_request reads_result" where
  "decode_page_metadata r =
     and_then (reader_u64 r) (\<lambda>(v, r). and_then (identifier_decode v) (\<lambda>request.
     and_then (reader_u32 r) (\<lambda>(v, r). and_then (identifier_decode v) (\<lambda>region.
     and_then (reader_u32 r) (\<lambda>(v, r). and_then (access_decode v) (\<lambda>access.
     and_then (reader_u64 r) (\<lambda>(v, r). and_then (identifier_decode v) (\<lambda>generation.
     and_then (reader_u64 r) (\<lambda>(offset, r).
     and_then (reader_u32 r) (\<lambda>(len, r).
     and_then (reader_zeroes 4 r) (\<lambda>(_, r).
       if len = 0 \<or> checked_add offset (ucast len) = None then Err InvalidFrame
       else Ok (\<lparr>pp_request = request, pp_region = region, pp_access = access, pp_generation = generation,
                 pp_offset = offset, pp_length = len\<rparr>, r))))))))))))"

definition decode_remove_metadata :: "byte_reader \<Rightarrow> pager_remove_request reads_result" where
  "decode_remove_metadata r =
     and_then (reader_u64 r) (\<lambda>(v, r). and_then (identifier_decode v) (\<lambda>request.
     and_then (reader_u32 r) (\<lambda>(v, r). and_then (identifier_decode v) (\<lambda>region.
     and_then (reader_zeroes 4 r) (\<lambda>(_, r).
     and_then (reader_u64 r) (\<lambda>(v, r). and_then (identifier_decode v) (\<lambda>generation.
     and_then (reader_u64 r) (\<lambda>(offset, r).
     and_then (reader_u64 r) (\<lambda>(len, r).
       if len = 0 \<or> checked_add offset len = None then Err InvalidFrame
       else Ok (\<lparr>pd_request = request, pd_region = region, pd_generation = generation, pd_offset = offset,
                 pd_length = len\<rparr>, r))))))))))"

definition decode_limits :: "u8 list \<Rightarrow> byte_reader \<Rightarrow> pager_limits reads_result" where
  "decode_limits body r =
     and_then (require_body_len body LIMITS_BODY_BYTES) (\<lambda>_.
     and_then (reader_u32 r) (\<lambda>(page_size, r).
     and_then (reader_u16 r) (\<lambda>(region_count, r).
     and_then (reader_u16 r) (\<lambda>(max_in_flight, r).
     and_then (reader_u32 r) (\<lambda>(max_frame_bytes, r).
     and_then (reader_u32 r) (\<lambda>(v, r). and_then (operations_decode v) (\<lambda>operations.
     and_then (reader_zeroes 8 r) (\<lambda>(_, r).
     and_then (limits_decode page_size region_count max_in_flight max_frame_bytes operations) (\<lambda>l. Ok (l, r))))))))))"

definition decode_region :: "u8 list \<Rightarrow> byte_reader \<Rightarrow> pager_region reads_result" where
  "decode_region body r =
     and_then (require_body_len body REGION_BODY_BYTES) (\<lambda>_.
     and_then (reader_u32 r) (\<lambda>(v, r). and_then (identifier_decode v) (\<lambda>i.
     and_then (reader_zeroes 4 r) (\<lambda>(_, r).
     and_then (reader_u64 r) (\<lambda>(source_offset, r).
     and_then (reader_u64 r) (\<lambda>(len, r).
     and_then (region_decode i source_offset len) (\<lambda>region. Ok (region, r))))))))"

definition decode_empty :: "u8 list \<Rightarrow> pager_message \<Rightarrow> byte_reader \<Rightarrow> pager_message reads_result" where
  "decode_empty body m r = and_then (require_body_len body SESSION_BYTES) (\<lambda>_. Ok (m, r))"

definition decode_page :: "u8 list \<Rightarrow> (pager_page_request \<Rightarrow> pager_message) \<Rightarrow> byte_reader \<Rightarrow> pager_message reads_result" where
  "decode_page body m r =
     and_then (require_body_len body PAGE_METADATA_BYTES) (\<lambda>_.
     and_then (decode_page_metadata r) (\<lambda>(metadata, r). Ok (m metadata, r)))"

definition decode_page_data :: "u8 list \<Rightarrow> byte_reader \<Rightarrow> pager_message reads_result" where
  "decode_page_data body r =
     (if length body < PAGE_METADATA_BYTES then Err InvalidFrame
      else and_then (decode_page_metadata r) (\<lambda>(metadata, r).
           let (data, r) = reader_remaining r
           in if length data \<noteq> unat (pp_length metadata) then Err InvalidFrame
              else Ok (Msg_PageData metadata data, r)))"

definition decode_remove :: "u8 list \<Rightarrow> (pager_remove_request \<Rightarrow> pager_message) \<Rightarrow> byte_reader \<Rightarrow> pager_message reads_result" where
  "decode_remove body m r =
     and_then (require_body_len body REMOVE_BODY_BYTES) (\<lambda>_.
     and_then (decode_remove_metadata r) (\<lambda>(request, r). Ok (m request, r)))"

definition decode_cancel :: "u8 list \<Rightarrow> byte_reader \<Rightarrow> pager_message reads_result" where
  "decode_cancel body r =
     and_then (require_body_len body CANCEL_BODY_BYTES) (\<lambda>_.
     and_then (reader_u8 r) (\<lambda>(v, r). and_then (reason_decode v) (\<lambda>reason.
     and_then (reader_zeroes 7 r) (\<lambda>(_, r). Ok (Msg_Cancel reason, r)))))"

definition decode_terminal :: "u8 list \<Rightarrow> byte_reader \<Rightarrow> pager_message reads_result" where
  "decode_terminal body r =
     and_then (require_body_len body TERMINAL_BODY_BYTES) (\<lambda>_.
     and_then (reader_u16 r) (\<lambda>(v, r). and_then (code_decode v) (\<lambda>code.
     and_then (reader_zeroes 6 r) (\<lambda>(_, r). Ok (Msg_Terminal code, r)))))"

definition decode_message :: "pager_frame_kind \<Rightarrow> u8 list \<Rightarrow> byte_reader \<Rightarrow> pager_message reads_result" where
  "decode_message kind body r =
     (case kind of
        Kind_Hello \<Rightarrow> and_then (decode_limits body r) (\<lambda>(l, r). Ok (Msg_Hello l, r))
      | Kind_HelloAck \<Rightarrow> and_then (decode_limits body r) (\<lambda>(l, r). Ok (Msg_HelloAck l, r))
      | Kind_Region \<Rightarrow> and_then (decode_region body r) (\<lambda>(g, r). Ok (Msg_Region g, r))
      | Kind_Start \<Rightarrow> decode_empty body Msg_Start r
      | Kind_Ready \<Rightarrow> decode_empty body Msg_Ready r
      | Kind_Cancelled \<Rightarrow> decode_empty body Msg_Cancelled r
      | Kind_Shutdown \<Rightarrow> decode_empty body Msg_Shutdown r
      | Kind_ShutdownAck \<Rightarrow> decode_empty body Msg_ShutdownAck r
      | Kind_PageRequest \<Rightarrow> decode_page body Msg_PageRequest r
      | Kind_PageZero \<Rightarrow> decode_page body Msg_PageZero r
      | Kind_PageData \<Rightarrow> decode_page_data body r
      | Kind_Remove \<Rightarrow> decode_remove body Msg_Remove r
      | Kind_Removed \<Rightarrow> decode_remove body Msg_Removed r
      | Kind_Cancel \<Rightarrow> decode_cancel body r
      | Kind_Terminal \<Rightarrow> decode_terminal body r)"

definition decode_body :: "pager_frame_kind \<Rightarrow> u8 list \<Rightarrow> (pager_frame, pager_error) result" where
  "decode_body kind body =
     and_then (reader_take SESSION_BYTES (reader_new body)) (\<lambda>(bs, r).
     and_then (session_decode bs) (\<lambda>session.
     and_then (decode_message kind body r) (\<lambda>(message, r).
       if \<not> reader_is_finished r then Err InvalidFrame else Ok \<lparr>pf_session = session, pf_message = message\<rparr>)))"

definition declared_frame :: "u8 list \<Rightarrow> (pager_frame_kind \<times> nat, pager_error) result" where
  "declared_frame encoded =
     (if length encoded < HEADER_BYTES then Err UnexpectedEof
      else and_then (reader_take 8 (reader_new (take HEADER_BYTES encoded))) (\<lambda>(magic, r).
           if magic \<noteq> MAGIC then Err InvalidFrame
           else and_then (reader_u16 r) (\<lambda>(version, r).
           if version \<noteq> PAGER_VERSION then Err InvalidFrame
           else and_then (reader_u16 r) (\<lambda>(v, r). and_then (kind_decode v) (\<lambda>kind.
                and_then (reader_u32 r) (\<lambda>(body_len, r).
                and_then (reader_u32 r) (\<lambda>(reserved, r).
                if reserved \<noteq> 0 then Err InvalidFrame
                else and_then (reader_u32 r) (\<lambda>(reserved, r).
                     if reserved \<noteq> 0 \<or> \<not> reader_is_finished r then Err InvalidFrame
                     else let total = HEADER_BYTES + unat body_len
                          in if unat body_len < SESSION_BYTES \<or> MAX_FRAME_BYTES < total then Err LimitExceeded
                             else Ok (kind, total))))))))) "

definition decode_frame :: "u8 list \<Rightarrow> (pager_frame, pager_error) result" where
  "decode_frame encoded =
     and_then (declared_frame encoded) (\<lambda>(kind, total).
       if length encoded < total then Err UnexpectedEof
       else if length encoded \<noteq> total then Err InvalidFrame
       else decode_body kind (take (total - HEADER_BYTES) (drop HEADER_BYTES encoded)))"

section \<open>The incremental decoder\<close>

lemma declared_frame_bounds:
  assumes "declared_frame encoded = Ok (kind, t)"
  shows "HEADER_BYTES + SESSION_BYTES \<le> t" and "t \<le> MAX_FRAME_BYTES"
  using assms by (auto simp: declared_frame_def and_then_Ok_iff Let_def split: if_splits)

record pager_frame_decoder =
  fd_buffer :: "u8 list"
  fd_poisoned :: bool

definition decoder_new :: pager_frame_decoder where
  "decoder_new = \<lparr>fd_buffer = [], fd_poisoned = False\<rparr>"

text \<open>The loop over the complete frames of the buffer; it ends because a frame is at least 56 bytes long.\<close>

function decode_frames ::
    "u8 list \<Rightarrow> nat \<Rightarrow> pager_frame list \<Rightarrow> (pager_frame list \<times> nat, pager_error) result" where
  "decode_frames buffer consumed frames =
     (if length buffer < consumed then Err InvalidFrame
      else let remaining = drop consumed buffer
           in if length remaining < HEADER_BYTES then Ok (frames, consumed)
              else case declared_frame remaining of
                     Ok (kind, t) \<Rightarrow>
                       if length remaining < t then Ok (frames, consumed)
                       else (case decode_frame (take t remaining) of
                               Ok f \<Rightarrow> decode_frames buffer (consumed + t) (frames @ [f])
                             | Err e \<Rightarrow> Err e
                             | Panic \<Rightarrow> Panic)
                   | Err e \<Rightarrow> Err e
                   | Panic \<Rightarrow> Panic)"
  by pat_completeness auto

termination
proof (relation "measure (\<lambda>(buffer, consumed, frames). length buffer - consumed)")
  fix buffer :: "u8 list" and consumed :: nat and frames :: "pager_frame list" and remaining and p :: "pager_frame_kind \<times> nat"
    and kind t and f :: pager_frame
  assume le: "\<not> length buffer < consumed" and rem: "remaining = drop consumed buffer"
    and h: "declared_frame remaining = Ok p" "(kind, t) = p" and len: "\<not> length remaining < t"
  have "0 < t" using declared_frame_bounds(1) [of remaining kind t] h by (simp add: HEADER_BYTES_def)
  then show "((buffer, consumed + t, frames @ [f]), (buffer, consumed, frames)) \<in>
      measure (\<lambda>(buffer, consumed, frames). length buffer - consumed)"
    using le len rem by simp
qed simp

declare decode_frames.simps [simp del]

definition push_inner ::
    "pager_frame_decoder \<Rightarrow> u8 list \<Rightarrow> pager_frame_decoder \<times> (pager_frame list, pager_error) result" where
  "push_inner d bytes =
     (let buffered = length (fd_buffer d) + length bytes
      in if 2 ^ 64 \<le> buffered then (d, Err LimitExceeded)
         else if MAX_BUFFER_BYTES < buffered then (d, Err LimitExceeded)
         else let buffer = fd_buffer d @ bytes
              in case decode_frames buffer 0 [] of
                   Ok (frames, consumed) \<Rightarrow> (d\<lparr>fd_buffer := drop consumed buffer\<rparr>, Ok frames)
                 | Err e \<Rightarrow> (d\<lparr>fd_buffer := buffer\<rparr>, Err e)
                 | Panic \<Rightarrow> (d\<lparr>fd_buffer := buffer\<rparr>, Panic))"

definition decoder_push ::
    "pager_frame_decoder \<Rightarrow> u8 list \<Rightarrow> pager_frame_decoder \<times> (pager_frame list, pager_error) result" where
  "decoder_push d bytes =
     (if fd_poisoned d then (d, Err PagerPoisoned)
      else case push_inner d bytes of
             (d', Err e) \<Rightarrow> (d'\<lparr>fd_poisoned := True\<rparr>, Err e)
           | (d', res) \<Rightarrow> (d', res))"

definition decoder_finish :: "pager_frame_decoder \<Rightarrow> (unit, pager_error) result" where
  "decoder_finish d =
     (if fd_poisoned d then Err PagerPoisoned else if fd_buffer d = [] then Ok () else Err UnexpectedEof)"

end
