(* ===== verification/Pager_Session.thy ===== *)
theory Pager_Session
  imports Pager_Frame "HOL-Library.AList"
begin

text \<open>
  The two ends of a pager connection, from \<open>crates/pager/src/state.rs\<close>: \<open>VmmSession\<close> and \<open>PeerSession\<close>, with one
  definition per method. A method that changes the session returns the new session beside its result. The ordered maps
  of the source, which it only looks up, extends, shrinks and counts, are association lists with distinct keys.
\<close>

section \<open>Ranges and regions\<close>

definition source_ranges_overlap :: "pager_region \<Rightarrow> pager_region \<Rightarrow> bool" where
  "source_ranges_overlap first second \<longleftrightarrow>
     (let first_end = saturating_add (pr_source_offset first) (pr_length first);
          second_end = saturating_add (pr_source_offset second) (pr_length second)
      in pr_source_offset first < second_end \<and> pr_source_offset second < first_end)"

definition page_range_is_valid :: "pager_region \<Rightarrow> u64 \<Rightarrow> u32 \<Rightarrow> u32 \<Rightarrow> bool" where
  "page_range_is_valid region offset len page_size \<longleftrightarrow>
     len = page_size \<and> is_multiple_of offset (ucast page_size) \<and>
     (case checked_add offset (ucast len) of Some fin \<Rightarrow> fin \<le> pr_length region | None \<Rightarrow> False)"

definition remove_range_is_valid :: "pager_region \<Rightarrow> u64 \<Rightarrow> u64 \<Rightarrow> u32 \<Rightarrow> bool" where
  "remove_range_is_valid region offset len page_size \<longleftrightarrow>
     (let alignment = ucast page_size
      in len \<noteq> 0 \<and> is_multiple_of offset alignment \<and> is_multiple_of len alignment \<and>
         (case checked_add offset len of Some fin \<Rightarrow> fin \<le> pr_length region | None \<Rightarrow> False))"

text \<open>The first loop of \<open>validate_regions\<close> inserts every region under its identity; the second compares every pair.\<close>

fun unique_identities :: "(pager_region_id \<times> pager_region) list \<Rightarrow> pager_region list \<Rightarrow> bool" where
  "unique_identities identities [] = True"
| "unique_identities identities (r # rs) =
     (map_of identities (pr_id r) = None \<and> unique_identities (AList.update (pr_id r) r identities) rs)"

fun disjoint_sources :: "pager_region list \<Rightarrow> bool" where
  "disjoint_sources [] = True"
| "disjoint_sources (r # rs) = (\<not> list_ex (source_ranges_overlap r) rs \<and> disjoint_sources rs)"

definition validate_regions :: "pager_limits \<Rightarrow> pager_region list \<Rightarrow> (unit, pager_error) result" where
  "validate_regions limits regions =
     (if length regions \<noteq> unat (pl_region_count limits) \<or>
         list_ex (\<lambda>r. \<not> region_is_valid_for r (pl_page_size limits)) regions then Err InvalidConfiguration
      else if \<not> unique_identities [] regions then Err InvalidConfiguration
      else if \<not> disjoint_sources regions then Err InvalidConfiguration
      else Ok ())"

datatype pending_request = Pending_Page pager_page_request | Pending_Remove pager_remove_request

section \<open>The VMM side\<close>

datatype pager_vmm_state =
    Vmm_New | Vmm_AwaitHelloAck | Vmm_ConfigureRegions | Vmm_AwaitReady | Vmm_Active | Vmm_AwaitCancelled
  | Vmm_AwaitShutdownAck | Vmm_Closed | Vmm_Terminal

record vmm_session =
  vs_session :: pager_session_id
  vs_offered :: pager_limits
  vs_selected :: "pager_limits option"
  vs_regions :: "pager_region list"
  vs_next_region :: nat
  vs_state :: pager_vmm_state
  vs_next_request :: u64
  vs_outstanding :: "(pager_request_id \<times> pending_request) list"

definition vmm_new :: "pager_session_id \<Rightarrow> pager_limits \<Rightarrow> pager_region list \<Rightarrow> (vmm_session, pager_error) result" where
  "vmm_new session offered regions =
     and_then (validate_regions offered regions) (\<lambda>_.
       Ok \<lparr>vs_session = session, vs_offered = offered, vs_selected = None, vs_regions = regions, vs_next_region = 0,
           vs_state = Vmm_New, vs_next_request = 1, vs_outstanding = []\<rparr>)"

definition vmm_frame :: "vmm_session \<Rightarrow> pager_message \<Rightarrow> pager_frame" where
  "vmm_frame v message = \<lparr>pf_session = vs_session v, pf_message = message\<rparr>"

type_synonym vmm_outcome = "vmm_session \<times> (pager_frame, pager_error) result"

definition vmm_hello :: "vmm_session \<Rightarrow> vmm_outcome" where
  "vmm_hello v =
     (if vs_state v \<noteq> Vmm_New then (v, Err InvalidLifecycle)
      else (v\<lparr>vs_state := Vmm_AwaitHelloAck\<rparr>, Ok (vmm_frame v (Msg_Hello (vs_offered v)))))"

definition vmm_next_region :: "vmm_session \<Rightarrow> vmm_outcome" where
  "vmm_next_region v =
     (if vs_state v \<noteq> Vmm_ConfigureRegions then (v, Err InvalidLifecycle)
      else case vec_get (vs_regions v) (vs_next_region v) of
             None \<Rightarrow> (v, Err InvalidLifecycle)
           | Some region \<Rightarrow>
               if 2 ^ 64 \<le> vs_next_region v + 1 then (v, Err InvalidLifecycle)
               else (v\<lparr>vs_next_region := vs_next_region v + 1\<rparr>, Ok (vmm_frame v (Msg_Region region))))"

definition vmm_start :: "vmm_session \<Rightarrow> vmm_outcome" where
  "vmm_start v =
     (if vs_state v \<noteq> Vmm_ConfigureRegions \<or> vs_next_region v \<noteq> length (vs_regions v) then (v, Err InvalidLifecycle)
      else (v\<lparr>vs_state := Vmm_AwaitReady\<rparr>, Ok (vmm_frame v Msg_Start)))"

definition require_active_capacity :: "vmm_session \<Rightarrow> (unit, pager_error) result" where
  "require_active_capacity v =
     (if vs_state v \<noteq> Vmm_Active then Err InvalidLifecycle
      else and_then (ok_or (vs_selected v) InvalidLifecycle) (\<lambda>selected.
             if unat (pl_max_in_flight selected) \<le> length (vs_outstanding v) then Err LimitExceeded else Ok ()))"

definition find_region :: "vmm_session \<Rightarrow> pager_region_id \<Rightarrow> (pager_region, pager_error) result" where
  "find_region v i = ok_or (find (\<lambda>region. pr_id region = i) (vs_regions v)) InvalidConfiguration"

definition allocate_request_id :: "vmm_session \<Rightarrow> vmm_session \<times> (pager_request_id, pager_error) result" where
  "allocate_request_id v =
     (case checked_add (vs_next_request v) 1 of
        None \<Rightarrow> (v, Err LimitExceeded)
      | Some nxt \<Rightarrow>
          (case map_err (\<lambda>_. LimitExceeded) (identifier_new (vs_next_request v)) of
             Ok request \<Rightarrow> (v\<lparr>vs_next_request := nxt\<rparr>, Ok request)
           | Err e \<Rightarrow> (v, Err e)
           | Panic \<Rightarrow> (v, Panic)))"

text \<open>The insertion that ends \<open>request_page\<close> and \<open>remove\<close>: a second use of an identity is refused, after the insertion.\<close>

definition insert_outstanding :: "vmm_session \<Rightarrow> pager_request_id \<Rightarrow> pending_request \<Rightarrow> pager_message \<Rightarrow> vmm_outcome" where
  "insert_outstanding v request pending message =
     (let v' = v\<lparr>vs_outstanding := AList.update request pending (vs_outstanding v)\<rparr>
      in if map_of (vs_outstanding v) request \<noteq> None then (v', Err InvalidLifecycle) else (v', Ok (vmm_frame v' message)))"

definition vmm_request_page ::
    "vmm_session \<Rightarrow> pager_region_id \<Rightarrow> pager_generation \<Rightarrow> u64 \<Rightarrow> page_access \<Rightarrow> vmm_outcome" where
  "vmm_request_page v region generation offset access =
     (case and_then (require_active_capacity v) (\<lambda>_.
             and_then (ok_or (vs_selected v) InvalidLifecycle) (\<lambda>selected.
               and_then (find_region v region) (\<lambda>configured.
                 if page_range_is_valid configured offset (pl_page_size selected) (pl_page_size selected) then Ok (pl_page_size selected)
                 else Err InvalidConfiguration))) of
        Ok len \<Rightarrow>
          (case allocate_request_id v of
             (v', Ok i) \<Rightarrow>
               let request = \<lparr>pp_request = i, pp_region = region, pp_access = access, pp_generation = generation,
                              pp_offset = offset, pp_length = len\<rparr>
               in insert_outstanding v' i (Pending_Page request) (Msg_PageRequest request)
           | (v', Err e) \<Rightarrow> (v', Err e)
           | (v', Panic) \<Rightarrow> (v', Panic))
      | Err e \<Rightarrow> (v, Err e)
      | Panic \<Rightarrow> (v, Panic))"

definition vmm_remove :: "vmm_session \<Rightarrow> pager_region_id \<Rightarrow> pager_generation \<Rightarrow> u64 \<Rightarrow> u64 \<Rightarrow> vmm_outcome" where
  "vmm_remove v region generation offset len =
     (case and_then (require_active_capacity v) (\<lambda>_.
             and_then (ok_or (vs_selected v) InvalidLifecycle) (\<lambda>selected.
               and_then (find_region v region) (\<lambda>configured.
                 if remove_range_is_valid configured offset len (pl_page_size selected) then Ok ()
                 else Err InvalidConfiguration))) of
        Ok _ \<Rightarrow>
          (case allocate_request_id v of
             (v', Ok i) \<Rightarrow>
               let request = \<lparr>pd_request = i, pd_region = region, pd_generation = generation, pd_offset = offset, pd_length = len\<rparr>
               in insert_outstanding v' i (Pending_Remove request) (Msg_Remove request)
           | (v', Err e) \<Rightarrow> (v', Err e)
           | (v', Panic) \<Rightarrow> (v', Panic))
      | Err e \<Rightarrow> (v, Err e)
      | Panic \<Rightarrow> (v, Panic))"

definition vmm_cancel :: "vmm_session \<Rightarrow> cancel_reason \<Rightarrow> vmm_outcome" where
  "vmm_cancel v reason =
     (if vs_state v \<notin> {Vmm_AwaitHelloAck, Vmm_ConfigureRegions, Vmm_AwaitReady, Vmm_Active} then (v, Err InvalidLifecycle)
      else (v\<lparr>vs_outstanding := [], vs_state := Vmm_AwaitCancelled\<rparr>, Ok (vmm_frame v (Msg_Cancel reason))))"

definition vmm_shutdown :: "vmm_session \<Rightarrow> vmm_outcome" where
  "vmm_shutdown v =
     (if vs_state v \<noteq> Vmm_Active \<or> vs_outstanding v \<noteq> [] then (v, Err InvalidLifecycle)
      else (v\<lparr>vs_state := Vmm_AwaitShutdownAck\<rparr>, Ok (vmm_frame v Msg_Shutdown)))"

definition vmm_terminal :: "vmm_session \<Rightarrow> terminal_code \<Rightarrow> vmm_outcome" where
  "vmm_terminal v code =
     (if vs_state v \<in> {Vmm_New, Vmm_Closed, Vmm_Terminal} then (v, Err InvalidLifecycle)
      else (v\<lparr>vs_outstanding := [], vs_state := Vmm_Terminal\<rparr>, Ok (vmm_frame v (Msg_Terminal code))))"

definition complete_page :: "vmm_session \<Rightarrow> pager_page_response \<Rightarrow> u8 list option \<Rightarrow> (vmm_session, pager_error) result" where
  "complete_page v response data =
     and_then (ok_or (map_of (vs_outstanding v) (pp_request response)) InvalidPeerState) (\<lambda>expected.
       if expected \<noteq> Pending_Page response \<or>
          (case data of None \<Rightarrow> False | Some bytes \<Rightarrow> length bytes \<noteq> unat (pp_length response)) then Err InvalidPeerState
       else Ok (v\<lparr>vs_outstanding := AList.delete (pp_request response) (vs_outstanding v)\<rparr>))"

definition complete_remove :: "vmm_session \<Rightarrow> pager_remove_request \<Rightarrow> (vmm_session, pager_error) result" where
  "complete_remove v response =
     (if map_of (vs_outstanding v) (pd_request response) \<noteq> Some (Pending_Remove response) then Err InvalidPeerState
      else Ok (v\<lparr>vs_outstanding := AList.delete (pd_request response) (vs_outstanding v)\<rparr>))"

definition vmm_receive_inner :: "vmm_session \<Rightarrow> pager_frame \<Rightarrow> (vmm_session, pager_error) result" where
  "vmm_receive_inner v f =
     (if pf_session f \<noteq> vs_session v then Err InvalidPeerState
      else case pf_message f of
             Msg_HelloAck selected \<Rightarrow>
               if vs_state v = Vmm_AwaitHelloAck \<and> is_selection_for selected (vs_offered v)
               then Ok (v\<lparr>vs_selected := Some selected, vs_state := Vmm_ConfigureRegions\<rparr>) else Err InvalidLifecycle
           | Msg_Ready \<Rightarrow>
               if vs_state v = Vmm_AwaitReady then Ok (v\<lparr>vs_state := Vmm_Active\<rparr>) else Err InvalidLifecycle
           | Msg_PageData response data \<Rightarrow>
               if vs_state v = Vmm_Active then complete_page v response (Some data) else Err InvalidLifecycle
           | Msg_PageZero response \<Rightarrow>
               if vs_state v = Vmm_Active then complete_page v response None else Err InvalidLifecycle
           | Msg_Removed response \<Rightarrow>
               if vs_state v = Vmm_Active then complete_remove v response else Err InvalidLifecycle
           | Msg_Cancelled \<Rightarrow>
               if vs_state v = Vmm_AwaitCancelled then Ok (v\<lparr>vs_state := Vmm_Closed\<rparr>) else Err InvalidLifecycle
           | Msg_ShutdownAck \<Rightarrow>
               if vs_state v = Vmm_AwaitShutdownAck then Ok (v\<lparr>vs_state := Vmm_Closed\<rparr>) else Err InvalidLifecycle
           | Msg_Terminal code \<Rightarrow>
               if vs_state v \<in> {Vmm_AwaitHelloAck, Vmm_ConfigureRegions, Vmm_AwaitReady, Vmm_Active, Vmm_AwaitCancelled,
                                Vmm_AwaitShutdownAck}
               then Ok (v\<lparr>vs_outstanding := [], vs_state := Vmm_Terminal\<rparr>) else Err InvalidLifecycle
           | _ \<Rightarrow> Err InvalidLifecycle)"

definition vmm_receive :: "vmm_session \<Rightarrow> pager_frame \<Rightarrow> vmm_outcome" where
  "vmm_receive v f =
     (case vmm_receive_inner v f of
        Ok v' \<Rightarrow> (v', Ok f)
      | Err e \<Rightarrow> (v\<lparr>vs_outstanding := [], vs_state := Vmm_Terminal\<rparr>, Err e)
      | Panic \<Rightarrow> (v, Panic))"

section \<open>The peer side\<close>

datatype pager_peer_state =
    Peer_AwaitHello | Peer_SelectLimits | Peer_ConfigureRegions | Peer_ReadyToConfirm | Peer_Active | Peer_ReadyToCancel
  | Peer_ReadyToShutdown | Peer_Closed | Peer_Terminal

record peer_session =
  ps_session :: "pager_session_id option"
  ps_offered :: "pager_limits option"
  ps_selected :: "pager_limits option"
  ps_regions :: "(pager_region_id \<times> pager_region) list"
  ps_state :: pager_peer_state
  ps_last_request :: u64
  ps_outstanding :: "(pager_request_id \<times> pending_request) list"

definition peer_new :: peer_session where
  "peer_new = \<lparr>ps_session = None, ps_offered = None, ps_selected = None, ps_regions = [], ps_state = Peer_AwaitHello,
               ps_last_request = 0, ps_outstanding = []\<rparr>"

type_synonym peer_outcome = "peer_session \<times> (pager_frame, pager_error) result"

definition peer_frame :: "peer_session \<Rightarrow> pager_message \<Rightarrow> peer_outcome" where
  "peer_frame p message =
     (p, and_then (ok_or (ps_session p) InvalidLifecycle) (\<lambda>session. Ok \<lparr>pf_session = session, pf_message = message\<rparr>))"

definition peer_hello_ack :: "peer_session \<Rightarrow> pager_limits \<Rightarrow> peer_outcome" where
  "peer_hello_ack p selected =
     (case ps_offered p of
        None \<Rightarrow> (p, Err InvalidLifecycle)
      | Some offered \<Rightarrow>
          if ps_state p \<noteq> Peer_SelectLimits \<or> \<not> is_selection_for selected offered then (p, Err InvalidConfiguration)
          else peer_frame (p\<lparr>ps_selected := Some selected, ps_state := Peer_ConfigureRegions\<rparr>) (Msg_HelloAck selected))"

definition peer_ready :: "peer_session \<Rightarrow> peer_outcome" where
  "peer_ready p =
     (if ps_state p \<noteq> Peer_ReadyToConfirm then (p, Err InvalidLifecycle)
      else peer_frame (p\<lparr>ps_state := Peer_Active\<rparr>) Msg_Ready)"

definition peer_page_data :: "peer_session \<Rightarrow> pager_request_id \<Rightarrow> u8 list \<Rightarrow> peer_outcome" where
  "peer_page_data p request data =
     (if ps_state p \<noteq> Peer_Active then (p, Err InvalidLifecycle)
      else case map_of (ps_outstanding p) request of
             Some (Pending_Page metadata) \<Rightarrow>
               if length data \<noteq> unat (pp_length metadata) then (p, Err InvalidConfiguration)
               else peer_frame (p\<lparr>ps_outstanding := AList.delete request (ps_outstanding p)\<rparr>) (Msg_PageData metadata data)
           | _ \<Rightarrow> (p, Err InvalidPeerState))"

definition peer_page_zero :: "peer_session \<Rightarrow> pager_request_id \<Rightarrow> peer_outcome" where
  "peer_page_zero p request =
     (if ps_state p \<noteq> Peer_Active then (p, Err InvalidLifecycle)
      else case map_of (ps_outstanding p) request of
             Some (Pending_Page metadata) \<Rightarrow>
               peer_frame (p\<lparr>ps_outstanding := AList.delete request (ps_outstanding p)\<rparr>) (Msg_PageZero metadata)
           | _ \<Rightarrow> (p, Err InvalidPeerState))"

definition peer_removed :: "peer_session \<Rightarrow> pager_request_id \<Rightarrow> peer_outcome" where
  "peer_removed p request =
     (if ps_state p \<noteq> Peer_Active then (p, Err InvalidLifecycle)
      else case map_of (ps_outstanding p) request of
             Some (Pending_Remove metadata) \<Rightarrow>
               peer_frame (p\<lparr>ps_outstanding := AList.delete request (ps_outstanding p)\<rparr>) (Msg_Removed metadata)
           | _ \<Rightarrow> (p, Err InvalidPeerState))"

definition peer_cancelled :: "peer_session \<Rightarrow> peer_outcome" where
  "peer_cancelled p =
     (if ps_state p \<noteq> Peer_ReadyToCancel then (p, Err InvalidLifecycle)
      else peer_frame (p\<lparr>ps_state := Peer_Closed\<rparr>) Msg_Cancelled)"

definition peer_shutdown_ack :: "peer_session \<Rightarrow> peer_outcome" where
  "peer_shutdown_ack p =
     (if ps_state p \<noteq> Peer_ReadyToShutdown then (p, Err InvalidLifecycle)
      else peer_frame (p\<lparr>ps_state := Peer_Closed\<rparr>) Msg_ShutdownAck)"

definition peer_terminal :: "peer_session \<Rightarrow> terminal_code \<Rightarrow> peer_outcome" where
  "peer_terminal p code =
     (if ps_state p \<in> {Peer_AwaitHello, Peer_Closed, Peer_Terminal} then (p, Err InvalidLifecycle)
      else peer_frame (p\<lparr>ps_outstanding := [], ps_state := Peer_Terminal\<rparr>) (Msg_Terminal code))"

definition accept_region :: "peer_session \<Rightarrow> pager_region \<Rightarrow> (peer_session, pager_error) result" where
  "accept_region p region =
     and_then (ok_or (ps_selected p) InvalidLifecycle) (\<lambda>selected.
       if \<not> region_is_valid_for region (pl_page_size selected) \<or>
          unat (pl_region_count selected) \<le> length (ps_regions p) \<or>
          map_of (ps_regions p) (pr_id region) \<noteq> None \<or>
          list_ex (\<lambda>(_, existing). source_ranges_overlap existing region) (ps_regions p) then Err InvalidPeerState
       else Ok (p\<lparr>ps_regions := AList.update (pr_id region) region (ps_regions p)\<rparr>))"

definition accept_request_id_and_capacity :: "peer_session \<Rightarrow> pager_request_id \<Rightarrow> (unit, pager_error) result" where
  "accept_request_id_and_capacity p request =
     and_then (ok_or (ps_selected p) InvalidLifecycle) (\<lambda>selected.
       if request \<le> ps_last_request p then Err InvalidPeerState
       else if unat (pl_max_in_flight selected) \<le> length (ps_outstanding p) then Err LimitExceeded
       else Ok ())"

definition accept_page :: "peer_session \<Rightarrow> pager_page_request \<Rightarrow> (peer_session, pager_error) result" where
  "accept_page p request =
     and_then (accept_request_id_and_capacity p (pp_request request)) (\<lambda>_.
       and_then (ok_or (ps_selected p) InvalidLifecycle) (\<lambda>selected.
         and_then (ok_or (map_of (ps_regions p) (pp_region request)) InvalidPeerState) (\<lambda>region.
           if \<not> page_range_is_valid region (pp_offset request) (pp_length request) (pl_page_size selected)
           then Err InvalidPeerState
           else Ok (p\<lparr>ps_last_request := pp_request request,
                     ps_outstanding := AList.update (pp_request request) (Pending_Page request) (ps_outstanding p)\<rparr>))))"

definition accept_remove :: "peer_session \<Rightarrow> pager_remove_request \<Rightarrow> (peer_session, pager_error) result" where
  "accept_remove p request =
     and_then (accept_request_id_and_capacity p (pd_request request)) (\<lambda>_.
       and_then (ok_or (ps_selected p) InvalidLifecycle) (\<lambda>selected.
         and_then (ok_or (map_of (ps_regions p) (pd_region request)) InvalidPeerState) (\<lambda>region.
           if \<not> remove_range_is_valid region (pd_offset request) (pd_length request) (pl_page_size selected)
           then Err InvalidPeerState
           else Ok (p\<lparr>ps_last_request := pd_request request,
                     ps_outstanding := AList.update (pd_request request) (Pending_Remove request) (ps_outstanding p)\<rparr>))))"

definition peer_receive_inner :: "peer_session \<Rightarrow> pager_frame \<Rightarrow> (peer_session, pager_error) result" where
  "peer_receive_inner p f =
     (if (case ps_session p of Some session \<Rightarrow> pf_session f \<noteq> session | None \<Rightarrow> False) then Err InvalidPeerState
      else case pf_message f of
             Msg_Hello offered \<Rightarrow>
               if ps_state p = Peer_AwaitHello
               then Ok (p\<lparr>ps_session := Some (pf_session f), ps_offered := Some offered, ps_state := Peer_SelectLimits\<rparr>)
               else Err InvalidLifecycle
           | Msg_Region region \<Rightarrow>
               if ps_state p = Peer_ConfigureRegions then accept_region p region else Err InvalidLifecycle
           | Msg_Start \<Rightarrow>
               if ps_state p = Peer_ConfigureRegions
               then and_then (ok_or (ps_selected p) InvalidLifecycle) (\<lambda>selected.
                      if length (ps_regions p) \<noteq> unat (pl_region_count selected) then Err InvalidPeerState
                      else Ok (p\<lparr>ps_state := Peer_ReadyToConfirm\<rparr>))
               else Err InvalidLifecycle
           | Msg_PageRequest request \<Rightarrow>
               if ps_state p = Peer_Active then accept_page p request else Err InvalidLifecycle
           | Msg_Remove request \<Rightarrow>
               if ps_state p = Peer_Active then accept_remove p request else Err InvalidLifecycle
           | Msg_Cancel reason \<Rightarrow>
               if ps_state p \<in> {Peer_SelectLimits, Peer_ConfigureRegions, Peer_ReadyToConfirm, Peer_Active}
               then Ok (p\<lparr>ps_outstanding := [], ps_state := Peer_ReadyToCancel\<rparr>) else Err InvalidLifecycle
           | Msg_Shutdown \<Rightarrow>
               if ps_state p = Peer_Active \<and> ps_outstanding p = []
               then Ok (p\<lparr>ps_state := Peer_ReadyToShutdown\<rparr>) else Err InvalidLifecycle
           | Msg_Terminal code \<Rightarrow>
               if ps_state p \<in> {Peer_SelectLimits, Peer_ConfigureRegions, Peer_ReadyToConfirm, Peer_Active, Peer_ReadyToCancel,
                                Peer_ReadyToShutdown}
               then Ok (p\<lparr>ps_outstanding := [], ps_state := Peer_Terminal\<rparr>) else Err InvalidLifecycle
           | _ \<Rightarrow> Err InvalidLifecycle)"

definition peer_receive :: "peer_session \<Rightarrow> pager_frame \<Rightarrow> peer_outcome" where
  "peer_receive p f =
     (case peer_receive_inner p f of
        Ok p' \<Rightarrow> (p', Ok f)
      | Err e \<Rightarrow> (p\<lparr>ps_outstanding := [], ps_state := Peer_Terminal\<rparr>, Err e)
      | Panic \<Rightarrow> (p, Panic))"

end
