(* ===== verification/Pager_Properties.thy ===== *)
theory Pager_Properties
  imports Pager_Frame
begin

text \<open>
  Correctness of the pager frame codec: the decoder accepts exactly the encodings of valid frames,
  and the incremental decoder yields the frames of the stream however it is cut into chunks.
\<close>

section \<open>What the reader consumes\<close>

definition reads :: "byte_reader \<Rightarrow> u8 list \<Rightarrow> byte_reader \<Rightarrow> bool" where
  "reads r bs r' \<longleftrightarrow> rd_offset r + length bs \<le> length (rd_bytes r) \<and> rd_offset r + length bs < 2 ^ 64 \<and>
     take (length bs) (drop (rd_offset r) (rd_bytes r)) = bs \<and> r' = r\<lparr>rd_offset := rd_offset r + length bs\<rparr>"

lemma reader_take_Ok: "reader_take n r = Ok (bs, r') \<longleftrightarrow> length bs = n \<and> reads r bs r'"
  by (auto simp: reader_take_def reads_def Let_def)

lemma reader_word_Ok:
  fixes v :: "'a::len word"
  assumes "n = LENGTH('a) div 8" and "8 dvd LENGTH('a)"
  shows "and_then (reader_take n r) (\<lambda>(bs, r). Ok (from_be_bytes bs, r)) = Ok (v, r') \<longleftrightarrow> reads r (to_be_bytes v) r'"
proof
  assume "and_then (reader_take n r) (\<lambda>(bs, r). Ok (from_be_bytes bs, r)) = Ok (v, r')"
  then obtain bs where "length bs = n" "reads r bs r'" "v = from_be_bytes bs"
    by (auto simp: and_then_Ok_iff reader_take_Ok)
  then show "reads r (to_be_bytes v) r'" using to_from_be_bytes [of bs, where 'a = 'a] assms(1) by simp
next
  assume "reads r (to_be_bytes v) r'"
  then have "reader_take n r = Ok (to_be_bytes v, r')" using assms(1) by (simp add: reader_take_Ok)
  then show "and_then (reader_take n r) (\<lambda>(bs, r). Ok (from_be_bytes bs, r)) = Ok (v, r')"
    by (simp add: from_to_be_bytes [OF assms(2)])
qed

lemma reader_u8_Ok: "reader_u8 r = Ok (v, r') \<longleftrightarrow> reads r (to_be_bytes v) r'"
  unfolding reader_u8_def by (rule reader_word_Ok) simp_all

lemma reader_u16_Ok: "reader_u16 r = Ok (v, r') \<longleftrightarrow> reads r (to_be_bytes v) r'"
  unfolding reader_u16_def by (rule reader_word_Ok) simp_all

lemma reader_u32_Ok: "reader_u32 r = Ok (v, r') \<longleftrightarrow> reads r (to_be_bytes v) r'"
  unfolding reader_u32_def by (rule reader_word_Ok) simp_all

lemma reader_u64_Ok: "reader_u64 r = Ok (v, r') \<longleftrightarrow> reads r (to_be_bytes v) r'"
  unfolding reader_u64_def by (rule reader_word_Ok) simp_all

lemma reader_zeroes_Ok: "reader_zeroes n r = Ok (u, r') \<longleftrightarrow> reads r (replicate n 0) r'"
proof -
  have zero: "list_all (\<lambda>b. b = 0) bs \<longleftrightarrow> bs = replicate n 0" if "length bs = n" for bs :: "u8 list" and n
    using that by (induction bs arbitrary: n) auto
  have "reader_zeroes n r = Ok (u, r') \<longleftrightarrow> (\<exists>bs. length bs = n \<and> reads r bs r' \<and> list_all (\<lambda>b. b = 0) bs)"
    by (auto simp: reader_zeroes_def and_then_Ok_iff reader_take_Ok)
  also have "\<dots> \<longleftrightarrow> (\<exists>bs. length bs = n \<and> reads r bs r' \<and> bs = replicate n 0)"
    using zero by blast
  finally show ?thesis by simp
qed

lemma reads_append: "reads r (bs @ cs) r'' \<longleftrightarrow> (\<exists>r'. reads r bs r' \<and> reads r' cs r'')"
proof -
  have "take (length bs + length cs) xs = bs @ cs \<longleftrightarrow>
      take (length bs) xs = bs \<and> take (length cs) (drop (length bs) xs) = cs" if "length bs + length cs \<le> length xs"
    for xs :: "u8 list"
    using that by (auto simp: take_add append_eq_append_conv)
  then show ?thesis by (auto simp: reads_def add.assoc drop_drop add.commute)
qed

lemma reads_appendI: "reads r bs r' \<Longrightarrow> reads r' cs r'' \<Longrightarrow> reads r (bs @ cs) r''"
  by (auto simp: reads_append)

lemma reads_Nil [simp]: "reads r [] r' \<longleftrightarrow> r' = r \<and> rd_offset r \<le> length (rd_bytes r) \<and> rd_offset r < 2 ^ 64"
  by (auto simp: reads_def)

lemma reads_bytes: "reads r bs r' \<Longrightarrow> rd_bytes r' = rd_bytes r \<and> rd_offset r' = rd_offset r + length bs"
  by (auto simp: reads_def)

lemma reads_all:
  assumes "length body < 2 ^ 64"
  shows "(\<exists>r. reads (reader_new body) bs r \<and> reader_is_finished r) \<longleftrightarrow> body = bs"
  using assms by (auto simp: reads_def reader_new_def reader_is_finished_def)

lemmas reader_Ok = reader_u8_Ok reader_u16_Ok reader_u32_Ok reader_u64_Ok reader_zeroes_Ok and_then_Ok_iff
  split_paired_Ex prod.case

section \<open>Valid frames\<close>

text \<open>
  What the constructors of the program guarantee of the parts of a frame, together with what the
  decoder requires of requests: no empty and no overflowing range.
\<close>

definition limits_valid :: "pager_limits \<Rightarrow> bool" where
  "limits_valid l \<longleftrightarrow> limits_new (pl_page_size l) (pl_region_count l) (pl_max_in_flight l) (pl_max_frame_bytes l)
     (pl_operations l) = Ok l"

definition page_valid :: "pager_page_request \<Rightarrow> bool" where
  "page_valid p \<longleftrightarrow> pp_request p \<noteq> 0 \<and> pp_region p \<noteq> 0 \<and> pp_generation p \<noteq> 0 \<and> pp_length p \<noteq> 0 \<and>
     checked_add (pp_offset p) (ucast (pp_length p)) \<noteq> None"

definition remove_valid :: "pager_remove_request \<Rightarrow> bool" where
  "remove_valid p \<longleftrightarrow> pd_request p \<noteq> 0 \<and> pd_region p \<noteq> 0 \<and> pd_generation p \<noteq> 0 \<and> pd_length p \<noteq> 0 \<and>
     checked_add (pd_offset p) (pd_length p) \<noteq> None"

fun message_valid :: "pager_message \<Rightarrow> bool" where
  "message_valid (Msg_Hello l) = limits_valid l"
| "message_valid (Msg_HelloAck l) = limits_valid l"
| "message_valid (Msg_Region r) =
     (pr_id r \<noteq> 0 \<and> pr_length r \<noteq> 0 \<and> checked_add (pr_source_offset r) (pr_length r) \<noteq> None)"
| "message_valid (Msg_PageRequest p) = page_valid p"
| "message_valid (Msg_PageData p data) = page_valid p"
| "message_valid (Msg_PageZero p) = page_valid p"
| "message_valid (Msg_Remove p) = remove_valid p"
| "message_valid (Msg_Removed p) = remove_valid p"
| "message_valid _ = True"

definition frame_valid :: "pager_frame \<Rightarrow> bool" where
  "frame_valid f \<longleftrightarrow> length (pf_session f) = SESSION_BYTES \<and> pf_session f \<noteq> replicate SESSION_BYTES 0 \<and>
     message_valid (pf_message f)"

lemma identifier_decode_Ok: "identifier_decode v = Ok w \<longleftrightarrow> w = v \<and> v \<noteq> 0"
  by (auto simp: identifier_decode_def identifier_new_def)

lemma access_decode_Ok: "access_decode v = Ok a \<longleftrightarrow> v = access_wire a"
  by (cases a) (auto simp: access_decode_def)

lemma reason_decode_Ok: "reason_decode v = Ok a \<longleftrightarrow> v = reason_wire a"
  by (cases a) (auto simp: reason_decode_def)

lemma code_decode_Ok: "code_decode v = Ok a \<longleftrightarrow> v = code_wire a"
  by (cases a) (auto simp: code_decode_def)

lemma kind_decode_Ok: "kind_decode v = Ok k \<longleftrightarrow> v = kind_wire k"
proof
  show "kind_decode v = Ok k \<Longrightarrow> v = kind_wire k" by (auto simp: kind_decode_def split: if_splits)
  show "v = kind_wire k \<Longrightarrow> kind_decode v = Ok k" by (cases k) (simp_all add: kind_decode_def)
qed

lemma operations_decode_Ok: "operations_decode v = Ok w \<longleftrightarrow> w = v \<and> v = V1_OPERATIONS"
  by (auto simp: operations_decode_def operations_from_bits_def)

lemmas decode_Ok = identifier_decode_Ok access_decode_Ok reason_decode_Ok code_decode_Ok kind_decode_Ok operations_decode_Ok

lemma le_bytes_0: "le_bytes n 0 = replicate n 0"
  by (induction n) simp_all

lemma be_zero32: "to_be_bytes (0 :: u32) = replicate 4 0"
  by (simp add: to_be_bytes_def to_le_bytes_def le_bytes_0 rev_replicate)

lemma decode_page_metadata_sound:
  assumes "decode_page_metadata r = Ok (p, r')"
  shows "page_valid p \<and> reads r (encode_page_metadata p) r'"
proof -
  obtain request r1 region r2 access r3 generation r4 offset r5 len r6 where
    "reads r (to_be_bytes request) r1" "request \<noteq> 0" "reads r1 (to_be_bytes region) r2" "region \<noteq> 0"
    "reads r2 (to_be_bytes (access_wire access)) r3" "reads r3 (to_be_bytes generation) r4" "generation \<noteq> 0"
    "reads r4 (to_be_bytes offset) r5" "reads r5 (to_be_bytes len) r6" "reads r6 (replicate 4 0) r'"
    "len \<noteq> 0" "checked_add offset (ucast len) \<noteq> None"
    "p = \<lparr>pp_request = request, pp_region = region, pp_access = access, pp_generation = generation,
          pp_offset = offset, pp_length = len\<rparr>"
    using assms unfolding decode_page_metadata_def by (auto simp: reader_Ok decode_Ok split: if_splits)
  moreover from this have "reads r (encode_page_metadata p) r'"
    by (simp add: encode_page_metadata_def be_zero32) (blast intro: reads_appendI)
  ultimately show ?thesis by (simp add: page_valid_def)
qed

lemma decode_page_metadata_complete:
  assumes "page_valid p" and "reads r (encode_page_metadata p) r'"
  shows "decode_page_metadata r = Ok (p, r')"
proof -
  obtain r1 r2 r3 r4 r5 r6 where
    "reader_u64 r = Ok (pp_request p, r1)" "reader_u32 r1 = Ok (pp_region p, r2)"
    "reader_u32 r2 = Ok (access_wire (pp_access p), r3)" "reader_u64 r3 = Ok (pp_generation p, r4)"
    "reader_u64 r4 = Ok (pp_offset p, r5)" "reader_u32 r5 = Ok (pp_length p, r6)" "reader_zeroes 4 r6 = Ok ((), r')"
    using assms(2) unfolding encode_page_metadata_def reads_append be_zero32 by (auto simp: reader_Ok)
  moreover have "identifier_decode (pp_request p) = Ok (pp_request p)" "identifier_decode (pp_region p) = Ok (pp_region p)"
    "identifier_decode (pp_generation p) = Ok (pp_generation p)" "access_decode (access_wire (pp_access p)) = Ok (pp_access p)"
    using assms(1) by (simp_all add: page_valid_def decode_Ok)
  ultimately show ?thesis using assms(1) by (auto simp: decode_page_metadata_def page_valid_def)
qed

lemma decode_remove_metadata_sound:
  assumes "decode_remove_metadata r = Ok (p, r')"
  shows "remove_valid p \<and> reads r (encode_remove_metadata p) r'"
proof -
  obtain request r1 region r2 r3 generation r4 offset r5 len where
    "reads r (to_be_bytes request) r1" "request \<noteq> 0" "reads r1 (to_be_bytes region) r2" "region \<noteq> 0"
    "reads r2 (replicate 4 0) r3" "reads r3 (to_be_bytes generation) r4" "generation \<noteq> 0"
    "reads r4 (to_be_bytes offset) r5" "reads r5 (to_be_bytes len) r'" "len \<noteq> 0" "checked_add offset len \<noteq> None"
    "p = \<lparr>pd_request = request, pd_region = region, pd_generation = generation, pd_offset = offset, pd_length = len\<rparr>"
    using assms unfolding decode_remove_metadata_def by (auto simp: reader_Ok decode_Ok split: if_splits)
  moreover from this have "reads r (encode_remove_metadata p) r'"
    by (simp add: encode_remove_metadata_def be_zero32) (blast intro: reads_appendI)
  ultimately show ?thesis by (simp add: remove_valid_def)
qed

lemma decode_remove_metadata_complete:
  assumes "remove_valid p" and "reads r (encode_remove_metadata p) r'"
  shows "decode_remove_metadata r = Ok (p, r')"
proof -
  obtain r1 r2 r3 r4 r5 where
    "reader_u64 r = Ok (pd_request p, r1)" "reader_u32 r1 = Ok (pd_region p, r2)" "reader_zeroes 4 r2 = Ok ((), r3)"
    "reader_u64 r3 = Ok (pd_generation p, r4)" "reader_u64 r4 = Ok (pd_offset p, r5)" "reader_u64 r5 = Ok (pd_length p, r')"
    using assms(2) unfolding encode_remove_metadata_def reads_append be_zero32 by (auto simp: reader_Ok)
  moreover have "identifier_decode (pd_request p) = Ok (pd_request p)" "identifier_decode (pd_region p) = Ok (pd_region p)"
    "identifier_decode (pd_generation p) = Ok (pd_generation p)"
    using assms(1) by (simp_all add: remove_valid_def decode_Ok)
  ultimately show ?thesis using assms(1) by (auto simp: decode_remove_metadata_def remove_valid_def)
qed

lemma limits_new_Ok:
  "limits_new a b c d e = Ok l \<Longrightarrow>
     l = \<lparr>pl_page_size = a, pl_region_count = b, pl_max_in_flight = c, pl_max_frame_bytes = d, pl_operations = e\<rparr> \<and>
     e = V1_OPERATIONS"
  by (auto simp: limits_new_def and_then_Ok_iff split: if_splits)

lemma decode_limits_sound:
  assumes "decode_limits body r = Ok (l, r')"
  shows "limits_valid l \<and> reads r (encode_limits l) r'"
proof -
  obtain a r1 b r2 c r3 d r4 e r5 where
    "reads r (to_be_bytes a) r1" "reads r1 (to_be_bytes b) r2" "reads r2 (to_be_bytes c) r3"
    "reads r3 (to_be_bytes d) r4" "reads r4 (to_be_bytes e) r5" "reads r5 (replicate 8 0) r'"
    and l: "limits_new a b c d e = Ok l"
    using assms unfolding decode_limits_def limits_decode_def by (auto simp: reader_Ok decode_Ok)
  moreover from this have "reads r (encode_limits l) r'"
    using limits_new_Ok [OF l] by (simp add: encode_limits_def) (blast intro: reads_appendI)
  ultimately show ?thesis using limits_new_Ok [OF l] by (simp add: limits_valid_def)
qed

lemma decode_limits_complete:
  assumes "limits_valid l" and "reads r (encode_limits l) r'" and "length body = LIMITS_BODY_BYTES"
  shows "decode_limits body r = Ok (l, r')"
proof -
  have l: "limits_new (pl_page_size l) (pl_region_count l) (pl_max_in_flight l) (pl_max_frame_bytes l) (pl_operations l) = Ok l"
    using assms(1) by (simp only: limits_valid_def)
  obtain r1 r2 r3 r4 r5 where
    "reader_u32 r = Ok (pl_page_size l, r1)" "reader_u16 r1 = Ok (pl_region_count l, r2)"
    "reader_u16 r2 = Ok (pl_max_in_flight l, r3)" "reader_u32 r3 = Ok (pl_max_frame_bytes l, r4)"
    "reader_u32 r4 = Ok (pl_operations l, r5)" "reader_zeroes 8 r5 = Ok ((), r')"
    using assms(2) unfolding encode_limits_def reads_append by (auto simp: reader_Ok)
  moreover have "operations_decode (pl_operations l) = Ok (pl_operations l)"
    using limits_new_Ok [OF l] by (simp add: decode_Ok)
  ultimately show ?thesis using assms(3) l by (simp add: decode_limits_def require_body_len_def limits_decode_def)
qed

lemma decode_region_sound:
  assumes "decode_region body r = Ok (g, r')"
  shows "message_valid (Msg_Region g) \<and> (\<exists>bs. encode_message (Msg_Region g) = Ok bs \<and> reads r bs r')"
proof -
  obtain i r1 r2 offset r3 len where
    "reads r (to_be_bytes i) r1" "i \<noteq> 0" "reads r1 (replicate 4 0) r2" "reads r2 (to_be_bytes offset) r3"
    "reads r3 (to_be_bytes len) r'" and g: "region_decode i offset len = Ok g"
    using assms unfolding decode_region_def by (auto simp: reader_Ok decode_Ok)
  moreover have "g = \<lparr>pr_id = i, pr_source_offset = offset, pr_length = len\<rparr>" "len \<noteq> 0" "checked_add offset len \<noteq> None"
    using g by (auto simp: region_decode_def split: if_splits)
  ultimately show ?thesis by (simp add: be_zero32) (blast intro: reads_appendI)
qed

lemma decode_region_complete:
  assumes "message_valid (Msg_Region g)" and "encode_message (Msg_Region g) = Ok bs" and "reads r bs r'"
    and "length body = REGION_BODY_BYTES"
  shows "decode_region body r = Ok (g, r')"
proof -
  have "reads r (to_be_bytes (pr_id g) @ replicate 4 0 @ to_be_bytes (pr_source_offset g) @ to_be_bytes (pr_length g)) r'"
    using assms(2,3) by (simp add: be_zero32)
  then obtain r1 r2 r3 where
    "reader_u32 r = Ok (pr_id g, r1)" "reader_zeroes 4 r1 = Ok ((), r2)" "reader_u64 r2 = Ok (pr_source_offset g, r3)"
    "reader_u64 r3 = Ok (pr_length g, r')"
    unfolding reads_append by (auto simp: reader_Ok)
  moreover have "identifier_decode (pr_id g) = Ok (pr_id g)" using assms(1) by (simp add: decode_Ok)
  ultimately show ?thesis using assms(1,4) by (auto simp: decode_region_def require_body_len_def region_decode_def)
qed

section \<open>Frames\<close>

lemma decode_page_data_sound:
  assumes "decode_page_data body r = Ok (m, r')" and "length (rd_bytes r) < 2 ^ 64"
  shows "\<exists>p data. m = Msg_PageData p data \<and> page_valid p \<and> length data = unat (pp_length p) \<and>
    reads r (encode_page_metadata p @ data) r'"
proof -
  obtain p r1 where p: "decode_page_metadata r = Ok (p, r1)"
    and m: "m = Msg_PageData p (drop (rd_offset r1) (rd_bytes r1))"
      "length (drop (rd_offset r1) (rd_bytes r1)) = unat (pp_length p)" "r' = r1\<lparr>rd_offset := length (rd_bytes r1)\<rparr>"
    using assms(1) by (auto simp: decode_page_data_def and_then_Ok_iff reader_remaining_def split: if_splits prod.splits)
  note ok = decode_page_metadata_sound [OF p]
  have "rd_offset r1 \<le> length (rd_bytes r1)" using ok by (auto simp: reads_def)
  then have "reads r1 (drop (rd_offset r1) (rd_bytes r1)) r'"
    using assms(2) reads_bytes [of r _ r1] ok by (auto simp: reads_def m(3))
  then show ?thesis using ok m by (auto intro: reads_appendI)
qed

lemma decode_message_sound:
  assumes "decode_message kind body r = Ok (m, r')" and "length (rd_bytes r) < 2 ^ 64" and "rd_offset r \<le> length (rd_bytes r)"
  shows "kind = message_kind m \<and> message_valid m \<and> (\<exists>bs. encode_message m = Ok bs \<and> reads r bs r')"
proof -
  note cases = decode_message_def and_then_Ok_iff decode_empty_def decode_page_def decode_remove_def
  have "reads r (to_be_bytes (reason_wire reason) @ replicate 7 0) r'" if "decode_cancel body r = Ok (Msg_Cancel reason, r')" for reason
    using that unfolding decode_cancel_def by (auto simp: reader_Ok decode_Ok intro: reads_appendI)
  moreover have "reads r (to_be_bytes (code_wire code) @ replicate 6 0) r'" if "decode_terminal body r = Ok (Msg_Terminal code, r')" for code
    using that unfolding decode_terminal_def by (auto simp: reader_Ok decode_Ok intro: reads_appendI)
  moreover have "\<exists>reason. m = Msg_Cancel reason" if "decode_cancel body r = Ok (m, r')"
    using that by (auto simp: decode_cancel_def and_then_Ok_iff)
  moreover have "\<exists>code. m = Msg_Terminal code" if "decode_terminal body r = Ok (m, r')"
    using that by (auto simp: decode_terminal_def and_then_Ok_iff)
  ultimately show ?thesis
    using assms decode_limits_sound [of body r _ r'] decode_region_sound [of body r _ r'] decode_page_metadata_sound [of r _ r']
      decode_remove_metadata_sound [of r _ r'] decode_page_data_sound [of body r m r']
    by (cases kind) (fastforce simp: cases)+
qed

lemma encode_message_length:
  "encode_message m = Ok bs \<Longrightarrow> length bs =
    (case m of Msg_Hello _ \<Rightarrow> 24 | Msg_HelloAck _ \<Rightarrow> 24 | Msg_Region _ \<Rightarrow> 24 | Msg_PageRequest _ \<Rightarrow> 40 | Msg_PageZero _ \<Rightarrow> 40
     | Msg_PageData p data \<Rightarrow> 40 + unat (pp_length p) | Msg_Remove _ \<Rightarrow> 40 | Msg_Removed _ \<Rightarrow> 40 | Msg_Cancel _ \<Rightarrow> 8
     | Msg_Terminal _ \<Rightarrow> 8 | _ \<Rightarrow> 0)"
  by (cases m) (auto simp: encode_limits_def encode_page_metadata_def encode_remove_metadata_def split: if_splits)

lemma decode_message_complete:
  assumes "message_valid m" and "encode_message m = Ok bs" and "reads r bs r'" and "reader_is_finished r'"
    and "length body = SESSION_BYTES + length bs"
  shows "decode_message (message_kind m) body r = Ok (m, r')"
proof (cases m)
  case (Msg_PageData p data)
  then have bs: "bs = encode_page_metadata p @ data" and len: "length data = unat (pp_length p)"
    using assms(2) by (auto split: if_splits)
  then obtain r1 where r1: "reads r (encode_page_metadata p) r1" "reads r1 data r'" using assms(3) by (auto simp: reads_append)
  have "decode_page_metadata r = Ok (p, r1)"
    using assms(1) Msg_PageData r1(1) by (intro decode_page_metadata_complete) auto
  moreover have "drop (rd_offset r1) (rd_bytes r1) = data" "r1\<lparr>rd_offset := length (rd_bytes r1)\<rparr> = r'"
    using r1(2) assms(4) by (auto simp: reads_def reader_is_finished_def)
  moreover have "\<not> length body < PAGE_METADATA_BYTES"
    using encode_message_length [OF assms(2)] assms(5) Msg_PageData by (simp add: pager_sizes)
  ultimately show ?thesis using Msg_PageData len 
    by (simp add: decode_message_def decode_page_data_def reader_remaining_def del: length_drop)
next
  case (Msg_Cancel reason)
  then obtain r1 where "reader_u8 r = Ok (reason_wire reason, r1)" "reader_zeroes 7 r1 = Ok ((), r')"
    using assms(2,3) by (auto simp: reader_Ok reads_append)
  moreover have "reason_decode (reason_wire reason) = Ok reason" by (simp add: decode_Ok)
  ultimately show ?thesis
    using Msg_Cancel assms(5) encode_message_length [OF assms(2)]
    by (simp add: decode_message_def decode_cancel_def require_body_len_def pager_sizes)
next
  case (Msg_Terminal code)
  then obtain r1 where "reader_u16 r = Ok (code_wire code, r1)" "reader_zeroes 6 r1 = Ok ((), r')"
    using assms(2,3) by (auto simp: reader_Ok reads_append)
  moreover have "code_decode (code_wire code) = Ok code" by (simp add: decode_Ok)
  ultimately show ?thesis
    using Msg_Terminal assms(5) encode_message_length [OF assms(2)]
    by (simp add: decode_message_def decode_terminal_def require_body_len_def pager_sizes)
next
  case (Msg_Region g)
  then have "decode_region body r = Ok (g, r')"
    using assms encode_message_length [OF assms(2)] by (intro decode_region_complete) (auto simp: pager_sizes)
  then show ?thesis using Msg_Region by (simp add: decode_message_def)
qed (use assms encode_message_length [OF assms(2)] in \<open>auto simp: decode_message_def decode_empty_def decode_page_def
    decode_remove_def require_body_len_def pager_sizes decode_limits_complete decode_page_metadata_complete
    decode_remove_metadata_complete\<close>)

lemma reader_start:
  assumes "reads (reader_new body) bs r"
  shows "rd_bytes r = body" "rd_offset r = length bs" "rd_offset r \<le> length (rd_bytes r)"
  using assms by (auto simp: reads_def reader_new_def)

lemma session_decode_Ok: "session_decode bs = Ok s \<longleftrightarrow> s = bs \<and> bs \<noteq> replicate SESSION_BYTES 0"
  by (auto simp: session_decode_def session_from_bytes_def)

lemma decode_body_Ok:
  assumes "length body < 2 ^ 64"
  shows "decode_body kind body = Ok f \<longleftrightarrow> frame_valid f \<and> frame_kind f = kind \<and>
    (\<exists>bs. encode_message (pf_message f) = Ok bs \<and> body = pf_session f @ bs)"
proof
  assume "decode_body kind body = Ok f"
  then obtain r1 r2 where s: "length (pf_session f) = SESSION_BYTES" "reads (reader_new body) (pf_session f) r1"
      "pf_session f \<noteq> replicate SESSION_BYTES 0"
    and m: "decode_message kind body r1 = Ok (pf_message f, r2)" and fin: "reader_is_finished r2"
    by (auto simp: decode_body_def and_then_Ok_iff reader_take_Ok session_decode_Ok split: if_splits)
  obtain bs where bs: "kind = message_kind (pf_message f)" "message_valid (pf_message f)"
    "encode_message (pf_message f) = Ok bs" "reads r1 bs r2"
    using decode_message_sound [OF m] assms reader_start [OF s(2)] by auto
  have "reads (reader_new body) (pf_session f @ bs) r2" by (rule reads_appendI [OF s(2) bs(4)])
  then have "body = pf_session f @ bs" using reads_all [OF assms] fin by blast
  then show "frame_valid f \<and> frame_kind f = kind \<and> (\<exists>bs. encode_message (pf_message f) = Ok bs \<and> body = pf_session f @ bs)"
    using s bs by (auto simp: frame_valid_def frame_kind_def)
next
  assume "frame_valid f \<and> frame_kind f = kind \<and> (\<exists>bs. encode_message (pf_message f) = Ok bs \<and> body = pf_session f @ bs)"
  then obtain bs where f: "frame_valid f" "frame_kind f = kind" and bs: "encode_message (pf_message f) = Ok bs"
    and body: "body = pf_session f @ bs" by blast
  obtain r where "reads (reader_new body) (pf_session f @ bs) r" and fin: "reader_is_finished r"
    using reads_all [OF assms, of "pf_session f @ bs"] body by blast
  then obtain r1 where r1: "reads (reader_new body) (pf_session f) r1" "reads r1 bs r" by (auto simp: reads_append)
  have "decode_message kind body r1 = Ok (pf_message f, r)"
    using f bs r1(2) fin body by (auto simp: frame_valid_def frame_kind_def intro!: decode_message_complete)
  moreover have "reader_take SESSION_BYTES (reader_new body) = Ok (pf_session f, r1)"
    using f(1) r1(1) by (simp add: reader_take_Ok frame_valid_def)
  moreover have "session_decode (pf_session f) = Ok (pf_session f)" using f(1) by (simp add: session_decode_Ok frame_valid_def)
  ultimately show "decode_body kind body = Ok f" using fin by (simp add: decode_body_def)
qed

definition frame_header :: "pager_frame_kind \<Rightarrow> u32 \<Rightarrow> u8 list" where
  "frame_header kind n = MAGIC @ to_be_bytes PAGER_VERSION @ to_be_bytes (kind_wire kind) @ to_be_bytes n @
     to_be_bytes (0 :: u32) @ to_be_bytes (0 :: u32)"

lemma length_frame_header [simp]: "length (frame_header kind n) = HEADER_BYTES"
  by (simp add: frame_header_def MAGIC_def HEADER_BYTES_def)

lemma declared_frame_Ok:
  "declared_frame encoded = Ok (kind, frame_len) \<longleftrightarrow>
     (\<exists>n. take HEADER_BYTES encoded = frame_header kind n \<and> HEADER_BYTES \<le> length encoded \<and>
          frame_len = HEADER_BYTES + unat n \<and> SESSION_BYTES \<le> unat n \<and> frame_len \<le> MAX_FRAME_BYTES)"
proof -
  let ?h = "take HEADER_BYTES encoded"
  have small: "length ?h < 2 ^ 64" by (simp add: HEADER_BYTES_def min_def)
  have all: "?h = frame_header kind n \<longleftrightarrow> (\<exists>r1 r2 r3 r4 r5 r6. reads (reader_new ?h) MAGIC r1 \<and>
      reads r1 (to_be_bytes PAGER_VERSION) r2 \<and> reads r2 (to_be_bytes (kind_wire kind)) r3 \<and> reads r3 (to_be_bytes n) r4 \<and>
      reads r4 (to_be_bytes (0 :: u32)) r5 \<and> reads r5 (to_be_bytes (0 :: u32)) r6 \<and> reader_is_finished r6)" for n
    unfolding frame_header_def reads_all [OF small, symmetric] reads_append by blast
  have magic: "length MAGIC = 8" by (simp add: MAGIC_def)
  show ?thesis
  proof
    assume "declared_frame encoded = Ok (kind, frame_len)"
    then obtain n :: u32 and r1 r2 r3 r4 r5 r6 where "reads (reader_new ?h) MAGIC r1" "reads r1 (to_be_bytes PAGER_VERSION) r2"
      "reads r2 (to_be_bytes (kind_wire kind)) r3" "reads r3 (to_be_bytes n) r4" "reads r4 (to_be_bytes (0 :: u32)) r5"
      "reads r5 (to_be_bytes (0 :: u32)) r6" "reader_is_finished r6"
      and "HEADER_BYTES \<le> length encoded" "frame_len = HEADER_BYTES + unat n" "SESSION_BYTES \<le> unat n"
      "HEADER_BYTES + unat n \<le> MAX_FRAME_BYTES"
      unfolding declared_frame_def
      by (auto simp: reader_Ok decode_Ok reader_take_Ok Let_def not_less split: if_splits)
    then show "\<exists>n. ?h = frame_header kind n \<and> HEADER_BYTES \<le> length encoded \<and> frame_len = HEADER_BYTES + unat n \<and>
        SESSION_BYTES \<le> unat n \<and> frame_len \<le> MAX_FRAME_BYTES"
      unfolding all by blast
  next
    assume "\<exists>n. ?h = frame_header kind n \<and> HEADER_BYTES \<le> length encoded \<and> frame_len = HEADER_BYTES + unat n \<and>
        SESSION_BYTES \<le> unat n \<and> frame_len \<le> MAX_FRAME_BYTES"
    then obtain n r1 r2 r3 r4 r5 r6 where "reader_take 8 (reader_new ?h) = Ok (MAGIC, r1)" "reader_u16 r1 = Ok (PAGER_VERSION, r2)"
      "reader_u16 r2 = Ok (kind_wire kind, r3)" "reader_u32 r3 = Ok (n, r4)" "reader_u32 r4 = Ok (0, r5)"
      "reader_u32 r5 = Ok (0, r6)" "reader_is_finished r6"
      and "HEADER_BYTES \<le> length encoded" "frame_len = HEADER_BYTES + unat n" "SESSION_BYTES \<le> unat n"
      "HEADER_BYTES + unat n \<le> MAX_FRAME_BYTES"
      unfolding all by (auto simp: reader_Ok reader_take_Ok magic)
    moreover have "kind_decode (kind_wire kind) = Ok kind" by (simp add: decode_Ok)
    ultimately show "declared_frame encoded = Ok (kind, frame_len)" by (simp add: declared_frame_def)
  qed
qed

lemma encode_frame_Ok:
  "encode_frame f = Ok encoded \<longleftrightarrow> (\<exists>bs. encode_message (pf_message f) = Ok bs \<and>
     HEADER_BYTES + length (pf_session f @ bs) \<le> MAX_FRAME_BYTES \<and>
     encoded = frame_header (frame_kind f) (of_nat (length (pf_session f @ bs))) @ pf_session f @ bs)"
proof -
  have "MAX_FRAME_BYTES < 2 ^ 32" by (simp add: MAX_FRAME_BYTES_def pager_sizes MAX_PAGE_SIZE_def)
  then show ?thesis
    by (cases "encode_message (pf_message f)") (auto simp: encode_frame_def Let_def frame_header_def split: if_splits)
qed

lemma decode_frame_Ok:
  "decode_frame encoded = Ok f \<longleftrightarrow> frame_valid f \<and> encode_frame f = Ok encoded"
proof
  assume "decode_frame encoded = Ok f"
  then obtain kind frame_len where h: "declared_frame encoded = Ok (kind, frame_len)" and len: "length encoded = frame_len"
    and b: "decode_body kind (take (frame_len - HEADER_BYTES) (drop HEADER_BYTES encoded)) = Ok f"
    by (auto simp: decode_frame_def and_then_Ok_iff split: if_splits)
  obtain n where n: "take HEADER_BYTES encoded = frame_header kind n" "frame_len = HEADER_BYTES + unat n"
    "frame_len \<le> MAX_FRAME_BYTES" using h by (auto simp: declared_frame_Ok)
  let ?body = "drop HEADER_BYTES encoded"
  have body: "take (frame_len - HEADER_BYTES) ?body = ?body" "length ?body = unat n" using len n(2) by simp_all
  have "length ?body < 2 ^ 64" using body(2) unat_bound32 [of n] by simp
  from b [unfolded body(1) decode_body_Ok [OF this]] obtain bs where f: "frame_valid f" "frame_kind f = kind"
    "encode_message (pf_message f) = Ok bs" "?body = pf_session f @ bs" by blast
  have "of_nat (length (pf_session f @ bs)) = n" using body(2) f(4) by simp
  then have "encoded = frame_header (frame_kind f) (of_nat (length (pf_session f @ bs))) @ pf_session f @ bs"
    using append_take_drop_id [of HEADER_BYTES encoded] n(1) f by simp
  then show "frame_valid f \<and> encode_frame f = Ok encoded"
    using f n(2,3) body(2) by (auto simp: encode_frame_Ok)
next
  assume "frame_valid f \<and> encode_frame f = Ok encoded"
  then obtain bs where f: "frame_valid f" and bs: "encode_message (pf_message f) = Ok bs"
    and fit: "HEADER_BYTES + length (pf_session f @ bs) \<le> MAX_FRAME_BYTES"
    and e: "encoded = frame_header (frame_kind f) (of_nat (length (pf_session f @ bs))) @ pf_session f @ bs"
    by (auto simp: encode_frame_Ok)
  let ?n = "length (pf_session f @ bs)"
  have max: "MAX_FRAME_BYTES < 2 ^ 32" by (simp add: MAX_FRAME_BYTES_def pager_sizes MAX_PAGE_SIZE_def)
  then have n: "unat (of_nat ?n :: u32) = ?n" using fit by (intro unat_of_nat_id) simp
  have "declared_frame encoded = Ok (frame_kind f, HEADER_BYTES + ?n)"
    unfolding declared_frame_Ok using n fit f by (intro exI [of _ "of_nat ?n"]) (auto simp: e frame_valid_def)
  moreover have "decode_body (frame_kind f) (pf_session f @ bs) = Ok f"
    using f bs fit max by (subst decode_body_Ok) auto
  ultimately show "decode_frame encoded = Ok f" by (simp add: decode_frame_def e)
qed

text \<open>
  C11: the codec is exact.  A byte string decodes to a frame precisely when the frame is valid and the
  string is its encoding: every valid frame that fits the frame limit survives the wire unchanged,
  no two encodings stand for one frame, and nothing else is accepted, not even trailing bytes.
\<close>

theorem pager_frame_exact:
  "decode_frame encoded = Ok f \<longleftrightarrow> frame_valid f \<and> encode_frame f = Ok encoded"
  by (rule decode_frame_Ok)

section \<open>Streams of frames\<close>

text \<open>A stream ends in the middle of a frame when its last bytes are no whole header, or fewer than the header declares.\<close>

definition incomplete :: "u8 list \<Rightarrow> bool" where
  "incomplete b \<longleftrightarrow> length b < HEADER_BYTES \<or> (\<exists>kind t. declared_frame b = Ok (kind, t) \<and> length b < t)"

text \<open>The frames of a whole stream and the bytes that are left.\<close>

function parse_stream :: "u8 list \<Rightarrow> (pager_frame list \<times> u8 list, pager_error) result" where
  "parse_stream b =
     (if length b < HEADER_BYTES then Ok ([], b)
      else case declared_frame b of
             Ok (kind, t) \<Rightarrow>
               if length b < t then Ok ([], b)
               else and_then (decode_frame (take t b)) (\<lambda>f.
                    and_then (parse_stream (drop t b)) (\<lambda>(fs, rest). Ok (f # fs, rest)))
           | Err e \<Rightarrow> Err e
           | Panic \<Rightarrow> Panic)"
  by pat_completeness auto

termination
proof (relation "measure length")
  fix b :: "u8 list" and p kind t and f :: pager_frame
  assume "declared_frame b = Ok p" "(kind, t) = p" "\<not> length b < t"
  then show "(drop t b, b) \<in> measure length"
    using declared_frame_bounds(1) [of b kind t] by (simp add: HEADER_BYTES_def)
qed simp

declare parse_stream.simps [simp del]

lemma declared_frame_append: "HEADER_BYTES \<le> length a \<Longrightarrow> declared_frame (a @ c) = declared_frame a"
  by (simp add: declared_frame_def)

lemma declared_frame_take: "declared_frame b = Ok (kind, t) \<Longrightarrow> t \<le> length b \<Longrightarrow> declared_frame (take t b) = Ok (kind, t)"
  using declared_frame_append [of "take t b" "drop t b"] declared_frame_bounds(1) [of b kind t] by simp

lemma parse_cases:
  assumes "parse_stream a = Ok (fs, rest)"
  obtains (partial) "fs = []" and "rest = a" and "incomplete a"
  | (frame) kind t f gs where "HEADER_BYTES \<le> length a" and "declared_frame a = Ok (kind, t)" and "t \<le> length a"
      and "0 < t" and "decode_frame (take t a) = Ok f" and "parse_stream (drop t a) = Ok (gs, rest)" and "fs = f # gs"
proof (cases "incomplete a")
  case True
  then show thesis
    using assms partial by (subst (asm) parse_stream.simps) (auto simp: incomplete_def split: if_splits)
next
  case False
  then obtain kind t where h: "HEADER_BYTES \<le> length a" "declared_frame a = Ok (kind, t)" "t \<le> length a"
    using assms by (subst (asm) parse_stream.simps) (auto simp: incomplete_def not_less split: result.splits)
  moreover have "0 < t" using declared_frame_bounds(1) [OF h(2)] by (simp add: HEADER_BYTES_def)
  moreover obtain f gs where "decode_frame (take t a) = Ok f" "parse_stream (drop t a) = Ok (gs, rest)" "fs = f # gs"
    using assms h by (subst (asm) parse_stream.simps) (auto simp: and_then_Ok_iff split: if_splits)
  ultimately show thesis by (rule frame)
qed

lemma parse_induct [consumes 1, case_names partial frame]:
  assumes "parse_stream a = Ok (fs, rest)"
    and "\<And>a. incomplete a \<Longrightarrow> parse_stream a = Ok ([], a) \<Longrightarrow> P a [] a"
    and "\<And>a kind t f gs rest. HEADER_BYTES \<le> length a \<Longrightarrow> declared_frame a = Ok (kind, t) \<Longrightarrow> t \<le> length a \<Longrightarrow>
      decode_frame (take t a) = Ok f \<Longrightarrow> parse_stream (drop t a) = Ok (gs, rest) \<Longrightarrow> P (drop t a) gs rest \<Longrightarrow> P a (f # gs) rest"
  shows "P a fs rest"
  using assms(1)
proof (induction "length a" arbitrary: a fs rule: less_induct)
  case less
  from less(2) show ?case
  proof (cases rule: parse_cases)
    case partial
    then show ?thesis using assms(2) less(2) by simp
  next
    case (frame kind t f gs)
    then have "P (drop t a) gs rest" by (intro less(1)) simp_all
    then show ?thesis unfolding frame(7) by (rule assms(3) [OF frame(1-3,5,6)])
  qed
qed

lemma parse_frame:
  assumes "HEADER_BYTES \<le> length a" and "declared_frame a = Ok (kind, t)" and "t \<le> length a"
  shows "parse_stream (a @ c) = and_then (decode_frame (take t a)) (\<lambda>f.
    and_then (parse_stream (drop t a @ c)) (\<lambda>(fs, rest). Ok (f # fs, rest)))"
  using assms declared_frame_append [OF assms(1), of c] by (subst parse_stream.simps) (simp add: not_less)

lemma parse_incomplete: "parse_stream a = Ok (fs, rest) \<Longrightarrow> incomplete rest"
  by (induction rule: parse_induct)

lemma parse_append:
  "parse_stream a = Ok (fs, rest) \<Longrightarrow>
     parse_stream (a @ c) = and_then (parse_stream (rest @ c)) (\<lambda>(gs, r). Ok (fs @ gs, r))"
proof (induction rule: parse_induct)
  case (partial a)
  show ?case by (cases "parse_stream (a @ c)") auto
next
  case (frame a kind t f gs rest)
  then show ?case by (cases "parse_stream (rest @ c)") (auto simp: parse_frame)
qed

lemma parse_append_failed: "\<forall>p. parse_stream a \<noteq> Ok p \<Longrightarrow> parse_stream (a @ c) = parse_stream a"
proof (induction "length a" arbitrary: a rule: less_induct)
  case less
  have h: "HEADER_BYTES \<le> length a" using less(2) by (subst (asm) parse_stream.simps) (auto split: if_splits)
  show ?case
  proof (cases "declared_frame a")
    case (Ok p)
    obtain kind t where p: "p = (kind, t)" by fastforce
    have t: "t \<le> length a" using less(2) Ok p by (subst (asm) parse_stream.simps) (auto split: if_splits)
    note eq = parse_frame [OF h Ok [unfolded p] t]
    show ?thesis
    proof (cases "decode_frame (take t a)")
      case f: (Ok f)
      have "\<forall>p. parse_stream (drop t a) \<noteq> Ok p" using less(2) eq [of "[]"] f by auto
      moreover have "0 < t" using declared_frame_bounds(1) [OF Ok [unfolded p]] by (simp add: HEADER_BYTES_def)
      ultimately have "parse_stream (drop t a @ c) = parse_stream (drop t a)" using less(1) [of "drop t a"] t by simp
      then show ?thesis using eq [of c] eq [of "[]"] f by simp
    qed (use eq [of c] eq [of "[]"] in simp_all)
  qed (use h in \<open>simp_all add: parse_stream.simps [of "a @ c"] parse_stream.simps [of a] declared_frame_append\<close>)
qed
text \<open>The loop of the decoder computes these frames and consumes exactly the bytes before the ones left.\<close>

lemma decode_frames_parse:
  "consumed \<le> length buffer \<Longrightarrow> decode_frames buffer consumed frames =
     and_then (parse_stream (drop consumed buffer)) (\<lambda>(fs, rest). Ok (frames @ fs, length buffer - length rest))"
proof (induction buffer consumed frames rule: decode_frames.induct)
  case (1 buffer consumed frames)
  show ?case
  proof (cases "length (drop consumed buffer) < HEADER_BYTES")
    case True
    then show ?thesis using 1(2) by (simp add: decode_frames.simps [of buffer] parse_stream.simps [of "drop consumed buffer"])
  next
    case h: False
    show ?thesis
    proof (cases "declared_frame (drop consumed buffer)")
      case (Ok p)
      obtain kind t where p: "p = (kind, t)" by fastforce
      show ?thesis
      proof (cases "length (drop consumed buffer) < t")
        case True
        then show ?thesis using 1(2) h Ok p
          by (simp add: decode_frames.simps [of buffer] parse_stream.simps [of "drop consumed buffer"])
      next
        case t: False
        then have "decode_frame (take t (drop consumed buffer)) = Ok f \<Longrightarrow> decode_frames buffer (consumed + t) (frames @ [f]) =
            and_then (parse_stream (drop (consumed + t) buffer)) (\<lambda>(fs, rest). Ok ((frames @ [f]) @ fs, length buffer - length rest))" for f
          using 1(1) [OF _ refl _ Ok p [symmetric]] 1(2) h by simp
        then show ?thesis using 1(2) h Ok p t
          by (cases "decode_frame (take t (drop consumed buffer))"; cases "parse_stream (drop t (drop consumed buffer))")
            (simp_all add: decode_frames.simps [of buffer] parse_stream.simps [of "drop consumed buffer"] add.commute split_beta)
      qed
    qed (use 1(2) h in \<open>simp_all add: decode_frames.simps [of buffer] parse_stream.simps [of "drop consumed buffer"]\<close>)
  qed
qed

lemma parse_suffix: "parse_stream a = Ok (fs, rest) \<Longrightarrow> length rest \<le> length a \<and> drop (length a - length rest) a = rest"
proof (induction rule: parse_induct)
  case (frame a kind t f gs rest)
  then show ?case by (auto simp: add.commute)
qed simp

lemma incomplete_bound: "incomplete b \<Longrightarrow> length b < MAX_FRAME_BYTES"
  by (auto simp: incomplete_def HEADER_BYTES_def MAX_FRAME_BYTES_def dest: declared_frame_bounds(2))

text \<open>One push onto a decoder that holds a partial frame.\<close>

lemma decoder_push_parse:
  assumes "incomplete b" and "length c \<le> MAX_FRAME_BYTES"
  shows "decoder_push \<lparr>fd_buffer = b, fd_poisoned = False\<rparr> c =
    (case parse_stream (b @ c) of
       Ok (fs, rest) \<Rightarrow> (\<lparr>fd_buffer = rest, fd_poisoned = False\<rparr>, Ok fs)
     | Err e \<Rightarrow> (\<lparr>fd_buffer = b @ c, fd_poisoned = True\<rparr>, Err e)
     | Panic \<Rightarrow> (\<lparr>fd_buffer = b @ c, fd_poisoned = False\<rparr>, Panic))"
proof -
  have "length b + length c \<le> MAX_BUFFER_BYTES" "\<not> 2 ^ 64 \<le> length b + length c"
    using incomplete_bound [OF assms(1)] assms(2) by (simp_all add: MAX_BUFFER_BYTES_def MAX_FRAME_BYTES_def HEADER_BYTES_def PAGE_METADATA_BYTES_def SESSION_BYTES_def MAX_PAGE_SIZE_def)
  then show ?thesis
    using parse_suffix [of "b @ c"] decode_frames_parse [of 0 "b @ c" "[]"]
    by (cases "parse_stream (b @ c)") (auto simp: decoder_push_def push_inner_def not_less)
qed

text \<open>A connection delivers its bytes in chunks; the reader stops at the first refusal.\<close>

fun push_all :: "pager_frame_decoder \<Rightarrow> u8 list list \<Rightarrow> pager_frame_decoder \<times> (pager_frame list, pager_error) result" where
  "push_all d [] = (d, Ok [])"
| "push_all d (c # cs) =
     (case decoder_push d c of
        (d', Ok fs) \<Rightarrow> (case push_all d' cs of (d'', res) \<Rightarrow> (d'', and_then res (\<lambda>gs. Ok (fs @ gs))))
      | (d', Err e) \<Rightarrow> (d', Err e)
      | (d', Panic) \<Rightarrow> (d', Panic))"

lemma parse_of_incomplete: "incomplete b \<Longrightarrow> parse_stream b = Ok ([], b)"
  by (auto simp: incomplete_def parse_stream.simps [of b])

lemma push_all_parse:
  assumes "incomplete b" and "\<forall>c\<in>set cs. length c \<le> MAX_FRAME_BYTES"
  shows "push_all \<lparr>fd_buffer = b, fd_poisoned = False\<rparr> cs = (d, Ok fs) \<longleftrightarrow>
    (\<exists>tail. parse_stream (b @ concat cs) = Ok (fs, tail) \<and> d = \<lparr>fd_buffer = tail, fd_poisoned = False\<rparr>)"
  using assms
proof (induction cs arbitrary: b d fs)
  case Nil
  then show ?case by (auto simp: parse_of_incomplete)
next
  case (Cons c cs)
  show ?case
  proof (cases "parse_stream (b @ c)")
    case (Ok p)
    obtain gs rest where p: "p = (gs, rest)" by fastforce
    note ih = Cons.IH [OF parse_incomplete [OF Ok [unfolded p]]]
    show ?thesis
      using Cons.prems ih parse_append [OF Ok [unfolded p], of "concat cs"] Ok p
      by (cases "push_all \<lparr>fd_buffer = rest, fd_poisoned = False\<rparr> cs"; cases "parse_stream (rest @ concat cs)")
        (fastforce simp: decoder_push_parse and_then_Ok_iff)+
  qed (use Cons.prems parse_append_failed [of "b @ c" "concat cs"] in \<open>simp_all add: decoder_push_parse\<close>)
qed
lemma parse_encoded:
  assumes "frame_valid f" and "encode_frame f = Ok e"
  shows "parse_stream (e @ b) = and_then (parse_stream b) (\<lambda>(fs, rest). Ok (f # fs, rest))"
proof -
  have f: "decode_frame e = Ok f" using assms by (simp add: decode_frame_Ok)
  then obtain kind where h: "declared_frame e = Ok (kind, length e)"
    by (auto simp: decode_frame_def and_then_Ok_iff split: if_splits)
  show ?thesis using parse_frame [of e kind "length e" b] declared_frame_bounds(1) [OF h] h f by simp
qed

lemma parse_exact:
  "parse_stream b = Ok (fs, tail) \<longleftrightarrow>
     (\<exists>encs. list_all2 (\<lambda>f e. frame_valid f \<and> encode_frame f = Ok e) fs encs \<and> b = concat encs @ tail \<and> incomplete tail)"
proof
  assume "parse_stream b = Ok (fs, tail)"
  then show "\<exists>encs. list_all2 (\<lambda>f e. frame_valid f \<and> encode_frame f = Ok e) fs encs \<and> b = concat encs @ tail \<and> incomplete tail"
  proof (induction rule: parse_induct)
    case (frame a kind t f gs rest)
    then obtain encs where "list_all2 (\<lambda>f e. frame_valid f \<and> encode_frame f = Ok e) gs encs"
      and d: "drop t a = concat encs @ rest" and "incomplete rest" by blast
    then show ?case
      using frame(4) append_take_drop_id [of t a, unfolded d] by (intro exI [of _ "take t a # encs"]) (simp add: decode_frame_Ok)
  qed auto
next
  assume "\<exists>encs. list_all2 (\<lambda>f e. frame_valid f \<and> encode_frame f = Ok e) fs encs \<and> b = concat encs @ tail \<and> incomplete tail"
  then obtain encs where "list_all2 (\<lambda>f e. frame_valid f \<and> encode_frame f = Ok e) fs encs" "b = concat encs @ tail" "incomplete tail"
    by blast
  then show "parse_stream b = Ok (fs, tail)"
    by (induction arbitrary: b rule: list_all2_induct) (auto simp: parse_of_incomplete parse_encoded)
qed

text \<open>
  C24: However a connection splits a stream into chunks of at most one frame's maximum length, the decoder returns the
  frames \<open>fs\<close> exactly when the stream is the concatenation of their encodings and an incomplete rest, which stays in the
  buffer. The boundaries of such chunks never change the frames, and \<open>finish\<close> also succeeds exactly when the frames are all
  of it. Without the bound on the chunks this fails: more than \<open>MAX_BUFFER_BYTES\<close> at once are refused.
\<close>

theorem pager_stream_exact:
  assumes "\<forall>c\<in>set chunks. length c \<le> MAX_FRAME_BYTES"
  shows "(push_all decoder_new chunks = (d, Ok fs) \<longleftrightarrow>
      (\<exists>encs tail. list_all2 (\<lambda>f e. frame_valid f \<and> encode_frame f = Ok e) fs encs \<and>
         concat chunks = concat encs @ tail \<and> incomplete tail \<and> d = \<lparr>fd_buffer = tail, fd_poisoned = False\<rparr>)) \<and>
    (push_all decoder_new chunks = (d, Ok fs) \<and> decoder_finish d = Ok () \<longleftrightarrow>
      (\<exists>encs. list_all2 (\<lambda>f e. frame_valid f \<and> encode_frame f = Ok e) fs encs \<and>
         concat chunks = concat encs \<and> d = decoder_new))"
proof -
  have e: "incomplete []" by (simp add: incomplete_def HEADER_BYTES_def)
  have "decoder_finish \<lparr>fd_buffer = tail, fd_poisoned = False\<rparr> = Ok () \<longleftrightarrow> tail = []" for tail
    by (simp add: decoder_finish_def)
  moreover note push_all_parse [OF e assms, folded decoder_new_def, simplified, unfolded parse_exact]
  ultimately show ?thesis using e unfolding decoder_new_def by auto
qed
definition sample_frames :: "pager_frame list" where
  "sample_frames =
     [\<lparr>pf_session = replicate 32 7, pf_message = Msg_Region \<lparr>pr_id = 1, pr_source_offset = 0, pr_length = 0x4000\<rparr>\<rparr>,
      \<lparr>pf_session = replicate 32 7, pf_message = Msg_Start\<rparr>]"

definition sample_stream :: "u8 list list" where
  "sample_stream =
     [[0x42, 0x42, 0x50, 0x41, 0x47, 0x45, 0x52, 0, 0, 1, 0, 3, 0, 0, 0, 56, 0, 0, 0, 0, 0, 0, 0, 0] @ replicate 32 7 @
        [0, 0, 0, 1, 0, 0, 0, 0, 0, 0, 0, 0, 0, 0, 0, 0, 0, 0, 0, 0, 0, 0, 0x40, 0],
      [0x42, 0x42, 0x50, 0x41, 0x47, 0x45, 0x52, 0, 0, 1, 0, 4, 0, 0, 0, 32, 0, 0, 0, 0, 0, 0, 0, 0] @ replicate 32 7]"

lemma sample_bytes:
  "to_be_bytes (1 :: u16) = [0, 1]" "to_be_bytes (3 :: u16) = [0, 3]" "to_be_bytes (4 :: u16) = [0, 4]"
  "to_be_bytes (0 :: u32) = [0, 0, 0, 0]" "to_be_bytes (1 :: u32) = [0, 0, 0, 1]" "to_be_bytes (32 :: u32) = [0, 0, 0, 32]"
  "to_be_bytes (56 :: u32) = [0, 0, 0, 56]" "to_be_bytes (0 :: u64) = [0, 0, 0, 0, 0, 0, 0, 0]"
  "to_be_bytes (0x4000 :: u64) = [0, 0, 0, 0, 0, 0, 0x40, 0]"
  by code_simp+

lemma sample_stream_encodes: "list_all2 (\<lambda>f e. frame_valid f \<and> encode_frame f = Ok e) sample_frames sample_stream"
  by (simp add: sample_frames_def sample_stream_def frame_valid_def SESSION_BYTES_def encode_frame_def frame_kind_def
      pager_sizes MAX_FRAME_BYTES_def MAX_PAGE_SIZE_def MAGIC_def PAGER_VERSION_def sample_bytes checked_add_def)

theorem pager_stream_exact_witness:
  "push_all decoder_new [take 30 (concat sample_stream), drop 30 (concat sample_stream)] = (decoder_new, Ok sample_frames)"
proof -
  have "length (concat sample_stream) \<le> MAX_FRAME_BYTES"
    by (simp add: sample_stream_def MAX_FRAME_BYTES_def MAX_PAGE_SIZE_def pager_sizes)
  then have "\<forall>c\<in>set [take 30 (concat sample_stream), drop 30 (concat sample_stream)]. length c \<le> MAX_FRAME_BYTES"
    by (simp add: min_le_iff_disj)
  moreover have "concat [take 30 (concat sample_stream), drop 30 (concat sample_stream)] = concat sample_stream" by simp
  ultimately show ?thesis using pager_stream_exact sample_stream_encodes by blast
qed

end
