(* ===== verification/Pager_Requests.thy ===== *)
theory Pager_Requests
  imports Pager_Session Pager_Properties "HOL-Library.Multiset"
begin

text \<open>
  What a VMM session promises against any peer: it numbers its requests in increasing order and lets each be answered
  once, by an answer that repeats it exactly.
\<close>

section \<open>Requests and answers\<close>

fun pending_id :: "pending_request \<Rightarrow> pager_request_id" where
  "pending_id (Pending_Page r) = pp_request r"
| "pending_id (Pending_Remove r) = pd_request r"

fun pending_region :: "pending_request \<Rightarrow> pager_region_id" where
  "pending_region (Pending_Page r) = pp_region r"
| "pending_region (Pending_Remove r) = pd_region r"

fun pending_message :: "pending_request \<Rightarrow> pager_message" where
  "pending_message (Pending_Page r) = Msg_PageRequest r"
| "pending_message (Pending_Remove r) = Msg_Remove r"

fun pending_fits :: "pager_region \<Rightarrow> u32 \<Rightarrow> pending_request \<Rightarrow> bool" where
  "pending_fits region page_size (Pending_Page r) = page_range_is_valid region (pp_offset r) (pp_length r) page_size"
| "pending_fits region page_size (Pending_Remove r) = remove_range_is_valid region (pd_offset r) (pd_length r) page_size"

fun requested_of :: "pager_message \<Rightarrow> pending_request option" where
  "requested_of (Msg_PageRequest r) = Some (Pending_Page r)"
| "requested_of (Msg_Remove r) = Some (Pending_Remove r)"
| "requested_of _ = None"

fun answered_of :: "pager_message \<Rightarrow> pending_request option" where
  "answered_of (Msg_PageData r data) = Some (Pending_Page r)"
| "answered_of (Msg_PageZero r) = Some (Pending_Page r)"
| "answered_of (Msg_Removed r) = Some (Pending_Remove r)"
| "answered_of _ = None"

fun answer_fits :: "pager_message \<Rightarrow> bool" where
  "answer_fits (Msg_PageData r data) \<longleftrightarrow> length data = unat (pp_length r)"
| "answer_fits _ \<longleftrightarrow> True"

lemma requested_of_Some: "requested_of m = Some q \<longleftrightarrow> m = pending_message q"
  by (cases m; cases q) auto

text \<open>The calls of the embedding program.\<close>

datatype vmm_call =
    Call_Hello | Call_NextRegion | Call_Start
  | Call_RequestPage pager_region_id pager_generation u64 page_access
  | Call_Remove pager_region_id pager_generation u64 u64
  | Call_Cancel cancel_reason | Call_Shutdown | Call_Terminal terminal_code

fun vmm_apply :: "vmm_session \<Rightarrow> vmm_call \<Rightarrow> vmm_outcome" where
  "vmm_apply v Call_Hello = vmm_hello v"
| "vmm_apply v Call_NextRegion = vmm_next_region v"
| "vmm_apply v Call_Start = vmm_start v"
| "vmm_apply v (Call_RequestPage region generation offset access) = vmm_request_page v region generation offset access"
| "vmm_apply v (Call_Remove region generation offset len) = vmm_remove v region generation offset len"
| "vmm_apply v (Call_Cancel reason) = vmm_cancel v reason"
| "vmm_apply v Call_Shutdown = vmm_shutdown v"
| "vmm_apply v (Call_Terminal code) = vmm_terminal v code"

fun issues :: "vmm_call \<Rightarrow> bool" where
  "issues (Call_RequestPage region generation offset access) = True"
| "issues (Call_Remove region generation offset len) = True"
| "issues _ = False"

definition issued :: "vmm_session \<Rightarrow> pending_request \<Rightarrow> vmm_session" where
  "issued v q = v\<lparr>vs_next_request := vs_next_request v + 1,
                  vs_outstanding := AList.update (pending_id q) q (vs_outstanding v)\<rparr>"

definition may_issue :: "vmm_session \<Rightarrow> pending_request \<Rightarrow> bool" where
  "may_issue v q \<longleftrightarrow> vs_state v = Vmm_Active \<and> pending_id q = vs_next_request v \<and> vs_next_request v \<noteq> 0 \<and>
     unat (vs_next_request v) + 1 < 2 ^ 64 \<and>
     (\<exists>selected region. vs_selected v = Some selected \<and> length (vs_outstanding v) < unat (pl_max_in_flight selected) \<and>
        find (\<lambda>r. pr_id r = pending_region q) (vs_regions v) = Some region \<and> pending_fits region (pl_page_size selected) q)"

lemmas issue_defs = require_active_capacity_def find_region_def allocate_request_id_def identifier_new_def checked_add_def
  insert_outstanding_def issued_def may_issue_def vmm_frame_def Let_def not_le

lemma vmm_issue_cases:
  assumes "vmm_apply v c = (v', res)" and "issues c" and "vs_next_request v \<notin> fst ` set (vs_outstanding v)"
  obtains (refused) e where "v' = v" and "res = Err e"
  | (sent) q where "may_issue v q" and "v' = issued v q" and "res = Ok (vmm_frame v (pending_message q))"
proof -
  have new: "map_of (vs_outstanding v) (vs_next_request v) = None" using assms(3) by (simp add: map_of_eq_None_iff)
  have "(\<exists>e. v' = v \<and> res = Err e) \<or> (\<exists>q. may_issue v q \<and> v' = issued v q \<and> res = Ok (vmm_frame v (pending_message q)))"
  proof (cases c)
    case (Call_RequestPage region generation offset access)
    let ?q = "Pending_Page \<lparr>pp_request = vs_next_request v, pp_region = region, pp_access = access,
      pp_generation = generation, pp_offset = offset, pp_length = pl_page_size (the (vs_selected v))\<rparr>"
    have "(\<exists>e. v' = v \<and> res = Err e) \<or> may_issue v ?q \<and> v' = issued v ?q \<and> res = Ok (vmm_frame v (pending_message ?q))"
      using assms(1) new unfolding Call_RequestPage vmm_apply.simps vmm_request_page_def
      by (cases "vs_selected v"; cases "find (\<lambda>r. pr_id r = region) (vs_regions v)") (auto simp: issue_defs split: if_splits)
    then show ?thesis by blast
  next
    case (Call_Remove region generation offset len)
    let ?q = "Pending_Remove \<lparr>pd_request = vs_next_request v, pd_region = region, pd_generation = generation,
      pd_offset = offset, pd_length = len\<rparr>"
    have "(\<exists>e. v' = v \<and> res = Err e) \<or> may_issue v ?q \<and> v' = issued v ?q \<and> res = Ok (vmm_frame v (pending_message ?q))"
      using assms(1) new unfolding Call_Remove vmm_apply.simps vmm_remove_def
      by (cases "vs_selected v"; cases "find (\<lambda>r. pr_id r = region) (vs_regions v)") (auto simp: issue_defs split: if_splits)
    then show ?thesis by blast
  qed (use assms(2) in simp_all)
  then show thesis using refused sent by blast
qed

definition early :: "pager_vmm_state \<Rightarrow> bool" where
  "early st \<longleftrightarrow> st \<in> {Vmm_New, Vmm_AwaitHelloAck, Vmm_ConfigureRegions, Vmm_AwaitReady}"

lemma vmm_control_cases:
  assumes "vmm_apply v c = (v', res)" and "\<not> issues c"
  obtains (refused) e where "v' = v" and "res = Err e"
  | (kept) f where "res = Ok f" and "requested_of (pf_message f) = None" and "vs_selected v' = vs_selected v"
      and "vs_regions v' = vs_regions v" and "vs_next_request v' = vs_next_request v" and "vs_state v' \<noteq> Vmm_Active"
      and "early (vs_state v') \<longrightarrow> early (vs_state v)"
      and "vs_outstanding v' = [] \<or> vs_outstanding v' = vs_outstanding v \<and> vs_state v \<noteq> Vmm_Active"
proof -
  show thesis
    using assms refused kept
    by (cases c; simp add: vmm_hello_def vmm_next_region_def vmm_start_def vmm_cancel_def vmm_shutdown_def vmm_terminal_def
        split: if_splits option.splits) (auto simp: vmm_frame_def early_def)
qed

text \<open>An answer is taken only when it repeats an outstanding request; anything else that is refused ends the session.\<close>

lemma vmm_receive_cases:
  assumes "vmm_receive v f = (v', res)"
  obtains (answer) q where "answered_of (pf_message f) = Some q" and "answer_fits (pf_message f)" and "vs_state v = Vmm_Active"
      and "map_of (vs_outstanding v) (pending_id q) = Some q" and "res = Ok f"
      and "v' = v\<lparr>vs_outstanding := AList.delete (pending_id q) (vs_outstanding v)\<rparr>"
  | (selected) l where "pf_message f = Msg_HelloAck l" and "vs_state v = Vmm_AwaitHelloAck" and "is_selection_for l (vs_offered v)"
      and "res = Ok f" and "v' = v\<lparr>vs_selected := Some l, vs_state := Vmm_ConfigureRegions\<rparr>"
  | (control) st where "answered_of (pf_message f) = None" and "res = Ok f" and "v' = v\<lparr>vs_state := st\<rparr>"
      and "st = Vmm_Active \<and> vs_state v = Vmm_AwaitReady \<or> st = Vmm_Closed \<and> vs_state v \<in> {Vmm_AwaitCancelled, Vmm_AwaitShutdownAck}"
  | (ended) "v' = v\<lparr>vs_outstanding := [], vs_state := Vmm_Terminal\<rparr>" and "answered_of (pf_message f) = None \<or> (\<exists>e. res = Err e)"
proof (cases "vmm_receive_inner v f")
  case (Ok w)
  then have v: "v' = w" "res = Ok f" using assms by (simp_all add: vmm_receive_def)
  show thesis
  proof (cases "pf_message f")
    case (Msg_HelloAck l)
    then show thesis using Ok v selected by (auto simp: vmm_receive_inner_def split: if_splits)
  next
    case Msg_Terminal
    then show thesis using Ok v ended by (auto simp: vmm_receive_inner_def split: if_splits)
  next
    case (Msg_PageData r data)
    then show thesis using Ok v answer [of "Pending_Page r"]
      by (auto simp: vmm_receive_inner_def complete_page_def and_then_Ok_iff ok_or_Ok_iff split: if_splits)
  next
    case (Msg_PageZero r)
    then show thesis using Ok v answer [of "Pending_Page r"]
      by (auto simp: vmm_receive_inner_def complete_page_def and_then_Ok_iff ok_or_Ok_iff split: if_splits)
  next
    case (Msg_Removed r)
    then show thesis using Ok v answer [of "Pending_Remove r"]
      by (auto simp: vmm_receive_inner_def complete_remove_def split: if_splits)
  qed (use Ok v control in \<open>auto simp: vmm_receive_inner_def split: if_splits\<close>)
next
  case (Err e)
  then show thesis using assms ended by (auto simp: vmm_receive_def)
next
  case Panic
  then show thesis
    by (auto simp: vmm_receive_inner_def complete_page_def complete_remove_def result_iffs split: if_splits pager_message.splits)
qed

section \<open>A VMM session against any peer\<close>

text \<open>
  The calls and the frames of an unrestricted peer, interleaved; beside the session, the requests sent and the answers
  taken, in order.
\<close>

inductive vmm_trace :: "vmm_session \<Rightarrow> pending_request list \<Rightarrow> pending_request list \<Rightarrow> vmm_session \<Rightarrow> bool" for v0 where
  trace_start: "vmm_trace v0 [] [] v0"
| trace_call: "vmm_trace v0 sent taken v \<Longrightarrow> vmm_apply v c = (v', res) \<Longrightarrow>
    requests = (case res of Ok f \<Rightarrow> (case requested_of (pf_message f) of Some q \<Rightarrow> [q] | None \<Rightarrow> []) | _ \<Rightarrow> []) \<Longrightarrow>
    vmm_trace v0 (sent @ requests) taken v'"
| trace_receive: "vmm_trace v0 sent taken v \<Longrightarrow> vmm_receive v f = (v', res) \<Longrightarrow>
    answers = (case res of Ok g \<Rightarrow> (case answered_of (pf_message g) of Some q \<Rightarrow> [q] | None \<Rightarrow> []) | _ \<Rightarrow> []) \<Longrightarrow>
    vmm_trace v0 sent (taken @ answers) v'"

definition request_placed :: "vmm_session \<Rightarrow> pending_request \<Rightarrow> bool" where
  "request_placed v q \<longleftrightarrow> (\<exists>selected region. vs_selected v = Some selected \<and> region \<in> set (vs_regions v) \<and>
     pr_id region = pending_region q \<and> pending_fits region (pl_page_size selected) q)"

definition outstanding_inv :: "(pager_request_id \<times> pending_request) list \<Rightarrow> bool" where
  "outstanding_inv out \<longleftrightarrow> distinct (map fst out) \<and> (\<forall>(k, q) \<in> set out. k = pending_id q)"

definition requests_inv :: "pending_request list \<Rightarrow> pending_request list \<Rightarrow> vmm_session \<Rightarrow> bool" where
  "requests_inv sent taken v \<longleftrightarrow>
     sorted_wrt (<) (map pending_id sent) \<and> (\<forall>q \<in> set sent. pending_id q < vs_next_request v \<and> request_placed v q) \<and>
     distinct taken \<and> set taken \<subseteq> set sent \<and> outstanding_inv (vs_outstanding v) \<and>
     snd ` set (vs_outstanding v) = (if vs_state v = Vmm_Active then set sent - set taken else {}) \<and>
     (\<forall>selected. vs_selected v = Some selected \<longrightarrow> length (vs_outstanding v) \<le> unat (pl_max_in_flight selected)) \<and>
     (early (vs_state v) \<longrightarrow> sent = [])"

lemma outstanding_inv_Nil [simp]: "outstanding_inv []"
  by (simp add: outstanding_inv_def)

lemma outstanding_lookup:
  assumes "outstanding_inv out"
  shows "map_of out (pending_id q) = Some q \<longleftrightarrow> q \<in> snd ` set out"
  using assms by (force simp: outstanding_inv_def map_of_eq_Some_iff)

lemma outstanding_update:
  assumes "outstanding_inv out" and "pending_id q \<notin> fst ` set out"
  shows "outstanding_inv (AList.update (pending_id q) q out)" and "AList.update (pending_id q) q out = out @ [(pending_id q, q)]"
proof -
  show eq: "AList.update (pending_id q) q out = out @ [(pending_id q, q)]"
    using assms(2) by (induction out) auto
  show "outstanding_inv (AList.update (pending_id q) q out)"
    using assms unfolding eq by (auto simp: outstanding_inv_def)
qed

lemma outstanding_delete: "outstanding_inv out \<Longrightarrow> outstanding_inv (AList.delete k out)"
  by (auto simp: outstanding_inv_def AList.delete_eq distinct_map intro: inj_on_subset)

lemma mset_outstanding_delete:
  "outstanding_inv out \<Longrightarrow> map_of out (pending_id q) = Some q \<Longrightarrow>
     mset (map snd out) = add_mset q (mset (map snd (AList.delete (pending_id q) out)))"
proof (induction out)
  case (Cons x out)
  obtain k y where x: "x = (k, y)" by fastforce
  have "outstanding_inv out" and "k \<notin> fst ` set out" using Cons.prems(1) unfolding x outstanding_inv_def by auto
  then show ?case using Cons.IH Cons.prems(2) x by auto
qed simp

lemma request_placed_issued:
  assumes "may_issue v q"
  shows "request_placed (issued v q) q" and "request_placed (issued v q) q' \<longleftrightarrow> request_placed v q'"
    and "x < vs_next_request v \<Longrightarrow> x < vs_next_request (issued v q)" and "pending_id q < vs_next_request (issued v q)"
proof -
  show "request_placed (issued v q) q"
    using assms by (auto simp: may_issue_def request_placed_def issued_def find_Some_iff dest: nth_mem)
  show "request_placed (issued v q) q' \<longleftrightarrow> request_placed v q'" by (simp add: request_placed_def issued_def)
  have "unat (vs_next_request v + 1) = unat (vs_next_request v) + 1"
    using assms unat_add_no_overflow [of "vs_next_request v" 1] by (simp add: may_issue_def)
  then show "x < vs_next_request v \<Longrightarrow> x < vs_next_request (issued v q)" and "pending_id q < vs_next_request (issued v q)"
    using assms by (simp_all add: issued_def may_issue_def word_less_nat_alt)
qed

lemma requests_inv_new:
  assumes "requests_inv sent taken v"
  shows "vs_next_request v \<notin> fst ` set (vs_outstanding v)"
proof
  assume "vs_next_request v \<in> fst ` set (vs_outstanding v)"
  then obtain q where q: "(vs_next_request v, q) \<in> set (vs_outstanding v)" by force
  then have "q \<in> snd ` set (vs_outstanding v)" "pending_id q = vs_next_request v"
    using assms by (force, auto simp: requests_inv_def outstanding_inv_def)
  moreover have "snd ` set (vs_outstanding v) \<subseteq> set sent" using assms by (simp add: requests_inv_def split: if_splits)
  moreover have "\<forall>q \<in> set sent. pending_id q < vs_next_request v" using assms by (simp add: requests_inv_def)
  ultimately show False by force
qed

lemma requests_inv_call:
  assumes "requests_inv sent taken v" and "vmm_apply v c = (v', res)"
    and "requests = (case res of Ok f \<Rightarrow> (case requested_of (pf_message f) of Some q \<Rightarrow> [q] | None \<Rightarrow> []) | _ \<Rightarrow> [])"
  shows "requests_inv (sent @ requests) taken v'"
proof (cases "issues c")
  case False
  from assms(2) False show ?thesis
  proof (cases rule: vmm_control_cases)
    case refused
    then show ?thesis using assms(1,3) by simp
  next
    case (kept f)
    then show ?thesis using assms(1,3) by (auto simp: requests_inv_def request_placed_def)
  qed
next
  case True
  have new: "vs_next_request v \<notin> fst ` set (vs_outstanding v)" using requests_inv_new [OF assms(1)] .
  from assms(2) True new show ?thesis
  proof (cases rule: vmm_issue_cases)
    case refused
    then show ?thesis using assms(1,3) by simp
  next
    case (sent q)
    have r: "requests = [q]" using assms(3) sent(3) by (cases q) (simp_all add: vmm_frame_def)
    note placed = request_placed_issued [OF sent(1)]
    have old: "q \<notin> set sent" using assms(1) sent(1) by (auto simp: requests_inv_def may_issue_def)
    have out: "outstanding_inv (vs_outstanding (issued v q))" "vs_outstanding (issued v q) = vs_outstanding v @ [(pending_id q, q)]"
      using outstanding_update [of "vs_outstanding v" q] assms(1) new sent(1) by (simp_all add: requests_inv_def issued_def may_issue_def)
    have "vs_state v = Vmm_Active" "vs_state (issued v q) = Vmm_Active" "vs_selected (issued v q) = vs_selected v"
      using sent(1) by (simp_all add: may_issue_def issued_def)
    moreover have "\<exists>l. vs_selected v = Some l \<and> length (vs_outstanding v) < unat (pl_max_in_flight l)" "pending_id q = vs_next_request v"
      using sent(1) by (auto simp: may_issue_def)
    ultimately show ?thesis
      using assms(1) old out placed unfolding r sent(2) requests_inv_def
      by (auto simp: sorted_wrt_append early_def)
  qed
qed

lemma requests_inv_receive:
  assumes "requests_inv sent taken v" and "vmm_receive v f = (v', res)"
    and "answers = (case res of Ok g \<Rightarrow> (case answered_of (pf_message g) of Some q \<Rightarrow> [q] | None \<Rightarrow> []) | _ \<Rightarrow> [])"
  shows "requests_inv sent (taken @ answers) v'"
  using assms(2)
proof (cases rule: vmm_receive_cases)
  case (answer q)
  let ?out = "AList.delete (pending_id q) (vs_outstanding v)"
  have inv: "outstanding_inv (vs_outstanding v)" "snd ` set (vs_outstanding v) = set sent - set taken"
    using assms(1) answer(3) by (simp_all add: requests_inv_def)
  have q: "q \<in> set sent - set taken" using outstanding_lookup [OF inv(1)] inv(2) answer(4) by blast
  note del = outstanding_delete [OF inv(1), of "pending_id q"] mset_outstanding_delete [OF inv(1) answer(4)]
  have "q' \<in> snd ` set ?out \<longleftrightarrow> q' \<in> snd ` set (vs_outstanding v) \<and> q' \<noteq> q" for q'
    using outstanding_lookup [OF del(1), of q'] outstanding_lookup [OF inv(1), of q'] answer(4)
    by (cases "pending_id q' = pending_id q") (auto simp: AList.delete_conv')
  then have "snd ` set ?out = set sent - set (taken @ [q])" unfolding inv(2) by auto
  moreover have "answers = [q]" using assms(3) answer(1,5) by simp
  ultimately show ?thesis
    using assms(1) q del(1) answer(3) length_delete_le [of "pending_id q" "vs_outstanding v"] unfolding answer(6)
    by (auto simp: requests_inv_def request_placed_def)
next
  case (selected l)
  then show ?thesis using assms(1,3) by (auto simp: requests_inv_def early_def)
next
  case (control st)
  then show ?thesis using assms(1,3) by (auto simp: requests_inv_def request_placed_def early_def)
next
  case ended
  moreover have "res = Ok g \<Longrightarrow> g = f" for g using assms(2) by (auto simp: vmm_receive_def split: result.splits)
  ultimately have "answers = []" using assms(3) by (cases res) auto
  then show ?thesis using ended assms(1) by (auto simp: requests_inv_def request_placed_def early_def)
qed

lemma vmm_trace_inv:
  assumes "vmm_new session offered regions = Ok v0" and "vmm_trace v0 sent taken v"
  shows "requests_inv sent taken v"
  using assms(2)
proof induction
  case trace_start
  then show ?case using assms(1) by (auto simp: vmm_new_def and_then_Ok_iff requests_inv_def)
next
  case (trace_call sent taken v c v' res requests)
  from requests_inv_call [OF trace_call(4,2,3)] show ?case .
next
  case (trace_receive sent taken v f v' res answers)
  from requests_inv_receive [OF trace_receive(4,2,3)] show ?case .
qed

text \<open>
  C12: Whatever the peer sends and whenever, the requests of a VMM session carry strictly increasing identities and lie
  inside a configured region; no request is answered twice, and only requests that were sent are answered; while the
  session is active the outstanding requests are exactly those sent and not yet answered, in any other state there are
  none, and their number never exceeds the limit the peer selected.
\<close>

theorem vmm_requests_answered_once:
  assumes "vmm_new session offered regions = Ok v0" and "vmm_trace v0 sent taken v"
  shows "sorted_wrt (<) (map pending_id sent) \<and> (\<forall>q \<in> set sent. request_placed v q) \<and>
    distinct taken \<and> set taken \<subseteq> set sent \<and>
    snd ` set (vs_outstanding v) = (if vs_state v = Vmm_Active then set sent - set taken else {}) \<and>
    (\<forall>selected. vs_selected v = Some selected \<longrightarrow> length (vs_outstanding v) \<le> unat (pl_max_in_flight selected))"
  using vmm_trace_inv [OF assms] by (simp add: requests_inv_def)

end
