(* ===== verification/Pager_Link.thy ===== *)
theory Pager_Link
  imports Pager_Requests
begin

text \<open>
  The two sessions connected over two ordered channels. As long as nobody cancels or terminates, neither session ever
  refuses a frame of the other, and an orderly shutdown leaves both closed with nothing outstanding.
\<close>

section \<open>Two connected sessions\<close>

datatype peer_call =
    Call_HelloAck pager_limits | Call_Ready | Call_PageData pager_request_id "u8 list" | Call_PageZero pager_request_id
  | Call_Removed pager_request_id | Call_Cancelled | Call_ShutdownAck | Call_PeerTerminal terminal_code

fun peer_apply :: "peer_session \<Rightarrow> peer_call \<Rightarrow> peer_outcome" where
  "peer_apply p (Call_HelloAck selected) = peer_hello_ack p selected"
| "peer_apply p Call_Ready = peer_ready p"
| "peer_apply p (Call_PageData request data) = peer_page_data p request data"
| "peer_apply p (Call_PageZero request) = peer_page_zero p request"
| "peer_apply p (Call_Removed request) = peer_removed p request"
| "peer_apply p Call_Cancelled = peer_cancelled p"
| "peer_apply p Call_ShutdownAck = peer_shutdown_ack p"
| "peer_apply p (Call_PeerTerminal code) = peer_terminal p code"

text \<open>
  A connection: the two sessions and the frames on their way in each direction, oldest first. A call that yields a frame
  sends it; a delivery hands the oldest frame to the other side.
\<close>

record pager_link =
  lk_vmm :: vmm_session
  lk_peer :: peer_session
  lk_to_peer :: "pager_frame list"
  lk_to_vmm :: "pager_frame list"

datatype link_action = Vmm_Does vmm_call | Peer_Does peer_call | Deliver_To_Peer | Deliver_To_Vmm

fun sent_frames :: "(pager_frame, pager_error) result \<Rightarrow> pager_frame list" where
  "sent_frames (Ok f) = [f]"
| "sent_frames _ = []"

fun link_apply :: "pager_link \<Rightarrow> link_action \<Rightarrow> pager_link" where
  "link_apply l (Vmm_Does c) =
     (case vmm_apply (lk_vmm l) c of (v, res) \<Rightarrow> l\<lparr>lk_vmm := v, lk_to_peer := lk_to_peer l @ sent_frames res\<rparr>)"
| "link_apply l (Peer_Does c) =
     (case peer_apply (lk_peer l) c of (p, res) \<Rightarrow> l\<lparr>lk_peer := p, lk_to_vmm := lk_to_vmm l @ sent_frames res\<rparr>)"
| "link_apply l Deliver_To_Peer =
     (case lk_to_peer l of [] \<Rightarrow> l | f # fs \<Rightarrow> l\<lparr>lk_peer := fst (peer_receive (lk_peer l) f), lk_to_peer := fs\<rparr>)"
| "link_apply l Deliver_To_Vmm =
     (case lk_to_vmm l of [] \<Rightarrow> l | f # fs \<Rightarrow> l\<lparr>lk_vmm := fst (vmm_receive (lk_vmm l) f), lk_to_vmm := fs\<rparr>)"

definition link_start :: "vmm_session \<Rightarrow> pager_link" where
  "link_start v = \<lparr>lk_vmm = v, lk_peer = peer_new, lk_to_peer = [], lk_to_vmm = []\<rparr>"

definition link_run :: "pager_link \<Rightarrow> link_action list \<Rightarrow> pager_link" where
  "link_run l acts = foldl link_apply l acts"

text \<open>Neither side breaks the session off.\<close>

fun orderly :: "link_action \<Rightarrow> bool" where
  "orderly (Vmm_Does (Call_Cancel reason)) = False"
| "orderly (Vmm_Does (Call_Terminal code)) = False"
| "orderly (Peer_Does (Call_PeerTerminal code)) = False"
| "orderly _ = True"

text \<open>The sessions in each phase of the protocol, given the offer.\<close>

definition vmm_at :: "pager_session_id \<Rightarrow> pager_limits \<Rightarrow> pager_region list \<Rightarrow> pager_limits option \<Rightarrow> nat \<Rightarrow> pager_vmm_state \<Rightarrow>
    u64 \<Rightarrow> (pager_request_id \<times> pending_request) list \<Rightarrow> vmm_session" where
  "vmm_at s off regs sel n st nxt out =
     \<lparr>vs_session = s, vs_offered = off, vs_selected = sel, vs_regions = regs, vs_next_region = n, vs_state = st,
      vs_next_request = nxt, vs_outstanding = out\<rparr>"

definition peer_at :: "pager_session_id \<Rightarrow> pager_limits \<Rightarrow> pager_limits option \<Rightarrow> pager_region list \<Rightarrow> pager_peer_state \<Rightarrow>
    u64 \<Rightarrow> (pager_request_id \<times> pending_request) list \<Rightarrow> peer_session" where
  "peer_at s off sel regs st last_request out =
     \<lparr>ps_session = Some s, ps_offered = Some off, ps_selected = sel, ps_regions = map (\<lambda>r. (pr_id r, r)) regs, ps_state = st,
      ps_last_request = last_request, ps_outstanding = out\<rparr>"

abbreviation framed :: "pager_session_id \<Rightarrow> pager_message \<Rightarrow> pager_frame" where
  "framed s m \<equiv> \<lparr>pf_session = s, pf_message = m\<rparr>"

definition answers_well :: "pager_session_id \<Rightarrow> pager_frame \<Rightarrow> bool" where
  "answers_well s f \<longleftrightarrow> pf_session f = s \<and> answered_of (pf_message f) \<noteq> None \<and> answer_fits (pf_message f)"

text \<open>
  While both sides are active every outstanding request of the VMM is in exactly one place: on its way to the peer,
  outstanding there, or answered by a frame on its way back.
\<close>

definition requests_split :: "pager_session_id \<Rightarrow> pager_limits \<Rightarrow> vmm_session \<Rightarrow> peer_session \<Rightarrow>
    pending_request list \<Rightarrow> pager_frame list \<Rightarrow> bool" where
  "requests_split s sel v p qs tv \<longleftrightarrow>
     outstanding_inv (vs_outstanding v) \<and> outstanding_inv (ps_outstanding p) \<and>
     mset (map snd (vs_outstanding v)) =
       mset qs + mset (map snd (ps_outstanding p)) + mset (map (\<lambda>f. the (answered_of (pf_message f))) tv) \<and>
     list_all (answers_well s) tv \<and> sorted_wrt (<) (map pending_id qs) \<and>
     (\<forall>q \<in> set qs. ps_last_request p < pending_id q \<and>
        (\<exists>region. map_of (ps_regions p) (pending_region q) = Some region \<and> pending_fits region (pl_page_size sel) q)) \<and>
     (\<forall>q \<in> snd ` set (vs_outstanding v). pending_id q < vs_next_request v) \<and>
     ps_last_request p < vs_next_request v \<and>
     length (vs_outstanding v) \<le> unat (pl_max_in_flight sel)"

inductive link_phase :: "pager_session_id \<Rightarrow> pager_limits \<Rightarrow> pager_region list \<Rightarrow> pager_link \<Rightarrow> bool" for s off regs where
  phase_new: "link_phase s off regs (link_start (vmm_at s off regs None 0 Vmm_New 1 []))"
| phase_hello: "link_phase s off regs \<lparr>lk_vmm = vmm_at s off regs None 0 Vmm_AwaitHelloAck 1 [], lk_peer = peer_new,
    lk_to_peer = [framed s (Msg_Hello off)], lk_to_vmm = []\<rparr>"
| phase_select: "link_phase s off regs \<lparr>lk_vmm = vmm_at s off regs None 0 Vmm_AwaitHelloAck 1 [],
    lk_peer = peer_at s off None [] Peer_SelectLimits 0 [], lk_to_peer = [], lk_to_vmm = []\<rparr>"
| phase_selected: "is_selection_for sel off \<Longrightarrow> link_phase s off regs \<lparr>lk_vmm = vmm_at s off regs None 0 Vmm_AwaitHelloAck 1 [],
    lk_peer = peer_at s off (Some sel) [] Peer_ConfigureRegions 0 [], lk_to_peer = [], lk_to_vmm = [framed s (Msg_HelloAck sel)]\<rparr>"
| phase_regions: "is_selection_for sel off \<Longrightarrow> k \<le> n \<Longrightarrow> n \<le> length regs \<Longrightarrow>
    link_phase s off regs \<lparr>lk_vmm = vmm_at s off regs (Some sel) n Vmm_ConfigureRegions 1 [],
      lk_peer = peer_at s off (Some sel) (take k regs) Peer_ConfigureRegions 0 [],
      lk_to_peer = map (\<lambda>r. framed s (Msg_Region r)) (drop k (take n regs)), lk_to_vmm = []\<rparr>"
| phase_start: "is_selection_for sel off \<Longrightarrow> k \<le> length regs \<Longrightarrow>
    link_phase s off regs \<lparr>lk_vmm = vmm_at s off regs (Some sel) (length regs) Vmm_AwaitReady 1 [],
      lk_peer = peer_at s off (Some sel) (take k regs) Peer_ConfigureRegions 0 [],
      lk_to_peer = map (\<lambda>r. framed s (Msg_Region r)) (drop k regs) @ [framed s Msg_Start], lk_to_vmm = []\<rparr>"
| phase_confirm: "is_selection_for sel off \<Longrightarrow>
    link_phase s off regs \<lparr>lk_vmm = vmm_at s off regs (Some sel) (length regs) Vmm_AwaitReady 1 [],
      lk_peer = peer_at s off (Some sel) regs Peer_ReadyToConfirm 0 [], lk_to_peer = [], lk_to_vmm = []\<rparr>"
| phase_ready: "is_selection_for sel off \<Longrightarrow>
    link_phase s off regs \<lparr>lk_vmm = vmm_at s off regs (Some sel) (length regs) Vmm_AwaitReady 1 [],
      lk_peer = peer_at s off (Some sel) regs Peer_Active 0 [], lk_to_peer = [], lk_to_vmm = [framed s Msg_Ready]\<rparr>"
| phase_active: "is_selection_for sel off \<Longrightarrow> v = vmm_at s off regs (Some sel) (length regs) Vmm_Active nxt out \<Longrightarrow>
    p = peer_at s off (Some sel) regs Peer_Active last_request pout \<Longrightarrow> requests_split s sel v p qs tv \<Longrightarrow>
    link_phase s off regs \<lparr>lk_vmm = v, lk_peer = p, lk_to_peer = map (\<lambda>q. framed s (pending_message q)) qs, lk_to_vmm = tv\<rparr>"
| phase_shutdown: "link_phase s off regs \<lparr>lk_vmm = vmm_at s off regs (Some sel) (length regs) Vmm_AwaitShutdownAck nxt [],
    lk_peer = peer_at s off (Some sel) regs Peer_Active last_request [], lk_to_peer = [framed s Msg_Shutdown], lk_to_vmm = []\<rparr>"
| phase_drained: "link_phase s off regs \<lparr>lk_vmm = vmm_at s off regs (Some sel) (length regs) Vmm_AwaitShutdownAck nxt [],
    lk_peer = peer_at s off (Some sel) regs Peer_ReadyToShutdown last_request [], lk_to_peer = [], lk_to_vmm = []\<rparr>"
| phase_acked: "link_phase s off regs \<lparr>lk_vmm = vmm_at s off regs (Some sel) (length regs) Vmm_AwaitShutdownAck nxt [],
    lk_peer = peer_at s off (Some sel) regs Peer_Closed last_request [], lk_to_peer = [], lk_to_vmm = [framed s Msg_ShutdownAck]\<rparr>"
| phase_closed: "link_phase s off regs \<lparr>lk_vmm = vmm_at s off regs (Some sel) (length regs) Vmm_Closed nxt [],
    lk_peer = peer_at s off (Some sel) regs Peer_Closed last_request [], lk_to_peer = [], lk_to_vmm = []\<rparr>"

lemma vmm_at_simps [simp]:
  "vs_session (vmm_at s off regs sel n st nxt out) = s" "vs_offered (vmm_at s off regs sel n st nxt out) = off"
  "vs_selected (vmm_at s off regs sel n st nxt out) = sel" "vs_regions (vmm_at s off regs sel n st nxt out) = regs"
  "vs_next_region (vmm_at s off regs sel n st nxt out) = n" "vs_state (vmm_at s off regs sel n st nxt out) = st"
  "vs_next_request (vmm_at s off regs sel n st nxt out) = nxt" "vs_outstanding (vmm_at s off regs sel n st nxt out) = out"
  "vmm_at s off regs sel n st nxt out\<lparr>vs_selected := sel'\<rparr> = vmm_at s off regs sel' n st nxt out"
  "vmm_at s off regs sel n st nxt out\<lparr>vs_next_region := n'\<rparr> = vmm_at s off regs sel n' st nxt out"
  "vmm_at s off regs sel n st nxt out\<lparr>vs_state := st'\<rparr> = vmm_at s off regs sel n st' nxt out"
  "vmm_at s off regs sel n st nxt out\<lparr>vs_next_request := nxt'\<rparr> = vmm_at s off regs sel n st nxt' out"
  "vmm_at s off regs sel n st nxt out\<lparr>vs_outstanding := out'\<rparr> = vmm_at s off regs sel n st nxt out'"
  by (simp_all add: vmm_at_def)

lemma peer_at_simps [simp]:
  "ps_session (peer_at s off sel regs st i out) = Some s" "ps_offered (peer_at s off sel regs st i out) = Some off"
  "ps_selected (peer_at s off sel regs st i out) = sel" "ps_regions (peer_at s off sel regs st i out) = map (\<lambda>r. (pr_id r, r)) regs"
  "ps_state (peer_at s off sel regs st i out) = st" "ps_last_request (peer_at s off sel regs st i out) = i"
  "ps_outstanding (peer_at s off sel regs st i out) = out"
  "peer_at s off sel regs st i out\<lparr>ps_selected := sel'\<rparr> = peer_at s off sel' regs st i out"
  "peer_at s off sel regs st i out\<lparr>ps_state := st'\<rparr> = peer_at s off sel regs st' i out"
  "peer_at s off sel regs st i out\<lparr>ps_last_request := i'\<rparr> = peer_at s off sel regs st i' out"
  "peer_at s off sel regs st i out\<lparr>ps_outstanding := out'\<rparr> = peer_at s off sel regs st i out'"
  by (simp_all add: peer_at_def)

text \<open>What \<open>validate_regions\<close> establishes, in the form the peer checks it region by region.\<close>

lemma unique_identities_iff:
  "unique_identities ids rs \<longleftrightarrow> distinct (map pr_id rs) \<and> fst ` set ids \<inter> pr_id ` set rs = {}"
proof (induction rs arbitrary: ids)
  case (Cons r rs)
  have "fst ` set (AList.update (pr_id r) r ids) = insert (pr_id r) (fst ` set ids)" by (simp add: dom_update)
  then show ?case using Cons by (auto simp: map_of_eq_None_iff)
qed simp

lemma disjoint_sources_append:
  "disjoint_sources (xs @ r # ys) \<Longrightarrow> x \<in> set xs \<Longrightarrow> \<not> source_ranges_overlap x r"
  by (induction xs) (auto simp: list_ex_iff)

lemma validated_regions:
  assumes "validate_regions off regs = Ok ()"
  shows "length regs = unat (pl_region_count off)" and "r \<in> set regs \<Longrightarrow> region_is_valid_for r (pl_page_size off)"
    and "distinct (map pr_id regs)" and "disjoint_sources regs"
  using assms by (auto simp: validate_regions_def unique_identities_iff list_ex_iff split: if_splits)

lemma update_new: "k \<notin> fst ` set al \<Longrightarrow> AList.update k x al = al @ [(k, x)]"
  by (induction al) auto

lemma accept_next_region:
  assumes "validate_regions off regs = Ok ()" and "is_selection_for sel off" and "k < length regs"
  shows "accept_region (peer_at s off (Some sel) (take k regs) st i out) (regs ! k) =
    Ok (peer_at s off (Some sel) (take (Suc k) regs) st i out)"
proof -
  note valid = validated_regions [OF assms(1)]
  have split: "regs = take k regs @ regs ! k # drop (Suc k) regs" using assms(3) by (simp add: id_take_nth_drop)
  have disj: "\<not> list_ex (\<lambda>(_, existing). source_ranges_overlap existing (regs ! k)) (map (\<lambda>r. (pr_id r, r)) (take k regs))"
    using disjoint_sources_append [of "take k regs" "regs ! k" "drop (Suc k) regs"] valid(4) split by (auto simp: list_ex_iff)
  have "distinct (map pr_id (take k regs @ regs ! k # drop (Suc k) regs))" using valid(3) split by simp
  then have new: "pr_id (regs ! k) \<notin> fst ` set (map (\<lambda>r. (pr_id r, r)) (take k regs))" by (auto simp: image_image)
  then have "map_of (map (\<lambda>r. (pr_id r, r)) (take k regs)) (pr_id (regs ! k)) = None" by (simp only: map_of_eq_None_iff) simp
  moreover have "region_is_valid_for (regs ! k) (pl_page_size sel)" using valid(2) assms(2,3) by (simp add: is_selection_for_def)
  moreover have "\<not> unat (pl_region_count sel) \<le> min (length regs) k" using valid(1) assms(2,3) by (simp add: is_selection_for_def)
  ultimately show ?thesis
    using disj update_new [OF new] by (simp add: accept_region_def peer_at_def take_Suc_conv_app_nth [OF assms(3)])
qed

lemmas vmm_call_defs = vmm_hello_def vmm_next_region_def vmm_start_def vmm_request_page_def vmm_remove_def
  require_active_capacity_def vmm_shutdown_def vmm_frame_def vec_get_def
lemmas peer_call_defs = peer_hello_ack_def peer_ready_def peer_page_data_def peer_page_zero_def peer_removed_def
  peer_cancelled_def peer_shutdown_ack_def peer_frame_def

section \<open>The active phase\<close>

lemma map_of_regions: "map_of (map (\<lambda>r. (pr_id r, r)) rs) i = find (\<lambda>r. pr_id r = i) rs"
  by (induction rs) auto

lemma outstanding_keys: "outstanding_inv out \<Longrightarrow> map fst out = map pending_id (map snd out)"
  by (auto simp: outstanding_inv_def)

lemma split_places:
  assumes "requests_split s sel v p qs tv"
  shows "length (vs_outstanding v) = length qs + length (ps_outstanding p) + length tv"
    and "distinct (map pending_id (qs @ map snd (ps_outstanding p) @ map (\<lambda>f. the (answered_of (pf_message f))) tv))"
    and "set qs \<union> snd ` set (ps_outstanding p) \<union> (\<lambda>f. the (answered_of (pf_message f))) ` set tv = snd ` set (vs_outstanding v)"
proof -
  let ?places = "qs @ map snd (ps_outstanding p) @ map (\<lambda>f. the (answered_of (pf_message f))) tv"
  have m: "mset (map snd (vs_outstanding v)) = mset ?places" and inv: "outstanding_inv (vs_outstanding v)"
    using assms by (simp_all add: requests_split_def)
  show "length (vs_outstanding v) = length qs + length (ps_outstanding p) + length tv"
    using mset_eq_length [OF m] by simp
  have "distinct (map pending_id (map snd (vs_outstanding v)))"
    using inv unfolding outstanding_keys [OF inv, symmetric] by (simp add: outstanding_inv_def)
  moreover have "mset (map pending_id (map snd (vs_outstanding v))) = mset (map pending_id ?places)"
    using m by (simp only: mset_map)
  ultimately show "distinct (map pending_id ?places)" using mset_eq_imp_distinct_iff by blast
  show "set qs \<union> snd ` set (ps_outstanding p) \<union> (\<lambda>f. the (answered_of (pf_message f))) ` set tv = snd ` set (vs_outstanding v)"
    using mset_eq_setD [OF m] by auto
qed

lemma split_issue:
  assumes "requests_split s sel v p qs tv" and "may_issue v q" and "vs_selected v = Some sel"
    and "ps_regions p = map (\<lambda>r. (pr_id r, r)) (vs_regions v)"
  shows "requests_split s sel (issued v q) p (qs @ [q]) tv"
proof -
  have old: "\<forall>q \<in> snd ` set (vs_outstanding v). pending_id q < vs_next_request v" and inv: "outstanding_inv (vs_outstanding v)"
    using assms(1) by (simp_all add: requests_split_def)
  have num: "pending_id q = vs_next_request v" using assms(2) by (simp add: may_issue_def)
  have "k \<noteq> pending_id q" if "(k, q') \<in> set (vs_outstanding v)" for k q'
    using that old inv num by (force simp: outstanding_inv_def)
  then have new: "pending_id q \<notin> fst ` set (vs_outstanding v)" by fastforce
  note out = outstanding_update [OF inv new]
  have "set qs \<subseteq> snd ` set (vs_outstanding v)" using split_places(3) [OF assms(1)] by auto
  then have qs: "\<forall>q' \<in> set qs. pending_id q' < pending_id q" using old unfolding num by blast
  have fits: "\<exists>region. map_of (ps_regions p) (pending_region q) = Some region \<and> pending_fits region (pl_page_size sel) q"
    and room: "length (vs_outstanding v) < unat (pl_max_in_flight sel)"
    using assms(2,3,4) by (auto simp: may_issue_def map_of_regions)
  note grow = request_placed_issued(3,4) [OF assms(2)]
  have "vs_outstanding (issued v q) = vs_outstanding v @ [(pending_id q, q)]" "outstanding_inv (vs_outstanding (issued v q))"
    using out by (simp_all add: issued_def)
  then show ?thesis
    using assms(1) num qs fits room grow unfolding requests_split_def by (auto simp: sorted_wrt_append)
qed

lemma split_answer:
  assumes "requests_split s sel v p qs tv" and "map_of (ps_outstanding p) (pending_id q) = Some q"
    and "answered_of m = Some q" and "answer_fits m"
  shows "requests_split s sel v (p\<lparr>ps_outstanding := AList.delete (pending_id q) (ps_outstanding p)\<rparr>) qs (tv @ [framed s m])"
proof -
  have inv: "outstanding_inv (ps_outstanding p)" using assms(1) by (simp add: requests_split_def)
  show ?thesis
    using assms(1,3,4) outstanding_delete [OF inv, of "pending_id q"] mset_outstanding_delete [OF inv assms(2)]
    by (simp add: requests_split_def answers_well_def)
qed

lemma split_take:
  assumes "requests_split s sel v p qs (f # tv)" and "answered_of (pf_message f) = Some q"
  shows "map_of (vs_outstanding v) (pending_id q) = Some q" and "answer_fits (pf_message f)" and "pf_session f = s"
    and "requests_split s sel (v\<lparr>vs_outstanding := AList.delete (pending_id q) (vs_outstanding v)\<rparr>) p qs tv"
proof -
  have inv: "outstanding_inv (vs_outstanding v)" using assms(1) by (simp add: requests_split_def)
  show q: "map_of (vs_outstanding v) (pending_id q) = Some q"
    using split_places(3) [OF assms(1)] assms(2) by (auto simp: outstanding_lookup [OF inv])
  show "answer_fits (pf_message f)" "pf_session f = s" using assms(1) by (simp_all add: requests_split_def answers_well_def)
  have "set (AList.delete (pending_id q) (vs_outstanding v)) \<subseteq> set (vs_outstanding v)" by (auto simp: AList.delete_eq)
  then have sub: "\<forall>q' \<in> snd ` set (AList.delete (pending_id q) (vs_outstanding v)). pending_id q' < vs_next_request v"
    using assms(1) by (auto simp: requests_split_def)
  show "requests_split s sel (v\<lparr>vs_outstanding := AList.delete (pending_id q) (vs_outstanding v)\<rparr>) p qs tv"
    using assms outstanding_delete [OF inv, of "pending_id q"] mset_outstanding_delete [OF inv q] sub
      length_delete_le [of "pending_id q" "vs_outstanding v"]
    unfolding requests_split_def by simp
qed

lemma split_arrive:
  assumes "requests_split s sel v p (q # qs) tv"
  shows "ps_last_request p < pending_id q" and "length (ps_outstanding p) < unat (pl_max_in_flight sel)"
    and "\<exists>region. map_of (ps_regions p) (pending_region q) = Some region \<and> pending_fits region (pl_page_size sel) q"
    and "requests_split s sel v (p\<lparr>ps_last_request := pending_id q,
           ps_outstanding := AList.update (pending_id q) q (ps_outstanding p)\<rparr>) qs tv"
proof -
  show "ps_last_request p < pending_id q"
    and "\<exists>region. map_of (ps_regions p) (pending_region q) = Some region \<and> pending_fits region (pl_page_size sel) q"
    using assms by (simp_all add: requests_split_def)
  show "length (ps_outstanding p) < unat (pl_max_in_flight sel)"
    using split_places(1) [OF assms] assms by (simp add: requests_split_def)
  have inv: "outstanding_inv (ps_outstanding p)" using assms by (simp add: requests_split_def)
  have "fst ` set (ps_outstanding p) = pending_id ` set (map snd (ps_outstanding p))"
    using arg_cong [OF outstanding_keys [OF inv], of set] by (simp only: set_map)
  then have "pending_id q \<notin> fst ` set (ps_outstanding p)" using split_places(2) [OF assms] by auto
  note out = outstanding_update [OF inv this]
  have "q \<in> snd ` set (vs_outstanding v)" using split_places(3) [OF assms] by auto
  moreover have "\<forall>q \<in> snd ` set (vs_outstanding v). pending_id q < vs_next_request v" using assms by (simp add: requests_split_def)
  ultimately have "pending_id q < vs_next_request v" by blast
  then show "requests_split s sel v (p\<lparr>ps_last_request := pending_id q,
      ps_outstanding := AList.update (pending_id q) q (ps_outstanding p)\<rparr>) qs tv"
    using assms out unfolding requests_split_def by (simp add: out(2))
qed

lemma peer_accepts_request:
  assumes "requests_split s sel v p (q # qs) tv" and "ps_session p = Some s" and "ps_selected p = Some sel" and "ps_state p = Peer_Active"
  shows "peer_receive p (framed s (pending_message q)) =
    (p\<lparr>ps_last_request := pending_id q, ps_outstanding := AList.update (pending_id q) q (ps_outstanding p)\<rparr>,
     Ok (framed s (pending_message q)))"
proof -
  note arrive = split_arrive [OF assms(1)]
  then obtain region where "map_of (ps_regions p) (pending_region q) = Some region" "pending_fits region (pl_page_size sel) q" by blast
  then show ?thesis
    using arrive(1,2) assms(2-4)
    by (cases q) (simp_all add: peer_receive_def peer_receive_inner_def accept_page_def accept_remove_def
        accept_request_id_and_capacity_def not_le)
qed

lemma vmm_accepts_answer:
  assumes "requests_split s sel v p qs (f # tv)" and "vs_session v = s" and "vs_state v = Vmm_Active"
  obtains q where "vmm_receive v f = (v\<lparr>vs_outstanding := AList.delete (pending_id q) (vs_outstanding v)\<rparr>, Ok f)"
    and "requests_split s sel (v\<lparr>vs_outstanding := AList.delete (pending_id q) (vs_outstanding v)\<rparr>) p qs tv"
proof -
  obtain q where q: "answered_of (pf_message f) = Some q" using assms(1) by (auto simp: requests_split_def answers_well_def)
  note taken = split_take [OF assms(1) q]
  have "vmm_receive v f = (v\<lparr>vs_outstanding := AList.delete (pending_id q) (vs_outstanding v)\<rparr>, Ok f)"
    using q taken(1-3) assms(2,3)
    by (cases "pf_message f") (auto simp: vmm_receive_def vmm_receive_inner_def complete_page_def complete_remove_def)
  then show thesis using that taken(4) by blast
qed

fun answers :: "peer_call \<Rightarrow> bool" where
  "answers (Call_PageData request data) = True"
| "answers (Call_PageZero request) = True"
| "answers (Call_Removed request) = True"
| "answers _ = False"

lemma peer_answer_cases:
  assumes "peer_apply p c = (p', res)" and "answers c" and "ps_session p = Some s" and "outstanding_inv (ps_outstanding p)"
  obtains (refused) e where "p' = p" and "res = Err e"
  | (answered) q m where "map_of (ps_outstanding p) (pending_id q) = Some q" and "answered_of m = Some q" and "answer_fits m"
      and "p' = p\<lparr>ps_outstanding := AList.delete (pending_id q) (ps_outstanding p)\<rparr>" and "res = Ok (framed s m)"
proof -
  have key: "request = pending_id q" if "map_of (ps_outstanding p) request = Some q" for request q
    using assms(4) map_of_SomeD [OF that] by (auto simp: outstanding_inv_def)
  let ?answered = "\<lambda>q m. map_of (ps_outstanding p) (pending_id q) = Some q \<and> answered_of m = Some q \<and> answer_fits m \<and>
    p' = p\<lparr>ps_outstanding := AList.delete (pending_id q) (ps_outstanding p)\<rparr> \<and> res = Ok (framed s m)"
  note defs = peer_page_data_def peer_page_zero_def peer_removed_def peer_frame_def
  have "(\<exists>e. p' = p \<and> res = Err e) \<or> (\<exists>q m. ?answered q m)"
  proof (cases c)
    case (Call_PageData request data)
    have "(\<exists>e. p' = p \<and> res = Err e) \<or> (\<exists>r. ?answered (Pending_Page r) (Msg_PageData r data))"
      using assms(1,3) Call_PageData key
      by (cases "map_of (ps_outstanding p) request") (fastforce simp: defs split: if_splits pending_request.splits)+
    then show ?thesis by blast
  next
    case (Call_PageZero request)
    have "(\<exists>e. p' = p \<and> res = Err e) \<or> (\<exists>r. ?answered (Pending_Page r) (Msg_PageZero r))"
      using assms(1,3) Call_PageZero key
      by (cases "map_of (ps_outstanding p) request") (fastforce simp: defs split: if_splits pending_request.splits)+
    then show ?thesis by blast
  next
    case (Call_Removed request)
    have "(\<exists>e. p' = p \<and> res = Err e) \<or> (\<exists>r. ?answered (Pending_Remove r) (Msg_Removed r))"
      using assms(1,3) Call_Removed key
      by (cases "map_of (ps_outstanding p) request") (fastforce simp: defs split: if_splits pending_request.splits)+
    then show ?thesis by blast
  qed (use assms(2) in simp_all)
  then show thesis using refused answered by blast
qed

section \<open>The phases are kept\<close>

lemma split_next_request:
  assumes "requests_split s sel v p qs tv"
  shows "vs_next_request v \<notin> fst ` set (vs_outstanding v)"
proof
  assume "vs_next_request v \<in> fst ` set (vs_outstanding v)"
  then obtain q where "(vs_next_request v, q) \<in> set (vs_outstanding v)" by force
  then have "pending_id q = vs_next_request v" "pending_id q < vs_next_request v"
    using assms by (force simp: requests_split_def outstanding_inv_def)+
  then show False by simp
qed

lemma split_empty: "requests_split s sel (vmm_at s off regs (Some sel) n Vmm_Active nxt []) p qs tv \<Longrightarrow>
    qs = [] \<and> ps_outstanding p = [] \<and> tv = []"
  using split_places(1) [of s sel "vmm_at s off regs (Some sel) n Vmm_Active nxt []" p qs tv] by simp

lemma active_vmm_call:
  assumes "is_selection_for sel off" and v: "v = vmm_at s off regs (Some sel) (length regs) Vmm_Active nxt out"
    and p: "p = peer_at s off (Some sel) regs Peer_Active i pout" and "requests_split s sel v p qs tv" and "orderly (Vmm_Does c)"
  shows "link_phase s off regs (link_apply \<lparr>lk_vmm = v, lk_peer = p,
    lk_to_peer = map (\<lambda>q. framed s (pending_message q)) qs, lk_to_vmm = tv\<rparr> (Vmm_Does c))"
proof (cases "vmm_apply v c")
  case (Pair v' res)
  note unchanged = phase_active [OF assms(1) v p assms(4)]
  show ?thesis
  proof (cases "issues c")
    case True
    from Pair True split_next_request [OF assms(4)] show ?thesis
    proof (cases rule: vmm_issue_cases)
      case refused
      then show ?thesis using unchanged Pair by simp
    next
      case (sent q)
      have issued: "issued v q = vmm_at s off regs (Some sel) (length regs) Vmm_Active (nxt + 1) (AList.update (pending_id q) q out)"
        by (simp add: issued_def v)
      have "requests_split s sel (issued v q) p (qs @ [q]) tv" using split_issue [OF assms(4) sent(1)] v p by simp
      from phase_active [OF assms(1) issued p this] show ?thesis using Pair sent(2,3) v by (simp add: vmm_frame_def)
    qed
  next
    case False
    show ?thesis
    proof (cases "c = Call_Shutdown \<and> out = []")
      case True
      then have "qs = []" "pout = []" "tv = []" using split_empty [of s sel off regs "length regs" nxt p qs tv] assms(4) v p by auto
      then show ?thesis using True v p by (simp add: vmm_call_defs phase_shutdown)
    next
      case False
      then have "v' = v" "sent_frames res = []" using Pair \<open>\<not> issues c\<close> assms(5) v by (cases c; auto simp: vmm_call_defs)+
      then show ?thesis using unchanged Pair by simp
    qed
  qed
qed

lemma phase_vmm_call:
  assumes "link_phase s off regs l" and "orderly (Vmm_Does c)" and "length regs < 2 ^ 64"
  shows "link_phase s off regs (link_apply l (Vmm_Does c))"
  using assms(1)
proof (cases rule: link_phase.cases)
  case phase_active
  then show ?thesis using active_vmm_call assms(2) by blast
next
  case (phase_regions sel k n)
  show ?thesis
  proof (cases "c = Call_NextRegion \<and> n < length regs")
    case True
    have "drop k (take (Suc n) regs) = drop k (take n regs) @ [regs ! n]"
      using phase_regions(3) True by (simp add: take_Suc_conv_app_nth)
    then show ?thesis
      using link_phase.phase_regions [OF phase_regions(2), of k "Suc n" regs s] phase_regions True assms(3)
      by (simp add: vmm_call_defs)
  next
    case False
    then show ?thesis
      using assms(1,2) phase_regions link_phase.phase_start [OF phase_regions(2), of k regs s]
      by (cases c) (auto simp: vmm_call_defs)
  qed
qed (use assms(1,2) in \<open>cases c; auto simp: vmm_call_defs link_start_def intro: link_phase.intros\<close>)+

lemma active_peer_call:
  assumes "is_selection_for sel off" and v: "v = vmm_at s off regs (Some sel) (length regs) Vmm_Active nxt out"
    and p: "p = peer_at s off (Some sel) regs Peer_Active i pout" and "requests_split s sel v p qs tv" and "orderly (Peer_Does c)"
  shows "link_phase s off regs (link_apply \<lparr>lk_vmm = v, lk_peer = p,
    lk_to_peer = map (\<lambda>q. framed s (pending_message q)) qs, lk_to_vmm = tv\<rparr> (Peer_Does c))"
proof (cases "peer_apply p c")
  case (Pair p' res)
  note unchanged = phase_active [OF assms(1) v p assms(4)]
  have inv: "outstanding_inv (ps_outstanding p)" and s: "ps_session p = Some s" using assms(4) p by (simp_all add: requests_split_def)
  show ?thesis
  proof (cases "answers c")
    case True
    from Pair True s inv show ?thesis
    proof (cases rule: peer_answer_cases)
      case refused
      then show ?thesis using unchanged Pair by simp
    next
      case (answered q m)
      have "p' = peer_at s off (Some sel) regs Peer_Active i (AList.delete (pending_id q) pout)" using answered(4) p by simp
      from phase_active [OF assms(1) v this split_answer [OF assms(4) answered(1-3), folded answered(4)]]
      show ?thesis using Pair answered(5) by simp
    qed
  next
    case False
    then have "p' = p" "sent_frames res = []" using Pair assms(5) p by (cases c; auto simp: peer_call_defs)+
    then show ?thesis using unchanged Pair by simp
  qed
qed

lemma phase_peer_call:
  assumes "link_phase s off regs l" and "orderly (Peer_Does c)"
  shows "link_phase s off regs (link_apply l (Peer_Does c))"
  using assms(1)
proof (cases rule: link_phase.cases)
  case phase_active
  then show ?thesis using active_peer_call assms(2) by blast
qed (use assms in \<open>cases c; auto simp: peer_call_defs link_start_def peer_new_def intro: link_phase.intros\<close>)+

text \<open>A delivery is accepted, and leads to the next phase.\<close>

definition delivers_peer :: "pager_session_id \<Rightarrow> pager_limits \<Rightarrow> pager_region list \<Rightarrow> pager_link \<Rightarrow> bool" where
  "delivers_peer s off regs l \<longleftrightarrow> link_phase s off regs (link_apply l Deliver_To_Peer) \<and>
     (\<forall>f fs. lk_to_peer l = f # fs \<longrightarrow> snd (peer_receive (lk_peer l) f) = Ok f)"

definition delivers_vmm :: "pager_session_id \<Rightarrow> pager_limits \<Rightarrow> pager_region list \<Rightarrow> pager_link \<Rightarrow> bool" where
  "delivers_vmm s off regs l \<longleftrightarrow> link_phase s off regs (link_apply l Deliver_To_Vmm) \<and>
     (\<forall>f fs. lk_to_vmm l = f # fs \<longrightarrow> snd (vmm_receive (lk_vmm l) f) = Ok f)"

lemma region_arrives:
  assumes "validate_regions off regs = Ok ()" and "is_selection_for sel off" and "k < length regs"
  shows "peer_receive (peer_at s off (Some sel) (take k regs) Peer_ConfigureRegions i out) (framed s (Msg_Region (regs ! k))) =
    (peer_at s off (Some sel) (take (Suc k) regs) Peer_ConfigureRegions i out, Ok (framed s (Msg_Region (regs ! k))))"
  using accept_next_region [OF assms] by (simp add: peer_receive_def peer_receive_inner_def)

lemma phase_deliver_peer:
  assumes "link_phase s off regs l" and "validate_regions off regs = Ok ()"
  shows "delivers_peer s off regs l"
  using assms(1)
proof (cases rule: link_phase.cases)
  case (phase_active sel v nxt out p i pout qs tv)
  show ?thesis
  proof (cases qs)
    case Nil
    then show ?thesis using assms(1) phase_active(1) by (simp add: delivers_peer_def)
  next
    case (Cons q qs')
    have split: "requests_split s sel v p (q # qs') tv" using phase_active(5) Cons by simp
    have eq: "peer_receive p (framed s (pending_message q)) =
        (peer_at s off (Some sel) regs Peer_Active (pending_id q) (AList.update (pending_id q) q pout), Ok (framed s (pending_message q)))"
      using peer_accepts_request [OF split] phase_active(4) by simp
    have "requests_split s sel v (peer_at s off (Some sel) regs Peer_Active (pending_id q) (AList.update (pending_id q) q pout)) qs' tv"
      using split_arrive(4) [OF split] phase_active(4) by simp
    from link_phase.phase_active [OF phase_active(2,3) refl this] show ?thesis
      using phase_active(1) Cons eq by (simp add: delivers_peer_def)
  qed
next
  case (phase_regions sel k n)
  show ?thesis
  proof (cases "k < n")
    case True
    then have "drop k (take n regs) = regs ! k # drop (Suc k) (take n regs)"
      using phase_regions(4) by (simp add: Cons_nth_drop_Suc [symmetric])
    then show ?thesis
      using link_phase.phase_regions [OF phase_regions(2), of "Suc k" n regs s] region_arrives [OF assms(2) phase_regions(2), of k s] True
        phase_regions(1,4) by (simp add: delivers_peer_def)
  next
    case False
    then show ?thesis using assms(1) phase_regions(1,3) by (simp add: delivers_peer_def)
  qed
next
  case (phase_start sel k)
  show ?thesis
  proof (cases "k < length regs")
    case True
    then have "drop k regs = regs ! k # drop (Suc k) regs" by (simp add: Cons_nth_drop_Suc)
    then show ?thesis
      using link_phase.phase_start [OF phase_start(2), of "Suc k" regs s] region_arrives [OF assms(2) phase_start(2) True, of s] True
        phase_start(1) by (simp add: delivers_peer_def)
  next
    case False
    then have "peer_receive (peer_at s off (Some sel) (take k regs) Peer_ConfigureRegions 0 []) (framed s Msg_Start) =
        (peer_at s off (Some sel) regs Peer_ReadyToConfirm 0 [], Ok (framed s Msg_Start))"
      using validated_regions(1) [OF assms(2)] phase_start(2) by (simp add: peer_receive_def peer_receive_inner_def is_selection_for_def)
    then show ?thesis using phase_start(1) False link_phase.phase_confirm [OF phase_start(2)] by (simp add: delivers_peer_def)
  qed
next
  case phase_hello
  have "peer_receive peer_new (framed s (Msg_Hello off)) = (peer_at s off None [] Peer_SelectLimits 0 [], Ok (framed s (Msg_Hello off)))"
    by (simp add: peer_receive_def peer_receive_inner_def peer_new_def peer_at_def)
  then show ?thesis using phase_hello link_phase.phase_select by (simp add: delivers_peer_def)
next
  case (phase_shutdown sel nxt i)
  have "peer_receive (peer_at s off (Some sel) regs Peer_Active i []) (framed s Msg_Shutdown) =
      (peer_at s off (Some sel) regs Peer_ReadyToShutdown i [], Ok (framed s Msg_Shutdown))"
    by (simp add: peer_receive_def peer_receive_inner_def)
  then show ?thesis using phase_shutdown link_phase.phase_drained by (simp add: delivers_peer_def)
qed (use assms(1) in \<open>simp_all add: delivers_peer_def link_start_def\<close>)

lemma phase_deliver_vmm:
  assumes "link_phase s off regs l"
  shows "delivers_vmm s off regs l"
  using assms
proof (cases rule: link_phase.cases)
  case (phase_active sel v nxt out p i pout qs tv)
  show ?thesis
  proof (cases tv)
    case Nil
    then show ?thesis using assms phase_active(1) by (simp add: delivers_vmm_def)
  next
    case (Cons f tv')
    obtain q where eq: "vmm_receive v f = (v\<lparr>vs_outstanding := AList.delete (pending_id q) (vs_outstanding v)\<rparr>, Ok f)"
      and split: "requests_split s sel (v\<lparr>vs_outstanding := AList.delete (pending_id q) (vs_outstanding v)\<rparr>) p qs tv'"
      using vmm_accepts_answer [of s sel v p qs f tv'] phase_active(3,5) Cons by auto
    from link_phase.phase_active [OF phase_active(2) _ phase_active(4) split] show ?thesis
      using phase_active(1,3) Cons eq by (simp add: delivers_vmm_def)
  qed
next
  case (phase_selected sel)
  have "vmm_receive (vmm_at s off regs None 0 Vmm_AwaitHelloAck 1 []) (framed s (Msg_HelloAck sel)) =
      (vmm_at s off regs (Some sel) 0 Vmm_ConfigureRegions 1 [], Ok (framed s (Msg_HelloAck sel)))"
    using phase_selected(2) by (simp add: vmm_receive_def vmm_receive_inner_def)
  then show ?thesis using phase_selected link_phase.phase_regions [of sel off 0 0 regs s] by (simp add: delivers_vmm_def)
next
  case (phase_ready sel)
  let ?v = "vmm_at s off regs (Some sel) (length regs) Vmm_Active 1 []"
  let ?p = "peer_at s off (Some sel) regs Peer_Active 0 []"
  have "vmm_receive (vmm_at s off regs (Some sel) (length regs) Vmm_AwaitReady 1 []) (framed s Msg_Ready) = (?v, Ok (framed s Msg_Ready))"
    by (simp add: vmm_receive_def vmm_receive_inner_def)
  moreover have "requests_split s sel ?v ?p [] []" by (simp add: requests_split_def)
  ultimately show ?thesis
    using phase_ready link_phase.phase_active [OF phase_ready(2) refl refl, of s regs 1 "[]" 0 "[]" "[]" "[]"] by (simp add: delivers_vmm_def)
next
  case (phase_acked sel nxt i)
  have "vmm_receive (vmm_at s off regs (Some sel) (length regs) Vmm_AwaitShutdownAck nxt []) (framed s Msg_ShutdownAck) =
      (vmm_at s off regs (Some sel) (length regs) Vmm_Closed nxt [], Ok (framed s Msg_ShutdownAck))"
    by (simp add: vmm_receive_def vmm_receive_inner_def)
  then show ?thesis using phase_acked link_phase.phase_closed by (simp add: delivers_vmm_def)
qed (use assms in \<open>simp_all add: delivers_vmm_def link_start_def\<close>)

lemma phase_run:
  assumes "link_phase s off regs l" and "validate_regions off regs = Ok ()" and "list_all orderly acts"
  shows "link_phase s off regs (link_run l acts)"
  using assms(1,3) unfolding link_run_def
proof (induction acts arbitrary: l)
  case (Cons a acts)
  have "unat (pl_region_count off) < 2 ^ 16" using unat_bound16 [of "pl_region_count off"] by simp
  then have "length regs < 2 ^ 64" using validated_regions(1) [OF assms(2)] by simp
  then have "link_phase s off regs (link_apply l a)"
    using phase_vmm_call phase_peer_call phase_deliver_peer [OF _ assms(2)] phase_deliver_vmm Cons.prems
    by (cases a) (simp_all add: delivers_peer_def delivers_vmm_def)
  then show ?case using Cons by simp
qed simp

lemma phase_of_run:
  assumes "vmm_new s off regs = Ok v" and "list_all orderly acts"
  shows "link_phase s off regs (link_run (link_start v) acts)" and "validate_regions off regs = Ok ()"
proof -
  show valid: "validate_regions off regs = Ok ()" using assms(1) by (auto simp: vmm_new_def and_then_Ok_iff)
  have "link_phase s off regs (link_start v)" using assms(1) phase_new by (auto simp: vmm_new_def and_then_Ok_iff vmm_at_def)
  from phase_run [OF this valid assms(2)] show "link_phase s off regs (link_run (link_start v) acts)" .
qed

lemma phase_outstanding:
  assumes "link_phase s off regs l" and "vs_state (lk_vmm l) = Vmm_Active"
  shows "mset (map snd (vs_outstanding (lk_vmm l))) =
    mset (map (\<lambda>f. the (requested_of (pf_message f))) (lk_to_peer l)) + mset (map snd (ps_outstanding (lk_peer l))) +
    mset (map (\<lambda>f. the (answered_of (pf_message f))) (lk_to_vmm l))"
  using assms
proof (cases rule: link_phase.cases)
  case (phase_active sel v nxt out p i pout qs tv)
  have "map (\<lambda>f. the (requested_of (pf_message f))) (lk_to_peer l) = qs"
    using phase_active(1) requested_of_Some [THEN iffD2, OF refl] by (simp add: map_idI)
  then show ?thesis using phase_active(1,5) unfolding requests_split_def by simp
qed (simp_all add: link_start_def)

lemma phase_closed_cases:
  assumes "link_phase s off regs l" and "vs_state (lk_vmm l) = Vmm_Closed"
  shows "ps_state (lk_peer l) = Peer_Closed \<and> lk_to_peer l = [] \<and> lk_to_vmm l = [] \<and>
    vs_outstanding (lk_vmm l) = [] \<and> ps_outstanding (lk_peer l) = []"
  using assms by (cases rule: link_phase.cases) (simp_all add: link_start_def)

text \<open>
  C10: Connect a new VMM session to a new peer session by two ordered channels and let both sides make any calls and the
  channels deliver in any order, except that nobody cancels or terminates: no delivery is ever refused. While the VMM is
  active each of its outstanding requests is in exactly one place, on its way, outstanding at the peer, or answered on the
  way back; and when the VMM has closed, the peer has closed too and nothing is outstanding or on its way.
\<close>

theorem pager_link_agreement:
  assumes "vmm_new s off regs = Ok v" and "list_all orderly acts"
  shows "let l = link_run (link_start v) acts in
    (\<forall>f fs. lk_to_peer l = f # fs \<longrightarrow> snd (peer_receive (lk_peer l) f) = Ok f) \<and>
    (\<forall>f fs. lk_to_vmm l = f # fs \<longrightarrow> snd (vmm_receive (lk_vmm l) f) = Ok f) \<and>
    (vs_state (lk_vmm l) = Vmm_Active \<longrightarrow>
       mset (map snd (vs_outstanding (lk_vmm l))) =
         mset (map (\<lambda>f. the (requested_of (pf_message f))) (lk_to_peer l)) + mset (map snd (ps_outstanding (lk_peer l))) +
         mset (map (\<lambda>f. the (answered_of (pf_message f))) (lk_to_vmm l))) \<and>
    (vs_state (lk_vmm l) = Vmm_Closed \<longrightarrow>
       ps_state (lk_peer l) = Peer_Closed \<and> lk_to_peer l = [] \<and> lk_to_vmm l = [] \<and>
       vs_outstanding (lk_vmm l) = [] \<and> ps_outstanding (lk_peer l) = [])"
proof -
  note phase = phase_of_run [OF assms]
  show ?thesis
    using phase_deliver_peer [OF phase] phase_deliver_vmm [OF phase(1)] phase_outstanding [OF phase(1)] phase_closed_cases [OF phase(1)]
    unfolding Let_def delivers_peer_def delivers_vmm_def by blast
qed

text \<open>One whole session: the handshake, one page request answered by zeroes, and the shutdown.\<close>

definition sample_session :: pager_session_id where
  "sample_session = replicate 32 7"

definition sample_offer :: pager_limits where
  "sample_offer = \<lparr>pl_page_size = 0x4000, pl_region_count = 1, pl_max_in_flight = 2, pl_max_frame_bytes = 0x4100,
                   pl_operations = V1_OPERATIONS\<rparr>"

definition sample_regions :: "pager_region list" where
  "sample_regions = [\<lparr>pr_id = 1, pr_source_offset = 0, pr_length = 0x8000\<rparr>]"

definition sample_request :: pager_page_request where
  "sample_request = \<lparr>pp_request = 1, pp_region = 1, pp_access = PageRead, pp_generation = 1, pp_offset = 0x4000, pp_length = 0x4000\<rparr>"

abbreviation sample_vmm :: "pager_limits option \<Rightarrow> nat \<Rightarrow> pager_vmm_state \<Rightarrow> u64 \<Rightarrow> (pager_request_id \<times> pending_request) list \<Rightarrow> vmm_session" where
  "sample_vmm \<equiv> vmm_at sample_session sample_offer sample_regions"

abbreviation sample_frame :: "pager_message \<Rightarrow> pager_frame" where
  "sample_frame \<equiv> framed sample_session"

definition handshake :: "link_action list" where
  "handshake = [Vmm_Does Call_Hello, Deliver_To_Peer, Peer_Does (Call_HelloAck sample_offer), Deliver_To_Vmm,
     Vmm_Does Call_NextRegion, Vmm_Does Call_Start, Deliver_To_Peer, Deliver_To_Peer, Peer_Does Call_Ready, Deliver_To_Vmm]"

definition one_page :: "link_action list" where
  "one_page = [Vmm_Does (Call_RequestPage 1 1 0x4000 PageRead), Deliver_To_Peer, Peer_Does (Call_PageZero 1), Deliver_To_Vmm]"

definition goodbye :: "link_action list" where
  "goodbye = [Vmm_Does Call_Shutdown, Deliver_To_Peer, Peer_Does Call_ShutdownAck, Deliver_To_Vmm]"

lemma sample_new: "vmm_new sample_session sample_offer sample_regions = Ok (sample_vmm None 0 Vmm_New 1 [])"
  by (simp add: vmm_new_def validate_regions_def sample_offer_def sample_regions_def region_is_valid_for_def is_multiple_of_def
      checked_add_def vmm_at_def)

lemma sample_vmm_calls:
  "vmm_apply (sample_vmm None 0 Vmm_New 1 []) Call_Hello =
     (sample_vmm None 0 Vmm_AwaitHelloAck 1 [], Ok (sample_frame (Msg_Hello sample_offer)))"
  "vmm_receive (sample_vmm None 0 Vmm_AwaitHelloAck 1 []) (sample_frame (Msg_HelloAck sample_offer)) =
     (sample_vmm (Some sample_offer) 0 Vmm_ConfigureRegions 1 [], Ok (sample_frame (Msg_HelloAck sample_offer)))"
  "vmm_apply (sample_vmm (Some sample_offer) 0 Vmm_ConfigureRegions 1 []) Call_NextRegion =
     (sample_vmm (Some sample_offer) (Suc 0) Vmm_ConfigureRegions 1 [], Ok (sample_frame (Msg_Region (hd sample_regions))))"
  "vmm_apply (sample_vmm (Some sample_offer) (Suc 0) Vmm_ConfigureRegions 1 []) Call_Start =
     (sample_vmm (Some sample_offer) (Suc 0) Vmm_AwaitReady 1 [], Ok (sample_frame Msg_Start))"
  "vmm_receive (sample_vmm (Some sample_offer) (Suc 0) Vmm_AwaitReady 1 []) (sample_frame Msg_Ready) =
     (sample_vmm (Some sample_offer) (Suc 0) Vmm_Active 1 [], Ok (sample_frame Msg_Ready))"
  "vmm_apply (sample_vmm (Some sample_offer) (Suc 0) Vmm_Active 1 []) (Call_RequestPage 1 1 0x4000 PageRead) =
     (sample_vmm (Some sample_offer) (Suc 0) Vmm_Active 2 [(1, Pending_Page sample_request)], Ok (sample_frame (Msg_PageRequest sample_request)))"
  "vmm_receive (sample_vmm (Some sample_offer) (Suc 0) Vmm_Active 2 [(1, Pending_Page sample_request)]) (sample_frame (Msg_PageZero sample_request)) =
     (sample_vmm (Some sample_offer) (Suc 0) Vmm_Active 2 [], Ok (sample_frame (Msg_PageZero sample_request)))"
  "vmm_apply (sample_vmm (Some sample_offer) (Suc 0) Vmm_Active 2 []) Call_Shutdown =
     (sample_vmm (Some sample_offer) (Suc 0) Vmm_AwaitShutdownAck 2 [], Ok (sample_frame Msg_Shutdown))"
  "vmm_receive (sample_vmm (Some sample_offer) (Suc 0) Vmm_AwaitShutdownAck 2 []) (sample_frame Msg_ShutdownAck) =
     (sample_vmm (Some sample_offer) (Suc 0) Vmm_Closed 2 [], Ok (sample_frame Msg_ShutdownAck))"
  by (simp_all add: vmm_call_defs issue_defs vmm_receive_def vmm_receive_inner_def complete_page_def is_selection_for_def
      sample_offer_def sample_regions_def sample_request_def page_range_is_valid_def is_multiple_of_def)

abbreviation sample_peer :: "pager_limits option \<Rightarrow> pager_region list \<Rightarrow> pager_peer_state \<Rightarrow> u64 \<Rightarrow> (pager_request_id \<times> pending_request) list \<Rightarrow> peer_session" where
  "sample_peer \<equiv> peer_at sample_session sample_offer"

lemma sample_peer_calls:
  "peer_receive peer_new (sample_frame (Msg_Hello sample_offer)) =
     (sample_peer None [] Peer_SelectLimits 0 [], Ok (sample_frame (Msg_Hello sample_offer)))"
  "peer_apply (sample_peer None [] Peer_SelectLimits 0 []) (Call_HelloAck sample_offer) =
     (sample_peer (Some sample_offer) [] Peer_ConfigureRegions 0 [], Ok (sample_frame (Msg_HelloAck sample_offer)))"
  "peer_receive (sample_peer (Some sample_offer) [] Peer_ConfigureRegions 0 []) (sample_frame (Msg_Region (hd sample_regions))) =
     (sample_peer (Some sample_offer) sample_regions Peer_ConfigureRegions 0 [], Ok (sample_frame (Msg_Region (hd sample_regions))))"
  "peer_receive (sample_peer (Some sample_offer) sample_regions Peer_ConfigureRegions 0 []) (sample_frame Msg_Start) =
     (sample_peer (Some sample_offer) sample_regions Peer_ReadyToConfirm 0 [], Ok (sample_frame Msg_Start))"
  "peer_apply (sample_peer (Some sample_offer) sample_regions Peer_ReadyToConfirm 0 []) Call_Ready =
     (sample_peer (Some sample_offer) sample_regions Peer_Active 0 [], Ok (sample_frame Msg_Ready))"
  "peer_receive (sample_peer (Some sample_offer) sample_regions Peer_Active 0 []) (sample_frame (Msg_PageRequest sample_request)) =
     (sample_peer (Some sample_offer) sample_regions Peer_Active 1 [(1, Pending_Page sample_request)], Ok (sample_frame (Msg_PageRequest sample_request)))"
  "peer_apply (sample_peer (Some sample_offer) sample_regions Peer_Active 1 [(1, Pending_Page sample_request)]) (Call_PageZero 1) =
     (sample_peer (Some sample_offer) sample_regions Peer_Active 1 [], Ok (sample_frame (Msg_PageZero sample_request)))"
  "peer_receive (sample_peer (Some sample_offer) sample_regions Peer_Active 1 []) (sample_frame Msg_Shutdown) =
     (sample_peer (Some sample_offer) sample_regions Peer_ReadyToShutdown 1 [], Ok (sample_frame Msg_Shutdown))"
  "peer_apply (sample_peer (Some sample_offer) sample_regions Peer_ReadyToShutdown 1 []) Call_ShutdownAck =
     (sample_peer (Some sample_offer) sample_regions Peer_Closed 1 [], Ok (sample_frame Msg_ShutdownAck))"
  by (simp_all add: peer_call_defs peer_receive_def peer_receive_inner_def accept_region_def accept_page_def
      accept_request_id_and_capacity_def is_selection_for_def sample_offer_def sample_regions_def sample_request_def
      page_range_is_valid_def is_multiple_of_def region_is_valid_for_def checked_add_def peer_new_def peer_at_def)

lemma sample_link:
  "link_run (link_start (sample_vmm None 0 Vmm_New 1 [])) (handshake @ one_page @ goodbye) =
     \<lparr>lk_vmm = sample_vmm (Some sample_offer) (Suc 0) Vmm_Closed 2 [],
      lk_peer = sample_peer (Some sample_offer) sample_regions Peer_Closed 1 [], lk_to_peer = [], lk_to_vmm = []\<rparr>"
  by (simp add: link_run_def link_start_def handshake_def one_page_def goodbye_def sample_vmm_calls sample_peer_calls
      del: vmm_apply.simps peer_apply.simps)

theorem pager_link_agreement_witness:
  "ps_state (lk_peer (link_run (link_start (sample_vmm None 0 Vmm_New 1 [])) (handshake @ one_page @ goodbye))) = Peer_Closed"
proof -
  have "list_all orderly (handshake @ one_page @ goodbye)" by (simp add: handshake_def one_page_def goodbye_def)
  moreover have "vs_state (lk_vmm (link_run (link_start (sample_vmm None 0 Vmm_New 1 [])) (handshake @ one_page @ goodbye))) = Vmm_Closed"
    by (simp add: sample_link)
  ultimately show ?thesis using pager_link_agreement [OF sample_new] by (simp add: Let_def)
qed

lemma sample_trace:
  "vmm_trace (sample_vmm None 0 Vmm_New 1 []) [Pending_Page sample_request] [Pending_Page sample_request]
     (sample_vmm (Some sample_offer) (Suc 0) Vmm_Active 2 [])"
proof -
  let ?v0 = "sample_vmm None 0 Vmm_New 1 []"
  have "vmm_trace ?v0 [] [] (sample_vmm None 0 Vmm_AwaitHelloAck 1 [])"
    using trace_call [OF trace_start sample_vmm_calls(1) refl] by simp
  from trace_receive [OF this sample_vmm_calls(2) refl]
  have "vmm_trace ?v0 [] [] (sample_vmm (Some sample_offer) 0 Vmm_ConfigureRegions 1 [])" by simp
  from trace_call [OF this sample_vmm_calls(3) refl]
  have "vmm_trace ?v0 [] [] (sample_vmm (Some sample_offer) (Suc 0) Vmm_ConfigureRegions 1 [])" by simp
  from trace_call [OF this sample_vmm_calls(4) refl]
  have "vmm_trace ?v0 [] [] (sample_vmm (Some sample_offer) (Suc 0) Vmm_AwaitReady 1 [])" by simp
  from trace_receive [OF this sample_vmm_calls(5) refl]
  have "vmm_trace ?v0 [] [] (sample_vmm (Some sample_offer) (Suc 0) Vmm_Active 1 [])" by simp
  from trace_call [OF this sample_vmm_calls(6) refl]
  have "vmm_trace ?v0 [Pending_Page sample_request] [] (sample_vmm (Some sample_offer) (Suc 0) Vmm_Active 2 [(1, Pending_Page sample_request)])"
    by simp
  from trace_receive [OF this sample_vmm_calls(7) refl] show ?thesis by simp
qed

theorem vmm_requests_answered_once_witness:
  "distinct [Pending_Page sample_request] \<and> request_placed (sample_vmm (Some sample_offer) (Suc 0) Vmm_Active 2 []) (Pending_Page sample_request)"
  using vmm_requests_answered_once [OF sample_new sample_trace] by simp

end
