(* ===== verification/Lazy_Memory.thy ===== *)
theory Lazy_Memory
  imports Guest_Memory Pager_Frame Drain_Gate
begin

text \<open>
  Guest memory whose pages are populated on demand, from \<open>crates/runtime/src/lazy_memory.rs\<close>: the construction of the
  owner with its regions and page numbering, the page coordinator with every critical section of its mutex, and the targets
  through which page contents are installed. A call that may sleep on the condition variable is its entry, which
  returns or sleeps, and one resumption per wait loop. The reservations of metadata vectors are a parameter, like the mappings
  of \<open>Guest_Memory\<close>. \<open>usize\<close> counters are natural numbers with the overflow check written out.
\<close>

section \<open>Configuration\<close>

definition MAX_LAZY_MEMORY_WAITERS :: u16 where "MAX_LAZY_MEMORY_WAITERS = 4096"
definition MAX_LAZY_MEMORY_PAGES :: u64 where "MAX_LAZY_MEMORY_PAGES = DRAM_MEM_MAX_SIZE div ucast MIN_PAGE_SIZE"

definition usize_add :: "nat \<Rightarrow> nat \<Rightarrow> nat option" where
  "usize_add a b = (if a + b < 2 ^ 64 then Some (a + b) else None)"

datatype lazy_terminal_reason = Reason_Requested | Reason_PeerFailure | Reason_TransitionFailure | Reason_Teardown | Reason_StatePoisoned

datatype lazy_error =
    Lazy_InvalidConfiguration | MetadataAllocationFailed | GuestMemoryAllocation guest_memory_allocation_error | InvalidPage
  | PageLimitExceeded | InFlightLimitExceeded | WaiterLimitExceeded | StaleGeneration | Lazy_InvalidLifecycle
  | ConsumerAlreadyClaimed | ContentLength | ContentAlreadyInstalled | ContentMissing | GenerationExhausted
  | Lazy_Terminal lazy_terminal_reason | Lazy_StatePoisoned

datatype lazy_consumer_requirement = DirtyTracking | SharedMemory | ExternalProcessMemory | BalloonReclaim | DynamicMemory

record lazy_consumer_profile =
  pr_dirty_tracking :: bool
  pr_shared_memory :: bool
  pr_external_process_memory :: bool
  pr_balloon_reclaim :: bool
  pr_dynamic_memory :: bool

definition consumer_profile_validate :: "lazy_consumer_profile \<Rightarrow> (unit, lazy_consumer_requirement) result" where
  "consumer_profile_validate p =
     (if pr_dirty_tracking p then Err DirtyTracking else if pr_shared_memory p then Err SharedMemory
      else if pr_external_process_memory p then Err ExternalProcessMemory
      else if pr_balloon_reclaim p then Err BalloonReclaim else if pr_dynamic_memory p then Err DynamicMemory else Ok ())"

record lazy_limits =
  ll_pager :: pager_limits
  ll_max_pages :: u64
  ll_max_waiters :: u16

definition lazy_limits_new :: "pager_limits \<Rightarrow> u64 \<Rightarrow> u16 \<Rightarrow> (lazy_limits, lazy_error) result" where
  "lazy_limits_new pager max_pages max_waiters =
     (let selected_max_pages = DRAM_MEM_MAX_SIZE div ucast (pl_page_size pager)
      in if max_pages = 0 \<or> MAX_LAZY_MEMORY_PAGES < max_pages \<or> selected_max_pages < max_pages \<or>
            max_waiters = 0 \<or> MAX_LAZY_MEMORY_WAITERS < max_waiters then Err Lazy_InvalidConfiguration
         else Ok \<lparr>ll_pager = pager, ll_max_pages = max_pages, ll_max_waiters = max_waiters\<rparr>)"

record lazy_region =
  lr_guest :: guest_memory_range
  lr_source :: pager_region

definition lazy_region_new :: "pager_region_id \<Rightarrow> guest_memory_range \<Rightarrow> u64 \<Rightarrow> u32 \<Rightarrow> (lazy_region, lazy_error) result" where
  "lazy_region_new i guest source_offset page_size =
     and_then (map_err (\<lambda>_. Lazy_InvalidConfiguration) (range_validate_alignment guest (ucast page_size))) (\<lambda>_.
     and_then (map_err (\<lambda>_. Lazy_InvalidConfiguration) (region_new i source_offset (gmr_size guest) page_size)) (\<lambda>source.
       Ok \<lparr>lr_guest = guest, lr_source = source\<rparr>))"

definition lazy_source_ranges_overlap :: "u64 \<Rightarrow> u64 \<Rightarrow> u64 \<Rightarrow> u64 \<Rightarrow> bool" where
  "lazy_source_ranges_overlap first_start first_len second_start second_len \<longleftrightarrow>
     (case checked_add first_start first_len of
        None \<Rightarrow> True
      | Some first_end \<Rightarrow>
          (case checked_add second_start second_len of
             None \<Rightarrow> True
           | Some second_end \<Rightarrow> first_start < second_end \<and> second_start < first_end))"

text \<open>The loop of \<open>validate_lazy_regions\<close>, with the regions before the current one.\<close>

fun validate_lazy_regions :: "lazy_region list \<Rightarrow> lazy_region list \<Rightarrow> u32 \<Rightarrow> (unit, lazy_error) result" where
  "validate_lazy_regions previous [] page_size = Ok ()"
| "validate_lazy_regions previous (region # regions) page_size =
     and_then (map_err (\<lambda>_. Lazy_InvalidConfiguration) (range_validate_alignment (lr_guest region) (ucast page_size))) (\<lambda>_.
     and_then (map_err (\<lambda>_. Lazy_InvalidConfiguration)
                (region_new (pr_id (lr_source region)) (pr_source_offset (lr_source region)) (pr_length (lr_source region)) page_size)) (\<lambda>_.
       if list_ex (\<lambda>p. pr_id (lr_source p) = pr_id (lr_source region) \<or>
                       lazy_source_ranges_overlap (pr_source_offset (lr_source p)) (pr_length (lr_source p))
                         (pr_source_offset (lr_source region)) (pr_length (lr_source region))) previous
       then Err Lazy_InvalidConfiguration
       else validate_lazy_regions (previous @ [region]) regions page_size))"

record lazy_region_record =
  rr_source :: lazy_region
  rr_first_page :: nat
  rr_page_count :: nat

text \<open>The loop that numbers the pages of all regions consecutively.\<close>

fun number_pages :: "u32 \<Rightarrow> lazy_region list \<Rightarrow> u64 \<Rightarrow> (lazy_region_record list \<times> u64, lazy_error) result" where
  "number_pages page_size [] total_pages = Ok ([], total_pages)"
| "number_pages page_size (region # regions) total_pages =
     (if page_size = 0 then Err Lazy_InvalidConfiguration
      else let page_count = pr_length (lr_source region) div ucast page_size
           in case checked_add total_pages page_count of
                None \<Rightarrow> Err Lazy_InvalidConfiguration
              | Some total_pages' \<Rightarrow>
                  and_then (number_pages page_size regions total_pages') (\<lambda>(records, total).
                    Ok (\<lparr>rr_source = region, rr_first_page = unat total_pages, rr_page_count = unat page_count\<rparr> # records, total)))"

section \<open>The coordinator\<close>

record page_location =
  lo_region_index :: nat
  lo_page_in_region :: nat
  lo_flat_index :: nat

datatype coordinator_phase = Phase_Active | Phase_Closing lazy_terminal_reason | Phase_Terminal lazy_terminal_reason

fun phase_reason :: "coordinator_phase \<Rightarrow> lazy_terminal_reason option" where
  "phase_reason Phase_Active = None"
| "phase_reason (Phase_Closing reason) = Some reason"
| "phase_reason (Phase_Terminal reason) = Some reason"

datatype page_tag = Tag_Absent | Tag_Loading | Tag_Publishing | Tag_Present | Tag_Removing

datatype population_stage = Stage_Loading | Stage_Publishing | Stage_Retired

datatype lazy_operation_kind = Population page_location population_stage nat | Removal nat nat nat

record operation =
  op_generation :: pager_generation
  op_kind :: lazy_operation_kind

fun is_action :: "lazy_operation_kind \<Rightarrow> bool" where
  "is_action (Population location stage waiters) = (stage = Stage_Publishing)"
| "is_action (Removal region_index first_page page_count) = True"

datatype completion_outcome = Outcome_Present | Outcome_Superseded

record completion =
  co_location :: page_location
  co_generation :: pager_generation
  co_outcome :: completion_outcome
  co_remaining :: nat

text \<open>
  The condition variable is the number of times it has been notified: a thread that fell asleep at \<open>n\<close> has been woken
  when the number exceeds \<open>n\<close>.
\<close>

record coordinator_state =
  cs_phase :: coordinator_phase
  cs_pages :: "page_tag list"
  cs_operations :: "operation list"
  cs_completions :: "completion list"
  cs_waiter_count :: nat
  cs_action_count :: nat
  cs_next_generation :: u64
  cs_changed :: nat

record lazy_inner =
  li_limits :: lazy_limits
  li_regions :: "lazy_region_record list"
  li_memory :: guest_memory
  li_completion_capacity :: nat

datatype lazy_reservation =
  Reserve_Layout nat | Reserve_Records nat | Reserve_Pages nat | Reserve_Operations nat | Reserve_Completions nat | Reserve_View nat

text \<open>The capacity of a vector is at least what was reserved; what the allocator rounds it to is the last parameter.\<close>

definition lazy_memory_new ::
    "host_env \<Rightarrow> (lazy_reservation \<Rightarrow> bool) \<Rightarrow> (nat \<Rightarrow> nat) \<Rightarrow> u64 \<Rightarrow> lazy_limits \<Rightarrow> lazy_region list
      \<Rightarrow> (lazy_inner \<times> coordinator_state mutex, lazy_error) result" where
  "lazy_memory_new env reserve capacity next_mapping limits regions =
     (let page_size = pl_page_size (ll_pager limits); max_in_flight = pl_max_in_flight (ll_pager limits)
      in if length regions \<noteq> unat (pl_region_count (ll_pager limits)) \<or> regions = [] \<or> unat MAX_REGIONS < length regions \<or>
            max_in_flight = 0 \<or> MAX_IN_FLIGHT < max_in_flight then Err Lazy_InvalidConfiguration
         else and_then (validate_lazy_regions [] regions page_size) (\<lambda>_.
           if \<not> reserve (Reserve_Layout (length regions)) then Err MetadataAllocationFailed
           else and_then (map_err (\<lambda>_. Lazy_InvalidConfiguration) (layout_new (map lr_guest regions))) (\<lambda>layout.
             if \<not> reserve (Reserve_Records (length regions)) then Err MetadataAllocationFailed
             else and_then (number_pages page_size regions 0) (\<lambda>(records, total_pages).
               if total_pages = 0 \<or> ll_max_pages limits < total_pages then Err PageLimitExceeded
               else if \<not> reserve (Reserve_Pages (unat total_pages)) \<or> \<not> reserve (Reserve_Operations (unat max_in_flight)) \<or>
                       \<not> reserve (Reserve_Completions (unat (ll_max_waiters limits))) then Err MetadataAllocationFailed
               else and_then (map_err GuestMemoryAllocation (allocate_with_backing env layout Anonymous next_mapping)) (\<lambda>memory.
                 if length (gm_regions memory) \<noteq> length records \<or> gm_backing memory \<noteq> Anonymous then Err Lazy_InvalidConfiguration
                 else Ok (\<lparr>li_limits = limits, li_regions = records, li_memory = memory,
                           li_completion_capacity = max (unat (ll_max_waiters limits)) (capacity (unat (ll_max_waiters limits)))\<rparr>,
                          mutex_new \<lparr>cs_phase = Phase_Active, cs_pages = replicate (unat total_pages) Tag_Absent,
                            cs_operations = [], cs_completions = [], cs_waiter_count = 0, cs_action_count = 0,
                            cs_next_generation = 1, cs_changed = 0\<rparr>))))))"

section \<open>Pages\<close>

definition inner_page_size :: "lazy_inner \<Rightarrow> u64" where
  "inner_page_size l = ucast (pl_page_size (ll_pager (li_limits l)))"

definition lazy_region_at :: "lazy_inner \<Rightarrow> page_location \<Rightarrow> (lazy_region, lazy_error) result" where
  "lazy_region_at l location = ok_or (map_option rr_source (vec_get (li_regions l) (lo_region_index location))) InvalidPage"

definition page_offset :: "lazy_inner \<Rightarrow> page_location \<Rightarrow> (u64, lazy_error) result" where
  "page_offset l location = ok_or (checked_mul (of_nat (lo_page_in_region location)) (inner_page_size l)) InvalidPage"

definition page_source_offset :: "lazy_inner \<Rightarrow> page_location \<Rightarrow> (u64, lazy_error) result" where
  "page_source_offset l location =
     and_then (lazy_region_at l location) (\<lambda>region.
     and_then (page_offset l location) (\<lambda>offset. ok_or (checked_add (pr_source_offset (lr_source region)) offset) InvalidPage))"

definition page_guest_range :: "lazy_inner \<Rightarrow> page_location \<Rightarrow> (guest_memory_range, lazy_error) result" where
  "page_guest_range l location =
     and_then (lazy_region_at l location) (\<lambda>region.
     and_then (page_offset l location) (\<lambda>offset.
     and_then (ok_or (checked_add (gmr_start (lr_guest region)) offset) InvalidPage) (\<lambda>start.
       map_err (\<lambda>_. InvalidPage) (range_new start (inner_page_size l)))))"

definition inner_location :: "lazy_inner \<Rightarrow> nat \<Rightarrow> u64 \<Rightarrow> (page_location, lazy_error) result" where
  "inner_location l region_index page_in_region =
     and_then (ok_or (vec_get (li_regions l) region_index) InvalidPage) (\<lambda>record.
       if rr_page_count record \<le> unat page_in_region then Err InvalidPage
       else and_then (ok_or (usize_add (rr_first_page record) (unat page_in_region)) InvalidPage) (\<lambda>flat_index.
              Ok \<lparr>lo_region_index = region_index, lo_page_in_region = unat page_in_region, lo_flat_index = flat_index\<rparr>))"

text \<open>The loops over the regions stop at the first one that matches.\<close>

definition location_for_address :: "lazy_inner \<Rightarrow> guest_address \<Rightarrow> (page_location, lazy_error) result" where
  "location_for_address l address =
     (case position (\<lambda>record. contains (lr_guest (rr_source record)) address) (li_regions l) of
        None \<Rightarrow> Err InvalidPage
      | Some region_index \<Rightarrow>
          inner_location l region_index
            ((address - gmr_start (lr_guest (rr_source (li_regions l ! region_index)))) div inner_page_size l))"

definition location_for_page :: "lazy_inner \<Rightarrow> pager_region_id \<Rightarrow> u64 \<Rightarrow> (page_location, lazy_error) result" where
  "location_for_page l region offset =
     (if \<not> is_multiple_of offset (inner_page_size l) then Err InvalidPage
      else case position (\<lambda>record. pr_id (lr_source (rr_source record)) = region) (li_regions l) of
             None \<Rightarrow> Err InvalidPage
           | Some region_index \<Rightarrow>
               (case checked_add offset (inner_page_size l) of
                  None \<Rightarrow> Err InvalidPage
                | Some fin \<Rightarrow>
                    if pr_length (lr_source (rr_source (li_regions l ! region_index))) < fin then Err InvalidPage
                    else inner_location l region_index (offset div inner_page_size l)))"

definition removal_location :: "lazy_inner \<Rightarrow> pager_region_id \<Rightarrow> u64 \<Rightarrow> u64 \<Rightarrow> (nat \<times> nat \<times> nat, lazy_error) result" where
  "removal_location l region offset len =
     (if len = 0 \<or> \<not> is_multiple_of offset (inner_page_size l) \<or> \<not> is_multiple_of len (inner_page_size l) then Err InvalidPage
      else case position (\<lambda>record. pr_id (lr_source (rr_source record)) = region) (li_regions l) of
             None \<Rightarrow> Err InvalidPage
           | Some region_index \<Rightarrow>
               (case checked_add offset len of
                  None \<Rightarrow> Err InvalidPage
                | Some fin \<Rightarrow>
                    if pr_length (lr_source (rr_source (li_regions l ! region_index))) < fin then Err InvalidPage
                    else and_then (ok_or (usize_add (rr_first_page (li_regions l ! region_index)) (unat (offset div inner_page_size l))) InvalidPage)
                           (\<lambda>first_page. Ok (region_index, first_page, unat (len div inner_page_size l)))))"

section \<open>Targets\<close>

text \<open>A target is a range of one mapping; its \<open>initialized\<close> flag lives in the guard that handed it out.\<close>

record lazy_target =
  ta_mapping :: mapping_identity
  ta_mapping_offset :: nat
  ta_range :: guest_memory_range
  ta_length :: nat

definition inner_target :: "lazy_inner \<Rightarrow> nat \<Rightarrow> u64 \<Rightarrow> u64 \<Rightarrow> (lazy_target, lazy_error) result" where
  "inner_target l region_index region_offset len =
     and_then (ok_or (vec_get (li_regions l) region_index) InvalidPage) (\<lambda>record.
     and_then (ok_or (checked_add region_offset len) InvalidPage) (\<lambda>fin.
       if len = 0 \<or> pr_length (lr_source (rr_source record)) < fin then Err InvalidPage
       else and_then (ok_or (vec_get (gm_regions (li_memory l)) region_index) InvalidPage) (\<lambda>mapping.
         (case usize_add (unat region_offset) (unat len) of
            None \<Rightarrow> Err InvalidPage
          | Some mapping_end \<Rightarrow>
              if unat (reg_host_size mapping) < mapping_end then Err InvalidPage
              else and_then (ok_or (checked_add (gmr_start (lr_guest (rr_source record))) region_offset) InvalidPage) (\<lambda>start.
                   and_then (map_err (\<lambda>_. InvalidPage) (range_new start len)) (\<lambda>range.
                     Ok \<lparr>ta_mapping = reg_mapping mapping, ta_mapping_offset = unat (reg_mapping_offset mapping) + unat region_offset,
                         ta_range = range, ta_length = unat len\<rparr>))))))"

text \<open>\<open>copy_from_slice\<close> and \<open>zero\<close>: the store, the flag and the result.\<close>

definition target_copy :: "lazy_target \<Rightarrow> u8 list \<Rightarrow> host_store \<Rightarrow> bool \<Rightarrow> host_store \<times> bool \<times> (unit, lazy_error) result" where
  "target_copy t source st initialized =
     (if initialized then (st, initialized, Err ContentAlreadyInstalled)
      else if length source \<noteq> ta_length t then (st, initialized, Err ContentLength)
      else case host_write st (ta_mapping t) (ta_mapping_offset t) source of
             Some st' \<Rightarrow> (st', True, Ok ())
           | None \<Rightarrow> (st, initialized, Panic))"

definition target_zero :: "lazy_target \<Rightarrow> host_store \<Rightarrow> bool \<Rightarrow> host_store \<times> bool \<times> (unit, lazy_error) result" where
  "target_zero t st initialized =
     (if initialized then (st, initialized, Err ContentAlreadyInstalled)
      else case host_write st (ta_mapping t) (ta_mapping_offset t) (replicate (ta_length t) 0) of
             Some st' \<Rightarrow> (st', True, Ok ())
           | None \<Rightarrow> (st, initialized, Panic))"

definition claim_protected_consumer :: "(lazy_reservation \<Rightarrow> bool) \<Rightarrow> lazy_inner \<Rightarrow> bool \<Rightarrow> bool \<times> (guest_memory, lazy_error) result" where
  "claim_protected_consumer reserve l consumer_claimed =
     (if \<not> reserve (Reserve_View (length (gm_regions (li_memory l)))) then (consumer_claimed, Err MetadataAllocationFailed)
      else if consumer_claimed then (consumer_claimed, Err ConsumerAlreadyClaimed)
      else (True, Ok ((li_memory l)\<lparr>gm_shared_reservations := [], gm_dirty_tracker := None, gm_backing := Anonymous,
                        gm_access_profile := ProtectedLazy\<rparr>)))"

end
