(* ===== verification/Lazy_Coordinator.thy ===== *)
theory Lazy_Coordinator
  imports Lazy_Memory
begin

text \<open>
  The critical sections of the page coordinator of \<open>crates/runtime/src/lazy_memory.rs\<close>. Every method of
  \<open>LazyGuestMemoryInner\<close> that takes the lock is a function on the coordinator state; the lock itself, with its
  handling of poisoning, is added around it at the end.
\<close>

section \<open>Guards and outcomes\<close>

record lazy_population =
  po_location :: page_location
  po_region :: pager_region_id
  po_generation :: pager_generation
  po_access :: page_access
  po_offset :: u64
  po_source_offset :: u64
  po_guest_range :: guest_memory_range
  po_length :: u32

datatype lazy_fault = Fault_Present | Fault_Populate lazy_population

record lazy_publication =
  pu_location :: page_location
  pu_region_offset :: u64
  pu_generation :: pager_generation
  pu_initialized :: bool

record lazy_removal =
  re_region :: pager_region_id
  re_region_index :: nat
  re_first_page :: nat
  re_page_count :: nat
  re_region_offset :: u64
  re_source_offset :: u64
  re_length :: u64
  re_generation :: pager_generation
  re_zeroed :: bool

record removal_request =
  rq_region :: pager_region_id
  rq_region_index :: nat
  rq_first_page :: nat
  rq_page_count :: nat
  rq_offset :: u64
  rq_source_offset :: u64
  rq_length :: u64

text \<open>The four wait loops, each with what its thread needs when it wakes.\<close>

datatype lazy_wait =
    Await_Population page_location pager_generation | Await_Page page_location page_access
  | Await_Range removal_request | Await_Actions

datatype lazy_return = Ret_Fault lazy_fault | Ret_Removal lazy_removal | Ret_Unit

datatype progress = Returns "(lazy_return, lazy_error) result" | Sleeps lazy_wait

type_synonym lazy_outcome = "coordinator_state \<times> progress"

section \<open>Small steps under the lock\<close>

definition notify :: "coordinator_state \<Rightarrow> coordinator_state" where
  "notify st = st\<lparr>cs_changed := cs_changed st + 1\<rparr>"

definition finalize_if_drained_locked :: "coordinator_state \<Rightarrow> coordinator_state" where
  "finalize_if_drained_locked st =
     (if cs_action_count st \<noteq> 0 then st
      else case cs_phase st of
             Phase_Closing reason \<Rightarrow> st\<lparr>cs_phase := Phase_Terminal reason, cs_operations := [], cs_completions := []\<rparr>
           | _ \<Rightarrow> st)"

definition begin_closing_locked :: "lazy_terminal_reason \<Rightarrow> coordinator_state \<Rightarrow> coordinator_state" where
  "begin_closing_locked reason st =
     (if cs_phase st \<noteq> Phase_Active then st
      else finalize_if_drained_locked
             (st\<lparr>cs_phase := Phase_Closing reason, cs_operations := filter (\<lambda>x. is_action (op_kind x)) (cs_operations st),
                 cs_completions := []\<rparr>))"

definition phase_error :: "coordinator_state \<Rightarrow> lazy_error" where
  "phase_error st = Lazy_Terminal (case phase_reason (cs_phase st) of Some reason \<Rightarrow> reason | None \<Rightarrow> Reason_TransitionFailure)"

definition require_active :: "coordinator_state \<Rightarrow> (unit, lazy_error) result" where
  "require_active st = (if cs_phase st = Phase_Active then Ok () else Err (phase_error st))"

definition require_action_locked :: "coordinator_state \<Rightarrow> coordinator_state \<times> (unit, lazy_error) result" where
  "require_action_locked st =
     (if cs_action_count st \<noteq> 0 then (st, Ok ())
      else (notify (begin_closing_locked Reason_TransitionFailure st), Err Lazy_InvalidLifecycle))"

definition finish_action_locked :: "pager_generation \<Rightarrow> coordinator_state \<Rightarrow> coordinator_state" where
  "finish_action_locked generation st =
     finalize_if_drained_locked
       (case position (\<lambda>operation. op_generation operation = generation \<and> is_action (op_kind operation)) (cs_operations st) of
          None \<Rightarrow> st
        | Some index \<Rightarrow>
            (let st' = st\<lparr>cs_operations := vec_remove index (cs_operations st)\<rparr>
             in if cs_action_count st' = 0 then begin_closing_locked Reason_TransitionFailure st'
                else st'\<lparr>cs_action_count := cs_action_count st' - 1\<rparr>))"

definition allocate_generation :: "coordinator_state \<Rightarrow> coordinator_state \<times> (pager_generation, lazy_error) result" where
  "allocate_generation st =
     (case checked_add (cs_next_generation st) 1 of
        None \<Rightarrow> (st, Err GenerationExhausted)
      | Some nxt \<Rightarrow>
          (case map_err (\<lambda>_. GenerationExhausted) (identifier_new (cs_next_generation st)) of
             Ok generation \<Rightarrow> (st\<lparr>cs_next_generation := nxt\<rparr>, Ok generation)
           | Err e \<Rightarrow> (st, Err e)
           | Panic \<Rightarrow> (st, Panic)))"

definition allocate_generation_locked :: "coordinator_state \<Rightarrow> coordinator_state \<times> (pager_generation, lazy_error) result" where
  "allocate_generation_locked st =
     (case allocate_generation st of
        (st', Err e) \<Rightarrow> (notify (begin_closing_locked Reason_TransitionFailure st'), Err e)
      | (st', res) \<Rightarrow> (st', res))"

definition admit_waiter :: "lazy_inner \<Rightarrow> coordinator_state \<Rightarrow> coordinator_state \<times> (unit, lazy_error) result" where
  "admit_waiter l st =
     (if unat (ll_max_waiters (li_limits l)) \<le> cs_waiter_count st then (st, Err WaiterLimitExceeded)
      else case usize_add (cs_waiter_count st) 1 of
             None \<Rightarrow> (st, Err WaiterLimitExceeded)
           | Some n \<Rightarrow> (st\<lparr>cs_waiter_count := n\<rparr>, Ok ()))"

text \<open>The waiter count goes down by one, not below zero.\<close>

definition leave_waiter :: "coordinator_state \<Rightarrow> coordinator_state" where
  "leave_waiter st = st\<lparr>cs_waiter_count := cs_waiter_count st - 1\<rparr>"

definition record_completion ::
    "page_location \<Rightarrow> pager_generation \<Rightarrow> completion_outcome \<Rightarrow> nat \<Rightarrow> coordinator_state \<Rightarrow> coordinator_state" where
  "record_completion location generation outcome waiters st =
     (if waiters = 0 then st
      else st\<lparr>cs_completions := cs_completions st @
               [\<lparr>co_location = location, co_generation = generation, co_outcome = outcome, co_remaining = waiters\<rparr>]\<rparr>)"

section \<open>Finding operations\<close>

fun population_at :: "page_location \<Rightarrow> population_stage \<Rightarrow> lazy_operation_kind \<Rightarrow> bool" where
  "population_at location stage (Population loc st waiters) = (loc = location \<and> st = stage)"
| "population_at location stage (Removal region_index first_page page_count) = False"

fun loading_page :: "nat \<Rightarrow> lazy_operation_kind \<Rightarrow> bool" where
  "loading_page flat_index (Population loc st waiters) = (st = Stage_Loading \<and> lo_flat_index loc = flat_index)"
| "loading_page flat_index (Removal region_index first_page page_count) = False"

definition population_operation_for_page :: "operation list \<Rightarrow> page_location \<Rightarrow> bool \<Rightarrow> (nat \<times> pager_generation) option" where
  "population_operation_for_page operations location publishing =
     (let expected = (if publishing then Stage_Publishing else Stage_Loading)
      in map_option (\<lambda>index. (index, op_generation (operations ! index)))
           (position (\<lambda>operation. population_at location expected (op_kind operation)) operations))"

definition publishing_operation :: "operation list \<Rightarrow> page_location \<Rightarrow> pager_generation \<Rightarrow> nat option" where
  "publishing_operation operations location generation =
     position (\<lambda>operation. op_generation operation = generation \<and> population_at location Stage_Publishing (op_kind operation)) operations"

definition removal_operation :: "operation list \<Rightarrow> nat \<Rightarrow> nat \<Rightarrow> nat \<Rightarrow> pager_generation \<Rightarrow> nat option" where
  "removal_operation operations region_index first_page page_count generation =
     position (\<lambda>operation. op_generation operation = generation \<and>
       op_kind operation = Removal region_index first_page page_count) operations"

section \<open>Faults\<close>

definition wait_for_population :: "page_location \<Rightarrow> pager_generation \<Rightarrow> coordinator_state \<Rightarrow> lazy_outcome" where
  "wait_for_population location generation st =
     (case phase_reason (cs_phase st) of
        Some reason \<Rightarrow> (leave_waiter st, Returns (Err (Lazy_Terminal reason)))
      | None \<Rightarrow>
          (case position (\<lambda>c. co_location c = location \<and> co_generation c = generation) (cs_completions st) of
             Some index \<Rightarrow>
               (let c = cs_completions st ! index; remaining = co_remaining c - 1;
                    st' = st\<lparr>cs_completions := (if remaining = 0 then vec_remove index (cs_completions st)
                              else (cs_completions st)[index := c\<lparr>co_remaining := remaining\<rparr>])\<rparr>
                in (leave_waiter st', Returns (case co_outcome c of Outcome_Present \<Rightarrow> Ok (Ret_Fault Fault_Present)
                                                 | Outcome_Superseded \<Rightarrow> Err StaleGeneration)))
           | None \<Rightarrow>
               if list_ex (\<lambda>operation. op_generation operation = generation \<and>
                    (case op_kind operation of Population loc stage waiters \<Rightarrow> loc = location | _ \<Rightarrow> False)) (cs_operations st)
               then (st, Sleeps (Await_Population location generation))
               else (leave_waiter st, Returns (Err Lazy_InvalidLifecycle))))"

definition populate_page :: "lazy_inner \<Rightarrow> page_location \<Rightarrow> page_access \<Rightarrow> coordinator_state \<Rightarrow> lazy_outcome" where
  "populate_page l location access st =
     (if unat (pl_max_in_flight (ll_pager (li_limits l))) \<le> length (cs_operations st)
      then (st, Returns (Err InFlightLimitExceeded))
      else case and_then (lazy_region_at l location) (\<lambda>region. and_then (page_offset l location) (\<lambda>offset.
                and_then (page_source_offset l location) (\<lambda>source_offset. and_then (page_guest_range l location) (\<lambda>guest_range.
                  Ok (region, offset, source_offset, guest_range))))) of
             Err e \<Rightarrow> (st, Returns (Err e))
           | Panic \<Rightarrow> (st, Returns Panic)
           | Ok (region, offset, source_offset, guest_range) \<Rightarrow>
               (case allocate_generation_locked st of
                  (st', Err e) \<Rightarrow> (st', Returns (Err e))
                | (st', Panic) \<Rightarrow> (st', Returns Panic)
                | (st', Ok generation) \<Rightarrow>
                    (st'\<lparr>cs_pages := (cs_pages st')[lo_flat_index location := Tag_Loading],
                         cs_operations := cs_operations st' @
                           [\<lparr>op_generation = generation, op_kind = Population location Stage_Loading 0\<rparr>]\<rparr>,
                     Returns (Ok (Ret_Fault (Fault_Populate
                       \<lparr>po_location = location, po_region = pr_id (lr_source region), po_generation = generation,
                        po_access = access, po_offset = offset, po_source_offset = source_offset,
                        po_guest_range = guest_range, po_length = pl_page_size (ll_pager (li_limits l))\<rparr>))))))"

definition join_population :: "lazy_inner \<Rightarrow> page_location \<Rightarrow> bool \<Rightarrow> coordinator_state \<Rightarrow> lazy_outcome" where
  "join_population l location publishing st =
     (case population_operation_for_page (cs_operations st) location publishing of
        None \<Rightarrow> (st, Returns (Err Lazy_InvalidLifecycle))
      | Some (operation_index, generation) \<Rightarrow>
          (case admit_waiter l st of
             (st', Ok _) \<Rightarrow>
               (case map_option op_kind (vec_get (cs_operations st') operation_index) of
                  Some (Population loc stage waiters) \<Rightarrow>
                    (case usize_add waiters 1 of
                       None \<Rightarrow> (st', Returns (Err WaiterLimitExceeded))
                     | Some n \<Rightarrow>
                         wait_for_population location generation
                           (st'\<lparr>cs_operations := (cs_operations st')[operation_index :=
                              (cs_operations st' ! operation_index)\<lparr>op_kind := Population loc stage n\<rparr>]\<rparr>))
                | _ \<Rightarrow> (st', Returns (Err Lazy_InvalidLifecycle)))
           | (st', Err e) \<Rightarrow> (st', Returns (Err e))
           | (st', Panic) \<Rightarrow> (st', Returns Panic)))"

text \<open>
  One turn of the loop of \<open>fault\<close>. On a page that is being removed the thread is admitted as a waiter and sleeps, for the
  first test of \<open>wait_for_page_change\<close> repeats the two that led to it.
\<close>

definition fault :: "lazy_inner \<Rightarrow> page_location \<Rightarrow> page_access \<Rightarrow> coordinator_state \<Rightarrow> lazy_outcome" where
  "fault l location access st =
     (case require_active st of
        Err e \<Rightarrow> (st, Returns (Err e))
      | Panic \<Rightarrow> (st, Returns Panic)
      | Ok _ \<Rightarrow>
          (case vec_get (cs_pages st) (lo_flat_index location) of
             None \<Rightarrow> (st, Returns (Err InvalidPage))
           | Some Tag_Absent \<Rightarrow> populate_page l location access st
           | Some Tag_Present \<Rightarrow> (st, Returns (Ok (Ret_Fault Fault_Present)))
           | Some Tag_Loading \<Rightarrow> join_population l location False st
           | Some Tag_Publishing \<Rightarrow> join_population l location True st
           | Some Tag_Removing \<Rightarrow>
               (case admit_waiter l st of
                  (st', Ok _) \<Rightarrow> (st', Sleeps (Await_Page location access))
                | (st', Err e) \<Rightarrow> (st', Returns (Err e))
                | (st', Panic) \<Rightarrow> (st', Returns Panic))))"

definition wait_for_page_change :: "lazy_inner \<Rightarrow> page_location \<Rightarrow> page_access \<Rightarrow> coordinator_state \<Rightarrow> lazy_outcome" where
  "wait_for_page_change l location access st =
     (case phase_reason (cs_phase st) of
        Some reason \<Rightarrow> (leave_waiter st, Returns (Err (Lazy_Terminal reason)))
      | None \<Rightarrow>
          if vec_get (cs_pages st) (lo_flat_index location) \<noteq> Some Tag_Removing then fault l location access (leave_waiter st)
          else (st, Sleeps (Await_Page location access)))"

section \<open>Publication\<close>

definition fail_transition :: "coordinator_state \<Rightarrow> coordinator_state" where
  "fail_transition st = notify (begin_closing_locked Reason_TransitionFailure st)"

text \<open>\<open>region_offset\<close> is computed before the lock is taken.\<close>

definition begin_publication ::
    "page_location \<Rightarrow> pager_generation \<Rightarrow> u64 \<Rightarrow> coordinator_state \<Rightarrow> coordinator_state \<times> (lazy_publication, lazy_error) result" where
  "begin_publication location generation region_offset st =
     (case require_active st of
        Err e \<Rightarrow> (st, Err e)
      | Panic \<Rightarrow> (st, Panic)
      | Ok _ \<Rightarrow>
          (case position (\<lambda>operation. op_generation operation = generation) (cs_operations st) of
             None \<Rightarrow> (st, Err StaleGeneration)
           | Some index \<Rightarrow>
               (case op_kind (cs_operations st ! index) of
                  Population loc stage waiters \<Rightarrow>
                    if loc \<noteq> location then (fail_transition st, Err Lazy_InvalidLifecycle)
                    else (case stage of
                            Stage_Retired \<Rightarrow> (notify (st\<lparr>cs_operations := vec_remove index (cs_operations st)\<rparr>), Err StaleGeneration)
                          | Stage_Publishing \<Rightarrow> (fail_transition st, Err Lazy_InvalidLifecycle)
                          | Stage_Loading \<Rightarrow>
                              if vec_get (cs_pages st) (lo_flat_index location) \<noteq> Some Tag_Loading
                              then (fail_transition st, Err Lazy_InvalidLifecycle)
                              else (let st' = st\<lparr>cs_operations := (cs_operations st)[index :=
                                          (cs_operations st ! index)\<lparr>op_kind := Population loc Stage_Publishing waiters\<rparr>],
                                        cs_pages := (cs_pages st)[lo_flat_index location := Tag_Publishing]\<rparr>
                                    in case usize_add (cs_action_count st') 1 of
                                         None \<Rightarrow> (st', Err Lazy_InvalidLifecycle)
                                       | Some n \<Rightarrow> (st'\<lparr>cs_action_count := n\<rparr>,
                                           Ok \<lparr>pu_location = location, pu_region_offset = region_offset,
                                               pu_generation = generation, pu_initialized = False\<rparr>)))
                | Removal region_index first_page page_count \<Rightarrow> (fail_transition st, Err Lazy_InvalidLifecycle))))"

definition commit_publication ::
    "page_location \<Rightarrow> pager_generation \<Rightarrow> coordinator_state \<Rightarrow> coordinator_state \<times> (unit, lazy_error) result" where
  "commit_publication location generation st =
     (if cs_phase st \<noteq> Phase_Active
      then let st' = notify (finish_action_locked generation st) in (st', Err (phase_error st'))
      else case require_action_locked st of
             (st', Err e) \<Rightarrow> (st', Err e)
           | (st', Panic) \<Rightarrow> (st', Panic)
           | (st', Ok _) \<Rightarrow>
               (case publishing_operation (cs_operations st') location generation of
                  None \<Rightarrow> (st', Err Lazy_InvalidLifecycle)
                | Some index \<Rightarrow>
                    (case op_kind (cs_operations st' ! index) of
                       Removal region_index first_page page_count \<Rightarrow> (st', Err Lazy_InvalidLifecycle)
                     | Population loc stage waiters \<Rightarrow>
                         (let st'' = st'\<lparr>cs_operations := vec_remove index (cs_operations st')\<rparr>
                          in if length (cs_pages st'') \<le> lo_flat_index location then (st'', Err InvalidPage)
                             else (let st3 = record_completion location generation Outcome_Present waiters
                                       (st''\<lparr>cs_pages := (cs_pages st'')[lo_flat_index location := Tag_Present]\<rparr>)
                                   in (notify (finalize_if_drained_locked (st3\<lparr>cs_action_count := cs_action_count st3 - 1\<rparr>)), Ok ()))))))"

definition drop_population :: "page_location \<Rightarrow> pager_generation \<Rightarrow> coordinator_state \<Rightarrow> coordinator_state" where
  "drop_population location generation st =
     (case position (\<lambda>operation. op_generation operation = generation) (cs_operations st) of
        None \<Rightarrow> st
      | Some index \<Rightarrow>
          (case op_kind (cs_operations st ! index) of
             Population loc stage waiters \<Rightarrow>
               if loc \<noteq> location then st
               else if stage = Stage_Retired then notify (st\<lparr>cs_operations := vec_remove index (cs_operations st)\<rparr>)
               else fail_transition st
           | Removal region_index first_page page_count \<Rightarrow> st))"

definition drop_publication :: "page_location \<Rightarrow> pager_generation \<Rightarrow> coordinator_state \<Rightarrow> coordinator_state" where
  "drop_publication location generation st =
     (if publishing_operation (cs_operations st) location generation \<noteq> None
      then fail_transition (finish_action_locked generation st) else st)"

text \<open>The consuming methods of the guard: a commit without contents only drops it.\<close>

definition publication_commit ::
    "lazy_publication \<Rightarrow> coordinator_state \<Rightarrow> coordinator_state \<times> (unit, lazy_error) result" where
  "publication_commit p st =
     (if \<not> pu_initialized p then (drop_publication (pu_location p) (pu_generation p) st, Err ContentMissing)
      else case commit_publication (pu_location p) (pu_generation p) st of
             (st', Ok _) \<Rightarrow> (st', Ok ())
           | (st', Err e) \<Rightarrow> (drop_publication (pu_location p) (pu_generation p) st', Err e)
           | (st', Panic) \<Rightarrow> (st', Panic))"

section \<open>Removal\<close>

definition range_has_action :: "coordinator_state \<Rightarrow> nat \<Rightarrow> nat \<Rightarrow> (bool, lazy_error) result" where
  "range_has_action st first_page page_count =
     and_then (ok_or (usize_add first_page page_count) InvalidPage) (\<lambda>fin.
       Ok (list_ex (\<lambda>i. vec_get (cs_pages st) i \<in> {Some Tag_Publishing, Some Tag_Removing}) [first_page..<fin]))"

text \<open>The loop of \<open>validate_removal_transition\<close>: the completions that retiring the loading pages needs.\<close>

fun completion_slots :: "coordinator_state \<Rightarrow> nat list \<Rightarrow> nat \<Rightarrow> (nat, lazy_error) result" where
  "completion_slots st [] slots = Ok slots"
| "completion_slots st (i # is) slots =
     (case vec_get (cs_pages st) i of
        None \<Rightarrow> Err InvalidPage
      | Some Tag_Absent \<Rightarrow> completion_slots st is slots
      | Some Tag_Present \<Rightarrow> completion_slots st is slots
      | Some Tag_Loading \<Rightarrow>
          (case find (\<lambda>operation. loading_page i (op_kind operation)) (cs_operations st) of
             None \<Rightarrow> Err Lazy_InvalidLifecycle
           | Some operation \<Rightarrow>
               (case op_kind operation of
                  Population loc stage waiters \<Rightarrow>
                    if waiters \<noteq> 0
                    then and_then (ok_or (usize_add slots 1) Lazy_InvalidLifecycle) (completion_slots st is)
                    else completion_slots st is slots
                | _ \<Rightarrow> completion_slots st is slots))
      | Some _ \<Rightarrow> Err Lazy_InvalidLifecycle)"

definition validate_removal_transition :: "lazy_inner \<Rightarrow> coordinator_state \<Rightarrow> nat \<Rightarrow> nat \<Rightarrow> (unit, lazy_error) result" where
  "validate_removal_transition l st first_page page_count =
     and_then (ok_or (usize_add first_page page_count) InvalidPage) (\<lambda>fin.
     and_then (completion_slots st [first_page..<fin] 0) (\<lambda>slots.
       case usize_add (length (cs_completions st)) slots of
         None \<Rightarrow> Err WaiterLimitExceeded
       | Some required \<Rightarrow> if li_completion_capacity l < required then Err WaiterLimitExceeded else Ok ()))"

definition retire_population_for_page :: "nat \<Rightarrow> coordinator_state \<Rightarrow> coordinator_state \<times> (unit, lazy_error) result" where
  "retire_population_for_page flat_index st =
     (case position (\<lambda>operation. loading_page flat_index (op_kind operation)) (cs_operations st) of
        None \<Rightarrow> (st, Err Lazy_InvalidLifecycle)
      | Some index \<Rightarrow>
          (let operation = cs_operations st ! index
           in case op_kind operation of
                Removal region_index first_page page_count \<Rightarrow> (st, Err Lazy_InvalidLifecycle)
              | Population loc stage waiters \<Rightarrow>
                  (record_completion loc (op_generation operation) Outcome_Superseded waiters
                     (st\<lparr>cs_operations := (cs_operations st)[index := operation\<lparr>op_kind := Population loc Stage_Retired 0\<rparr>]\<rparr>), Ok ())))"

fun remove_pages :: "nat list \<Rightarrow> coordinator_state \<Rightarrow> coordinator_state \<times> (unit, lazy_error) result" where
  "remove_pages [] st = (st, Ok ())"
| "remove_pages (i # is) st =
     (case (if vec_get (cs_pages st) i = Some Tag_Loading then retire_population_for_page i st else (st, Ok ())) of
        (st', Err e) \<Rightarrow> (st', Err e)
      | (st', Panic) \<Rightarrow> (st', Panic)
      | (st', Ok _) \<Rightarrow>
          if length (cs_pages st') \<le> i then (st', Err InvalidPage)
          else remove_pages is (st'\<lparr>cs_pages := (cs_pages st')[i := Tag_Removing]\<rparr>))"

definition issue_removal :: "lazy_inner \<Rightarrow> removal_request \<Rightarrow> coordinator_state \<Rightarrow> lazy_outcome" where
  "issue_removal l rq st =
     (if unat (pl_max_in_flight (ll_pager (li_limits l))) \<le> length (cs_operations st)
      then (st, Returns (Err InFlightLimitExceeded))
      else case validate_removal_transition l st (rq_first_page rq) (rq_page_count rq) of
             Err e \<Rightarrow> (st, Returns (Err e))
           | Panic \<Rightarrow> (st, Returns Panic)
           | Ok _ \<Rightarrow>
               (case allocate_generation_locked st of
                  (st', Err e) \<Rightarrow> (st', Returns (Err e))
                | (st', Panic) \<Rightarrow> (st', Returns Panic)
                | (st', Ok generation) \<Rightarrow>
                    (let st'' = st'\<lparr>cs_operations := cs_operations st' @
                           [\<lparr>op_generation = generation, op_kind = Removal (rq_region_index rq) (rq_first_page rq) (rq_page_count rq)\<rparr>]\<rparr>
                     in case usize_add (cs_action_count st'') 1 of
                          None \<Rightarrow> (st'', Returns (Err Lazy_InvalidLifecycle))
                        | Some n \<Rightarrow>
                            (case usize_add (rq_first_page rq) (rq_page_count rq) of
                               None \<Rightarrow> (st''\<lparr>cs_action_count := n\<rparr>, Returns (Err InvalidPage))
                             | Some fin \<Rightarrow>
                                 (case remove_pages [rq_first_page rq..<fin] (st''\<lparr>cs_action_count := n\<rparr>) of
                                    (st3, Err e) \<Rightarrow> (st3, Returns (Err e))
                                  | (st3, Panic) \<Rightarrow> (st3, Returns Panic)
                                  | (st3, Ok _) \<Rightarrow>
                                      (notify st3, Returns (Ok (Ret_Removal
                                         \<lparr>re_region = rq_region rq, re_region_index = rq_region_index rq, re_first_page = rq_first_page rq,
                                          re_page_count = rq_page_count rq, re_region_offset = rq_offset rq,
                                          re_source_offset = rq_source_offset rq, re_length = rq_length rq,
                                          re_generation = generation, re_zeroed = False\<rparr>))))))))"

text \<open>
  One turn of the loop of \<open>begin_removal\<close>; the first test of \<open>wait_for_range_actions\<close> repeats the two that led to it.
\<close>

definition removal :: "lazy_inner \<Rightarrow> removal_request \<Rightarrow> coordinator_state \<Rightarrow> lazy_outcome" where
  "removal l rq st =
     (case and_then (require_active st) (\<lambda>_. range_has_action st (rq_first_page rq) (rq_page_count rq)) of
        Err e \<Rightarrow> (st, Returns (Err e))
      | Panic \<Rightarrow> (st, Returns Panic)
      | Ok True \<Rightarrow>
          (case admit_waiter l st of
             (st', Ok _) \<Rightarrow> (st', Sleeps (Await_Range rq))
           | (st', Err e) \<Rightarrow> (st', Returns (Err e))
           | (st', Panic) \<Rightarrow> (st', Returns Panic))
      | Ok False \<Rightarrow> issue_removal l rq st)"

definition wait_for_range_actions :: "lazy_inner \<Rightarrow> removal_request \<Rightarrow> coordinator_state \<Rightarrow> lazy_outcome" where
  "wait_for_range_actions l rq st =
     (case phase_reason (cs_phase st) of
        Some reason \<Rightarrow> (leave_waiter st, Returns (Err (Lazy_Terminal reason)))
      | None \<Rightarrow>
          (case range_has_action st (rq_first_page rq) (rq_page_count rq) of
             Err e \<Rightarrow> (st, Returns (Err e))
           | Panic \<Rightarrow> (st, Returns Panic)
           | Ok True \<Rightarrow> (st, Sleeps (Await_Range rq))
           | Ok False \<Rightarrow> removal l rq (leave_waiter st)))"

fun absent_pages :: "nat list \<Rightarrow> page_tag list \<Rightarrow> page_tag list \<times> (unit, lazy_error) result" where
  "absent_pages [] pages = (pages, Ok ())"
| "absent_pages (i # is) pages =
     (case vec_get pages i of
        None \<Rightarrow> (pages, Err InvalidPage)
      | Some tag \<Rightarrow> if tag \<noteq> Tag_Removing then (pages, Err Lazy_InvalidLifecycle) else absent_pages is (pages[i := Tag_Absent]))"

definition commit_removal ::
    "nat \<Rightarrow> nat \<Rightarrow> nat \<Rightarrow> pager_generation \<Rightarrow> coordinator_state \<Rightarrow> coordinator_state \<times> (unit, lazy_error) result" where
  "commit_removal region_index first_page page_count generation st =
     (if cs_phase st \<noteq> Phase_Active
      then let st' = notify (finish_action_locked generation st) in (st', Err (phase_error st'))
      else case require_action_locked st of
             (st', Err e) \<Rightarrow> (st', Err e)
           | (st', Panic) \<Rightarrow> (st', Panic)
           | (st', Ok _) \<Rightarrow>
               (case removal_operation (cs_operations st') region_index first_page page_count generation of
                  None \<Rightarrow> (st', Err Lazy_InvalidLifecycle)
                | Some index \<Rightarrow>
                    (case usize_add first_page page_count of
                       None \<Rightarrow> (st', Err InvalidPage)
                     | Some fin \<Rightarrow>
                         (case absent_pages [first_page..<fin] (cs_pages st') of
                            (pages, Err e) \<Rightarrow> (st'\<lparr>cs_pages := pages\<rparr>, Err e)
                          | (pages, Panic) \<Rightarrow> (st'\<lparr>cs_pages := pages\<rparr>, Panic)
                          | (pages, Ok _) \<Rightarrow>
                              (notify (finalize_if_drained_locked (st'\<lparr>cs_pages := pages,
                                 cs_operations := vec_remove index (cs_operations st'), cs_action_count := cs_action_count st' - 1\<rparr>)),
                               Ok ())))))"

definition drop_removal :: "nat \<Rightarrow> nat \<Rightarrow> nat \<Rightarrow> pager_generation \<Rightarrow> coordinator_state \<Rightarrow> coordinator_state" where
  "drop_removal region_index first_page page_count generation st =
     (if removal_operation (cs_operations st) region_index first_page page_count generation \<noteq> None
      then fail_transition (finish_action_locked generation st) else st)"

definition commit_acknowledged :: "lazy_removal \<Rightarrow> coordinator_state \<Rightarrow> coordinator_state \<times> (unit, lazy_error) result" where
  "commit_acknowledged r st =
     (let drop_guard = drop_removal (re_region_index r) (re_first_page r) (re_page_count r) (re_generation r)
      in if \<not> re_zeroed r then (drop_guard st, Err ContentMissing)
         else case commit_removal (re_region_index r) (re_first_page r) (re_page_count r) (re_generation r) st of
                (st', Ok _) \<Rightarrow> (st', Ok ())
              | (st', Err e) \<Rightarrow> (drop_guard st', Err e)
              | (st', Panic) \<Rightarrow> (st', Panic))"

section \<open>The owner\<close>

datatype lazy_page_state = State_Absent | State_Loading | State_Publishing | State_Present | State_Removing | State_Terminal

definition page_state :: "page_location \<Rightarrow> coordinator_state \<Rightarrow> (lazy_page_state, lazy_error) result" where
  "page_state location st =
     (if cs_phase st \<noteq> Phase_Active then Ok State_Terminal
      else case vec_get (cs_pages st) (lo_flat_index location) of
             Some Tag_Absent \<Rightarrow> Ok State_Absent
           | Some Tag_Loading \<Rightarrow> Ok State_Loading
           | Some Tag_Publishing \<Rightarrow> Ok State_Publishing
           | Some Tag_Present \<Rightarrow> Ok State_Present
           | Some Tag_Removing \<Rightarrow> Ok State_Removing
           | None \<Rightarrow> Err InvalidPage)"

definition wait_for_actions :: "coordinator_state \<Rightarrow> lazy_outcome" where
  "wait_for_actions st =
     (if cs_action_count st \<noteq> 0 then (st, Sleeps Await_Actions)
      else (notify (finalize_if_drained_locked st), Returns (Ok Ret_Unit)))"

definition terminate :: "lazy_terminal_reason \<Rightarrow> coordinator_state \<Rightarrow> lazy_outcome" where
  "terminate reason st = wait_for_actions (notify (begin_closing_locked reason st))"

text \<open>\<open>signal_terminal\<close>, and \<open>close_nonblocking\<close> of the owner's destructor.\<close>

definition signal_terminal :: "lazy_terminal_reason \<Rightarrow> coordinator_state \<Rightarrow> coordinator_state" where
  "signal_terminal reason st = notify (begin_closing_locked reason st)"

text \<open>What a sleeping thread does when it wakes and holds the lock again.\<close>

fun resume :: "lazy_inner \<Rightarrow> lazy_wait \<Rightarrow> coordinator_state \<Rightarrow> lazy_outcome" where
  "resume l (Await_Population location generation) st = wait_for_population location generation st"
| "resume l (Await_Page location access) st = wait_for_page_change l location access st"
| "resume l (Await_Range rq) st = wait_for_range_actions l rq st"
| "resume l Await_Actions st = wait_for_actions st"

section \<open>The lock\<close>

definition recover_poison :: "coordinator_state \<Rightarrow> coordinator_state" where
  "recover_poison st = (begin_closing_locked Reason_StatePoisoned st)\<lparr>cs_waiter_count := 0\<rparr>"

text \<open>\<open>lock_state\<close>, and \<open>wait_state\<close> on waking: a poisoned lock closes the owner, notifies and fails.\<close>

definition lock_state ::
    "'r \<Rightarrow> (coordinator_state \<Rightarrow> coordinator_state \<times> 'r) \<Rightarrow> coordinator_state mutex \<Rightarrow> coordinator_state mutex \<times> 'r" where
  "lock_state poisoned section m =
     (if mx_poisoned m then (m\<lparr>mx_value := notify (recover_poison (mx_value m))\<rparr>, poisoned)
      else case section (mx_value m) of (st, r) \<Rightarrow> (m\<lparr>mx_value := st\<rparr>, r))"

text \<open>\<open>lock_state_for_drop\<close>: a destructor goes on with the recovered state.\<close>

definition lock_state_for_drop :: "(coordinator_state \<Rightarrow> coordinator_state) \<Rightarrow> coordinator_state mutex \<Rightarrow> coordinator_state mutex" where
  "lock_state_for_drop section m =
     m\<lparr>mx_value := section (if mx_poisoned m then recover_poison (mx_value m) else mx_value m)\<rparr>"

definition fault_page ::
    "lazy_inner \<Rightarrow> pager_region_id \<Rightarrow> u64 \<Rightarrow> page_access \<Rightarrow> coordinator_state mutex \<Rightarrow> coordinator_state mutex \<times> progress" where
  "fault_page l region offset access m =
     (case location_for_page l region offset of
        Err e \<Rightarrow> (m, Returns (Err e))
      | Panic \<Rightarrow> (m, Returns Panic)
      | Ok location \<Rightarrow> lock_state (Returns (Err Lazy_StatePoisoned)) (fault l location access) m)"

definition fault_address ::
    "lazy_inner \<Rightarrow> guest_address \<Rightarrow> page_access \<Rightarrow> coordinator_state mutex \<Rightarrow> coordinator_state mutex \<times> progress" where
  "fault_address l address access m =
     (case location_for_address l address of
        Err e \<Rightarrow> (m, Returns (Err e))
      | Panic \<Rightarrow> (m, Returns Panic)
      | Ok location \<Rightarrow> lock_state (Returns (Err Lazy_StatePoisoned)) (fault l location access) m)"

definition begin_removal ::
    "lazy_inner \<Rightarrow> pager_region_id \<Rightarrow> u64 \<Rightarrow> u64 \<Rightarrow> coordinator_state mutex \<Rightarrow> coordinator_state mutex \<times> progress" where
  "begin_removal l region offset len m =
     (case and_then (removal_location l region offset len) (\<lambda>(region_index, first_page, page_count).
             and_then (ok_or (vec_get (li_regions l) region_index) InvalidPage) (\<lambda>record.
             and_then (ok_or (checked_add (pr_source_offset (lr_source (rr_source record))) offset) InvalidPage) (\<lambda>source_offset.
               Ok \<lparr>rq_region = region, rq_region_index = region_index, rq_first_page = first_page, rq_page_count = page_count,
                   rq_offset = offset, rq_source_offset = source_offset, rq_length = len\<rparr>))) of
        Err e \<Rightarrow> (m, Returns (Err e))
      | Panic \<Rightarrow> (m, Returns Panic)
      | Ok rq \<Rightarrow> lock_state (Returns (Err Lazy_StatePoisoned)) (removal l rq) m)"

definition population_begin_publication ::
    "lazy_inner \<Rightarrow> lazy_population \<Rightarrow> coordinator_state mutex \<Rightarrow> coordinator_state mutex \<times> (lazy_publication, lazy_error) result" where
  "population_begin_publication l p m =
     (case page_offset l (po_location p) of
        Err e \<Rightarrow> (m, Err e)
      | Panic \<Rightarrow> (m, Panic)
      | Ok region_offset \<Rightarrow>
          lock_state (Err Lazy_StatePoisoned) (begin_publication (po_location p) (po_generation p) region_offset) m)"

end
