(* ===== verification/Lazy_System.thy ===== *)
theory Lazy_System
  imports Lazy_Coordinator "HOL-Library.Multiset"
begin

text \<open>
  Threads around the page coordinator: any interleaving of faults, publications, removals, wake-ups, dropped guards and
  shutdowns, as a run of actions over a system that holds the locked state, the live guards and the sleeping threads; and
  the invariant that every run keeps.
\<close>

section \<open>The system\<close>

record lazy_system =
  ls_lock :: "coordinator_state mutex"
  ls_populations :: "lazy_population list"
  ls_publications :: "lazy_publication list"
  ls_removals :: "lazy_removal list"
  ls_sleeping :: "(lazy_wait \<times> nat) list"

datatype lazy_call =
    Call_FaultPage pager_region_id u64 page_access | Call_FaultAddress guest_address page_access
  | Call_BeginRemoval pager_region_id u64 u64 | Call_Terminate lazy_terminal_reason

fun start_call :: "lazy_inner \<Rightarrow> lazy_call \<Rightarrow> coordinator_state mutex \<Rightarrow> coordinator_state mutex \<times> progress" where
  "start_call l (Call_FaultPage region offset access) m = fault_page l region offset access m"
| "start_call l (Call_FaultAddress address access) m = fault_address l address access m"
| "start_call l (Call_BeginRemoval region offset len) m = begin_removal l region offset len m"
| "start_call l (Call_Terminate reason) m = lock_state (Returns (Err Lazy_StatePoisoned)) (terminate reason) m"

text \<open>What a call leaves behind: a guard, a sleeping thread with the notifications it has seen, or nothing.\<close>

fun settle :: "progress \<Rightarrow> lazy_system \<Rightarrow> lazy_system" where
  "settle (Returns (Ok (Ret_Fault (Fault_Populate p)))) s = s\<lparr>ls_populations := ls_populations s @ [p]\<rparr>"
| "settle (Returns (Ok (Ret_Removal r))) s = s\<lparr>ls_removals := ls_removals s @ [r]\<rparr>"
| "settle (Sleeps w) s = s\<lparr>ls_sleeping := ls_sleeping s @ [(w, cs_changed (mx_value (ls_lock s)))]\<rparr>"
| "settle _ s = s"

datatype lazy_action =
    Start lazy_call | Wake nat | Publish nat | Drop_Population nat | Install nat | Commit nat | Drop_Publication nat
  | Zero nat | Acknowledge nat | Drop_Removal nat | Signal lazy_terminal_reason

text \<open>
  The numbers select a guard or a sleeping thread; an action on one that does not exist does nothing. \<open>Install\<close> and \<open>Zero\<close>
  are a successful use of the guard's target. A thread may wake without having been notified. No action poisons the lock, so the
  recovery paths of a poisoned lock, which differ between the calls of the source, are not exercised here.
\<close>

fun lazy_apply :: "lazy_inner \<Rightarrow> lazy_system \<Rightarrow> lazy_action \<Rightarrow> lazy_system" where
  "lazy_apply l s (Start c) = (case start_call l c (ls_lock s) of (m, r) \<Rightarrow> settle r (s\<lparr>ls_lock := m\<rparr>))"
| "lazy_apply l s (Wake k) =
     (case vec_get (ls_sleeping s) k of
        None \<Rightarrow> s
      | Some (w, seen) \<Rightarrow>
          (case lock_state (Returns (Err Lazy_StatePoisoned)) (resume l w) (ls_lock s) of (m, r) \<Rightarrow>
             settle r (s\<lparr>ls_lock := m, ls_sleeping := vec_remove k (ls_sleeping s)\<rparr>)))"
| "lazy_apply l s (Publish k) =
     (case vec_get (ls_populations s) k of
        None \<Rightarrow> s
      | Some p \<Rightarrow>
          (case population_begin_publication l p (ls_lock s) of (m, r) \<Rightarrow>
             s\<lparr>ls_lock := m, ls_populations := vec_remove k (ls_populations s),
               ls_publications := ls_publications s @ (case r of Ok u \<Rightarrow> [u] | _ \<Rightarrow> [])\<rparr>))"
| "lazy_apply l s (Drop_Population k) =
     (case vec_get (ls_populations s) k of
        None \<Rightarrow> s
      | Some p \<Rightarrow> s\<lparr>ls_lock := lock_state_for_drop (drop_population (po_location p) (po_generation p)) (ls_lock s),
                    ls_populations := vec_remove k (ls_populations s)\<rparr>)"
| "lazy_apply l s (Install k) =
     s\<lparr>ls_publications := (case vec_get (ls_publications s) k of
         None \<Rightarrow> ls_publications s | Some u \<Rightarrow> (ls_publications s)[k := u\<lparr>pu_initialized := True\<rparr>])\<rparr>"
| "lazy_apply l s (Commit k) =
     (case vec_get (ls_publications s) k of
        None \<Rightarrow> s
      | Some u \<Rightarrow> s\<lparr>ls_lock := fst (lock_state (Err Lazy_StatePoisoned) (publication_commit u) (ls_lock s)),
                    ls_publications := vec_remove k (ls_publications s)\<rparr>)"
| "lazy_apply l s (Drop_Publication k) =
     (case vec_get (ls_publications s) k of
        None \<Rightarrow> s
      | Some u \<Rightarrow> s\<lparr>ls_lock := lock_state_for_drop (drop_publication (pu_location u) (pu_generation u)) (ls_lock s),
                    ls_publications := vec_remove k (ls_publications s)\<rparr>)"
| "lazy_apply l s (Zero k) =
     s\<lparr>ls_removals := (case vec_get (ls_removals s) k of
         None \<Rightarrow> ls_removals s | Some r \<Rightarrow> (ls_removals s)[k := r\<lparr>re_zeroed := True\<rparr>])\<rparr>"
| "lazy_apply l s (Acknowledge k) =
     (case vec_get (ls_removals s) k of
        None \<Rightarrow> s
      | Some r \<Rightarrow> s\<lparr>ls_lock := fst (lock_state (Err Lazy_StatePoisoned) (commit_acknowledged r) (ls_lock s)),
                    ls_removals := vec_remove k (ls_removals s)\<rparr>)"
| "lazy_apply l s (Drop_Removal k) =
     (case vec_get (ls_removals s) k of
        None \<Rightarrow> s
      | Some r \<Rightarrow> s\<lparr>ls_lock := lock_state_for_drop
                      (drop_removal (re_region_index r) (re_first_page r) (re_page_count r) (re_generation r)) (ls_lock s),
                    ls_removals := vec_remove k (ls_removals s)\<rparr>)"
| "lazy_apply l s (Signal reason) = s\<lparr>ls_lock := lock_state_for_drop (signal_terminal reason) (ls_lock s)\<rparr>"

definition lazy_start :: "coordinator_state mutex \<Rightarrow> lazy_system" where
  "lazy_start m = \<lparr>ls_lock = m, ls_populations = [], ls_publications = [], ls_removals = [], ls_sleeping = []\<rparr>"

definition lazy_run :: "lazy_inner \<Rightarrow> lazy_system \<Rightarrow> lazy_action list \<Rightarrow> lazy_system" where
  "lazy_run l s acts = foldl (lazy_apply l) s acts"

section \<open>Locations\<close>

definition valid_location :: "lazy_inner \<Rightarrow> page_location \<Rightarrow> bool" where
  "valid_location l loc \<longleftrightarrow> (\<exists>r. vec_get (li_regions l) (lo_region_index loc) = Some r \<and>
     lo_page_in_region loc < rr_page_count r \<and> lo_flat_index loc = rr_first_page r + lo_page_in_region loc)"

fun numbered :: "nat \<Rightarrow> lazy_region_record list \<Rightarrow> nat \<Rightarrow> bool" where
  "numbered k [] n = (k = n)"
| "numbered k (r # rs) n = (rr_first_page r = k \<and> numbered (k + rr_page_count r) rs n)"

definition inner_wf :: "lazy_inner \<Rightarrow> nat \<Rightarrow> bool" where
  "inner_wf l n \<longleftrightarrow> numbered 0 (li_regions l) n \<and> n < 2 ^ 64 \<and> inner_page_size l \<noteq> 0 \<and>
     unat (ll_max_waiters (li_limits l)) \<le> li_completion_capacity l \<and>
     (\<forall>r \<in> set (li_regions l). rr_page_count r = unat (pr_length (lr_source (rr_source r))) div unat (inner_page_size l) \<and>
        is_multiple_of (pr_length (lr_source (rr_source r))) (inner_page_size l))"

lemma numbered_le: "numbered k rs n \<Longrightarrow> k \<le> n"
  by (induction k rs n rule: numbered.induct) auto

lemma numbered_bounds:
  "numbered k rs n \<Longrightarrow> i < length rs \<Longrightarrow> k \<le> rr_first_page (rs ! i) \<and> rr_first_page (rs ! i) + rr_page_count (rs ! i) \<le> n"
proof (induction k rs n arbitrary: i rule: numbered.induct)
  case (2 k r rs n)
  have "k + rr_page_count r \<le> n" using 2(2) numbered_le [of "k + rr_page_count r" rs n] by simp
  then show ?case using 2(1) [of "i - 1"] 2(2,3) by (cases i) auto
qed simp

lemma numbered_injective:
  assumes "numbered k rs n" and "i < j" and "j < length rs"
  shows "rr_first_page (rs ! i) + rr_page_count (rs ! i) \<le> rr_first_page (rs ! j)"
  using assms
proof (induction k rs n arbitrary: i j rule: numbered.induct)
  case (2 k r rs n)
  show ?case
  proof (cases i)
    case 0
    then show ?thesis using 2(2-4) numbered_bounds [of "k + rr_page_count r" rs n "j - 1"] by simp
  next
    case (Suc i')
    then show ?thesis using 2(1) [of i' "j - 1"] 2(2-4) by simp
  qed
qed simp

lemma valid_location_bound: "inner_wf l n \<Longrightarrow> valid_location l loc \<Longrightarrow> lo_flat_index loc < n"
  using numbered_bounds [of 0 "li_regions l" n "lo_region_index loc"]
  by (auto simp: inner_wf_def valid_location_def vec_get_def split: if_splits)

lemma valid_location_inj:
  assumes "inner_wf l n" and "valid_location l a" and "valid_location l b" and "lo_flat_index a = lo_flat_index b"
  shows "a = b"
proof -
  note ab = assms(2,3) [unfolded valid_location_def vec_get_def]
  have "lo_region_index a = lo_region_index b"
    using ab assms(1,4) numbered_injective [of 0 "li_regions l" n "lo_region_index a" "lo_region_index b"]
      numbered_injective [of 0 "li_regions l" n "lo_region_index b" "lo_region_index a"]
    by (cases "lo_region_index a" "lo_region_index b" rule: linorder_cases) (auto simp: inner_wf_def split: if_splits)
  then show ?thesis using ab assms(4) by (auto simp: page_location.equality split: if_splits)
qed

end
