(* ===== verification/Lazy_Invariant.thy ===== *)
theory Lazy_Invariant
  imports Lazy_System
begin

text \<open>
  The invariant of the page coordinator, over the state, the keys of the live guards and the sleeping threads, and that
  every critical section keeps it: the operations own exactly the pages in transition, the live guards are exactly the operations, every
  waiting thread is counted where it will be released, and a thread that was not notified since it fell asleep is still blocked.
\<close>

section \<open>The invariant\<close>

fun owns :: "nat \<Rightarrow> lazy_operation_kind \<Rightarrow> bool" where
  "owns i (Population loc stage waiters) = (stage \<noteq> Stage_Retired \<and> lo_flat_index loc = i)"
| "owns i (Removal region_index first_page page_count) = (first_page \<le> i \<and> i < first_page + page_count)"

fun op_tag :: "lazy_operation_kind \<Rightarrow> page_tag" where
  "op_tag (Population loc stage waiters) = (if stage = Stage_Publishing then Tag_Publishing else Tag_Loading)"
| "op_tag (Removal region_index first_page page_count) = Tag_Removing"

fun owner_tags :: "page_tag \<Rightarrow> page_tag list" where
  "owner_tags Tag_Absent = []"
| "owner_tags Tag_Present = []"
| "owner_tags tag = [tag]"

datatype guard_key = Key_Population page_location | Key_Publication page_location | Key_Removal nat nat nat

fun action_key :: "guard_key \<Rightarrow> bool" where
  "action_key (Key_Population loc) = False"
| "action_key _ = True"

fun kind_key :: "lazy_operation_kind \<Rightarrow> guard_key" where
  "kind_key (Population loc stage waiters) = (if stage = Stage_Publishing then Key_Publication loc else Key_Population loc)"
| "kind_key (Removal region_index first_page page_count) = Key_Removal region_index first_page page_count"

definition op_key :: "operation \<Rightarrow> pager_generation \<times> guard_key" where
  "op_key operation = (op_generation operation, kind_key (op_kind operation))"

fun kind_ok :: "lazy_inner \<Rightarrow> nat \<Rightarrow> lazy_operation_kind \<Rightarrow> bool" where
  "kind_ok l n (Population loc stage waiters) = (valid_location l loc \<and> (stage = Stage_Retired \<longrightarrow> waiters = 0))"
| "kind_ok l n (Removal region_index first_page page_count) = (0 < page_count \<and> first_page + page_count \<le> n)"

fun wait_ok :: "lazy_inner \<Rightarrow> nat \<Rightarrow> lazy_wait \<Rightarrow> bool" where
  "wait_ok l n (Await_Page loc access) = valid_location l loc"
| "wait_ok l n (Await_Range rq) = (0 < rq_page_count rq \<and> rq_first_page rq + rq_page_count rq \<le> n)"
| "wait_ok l n _ = True"

fun population_wait :: "lazy_wait \<Rightarrow> (page_location \<times> pager_generation) multiset" where
  "population_wait (Await_Population loc generation) = {#(loc, generation)#}"
| "population_wait _ = {#}"

definition op_waits :: "operation \<Rightarrow> (page_location \<times> pager_generation) multiset" where
  "op_waits operation =
     (case op_kind operation of
        Population loc stage waiters \<Rightarrow> replicate_mset waiters (loc, op_generation operation)
      | _ \<Rightarrow> {#})"

definition co_waits :: "completion \<Rightarrow> (page_location \<times> pager_generation) multiset" where
  "co_waits c = replicate_mset (co_remaining c) (co_location c, co_generation c)"

definition pages_owned :: "coordinator_state \<Rightarrow> bool" where
  "pages_owned st \<longleftrightarrow> (\<forall>i < length (cs_pages st).
     map (\<lambda>x. op_tag (op_kind x)) (filter (\<lambda>x. owns i (op_kind x)) (cs_operations st)) = owner_tags (cs_pages st ! i))"

type_synonym guards = "(pager_generation \<times> guard_key) multiset"
type_synonym sleepers = "(lazy_wait \<times> nat) multiset"

definition active_inv :: "coordinator_state \<Rightarrow> guards \<Rightarrow> sleepers \<Rightarrow> bool" where
  "active_inv st T W \<longleftrightarrow> T = mset (map op_key (cs_operations st)) \<and> pages_owned st \<and>
     (\<forall>c \<in> set (cs_completions st). 0 < co_remaining c) \<and>
     (\<Sum>x\<in>#W. population_wait (fst x)) = sum_list (map op_waits (cs_operations st)) + sum_list (map co_waits (cs_completions st))"

definition closed_inv :: "coordinator_state \<Rightarrow> guards \<Rightarrow> bool" where
  "closed_inv st T \<longleftrightarrow> cs_completions st = [] \<and> filter_mset (\<lambda>x. action_key (snd x)) T = mset (map op_key (cs_operations st)) \<and>
     list_all (\<lambda>x. is_action (op_kind x)) (cs_operations st) \<and>
     ((\<exists>reason. cs_phase st = Phase_Terminal reason) \<longleftrightarrow> cs_operations st = [])"

definition ops_inv :: "lazy_inner \<Rightarrow> nat \<Rightarrow> coordinator_state \<Rightarrow> bool" where
  "ops_inv l n st \<longleftrightarrow> length (cs_pages st) = n \<and> distinct (map op_generation (cs_operations st)) \<and>
     (\<forall>operation \<in> set (cs_operations st). op_generation operation < cs_next_generation st \<and> kind_ok l n (op_kind operation)) \<and>
     length (cs_operations st) \<le> unat (pl_max_in_flight (ll_pager (li_limits l))) \<and>
     cs_action_count st = length (filter (\<lambda>x. is_action (op_kind x)) (cs_operations st))"

definition waits_inv :: "lazy_inner \<Rightarrow> nat \<Rightarrow> coordinator_state \<Rightarrow> sleepers \<Rightarrow> bool" where
  "waits_inv l n st W \<longleftrightarrow> cs_waiter_count st = size {#x \<in># W. fst x \<noteq> Await_Actions#} \<and>
     cs_waiter_count st \<le> unat (ll_max_waiters (li_limits l)) \<and>
     (\<forall>x \<in># W. snd x \<le> cs_changed st \<and> wait_ok l n (fst x))"

definition lazy_inv :: "lazy_inner \<Rightarrow> nat \<Rightarrow> coordinator_state \<Rightarrow> guards \<Rightarrow> sleepers \<Rightarrow> bool" where
  "lazy_inv l n st T W \<longleftrightarrow> ops_inv l n st \<and> waits_inv l n st W \<and>
     (if cs_phase st = Phase_Active then active_inv st T W else closed_inv st T)"

text \<open>A sleeping thread that has not been notified since would sleep on.\<close>

fun blocked :: "coordinator_state \<Rightarrow> lazy_wait \<Rightarrow> bool" where
  "blocked st (Await_Population loc generation) \<longleftrightarrow> cs_phase st = Phase_Active \<and>
     (\<forall>c \<in> set (cs_completions st). \<not> (co_location c = loc \<and> co_generation c = generation)) \<and>
     (\<exists>operation \<in> set (cs_operations st). op_generation operation = generation \<and>
        (case op_kind operation of Population loc' stage waiters \<Rightarrow> loc' = loc | _ \<Rightarrow> False))"
| "blocked st (Await_Page loc access) \<longleftrightarrow> cs_phase st = Phase_Active \<and> vec_get (cs_pages st) (lo_flat_index loc) = Some Tag_Removing"
| "blocked st (Await_Range rq) \<longleftrightarrow> cs_phase st = Phase_Active \<and> range_has_action st (rq_first_page rq) (rq_page_count rq) = Ok True"
| "blocked st Await_Actions \<longleftrightarrow> cs_action_count st \<noteq> 0"

definition awake :: "coordinator_state \<Rightarrow> sleepers \<Rightarrow> bool" where
  "awake st W \<longleftrightarrow> (\<forall>x \<in># W. snd x = cs_changed st \<longrightarrow> blocked st (fst x))"

section \<open>Shared lemmas\<close>

lemma position_split:
  assumes "position P xs = Some i"
  obtains ys x zs where "xs = ys @ x # zs" and "i = length ys" and "P x" and "\<forall>y \<in> set ys. \<not> P y"
proof -
  have i: "i < length xs" "P (xs ! i)" "\<forall>j<i. \<not> P (xs ! j)" using assms by (simp_all add: position_Some_iff)
  have "xs = take i xs @ xs ! i # drop (Suc i) xs" using i(1) by (simp add: id_take_nth_drop)
  moreover have "\<forall>y \<in> set (take i xs). \<not> P y" using i(1,3) by (auto simp: in_set_conv_nth)
  ultimately show thesis using that [of "take i xs" "xs ! i" "drop (Suc i) xs"] i by simp
qed

lemma vec_remove_split [simp]: "vec_remove (length ys) (ys @ x # zs) = ys @ zs"
  by (simp add: vec_remove_def)

lemma is_action_key: "is_action k \<longleftrightarrow> action_key (kind_key k)"
  by (cases k) auto

lemma filter_op_keys: "filter_mset (\<lambda>x. action_key (snd x)) (mset (map op_key xs)) = mset (map op_key (filter (\<lambda>x. is_action (op_kind x)) xs))"
  by (induction xs) (auto simp: op_key_def is_action_key)

lemma notify_simps [simp]:
  "cs_phase (notify st) = cs_phase st" "cs_pages (notify st) = cs_pages st" "cs_operations (notify st) = cs_operations st"
  "cs_completions (notify st) = cs_completions st" "cs_waiter_count (notify st) = cs_waiter_count st"
  "cs_action_count (notify st) = cs_action_count st" "cs_next_generation (notify st) = cs_next_generation st"
  "cs_changed (notify st) = cs_changed st + 1"
  by (simp_all add: notify_def)

lemma notify_inv: "lazy_inv l n st T W \<Longrightarrow> lazy_inv l n (notify st) T W"
  by (auto simp: lazy_inv_def ops_inv_def waits_inv_def active_inv_def closed_inv_def pages_owned_def)

lemma notify_awake: "lazy_inv l n st T W \<Longrightarrow> awake (notify st) W"
  by (fastforce simp: lazy_inv_def waits_inv_def awake_def)

text \<open>Closing keeps the guards whose action is under way, and is final once none is left.\<close>

lemma finalize_inv:
  assumes "ops_inv l n st" and "waits_inv l n st W" and "cs_phase st = Phase_Closing reason" and "cs_completions st = []"
    and "filter_mset (\<lambda>x. action_key (snd x)) T = mset (map op_key (cs_operations st))" and "list_all (\<lambda>x. is_action (op_kind x)) (cs_operations st)"
  shows "lazy_inv l n (finalize_if_drained_locked st) T W"
proof -
  have "cs_action_count st = length (cs_operations st)"
    using assms(1,6) by (simp add: ops_inv_def list_all_iff)
  then show ?thesis
    using assms by (auto simp: finalize_if_drained_locked_def lazy_inv_def closed_inv_def ops_inv_def waits_inv_def)
qed

lemma finalize_not_closing: "(\<And>reason. cs_phase st \<noteq> Phase_Closing reason) \<Longrightarrow> finalize_if_drained_locked st = st"
  by (auto simp: finalize_if_drained_locked_def split: coordinator_phase.splits)

lemma begin_closing_active:
  assumes ops: "ops_inv l n st" and waits: "waits_inv l n st W" and active: "cs_phase st = Phase_Active" and T: "T = mset (map op_key (cs_operations st))"
  shows "lazy_inv l n (begin_closing_locked reason st) T W"
proof -
  let ?st = "st\<lparr>cs_phase := Phase_Closing reason, cs_operations := filter (\<lambda>x. is_action (op_kind x)) (cs_operations st), cs_completions := []\<rparr>"
  have "ops_inv l n ?st"
    using ops by (auto simp: ops_inv_def distinct_map_filter intro: order_trans [OF length_filter_le])
  moreover have "waits_inv l n ?st W" using waits by (simp add: waits_inv_def)
  moreover have "filter_mset (\<lambda>x. action_key (snd x)) T = mset (map op_key (cs_operations ?st))"
    using T filter_op_keys [of "cs_operations st"] by simp
  ultimately have "lazy_inv l n (finalize_if_drained_locked ?st) T W"
    by (intro finalize_inv) (simp_all add: list_all_iff)
  then show ?thesis using active by (simp add: begin_closing_locked_def)
qed

lemma begin_closing_inv:
  assumes "lazy_inv l n st T W"
  shows "lazy_inv l n (begin_closing_locked reason st) T W"
proof (cases "cs_phase st = Phase_Active")
  case True
  then show ?thesis using assms by (intro begin_closing_active) (simp_all add: lazy_inv_def active_inv_def)
qed (use assms in \<open>simp add: begin_closing_locked_def\<close>)

lemma begin_closing_phase: "cs_phase (begin_closing_locked reason st) \<noteq> Phase_Active"
  by (simp add: begin_closing_locked_def finalize_if_drained_locked_def)

lemma begin_closing_changed [simp]: "cs_changed (begin_closing_locked reason st) = cs_changed st"
  by (simp add: begin_closing_locked_def finalize_if_drained_locked_def)

lemma fail_transition_inv: "lazy_inv l n st T W \<Longrightarrow> lazy_inv l n (fail_transition st) T W \<and> awake (fail_transition st) W"
  unfolding fail_transition_def using begin_closing_inv notify_inv notify_awake by blast

section \<open>Waiting\<close>

fun waits_of :: "progress \<Rightarrow> coordinator_state \<Rightarrow> sleepers" where
  "waits_of (Sleeps w) st = {#(w, cs_changed st)#}"
| "waits_of (Returns r) st = {#}"

fun guards_of :: "progress \<Rightarrow> guards" where
  "guards_of (Returns (Ok (Ret_Fault (Fault_Populate p)))) = {#(po_generation p, Key_Population (po_location p))#}"
| "guards_of (Returns (Ok (Ret_Removal r))) = {#(re_generation r, Key_Removal (re_region_index r) (re_first_page r) (re_page_count r))#}"
| "guards_of _ = {#}"

text \<open>No thread panics or is told that a state cannot arise.\<close>

fun sound :: "('a, lazy_error) result \<Rightarrow> bool" where
  "sound (Ok x) = True"
| "sound (Err e) = (e \<noteq> Lazy_InvalidLifecycle)"
| "sound Panic = False"

fun sound_progress :: "progress \<Rightarrow> bool" where
  "sound_progress (Returns r) = sound r"
| "sound_progress (Sleeps w) = True"

definition keeps :: "lazy_inner \<Rightarrow> nat \<Rightarrow> guards \<Rightarrow> sleepers \<Rightarrow> lazy_outcome \<Rightarrow> bool" where
  "keeps l n T W out \<longleftrightarrow> (case out of (st, r) \<Rightarrow>
     lazy_inv l n st (T + guards_of r) (W + waits_of r st) \<and> awake st (W + waits_of r st) \<and> sound_progress r)"

lemma sound_and_then [intro]: "sound r \<Longrightarrow> (\<And>x. r = Ok x \<Longrightarrow> sound (f x)) \<Longrightarrow> sound (and_then r f)"
  by (cases r) auto

lemma sound_ok_or [simp]: "e \<noteq> Lazy_InvalidLifecycle \<Longrightarrow> sound (ok_or x e)"
  by (cases x) auto

lemma blocked_waiter_count [simp]: "blocked (st\<lparr>cs_waiter_count := k\<rparr>) w = blocked st w"
  by (cases w) (auto simp: range_has_action_def)

lemma awake_waiter_count [simp]: "awake (st\<lparr>cs_waiter_count := k\<rparr>) W = awake st W"
  by (simp add: awake_def)

lemma awake_add [simp]: "awake st (add_mset x W) \<longleftrightarrow> (snd x = cs_changed st \<longrightarrow> blocked st (fst x)) \<and> awake st W"
  by (auto simp: awake_def)

lemma leave_inv:
  assumes "lazy_inv l n st T (add_mset x W)" and "fst x \<noteq> Await_Actions" and "cs_phase st \<noteq> Phase_Active \<or> population_wait (fst x) = {#}"
  shows "lazy_inv l n (leave_waiter st) T W"
  using assms by (auto simp: lazy_inv_def leave_waiter_def waits_inv_def ops_inv_def active_inv_def closed_inv_def pages_owned_def)

lemma admit_cases:
  assumes "admit_waiter l st = (st', res)"
  obtains (refused) "st' = st" and "res = Err WaiterLimitExceeded"
  | (admitted) "st' = st\<lparr>cs_waiter_count := cs_waiter_count st + 1\<rparr>" and "res = Ok ()"
      and "cs_waiter_count st < unat (ll_max_waiters (li_limits l))"
  using assms by (auto simp: admit_waiter_def usize_add_def not_le split: if_splits)

lemma admit_inv:
  assumes "lazy_inv l n st T W" and "cs_waiter_count st < unat (ll_max_waiters (li_limits l))"
    and "wait_ok l n w" and "population_wait w = {#}" and "w \<noteq> Await_Actions"
  shows "lazy_inv l n (st\<lparr>cs_waiter_count := cs_waiter_count st + 1\<rparr>) T (add_mset (w, cs_changed st) W)"
  using assms by (auto simp: lazy_inv_def waits_inv_def ops_inv_def active_inv_def closed_inv_def pages_owned_def)

text \<open>A thread that sleeps on a population is counted by the operation or by its completion.\<close>

lemma sum_list_mset_split: "x \<in># sum_list (map f xs) \<longleftrightarrow> (\<exists>y \<in> set xs. x \<in># f y)"
  by (induction xs) auto

lemma waiting_counted:
  assumes "active_inv st T (add_mset (Await_Population loc g, k) W)"
  shows "(\<exists>c \<in> set (cs_completions st). co_location c = loc \<and> co_generation c = g) \<or>
    (\<exists>operation \<in> set (cs_operations st). op_generation operation = g \<and>
       (case op_kind operation of Population loc' stage waiters \<Rightarrow> loc' = loc | _ \<Rightarrow> False))"
proof -
  have "(loc, g) \<in># (\<Sum>x\<in>#add_mset (Await_Population loc g, k) W. population_wait (fst x))" by simp
  then have "(loc, g) \<in># sum_list (map op_waits (cs_operations st)) + sum_list (map co_waits (cs_completions st))"
    using assms unfolding active_inv_def by (metis (no_types, lifting))
  then consider operation where "operation \<in> set (cs_operations st)" "(loc, g) \<in># op_waits operation"
    | c where "c \<in> set (cs_completions st)" "(loc, g) \<in># co_waits c" by (auto simp: sum_list_mset_split)
  then show ?thesis
  proof cases
    case 1
    then show ?thesis by (cases "op_kind operation") (auto simp: op_waits_def intro!: bexI [of _ operation] split: if_splits)
  next
    case 2
    then show ?thesis by (auto simp: co_waits_def split: if_splits)
  qed
qed

lemma wait_for_population_keeps:
  assumes inv: "lazy_inv l n st T (add_mset (Await_Population loc g, k) W)" and awake: "awake st W"
  shows "keeps l n T W (wait_for_population loc g st)"
proof (cases "cs_phase st = Phase_Active")
  case False
  then obtain reason where "phase_reason (cs_phase st) = Some reason" by (cases "cs_phase st") auto
  then show ?thesis
    using leave_inv [OF inv] False awake by (simp add: keeps_def wait_for_population_def leave_waiter_def)
next
  case True
  have act: "active_inv st T (add_mset (Await_Population loc g, k) W)" using inv True by (simp add: lazy_inv_def)
  show ?thesis
  proof (cases "position (\<lambda>c. co_location c = loc \<and> co_generation c = g) (cs_completions st)")
    case None
    have none: "\<forall>c \<in> set (cs_completions st). \<not> (co_location c = loc \<and> co_generation c = g)"
      using None by (simp add: position_None_iff)
    then have kept: "blocked st (Await_Population loc g)" using waiting_counted [OF act] True by auto
    then have "wait_for_population loc g st = (st, Sleeps (Await_Population loc g))"
      using None True by (auto simp: wait_for_population_def list_ex_iff)
    moreover have "lazy_inv l n st T (add_mset (Await_Population loc g, cs_changed st) W)"
      using inv by (auto simp: lazy_inv_def waits_inv_def active_inv_def)
    ultimately show ?thesis using kept awake by (simp add: keeps_def del: blocked.simps)
  next
    case (Some index)
    then obtain ys c zs where split: "cs_completions st = ys @ c # zs" "index = length ys"
      and c: "co_location c = loc" "co_generation c = g" by (rule position_split) auto
    have pos: "0 < co_remaining c" using act split by (simp add: active_inv_def)
    let ?cs = "if co_remaining c - 1 = 0 then ys @ zs else ys @ c\<lparr>co_remaining := co_remaining c - 1\<rparr> # zs"
    let ?st = "st\<lparr>cs_completions := ?cs, cs_waiter_count := cs_waiter_count st - 1\<rparr>"
    have eq: "wait_for_population loc g st = (?st, Returns (case co_outcome c of Outcome_Present \<Rightarrow> Ok (Ret_Fault Fault_Present)
        | Outcome_Superseded \<Rightarrow> Err StaleGeneration))"
      using Some True split by (simp add: wait_for_population_def leave_waiter_def Let_def)
    have "co_waits c = add_mset (loc, g) (co_waits (c\<lparr>co_remaining := co_remaining c - 1\<rparr>))"
      using pos c by (cases "co_remaining c") (simp_all add: co_waits_def)
    then have "active_inv ?st T W"
      using act pos by (cases "co_remaining c - 1 = 0") (auto simp: active_inv_def split pages_owned_def co_waits_def)
    then have "lazy_inv l n ?st T W" using inv True by (auto simp: lazy_inv_def waits_inv_def ops_inv_def)
    moreover have "blocked st w \<Longrightarrow> blocked ?st w" for w by (cases w) (auto simp: split range_has_action_def)
    then have "awake ?st W" using awake by (auto simp: awake_def)
    ultimately show ?thesis
      unfolding keeps_def eq
      by (cases "co_outcome c") (simp_all only: prod.case completion_outcome.case guards_of.simps waits_of.simps add_0_right sound_progress.simps sound.simps lazy_error.distinct simp_thms)
  qed
qed

lemma size_population_waits: "size (\<Sum>x\<in>#W. population_wait (fst x)) \<le> size {#x \<in># W. fst x \<noteq> Await_Actions#}"
proof (induction W)
  case (add x W)
  then show ?case by (cases "fst x") auto
qed simp

lemma size_sum_list: "size (sum_list (map f xs) :: 'a multiset) = (\<Sum>x\<leftarrow>xs. size (f x))"
  by (induction xs) auto

lemma waiters_bounded:
  assumes "lazy_inv l n st T W" and "cs_phase st = Phase_Active"
  shows "(\<Sum>operation\<leftarrow>cs_operations st. size (op_waits operation)) + (\<Sum>c\<leftarrow>cs_completions st. co_remaining c) \<le> cs_waiter_count st"
proof -
  have "size (\<Sum>x\<in>#W. population_wait (fst x)) =
      (\<Sum>operation\<leftarrow>cs_operations st. size (op_waits operation)) + (\<Sum>c\<leftarrow>cs_completions st. size (co_waits c))"
    using assms by (simp add: lazy_inv_def active_inv_def size_sum_list)
  then show ?thesis
    using size_population_waits [of W] assms(1) by (simp add: lazy_inv_def waits_inv_def co_waits_def)
qed

lemma waiter_count_small: "lazy_inv l n st T W \<Longrightarrow> cs_waiter_count st < 2 ^ 16"
  using unat_bound16 [of "ll_max_waiters (li_limits l)"] by (simp add: lazy_inv_def waits_inv_def)

lemma action_count_small:
  assumes "lazy_inv l n st T W"
  shows "cs_action_count st < 2 ^ 16"
proof -
  have "length (filter (\<lambda>x. is_action (op_kind x)) (cs_operations st)) \<le> length (cs_operations st)" by (rule length_filter_le)
  also have "\<dots> \<le> unat (pl_max_in_flight (ll_pager (li_limits l)))" using assms by (simp add: lazy_inv_def ops_inv_def)
  also have "\<dots> < 2 ^ 16" using unat_bound16 [of "pl_max_in_flight (ll_pager (li_limits l))"] by simp
  finally show ?thesis using assms by (simp add: lazy_inv_def ops_inv_def)
qed

section \<open>Faults\<close>

lemma allocate_cases:
  assumes "allocate_generation_locked st = (st', res)"
  obtains (exhausted) "st' = fail_transition st" and "res = Err GenerationExhausted"
  | (allocated) "st' = st\<lparr>cs_next_generation := cs_next_generation st + 1\<rparr>" and "res = Ok (cs_next_generation st)"
      and "unat (cs_next_generation st + 1) = unat (cs_next_generation st) + 1"
proof (cases "checked_add (cs_next_generation st) 1 = None \<or> cs_next_generation st = 0")
  case True
  then show thesis
    using assms exhausted
    by (auto simp: allocate_generation_locked_def allocate_generation_def identifier_new_def fail_transition_def split: option.splits)
next
  case False
  then obtain nxt where "checked_add (cs_next_generation st) 1 = Some nxt" by auto
  moreover have "nxt = cs_next_generation st + 1" using calculation by (simp add: checked_add_def split: if_splits)
  moreover have "unat nxt = unat (cs_next_generation st) + 1" using calculation(1) by (simp add: checked_add_Some_iff)
  ultimately show thesis
    using assms allocated False
    by (auto simp: allocate_generation_locked_def allocate_generation_def identifier_new_def)
qed

lemma range_action_iff:
  "range_has_action st a b = Ok True \<longleftrightarrow>
     a + b < 2 ^ 64 \<and> (\<exists>i. a \<le> i \<and> i < a + b \<and> i < length (cs_pages st) \<and> cs_pages st ! i \<in> {Tag_Publishing, Tag_Removing})"
  by (auto simp: range_has_action_def usize_add_def list_ex_iff vec_get_def result_iffs split: if_splits)

text \<open>A page stays in transition, so a thread that was blocked still is.\<close>

lemma blocked_mono:
  assumes "blocked st w" and "cs_phase st' = cs_phase st" and "set (cs_completions st') \<subseteq> set (cs_completions st)"
    and "set (cs_operations st) \<subseteq> set (cs_operations st')" and "length (cs_pages st') = length (cs_pages st)"
    and "\<And>i. i < length (cs_pages st) \<Longrightarrow> cs_pages st ! i = Tag_Removing \<Longrightarrow> cs_pages st' ! i = Tag_Removing"
    and "\<And>i. i < length (cs_pages st) \<Longrightarrow> cs_pages st ! i = Tag_Publishing \<Longrightarrow> cs_pages st' ! i = Tag_Publishing"
    and "cs_action_count st \<le> cs_action_count st'"
  shows "blocked st' w"
proof (cases w)
  case (Await_Range rq)
  then show ?thesis using assms by (simp add: range_action_iff) blast
qed (use assms in \<open>auto simp: vec_get_def split: if_splits\<close>)

lemma page_geometry_sound: "sound (lazy_region_at l loc)" "sound (page_offset l loc)" "sound (page_source_offset l loc)" "sound (page_guest_range l loc)"
proof -
  show region: "sound (lazy_region_at l loc)" and off: "sound (page_offset l loc)" by (simp_all add: lazy_region_at_def page_offset_def)
  show "sound (page_source_offset l loc)" unfolding page_source_offset_def by (intro sound_and_then region off) simp
  show "sound (page_guest_range l loc)"
    unfolding page_guest_range_def by (intro sound_and_then region off) (auto simp: range_new_def split: option.splits)
qed

lemma populate_keeps:
  assumes inv: "lazy_inv l n st T W" and awake: "awake st W" and wf: "inner_wf l n" and loc: "valid_location l loc"
    and active: "cs_phase st = Phase_Active" and absent: "cs_pages st ! lo_flat_index loc = Tag_Absent"
  shows "keeps l n T W (populate_page l loc access st)"
proof -
  let ?geometry = "and_then (lazy_region_at l loc) (\<lambda>region. and_then (page_offset l loc) (\<lambda>offset.
    and_then (page_source_offset l loc) (\<lambda>source_offset. and_then (page_guest_range l loc) (\<lambda>guest_range.
      Ok (region, offset, source_offset, guest_range)))))"
  have "sound ?geometry" by (intro sound_and_then page_geometry_sound) simp
  then have same: "?geometry = Err e \<Longrightarrow> keeps l n T W (st, Returns (Err e))" "?geometry \<noteq> Panic"
    "keeps l n T W (st, Returns (Err InFlightLimitExceeded))" for e using inv awake by (auto simp: keeps_def)
  obtain st' res where al: "allocate_generation_locked st = (st', res)" by fastforce
  from al show ?thesis
  proof (cases rule: allocate_cases)
    case exhausted
    then show ?thesis
      using fail_transition_inv [OF inv] al same
      by (auto simp: populate_page_def keeps_def split: result.splits)
  next
    case allocated
    let ?op = "\<lparr>op_generation = cs_next_generation st, op_kind = Population loc Stage_Loading 0\<rparr>"
    let ?st = "st'\<lparr>cs_pages := (cs_pages st')[lo_flat_index loc := Tag_Loading], cs_operations := cs_operations st' @ [?op]\<rparr>"
    have less: "x < cs_next_generation st \<Longrightarrow> x < cs_next_generation st + 1" "cs_next_generation st < cs_next_generation st + 1" for x
      using allocated(3) by (simp_all add: word_less_nat_alt)
    have bound: "lo_flat_index loc < n" by (rule valid_location_bound [OF wf loc])
    have len: "length (cs_pages st) = n" using inv by (simp add: lazy_inv_def ops_inv_def)
    have room: "length (cs_operations st) < unat (pl_max_in_flight (ll_pager (li_limits l))) \<Longrightarrow>
        lazy_inv l n ?st (add_mset (op_key ?op) T) W"
      using inv active absent bound loc less allocated(1)
      by (auto simp: lazy_inv_def ops_inv_def waits_inv_def active_inv_def pages_owned_def nth_list_update op_waits_def)
    have "blocked st w \<Longrightarrow> blocked ?st w" for w
      using allocated(1) absent bound len by (elim blocked_mono) (auto simp: nth_list_update)
    then have "awake ?st W" using awake allocated(1) by (auto simp: awake_def)
    then show ?thesis
      using room al allocated(1,2) same
      by (auto simp: populate_page_def keeps_def op_key_def not_le split: result.splits)
  qed
qed

lemma join_inv:
  assumes inv: "lazy_inv l n st T W" and active: "cs_phase st = Phase_Active"
    and split: "cs_operations st = ys @ operation # zs" and kind: "op_kind operation = Population loc stage waiters" "stage \<noteq> Stage_Retired"
    and room: "cs_waiter_count st < unat (ll_max_waiters (li_limits l))"
  shows "lazy_inv l n (st\<lparr>cs_waiter_count := cs_waiter_count st + 1,
      cs_operations := ys @ operation\<lparr>op_kind := Population loc stage (waiters + 1)\<rparr> # zs\<rparr>) T
    (add_mset (Await_Population loc (op_generation operation), cs_changed st) W)"
  using assms
  by (auto simp: lazy_inv_def ops_inv_def waits_inv_def active_inv_def pages_owned_def op_key_def op_waits_def)

lemma owner_found:
  assumes "pages_owned st" and "i < length (cs_pages st)" and "owner_tags (cs_pages st ! i) \<noteq> []"
  obtains operation where "operation \<in> set (cs_operations st)" and "owns i (op_kind operation)" and "op_tag (op_kind operation) = cs_pages st ! i"
proof -
  have eq: "map (\<lambda>x. op_tag (op_kind x)) (filter (\<lambda>x. owns i (op_kind x)) (cs_operations st)) = owner_tags (cs_pages st ! i)"
    using assms by (simp add: pages_owned_def)
  moreover have "owner_tags (cs_pages st ! i) = [cs_pages st ! i]" using assms(3) by (cases "cs_pages st ! i") auto
  ultimately obtain operation where "filter (\<lambda>x. owns i (op_kind x)) (cs_operations st) = [operation]"
    "op_tag (op_kind operation) = cs_pages st ! i" by auto
  moreover have "operation \<in> set (cs_operations st) \<and> owns i (op_kind operation)"
    using arg_cong [OF calculation(1), of set] by auto
  ultimately show thesis using that by blast
qed

lemma join_keeps:
  assumes inv: "lazy_inv l n st T W" and awake: "awake st W" and active: "cs_phase st = Phase_Active" and wf: "inner_wf l n"
    and loc: "valid_location l loc" and tag: "cs_pages st ! lo_flat_index loc = (if publishing then Tag_Publishing else Tag_Loading)"
  shows "keeps l n T W (join_population l loc publishing st)"
proof (cases "population_operation_for_page (cs_operations st) loc publishing")
  case None
  have act: "pages_owned st" "length (cs_pages st) = n" "\<forall>operation \<in> set (cs_operations st). kind_ok l n (op_kind operation)"
    using inv active by (auto simp: lazy_inv_def active_inv_def ops_inv_def)
  obtain operation where owner: "operation \<in> set (cs_operations st)" "owns (lo_flat_index loc) (op_kind operation)"
    "op_tag (op_kind operation) = cs_pages st ! lo_flat_index loc"
    using owner_found [OF act(1), of "lo_flat_index loc"] valid_location_bound [OF wf loc] act(2) tag by (auto split: if_splits)
  obtain loc' stage waiters where kind: "op_kind operation = Population loc' stage waiters" "stage \<noteq> Stage_Retired" "lo_flat_index loc' = lo_flat_index loc"
    using owner(2,3) tag by (cases "op_kind operation") (auto split: if_splits)
  have "loc' = loc" using valid_location_inj [OF wf, of loc' loc] act(3) owner(1) kind loc by fastforce
  then have "population_at loc (if publishing then Stage_Publishing else Stage_Loading) (op_kind operation)"
    using owner(3) kind tag by (cases stage) (auto split: if_splits)
  then show ?thesis using None owner(1) by (auto simp: population_operation_for_page_def Let_def position_None_iff)
next
  case (Some found)
  define stage where "stage = (if publishing then Stage_Publishing else Stage_Loading)"
  obtain ys operation zs where split: "cs_operations st = ys @ operation # zs" "found = (length ys, op_generation operation)"
    and at: "population_at loc stage (op_kind operation)"
    using Some by (auto simp: population_operation_for_page_def Let_def stage_def elim: position_split)
  obtain waiters where kind: "op_kind operation = Population loc stage waiters" using at by (cases "op_kind operation") auto
  have "size (op_waits operation) \<le> cs_waiter_count st" using waiters_bounded [OF inv active] by (simp add: split)
  then have fits: "usize_add waiters 1 = Some (waiters + 1)"
    using waiter_count_small [OF inv] by (simp add: op_waits_def kind usize_add_def)
  obtain st' res where ad: "admit_waiter l st = (st', res)" by fastforce
  from ad show ?thesis
  proof (cases rule: admit_cases)
    case refused
    then show ?thesis using ad Some split inv awake by (simp add: join_population_def keeps_def)
  next
    case admitted
    let ?st = "st\<lparr>cs_waiter_count := cs_waiter_count st + 1,
      cs_operations := ys @ operation\<lparr>op_kind := Population loc stage (waiters + 1)\<rparr> # zs\<rparr>"
    have eq: "join_population l loc publishing st = wait_for_population loc (op_generation operation) ?st"
      using ad admitted Some split kind fits by (simp add: join_population_def vec_get_def)
    have "blocked st w \<Longrightarrow> blocked ?st w" for w
      by (cases w) (auto simp: split kind range_has_action_def)
    then have "awake ?st W" using awake by (auto simp: awake_def)
    moreover have "stage \<noteq> Stage_Retired" by (simp add: stage_def)
    ultimately show ?thesis
      unfolding eq using join_inv [OF inv active split(1) kind _ admitted(3)] by (intro wait_for_population_keeps)
  qed
qed

lemma fault_keeps:
  assumes inv: "lazy_inv l n st T W" and awake: "awake st W" and wf: "inner_wf l n" and loc: "valid_location l loc"
  shows "keeps l n T W (fault l loc access st)"
proof (cases "cs_phase st = Phase_Active")
  case True
  have bound: "lo_flat_index loc < length (cs_pages st)"
    using valid_location_bound [OF wf loc] inv by (simp add: lazy_inv_def ops_inv_def)
  show ?thesis
  proof (cases "cs_pages st ! lo_flat_index loc")
    case Tag_Absent
    then show ?thesis using populate_keeps [OF inv awake wf loc True] True bound by (simp add: fault_def require_active_def vec_get_def)
  next
    case Tag_Removing
    obtain st' res where ad: "admit_waiter l st = (st', res)" by fastforce
    from ad show ?thesis
    proof (cases rule: admit_cases)
      case refused
      then show ?thesis using ad True bound Tag_Removing inv awake by (simp add: fault_def require_active_def vec_get_def keeps_def)
    next
      case admitted
      then show ?thesis
        using ad True bound Tag_Removing awake admit_inv [OF inv admitted(3), of "Await_Page loc access"] loc
        by (simp add: fault_def require_active_def vec_get_def keeps_def)
    qed
  qed (use join_keeps [OF inv awake True wf loc] True bound inv awake in \<open>simp_all add: fault_def require_active_def vec_get_def keeps_def\<close>)
qed (use inv awake in \<open>simp add: fault_def require_active_def keeps_def phase_error_def\<close>)

lemma awake_leave: "awake (leave_waiter st) W = awake st W"
  by (simp add: leave_waiter_def)

lemma not_active_reason: "cs_phase st \<noteq> Phase_Active \<Longrightarrow> \<exists>reason. phase_reason (cs_phase st) = Some reason"
  by (cases "cs_phase st") auto

lemma sleep_again:
  assumes "lazy_inv l n st T (add_mset (w, k) W)"
  shows "lazy_inv l n st T (add_mset (w, cs_changed st) W)"
  using assms by (auto simp: lazy_inv_def waits_inv_def active_inv_def)

lemma wait_for_page_change_keeps:
  assumes inv: "lazy_inv l n st T (add_mset (Await_Page loc access, k) W)" and awake: "awake st W" and wf: "inner_wf l n"
  shows "keeps l n T W (wait_for_page_change l loc access st)"
proof (cases "cs_phase st = Phase_Active \<and> vec_get (cs_pages st) (lo_flat_index loc) = Some Tag_Removing")
  case True
  then show ?thesis
    using sleep_again [OF inv] awake by (simp add: wait_for_page_change_def keeps_def)
next
  case False
  have left: "lazy_inv l n (leave_waiter st) T W" using leave_inv [OF inv] by simp
  have loc: "valid_location l loc" using inv by (simp add: lazy_inv_def waits_inv_def)
  show ?thesis
    using False left fault_keeps [OF left _ wf loc, of access] awake not_active_reason [of st]
    by (cases "cs_phase st = Phase_Active") (auto simp: wait_for_page_change_def keeps_def awake_leave)
qed

end
