(* ===== verification/Lazy_Publication.thy ===== *)
theory Lazy_Publication
  imports Lazy_Invariant
begin

text \<open>
  Publications and dropped guards keep the invariant of the page coordinator, and a live guard always finds its operation.
\<close>

section \<open>The operation of a guard\<close>

lemma position_unique:
  assumes "P x" and "\<forall>y \<in> set ys. \<not> P y"
  shows "position P (ys @ x # zs) = Some (length ys)"
  using assms by (auto simp: position_Some_iff nth_append)

lemma guard_split:
  assumes "add_mset (g, k) T = mset (map op_key ops)" and "distinct (map op_generation ops)"
  obtains ys operation zs where "ops = ys @ operation # zs" and "op_generation operation = g" and "kind_key (op_kind operation) = k"
    and "\<forall>other \<in> set (ys @ zs). op_generation other \<noteq> g" and "T = mset (map op_key (ys @ zs))"
proof -
  have "(g, k) \<in> set (map op_key ops)" using assms(1) by (metis set_mset_mset union_single_eq_member)
  then obtain operation where "operation \<in> set ops" "op_key operation = (g, k)" by auto
  moreover obtain ys zs where split: "ops = ys @ operation # zs" using calculation(1) by (meson split_list)
  moreover have "op_generation operation \<notin> op_generation ` set (ys @ zs)" using assms(2) unfolding split by auto
  then have "\<forall>other \<in> set (ys @ zs). op_generation other \<noteq> op_generation operation" by (metis imageI)
  ultimately show thesis using that [of ys operation zs] assms(1) by (simp add: op_key_def)
qed

lemma sole_owner:
  assumes "pages_owned st" and "cs_operations st = ys @ operation # zs" and "i < length (cs_pages st)" and "owns i (op_kind operation)"
  shows "cs_pages st ! i = op_tag (op_kind operation) \<and> filter (\<lambda>x. owns i (op_kind x)) ys = [] \<and> filter (\<lambda>x. owns i (op_kind x)) zs = []"
proof -
  have "owner_tags (cs_pages st ! i) =
      map (\<lambda>x. op_tag (op_kind x)) (filter (\<lambda>x. owns i (op_kind x)) ys) @ op_tag (op_kind operation) #
      map (\<lambda>x. op_tag (op_kind x)) (filter (\<lambda>x. owns i (op_kind x)) zs)"
    using assms(1) [unfolded pages_owned_def, rule_format, OF assms(3), symmetric] assms(2,4) by simp
  then show ?thesis by (cases "cs_pages st ! i") (auto simp: append_eq_Cons_conv Cons_eq_append_conv)
qed

text \<open>Replacing an operation keeps the pages owned when the pages it owned follow it.\<close>

lemma pages_replace:
  assumes owned: "pages_owned st" and split: "cs_operations st = ys @ operation # zs" "cs_operations st' = ys @ news @ zs"
    and len: "length (cs_pages st') = length (cs_pages st)"
    and mine: "\<And>i. i < length (cs_pages st) \<Longrightarrow> owns i (op_kind operation) \<Longrightarrow>
      owner_tags (cs_pages st' ! i) = map (\<lambda>x. op_tag (op_kind x)) (filter (\<lambda>x. owns i (op_kind x)) news)"
    and others: "\<And>i. i < length (cs_pages st) \<Longrightarrow> \<not> owns i (op_kind operation) \<Longrightarrow>
      cs_pages st' ! i = cs_pages st ! i \<and> filter (\<lambda>x. owns i (op_kind x)) news = []"
  shows "pages_owned st'"
  unfolding pages_owned_def
proof (intro allI impI)
  fix i assume i: "i < length (cs_pages st')"
  show "map (\<lambda>x. op_tag (op_kind x)) (filter (\<lambda>x. owns i (op_kind x)) (cs_operations st')) = owner_tags (cs_pages st' ! i)"
  proof (cases "owns i (op_kind operation)")
    case True
    then show ?thesis using sole_owner [OF owned split(1), of i] mine [of i] i len by (simp add: split(2))
  next
    case False
    then show ?thesis
      using owned [unfolded pages_owned_def, rule_format, of i] others [of i] i len by (simp add: split)
  qed
qed

section \<open>Beginning a publication\<close>

lemma begin_publication_cases:
  assumes inv: "lazy_inv l n st (add_mset (g, Key_Population loc) T) W" and wf: "inner_wf l n"
  obtains (closed) "cs_phase st \<noteq> Phase_Active" and "begin_publication loc g off st = (st, Err (phase_error st))"
  | (stale) ys operation zs where "cs_phase st = Phase_Active" and "cs_operations st = ys @ operation # zs"
      and "op_generation operation = g" and "op_kind operation = Population loc Stage_Retired 0" and "T = mset (map op_key (ys @ zs))"
      and "begin_publication loc g off st = (notify (st\<lparr>cs_operations := ys @ zs\<rparr>), Err StaleGeneration)"
  | (published) ys operation zs waiters where "cs_phase st = Phase_Active" and "cs_operations st = ys @ operation # zs"
      and "op_generation operation = g" and "op_kind operation = Population loc Stage_Loading waiters" and "T = mset (map op_key (ys @ zs))"
      and "begin_publication loc g off st =
        (st\<lparr>cs_operations := ys @ operation\<lparr>op_kind := Population loc Stage_Publishing waiters\<rparr> # zs,
            cs_pages := (cs_pages st)[lo_flat_index loc := Tag_Publishing], cs_action_count := cs_action_count st + 1\<rparr>,
         Ok \<lparr>pu_location = loc, pu_region_offset = off, pu_generation = g, pu_initialized = False\<rparr>)"
proof (cases "cs_phase st = Phase_Active")
  case False
  then show thesis using closed by (simp add: begin_publication_def require_active_def)
next
  case True
  have ops: "distinct (map op_generation (cs_operations st))" "\<forall>operation \<in> set (cs_operations st). kind_ok l n (op_kind operation)"
    and act: "add_mset (g, Key_Population loc) T = mset (map op_key (cs_operations st))" "pages_owned st" "length (cs_pages st) = n"
    using inv True by (auto simp: lazy_inv_def ops_inv_def active_inv_def)
  obtain ys operation zs where split: "cs_operations st = ys @ operation # zs" "op_generation operation = g"
    "kind_key (op_kind operation) = Key_Population loc" "\<forall>other \<in> set (ys @ zs). op_generation other \<noteq> g" "T = mset (map op_key (ys @ zs))"
    using act(1) ops(1) by (rule guard_split)
  have index: "position (\<lambda>operation. op_generation operation = g) (cs_operations st) = Some (length ys)"
    unfolding split(1) using split(2,4) by (intro position_unique) auto
  obtain stage waiters where kind: "op_kind operation = Population loc stage waiters" "stage \<noteq> Stage_Publishing"
    using split(3) by (cases "op_kind operation") (auto split: if_splits)
  have kok: "kind_ok l n (Population loc stage waiters)" using ops(2) split(1) kind(1) by (metis in_set_conv_decomp)
  show thesis
  proof (cases "stage = Stage_Retired")
    case True
    then show thesis
      using stale [of ys operation zs] split kind kok index \<open>cs_phase st = Phase_Active\<close>
      by (simp add: begin_publication_def require_active_def)
  next
    case False
    then have load: "stage = Stage_Loading" using kind(2) by (cases stage) auto
    have bound: "lo_flat_index loc < length (cs_pages st)" using valid_location_bound [OF wf] kok act(3) by simp
    have "cs_pages st ! lo_flat_index loc = Tag_Loading"
      using sole_owner [OF act(2) split(1) bound] kind(1) load by simp
    moreover have "usize_add (cs_action_count st) 1 = Some (cs_action_count st + 1)"
      using action_count_small [OF inv] by (simp add: usize_add_def)
    ultimately show thesis
      using published [of ys operation zs waiters] split kind load index True bound
      by (simp add: begin_publication_def require_active_def vec_get_def)
  qed
qed

lemma retired_removed:
  assumes inv: "lazy_inv l n st (add_mset (g, Key_Population loc) T) W" and active: "cs_phase st = Phase_Active"
    and split: "cs_operations st = ys @ operation # zs" and kind: "op_kind operation = Population loc Stage_Retired 0"
    and T: "T = mset (map op_key (ys @ zs))"
  shows "lazy_inv l n (st\<lparr>cs_operations := ys @ zs\<rparr>) T W"
proof -
  have owned: "pages_owned st" using inv active by (simp add: lazy_inv_def active_inv_def)
  have "pages_owned (st\<lparr>cs_operations := ys @ zs\<rparr>)"
    using kind by (intro pages_replace [OF owned split, where news = "[]"]) auto
  then show ?thesis
    using inv active split kind T by (auto simp: lazy_inv_def ops_inv_def waits_inv_def active_inv_def op_waits_def)
qed

fun publication_guard :: "(lazy_publication, lazy_error) result \<Rightarrow> guards" where
  "publication_guard (Ok u) = {#(pu_generation u, Key_Publication (pu_location u))#}"
| "publication_guard _ = {#}"

lemma begin_publication_keeps:
  assumes inv: "lazy_inv l n st (add_mset (g, Key_Population loc) T) W" and awake: "awake st W" and wf: "inner_wf l n"
    and out: "begin_publication loc g off st = (st', r)"
  shows "lazy_inv l n st' (T + publication_guard r) W \<and> awake st' W \<and> sound r"
  using inv wf
proof (cases rule: begin_publication_cases [where off = off])
  case closed
  then show ?thesis using inv awake out by (auto simp: lazy_inv_def closed_inv_def phase_error_def)
next
  case (stale ys operation zs)
  have "lazy_inv l n (st\<lparr>cs_operations := ys @ zs\<rparr>) T W" by (rule retired_removed [OF inv stale(1,2,4,5)])
  then show ?thesis using notify_inv notify_awake out stale by fastforce
next
  case (published ys operation zs waiters)
  let ?op = "operation\<lparr>op_kind := Population loc Stage_Publishing waiters\<rparr>"
  let ?st = "st\<lparr>cs_operations := ys @ ?op # zs, cs_pages := (cs_pages st)[lo_flat_index loc := Tag_Publishing],
    cs_action_count := cs_action_count st + 1\<rparr>"
  have owned: "pages_owned st" and kok: "valid_location l loc" and len: "length (cs_pages st) = n"
    using inv published by (auto simp: lazy_inv_def active_inv_def ops_inv_def)
  have bound: "lo_flat_index loc < length (cs_pages st)" using valid_location_bound [OF wf kok] len by simp
  have load: "cs_pages st ! lo_flat_index loc = Tag_Loading"
    using sole_owner [OF owned published(2) bound] published(4) by simp
  have "pages_owned ?st"
    using published bound by (intro pages_replace [OF owned published(2), of ?st "[?op]"]) (auto simp: nth_list_update)
  then have "lazy_inv l n ?st (add_mset (g, Key_Publication loc) T) W"
    using inv published by (auto simp: lazy_inv_def ops_inv_def waits_inv_def active_inv_def op_waits_def op_key_def)
  moreover have "blocked st w \<Longrightarrow> blocked ?st w" for w
    using load bound published(2,4)
    by (cases w) (auto simp: vec_get_def range_action_iff nth_list_update split: if_splits)
  then have "awake ?st W" using awake by (auto simp: awake_def)
  ultimately show ?thesis using published out by auto
qed

section \<open>Ending an action\<close>

lemma action_guard_split:
  assumes inv: "lazy_inv l n st (add_mset (g, k) T) W" and key: "action_key k"
  obtains ys operation zs where "cs_operations st = ys @ operation # zs" and "op_generation operation = g" and "kind_key (op_kind operation) = k"
    and "\<forall>other \<in> set (ys @ zs). op_generation other \<noteq> g"
    and "cs_phase st = Phase_Active \<Longrightarrow> T = mset (map op_key (ys @ zs))"
    and "cs_phase st \<noteq> Phase_Active \<Longrightarrow> filter_mset (\<lambda>x. action_key (snd x)) T = mset (map op_key (ys @ zs))"
proof -
  define T' where "T' = (if cs_phase st = Phase_Active then T else filter_mset (\<lambda>x. action_key (snd x)) T)"
  have "add_mset (g, k) T' = mset (map op_key (cs_operations st))" and "distinct (map op_generation (cs_operations st))"
    using inv key by (auto simp: T'_def lazy_inv_def active_inv_def closed_inv_def ops_inv_def)
  then show thesis by (rule guard_split) (rule that, auto simp: T'_def)
qed

lemma finish_action_eq:
  assumes inv: "lazy_inv l n st T W" and split: "cs_operations st = ys @ operation # zs" "op_generation operation = g"
    "\<forall>other \<in> set (ys @ zs). op_generation other \<noteq> g" and act: "is_action (op_kind operation)"
  shows "finish_action_locked g st = finalize_if_drained_locked (st\<lparr>cs_operations := ys @ zs, cs_action_count := cs_action_count st - 1\<rparr>)"
    and "cs_action_count st = Suc (length (filter (\<lambda>x. is_action (op_kind x)) (ys @ zs)))"
proof -
  show count: "cs_action_count st = Suc (length (filter (\<lambda>x. is_action (op_kind x)) (ys @ zs)))"
    using inv act by (simp add: lazy_inv_def ops_inv_def split)
  have "position (\<lambda>operation. op_generation operation = g \<and> is_action (op_kind operation)) (cs_operations st) = Some (length ys)"
    unfolding split(1) using split(2,3) act by (intro position_unique) auto
  then show "finish_action_locked g st = finalize_if_drained_locked (st\<lparr>cs_operations := ys @ zs, cs_action_count := cs_action_count st - 1\<rparr>)"
    using count by (simp add: finish_action_locked_def split(1))
qed

lemma ops_inv_without:
  assumes "ops_inv l n st" and "cs_operations st = ys @ operation # zs" and "is_action (op_kind operation)"
  shows "ops_inv l n (st\<lparr>cs_operations := ys @ zs, cs_action_count := cs_action_count st - 1\<rparr>)"
  using assms by (auto simp: ops_inv_def)

lemma finalize_operations: "set (cs_operations (finalize_if_drained_locked st)) \<subseteq> set (cs_operations st)"
  by (auto simp: finalize_if_drained_locked_def split: coordinator_phase.splits)

lemma finalize_phase: "cs_phase st \<noteq> Phase_Active \<Longrightarrow> cs_phase (finalize_if_drained_locked st) \<noteq> Phase_Active"
  by (auto simp: finalize_if_drained_locked_def split: coordinator_phase.splits)

lemma finish_closed:
  assumes inv: "lazy_inv l n st (add_mset (g, k) T) W" and key: "action_key k" and closed: "cs_phase st \<noteq> Phase_Active"
  shows "lazy_inv l n (finish_action_locked g st) T W \<and> cs_phase (finish_action_locked g st) \<noteq> Phase_Active \<and>
    (\<forall>operation \<in> set (cs_operations (finish_action_locked g st)). op_generation operation \<noteq> g)"
proof -
  obtain ys operation zs where split: "cs_operations st = ys @ operation # zs" "op_generation operation = g" "kind_key (op_kind operation) = k"
    "\<forall>other \<in> set (ys @ zs). op_generation other \<noteq> g"
    and T: "filter_mset (\<lambda>x. action_key (snd x)) T = mset (map op_key (ys @ zs))"
    using action_guard_split [OF inv key] closed by metis
  have act: "is_action (op_kind operation)" using split(3) key by (simp add: is_action_key)
  let ?st = "st\<lparr>cs_operations := ys @ zs, cs_action_count := cs_action_count st - 1\<rparr>"
  note eq = finish_action_eq(1) [OF inv split(1,2,4) act]
  obtain reason where phase: "cs_phase st = Phase_Closing reason"
    using inv closed split(1) by (cases "cs_phase st") (auto simp: lazy_inv_def closed_inv_def)
  have "ops_inv l n ?st" using ops_inv_without [OF _ split(1) act] inv by (simp add: lazy_inv_def)
  moreover have "waits_inv l n ?st W" using inv by (simp add: lazy_inv_def waits_inv_def)
  ultimately have "lazy_inv l n (finalize_if_drained_locked ?st) T W"
    using T inv closed phase by (intro finalize_inv [of _ _ _ _ reason]) (auto simp: lazy_inv_def closed_inv_def split(1))
  then show ?thesis
    unfolding eq using finalize_phase [of ?st] closed split(4) finalize_operations [of ?st] by auto
qed

lemma drop_action_keeps:
  assumes inv: "lazy_inv l n st (add_mset (g, k) T) W" and key: "action_key k"
  shows "lazy_inv l n (fail_transition (finish_action_locked g st)) T W \<and> awake (fail_transition (finish_action_locked g st)) W"
proof (cases "cs_phase st = Phase_Active")
  case False
  then show ?thesis using fail_transition_inv finish_closed [OF inv key] by blast
next
  case True
  obtain ys operation zs where split: "cs_operations st = ys @ operation # zs" "op_generation operation = g" "kind_key (op_kind operation) = k"
    "\<forall>other \<in> set (ys @ zs). op_generation other \<noteq> g" and T: "T = mset (map op_key (ys @ zs))"
    using action_guard_split [OF inv key] True by metis
  have act: "is_action (op_kind operation)" using split(3) key by (simp add: is_action_key)
  let ?st = "st\<lparr>cs_operations := ys @ zs, cs_action_count := cs_action_count st - 1\<rparr>"
  have eq: "finish_action_locked g st = ?st"
    using finish_action_eq(1) [OF inv split(1,2,4) act] True by (simp add: finalize_not_closing)
  have "lazy_inv l n (begin_closing_locked Reason_TransitionFailure ?st) T W"
    using ops_inv_without [OF _ split(1) act] inv True T by (intro begin_closing_active) (simp_all add: lazy_inv_def waits_inv_def)
  then show ?thesis unfolding eq fail_transition_def using notify_inv notify_awake by blast
qed

lemma closed_drop:
  assumes "lazy_inv l n st (add_mset (g, Key_Population loc) T) W" and "cs_phase st \<noteq> Phase_Active"
  shows "lazy_inv l n st T W"
  using assms by (auto simp: lazy_inv_def closed_inv_def)

lemma fail_transition_closed: "cs_phase (fail_transition st) \<noteq> Phase_Active"
  by (simp add: fail_transition_def begin_closing_phase)

section \<open>Dropping guards\<close>

lemma drop_population_keeps:
  assumes inv: "lazy_inv l n st (add_mset (g, Key_Population loc) T) W" and awake: "awake st W"
  shows "lazy_inv l n (drop_population loc g st) T W \<and> awake (drop_population loc g st) W"
proof (cases "cs_phase st = Phase_Active")
  case True
  have ops: "distinct (map op_generation (cs_operations st))" "\<forall>operation \<in> set (cs_operations st). kind_ok l n (op_kind operation)"
    and act: "add_mset (g, Key_Population loc) T = mset (map op_key (cs_operations st))"
    using inv True by (auto simp: lazy_inv_def ops_inv_def active_inv_def)
  obtain ys operation zs where split: "cs_operations st = ys @ operation # zs" "op_generation operation = g"
    "kind_key (op_kind operation) = Key_Population loc" "\<forall>other \<in> set (ys @ zs). op_generation other \<noteq> g" "T = mset (map op_key (ys @ zs))"
    using act ops(1) by (rule guard_split)
  have index: "position (\<lambda>operation. op_generation operation = g) (cs_operations st) = Some (length ys)"
    unfolding split(1) using split(2,4) by (intro position_unique) auto
  obtain stage waiters where kind: "op_kind operation = Population loc stage waiters"
    using split(3) by (cases "op_kind operation") (auto split: if_splits)
  show ?thesis
  proof (cases "stage = Stage_Retired")
    case True
    then have "op_kind operation = Population loc Stage_Retired 0" using ops(2) split(1) kind by auto
    then have "lazy_inv l n (st\<lparr>cs_operations := ys @ zs\<rparr>) T W"
      by (intro retired_removed [OF inv \<open>cs_phase st = Phase_Active\<close> split(1) _ split(5)])
    then show ?thesis using notify_inv notify_awake index kind True by (simp add: drop_population_def split(1))
  next
    case False
    then show ?thesis
      using closed_drop [OF _ fail_transition_closed] fail_transition_inv [OF inv] index kind
      by (simp add: drop_population_def split(1)) blast
  qed
next
  case False
  then have all: "list_all (\<lambda>x. is_action (op_kind x)) (cs_operations st)" using inv by (simp add: lazy_inv_def closed_inv_def)
  have "drop_population loc g st \<in> {st, fail_transition st}"
  proof (cases "position (\<lambda>operation. op_generation operation = g) (cs_operations st)")
    case (Some i)
    then have "is_action (op_kind (cs_operations st ! i))" using all by (simp add: position_Some_iff list_all_length)
    then show ?thesis using Some by (cases "op_kind (cs_operations st ! i)") (auto simp: drop_population_def)
  qed (simp add: drop_population_def)
  then show ?thesis
    using closed_drop [OF inv False] closed_drop [OF _ fail_transition_closed] fail_transition_inv [OF inv] awake by auto
qed

lemma publication_split:
  assumes inv: "lazy_inv l n st (add_mset (g, Key_Publication loc) T) W"
  obtains ys operation zs waiters where "cs_operations st = ys @ operation # zs" and "op_generation operation = g"
    and "op_kind operation = Population loc Stage_Publishing waiters" and "\<forall>other \<in> set (ys @ zs). op_generation other \<noteq> g"
    and "publishing_operation (cs_operations st) loc g = Some (length ys)"
    and "cs_phase st = Phase_Active \<Longrightarrow> T = mset (map op_key (ys @ zs))"
proof -
  obtain ys operation zs where split: "cs_operations st = ys @ operation # zs" "op_generation operation = g"
    "kind_key (op_kind operation) = Key_Publication loc" "\<forall>other \<in> set (ys @ zs). op_generation other \<noteq> g"
    and T: "cs_phase st = Phase_Active \<Longrightarrow> T = mset (map op_key (ys @ zs))"
    using action_guard_split [OF inv] by (metis action_key.simps(2))
  obtain waiters where kind: "op_kind operation = Population loc Stage_Publishing waiters"
    using split(3) by (cases "op_kind operation") (auto split: if_splits)
  have "publishing_operation (cs_operations st) loc g = Some (length ys)"
    unfolding publishing_operation_def split(1) using split(2,4) kind by (intro position_unique) auto
  then show thesis using that [of ys operation zs waiters] split kind T by blast
qed

lemma drop_publication_keeps:
  assumes inv: "lazy_inv l n st (add_mset (g, Key_Publication loc) T) W"
  shows "lazy_inv l n (drop_publication loc g st) T W \<and> awake (drop_publication loc g st) W"
proof -
  have "publishing_operation (cs_operations st) loc g \<noteq> None" by (rule publication_split [OF inv]) simp
  then show ?thesis using drop_action_keeps [OF inv] by (simp add: drop_publication_def)
qed

section \<open>Committing a publication\<close>

lemma commit_publication_active:
  assumes inv: "lazy_inv l n st (add_mset (g, Key_Publication loc) T) W" and wf: "inner_wf l n" and active: "cs_phase st = Phase_Active"
    and out: "commit_publication loc g st = (st', r)"
  shows "r = Ok () \<and> lazy_inv l n st' T W \<and> awake st' W \<and> cs_phase st' = Phase_Active \<and>
    cs_pages st' = (cs_pages st)[lo_flat_index loc := Tag_Present]"
proof -
  obtain ys operation zs waiters where split: "cs_operations st = ys @ operation # zs" "op_generation operation = g"
    "op_kind operation = Population loc Stage_Publishing waiters" "\<forall>other \<in> set (ys @ zs). op_generation other \<noteq> g"
    and index: "publishing_operation (cs_operations st) loc g = Some (length ys)" and T: "T = mset (map op_key (ys @ zs))"
    by (rule publication_split [OF inv]) (use active in simp)
  have act: "is_action (op_kind operation)" by (simp add: split(3))
  note count = finish_action_eq(2) [OF inv split(1,2,4) act]
  have owned: "pages_owned st" and len: "length (cs_pages st) = n" and loc: "valid_location l loc"
    using inv active by (auto simp: lazy_inv_def active_inv_def ops_inv_def split)
  have bound: "lo_flat_index loc < length (cs_pages st)" using valid_location_bound [OF wf loc] len by simp
  let ?st = "record_completion loc g Outcome_Present waiters
    (st\<lparr>cs_operations := ys @ zs, cs_pages := (cs_pages st)[lo_flat_index loc := Tag_Present], cs_action_count := cs_action_count st - 1\<rparr>)"
  have eq: "commit_publication loc g st = (notify ?st, Ok ())"
    using active index bound count
    by (simp add: commit_publication_def require_action_locked_def split Let_def record_completion_def finalize_not_closing)
  have "pages_owned ?st"
    using bound split(3)
    by (intro pages_replace [OF owned split(1), where news = "[]"]) (auto simp: record_completion_def nth_list_update)
  then have "lazy_inv l n ?st T W"
    using inv active T split ops_inv_without [OF _ split(1) act]
    by (auto simp: lazy_inv_def ops_inv_def waits_inv_def active_inv_def record_completion_def op_waits_def co_waits_def)
  then show ?thesis
    using notify_inv notify_awake out active by (auto simp: eq record_completion_def split: if_splits)
qed

lemma commit_publication_closed:
  assumes inv: "lazy_inv l n st (add_mset (g, Key_Publication loc) T) W" and closed: "cs_phase st \<noteq> Phase_Active"
    and out: "commit_publication loc g st = (st', r)"
  shows "(\<exists>e. r = Err (Lazy_Terminal e)) \<and> lazy_inv l n st' T W \<and> awake st' W \<and> drop_publication loc g st' = st'"
proof -
  note fin = finish_closed [OF inv _ closed, simplified]
  have "publishing_operation (cs_operations (finish_action_locked g st)) loc g = None"
    using fin by (auto simp: publishing_operation_def position_None_iff)
  then show ?thesis
    using out closed fin notify_inv notify_awake
    by (auto simp: commit_publication_def Let_def phase_error_def drop_publication_def)
qed

lemma publication_commit_keeps:
  assumes inv: "lazy_inv l n st (add_mset (pu_generation u, Key_Publication (pu_location u)) T) W" and wf: "inner_wf l n"
    and out: "publication_commit u st = (st', r)"
  shows "lazy_inv l n st' T W \<and> awake st' W \<and> sound r"
proof (cases "pu_initialized u")
  case True
  obtain st'' r' where com: "commit_publication (pu_location u) (pu_generation u) st = (st'', r')" by fastforce
  show ?thesis
  proof (cases "cs_phase st = Phase_Active")
    case True
    then show ?thesis
      using commit_publication_active [OF inv wf True com] out com \<open>pu_initialized u\<close> by (auto simp: publication_commit_def)
  next
    case False
    then show ?thesis
      using commit_publication_closed [OF inv False com] out com \<open>pu_initialized u\<close> by (auto simp: publication_commit_def)
  qed
next
  case False
  then show ?thesis using drop_publication_keeps [OF inv] out by (auto simp: publication_commit_def)
qed

end
