(* ===== verification/Lazy_Removal.thy ===== *)
theory Lazy_Removal
  imports Lazy_Publication
begin

text \<open>
  Removals keep the invariant of the page coordinator: a removal takes over every page of its range, supersedes the populations
  that were loading there, and hands the pages back as absent.
\<close>

section \<open>Taking over the pages\<close>

text \<open>The invariant without the pages, and the pages while the range from \<open>i\<close> to \<open>fin\<close> still waits for its removal.\<close>

definition core_inv :: "lazy_inner \<Rightarrow> nat \<Rightarrow> coordinator_state \<Rightarrow> guards \<Rightarrow> sleepers \<Rightarrow> bool" where
  "core_inv l n st T W \<longleftrightarrow> cs_phase st = Phase_Active \<and> ops_inv l n st \<and> waits_inv l n st W \<and> T = mset (map op_key (cs_operations st)) \<and>
     (\<forall>c \<in> set (cs_completions st). 0 < co_remaining c) \<and>
     (\<Sum>x\<in>#W. population_wait (fst x)) = sum_list (map op_waits (cs_operations st)) + sum_list (map co_waits (cs_completions st))"

definition page_owners :: "nat \<Rightarrow> coordinator_state \<Rightarrow> page_tag list" where
  "page_owners j st = map (\<lambda>x. op_tag (op_kind x)) (filter (\<lambda>x. owns j (op_kind x)) (cs_operations st))"

definition half_owned :: "nat \<Rightarrow> nat \<Rightarrow> coordinator_state \<Rightarrow> bool" where
  "half_owned i fin st \<longleftrightarrow> (\<forall>j < length (cs_pages st).
     page_owners j st = owner_tags (cs_pages st ! j) @ (if i \<le> j \<and> j < fin then [Tag_Removing] else []))"

lemma core_active: "cs_phase st = Phase_Active \<Longrightarrow> lazy_inv l n st T W \<longleftrightarrow> core_inv l n st T W \<and> half_owned i i st"
  by (auto simp: lazy_inv_def core_inv_def active_inv_def half_owned_def pages_owned_def page_owners_def)

lemma core_pages:
  "length pages = length (cs_pages st) \<Longrightarrow> core_inv l n (st\<lparr>cs_pages := pages\<rparr>) T W = core_inv l n st T W"
  by (simp add: core_inv_def ops_inv_def waits_inv_def)

lemma owner_pair:
  assumes "xs @ Tag_Loading # ys = [Tag_Loading, Tag_Removing]"
  shows "xs = [] \<and> ys = [Tag_Removing]"
  using assms by (auto simp: append_eq_Cons_conv)

lemma owner_loading: "owns i k \<Longrightarrow> op_tag k = Tag_Loading \<Longrightarrow> loading_page i k"
proof (cases k)
  case (Population loc stage waiters)
  then show "owns i k \<Longrightarrow> op_tag k = Tag_Loading \<Longrightarrow> loading_page i k" by (cases stage) auto
qed simp

lemma retire_spec:
  assumes core: "core_inv l n st T W" and half: "half_owned i fin st" and i: "i < fin" "i < length (cs_pages st)"
    and load: "cs_pages st ! i = Tag_Loading"
  obtains st' where "retire_population_for_page i st = (st', Ok ())" and "core_inv l n st' T W" and "cs_pages st' = cs_pages st"
    and "cs_changed st' = cs_changed st" and "page_owners i st' = [Tag_Removing]" and "\<And>j. j \<noteq> i \<Longrightarrow> page_owners j st' = page_owners j st"
    and "cs_action_count st' = cs_action_count st" and "cs_next_generation st' = cs_next_generation st"
proof -
  have owners: "page_owners i st = [Tag_Loading, Tag_Removing]" using half i load by (simp add: half_owned_def)
  then have "Tag_Loading \<in> set (page_owners i st)" by simp
  then obtain x where x: "x \<in> set (cs_operations st)" "owns i (op_kind x)" "op_tag (op_kind x) = Tag_Loading"
    by (auto simp: page_owners_def)
  then have "loading_page i (op_kind x)" by (auto intro: owner_loading)
  then have "position (\<lambda>operation. loading_page i (op_kind operation)) (cs_operations st) \<noteq> None"
    using x(1) by (auto simp: position_None_iff)
  then obtain index where index: "position (\<lambda>operation. loading_page i (op_kind operation)) (cs_operations st) = Some index" by blast
  then obtain ys operation zs where split: "cs_operations st = ys @ operation # zs" "index = length ys" and at: "loading_page i (op_kind operation)"
    by (rule position_split) auto
  obtain loc waiters where kind: "op_kind operation = Population loc Stage_Loading waiters" "lo_flat_index loc = i"
    using at by (cases "op_kind operation") auto
  let ?op = "operation\<lparr>op_kind := Population loc Stage_Retired 0\<rparr>"
  let ?st = "record_completion loc (op_generation operation) Outcome_Superseded waiters (st\<lparr>cs_operations := ys @ ?op # zs\<rparr>)"
  have eq: "retire_population_for_page i st = (?st, Ok ())"
    using index kind by (simp add: retire_population_for_page_def split Let_def)
  have "core_inv l n ?st T W"
    using core kind split
    by (auto simp: core_inv_def ops_inv_def waits_inv_def record_completion_def op_key_def op_waits_def co_waits_def)
  moreover have "page_owners i ?st = [Tag_Removing]"
    using owners kind owner_pair by (fastforce simp: page_owners_def split record_completion_def)
  moreover have "page_owners j ?st = page_owners j st" if "j \<noteq> i" for j
    using that kind by (simp add: page_owners_def record_completion_def split)
  ultimately show thesis using that [OF eq] by (simp add: record_completion_def)
qed

lemma remove_pages_spec:
  assumes "core_inv l n st T W" and "half_owned i fin st" and "fin \<le> length (cs_pages st)"
    and "\<And>j. i \<le> j \<Longrightarrow> j < fin \<Longrightarrow> cs_pages st ! j \<notin> {Tag_Publishing, Tag_Removing}"
  shows "\<exists>st'. remove_pages [i..<fin] st = (st', Ok ()) \<and> core_inv l n st' T W \<and> half_owned fin fin st' \<and> cs_changed st' = cs_changed st \<and>
    length (cs_pages st') = length (cs_pages st) \<and>
    (\<forall>j < length (cs_pages st). cs_pages st' ! j = (if i \<le> j \<and> j < fin then Tag_Removing else cs_pages st ! j))"
  using assms
proof (induction "fin - i" arbitrary: i st)
  case 0
  then show ?case by (auto simp: half_owned_def)
next
  case (Suc k)
  then have i: "i < fin" "i < length (cs_pages st)" by simp_all
  define turn where "turn = (if vec_get (cs_pages st) i = Some Tag_Loading then retire_population_for_page i st else (st, Ok ()))"
  have "\<exists>st'. turn = (st', Ok ()) \<and> core_inv l n st' T W \<and> cs_pages st' = cs_pages st \<and> cs_changed st' = cs_changed st \<and>
      page_owners i st' = [Tag_Removing] \<and> (\<forall>j. j \<noteq> i \<longrightarrow> page_owners j st' = page_owners j st)"
  proof (cases "cs_pages st ! i = Tag_Loading")
    case True
    then show ?thesis
      using retire_spec [OF Suc.prems(1,2) i True] i(2) by (metis turn_def vec_get_def)
  next
    case False
    then have "owner_tags (cs_pages st ! i) = []" using Suc.prems(4) [of i] i by (cases "cs_pages st ! i") auto
    then show ?thesis using False Suc.prems(1,2) i by (simp add: turn_def vec_get_def half_owned_def)
  qed
  then obtain st' where st': "turn = (st', Ok ())" "core_inv l n st' T W" "cs_pages st' = cs_pages st" "cs_changed st' = cs_changed st"
    and owners: "page_owners i st' = [Tag_Removing]" "\<And>j. j \<noteq> i \<Longrightarrow> page_owners j st' = page_owners j st" by blast
  let ?st = "st'\<lparr>cs_pages := (cs_pages st')[i := Tag_Removing]\<rparr>"
  have half: "half_owned (Suc i) fin ?st"
    using owners Suc.prems(2) i by (auto simp: half_owned_def st'(3) page_owners_def nth_list_update)
  have "core_inv l n ?st T W" using st'(2,3) by (simp add: core_pages)
  from Suc.hyps(1) [OF _ this half] obtain st2 where st2: "remove_pages [Suc i..<fin] ?st = (st2, Ok ())" "core_inv l n st2 T W"
    "half_owned fin fin st2" "cs_changed st2 = cs_changed st" "length (cs_pages st2) = length (cs_pages st)"
    "\<forall>j < length (cs_pages st). cs_pages st2 ! j = (if Suc i \<le> j \<and> j < fin then Tag_Removing else (cs_pages st)[i := Tag_Removing] ! j)"
    using Suc.hyps(2) Suc.prems(3,4) st'(3,4) by force
  have "remove_pages [i..<fin] st = (st2, Ok ())"
    using st'(1,3) st2(1) i by (simp add: upt_conv_Cons turn_def)
  then show ?case using st2 i by (intro exI [of _ st2]) (auto simp: nth_list_update)
qed

lemma completion_slots_ok:
  assumes "pages_owned st" and "\<forall>i \<in> set is. i < length (cs_pages st) \<and> cs_pages st ! i \<notin> {Tag_Publishing, Tag_Removing}"
    and "slots + length is < 2 ^ 64"
  shows "\<exists>k. completion_slots st is slots = Ok k \<and> k \<le> slots + length is"
  using assms(2,3)
proof (induction "is" arbitrary: slots)
  case (Cons i js)
  have i: "i < length (cs_pages st)" using Cons.prems(1) by simp
  have later: "slots' \<le> Suc slots \<Longrightarrow> \<exists>k. completion_slots st js slots' = Ok k \<and> k \<le> Suc (slots + length js)" for slots'
    using Cons.IH [of slots'] Cons.prems by fastforce
  show ?case
  proof (cases "cs_pages st ! i")
    case Tag_Loading
    obtain x where x: "x \<in> set (cs_operations st)" "owns i (op_kind x)" "op_tag (op_kind x) = Tag_Loading"
      using owner_found [OF assms(1) i] Tag_Loading by (metis list.discI owner_tags.simps(3))
    have "loading_page i (op_kind x)" using x by (auto intro: owner_loading)
    then obtain operation where "find (\<lambda>operation. loading_page i (op_kind operation)) (cs_operations st) = Some operation"
      using x(1) by (metis find_None_iff option.exhaust)
    moreover have "usize_add slots 1 = Some (Suc slots)" using Cons.prems(2) by (simp add: usize_add_def)
    ultimately show ?thesis
      using later i Tag_Loading by (simp add: vec_get_def split: lazy_operation_kind.splits)
  qed (use later [of slots] Cons.prems(1) i in \<open>simp_all add: vec_get_def\<close>)
qed simp

lemma range_free_iff:
  assumes "a + b < 2 ^ 64"
  shows "range_has_action st a b = Ok (\<exists>i. a \<le> i \<and> i < a + b \<and> i < length (cs_pages st) \<and> cs_pages st ! i \<in> {Tag_Publishing, Tag_Removing})"
  using assms by (auto simp: range_has_action_def usize_add_def list_ex_iff vec_get_def)

section \<open>Beginning a removal\<close>

lemma issue_removal_keeps:
  assumes inv: "lazy_inv l n st T W" and awake: "awake st W" and wf: "inner_wf l n" and active: "cs_phase st = Phase_Active"
    and rq: "wait_ok l n (Await_Range rq)" and free: "range_has_action st (rq_first_page rq) (rq_page_count rq) = Ok False"
  shows "keeps l n T W (issue_removal l rq st)"
proof (cases "unat (pl_max_in_flight (ll_pager (li_limits l))) \<le> length (cs_operations st)")
  case True
  then show ?thesis using inv awake by (simp add: issue_removal_def keeps_def)
next
  case room: False
  let ?first = "rq_first_page rq"
  let ?fin = "?first + rq_page_count rq"
  have small: "?fin < 2 ^ 64" and len: "length (cs_pages st) = n" and fits: "?fin \<le> n"
    using wf inv rq by (auto simp: inner_wf_def lazy_inv_def ops_inv_def)
  have idle: "?first \<le> j \<Longrightarrow> j < ?fin \<Longrightarrow> cs_pages st ! j \<notin> {Tag_Publishing, Tag_Removing}" for j
    using free range_free_iff [OF small, of st] fits len by auto
  have owned: "pages_owned st" using inv active by (simp add: lazy_inv_def active_inv_def)
  obtain slots where slots: "completion_slots st [?first..<?fin] 0 = Ok slots"
    using completion_slots_ok [OF owned, of "[?first..<?fin]" 0] idle fits len small by auto
  then have valid: "validate_removal_transition l st ?first (rq_page_count rq) \<in> {Ok (), Err WaiterLimitExceeded}"
    using small by (simp add: validate_removal_transition_def usize_add_def)
  obtain st' res where al: "allocate_generation_locked st = (st', res)" by fastforce
  from al show ?thesis
  proof (cases rule: allocate_cases)
    case exhausted
    then show ?thesis using fail_transition_inv [OF inv] inv awake al valid room by (auto simp: issue_removal_def keeps_def)
  next
    case allocated
    let ?op = "\<lparr>op_generation = cs_next_generation st, op_kind = Removal (rq_region_index rq) ?first (rq_page_count rq)\<rparr>"
    let ?st = "st'\<lparr>cs_operations := cs_operations st' @ [?op], cs_action_count := cs_action_count st + 1\<rparr>"
    have less: "x < cs_next_generation st \<Longrightarrow> x < cs_next_generation st + 1" "cs_next_generation st < cs_next_generation st + 1" for x
      using allocated(3) by (simp_all add: word_less_nat_alt)
    have "core_inv l n ?st (add_mset (op_key ?op) T) W"
      using inv active allocated(1) less rq room
      by (auto simp: core_active [OF active, of _ _ _ _ 0] core_inv_def ops_inv_def waits_inv_def op_waits_def)
    moreover have "half_owned ?first ?fin ?st"
      using owned allocated(1) by (auto simp: half_owned_def pages_owned_def page_owners_def)
    ultimately obtain st3 where st3: "remove_pages [?first..<?fin] ?st = (st3, Ok ())" "core_inv l n st3 (add_mset (op_key ?op) T) W" "half_owned ?fin ?fin st3"
      using remove_pages_spec [of l n ?st "add_mset (op_key ?op) T" W ?first ?fin] idle fits len allocated(1) by auto
    have inv3: "lazy_inv l n st3 (add_mset (op_key ?op) T) W" using st3 core_active [of st3 l n _ W ?fin] by (simp add: core_inv_def)
    have "usize_add (cs_action_count st) 1 = Some (cs_action_count st + 1)" "usize_add ?first (rq_page_count rq) = Some ?fin"
      using action_count_small [OF inv] small by (simp_all add: usize_add_def)
    then show ?thesis
      using valid al allocated room st3(1) notify_inv [OF inv3] notify_awake [OF inv3] inv awake
      by (auto simp: issue_removal_def keeps_def Let_def op_key_def)
  qed
qed

lemma removal_keeps:
  assumes inv: "lazy_inv l n st T W" and awake: "awake st W" and wf: "inner_wf l n" and rq: "wait_ok l n (Await_Range rq)"
  shows "keeps l n T W (removal l rq st)"
proof (cases "cs_phase st = Phase_Active")
  case active: True
  have small: "rq_first_page rq + rq_page_count rq < 2 ^ 64" using wf rq by (simp add: inner_wf_def)
  then obtain busy where busy: "range_has_action st (rq_first_page rq) (rq_page_count rq) = Ok busy" using range_free_iff by blast
  show ?thesis
  proof (cases busy)
    case True
    obtain st' res where ad: "admit_waiter l st = (st', res)" by fastforce
    from ad show ?thesis
    proof (cases rule: admit_cases)
      case refused
      then show ?thesis using ad inv awake busy True active by (simp add: removal_def require_active_def keeps_def)
    next
      case admitted
      have "blocked st (Await_Range rq)" using active busy True by simp
      then show ?thesis
        using ad admitted awake admit_inv [OF inv admitted(3) rq] active busy True
        by (simp add: removal_def require_active_def keeps_def del: blocked.simps)
    qed
  next
    case False
    then show ?thesis using issue_removal_keeps [OF inv awake wf active rq] busy active by (simp add: removal_def require_active_def)
  qed
qed (use inv awake in \<open>simp add: removal_def require_active_def keeps_def phase_error_def\<close>)

lemma wait_for_range_actions_keeps:
  assumes inv: "lazy_inv l n st T (add_mset (Await_Range rq, k) W)" and awake: "awake st W" and wf: "inner_wf l n"
  shows "keeps l n T W (wait_for_range_actions l rq st)"
proof -
  have left: "lazy_inv l n (leave_waiter st) T W" using leave_inv [OF inv] by simp
  have rq: "wait_ok l n (Await_Range rq)" using inv by (simp add: lazy_inv_def waits_inv_def)
  have small: "rq_first_page rq + rq_page_count rq < 2 ^ 64" using wf rq by (simp add: inner_wf_def)
  then obtain busy where busy: "range_has_action st (rq_first_page rq) (rq_page_count rq) = Ok busy" using range_free_iff by blast
  consider (closed) "cs_phase st \<noteq> Phase_Active" | (busy) "cs_phase st = Phase_Active" "busy" | (free) "cs_phase st = Phase_Active" "\<not> busy" by blast
  then show ?thesis
  proof cases
    case closed
    then show ?thesis
      using left awake not_active_reason [OF closed] by (auto simp: wait_for_range_actions_def keeps_def awake_leave)
  next
    case busy
    have "blocked st (Await_Range rq)" using busy \<open>range_has_action st _ _ = _\<close> by simp
    then show ?thesis
      using sleep_again [OF inv] awake busy \<open>range_has_action st _ _ = _\<close>
      by (simp add: wait_for_range_actions_def keeps_def del: blocked.simps)
  next
    case free
    then show ?thesis
      using removal_keeps [OF left _ wf rq] awake \<open>range_has_action st _ _ = _\<close> by (simp add: wait_for_range_actions_def awake_leave)
  qed
qed

section \<open>Ending a removal\<close>

lemma absent_pages_spec:
  assumes "fin \<le> length pages" and "\<And>j. i \<le> j \<Longrightarrow> j < fin \<Longrightarrow> pages ! j = Tag_Removing"
  shows "\<exists>pages'. absent_pages [i..<fin] pages = (pages', Ok ()) \<and> length pages' = length pages \<and>
    (\<forall>j < length pages. pages' ! j = (if i \<le> j \<and> j < fin then Tag_Absent else pages ! j))"
  using assms
proof (induction "fin - i" arbitrary: i pages)
  case (Suc k)
  then have i: "i < fin" "i < length pages" by simp_all
  obtain pages' where "absent_pages [Suc i..<fin] (pages[i := Tag_Absent]) = (pages', Ok ())" "length pages' = length pages"
    "\<forall>j < length pages. pages' ! j = (if Suc i \<le> j \<and> j < fin then Tag_Absent else pages[i := Tag_Absent] ! j)"
    using Suc.hyps(1) [of "Suc i" "pages[i := Tag_Absent]"] Suc.hyps(2) Suc.prems by force
  then show ?case using i Suc.prems(2) [of i] by (intro exI [of _ pages']) (auto simp: upt_conv_Cons vec_get_def nth_list_update)
qed auto

lemma removal_split:
  assumes inv: "lazy_inv l n st (add_mset (g, Key_Removal region_index first page_count) T) W"
  obtains ys operation zs where "cs_operations st = ys @ operation # zs" and "op_generation operation = g"
    and "op_kind operation = Removal region_index first page_count" and "\<forall>other \<in> set (ys @ zs). op_generation other \<noteq> g"
    and "removal_operation (cs_operations st) region_index first page_count g = Some (length ys)"
    and "cs_phase st = Phase_Active \<Longrightarrow> T = mset (map op_key (ys @ zs))"
proof -
  obtain ys operation zs where split: "cs_operations st = ys @ operation # zs" "op_generation operation = g"
    "kind_key (op_kind operation) = Key_Removal region_index first page_count" "\<forall>other \<in> set (ys @ zs). op_generation other \<noteq> g"
    and T: "cs_phase st = Phase_Active \<Longrightarrow> T = mset (map op_key (ys @ zs))"
    using action_guard_split [OF inv] by (metis action_key.simps(3))
  have kind: "op_kind operation = Removal region_index first page_count"
    using split(3) by (cases "op_kind operation") (auto split: if_splits)
  have "removal_operation (cs_operations st) region_index first page_count g = Some (length ys)"
    unfolding removal_operation_def split(1) using split(2,4) kind by (intro position_unique) auto
  then show thesis using that [of ys operation zs] split kind T by blast
qed

lemma drop_removal_keeps:
  assumes inv: "lazy_inv l n st (add_mset (g, Key_Removal region_index first page_count) T) W"
  shows "lazy_inv l n (drop_removal region_index first page_count g st) T W \<and> awake (drop_removal region_index first page_count g st) W"
proof -
  have "removal_operation (cs_operations st) region_index first page_count g \<noteq> None" by (rule removal_split [OF inv]) simp
  then show ?thesis using drop_action_keeps [OF inv] by (simp add: drop_removal_def)
qed

lemma commit_removal_active:
  assumes inv: "lazy_inv l n st (add_mset (g, Key_Removal region_index first page_count) T) W" and wf: "inner_wf l n"
    and active: "cs_phase st = Phase_Active" and out: "commit_removal region_index first page_count g st = (st', r)"
  shows "r = Ok () \<and> lazy_inv l n st' T W \<and> awake st' W \<and> cs_phase st' = Phase_Active \<and> length (cs_pages st') = length (cs_pages st) \<and>
    (\<forall>j < length (cs_pages st). cs_pages st' ! j = (if first \<le> j \<and> j < first + page_count then Tag_Absent else cs_pages st ! j))"
proof -
  obtain ys operation zs where split: "cs_operations st = ys @ operation # zs" "op_generation operation = g"
    "op_kind operation = Removal region_index first page_count" "\<forall>other \<in> set (ys @ zs). op_generation other \<noteq> g"
    and index: "removal_operation (cs_operations st) region_index first page_count g = Some (length ys)" and T: "T = mset (map op_key (ys @ zs))"
    by (rule removal_split [OF inv]) (use active in simp)
  have act: "is_action (op_kind operation)" by (simp add: split(3))
  note count = finish_action_eq(2) [OF inv split(1,2,4) act]
  have owned: "pages_owned st" and len: "length (cs_pages st) = n" and fits: "first + page_count \<le> n"
    using inv active by (auto simp: lazy_inv_def active_inv_def ops_inv_def split)
  have "first \<le> j \<Longrightarrow> j < first + page_count \<Longrightarrow> cs_pages st ! j = Tag_Removing" for j
    using sole_owner [OF owned split(1), of j] fits len split(3) by simp
  then obtain pages where pages: "absent_pages [first..<first + page_count] (cs_pages st) = (pages, Ok ())" "length pages = length (cs_pages st)"
    "\<forall>j < length (cs_pages st). pages ! j = (if first \<le> j \<and> j < first + page_count then Tag_Absent else cs_pages st ! j)"
    using absent_pages_spec [of "first + page_count" "cs_pages st" first] fits len by blast
  let ?st = "st\<lparr>cs_pages := pages, cs_operations := ys @ zs, cs_action_count := cs_action_count st - 1\<rparr>"
  have "usize_add first page_count = Some (first + page_count)" using wf fits by (simp add: usize_add_def inner_wf_def)
  then have eq: "commit_removal region_index first page_count g st = (notify ?st, Ok ())"
    using active index count pages(1) by (simp add: commit_removal_def require_action_locked_def split(1) finalize_not_closing)
  have "pages_owned ?st"
    using pages split(3) by (intro pages_replace [OF owned split(1), where news = "[]"]) auto
  then have "lazy_inv l n ?st T W"
    using inv active T split ops_inv_without [OF _ split(1) act] pages(2)
    by (auto simp: lazy_inv_def ops_inv_def waits_inv_def active_inv_def op_waits_def)
  then show ?thesis using notify_inv notify_awake out active pages(2,3) by (auto simp: eq)
qed

lemma commit_removal_closed:
  assumes inv: "lazy_inv l n st (add_mset (g, Key_Removal region_index first page_count) T) W" and closed: "cs_phase st \<noteq> Phase_Active"
    and out: "commit_removal region_index first page_count g st = (st', r)"
  shows "(\<exists>e. r = Err (Lazy_Terminal e)) \<and> lazy_inv l n st' T W \<and> awake st' W \<and> drop_removal region_index first page_count g st' = st'"
proof -
  note fin = finish_closed [OF inv _ closed, simplified]
  have "removal_operation (cs_operations (finish_action_locked g st)) region_index first page_count g = None"
    using fin by (auto simp: removal_operation_def position_None_iff)
  then show ?thesis
    using out closed fin notify_inv notify_awake
    by (auto simp: commit_removal_def Let_def phase_error_def drop_removal_def)
qed

definition removal_key :: "lazy_removal \<Rightarrow> pager_generation \<times> guard_key" where
  "removal_key r = (re_generation r, Key_Removal (re_region_index r) (re_first_page r) (re_page_count r))"

lemma commit_acknowledged_keeps:
  assumes inv: "lazy_inv l n st (add_mset (removal_key r) T) W" and wf: "inner_wf l n"
    and out: "commit_acknowledged r st = (st', res)"
  shows "lazy_inv l n st' T W \<and> awake st' W \<and> sound res"
proof (cases "re_zeroed r")
  case zeroed: True
  note inv' = inv [unfolded removal_key_def]
  obtain st'' r' where com: "commit_removal (re_region_index r) (re_first_page r) (re_page_count r) (re_generation r) st = (st'', r')" by fastforce
  show ?thesis
  proof (cases "cs_phase st = Phase_Active")
    case True
    then show ?thesis
      using commit_removal_active [OF inv' wf True com] out com zeroed by (auto simp: commit_acknowledged_def)
  next
    case False
    then show ?thesis
      using commit_removal_closed [OF inv' False com] out com zeroed by (auto simp: commit_acknowledged_def)
  qed
next
  case False
  then show ?thesis
    using drop_removal_keeps [OF inv [unfolded removal_key_def]] out by (auto simp: commit_acknowledged_def Let_def)
qed

section \<open>The owner\<close>

lemma finalize_keeps_inv:
  assumes inv: "lazy_inv l n st T W"
  shows "lazy_inv l n (finalize_if_drained_locked st) T W"
proof (cases "cs_phase st")
  case (Phase_Closing reason)
  then show ?thesis using inv by (intro finalize_inv [of _ _ _ _ reason]) (auto simp: lazy_inv_def closed_inv_def)
qed (use inv in \<open>simp_all add: finalize_not_closing\<close>)

lemma wait_for_actions_keeps:
  assumes inv: "lazy_inv l n st T W" and awake: "awake st W"
  shows "keeps l n T W (wait_for_actions st)"
proof (cases "cs_action_count st = 0")
  case True
  then show ?thesis
    using notify_inv [OF finalize_keeps_inv [OF inv]] notify_awake [OF finalize_keeps_inv [OF inv]] by (simp add: wait_for_actions_def keeps_def)
next
  case False
  have "lazy_inv l n st T (add_mset (Await_Actions, cs_changed st) W)"
    using inv by (auto simp: lazy_inv_def waits_inv_def active_inv_def)
  then show ?thesis using False awake by (simp add: wait_for_actions_def keeps_def)
qed

lemma wake_actions: "lazy_inv l n st T (add_mset (Await_Actions, k) W) \<Longrightarrow> lazy_inv l n st T W"
  by (auto simp: lazy_inv_def waits_inv_def active_inv_def)

lemma terminate_keeps:
  assumes inv: "lazy_inv l n st T W"
  shows "keeps l n T W (terminate reason st)"
  unfolding terminate_def using begin_closing_inv [OF inv] by (blast intro: wait_for_actions_keeps notify_inv notify_awake)

lemma signal_terminal_keeps:
  assumes inv: "lazy_inv l n st T W"
  shows "lazy_inv l n (signal_terminal reason st) T W \<and> awake (signal_terminal reason st) W"
  unfolding signal_terminal_def using notify_inv notify_awake begin_closing_inv [OF inv] by blast

end
