(* ===== verification/Lazy_Run.thy ===== *)
theory Lazy_Run
  imports Lazy_Removal
begin

text \<open>
  Every interleaving of threads keeps the invariant of the page coordinator, from its construction on.
\<close>

section \<open>Requests address existing pages\<close>

lemma inner_location_valid: "inner_location l region_index page = Ok loc \<Longrightarrow> valid_location l loc"
  by (auto simp: inner_location_def valid_location_def usize_add_def result_iffs not_le split: if_splits)

lemma inner_location_sound: "sound (inner_location l region_index page)"
  by (auto simp: inner_location_def intro!: sound_and_then)

lemma location_for_address_valid: "location_for_address l address = Ok loc \<Longrightarrow> valid_location l loc"
  by (auto simp: location_for_address_def intro: inner_location_valid split: option.splits)

lemma location_for_page_valid: "location_for_page l region offset = Ok loc \<Longrightarrow> valid_location l loc"
  by (auto simp: location_for_page_def intro: inner_location_valid split: option.splits if_splits)

lemma removal_location_bounds:
  assumes wf: "inner_wf l n" and out: "removal_location l region offset len = Ok (region_index, first, page_count)"
  shows "0 < page_count \<and> first + page_count \<le> n"
proof -
  let ?size = "unat (inner_page_size l)"
  obtain fin where r: "position (\<lambda>record. pr_id (lr_source (rr_source record)) = region) (li_regions l) = Some region_index"
    "checked_add offset len = Some fin" "fin \<le> pr_length (lr_source (rr_source (li_regions l ! region_index)))"
    and eq: "first = rr_first_page (li_regions l ! region_index) + unat (offset div inner_page_size l)" "page_count = unat (len div inner_page_size l)"
    and mult: "len \<noteq> 0" "is_multiple_of offset (inner_page_size l)" "is_multiple_of len (inner_page_size l)"
    using out by (auto simp: removal_location_def usize_add_def result_iffs not_less split: option.splits if_splits)
  have index: "region_index < length (li_regions l)" using r(1) by (simp add: position_Some_iff)
  then have count: "rr_page_count (li_regions l ! region_index) = unat (pr_length (lr_source (rr_source (li_regions l ! region_index)))) div ?size"
    and nz: "0 < ?size" using wf by (auto simp: inner_wf_def unat_gt_0)
  have "unat offset + unat len \<le> unat (pr_length (lr_source (rr_source (li_regions l ! region_index))))"
    using r(2,3) by (simp add: checked_add_Some_iff word_le_nat_alt)
  then have "unat offset div ?size + unat len div ?size \<le> rr_page_count (li_regions l ! region_index)"
    using mult(2,3) unfolding count by (metis div_add div_le_mono is_multiple_of_nat)
  moreover have "rr_first_page (li_regions l ! region_index) + rr_page_count (li_regions l ! region_index) \<le> n"
    using numbered_bounds [of 0 "li_regions l" n region_index] wf index by (simp add: inner_wf_def)
  moreover have "0 < unat len div ?size"
    using mult(1,3) nz by (simp add: is_multiple_of_nat unat_gt_0 div_greater_zero_iff dvd_imp_le)
  ultimately show ?thesis by (simp add: eq unat_div)
qed

lemma page_offset_ok:
  assumes wf: "inner_wf l n" and loc: "valid_location l loc"
  shows "\<exists>off. page_offset l loc = Ok off"
proof -
  define r where "r = li_regions l ! lo_region_index loc"
  have r: "r \<in> set (li_regions l)" "lo_page_in_region loc < rr_page_count r"
    using loc by (auto simp: r_def valid_location_def vec_get_def split: if_splits)
  have count: "rr_page_count r = unat (pr_length (lr_source (rr_source r))) div unat (inner_page_size l)" using wf r(1) by (simp add: inner_wf_def)
  have "lo_page_in_region loc * unat (inner_page_size l) \<le> rr_page_count r * unat (inner_page_size l)" using r(2) by simp
  also have "\<dots> \<le> unat (pr_length (lr_source (rr_source r)))" by (simp add: count)
  finally have small: "lo_page_in_region loc * unat (inner_page_size l) < 2 ^ 64"
    using unat_bound64 [of "pr_length (lr_source (rr_source r))"] by simp
  have "rr_page_count r \<le> unat (pr_length (lr_source (rr_source r)))" unfolding count by (rule div_le_dividend)
  then have "lo_page_in_region loc < 2 ^ 64" using r(2) unat_bound64 [of "pr_length (lr_source (rr_source r))"] by simp
  then have "unat (of_nat (lo_page_in_region loc) :: u64) = lo_page_in_region loc" by (simp add: unat_of_nat take_bit_nat_eq_self)
  then show ?thesis using small by (simp add: page_offset_def checked_mul_def)
qed

section \<open>The system invariant\<close>

definition population_key :: "lazy_population \<Rightarrow> pager_generation \<times> guard_key" where
  "population_key p = (po_generation p, Key_Population (po_location p))"

definition publication_key :: "lazy_publication \<Rightarrow> pager_generation \<times> guard_key" where
  "publication_key u = (pu_generation u, Key_Publication (pu_location u))"

definition guards_held :: "lazy_system \<Rightarrow> guards" where
  "guards_held s = mset (map population_key (ls_populations s)) + mset (map publication_key (ls_publications s)) +
     mset (map removal_key (ls_removals s))"

definition system_inv :: "lazy_inner \<Rightarrow> nat \<Rightarrow> lazy_system \<Rightarrow> bool" where
  "system_inv l n s \<longleftrightarrow> \<not> mx_poisoned (ls_lock s) \<and> lazy_inv l n (mx_value (ls_lock s)) (guards_held s) (mset (ls_sleeping s)) \<and>
     awake (mx_value (ls_lock s)) (mset (ls_sleeping s))"

lemma mset_vec_remove: "vec_get xs k = Some x \<Longrightarrow> mset xs = add_mset x (mset (vec_remove k xs))"
  by (auto simp: vec_get_def vec_remove_def split: if_splits) (metis id_take_nth_drop mset_append mset.simps(2) union_mset_add_mset_right)

lemma settle_inv:
  assumes "\<not> mx_poisoned (ls_lock s)" and "keeps l n (guards_held s) (mset (ls_sleeping s)) (mx_value (ls_lock s), r)"
  shows "system_inv l n (settle r s)"
proof (cases r)
  case (Returns res)
  then show ?thesis
  proof (cases res)
    case (Ok ret)
    show ?thesis
    proof (cases ret)
      case (Ret_Fault f)
      then show ?thesis using assms Returns Ok
        by (cases f) (simp_all add: system_inv_def keeps_def guards_held_def population_key_def)
    qed (use assms Returns Ok in \<open>simp_all add: system_inv_def keeps_def guards_held_def removal_key_def\<close>)
  qed (use assms in \<open>simp_all add: system_inv_def keeps_def guards_held_def\<close>)
qed (use assms in \<open>simp add: system_inv_def keeps_def guards_held_def\<close>)

text \<open>A call locates its pages first, and then takes the lock.\<close>

lemma located_keeps:
  assumes inv: "system_inv l n s" and req: "sound req"
    and sec: "\<And>x. req = Ok x \<Longrightarrow> keeps l n (guards_held s) (mset (ls_sleeping s)) (sec x (mx_value (ls_lock s)))"
    and out: "(case req of Err e \<Rightarrow> (ls_lock s, Returns (Err e)) | Panic \<Rightarrow> (ls_lock s, Returns Panic)
      | Ok x \<Rightarrow> lock_state (Returns (Err Lazy_StatePoisoned)) (sec x) (ls_lock s)) = (m, r)"
  shows "\<not> mx_poisoned m \<and> keeps l n (guards_held s) (mset (ls_sleeping s)) (mx_value m, r)"
proof (cases req)
  case (Ok x)
  then show ?thesis using sec [OF Ok] out inv by (auto simp: lock_state_def system_inv_def split: prod.splits)
qed (use inv req out in \<open>auto simp: keeps_def system_inv_def\<close>)

lemma start_call_keeps:
  assumes inv: "system_inv l n s" and wf: "inner_wf l n" and out: "start_call l c (ls_lock s) = (m, r)"
  shows "\<not> mx_poisoned m \<and> keeps l n (guards_held s) (mset (ls_sleeping s)) (mx_value m, r)"
proof (cases c)
  case (Call_FaultPage region offset access)
  have "sound (location_for_page l region offset)"
    by (auto simp: location_for_page_def inner_location_sound split: option.splits)
  from located_keeps [OF inv this _ out [unfolded Call_FaultPage start_call.simps fault_page_def]]
  show ?thesis using inv wf by (auto simp: system_inv_def intro: fault_keeps location_for_page_valid)
next
  case (Call_FaultAddress address access)
  have "sound (location_for_address l address)"
    by (auto simp: location_for_address_def inner_location_sound split: option.splits)
  from located_keeps [OF inv this _ out [unfolded Call_FaultAddress start_call.simps fault_address_def]]
  show ?thesis using inv wf by (auto simp: system_inv_def intro: fault_keeps location_for_address_valid)
next
  case (Call_Terminate reason)
  then show ?thesis
    using out inv terminate_keeps [of l n "mx_value (ls_lock s)" "guards_held s" "mset (ls_sleeping s)" reason]
    by (auto simp: lock_state_def system_inv_def split: prod.splits)
next
  case (Call_BeginRemoval region offset len)
  have loc: "sound (removal_location l region offset len)"
    by (auto simp: removal_location_def intro!: sound_and_then split: option.splits)
  show ?thesis
  proof (rule located_keeps [OF inv _ _ out [unfolded Call_BeginRemoval start_call.simps begin_removal_def]], goal_cases)
    case 1
    show ?case using loc by (auto intro!: sound_and_then split: prod.splits)
  next
    case (2 rq)
    then have "wait_ok l n (Await_Range rq)"
      using removal_location_bounds [OF wf, of region offset len] by (auto simp: result_iffs)
    then show ?case using inv wf removal_keeps by (simp add: system_inv_def)
  qed
qed

section \<open>Every step keeps the invariant\<close>

lemma resume_keeps:
  assumes "lazy_inv l n st T (add_mset (w, k) W)" and "awake st W" and "inner_wf l n"
  shows "keeps l n T W (resume l w st)"
  using assms wait_for_population_keeps wait_for_page_change_keeps wait_for_range_actions_keeps wait_for_actions_keeps [OF wake_actions]
  by (cases w) auto

lemma sleeper_split:
  assumes "system_inv l n s" and "vec_get (ls_sleeping s) k = Some (w, seen)"
  shows "lazy_inv l n (mx_value (ls_lock s)) (guards_held s) (add_mset (w, seen) (mset (vec_remove k (ls_sleeping s))))"
    and "awake (mx_value (ls_lock s)) (mset (vec_remove k (ls_sleeping s)))"
  using assms mset_vec_remove [OF assms(2)] by (simp_all add: system_inv_def)

lemma population_split:
  assumes "system_inv l n s" and "vec_get (ls_populations s) k = Some p"
  shows "lazy_inv l n (mx_value (ls_lock s)) (add_mset (po_generation p, Key_Population (po_location p))
    (guards_held (s\<lparr>ls_populations := vec_remove k (ls_populations s)\<rparr>))) (mset (ls_sleeping s))"
  using assms mset_vec_remove [OF assms(2)] by (simp add: system_inv_def guards_held_def population_key_def)

lemma publication_held:
  assumes "system_inv l n s" and "vec_get (ls_publications s) k = Some u"
  shows "lazy_inv l n (mx_value (ls_lock s)) (add_mset (pu_generation u, Key_Publication (pu_location u))
    (guards_held (s\<lparr>ls_publications := vec_remove k (ls_publications s)\<rparr>))) (mset (ls_sleeping s))"
  using assms mset_vec_remove [OF assms(2)] by (simp add: system_inv_def guards_held_def publication_key_def)

lemma removal_held:
  assumes "system_inv l n s" and "vec_get (ls_removals s) k = Some r"
  shows "lazy_inv l n (mx_value (ls_lock s)) (add_mset (removal_key r)
    (guards_held (s\<lparr>ls_removals := vec_remove k (ls_removals s)\<rparr>))) (mset (ls_sleeping s))"
  using assms mset_vec_remove [OF assms(2)] by (simp add: system_inv_def guards_held_def)

lemma population_guard_valid:
  assumes inv: "lazy_inv l n st (add_mset (g, Key_Population loc) T) W" and active: "cs_phase st = Phase_Active"
  shows "valid_location l loc"
proof -
  have "add_mset (g, Key_Population loc) T = mset (map op_key (cs_operations st))" "distinct (map op_generation (cs_operations st))"
    using inv active by (simp_all add: lazy_inv_def ops_inv_def active_inv_def)
  then obtain ys operation zs where split: "cs_operations st = ys @ operation # zs" "kind_key (op_kind operation) = Key_Population loc"
    by (rule guard_split)
  have "kind_ok l n (op_kind operation)" using inv split(1) by (simp add: lazy_inv_def ops_inv_def)
  then show ?thesis using split(2) by (cases "op_kind operation") (auto split: if_splits)
qed

lemma publish_keeps:
  assumes inv: "system_inv l n s" and wf: "inner_wf l n" and p: "vec_get (ls_populations s) k = Some p"
    and out: "population_begin_publication l p (ls_lock s) = (m, r)"
  shows "\<not> mx_poisoned m \<and> sound r \<and> awake (mx_value m) (mset (ls_sleeping s)) \<and>
    lazy_inv l n (mx_value m) (guards_held (s\<lparr>ls_populations := vec_remove k (ls_populations s)\<rparr>) + publication_guard r) (mset (ls_sleeping s))"
proof (cases "page_offset l (po_location p)")
  case (Ok off)
  then show ?thesis
    using begin_publication_keeps [OF population_split [OF inv p] _ wf] out inv
    by (auto simp: population_begin_publication_def lock_state_def system_inv_def split: prod.splits)
next
  case (Err e)
  have closed: "cs_phase (mx_value (ls_lock s)) \<noteq> Phase_Active"
  proof
    assume "cs_phase (mx_value (ls_lock s)) = Phase_Active"
    then have "valid_location l (po_location p)" using population_guard_valid [OF population_split [OF inv p]] by blast
    then show False using page_offset_ok [OF wf] Err by fastforce
  qed
  then show ?thesis
    using closed_drop [OF population_split [OF inv p] closed] out Err inv page_geometry_sound(2) [of l "po_location p"]
    by (auto simp: population_begin_publication_def system_inv_def)
next
  case Panic
  then show ?thesis using page_geometry_sound(2) [of l "po_location p"] by simp
qed

lemma install_keys: "map publication_key (case vec_get us k of None \<Rightarrow> us | Some u \<Rightarrow> us[k := u\<lparr>pu_initialized := True\<rparr>]) = map publication_key us"
  by (auto simp: vec_get_def map_update publication_key_def list_update_same_conv)

lemma zero_keys: "map removal_key (case vec_get rs k of None \<Rightarrow> rs | Some r \<Rightarrow> rs[k := r\<lparr>re_zeroed := True\<rparr>]) = map removal_key rs"
  by (auto simp: vec_get_def map_update removal_key_def list_update_same_conv)

lemma lazy_apply_inv:
  assumes inv: "system_inv l n s" and wf: "inner_wf l n"
  shows "system_inv l n (lazy_apply l s action)"
proof (cases action)
  case (Start c)
  obtain m r where out: "start_call l c (ls_lock s) = (m, r)" by fastforce
  then show ?thesis using start_call_keeps [OF inv wf out] settle_inv [of "s\<lparr>ls_lock := m\<rparr>" l n r] Start by (simp add: guards_held_def)
next
  case (Wake k)
  show ?thesis
  proof (cases "vec_get (ls_sleeping s) k")
    case (Some x)
    obtain w seen where x: "x = (w, seen)" by fastforce
    have "keeps l n (guards_held s) (mset (vec_remove k (ls_sleeping s))) (resume l w (mx_value (ls_lock s)))"
      using sleeper_split [OF inv Some [unfolded x]] wf by (rule resume_keeps)
    moreover obtain st r where "resume l w (mx_value (ls_lock s)) = (st, r)" by fastforce
    ultimately have "system_inv l n (settle r (s\<lparr>ls_lock := (ls_lock s)\<lparr>mx_value := st\<rparr>, ls_sleeping := vec_remove k (ls_sleeping s)\<rparr>))"
      using inv by (intro settle_inv) (simp_all add: system_inv_def guards_held_def)
    then show ?thesis using Some x Wake inv \<open>resume l w _ = _\<close> by (simp add: lock_state_def system_inv_def)
  qed (use Wake inv in simp)
next
  case (Publish k)
  show ?thesis
  proof (cases "vec_get (ls_populations s) k")
    case (Some p)
    obtain m r where out: "population_begin_publication l p (ls_lock s) = (m, r)" by fastforce
    show ?thesis
      using publish_keeps [OF inv wf Some out] Publish Some out
      by (cases r) (simp_all add: system_inv_def guards_held_def publication_key_def)
  qed (use Publish inv in simp)
next
  case (Drop_Population k)
  show ?thesis
  proof (cases "vec_get (ls_populations s) k")
    case (Some p)
    then show ?thesis
      using drop_population_keeps [OF population_split [OF inv Some]] inv Drop_Population
      by (simp add: lock_state_for_drop_def system_inv_def guards_held_def)
  qed (use Drop_Population inv in simp)
next
  case (Commit k)
  show ?thesis
  proof (cases "vec_get (ls_publications s) k")
    case (Some u)
    then show ?thesis
      using publication_commit_keeps [OF publication_held [OF inv Some] wf] inv Commit
      by (simp add: lock_state_def system_inv_def guards_held_def split: prod.splits)
  qed (use Commit inv in simp)
next
  case (Drop_Publication k)
  show ?thesis
  proof (cases "vec_get (ls_publications s) k")
    case (Some u)
    then show ?thesis
      using drop_publication_keeps [OF publication_held [OF inv Some]] inv Drop_Publication
      by (simp add: lock_state_for_drop_def system_inv_def guards_held_def)
  qed (use Drop_Publication inv in simp)
next
  case (Acknowledge k)
  show ?thesis
  proof (cases "vec_get (ls_removals s) k")
    case (Some r)
    then show ?thesis
      using commit_acknowledged_keeps [OF removal_held [OF inv Some] wf] inv Acknowledge
      by (simp add: lock_state_def system_inv_def guards_held_def split: prod.splits)
  qed (use Acknowledge inv in simp)
next
  case (Drop_Removal k)
  show ?thesis
  proof (cases "vec_get (ls_removals s) k")
    case (Some r)
    then show ?thesis
      using drop_removal_keeps [OF removal_held [OF inv Some, unfolded removal_key_def]] inv Drop_Removal
      by (simp add: lock_state_for_drop_def system_inv_def guards_held_def)
  qed (use Drop_Removal inv in simp)
next
  case (Signal reason)
  then show ?thesis
    using signal_terminal_keeps [of l n "mx_value (ls_lock s)" "guards_held s" "mset (ls_sleeping s)" reason] inv
    by (simp add: lock_state_for_drop_def system_inv_def guards_held_def)
qed (use inv in \<open>simp_all add: system_inv_def guards_held_def install_keys zero_keys del: map_map\<close>)

lemma lazy_run_inv: "system_inv l n s \<Longrightarrow> inner_wf l n \<Longrightarrow> system_inv l n (lazy_run l s acts)"
  unfolding lazy_run_def by (induction acts arbitrary: s) (simp_all add: lazy_apply_inv)

section \<open>Construction\<close>

lemma number_pages_wf:
  assumes "number_pages page_size regions pages = Ok (records, pages')"
  shows "numbered (unat pages) records (unat pages') \<and> map rr_source records = regions \<and>
    (\<forall>r \<in> set records. rr_page_count r = unat (pr_length (lr_source (rr_source r))) div unat (ucast page_size :: u64))"
  using assms
proof (induction page_size regions pages arbitrary: records rule: number_pages.induct)
  case (2 page_size region regions pages)
  then obtain t rs where "checked_add pages (pr_length (lr_source region) div ucast page_size) = Some t" "page_size \<noteq> 0"
    "number_pages page_size regions t = Ok (rs, pages')"
    "records = \<lparr>rr_source = region, rr_first_page = unat pages, rr_page_count = unat (pr_length (lr_source region) div ucast page_size)\<rparr> # rs"
    by (auto simp: Let_def result_iffs split: if_splits option.splits)
  then show ?case using "2.IH" [of "pr_length (lr_source region) div ucast page_size" t rs]
    by (simp add: checked_add_Some_iff unat_div)
qed simp

lemma validate_lazy_regions_wf:
  "validate_lazy_regions previous regions page_size = Ok () \<Longrightarrow> \<forall>r \<in> set regions. region_is_valid_for (lr_source r) page_size"
  by (induction previous regions page_size rule: validate_lazy_regions.induct)
    (auto simp: result_iffs region_new_def region_is_valid_for_def Let_def split: if_splits)

lemma lazy_memory_new_inv:
  assumes "lazy_memory_new env reserve capacity next_mapping limits regions = Ok (l, m)"
  shows "inner_wf l (length (cs_pages (mx_value m))) \<and> system_inv l (length (cs_pages (mx_value m))) (lazy_start m)"
proof -
  obtain records pages where r: "validate_lazy_regions [] regions (pl_page_size (ll_pager limits)) = Ok ()" "regions \<noteq> []"
    "number_pages (pl_page_size (ll_pager limits)) regions 0 = Ok (records, pages)"
    and l: "li_limits l = limits" "li_regions l = records" "unat (ll_max_waiters limits) \<le> li_completion_capacity l"
    and m: "m = mutex_new \<lparr>cs_phase = Phase_Active, cs_pages = replicate (unat pages) Tag_Absent, cs_operations = [],
      cs_completions = [], cs_waiter_count = 0, cs_action_count = 0, cs_next_generation = 1, cs_changed = 0\<rparr>"
    using assms by (auto simp: lazy_memory_new_def Let_def result_iffs split: if_splits)
  note wf = number_pages_wf [OF r(3)] and valid = validate_lazy_regions_wf [OF r(1)]
  have "\<forall>x \<in> set records. rr_source x \<in> set regions" using wf by auto
  then have "inner_wf l (unat pages)"
    using wf valid l r(2) unat_bound64 [of pages]
    by (auto simp: inner_wf_def inner_page_size_def region_is_valid_for_def Let_def neq_Nil_conv)
  moreover have "system_inv l (unat pages) (lazy_start m)"
    by (auto simp: m mutex_new_def system_inv_def lazy_start_def guards_held_def lazy_inv_def ops_inv_def waits_inv_def active_inv_def
        pages_owned_def awake_def)
  ultimately show ?thesis by (simp add: m mutex_new_def)
qed

end
