(* ===== verification/Lazy_Evolution.thy ===== *)
theory Lazy_Evolution
  imports Lazy_Run
begin

text \<open>
  What never goes back in the page coordinator: generations only grow, a closed owner stays closed, a terminal one keeps
  its reason, and an operation never comes to own another page.
\<close>

fun population_kind :: "lazy_operation_kind \<Rightarrow> bool" where
  "population_kind (Population loc stage waiters) = True"
| "population_kind (Removal region_index first_page page_count) = False"

definition descends :: "operation \<Rightarrow> operation \<Rightarrow> bool" where
  "descends old new \<longleftrightarrow> op_generation new = op_generation old \<and> population_kind (op_kind new) = population_kind (op_kind old) \<and>
     (\<forall>i. owns i (op_kind new) \<longrightarrow> owns i (op_kind old))"

definition evolves :: "coordinator_state \<Rightarrow> coordinator_state \<Rightarrow> bool" where
  "evolves st st' \<longleftrightarrow> cs_next_generation st \<le> cs_next_generation st' \<and> (cs_phase st \<noteq> Phase_Active \<longrightarrow> cs_phase st' \<noteq> Phase_Active) \<and>
     (\<forall>reason. cs_phase st = Phase_Terminal reason \<longrightarrow> cs_phase st' = Phase_Terminal reason) \<and>
     (\<forall>new \<in> set (cs_operations st'). cs_next_generation st \<le> op_generation new \<or> (\<exists>old \<in> set (cs_operations st). descends old new))"

lemma descends_refl [simp]: "descends x x"
  by (simp add: descends_def)

lemma evolves_refl [simp]: "evolves st st"
  by (auto simp: evolves_def intro: descends_refl)

lemma evolves_trans [trans]:
  assumes "evolves a b" and "evolves b c"
  shows "evolves a c"
proof -
  have "cs_next_generation a \<le> op_generation new \<or> (\<exists>old \<in> set (cs_operations a). descends old new)"
    if new: "new \<in> set (cs_operations c)" for new
  proof (cases "cs_next_generation b \<le> op_generation new")
    case True
    then show ?thesis using assms(1) by (auto simp: evolves_def)
  next
    case False
    then obtain mid where mid: "mid \<in> set (cs_operations b)" "descends mid new" using assms(2) new by (auto simp: evolves_def)
    then show ?thesis using assms(1) by (fastforce simp: evolves_def descends_def)
  qed
  then show ?thesis using assms unfolding evolves_def by (metis order_trans)
qed

text \<open>Steps that only drop operations, and those that change one or add one.\<close>

lemma evolves_drop:
  assumes "cs_next_generation st' = cs_next_generation st" and "cs_phase st' = cs_phase st" and "set (cs_operations st') \<subseteq> set (cs_operations st)"
  shows "evolves st st'"
  using assms by (auto simp: evolves_def intro: descends_refl)

lemma evolves_update:
  assumes "cs_next_generation st' = cs_next_generation st" and "cs_phase st' = cs_phase st"
    and "cs_operations st' = (cs_operations st)[i := new]" and "i < length (cs_operations st) \<Longrightarrow> descends (cs_operations st ! i) new"
  shows "evolves st st'"
proof -
  have "x = new \<and> i < length (cs_operations st) \<or> x \<in> set (cs_operations st)" if "x \<in> set (cs_operations st')" for x
    using that assms(3) set_update_subset_insert [of "cs_operations st" i new] by (cases "i < length (cs_operations st)") (auto simp: list_update_beyond)
  then show ?thesis using assms(1,2,4) by (fastforce simp: evolves_def intro: descends_refl)
qed

lemma evolves_append:
  assumes "cs_next_generation st \<le> cs_next_generation st'" and "cs_phase st' = cs_phase st"
    and "cs_operations st' = cs_operations st @ [new]" and "cs_next_generation st \<le> op_generation new"
  shows "evolves st st'"
  using assms by (auto simp: evolves_def intro: descends_refl)

lemma evolves_notify [simp]: "evolves st (notify st)"
  by (rule evolves_drop) simp_all

lemma evolves_finalize [simp]: "evolves st (finalize_if_drained_locked st)"
  by (auto simp: finalize_if_drained_locked_def evolves_def intro: descends_refl split: coordinator_phase.splits)

lemma evolves_begin_closing [simp]: "evolves st (begin_closing_locked reason st)"
proof (cases "cs_phase st = Phase_Active")
  case True
  have "evolves st (st\<lparr>cs_phase := Phase_Closing reason, cs_operations := filter (\<lambda>x. is_action (op_kind x)) (cs_operations st), cs_completions := []\<rparr>)"
    using True by (auto simp: evolves_def intro: descends_refl)
  then show ?thesis using True evolves_trans evolves_finalize by (simp add: begin_closing_locked_def)
qed (simp add: begin_closing_locked_def)

lemma evolves_fail_transition [simp]: "evolves st (fail_transition st)"
  unfolding fail_transition_def using evolves_trans evolves_begin_closing evolves_notify by blast

lemma vec_remove_subset: "set (vec_remove i xs) \<subseteq> set xs"
  using in_set_vec_removeD by fast

lemma evolves_finish_action [simp]: "evolves st (finish_action_locked g st)"
proof -
  have "evolves st (st\<lparr>cs_operations := vec_remove i (cs_operations st)\<rparr>)" for i
    by (rule evolves_drop) (simp_all add: vec_remove_subset)
  then have "evolves st (begin_closing_locked reason (st\<lparr>cs_operations := vec_remove i (cs_operations st)\<rparr>))" for i reason
    using evolves_trans evolves_begin_closing by blast
  moreover have "evolves st (st\<lparr>cs_operations := vec_remove i (cs_operations st), cs_action_count := k\<rparr>)" for i k
    by (rule evolves_drop) (simp_all add: vec_remove_subset)
  ultimately show ?thesis
    unfolding finish_action_locked_def
    by (intro evolves_trans [OF _ evolves_finalize]) (simp add: Let_def split: option.splits)
qed

lemma evolves_waiter_count [simp]: "evolves st (st\<lparr>cs_waiter_count := k\<rparr>)"
  by (rule evolves_drop) simp_all

lemma evolves_leave [simp]: "evolves st (leave_waiter st)"
  by (simp add: leave_waiter_def)

lemma evolves_admit: "admit_waiter l st = (st', r) \<Longrightarrow> evolves st st'"
  by (erule admit_cases) simp_all

lemma evolves_record [simp]: "evolves st (record_completion loc g outcome waiters st)"
  by (rule evolves_drop) (simp_all add: record_completion_def)

lemma evolves_wait_for_population [simp]: "evolves st (fst (wait_for_population loc g st))"
  by (rule evolves_drop)
    (auto simp: wait_for_population_def leave_waiter_def Let_def split: option.splits)

lemma evolves_populate [simp]: "evolves st (fst (populate_page l loc access st))"
proof -
  obtain st' res where al: "allocate_generation_locked st = (st', res)" by fastforce
  from al show ?thesis
  proof (cases rule: allocate_cases)
    case exhausted
    then show ?thesis using al by (auto simp: populate_page_def split: result.splits)
  next
    case allocated
    have "cs_next_generation st \<le> cs_next_generation st + 1" using allocated(3) by (simp add: word_le_nat_alt)
    then have "evolves st (st'\<lparr>cs_pages := pages, cs_operations := cs_operations st' @ [\<lparr>op_generation = cs_next_generation st, op_kind = k\<rparr>]\<rparr>)" for pages k
      unfolding allocated(1)
      by (intro evolves_append [where new = "\<lparr>op_generation = cs_next_generation st, op_kind = k\<rparr>"]) simp_all
    then show ?thesis using al allocated(1,2) by (auto simp: populate_page_def split: result.splits)
  qed
qed

lemma evolves_join [simp]: "evolves st (fst (join_population l loc publishing st))"
proof (cases "population_operation_for_page (cs_operations st) loc publishing")
  case (Some found)
  obtain i g where found: "found = (i, g)" by fastforce
  obtain st' res where ad: "admit_waiter l st = (st', res)" by fastforce
  have st': "evolves st st'" by (rule evolves_admit [OF ad])
  have ops: "cs_operations st' = cs_operations st" using ad by (rule admit_cases) simp_all
  have "evolves st (fst (wait_for_population loc g (st'\<lparr>cs_operations := (cs_operations st)[i :=
      (cs_operations st ! i)\<lparr>op_kind := Population loc' stage k\<rparr>]\<rparr>)))"
    if "op_kind (cs_operations st ! i) = Population loc' stage waiters" for loc' stage waiters k
  proof -
    have "evolves st' (st'\<lparr>cs_operations := (cs_operations st)[i := (cs_operations st ! i)\<lparr>op_kind := Population loc' stage k\<rparr>]\<rparr>)"
      by (rule evolves_update [where i = i and new = "(cs_operations st ! i)\<lparr>op_kind := Population loc' stage k\<rparr>"])
        (simp_all add: ops descends_def that)
    then show ?thesis using st' evolves_trans evolves_wait_for_population by blast
  qed
  then show ?thesis
    using Some found ad st' ops
    by (auto simp: join_population_def vec_get_def split: result.splits option.splits lazy_operation_kind.splits if_splits)
qed (simp add: join_population_def)

lemma evolves_fault [simp]: "evolves st (fst (fault l loc access st))"
  by (auto simp: fault_def intro: evolves_admit split: result.splits option.splits page_tag.splits prod.splits)

lemma evolves_wait_for_page_change [simp]: "evolves st (fst (wait_for_page_change l loc access st))"
  using evolves_trans [OF evolves_leave evolves_fault] by (auto simp: wait_for_page_change_def split: option.splits)

section \<open>Publications\<close>

lemma evolves_begin_publication [simp]: "evolves st (fst (begin_publication loc g off st))"
proof (cases "position (\<lambda>operation. op_generation operation = g) (cs_operations st)")
  case (Some i)
  have gone: "evolves st (notify (st\<lparr>cs_operations := vec_remove i (cs_operations st)\<rparr>))"
    by (rule evolves_drop) (simp_all add: vec_remove_subset)
  have moved: "evolves st (st\<lparr>cs_operations := (cs_operations st)[i := (cs_operations st ! i)\<lparr>op_kind := Population loc Stage_Publishing waiters\<rparr>],
      cs_pages := pages\<rparr>) \<and> evolves st (st\<lparr>cs_operations := (cs_operations st)[i := (cs_operations st ! i)\<lparr>op_kind := Population loc Stage_Publishing waiters\<rparr>],
      cs_pages := pages, cs_action_count := k\<rparr>)"
    if "op_kind (cs_operations st ! i) = Population loc Stage_Loading waiters" for waiters pages k
    by (intro conjI evolves_update [where i = i and new = "(cs_operations st ! i)\<lparr>op_kind := Population loc Stage_Publishing waiters\<rparr>"])
      (simp_all add: descends_def that)
  show ?thesis
    using Some gone moved
    by (auto simp: begin_publication_def Let_def split: result.splits option.splits lazy_operation_kind.splits population_stage.splits)
qed (simp add: begin_publication_def split: result.splits)

lemma evolves_require_action: "require_action_locked st = (st', r) \<Longrightarrow> evolves st st'"
  using evolves_fail_transition [of st] by (auto simp: require_action_locked_def fail_transition_def split: if_splits)

lemma evolves_remove_operation:
  "evolves st (st\<lparr>cs_operations := vec_remove i (cs_operations st)\<rparr>)"
  "evolves st (st\<lparr>cs_pages := pages, cs_operations := vec_remove i (cs_operations st), cs_action_count := k\<rparr>)"
  "evolves st (st\<lparr>cs_operations := vec_remove i (cs_operations st), cs_pages := pages\<rparr>)"
  "evolves st (st\<lparr>cs_action_count := k\<rparr>)" "evolves st (st\<lparr>cs_pages := pages\<rparr>)"
  by (rule evolves_drop; simp add: vec_remove_subset)+

lemma evolves_commit_publication [simp]: "evolves st (fst (commit_publication loc g st))"
proof -
  obtain st' r where ra: "require_action_locked st = (st', r)" by fastforce
  have st': "evolves st st'" by (rule evolves_require_action [OF ra])
  have "evolves st' (notify (finalize_if_drained_locked ((record_completion loc g outcome waiters
      (st'\<lparr>cs_operations := vec_remove i (cs_operations st'), cs_pages := pages\<rparr>))\<lparr>cs_action_count := k\<rparr>)))" for i pages k outcome waiters
    using evolves_remove_operation evolves_record evolves_finalize evolves_notify evolves_trans by meson
  then show ?thesis
    using ra st' evolves_trans [OF st'] evolves_remove_operation evolves_trans [OF evolves_finish_action evolves_notify]
    by (auto simp: commit_publication_def Let_def split: result.splits option.splits lazy_operation_kind.splits)
qed

lemma evolves_drop_population [simp]: "evolves st (drop_population loc g st)"
  using evolves_trans [OF evolves_remove_operation(1) evolves_notify]
  by (simp add: drop_population_def split: option.splits lazy_operation_kind.splits)

lemma evolves_drop_action: "evolves st (fail_transition (finish_action_locked g st))"
  by (rule evolves_trans [OF evolves_finish_action evolves_fail_transition])

lemma evolves_drop_publication [simp]: "evolves st (drop_publication loc g st)"
  by (simp add: drop_publication_def evolves_drop_action)

lemma evolves_publication_commit [simp]: "evolves st (fst (publication_commit u st))"
proof -
  obtain st' r where com: "commit_publication (pu_location u) (pu_generation u) st = (st', r)" by fastforce
  have "evolves st st'" using evolves_commit_publication [of st "pu_location u" "pu_generation u"] unfolding com by simp
  then show ?thesis using com evolves_trans [OF _ evolves_drop_publication] by (simp add: publication_commit_def split: result.splits)
qed

section \<open>Removals\<close>

lemma evolves_retire: "retire_population_for_page i st = (st', r) \<Longrightarrow> evolves st st'"
proof (cases "position (\<lambda>operation. loading_page i (op_kind operation)) (cs_operations st)")
  case (Some k)
  assume out: "retire_population_for_page i st = (st', r)"
  have "evolves st (st\<lparr>cs_operations := (cs_operations st)[k := (cs_operations st ! k)\<lparr>op_kind := Population loc Stage_Retired 0\<rparr>]\<rparr>)"
    if "op_kind (cs_operations st ! k) = Population loc stage waiters" for loc stage waiters
    by (rule evolves_update [where i = k and new = "(cs_operations st ! k)\<lparr>op_kind := Population loc Stage_Retired 0\<rparr>"])
      (simp_all add: descends_def that)
  then show ?thesis
    using out Some evolves_trans [OF _ evolves_record]
    by (auto simp: retire_population_for_page_def Let_def split: lazy_operation_kind.splits)
qed (simp add: retire_population_for_page_def)

lemma evolves_remove_pages: "evolves st (fst (remove_pages is st))"
proof (induction "is" arbitrary: st)
  case (Cons i js)
  obtain st' r where turn: "(if vec_get (cs_pages st) i = Some Tag_Loading then retire_population_for_page i st else (st, Ok ())) = (st', r)" by fastforce
  have st': "evolves st st'" using turn evolves_retire by (auto split: if_splits)
  have "evolves st (fst (remove_pages js (st'\<lparr>cs_pages := pages\<rparr>)))" for pages
    using st' evolves_remove_operation(5) [of st' pages] Cons.IH evolves_trans by blast
  then show ?case using turn st' by (cases r) auto
qed simp

lemma evolves_issue_removal [simp]: "evolves st (fst (issue_removal l rq st))"
proof -
  obtain st' res where al: "allocate_generation_locked st = (st', res)" by fastforce
  from al show ?thesis
  proof (cases rule: allocate_cases)
    case exhausted
    then show ?thesis using al by (auto simp: issue_removal_def split: result.splits)
  next
    case allocated
    let ?new = "\<lparr>op_generation = cs_next_generation st, op_kind = Removal (rq_region_index rq) (rq_first_page rq) (rq_page_count rq)\<rparr>"
    have "cs_next_generation st \<le> cs_next_generation st + 1" using allocated(3) by (simp add: word_le_nat_alt)
    then have "evolves st (st'\<lparr>cs_operations := cs_operations st' @ [?new]\<rparr>)"
      unfolding allocated(1) by (intro evolves_append [where new = ?new]) simp_all
    moreover from this have "evolves st (st'\<lparr>cs_operations := cs_operations st' @ [?new], cs_action_count := k\<rparr>)" for k
      using evolves_trans evolves_remove_operation(4) by blast
    moreover from this have "evolves st (fst (remove_pages is (st'\<lparr>cs_operations := cs_operations st' @ [?new], cs_action_count := k\<rparr>)))" for "is" k
      using evolves_trans evolves_remove_pages by blast
    moreover from this have "evolves st (notify (fst (remove_pages is (st'\<lparr>cs_operations := cs_operations st' @ [?new], cs_action_count := k\<rparr>))))" for "is" k
      using evolves_trans evolves_notify by blast
    ultimately show ?thesis
      using al allocated(2)
      by (auto simp: issue_removal_def Let_def split: result.splits option.splits prod.splits) (metis fst_conv)+
  qed
qed

lemma evolves_removal [simp]: "evolves st (fst (removal l rq st))"
  by (auto simp: removal_def intro: evolves_admit split: result.splits prod.splits bool.splits)

lemma evolves_wait_for_range_actions [simp]: "evolves st (fst (wait_for_range_actions l rq st))"
  using evolves_trans [OF evolves_leave evolves_removal]
  by (auto simp: wait_for_range_actions_def split: option.splits result.splits bool.splits)

lemma evolves_commit_removal [simp]: "evolves st (fst (commit_removal region_index first page_count g st))"
proof -
  obtain st' r where ra: "require_action_locked st = (st', r)" by fastforce
  have st': "evolves st st'" by (rule evolves_require_action [OF ra])
  have "evolves st' (notify (finalize_if_drained_locked
      (st'\<lparr>cs_pages := pages, cs_operations := vec_remove i (cs_operations st'), cs_action_count := k\<rparr>)))" for i pages k
    using evolves_trans [OF evolves_remove_operation(2) evolves_trans [OF evolves_finalize evolves_notify]] .
  then show ?thesis
    using ra st' evolves_trans [OF st'] evolves_remove_operation(5) evolves_trans [OF evolves_finish_action evolves_notify]
    by (auto simp: commit_removal_def Let_def split: result.splits option.splits prod.splits)
qed

lemma evolves_drop_removal [simp]: "evolves st (drop_removal region_index first page_count g st)"
  by (simp add: drop_removal_def evolves_drop_action)

lemma evolves_commit_acknowledged [simp]: "evolves st (fst (commit_acknowledged r st))"
proof -
  obtain st' res where com: "commit_removal (re_region_index r) (re_first_page r) (re_page_count r) (re_generation r) st = (st', res)" by fastforce
  have "evolves st st'" using evolves_commit_removal [of st "re_region_index r" "re_first_page r" "re_page_count r" "re_generation r"] unfolding com by simp
  then show ?thesis using com evolves_trans [OF _ evolves_drop_removal] by (simp add: commit_acknowledged_def Let_def split: result.splits)
qed

section \<open>Runs\<close>

lemma evolves_wait_for_actions [simp]: "evolves st (fst (wait_for_actions st))"
  using evolves_trans [OF evolves_finalize evolves_notify] by (simp add: wait_for_actions_def)

lemma evolves_signal [simp]: "evolves st (signal_terminal reason st)"
  unfolding signal_terminal_def by (rule evolves_trans [OF evolves_begin_closing evolves_notify])

lemma evolves_terminate [simp]: "evolves st (fst (terminate reason st))"
  unfolding terminate_def using evolves_signal [unfolded signal_terminal_def] evolves_wait_for_actions evolves_trans by blast

lemma evolves_resume [simp]: "evolves st (fst (resume l w st))"
  by (cases w) simp_all

lemma evolves_recover [simp]: "evolves st (recover_poison st)"
  unfolding recover_poison_def by (rule evolves_trans [OF evolves_begin_closing evolves_waiter_count])

lemma evolves_lock: "(\<And>st. evolves st (fst (sec st))) \<Longrightarrow> evolves (mx_value m) (mx_value (fst (lock_state x sec m)))"
  by (cases "sec (mx_value m)") (auto simp: lock_state_def intro: evolves_trans [OF evolves_recover evolves_notify] dest: meta_spec [of _ "mx_value m"])

lemma evolves_lock_drop: "(\<And>st. evolves st (sec st)) \<Longrightarrow> evolves (mx_value m) (mx_value (lock_state_for_drop sec m))"
  using evolves_trans [OF evolves_recover] by (simp add: lock_state_for_drop_def)

lemma evolves_start_call: "evolves (mx_value m) (mx_value (fst (start_call l c m)))"
  by (cases c) (auto simp: fault_page_def fault_address_def begin_removal_def intro!: evolves_lock split: result.splits)

lemma evolves_begin: "evolves (mx_value m) (mx_value (fst (population_begin_publication l p m)))"
  by (auto simp: population_begin_publication_def intro!: evolves_lock split: result.splits)

lemma settle_lock [simp]: "ls_lock (settle r s) = ls_lock s"
  by (cases "(r, s)" rule: settle.cases) auto

lemma lazy_apply_evolves: "evolves (mx_value (ls_lock s)) (mx_value (ls_lock (lazy_apply l s action)))"
proof (cases action)
  case (Start c)
  then show ?thesis using evolves_start_call [of "ls_lock s" l c] by (auto split: prod.splits)
next
  case (Wake k)
  have "evolves (mx_value (ls_lock s)) (mx_value (fst (lock_state x (resume l w) (ls_lock s))))" for x w by (rule evolves_lock) simp
  then show ?thesis using Wake by (auto split: option.splits prod.splits) (metis fst_conv)
next
  case (Publish k)
  have "evolves (mx_value (ls_lock s)) (mx_value (fst (population_begin_publication l p (ls_lock s))))" for p by (rule evolves_begin)
  then show ?thesis using Publish by (auto split: option.splits prod.splits) (metis fst_conv)
qed (auto intro!: evolves_lock evolves_lock_drop split: option.splits)

lemma lazy_run_evolves: "evolves (mx_value (ls_lock s)) (mx_value (ls_lock (lazy_run l s acts)))"
  unfolding lazy_run_def
proof (induction acts arbitrary: s)
  case (Cons action acts)
  then show ?case using evolves_trans lazy_apply_evolves by (metis foldl_Cons)
qed simp

end
