(* ===== verification/Lazy_Properties.thy ===== *)
theory Lazy_Properties
  imports Lazy_Evolution Memory_Properties
begin

text \<open>
  The properties of guest memory that is populated on demand, over every interleaving of faults, publications, removals, wake-ups, dropped
  guards and shutdowns, with a concrete owner of two pages for the witnesses.
\<close>

section \<open>A concrete owner\<close>

definition lazy_sample_limits :: lazy_limits where
  "lazy_sample_limits = \<lparr>ll_pager = \<lparr>pl_page_size = 8, pl_region_count = 1, pl_max_in_flight = 2, pl_max_frame_bytes = 4096,
     pl_operations = 7\<rparr>, ll_max_pages = 2, ll_max_waiters = 2\<rparr>"

definition lazy_sample_region :: lazy_region where
  "lazy_sample_region = \<lparr>lr_guest = sample_range 0x1000 16, lr_source = \<lparr>pr_id = 1, pr_source_offset = 0, pr_length = 16\<rparr>\<rparr>"

definition lazy_sample :: lazy_inner where
  "lazy_sample = \<lparr>li_limits = lazy_sample_limits,
     li_regions = [\<lparr>rr_source = lazy_sample_region, rr_first_page = 0, rr_page_count = 2\<rparr>], li_memory = sample_memory None,
     li_completion_capacity = 2\<rparr>"

definition lazy_sample_lock :: "coordinator_state mutex" where
  "lazy_sample_lock = mutex_new \<lparr>cs_phase = Phase_Active, cs_pages = [Tag_Absent, Tag_Absent], cs_operations = [], cs_completions = [],
     cs_waiter_count = 0, cs_action_count = 0, cs_next_generation = 1, cs_changed = 0\<rparr>"

lemma lazy_sample_new:
  "lazy_memory_new sample_env (\<lambda>_. True) (\<lambda>k. k) 1 lazy_sample_limits [lazy_sample_region] = Ok (lazy_sample, lazy_sample_lock)"
proof -
  have "layout_new [sample_range 0x1000 16] = Ok sample_layout" by (simp add: layout_new_def sample_layout_def)
  moreover have "replicate 2 Tag_Absent = [Tag_Absent, Tag_Absent]" by (simp add: numeral_2_eq_2)
  ultimately show ?thesis
    using sample_allocate
    by (simp add: lazy_memory_new_def lazy_sample_limits_def lazy_sample_region_def lazy_sample_def lazy_sample_lock_def Let_def
        range_validate_alignment_def validate_alignment_def is_multiple_of_def region_new_def region_is_valid_for_def checked_add_def
        is_power_of_two_def sample_range_def MAX_REGIONS_def MAX_IN_FLIGHT_def sample_memory_def)
qed

abbreviation lazy_sample_run :: "lazy_action list \<Rightarrow> lazy_system" where
  "lazy_sample_run acts \<equiv> lazy_run lazy_sample (lazy_start lazy_sample_lock) acts"

text \<open>One page is faulted in and its contents installed, while the other is removed.\<close>

definition lazy_sample_actions :: "lazy_action list" where
  "lazy_sample_actions = [Start (Call_FaultPage 1 0 PageRead), Publish 0, Install 0, Start (Call_BeginRemoval 1 8 8), Zero 0]"

text \<open>A second thread waits for the page when the owner is closed.\<close>

definition lazy_sample_close :: "lazy_action list" where
  "lazy_sample_close = [Start (Call_FaultPage 1 0 PageRead), Start (Call_FaultPage 1 0 PageRead), Signal Reason_Requested]"

lemmas lazy_eval = lazy_run_def lazy_start_def lazy_sample_lock_def lazy_sample_def lazy_sample_limits_def lazy_sample_region_def sample_range_def
  is_multiple_of_def inner_page_size_def checked_add_def checked_mul_def usize_add_def vec_get_def vec_remove_def lock_state_def mutex_new_def Let_def
  lock_state_for_drop_def notify_def require_active_def allocate_generation_locked_def allocate_generation_def identifier_new_def admit_waiter_def
  begin_removal_def removal_location_def removal_def range_has_action_def issue_removal_def validate_removal_transition_def
  commit_acknowledged_def commit_removal_def require_action_locked_def removal_operation_def finalize_if_drained_locked_def
  fault_page_def location_for_page_def inner_location_def fault_def populate_page_def lazy_region_at_def page_offset_def page_source_offset_def
  page_guest_range_def range_new_def join_population_def population_operation_for_page_def wait_for_population_def
  population_begin_publication_def begin_publication_def signal_terminal_def begin_closing_locked_def

lemma vec_get_set:
  assumes "x \<in> set xs"
  obtains k where "vec_get xs k = Some x"
  using assms by (metis in_set_conv_nth vec_get_def)

section \<open>Guards and pages\<close>

lemma run_inv:
  assumes "lazy_memory_new env reserve capacity next_mapping limits regions = Ok (l, m)"
  shows "inner_wf l (length (cs_pages (mx_value m))) \<and> system_inv l (length (cs_pages (mx_value m))) (lazy_run l (lazy_start m) acts)"
  using lazy_memory_new_inv [OF assms] lazy_run_inv by blast

lemma action_guards: "size {#x \<in># guards_held s. action_key (snd x)#} = length (ls_publications s) + length (ls_removals s)"
proof -
  have "{#x \<in># mset (map population_key ps). action_key (snd x)#} = {#}" for ps
    by (induction ps) (simp_all add: population_key_def)
  moreover have "{#x \<in># mset (map publication_key us). action_key (snd x)#} = mset (map publication_key us)" for us
    by (induction us) (simp_all add: publication_key_def)
  moreover have "{#x \<in># mset (map removal_key rs). action_key (snd x)#} = mset (map removal_key rs)" for rs
    by (induction rs) (simp_all add: removal_key_def)
  ultimately show ?thesis by (simp add: guards_held_def del: mset_map)
qed

lemma inv_action_count:
  assumes "system_inv l n s"
  shows "cs_action_count (mx_value (ls_lock s)) = length (ls_publications s) + length (ls_removals s)"
proof -
  let ?st = "mx_value (ls_lock s)"
  have inv: "lazy_inv l n ?st (guards_held s) (mset (ls_sleeping s))" using assms by (simp add: system_inv_def)
  have "{#x \<in># guards_held s. action_key (snd x)#} = mset (map op_key (filter (\<lambda>x. is_action (op_kind x)) (cs_operations ?st)))"
    using inv filter_op_keys [of "cs_operations ?st"]
    by (cases "cs_phase ?st = Phase_Active") (simp_all add: lazy_inv_def active_inv_def closed_inv_def list_all_iff)
  then have "length (filter (\<lambda>x. is_action (op_kind x)) (cs_operations ?st)) = length (ls_publications s) + length (ls_removals s)"
    using action_guards [of s] by (metis length_map size_mset)
  then show ?thesis using inv by (simp add: lazy_inv_def ops_inv_def)
qed

text \<open>
  C13: After any interleaving of calls, wake-ups, dropped guards and shutdowns, the live guards are exactly the operations of the
  coordinator while the owner is active, every page in transition has exactly one operation, of the kind its tag says, and every other page has none;
  the operations stay within the agreed limit, and the action count is the number of live publications and removals.
\<close>

theorem lazy_guards_agree:
  assumes "lazy_memory_new env reserve capacity next_mapping limits regions = Ok (l, m)"
    and "s = lazy_run l (lazy_start m) acts" and "st = mx_value (ls_lock s)"
  shows "(cs_phase st = Phase_Active \<longrightarrow> guards_held s = mset (map op_key (cs_operations st)) \<and>
      (\<forall>i < length (cs_pages st). map (\<lambda>x. op_tag (op_kind x)) (filter (\<lambda>x. owns i (op_kind x)) (cs_operations st)) =
         owner_tags (cs_pages st ! i))) \<and>
    length (cs_pages st) = length (cs_pages (mx_value m)) \<and> distinct (map op_generation (cs_operations st)) \<and>
    length (cs_operations st) \<le> unat (pl_max_in_flight (ll_pager (li_limits l))) \<and>
    cs_action_count st = length (ls_publications s) + length (ls_removals s)"
proof -
  have inv: "system_inv l (length (cs_pages (mx_value m))) s" using run_inv [OF assms(1), of acts] assms(2) by blast
  then have "lazy_inv l (length (cs_pages (mx_value m))) st (guards_held s) (mset (ls_sleeping s))" by (simp add: system_inv_def assms(3))
  then show ?thesis
    using inv_action_count [OF inv] unfolding assms(3) [symmetric] lazy_inv_def ops_inv_def active_inv_def pages_owned_def by presburger
qed

text \<open>\<open>lazy_guards_agree\<close> on two pages, one faulted and installed while the other is removed.\<close>

theorem lazy_guards_agree_witness:
  "cs_phase (mx_value (ls_lock (lazy_sample_run lazy_sample_actions))) = Phase_Active \<and>
   guards_held (lazy_sample_run lazy_sample_actions) =
     mset (map op_key (cs_operations (mx_value (ls_lock (lazy_sample_run lazy_sample_actions))))) \<and>
   size (guards_held (lazy_sample_run lazy_sample_actions)) = 2"
proof -
  have "cs_phase (mx_value (ls_lock (lazy_sample_run lazy_sample_actions))) = Phase_Active"
    and "size (guards_held (lazy_sample_run lazy_sample_actions)) = 2"
    by (simp_all add: lazy_eval lazy_sample_actions_def guards_held_def)
  then show ?thesis using lazy_guards_agree [OF lazy_sample_new refl refl, of lazy_sample_actions] by blast
qed

section \<open>Stale contents\<close>

lemma publication_operation:
  assumes inv: "system_inv l n s" and u: "u \<in> set (ls_publications s)"
  obtains operation waiters where "operation \<in> set (cs_operations (mx_value (ls_lock s)))" and "op_generation operation = pu_generation u"
    and "op_kind operation = Population (pu_location u) Stage_Publishing waiters"
proof -
  obtain k where k: "vec_get (ls_publications s) k = Some u" using u by (rule vec_get_set)
  obtain ys operation zs waiters where "cs_operations (mx_value (ls_lock s)) = ys @ operation # zs" "op_generation operation = pu_generation u"
    "op_kind operation = Population (pu_location u) Stage_Publishing waiters"
    by (rule publication_split [OF publication_held [OF inv k]])
  then show thesis using that [of operation waiters] by simp
qed

lemma removal_operation_held:
  assumes inv: "system_inv l n s" and r: "r \<in> set (ls_removals s)"
  obtains ys operation zs where "cs_operations (mx_value (ls_lock s)) = ys @ operation # zs" and "op_generation operation = re_generation r"
    and "op_kind operation = Removal (re_region_index r) (re_first_page r) (re_page_count r)"
    and "re_generation r < cs_next_generation (mx_value (ls_lock s))"
proof -
  obtain k where k: "vec_get (ls_removals s) k = Some r" using r by (rule vec_get_set)
  obtain ys operation zs where split: "cs_operations (mx_value (ls_lock s)) = ys @ operation # zs" "op_generation operation = re_generation r"
    "op_kind operation = Removal (re_region_index r) (re_first_page r) (re_page_count r)"
    by (rule removal_split [OF removal_held [OF inv k, unfolded removal_key_def]])
  moreover have "op_generation operation < cs_next_generation (mx_value (ls_lock s))"
    using inv by (simp add: system_inv_def lazy_inv_def ops_inv_def split(1))
  ultimately show thesis using that by simp
qed

lemma removal_alone:
  assumes inv: "system_inv l n s" and active: "cs_phase (mx_value (ls_lock s)) = Phase_Active" and r: "r \<in> set (ls_removals s)"
    and i: "re_first_page r \<le> i" "i < re_first_page r + re_page_count r"
    and x: "x \<in> set (cs_operations (mx_value (ls_lock s)))" "owns i (op_kind x)"
  shows "\<not> population_kind (op_kind x)"
proof -
  let ?st = "mx_value (ls_lock s)"
  obtain ys operation zs where split: "cs_operations ?st = ys @ operation # zs"
    and kind: "op_kind operation = Removal (re_region_index r) (re_first_page r) (re_page_count r)"
    by (rule removal_operation_held [OF inv r])
  have inv': "ops_inv l n ?st" "pages_owned ?st" using inv active by (simp_all add: system_inv_def lazy_inv_def active_inv_def)
  then have "kind_ok l n (op_kind operation)" by (simp add: ops_inv_def split)
  then have bound: "i < length (cs_pages ?st)" using inv'(1) i kind by (simp add: ops_inv_def)
  have "owns i (op_kind operation)" using i kind by simp
  from sole_owner [OF inv'(2) split bound this] have "x = operation" using x by (auto simp: split filter_empty_conv)
  then show ?thesis by (simp add: kind)
qed

text \<open>
  C14: Once a removal of a range is under way, every later publication of one of its pages has a newer generation: contents
  that were requested before the removal are never installed over it, whatever the threads do in between.
\<close>

theorem lazy_removal_fences:
  assumes "lazy_memory_new env reserve capacity next_mapping limits regions = Ok (l, m)"
    and "s = lazy_run l (lazy_start m) acts" and "cs_phase (mx_value (ls_lock s)) = Phase_Active"
    and "r \<in> set (ls_removals s)" and "s' = lazy_run l s later" and "u \<in> set (ls_publications s')"
    and "re_first_page r \<le> lo_flat_index (pu_location u)" and "lo_flat_index (pu_location u) < re_first_page r + re_page_count r"
  shows "re_generation r < pu_generation u"
proof -
  define n where "n = length (cs_pages (mx_value m))"
  have wf: "inner_wf l n" and inv: "system_inv l n s" using run_inv [OF assms(1), of acts] assms(2) by (simp_all add: n_def)
  have inv': "system_inv l n s'" using lazy_run_inv [OF inv wf] assms(5) by simp
  obtain new waiters where new: "new \<in> set (cs_operations (mx_value (ls_lock s')))" "op_generation new = pu_generation u"
    "op_kind new = Population (pu_location u) Stage_Publishing waiters"
    by (rule publication_operation [OF inv' assms(6)])
  have "evolves (mx_value (ls_lock s)) (mx_value (ls_lock s'))" using lazy_run_evolves assms(5) by simp
  then consider "cs_next_generation (mx_value (ls_lock s)) \<le> op_generation new"
    | old where "old \<in> set (cs_operations (mx_value (ls_lock s)))" "descends old new"
    using new(1) by (auto simp: evolves_def)
  then show ?thesis
  proof cases
    case 1
    moreover have "re_generation r < cs_next_generation (mx_value (ls_lock s))" by (rule removal_operation_held [OF inv assms(4)])
    ultimately show ?thesis using new(2) by simp
  next
    case 2
    then have "owns (lo_flat_index (pu_location u)) (op_kind old)" "population_kind (op_kind old)"
      using new(3) by (auto simp: descends_def)
    then show ?thesis using removal_alone [OF inv assms(3,4,7,8) 2(1)] by simp
  qed
qed

text \<open>\<open>lazy_removal_fences\<close> on a page that is removed and then faulted in again.\<close>

theorem lazy_removal_fences_witness:
  "\<exists>r u. r \<in> set (ls_removals (lazy_sample_run [Start (Call_BeginRemoval 1 0 8)])) \<and>
     u \<in> set (ls_publications (lazy_run lazy_sample (lazy_sample_run [Start (Call_BeginRemoval 1 0 8)])
       [Zero 0, Acknowledge 0, Start (Call_FaultPage 1 0 PageRead), Publish 0])) \<and>
     re_generation r < pu_generation u"
proof -
  let ?s = "lazy_sample_run [Start (Call_BeginRemoval 1 0 8)]"
  let ?r = "\<lparr>re_region = 1, re_region_index = 0, re_first_page = 0, re_page_count = Suc 0, re_region_offset = 0,
    re_source_offset = 0, re_length = 8, re_generation = 1, re_zeroed = False\<rparr>"
  let ?u = "\<lparr>pu_location = \<lparr>lo_region_index = 0, lo_page_in_region = 0, lo_flat_index = 0\<rparr>, pu_region_offset = 0,
    pu_generation = 2, pu_initialized = False\<rparr>"
  have active: "cs_phase (mx_value (ls_lock ?s)) = Phase_Active" and r: "?r \<in> set (ls_removals ?s)" by (simp_all add: lazy_eval)
  have u: "?u \<in> set (ls_publications (lazy_run lazy_sample ?s [Zero 0, Acknowledge 0, Start (Call_FaultPage 1 0 PageRead), Publish 0]))"
    by (simp add: lazy_eval)
  have "re_generation ?r < pu_generation ?u"
    by (rule lazy_removal_fences [OF lazy_sample_new refl active r refl u]) simp_all
  then show ?thesis using r u by blast
qed

section \<open>Commits\<close>

text \<open>
  C16: While the owner is active, committing an installed publication succeeds and makes exactly its page present, and
  committing a zeroed and acknowledged removal succeeds and makes exactly the pages of its range absent.
\<close>

theorem lazy_commit_exact:
  assumes "lazy_memory_new env reserve capacity next_mapping limits regions = Ok (l, m)"
    and "s = lazy_run l (lazy_start m) acts" and "st = mx_value (ls_lock s)" and "cs_phase st = Phase_Active"
  shows "(\<forall>u \<in> set (ls_publications s). pu_initialized u \<longrightarrow>
      (\<exists>st'. publication_commit u st = (st', Ok ()) \<and> cs_pages st' = (cs_pages st)[lo_flat_index (pu_location u) := Tag_Present])) \<and>
    (\<forall>r \<in> set (ls_removals s). re_zeroed r \<longrightarrow>
      (\<exists>st'. commit_acknowledged r st = (st', Ok ()) \<and> length (cs_pages st') = length (cs_pages st) \<and>
        (\<forall>i < length (cs_pages st). cs_pages st' ! i =
           (if re_first_page r \<le> i \<and> i < re_first_page r + re_page_count r then Tag_Absent else cs_pages st ! i))))"
proof (intro conjI ballI impI)
  define n where "n = length (cs_pages (mx_value m))"
  have wf: "inner_wf l n" and inv: "system_inv l n s" using run_inv [OF assms(1), of acts] assms(2) by (simp_all add: n_def)
  {
    fix u assume u: "u \<in> set (ls_publications s)" "pu_initialized u"
    obtain k where k: "vec_get (ls_publications s) k = Some u" using u(1) by (rule vec_get_set)
    obtain st' r where out: "commit_publication (pu_location u) (pu_generation u) st = (st', r)" by fastforce
    show "\<exists>st'. publication_commit u st = (st', Ok ()) \<and> cs_pages st' = (cs_pages st)[lo_flat_index (pu_location u) := Tag_Present]"
      using commit_publication_active [OF publication_held [OF inv k, folded assms(3)] wf assms(4) out] out u(2)
      by (auto simp: publication_commit_def)
  next
    fix r assume r: "r \<in> set (ls_removals s)" "re_zeroed r"
    obtain k where k: "vec_get (ls_removals s) k = Some r" using r(1) by (rule vec_get_set)
    obtain st' res where out: "commit_removal (re_region_index r) (re_first_page r) (re_page_count r) (re_generation r) st = (st', res)" by fastforce
    show "\<exists>st'. commit_acknowledged r st = (st', Ok ()) \<and> length (cs_pages st') = length (cs_pages st) \<and>
        (\<forall>i < length (cs_pages st). cs_pages st' ! i =
           (if re_first_page r \<le> i \<and> i < re_first_page r + re_page_count r then Tag_Absent else cs_pages st ! i))"
      using commit_removal_active [OF removal_held [OF inv k, folded assms(3), unfolded removal_key_def] wf assms(4) out] out r(2)
      by (auto simp: commit_acknowledged_def)
  }
qed

text \<open>\<open>lazy_commit_exact\<close> on a page that is installed next to one that is removed.\<close>

theorem lazy_commit_exact_witness:
  "\<exists>u st'. u \<in> set (ls_publications (lazy_sample_run lazy_sample_actions)) \<and>
     publication_commit u (mx_value (ls_lock (lazy_sample_run lazy_sample_actions))) = (st', Ok ()) \<and>
     cs_pages st' = [Tag_Present, Tag_Removing]"
proof -
  let ?s = "lazy_sample_run lazy_sample_actions"
  have active: "cs_phase (mx_value (ls_lock ?s)) = Phase_Active" and pages: "cs_pages (mx_value (ls_lock ?s)) = [Tag_Publishing, Tag_Removing]"
    by (simp_all add: lazy_eval lazy_sample_actions_def)
  obtain u where u: "u \<in> set (ls_publications ?s)" "pu_initialized u" "lo_flat_index (pu_location u) = 0"
    by (simp add: lazy_eval lazy_sample_actions_def)
  show ?thesis using lazy_commit_exact [OF lazy_sample_new refl refl active] u pages by fastforce
qed

section \<open>Waiting threads\<close>

lemma blocked_resume: "blocked st w \<Longrightarrow> resume l w st = (st, Sleeps w)"
proof (cases w)
  case (Await_Population loc g)
  assume "blocked st w"
  then have active: "cs_phase st = Phase_Active"
    and none: "\<forall>c \<in> set (cs_completions st). \<not> (co_location c = loc \<and> co_generation c = g)"
    and some: "list_ex (\<lambda>operation. op_generation operation = g \<and>
      (case op_kind operation of Population loc' stage waiters \<Rightarrow> loc' = loc | _ \<Rightarrow> False)) (cs_operations st)"
    by (auto simp: Await_Population list_ex_iff)
  have "position (\<lambda>c. co_location c = loc \<and> co_generation c = g) (cs_completions st) = None" using none by (simp add: position_None_iff)
  then show ?thesis using active some by (simp add: Await_Population wait_for_population_def)
qed (simp_all add: wait_for_page_change_def wait_for_range_actions_def wait_for_actions_def)

text \<open>
  C15: No wake-up is lost: a sleeping thread that has not been notified since it fell asleep would, if it woke now, change nothing
  and go back to sleep, in every state that any interleaving reaches.
\<close>

theorem lazy_no_lost_wakeup:
  assumes "lazy_memory_new env reserve capacity next_mapping limits regions = Ok (l, m)"
    and "s = lazy_run l (lazy_start m) acts" and "st = mx_value (ls_lock s)" and "(w, cs_changed st) \<in> set (ls_sleeping s)"
  shows "resume l w st = (st, Sleeps w)"
proof -
  have "awake st (mset (ls_sleeping s))" using run_inv [OF assms(1), of acts] assms(2,3) by (simp add: system_inv_def)
  then have "blocked st w" using assms(4) by (auto simp: awake_def simp del: blocked.simps)
  then show ?thesis by (rule blocked_resume)
qed

text \<open>\<open>lazy_no_lost_wakeup\<close> on a thread that waits for a page another thread is populating.\<close>

theorem lazy_no_lost_wakeup_witness:
  "\<exists>w. (w, 0) \<in> set (ls_sleeping (lazy_sample_run [Start (Call_FaultPage 1 0 PageRead), Start (Call_FaultPage 1 0 PageRead)])) \<and>
     snd (resume lazy_sample w (mx_value (ls_lock (lazy_sample_run [Start (Call_FaultPage 1 0 PageRead), Start (Call_FaultPage 1 0 PageRead)])))) = Sleeps w"
proof -
  let ?acts = "[Start (Call_FaultPage 1 0 PageRead), Start (Call_FaultPage 1 0 PageRead)]"
  let ?w = "Await_Population \<lparr>lo_region_index = 0, lo_page_in_region = 0, lo_flat_index = 0\<rparr> 1"
  have w: "(?w, 0) \<in> set (ls_sleeping (lazy_sample_run ?acts))" and changed: "cs_changed (mx_value (ls_lock (lazy_sample_run ?acts))) = 0"
    by (simp_all add: lazy_eval)
  then have "resume lazy_sample ?w (mx_value (ls_lock (lazy_sample_run ?acts))) = (mx_value (ls_lock (lazy_sample_run ?acts)), Sleeps ?w)"
    by (intro lazy_no_lost_wakeup [OF lazy_sample_new refl refl]) (simp only: changed)
  then show ?thesis using w by (metis snd_conv)
qed

text \<open>
  C26: The threads that wait for a page, for its population or for a range are counted exactly and stay within the agreed
  limit, and the completions that wait to be collected never outgrow the capacity reserved for them at construction. Threads
  that wait in \<open>terminate\<close> for the live guards are neither counted nor bounded.
\<close>

theorem lazy_waits_bounded:
  assumes "lazy_memory_new env reserve capacity next_mapping limits regions = Ok (l, m)"
    and "s = lazy_run l (lazy_start m) acts" and "st = mx_value (ls_lock s)"
  shows "cs_waiter_count st = length (filter (\<lambda>x. fst x \<noteq> Await_Actions) (ls_sleeping s)) \<and>
    cs_waiter_count st \<le> unat (ll_max_waiters (li_limits l)) \<and> length (cs_completions st) \<le> cs_waiter_count st \<and>
    cs_waiter_count st \<le> li_completion_capacity l"
proof -
  define n where "n = length (cs_pages (mx_value m))"
  have wf: "inner_wf l n" and inv: "lazy_inv l n st (guards_held s) (mset (ls_sleeping s))"
    using run_inv [OF assms(1), of acts] assms(2,3) by (simp_all add: n_def system_inv_def)
  have count: "cs_waiter_count st = length (filter (\<lambda>x. fst x \<noteq> Await_Actions) (ls_sleeping s))"
    using inv by (metis lazy_inv_def mset_filter size_mset waits_inv_def)
  have "length (cs_completions st) \<le> cs_waiter_count st"
  proof (cases "cs_phase st = Phase_Active")
    case True
    then have "\<forall>c \<in> set (cs_completions st). Suc 0 \<le> co_remaining c" using inv by (auto simp: lazy_inv_def active_inv_def Suc_le_eq)
    then have "length cs \<le> (\<Sum>c\<leftarrow>cs. co_remaining c)" if "set cs \<subseteq> set (cs_completions st)" for cs
      using that by (induction cs) fastforce+
    then show ?thesis using waiters_bounded [OF inv True] by fastforce
  next
    case False
    then show ?thesis using inv by (simp add: lazy_inv_def closed_inv_def)
  qed
  moreover have "cs_waiter_count st \<le> unat (ll_max_waiters (li_limits l))" using inv by (simp add: lazy_inv_def waits_inv_def)
  moreover have "unat (ll_max_waiters (li_limits l)) \<le> li_completion_capacity l" using wf by (simp add: inner_wf_def)
  ultimately show ?thesis using count by simp
qed

text \<open>\<open>lazy_waits_bounded\<close> with two threads waiting for one page.\<close>

theorem lazy_waits_bounded_witness:
  "cs_waiter_count (mx_value (ls_lock (lazy_sample_run (replicate 3 (Start (Call_FaultPage 1 0 PageRead)))))) = 2 \<and>
   cs_waiter_count (mx_value (ls_lock (lazy_sample_run (replicate 3 (Start (Call_FaultPage 1 0 PageRead)))))) \<le> li_completion_capacity lazy_sample"
proof -
  have "cs_waiter_count (mx_value (ls_lock (lazy_sample_run (replicate 3 (Start (Call_FaultPage 1 0 PageRead)))))) = 2"
    by (simp add: lazy_eval numeral_3_eq_3)
  then show ?thesis using lazy_waits_bounded [OF lazy_sample_new refl refl, of "replicate 3 (Start (Call_FaultPage 1 0 PageRead))"] by blast
qed

section \<open>Results\<close>

text \<open>
  C27: In every state that any interleaving reaches, no call, no thread that wakes and no guard that is used is told that
  the lifecycle is invalid, and none panics: the defensive branches of the coordinator are unreachable.
\<close>

theorem lazy_results_sound:
  assumes "lazy_memory_new env reserve capacity next_mapping limits regions = Ok (l, m)"
    and "s = lazy_run l (lazy_start m) acts" and "st = mx_value (ls_lock s)"
  shows "(\<forall>c. sound_progress (snd (start_call l c (ls_lock s)))) \<and> (\<forall>x \<in> set (ls_sleeping s). sound_progress (snd (resume l (fst x) st))) \<and>
    (\<forall>p \<in> set (ls_populations s). sound (snd (population_begin_publication l p (ls_lock s)))) \<and>
    (\<forall>u \<in> set (ls_publications s). sound (snd (publication_commit u st))) \<and>
    (\<forall>r \<in> set (ls_removals s). sound (snd (commit_acknowledged r st)))"
proof (intro conjI ballI allI)
  define n where "n = length (cs_pages (mx_value m))"
  have wf: "inner_wf l n" and inv: "system_inv l n s" using run_inv [OF assms(1), of acts] assms(2) by (simp_all add: n_def)
  show "sound_progress (snd (start_call l c (ls_lock s)))" for c
  proof -
    obtain m' r where "start_call l c (ls_lock s) = (m', r)" by fastforce
    then show ?thesis using start_call_keeps [OF inv wf, of c m' r] by (simp add: keeps_def)
  qed
  show "sound_progress (snd (resume l (fst x) st))" if x: "x \<in> set (ls_sleeping s)" for x
  proof -
    obtain k where k: "vec_get (ls_sleeping s) k = Some x" using x by (rule vec_get_set)
    have "keeps l n (guards_held s) (mset (vec_remove k (ls_sleeping s))) (resume l (fst x) st)"
      unfolding assms(3) by (rule resume_keeps [OF sleeper_split [OF inv, where w = "fst x" and seen = "snd x"] wf]) (simp_all add: k)
    then show ?thesis by (cases "resume l (fst x) st") (simp add: keeps_def)
  qed
  show "sound (snd (population_begin_publication l p (ls_lock s)))" if x: "p \<in> set (ls_populations s)" for p
  proof -
    obtain k where k: "vec_get (ls_populations s) k = Some p" using x by (rule vec_get_set)
    obtain m' r where "population_begin_publication l p (ls_lock s) = (m', r)" by fastforce
    then show ?thesis using publish_keeps [OF inv wf k, of m' r] by simp
  qed
  show "sound (snd (publication_commit u st))" if x: "u \<in> set (ls_publications s)" for u
  proof -
    obtain k where k: "vec_get (ls_publications s) k = Some u" using x by (rule vec_get_set)
    obtain st' r where "publication_commit u st = (st', r)" by fastforce
    then show ?thesis using publication_commit_keeps [OF publication_held [OF inv k] wf, of st' r] assms(3) by simp
  qed
  show "sound (snd (commit_acknowledged r st))" if x: "r \<in> set (ls_removals s)" for r
  proof -
    obtain k where k: "vec_get (ls_removals s) k = Some r" using x by (rule vec_get_set)
    obtain st' res where "commit_acknowledged r st = (st', res)" by fastforce
    then show ?thesis using commit_acknowledged_keeps [OF removal_held [OF inv k] wf, of st' res] assms(3) by simp
  qed
qed

text \<open>\<open>lazy_results_sound\<close> on a fault of the page under publication.\<close>

theorem lazy_results_sound_witness:
  "sound_progress (snd (start_call lazy_sample (Call_FaultPage 1 0 PageWrite) (ls_lock (lazy_sample_run lazy_sample_actions)))) \<and>
   lazy_memory_new sample_env (\<lambda>_. True) (\<lambda>k. k) 1 lazy_sample_limits [lazy_sample_region] = Ok (lazy_sample, lazy_sample_lock)"
  using lazy_results_sound [OF lazy_sample_new refl refl, of lazy_sample_actions] lazy_sample_new by blast

section \<open>Closing\<close>

lemma closed_resume:
  assumes "cs_phase st \<noteq> Phase_Active" and "w \<noteq> Await_Actions"
  shows "\<exists>reason. resume l w st = (leave_waiter st, Returns (Err (Lazy_Terminal reason)))"
  using assms(2) not_active_reason [OF assms(1)]
  by (cases w) (auto simp: wait_for_population_def wait_for_page_change_def wait_for_range_actions_def)

lemma terminal_guards:
  assumes inv: "system_inv l n s" and terminal: "cs_phase (mx_value (ls_lock s)) = Phase_Terminal reason"
  shows "ls_publications s = [] \<and> ls_removals s = []"
proof -
  have "cs_operations (mx_value (ls_lock s)) = []"
    using inv terminal by (simp add: system_inv_def lazy_inv_def closed_inv_def)
  then have "cs_action_count (mx_value (ls_lock s)) = 0" using inv by (simp add: system_inv_def lazy_inv_def ops_inv_def)
  then show ?thesis using inv_action_count [OF inv] by simp
qed

text \<open>
  C25: Once the owner is closed, every thread that waits for a page or a range leaves with the terminal error when it wakes, and a
  thread that waits for the owner to drain returns exactly when no publication and no removal is live. A terminal owner has neither,
  and stays terminal with its reason in every run that follows.
\<close>

theorem lazy_close_releases:
  assumes "lazy_memory_new env reserve capacity next_mapping limits regions = Ok (l, m)"
    and "s = lazy_run l (lazy_start m) acts" and "st = mx_value (ls_lock s)" and "cs_phase st \<noteq> Phase_Active"
  shows "(\<forall>x \<in> set (ls_sleeping s). fst x \<noteq> Await_Actions \<longrightarrow>
      (\<exists>reason. snd (resume l (fst x) st) = Returns (Err (Lazy_Terminal reason)))) \<and>
    (snd (resume l Await_Actions st) = Returns (Ok Ret_Unit) \<longleftrightarrow> ls_publications s = [] \<and> ls_removals s = []) \<and>
    (\<forall>reason later. cs_phase st = Phase_Terminal reason \<longrightarrow> ls_publications s = [] \<and> ls_removals s = [] \<and>
      cs_phase (mx_value (ls_lock (lazy_run l s later))) = Phase_Terminal reason)"
proof (intro conjI ballI allI impI)
  define n where "n = length (cs_pages (mx_value m))"
  have inv: "system_inv l n s" using run_inv [OF assms(1), of acts] assms(2) by (simp add: n_def)
  show "\<exists>reason. snd (resume l (fst x) st) = Returns (Err (Lazy_Terminal reason))" if "fst x \<noteq> Await_Actions" for x
    using closed_resume [OF assms(4) that, of l] by fastforce
  show "snd (resume l Await_Actions st) = Returns (Ok Ret_Unit) \<longleftrightarrow> ls_publications s = [] \<and> ls_removals s = []"
    using inv_action_count [OF inv] assms(3) by (simp add: wait_for_actions_def)
  fix reason later assume terminal: "cs_phase st = Phase_Terminal reason"
  show "ls_publications s = []" and "ls_removals s = []" using terminal_guards [OF inv] terminal assms(3) by simp_all
  show "cs_phase (mx_value (ls_lock (lazy_run l s later))) = Phase_Terminal reason"
    using lazy_run_evolves [of s l later] terminal assms(3) by (simp add: evolves_def)
qed

text \<open>\<open>lazy_close_releases\<close> on a thread that waits for a page when the owner is closed.\<close>

theorem lazy_close_releases_witness:
  "\<exists>x reason. x \<in> set (ls_sleeping (lazy_sample_run lazy_sample_close)) \<and>
     snd (resume lazy_sample (fst x) (mx_value (ls_lock (lazy_sample_run lazy_sample_close)))) = Returns (Err (Lazy_Terminal reason))"
proof -
  let ?s = "lazy_sample_run lazy_sample_close"
  have closed: "cs_phase (mx_value (ls_lock ?s)) \<noteq> Phase_Active" by (simp add: lazy_eval lazy_sample_close_def)
  obtain x where "x \<in> set (ls_sleeping ?s)" "fst x \<noteq> Await_Actions" by (simp add: lazy_eval lazy_sample_close_def)
  then show ?thesis using lazy_close_releases [OF lazy_sample_new refl refl closed] by blast
qed

text \<open>
  C37: A population guard that is dropped while the lock is poisoned closes the owner without notifying: the operation is
  discarded by the recovery, so the destructor finds nothing to do and the threads that wait for the page are not woken.
\<close>

theorem poisoned_drop_silent:
  assumes "mx_poisoned m" and "cs_phase (mx_value m) = Phase_Active"
    and "\<forall>operation \<in> set (cs_operations (mx_value m)). op_generation operation = g \<longrightarrow> \<not> is_action (op_kind operation)"
  shows "cs_phase (mx_value (lock_state_for_drop (drop_population loc g) m)) \<noteq> Phase_Active \<and>
    cs_changed (mx_value (lock_state_for_drop (drop_population loc g) m)) = cs_changed (mx_value m)"
proof -
  let ?st = "recover_poison (mx_value m)"
  have "\<forall>operation \<in> set (cs_operations ?st). op_generation operation \<noteq> g"
    using assms(2,3) by (auto simp: recover_poison_def begin_closing_locked_def finalize_if_drained_locked_def)
  then have "position (\<lambda>operation. op_generation operation = g) (cs_operations ?st) = None" by (simp add: position_None_iff)
  then have "drop_population loc g ?st = ?st" by (simp add: drop_population_def)
  moreover have "cs_phase ?st \<noteq> Phase_Active" using begin_closing_phase by (simp add: recover_poison_def)
  moreover have "cs_changed ?st = cs_changed (mx_value m)" by (simp add: recover_poison_def)
  ultimately show ?thesis using assms(1) by (simp add: lock_state_for_drop_def)
qed

text \<open>\<open>poisoned_drop_silent\<close> with a thread that waits for the page of the dropped guard.\<close>

theorem poisoned_drop_silent_witness:
  "(let s = lazy_sample_run [Start (Call_FaultPage 1 0 PageRead), Start (Call_FaultPage 1 0 PageRead)];
        m = lock_state_for_drop (drop_population \<lparr>lo_region_index = 0, lo_page_in_region = 0, lo_flat_index = 0\<rparr> 1) ((ls_lock s)\<lparr>mx_poisoned := True\<rparr>)
    in map snd (ls_sleeping s) = [cs_changed (mx_value m)] \<and> cs_phase (mx_value m) \<noteq> Phase_Active)"
proof -
  let ?s = "lazy_sample_run [Start (Call_FaultPage 1 0 PageRead), Start (Call_FaultPage 1 0 PageRead)]"
  have "map snd (ls_sleeping ?s) = [0]" "cs_changed (mx_value (ls_lock ?s)) = 0" "cs_phase (mx_value (ls_lock ?s)) = Phase_Active"
    "list_all (\<lambda>operation. \<not> is_action (op_kind operation)) (cs_operations (mx_value (ls_lock ?s)))"
    by (simp_all add: lazy_eval)
  then show ?thesis
    using poisoned_drop_silent [of "(ls_lock ?s)\<lparr>mx_poisoned := True\<rparr>" 1] by (simp add: Let_def list_all_iff)
qed

end
