(* ===== verification/Spec2Isabelle.thy ===== *)
theory Spec2Isabelle
  imports Virtqueue_Properties Token_Bucket_Properties Virtio_Mmio_Properties Virtio_Device Message_Interrupt Pager_Link Lazy_Properties
begin

text \<open>
  \<^bold>\<open>A verification library for the device and memory core of the virtual-machine monitor.\<close>

  \<^bold>\<open>The program.\<close> A microVM monitor for macOS in Rust. Guest RAM is a set of host mappings; a
  dirty-page tracker records which pages were written, so that a snapshot can store the difference. Devices talk to the guest through
  split virtqueues in guest RAM and are rate-limited by token buckets. The guest reaches a device through a window on the
  MMIO bus: a dispatcher routes an access to the handler that owns the region, and for a virtio device the handler is
  the register machine of the virtio-mmio transport. Work on a device and message-signalled interrupts pass admission
  gates that are drained before a teardown. A snapshot can be restored lazily: an external peer supplies page contents
  over the pager protocol, and a coordinator tracks which pages are present.

  \<^bold>\<open>Conventions\<close> (theory \<open>Prelude\<close>). A machine integer is a word of its width and \<open>usize\<close> is 64 bits wide, as
  \<open>u64\<close> or, for the length of a vector, \<open>nat\<close>. The checked, saturating and narrowing operations are those of the source. A
  \<open>Result\<close> is \<open>Ok\<close> or \<open>Err\<close>, or \<open>Panic\<close> where the source would panic. An operation that changes a state and may
  fail returns the state beside the result. What lies outside the sources (allocation, the operating system, a device back end
  behind a trait) is an argument of the definitions that use it. A mutex-protected method is one critical section; the threads that
  interleave them are a step relation.

  \<^bold>\<open>Theories, what they model, what they show.\<close>

  \<^item> \<open>Address_Range\<close>: ranges, the RAM layout and the aarch64 memory map (first part of \<open>runtime/src/memory.rs\<close>); the
    layout places exactly the requested RAM around the device hole, and the kernel, device tree and initrd do not collide. Locale
    \<open>range_table\<close>: a vector kept sorted by start, for the RAM regions, the dirty regions and the bus.
  \<^item> \<open>Dirty_Tracker\<close>: \<open>runtime/src/memory_dirty.rs\<close>; the bitmap with its atomic words refines a set of pages.
  \<^item> \<open>Guest_Memory\<close>, \<open>Memory_Frame\<close>, \<open>Memory_Properties\<close>: the rest of \<open>memory.rs\<close>, reads, writes, retained atomic words, region
    insertion and removal, discard, dirty logging. \<open>Memory_Frame\<close>: every operation keeps a retained word fitted to the
    memory, whenever it is stored through. Locales \<open>byte_memory\<close> and \<open>dirty_log\<close> are the
    contracts the devices use: memory is a flat array of bytes, accesses succeed or change nothing where the code says so, and every
    changed byte lies on a page that the next difference snapshot contains, words retained from before the tracking excepted.
  \<^item> \<open>Virtqueue\<close>, \<open>Virtqueue_Properties\<close>: \<open>runtime/src/virtio_queue.rs\<close>; a chain the code returns is a path
    through the descriptor table and the loops end, the available ring is a queue (locale \<open>drained_queue\<close>), a used-ring
    publication is an all-or-nothing append with an exact notification decision.
  \<^item> \<open>Token_Bucket\<close>, \<open>Token_Bucket_Properties\<close>: \<open>runtime/src/token_bucket.rs\<close>; the three arithmetic paths agree, no
    run of requests is granted more than the rate allows (locale \<open>rate_limiter\<close>), the retry delay is exact once the burst is spent, and persisting
    and restoring a bucket changes no outcome.
  \<^item> \<open>Mmio\<close>, \<open>Mmio_Properties\<close>: \<open>runtime/src/mmio.rs\<close>; the dispatcher's invariant, exact routing, and the
    life cycle of a registration lease.
  \<^item> \<open>Interrupt\<close>, \<open>Virtio_Mmio\<close>, \<open>Virtio_Mmio_Invariant\<close>, \<open>Virtio_Mmio_Properties\<close>:
    \<open>runtime/src/interrupt.rs\<close> and \<open>runtime/src/virtio_mmio.rs\<close>; the register map, status and queue registers, activation and
    reset of the back end, and which saved transport states are restored.
  \<^item> \<open>Drain_Gate\<close>, \<open>Virtio_Device\<close>, \<open>Message_Interrupt\<close>: the device type and work gate of
    \<open>runtime/src/virtio.rs\<close> and the registry of \<open>runtime/src/message_interrupt.rs\<close>. Locale \<open>drain_gate\<close>, interpreted on
    both, shows that a drained gate stays empty until it is resumed and that no wake-up is lost.
  \<^item> \<open>Big_Endian\<close>, \<open>Pager_Frame\<close>, \<open>Pager_Properties\<close>: \<open>pager/src/frame.rs\<close>; decoding accepts exactly
    the encodings of valid frames, and the incremental decoder is independent of how the stream is cut into chunks no longer than a frame.
  \<^item> \<open>Pager_Session\<close>, \<open>Pager_Requests\<close>, \<open>Pager_Link\<close>: both sessions of \<open>pager/src/state.rs\<close>; against
    any peer a request is answered at most once and exactly; two connected sessions never refuse each other's frames unless one of
    them breaks the session off.
  \<^item> \<open>Lazy_Memory\<close>, \<open>Lazy_Coordinator\<close>: \<open>runtime/src/lazy_memory.rs\<close>, the construction of memory that is populated on
    demand and every critical section of its page coordinator; \<open>Lazy_System\<close>: threads around it, as runs of actions over the
    locked state, the live guards and the sleeping threads, with the condition variable as a counter of notifications.
    \<open>Lazy_Invariant\<close>, \<open>Lazy_Publication\<close>, \<open>Lazy_Removal\<close>, \<open>Lazy_Run\<close>: every step keeps the invariant that ties pages,
    operations, guards and waiters together; \<open>Lazy_Evolution\<close>: what never goes back; \<open>Lazy_Properties\<close>: a removal fences off
    older contents, no wake-up is lost, the defensive branches are unreachable, closing releases every waiter, and one path of the poison
    recovery does not notify.
  \<^item> This theory: the compositions. A guest access at a bus address reaches the registers of the virtio device that owns the window and
    nothing else, and the rings a driver programs through them are the rings the queue code walks.

  \<^bold>\<open>Bounds and fuel.\<close> No definition uses fuel. Loops of the source are structural recursions over the vector or range they
  walk, or functions with a termination proof (\<open>decode_frames\<close>: a frame is never empty). The descriptor walks
  count the iterations of the source's own bounded loops.

  \<^bold>\<open>Not modelled.\<close> The back ends of the block, network, socket, balloon, entropy, pmem, vmclock, hot-plug, serial and RTC
  devices, the PCI transport, MMDS, the HTTP front end, the boot image loader and device tree, the snapshot container codecs and
  the session protocol between launcher and worker: deterministic code that the theories above do not depend on. The controller, the
  launcher, the Hypervisor.framework back end, the pager client and transport, logging and host networking: their
  behaviour is that of threads, sockets, files and a foreign API, of which the sources hold only the calls. Within the modelled files,
  \<open>Debug\<close> and \<open>Display\<close> implementations, accessors that project a field, metrics counters and memory ordering of atomics (every atomic
  access is one step) are left out.
\<close>

section \<open>Virtio devices behind the MMIO dispatcher\<close>

text \<open>The bus resolves a register-sized access in the window of a device to its register offset.\<close>

lemma register_offset_small: "unat (register_offset r) + 4 \<le> 0x100"
  by (cases r) simp_all

lemma window_lookup:
  assumes wf: "bus_wf (md_bus d)" and reg: "region \<in> set (bus_regions (md_bus d))"
    and size: "gmr_size (mr_range region) = VIRTIO_MMIO_DEVICE_WINDOW_SIZE"
  obtains a where "dispatcher_lookup d (gmr_start (mr_range region) + register_offset r) 4 = Ok a"
    and "ma_region a = region" and "gmr_size (ma_range a) = 4" and "ma_offset a = register_offset r"
    and "gmr_start (ma_range a) = gmr_start (mr_range region) + register_offset r"
proof -
  let ?s = "gmr_start (mr_range region)" and ?o = "register_offset r"
  let ?rng = "\<lparr>gmr_start = ?s + ?o, gmr_size = 4, gmr_end_exclusive = ?s + ?o + 4\<rparr>"
  have rwf: "range_wf (mr_range region)" by (rule bus_region_wf [OF wf reg])
  then have e: "unat (gmr_end_exclusive (mr_range region)) = unat ?s + 0x1000"
    using size by (simp add: range_wf_def VIRTIO_MMIO_DEVICE_WINDOW_SIZE_def)
  then have fit: "unat ?s + 0x1000 < 2 ^ 64"
    using unat_bound64 [of "gmr_end_exclusive (mr_range region)"] by simp
  have o: "unat (?s + ?o) = unat ?s + unat ?o" using fit register_offset_small [of r] by (simp add: unat_word_ariths)
  have o4: "unat (?s + ?o + 4) = unat ?s + unat ?o + 4"
    using fit register_offset_small [of r] o by (simp add: unat_word_ariths)
  have "range_new (?s + ?o) 4 = Ok ?rng"
    using o o4 fit register_offset_small [of r] by (simp add: range_new_def checked_add_def)
  moreover have "guest_memory_range_contains (mr_range region) ?rng"
    using o o4 e register_offset_small [of r] by (simp add: guest_memory_range_contains_def word_le_nat_alt)
  ultimately have "dispatcher_lookup d (?s + ?o) 4 = Ok \<lparr>ma_region = region, ma_range = ?rng, ma_offset = ?o\<rparr>"
    using reg by (simp add: dispatcher_lookup_def bus_lookup_Ok_iff [OF wf])
  then show thesis by (rule that) simp_all
qed

lemma register_value_bytes:
  obtains data where "access_bytes_new (to_le_bytes (v :: u32)) = Ok data" and "mab_len data = 4"
    and "4 \<le> length (mab_bytes data)" and "access_bytes_as_slice data = to_le_bytes v"
proof -
  let ?d = "\<lparr>mab_bytes = overwrite 0 (to_le_bytes v) (replicate MAX_MMIO_ACCESS_BYTES 0), mab_len = 4\<rparr>"
  have "access_bytes_new (to_le_bytes v) = Ok ?d"
    by (simp add: access_bytes_new_def validate_mmio_access_byte_len_def)
  moreover have "4 \<le> length (mab_bytes ?d)" "access_bytes_as_slice ?d = to_le_bytes v"
    by (simp_all add: access_bytes_as_slice_def overwrite_def MAX_MMIO_ACCESS_BYTES_def)
  ultimately show thesis by (intro that) simp_all
qed

lemma dispatch_virtio_write:
  assumes "bus_lookup (md_bus d) (gmr_start (ma_range a)) (gmr_size (ma_range a)) = Ok a"
    and "md_handlers d (mr_id (ma_region a)) = Some h" and "write_access ops h a data = (h', res)"
  shows "dispatch (virtio_handler_read ops display) (virtio_handler_write ops display) d (OpWrite a data) =
    (d\<lparr>md_handlers := (md_handlers d)(mr_id (ma_region a) \<mapsto> h')\<rparr>,
     and_then (map_err (\<lambda>e. HandlerFailed (mr_id (ma_region a)) KindWrite (MmioHandlerError (display e))) res)
       (\<lambda>_. Ok WriteOutcome))"
proof -
  have "validate_operation_access d a = Ok ()" using assms(1) by (simp add: validate_operation_access_def)
  then show ?thesis
    using assms(2,3)
    by (cases res) (simp_all add: dispatch_def access_region_id_def run_handler_def virtio_handler_write_def Let_def)
qed

text \<open>A dispatcher with the sample device in a window at \<open>0x10000000\<close>.\<close>

definition sample_window :: mmio_region where
  "sample_window = \<lparr>mr_id = 5, mr_range = \<lparr>gmr_start = 0x10000000, gmr_size = 0x1000, gmr_end_exclusive = 0x10001000\<rparr>\<rparr>"

definition sample_dispatcher :: "(unit, nat) virtio_mmio_register_handler mmio_dispatcher" where
  "sample_dispatcher = (dispatcher_new 0)\<lparr>md_bus := \<lparr>bus_regions = [sample_window]\<rparr>, md_handlers := [5 \<mapsto> sample_handler]\<rparr>"

lemma sample_dispatcher_run: "dispatcher_run hread hwrite (dispatcher_new 0) sample_dispatcher"
proof -
  let ?d1 = "(dispatcher_new 0)\<lparr>md_bus := \<lparr>bus_regions = [sample_window]\<rparr>\<rparr>"
  have "dispatcher_insert_region (dispatcher_new 0) 5 0x10000000 0x1000 = (?d1, Ok sample_window)"
    by (simp add: dispatcher_insert_region_def has_leased_region_id_def dispatcher_new_def bus_insert_def bus_new_def
        mmio_region_new_def range_new_def checked_add_def partition_point_def vec_insert_def sample_window_def)
  moreover have "register_handler ?d1 5 sample_handler = (sample_dispatcher, Ok ())"
    by (simp add: register_handler_def has_leased_region_id_def dispatcher_new_def sample_dispatcher_def)
  ultimately show ?thesis
    using step_insert_region [of hread hwrite "dispatcher_new 0" 5 "0x10000000" "0x1000"]
      step_register [of hread hwrite ?d1 5 sample_handler]
    by (metis fst_conv r_into_rtranclp rtranclp.rtrancl_into_rtrancl)
qed

lemma sample_status_write:
  "handler_write_register sample_ops sample_handler Status 1 =
     (update_core (\<lambda>c. c\<lparr>dc_device := (dc_device c)\<lparr>dr_status := 1\<rparr>\<rparr>) sample_handler, Ok ())"
  by (rule write_status_advance) (simp add: sample_handler_def core_from_parts_def sample_device_def)

text \<open>
  C18: a store of the guest, end to end.  On any dispatcher the monitor can have built, a 32-bit
  store at the offset of a writable register in the window of a virtio device is resolved by the
  bus, accepted as an operation, and dispatched to the handler of that device as the write of that
  register with the stored value; the other devices, the bus and the leases stay as they are.
\<close>

theorem guest_register_write:
  assumes run: "dispatcher_run (virtio_handler_read ops display) (virtio_handler_write ops display) (dispatcher_new p) d"
    and reg: "region \<in> set (bus_regions (md_bus d))"
    and size: "gmr_size (mr_range region) = VIRTIO_MMIO_DEVICE_WINDOW_SIZE"
    and h: "md_handlers d (mr_id region) = Some h" and r: "is_writable r"
    and w: "handler_write_register ops h r v = (h', res)"
  shows "\<exists>a data. dispatcher_lookup d (gmr_start (mr_range region) + register_offset r) 4 = Ok a \<and>
    access_bytes_new (to_le_bytes v) = Ok data \<and> mmio_operation_write a data = Ok (OpWrite a data) \<and>
    dispatch (virtio_handler_read ops display) (virtio_handler_write ops display) d (OpWrite a data) =
      (d\<lparr>md_handlers := (md_handlers d)(mr_id region \<mapsto> h')\<rparr>,
       and_then (map_err (\<lambda>e. HandlerFailed (mr_id region) KindWrite (MmioHandlerError (display e))) res)
         (\<lambda>_. Ok WriteOutcome))"
proof -
  have wf: "bus_wf (md_bus d)" by (rule dispatcher_wfD(1) [OF reachable_wf [OF run]])
  obtain a where a: "dispatcher_lookup d (gmr_start (mr_range region) + register_offset r) 4 = Ok a"
    "ma_region a = region" "gmr_size (ma_range a) = 4" "ma_offset a = register_offset r"
    "gmr_start (ma_range a) = gmr_start (mr_range region) + register_offset r"
    by (rule window_lookup [OF wf reg size])
  obtain data where data: "access_bytes_new (to_le_bytes v) = Ok data" "mab_len data = 4"
    "4 \<le> length (mab_bytes data)" "access_bytes_as_slice data = to_le_bytes v" by (rule register_value_bytes)
  have op: "mmio_operation_write a data = Ok (OpWrite a data)"
    using a(3) data(2) by (simp add: mmio_operation_write_def mmio_operation_len_def)
  have wa: "write_access ops h a data = (h', res)"
    using write_access_register [OF a(3,4) r data(2,3), of ops h] w by (simp add: data(4))
  from a(1) data(1) op dispatch_virtio_write [of d a, OF _ _ wa] show ?thesis
    using a h by (auto simp: dispatcher_lookup_def)
qed

theorem guest_register_write_witness:
  "\<exists>a data. dispatcher_lookup sample_dispatcher 0x10000070 4 = Ok a \<and>
     mmio_operation_write a data = Ok (OpWrite a data) \<and>
     dispatch (virtio_handler_read sample_ops (\<lambda>_. [])) (virtio_handler_write sample_ops (\<lambda>_. [])) sample_dispatcher
       (OpWrite a data) =
     (sample_dispatcher\<lparr>md_handlers :=
        [5 \<mapsto> update_core (\<lambda>c. c\<lparr>dc_device := (dc_device c)\<lparr>dr_status := 1\<rparr>\<rparr>) sample_handler]\<rparr>, Ok WriteOutcome)"
  using guest_register_write [OF sample_dispatcher_run, of sample_window sample_handler Status sample_ops 1 _ _ "\<lambda>_. []",
      OF _ _ _ _ sample_status_write]
  by (auto simp: sample_dispatcher_def sample_window_def VIRTIO_MMIO_DEVICE_WINDOW_SIZE_def is_writable_def)

section \<open>What the guest can do to the devices\<close>

text \<open>One operation of the guest, dispatched without aborting the thread.\<close>

inductive guest_access for ops display where
  "dispatch (virtio_handler_read ops display) (virtio_handler_write ops display) d op = (d', res) \<Longrightarrow> res \<noteq> Panic \<Longrightarrow>
   guest_access ops display d d'"

lemma run_virtio_handler:
  assumes "run_handler (virtio_handler_read ops display) (virtio_handler_write ops display) h op = (h', res)"
    and "res \<noteq> Panic"
  shows "transport_run ops h h'"
proof (cases op)
  case (OpRead a data)
  then show ?thesis using assms by (simp add: run_handler_def virtio_handler_read_def)
next
  case (OpWrite a data)
  obtain h2 r where w: "write_access ops h a data = (h2, r)" by fastforce
  then have "h' = h2" "r \<noteq> Panic" using assms OpWrite by (auto simp: run_handler_def virtio_handler_write_def)
  then show ?thesis using transport_step.guest_write [OF w] by blast
qed

lemma guest_access_step:
  assumes "guest_access ops display d d'"
  shows "md_bus d' = md_bus d \<and> rel_option (transport_run ops) (md_handlers d i) (md_handlers d' i)"
  using assms
proof cases
  case (1 op res)
  have refl: "rel_option (transport_run ops) x x" for x by (cases x) auto
  from 1 show ?thesis
    by (cases rule: dispatch_cases [of "virtio_handler_read ops display" "virtio_handler_write ops display" d op])
      (auto simp: refl run_virtio_handler)
qed

text \<open>
  C17: the guest reaches the devices only by their transports.  Whatever sequence of operations the
  guest has dispatched, the bus is unchanged, no device appears or disappears, and the state of
  every device comes from its former state by a run of its transport, so it is consistent if it was.
\<close>

theorem guest_access_simulation:
  assumes "(guest_access ops display)\<^sup>*\<^sup>* d d'"
  shows "md_bus d' = md_bus d \<and>
    (\<forall>i. case (md_handlers d i, md_handlers d' i) of
       (None, None) \<Rightarrow> True
     | (Some h, Some h') \<Rightarrow> transport_run ops h h' \<and> (handler_wf h \<longrightarrow> handler_wf h')
     | _ \<Rightarrow> False)"
proof -
  have "md_bus d' = md_bus d \<and> rel_option (transport_run ops) (md_handlers d i) (md_handlers d' i)" for i
    using assms
  proof (induction rule: rtranclp_induct)
    case base
    show ?case by (cases "md_handlers d i") auto
  next
    case (step d1 d2)
    then show ?case
      using guest_access_step [OF step(2), of i] by (auto simp: rel_option_iff split: option.splits)
  qed
  then show ?thesis
    using transport_run_wf by (fastforce simp: rel_option_iff split: option.splits)
qed

theorem guest_access_simulation_witness:
  "\<exists>d'. guest_access sample_ops (\<lambda>_. []) sample_dispatcher d' \<and> md_bus d' = md_bus sample_dispatcher \<and>
     (case md_handlers d' 5 of Some h' \<Rightarrow> transport_run sample_ops sample_handler h' \<and> handler_wf h' | None \<Rightarrow> False)"
proof -
  let ?h = "update_core (\<lambda>c. c\<lparr>dc_device := (dc_device c)\<lparr>dr_status := 1\<rparr>\<rparr>) sample_handler"
  let ?d = "sample_dispatcher\<lparr>md_handlers := (md_handlers sample_dispatcher)(5 \<mapsto> ?h)\<rparr>"
  have wf: "bus_wf (md_bus sample_dispatcher)"
    by (rule dispatcher_wfD(1) [OF reachable_wf [OF sample_dispatcher_run]])
  obtain a where a: "dispatcher_lookup sample_dispatcher (gmr_start (mr_range sample_window) + register_offset Status) 4 = Ok a"
    "ma_region a = sample_window" "gmr_size (ma_range a) = 4" "ma_offset a = register_offset Status"
    "gmr_start (ma_range a) = gmr_start (mr_range sample_window) + register_offset Status"
    by (rule window_lookup [OF wf, of sample_window Status])
      (simp_all add: sample_dispatcher_def sample_window_def VIRTIO_MMIO_DEVICE_WINDOW_SIZE_def)
  obtain data where data: "mab_len data = 4" "4 \<le> length (mab_bytes data)"
    "access_bytes_as_slice data = to_le_bytes (1 :: u32)" by (rule register_value_bytes)
  have "write_access sample_ops sample_handler a data = (?h, Ok ())"
    using write_access_register [OF a(3,4) _ data(1,2), of sample_ops sample_handler] sample_status_write
    by (simp add: data(3) is_writable_def)
  then have "dispatch (virtio_handler_read sample_ops (\<lambda>_. [])) (virtio_handler_write sample_ops (\<lambda>_. [])) sample_dispatcher
      (OpWrite a data) = (?d, Ok WriteOutcome)"
    using dispatch_virtio_write [of sample_dispatcher a sample_handler sample_ops data ?h "Ok ()"] a
    by (simp add: dispatcher_lookup_def) (simp add: sample_dispatcher_def sample_window_def)
  then have acc: "guest_access sample_ops (\<lambda>_. []) sample_dispatcher ?d" by (rule guest_access.intros) simp
  moreover have "handler_wf sample_handler" by (rule register_handler_new_wf [OF sample_handler_new])
  ultimately show ?thesis
    using guest_access_simulation [OF r_into_rtranclp, OF acc]
    by (intro exI [of _ ?d]) (auto simp: sample_dispatcher_def dest!: spec [of _ 5])
qed

section \<open>The queues a driver sets up\<close>

text \<open>
  C38: from the transport to the virtqueues.  Every queue with a size that a driver can have
  programmed passes the checks of the virtqueue constructors: its size is a power of two and its
  three addresses are aligned, so the available and the used ring are built from it, with the
  cursors asked for, unless a ring runs past the end of the address space.
\<close>

theorem programmed_queue_rings:
  assumes new: "register_handler_new i ven f g sizes c a req = Ok h0" and run: "transport_run ops h0 h"
    and q: "q \<in> set (qr_queues (dc_queues (rh_core h)))" and size: "qs_size q \<noteq> 0"
  shows "available_ring_with_next_avail (qs_descriptor_table q) (qs_driver_ring q) (qs_size q) next_avail =
      (if unat (qs_driver_ring q) + (6 + unat (qs_size q) * 2) < 2 ^ 64
       then Ok \<lparr>va_descriptor_table = qs_descriptor_table q, va_available_ring = qs_driver_ring q,
              va_queue_size = qs_size q, va_next_avail = next_avail, va_can_undo_pop = False, va_indirect_descriptors = False\<rparr>
       else Err (Avail_AvailableRingRangeOverflow (qs_driver_ring q) (qs_size q))) \<and>
    used_ring_with_next_used (qs_device_ring q) (qs_size q) next_used =
      (if unat (qs_device_ring q) + (6 + unat (qs_size q) * 8) < 2 ^ 64
       then Ok \<lparr>vu_used_ring = qs_device_ring q, vu_queue_size = qs_size q, vu_next_used = next_used\<rparr>
       else Err (Used_UsedRingRangeOverflow (qs_device_ring q) (qs_size q)))"
proof -
  have "queue_wf q"
    using transport_run_wf [OF run register_handler_new_wf [OF new]] q
    by (simp add: handler_wf_def core_wf_def queues_wf_def)
  then have "is_valid_queue_size (qs_size q)" and al: "is_multiple_of (queue_address q kind) (address_alignment kind)" for kind
    using size by (auto simp: queue_wf_def is_valid_queue_size_def)
  then show ?thesis
    using al [of DescriptorTable] al [of DriverRing] al [of DeviceRing]
    by (simp add: available_ring_with_next_avail_def used_ring_with_next_used_def available_ring_size_eq used_ring_size_eq)
qed

theorem programmed_queue_rings_witness:
  "available_ring_with_next_avail 0 0 128 7 =
     Ok \<lparr>va_descriptor_table = 0, va_available_ring = 0, va_queue_size = 128, va_next_avail = 7,
         va_can_undo_pop = False, va_indirect_descriptors = False\<rparr>"
  using programmed_queue_rings [OF sample_handler_new active_run,
      of "(queue_state_new 256)\<lparr>qs_size := 128, qs_ready := True\<rparr>" 7]
  by (simp add: active_handler_def negotiated_handler_def update_core_def core_from_parts_def queue_state_new_def)

end
